(* ===== verification/Prelude.thy ===== *)
theory Prelude
  imports Complex_Main "HOL-Library.Sublist" "HOL-Library.List_Lexorder" "HOL-Library.Char_ord"
begin

section \<open>Shared vocabulary of the development\<close>

text \<open>
  What every component theory uses: the type names of the model, error results, and the parts of
  Python's string, list and dictionary operations that the modelled code calls.

  Strings are Isabelle strings. The model is faithful for ASCII text: \<open>py_lower\<close>, \<open>py_isspace\<close>
  and the regular expressions of theory \<open>Py_Re\<close> know the ASCII classes only, where Python also
  knows the Unicode ones. A dictionary whose order is observable is an association list with
  distinct keys, in insertion order.
\<close>

type_synonym route_id = string
type_synonym node_id = string
type_synonym ('k, 'v) dict = "('k \<times> 'v) list"

named_theorems res_simps \<open>how error results propagate\<close>
named_theorems py_simps \<open>facts on the Python string and list operations\<close>


subsection \<open>Results\<close>

text \<open>A computation that may raise: \<open>Inl\<close> is the exception, \<open>Inr\<close> the value.\<close>

fun bind_res :: "'e + 'a \<Rightarrow> ('a \<Rightarrow> 'e + 'b) \<Rightarrow> 'e + 'b" where
  "bind_res (Inl e) f = Inl e"
| "bind_res (Inr x) f = f x"

definition guard_res :: "bool \<Rightarrow> 'e \<Rightarrow> 'e + unit" where
  "guard_res b e = (if b then Inr () else Inl e)"

fun map_res :: "('a \<Rightarrow> 'e + 'b) \<Rightarrow> 'a list \<Rightarrow> 'e + 'b list" where
  "map_res f [] = Inr []"
| "map_res f (x # xs) = bind_res (f x) (\<lambda>y. bind_res (map_res f xs) (\<lambda>ys. Inr (y # ys)))"


subsection \<open>Python strings\<close>

definition py_isspace :: "char \<Rightarrow> bool" where
  "py_isspace c \<longleftrightarrow> of_char c \<in> {9, 10, 11, 12, 13, 28, 29, 30, 31, 32 :: nat}"

definition py_lower_char :: "char \<Rightarrow> char" where
  "py_lower_char c =
     (if 65 \<le> (of_char c :: nat) \<and> (of_char c :: nat) \<le> 90 then char_of (of_char c + 32 :: nat) else c)"

definition py_lower :: "string \<Rightarrow> string" where
  "py_lower s = map py_lower_char s"

definition py_upper_char :: "char \<Rightarrow> char" where
  "py_upper_char c =
     (if 97 \<le> (of_char c :: nat) \<and> (of_char c :: nat) \<le> 122 then char_of (of_char c - 32 :: nat) else c)"

definition py_upper :: "string \<Rightarrow> string" where
  "py_upper s = map py_upper_char s"

definition py_strip :: "string \<Rightarrow> string" where
  "py_strip s = rev (dropWhile py_isspace (rev (dropWhile py_isspace s)))"

definition rstrip_char :: "char \<Rightarrow> string \<Rightarrow> string" where
  "rstrip_char c s = rev (dropWhile (\<lambda>d. d = c) (rev s))"

definition py_replace_char :: "char \<Rightarrow> char \<Rightarrow> string \<Rightarrow> string" where
  "py_replace_char a b s = map (\<lambda>c. if c = a then b else c) s"

text \<open>\<open>p in s\<close> on strings.\<close>

fun contains_sub :: "string \<Rightarrow> string \<Rightarrow> bool" where
  "contains_sub p [] = (p = [])"
| "contains_sub p (c # s) = (prefix p (c # s) \<or> contains_sub p s)"

text \<open>\<open>s.split(c)\<close> for a one-character separator; never the empty list.\<close>

fun py_split :: "char \<Rightarrow> string \<Rightarrow> string list" where
  "py_split c [] = [[]]"
| "py_split c (d # s) =
     (if d = c then [] # py_split c s
      else (case py_split c s of [] \<Rightarrow> [[d]] | w # ws \<Rightarrow> (d # w) # ws))"

fun py_join :: "string \<Rightarrow> string list \<Rightarrow> string" where
  "py_join sep [] = []"
| "py_join sep [w] = w"
| "py_join sep (w # ws) = w @ sep @ py_join sep ws"

text \<open>\<open>s[:n]\<close> and \<open>s[-n:]\<close> for a positive literal \<open>n\<close>.\<close>

abbreviation py_head :: "nat \<Rightarrow> 'a list \<Rightarrow> 'a list" where
  "py_head n s \<equiv> take n s"

definition py_tail :: "nat \<Rightarrow> 'a list \<Rightarrow> 'a list" where
  "py_tail n s = drop (length s - n) s"


subsection \<open>Python lists, sets and dictionaries\<close>

text \<open>\<open>tuple(dict.fromkeys(xs))\<close>: the first occurrences, in order.\<close>

fun py_dedupe :: "'a list \<Rightarrow> 'a list" where
  "py_dedupe [] = []"
| "py_dedupe (x # xs) = x # filter (\<lambda>y. y \<noteq> x) (py_dedupe xs)"

text \<open>\<open>d[k] = v\<close>: an existing key keeps its place, a new key goes last.\<close>

fun dict_put :: "'k \<Rightarrow> 'v \<Rightarrow> ('k, 'v) dict \<Rightarrow> ('k, 'v) dict" where
  "dict_put k v [] = [(k, v)]"
| "dict_put k v ((k', v') # d) = (if k' = k then (k, v) # d else (k', v') # dict_put k v d)"

text \<open>A dictionary built from pairs in order, as a dict comprehension builds it.\<close>

definition dict_of :: "('k \<times> 'v) list \<Rightarrow> ('k, 'v) dict" where
  "dict_of kvs = foldl (\<lambda>d (k, v). dict_put k v d) [] kvs"

text \<open>\<open>sorted(set(xs))\<close>.\<close>

definition sorted_set :: "'a::linorder list \<Rightarrow> 'a list" where
  "sorted_set xs = sort (py_dedupe xs)"

definition dict_del :: "'k \<Rightarrow> ('k, 'v) dict \<Rightarrow> ('k, 'v) dict" where
  "dict_del k d = filter (\<lambda>(k', v). k' \<noteq> k) d"

definition dict_keys :: "('k, 'v) dict \<Rightarrow> 'k list" where
  "dict_keys d = map fst d"

definition map_vals :: "('v \<Rightarrow> 'w) \<Rightarrow> ('k, 'v) dict \<Rightarrow> ('k, 'w) dict" where
  "map_vals f d = map (\<lambda>(k, v). (k, f v)) d"

text \<open>A dictionary in the order of its keys, as \<open>json.dumps\<close> writes it with \<open>sort_keys\<close>.\<close>

definition by_key :: "('k::linorder, 'v) dict \<Rightarrow> ('k, 'v) dict" where
  "by_key d = sort_key fst d"

definition dict_wf :: "('k, 'v) dict \<Rightarrow> bool" where
  "dict_wf d \<longleftrightarrow> distinct (map fst d)"


section \<open>Lemmas on the shared vocabulary\<close>

lemma set_by_key [simp]: "set (by_key d) = set d"
  by (simp add: by_key_def)

subsection \<open>Results\<close>

lemma bind_res_Inr [res_simps]: "bind_res r f = Inr y \<longleftrightarrow> (\<exists>x. r = Inr x \<and> f x = Inr y)"
  by (cases r) auto

lemma bind_res_Inl [res_simps]:
  "bind_res r f = Inl e \<longleftrightarrow> r = Inl e \<or> (\<exists>x. r = Inr x \<and> f x = Inl e)"
  by (cases r) auto

lemma guard_res_Inr [res_simps]: "guard_res b e = Inr u \<longleftrightarrow> b"
  by (simp add: guard_res_def)

lemma guard_res_Inl [res_simps]: "guard_res b e = Inl e' \<longleftrightarrow> \<not> b \<and> e' = e"
  by (auto simp: guard_res_def)

lemma not_isl_ex: "\<not> isl x \<Longrightarrow> \<exists>y. x = Inr y"
  by (cases x) auto

lemma map_res_Inr: "map_res f xs = Inr ys \<longleftrightarrow> list_all2 (\<lambda>x y. f x = Inr y) xs ys"
proof (induction xs arbitrary: ys)
  case Nil
  then show ?case by auto
next
  case (Cons x xs)
  then show ?case by (cases ys) (auto simp: res_simps)
qed

lemma map_res_set: "map_res f xs = Inr ys \<Longrightarrow> y \<in> set ys \<Longrightarrow> \<exists>x\<in>set xs. f x = Inr y"
  unfolding map_res_Inr by (induction xs ys rule: list_all2_induct) auto


subsection \<open>Strings\<close>

lemma contains_sub_iff: "contains_sub p s \<longleftrightarrow> (\<exists>a b. s = a @ p @ b)"
proof (induction s)
  case Nil
  then show ?case by auto
next
  case (Cons c s)
  show ?case
  proof
    assume "contains_sub p (c # s)"
    then consider "prefix p (c # s)" | "contains_sub p s" by auto
    then show "\<exists>a b. c # s = a @ p @ b"
    proof cases
      case 1
      then show ?thesis by (metis append_Nil prefix_def)
    next
      case 2
      then show ?thesis using Cons.IH by (metis append_Cons)
    qed
  next
    assume "\<exists>a b. c # s = a @ p @ b"
    then obtain a b where ab: "c # s = a @ p @ b" by blast
    show "contains_sub p (c # s)"
    proof (cases a)
      case Nil
      with ab have "prefix p (c # s)" by simp
      then show ?thesis by simp
    next
      case (Cons d a')
      with ab have "s = a' @ p @ b" by simp
      then have "contains_sub p s" using Cons.IH by blast
      then show ?thesis by simp
    qed
  qed
qed

lemma py_split_ne [simp]: "py_split c s \<noteq> []"
  by (induction s) (auto split: list.split)

lemma py_split_free: "w \<in> set (py_split c s) \<Longrightarrow> c \<notin> set w"
proof (induction s arbitrary: w)
  case Nil
  then show ?case by simp
next
  case (Cons d s)
  obtain u us where u: "py_split c s = u # us" by (cases "py_split c s") auto
  with Cons show ?case by (auto split: if_splits)
qed

lemma set_py_split: "w \<in> set (py_split c s) \<Longrightarrow> set w \<subseteq> set s"
proof (induction s arbitrary: w)
  case (Cons d s)
  obtain u us where u: "py_split c s = u # us" by (cases "py_split c s") auto
  with Cons.IH have "v \<in> set (u # us) \<Longrightarrow> set v \<subseteq> set s" for v by metis
  with u Cons.prems show ?case by (fastforce split: if_splits)
qed simp

lemma py_split_free_id: "c \<notin> set s \<Longrightarrow> py_split c s = [s]"
  by (induction s) auto

lemma py_split_append: "py_split c (u @ c # v) = py_split c u @ py_split c v"
proof (induction u)
  case (Cons d u)
  then show ?case by (cases "py_split c u") auto
qed simp

lemma py_split_append_sep:
  "c \<notin> set w \<Longrightarrow> py_split c (w @ c # s) = w # py_split c s"
  by (simp add: py_split_append py_split_free_id)

lemma py_join_split: "py_join [c] (py_split c s) = s"
proof (induction s)
  case (Cons d s)
  obtain u us where "py_split c s = u # us" by (cases "py_split c s") auto
  with Cons show ?case by (cases us) auto
qed simp

lemma py_split_join:
  "ws \<noteq> [] \<Longrightarrow> (\<And>w. w \<in> set ws \<Longrightarrow> c \<notin> set w) \<Longrightarrow> py_split c (py_join [c] ws) = ws"
  by (induction "[c]" ws rule: py_join.induct) (auto simp: py_split_free_id py_split_append_sep)

lemma py_join_ne: "ws \<noteq> [] \<Longrightarrow> (\<And>w. w \<in> set ws \<Longrightarrow> w \<noteq> []) \<Longrightarrow> py_join sep ws \<noteq> []"
  by (induction sep ws rule: py_join.induct) auto

lemma py_join_append:
  "us \<noteq> [] \<Longrightarrow> vs \<noteq> [] \<Longrightarrow> py_join sep (us @ vs) = py_join sep us @ sep @ py_join sep vs"
  by (induction sep us rule: py_join.induct) (auto simp: neq_Nil_conv)

lemma length_py_join_Cons_le: "length (py_join sep ws) \<le> length (py_join sep (w # ws))"
  by (cases ws) auto

lemma length_py_join_mono:
  "length (py_join sep us) \<le> length (py_join sep vs) \<Longrightarrow> (vs = [] \<longrightarrow> us = []) \<Longrightarrow>
   length (py_join sep (w # us)) \<le> length (py_join sep (w # vs))"
  by (cases us; cases vs) auto

lemma length_py_join_filter: "length (py_join sep (filter P ws)) \<le> length (py_join sep ws)"
proof (induction ws)
  case (Cons w ws)
  show ?case
  proof (cases "P w")
    case True
    then show ?thesis using Cons.IH by (auto intro!: length_py_join_mono)
  next
    case False
    then show ?thesis using Cons.IH length_py_join_Cons_le [of sep ws w] by simp
  qed
qed simp

lemma set_py_join: "set (py_join sep ws) \<subseteq> set sep \<union> (\<Union>w\<in>set ws. set w)"
  by (induction sep ws rule: py_join.induct) auto

lemma hd_py_join: "ws \<noteq> [] \<Longrightarrow> hd ws \<noteq> [] \<Longrightarrow> hd (py_join sep ws) = hd (hd ws)"
  by (induction sep ws rule: py_join.induct) auto

lemma py_join_last_ne: "ws \<noteq> [] \<Longrightarrow> last ws \<noteq> [] \<Longrightarrow> py_join sep ws \<noteq> []"
  by (induction sep ws rule: py_join.induct) auto

lemma last_py_join: "ws \<noteq> [] \<Longrightarrow> last ws \<noteq> [] \<Longrightarrow> last (py_join sep ws) = last (last ws)"
proof (induction sep ws rule: py_join.induct)
  case (3 sep w v vs)
  then have "py_join sep (v # vs) \<noteq> []" by (intro py_join_last_ne) auto
  with 3 show ?case by (simp del: py_join.simps(2,3) add: py_join.simps(3) [of sep w v vs])
qed auto

lemma rstrip_char_id: "s = [] \<or> last s \<noteq> c \<Longrightarrow> rstrip_char c s = s"
  by (cases s rule: rev_cases) (auto simp: rstrip_char_def)

lemma py_strip_id: "(\<And>c. c \<in> set s \<Longrightarrow> \<not> py_isspace c) \<Longrightarrow> py_strip s = s"
  by (simp add: py_strip_def)
     (metis dropWhile_eq_self_iff hd_in_set rev_rev_ident set_rev)

lemma set_dropWhile_sub: "set (dropWhile P s) \<subseteq> set s"
  by (meson set_dropWhileD subsetI)

lemma set_py_strip: "set (py_strip s) \<subseteq> set s"
  unfolding py_strip_def using set_dropWhile_sub by (metis set_rev subset_trans)

lemma dropWhile_hd_last:
  "dropWhile P (rev (dropWhile P s)) = rev t \<Longrightarrow> t = [] \<or> (\<not> P (hd t) \<and> \<not> P (last t))"
proof -
  assume a: "dropWhile P (rev (dropWhile P s)) = rev t"
  have "t = [] \<or> \<not> P (last t)"
    using hd_dropWhile [of P "rev (dropWhile P s)"] a by (cases "t = []") (auto simp: hd_rev)
  moreover have "t = [] \<or> \<not> P (hd t)"
  proof (cases "t = []")
    case False
    have "suffix (rev t) (rev (dropWhile P s))"
      using a suffix_dropWhile by metis
    then have "prefix t (dropWhile P s)"
      by (simp add: suffix_to_prefix)
    with False have "hd t = hd (dropWhile P s)" "dropWhile P s \<noteq> []"
      by (metis hd_append2 prefix_def, metis prefix_Nil)
    then show ?thesis using hd_dropWhile [of P s] by simp
  qed simp
  ultimately show ?thesis by blast
qed

lemma py_strip_ends: "py_strip s = [] \<or> (\<not> py_isspace (hd (py_strip s)) \<and> \<not> py_isspace (last (py_strip s)))"
  by (rule dropWhile_hd_last [where s = s]) (simp add: py_strip_def)

lemma py_strip_fixed:
  "s = [] \<or> (\<not> py_isspace (hd s) \<and> \<not> py_isspace (last s)) \<Longrightarrow> py_strip s = s"
proof (cases "s = []")
  case False
  assume "s = [] \<or> (\<not> py_isspace (hd s) \<and> \<not> py_isspace (last s))"
  with False have "dropWhile py_isspace s = s" "dropWhile py_isspace (rev s) = rev s"
    by (simp_all add: dropWhile_eq_self_iff hd_rev)
  then show ?thesis by (simp add: py_strip_def)
qed (simp add: py_strip_def)

lemma dropWhile_full: "length (dropWhile P xs) = length xs \<Longrightarrow> dropWhile P xs = xs"
  using length_dropWhile_le [of P "tl xs"] by (cases xs) auto

lemma py_strip_long: "length s \<le> length (py_strip s) \<Longrightarrow> py_strip s = s"
proof -
  assume a: "length s \<le> length (py_strip s)"
  have "length (dropWhile py_isspace s) \<le> length s" "length (py_strip s) \<le> length (dropWhile py_isspace s)"
    using length_dropWhile_le [of py_isspace s]
      length_dropWhile_le [of py_isspace "rev (dropWhile py_isspace s)"]
    by (simp_all add: py_strip_def)
  with a have "length (dropWhile py_isspace s) = length s"
    "length (dropWhile py_isspace (rev (dropWhile py_isspace s))) = length (rev (dropWhile py_isspace s))"
    by (simp_all add: py_strip_def)
  then have "dropWhile py_isspace s = s" "dropWhile py_isspace (rev s) = rev s"
    by (metis dropWhile_full)+
  then show ?thesis by (simp add: py_strip_def)
qed

lemma length_py_tail [simp]: "length (py_tail n s) = min n (length s)"
  by (simp add: py_tail_def)


subsection \<open>Lists and dictionaries\<close>

lemma set_py_dedupe [simp]: "set (py_dedupe xs) = set xs"
  by (induction xs) auto

lemma distinct_py_dedupe [simp]: "distinct (py_dedupe xs)"
  by (induction xs) auto

lemma map_of_dict_put [simp]: "map_of (dict_put k v d) = (map_of d)(k \<mapsto> v)"
  by (induction k v d rule: dict_put.induct) auto

lemma dict_put_put [simp]: "dict_put k v (dict_put k w d) = dict_put k v d"
  by (induction k w d rule: dict_put.induct) auto

lemma keys_dict_put: "set (map fst (dict_put k v d)) = insert k (set (map fst d))"
  by (induction k v d rule: dict_put.induct) auto

lemma keys_dict_put_present:
  "k \<in> set (map fst d) \<Longrightarrow> map fst (dict_put k v d) = map fst d"
  by (induction k v d rule: dict_put.induct) auto

lemma dict_wf_put: "dict_wf d \<Longrightarrow> dict_wf (dict_put k v d)"
  unfolding dict_wf_def
  by (induction k v d rule: dict_put.induct) (auto simp: keys_dict_put simp flip: set_map)

lemma dict_put_new: "k \<notin> set (map fst d) \<Longrightarrow> dict_put k v d = d @ [(k, v)]"
  by (induction k v d rule: dict_put.induct) auto

lemma dict_of_distinct: "distinct (map fst kvs) \<Longrightarrow> dict_of kvs = kvs"
proof (induction kvs rule: rev_induct)
  case (snoc kv kvs)
  then show ?case by (cases kv) (simp add: dict_of_def dict_put_new)
qed (simp add: dict_of_def)

lemma set_sorted_set [simp]: "set (sorted_set xs) = set xs"
  by (simp add: sorted_set_def)

lemma map_of_dict_del [simp]: "map_of (dict_del k d) = (map_of d)(k := None)"
  by (induction d) (auto simp: dict_del_def)

lemma dict_wf_del: "dict_wf d \<Longrightarrow> dict_wf (dict_del k d)"
  by (induction d) (auto simp: dict_wf_def dict_del_def)

lemma map_of_map_vals [simp]: "map_of (map_vals f d) k = map_option f (map_of d k)"
  by (induction d) (auto simp: map_vals_def)

lemma dict_wf_map_vals [simp]: "dict_wf (map_vals f d) = dict_wf d"
  by (simp add: dict_wf_def map_vals_def case_prod_beta comp_def)

lemma map_of_filter_key: "map_of (filter (\<lambda>kv. fst kv = k) d) k = map_of d k"
  by (induction d) auto

lemma map_of_by_key [simp]: "map_of (by_key d) k = map_of d k"
  using map_of_filter_key [of k "by_key d"] map_of_filter_key [of k d]
  by (simp add: by_key_def sort_key_stable)

lemma dict_wf_by_key [simp]: "dict_wf (by_key d) = dict_wf d"
proof -
  have "set (map fst (by_key d)) = set (map fst d)" "length (map fst (by_key d)) = length (map fst d)"
    by (simp_all add: by_key_def)
  then show ?thesis unfolding dict_wf_def by (metis card_distinct distinct_card)
qed

lemma map_of_pairs: "map_of (map (\<lambda>(k, v). (k, f k v)) d) k = map_option (f k) (map_of d k)"
  by (induction d) auto

lemma map_of_filter_values:
  "dict_wf d \<Longrightarrow> map_of (filter (\<lambda>(k, v). P k v) d) k =
     (case map_of d k of None \<Rightarrow> None | Some v \<Rightarrow> if P k v then Some v else None)"
proof (induction d)
  case (Cons kv d)
  obtain k' v' where kv: "kv = (k', v')" by force
  have "map_of d k = None" if "k' = k"
    using Cons.prems that by (auto simp: kv dict_wf_def map_of_eq_None_iff)
  with Cons show ?case by (auto simp: kv dict_wf_def split: option.split)
qed simp

lemma dict_wf_filter: "dict_wf d \<Longrightarrow> dict_wf (filter P d)"
  by (induction d) (auto simp: dict_wf_def)

text \<open>
  A loop over a dictionary whose body changes the entry of the current key only, depending on that
  entry only, changes every entry at most once.
\<close>

lemma map_of_foldl_local:
  assumes step: "\<And>d k v. map_of (f d (k, v)) = (map_of d)(k := g v (map_of d k))" and wf: "dict_wf m"
  shows "map_of (foldl f d m) k = (case map_of m k of None \<Rightarrow> map_of d k | Some v \<Rightarrow> g v (map_of d k))"
  using wf
proof (induction m arbitrary: d)
  case (Cons kv m)
  obtain k' v' where kv: "kv = (k', v')" by force
  have "map_of m k = None" if "k' = k"
    using Cons.prems that by (auto simp: kv dict_wf_def map_of_eq_None_iff)
  with Cons show ?case by (auto simp: kv step dict_wf_def split: option.split)
qed simp

lemma dict_wf_foldl:
  "(\<And>d kv. dict_wf d \<Longrightarrow> dict_wf (f d kv)) \<Longrightarrow> dict_wf d \<Longrightarrow> dict_wf (foldl f d m)"
  by (induction m arbitrary: d) auto

end
