(* ===== verification/Governor.thy ===== *)
theory Governor
  imports Prelude
begin

section \<open>The global concurrency governor\<close>

text \<open>
  Models \<open>verdict/orchestration/concurrency_governor.py\<close>. A float argument is not-a-number, an
  infinity or a finite value; finite arithmetic is rounded by a function \<open>rnd\<close> after each operation,
  as IEEE arithmetic does, and only the monotonicity of rounding is ever relied upon. The reason
  texts are constructors that carry the values the texts show.
\<close>

datatype gov_decision = ADMIT | DEFER | SERIALIZE

datatype pyfloat = NaN | PosInf | NegInf | Fin rat

record admit_request =
  ar_story_id :: string
  ar_needs_coding_worker :: bool
  ar_needs_integration_slot :: bool
  ar_provider_pool :: string

record resource_pressure =
  rp_cpu :: pyfloat
  rp_ram :: pyfloat
  rp_disk :: pyfloat

record run_state =
  rs_running_stories :: int
  rs_running_coding_workers :: int
  rs_running_integration_slots :: int
  rs_story_is_already_running :: bool
  rs_pool_healthy_capacity :: "(string, int) dict"

record governor_caps =
  gc_max_stories :: int
  gc_max_coding_workers :: int
  gc_max_integration_slots :: int

datatype gov_reason =
    PoolUnknown string
  | PoolEmpty string
  | AlreadyRunning string
  | StoryCap int int rat
  | CodingCap int int rat
  | IntegrationCap int int rat
  | WithinCaps

text \<open>\<open>GovernorCaps.__post_init__\<close>.\<close>

definition GovernorCaps :: "int \<Rightarrow> int \<Rightarrow> int \<Rightarrow> governor_caps" where
  "GovernorCaps stories coding integration =
     \<lparr> gc_max_stories = max 1 stories, gc_max_coding_workers = max 1 coding,
       gc_max_integration_slots = max 1 integration \<rparr>"

definition default_caps :: governor_caps where
  "default_caps = GovernorCaps 3 6 2"

fun clamp :: "pyfloat \<Rightarrow> rat" where
  "clamp NaN = 1"
| "clamp PosInf = 1"
| "clamp NegInf = 0"
| "clamp (Fin v) = max 0 (min 1 v)"

definition max_pressure :: "resource_pressure \<Rightarrow> rat" where
  "max_pressure p = max (max (clamp (rp_cpu p)) (clamp (rp_ram p))) (clamp (rp_disk p))"

definition no_pressure :: resource_pressure where
  "no_pressure = \<lparr> rp_cpu = Fin 0, rp_ram = Fin 0, rp_disk = Fin 0 \<rparr>"

text \<open>\<open>int(x)\<close> truncates towards zero.\<close>

definition py_int :: "rat \<Rightarrow> int" where
  "py_int x = (if x \<ge> 0 then \<lfloor>x\<rfloor> else \<lceil>x\<rceil>)"

definition effective_cap :: "(rat \<Rightarrow> rat) \<Rightarrow> int \<Rightarrow> rat \<Rightarrow> int" where
  "effective_cap rnd base pressure =
     (let raw = rnd (of_int base * rnd (1 - pressure)) in max 1 (min base (py_int raw)))"

definition admit ::
  "(rat \<Rightarrow> rat) \<Rightarrow> governor_caps \<Rightarrow> admit_request \<Rightarrow> run_state \<Rightarrow> resource_pressure option
     \<Rightarrow> gov_decision \<times> gov_reason" where
  "admit rnd caps request state pressure =
     (let p = (case pressure of None \<Rightarrow> no_pressure | Some p \<Rightarrow> p);
          max_p = max_pressure p;
          pool = ar_provider_pool request;
          healthy = map_of (rs_pool_healthy_capacity state) pool
      in
      if pool \<noteq> [] \<and> healthy = None then (DEFER, PoolUnknown pool)
      else if pool \<noteq> [] \<and> the healthy \<le> 0 then (DEFER, PoolEmpty pool)
      else if rs_story_is_already_running state then (ADMIT, AlreadyRunning (ar_story_id request))
      else
        let eff_stories = effective_cap rnd (gc_max_stories caps) max_p;
            eff_coding = effective_cap rnd (gc_max_coding_workers caps) max_p;
            eff_integration = effective_cap rnd (gc_max_integration_slots caps) max_p
        in
        if rs_running_stories state \<ge> eff_stories then
          (SERIALIZE, StoryCap (rs_running_stories state) eff_stories max_p)
        else if ar_needs_coding_worker request \<and> rs_running_coding_workers state \<ge> eff_coding then
          (DEFER, CodingCap (rs_running_coding_workers state) eff_coding max_p)
        else if ar_needs_integration_slot request \<and> rs_running_integration_slots state \<ge> eff_integration then
          (DEFER, IntegrationCap (rs_running_integration_slots state) eff_integration max_p)
        else (ADMIT, WithinCaps))"


section \<open>Lemmas\<close>

lemma clamp_bounds: "0 \<le> clamp v \<and> clamp v \<le> 1"
  by (cases v) auto

lemma max_pressure_bounds: "0 \<le> max_pressure p \<and> max_pressure p \<le> 1"
  using clamp_bounds by (simp add: max_pressure_def le_max_iff_disj)

lemma effective_cap_bounds: "1 \<le> base \<Longrightarrow> 1 \<le> effective_cap rnd base p \<and> effective_cap rnd base p \<le> base"
  by (simp add: effective_cap_def Let_def)

lemma py_int_mono: "x \<le> y \<Longrightarrow> py_int x \<le> py_int y"
proof -
  assume h: "x \<le> y"
  show ?thesis
  proof (cases "x \<ge> 0")
    case True
    with h show ?thesis by (simp add: py_int_def floor_mono)
  next
    case neg: False
    show ?thesis
    proof (cases "y \<ge> 0")
      case True
      have "\<lceil>x\<rceil> \<le> 0" using neg by (simp add: ceiling_le_iff)
      also have "0 \<le> \<lfloor>y\<rfloor>" using True by simp
      finally show ?thesis using neg True by (simp add: py_int_def)
    qed (use h neg in \<open>simp add: py_int_def ceiling_mono\<close>)
  qed
qed

lemma effective_cap_mono:
  assumes "mono rnd" and "0 \<le> base" and "p \<le> q"
  shows "effective_cap rnd base q \<le> effective_cap rnd base p"
proof -
  have "rnd (1 - q) \<le> rnd (1 - p)" using assms by (intro monoD [OF assms(1)]) simp
  then have "of_int base * rnd (1 - q) \<le> of_int base * rnd (1 - p)"
    using assms(2) by (intro mult_left_mono) simp_all
  then have "rnd (of_int base * rnd (1 - q)) \<le> rnd (of_int base * rnd (1 - p))"
    by (rule monoD [OF assms(1)])
  from py_int_mono [OF this] show ?thesis by (auto simp: effective_cap_def Let_def)
qed

text \<open>When the pools allow a request at all.\<close>

definition pool_ok :: "admit_request \<Rightarrow> run_state \<Rightarrow> bool" where
  "pool_ok q s \<longleftrightarrow> ar_provider_pool q = [] \<or>
     (case map_of (rs_pool_healthy_capacity s) (ar_provider_pool q) of None \<Rightarrow> False | Some h \<Rightarrow> h > 0)"

definition within_caps ::
  "(rat \<Rightarrow> rat) \<Rightarrow> governor_caps \<Rightarrow> admit_request \<Rightarrow> run_state \<Rightarrow> rat \<Rightarrow> bool" where
  "within_caps rnd caps q s p \<longleftrightarrow>
     rs_running_stories s < effective_cap rnd (gc_max_stories caps) p \<and>
     (ar_needs_coding_worker q \<longrightarrow>
        rs_running_coding_workers s < effective_cap rnd (gc_max_coding_workers caps) p) \<and>
     (ar_needs_integration_slot q \<longrightarrow>
        rs_running_integration_slots s < effective_cap rnd (gc_max_integration_slots caps) p)"

lemma admit_iff:
  "fst (admit rnd caps q s (Some p)) = ADMIT \<longleftrightarrow>
     pool_ok q s \<and> (rs_story_is_already_running s \<or> within_caps rnd caps q s (max_pressure p))"
  by (auto simp: admit_def pool_ok_def within_caps_def Let_def split: option.splits)

lemma within_caps_mono:
  assumes "mono rnd" and "0 \<le> gc_max_stories caps" "0 \<le> gc_max_coding_workers caps"
    "0 \<le> gc_max_integration_slots caps" and "p' \<le> p" and "within_caps rnd caps q s p"
  shows "within_caps rnd caps q s p'"
  using assms(6) effective_cap_mono [OF assms(1) assms(2,5)] effective_cap_mono [OF assms(1) assms(3,5)]
    effective_cap_mono [OF assms(1) assms(4,5)]
  by (auto simp: within_caps_def)


section \<open>Properties\<close>

text \<open>Admission decides exactly: a request is admitted when its pool is known to have healthy
  candidates (or it names none) and its story is already running or every cap that concerns it,
  lowered by the pressure, has room; with caps from the constructor every lowered cap is between
  one and the configured cap, so pressure never stops all work.\<close>

theorem admit_decides:
  "(fst (admit rnd (GovernorCaps a b c) q s (Some p)) = ADMIT \<longleftrightarrow>
      pool_ok q s \<and>
      (rs_story_is_already_running s \<or> within_caps rnd (GovernorCaps a b c) q s (max_pressure p))) \<and>
   (rs_running_stories s \<le> 0 \<and> rs_running_coding_workers s \<le> 0 \<and> rs_running_integration_slots s \<le> 0
      \<longrightarrow> pool_ok q s \<longrightarrow> fst (admit rnd (GovernorCaps a b c) q s (Some p)) = ADMIT)"
proof -
  have "1 \<le> effective_cap rnd (max 1 x) y" for x y
    using effective_cap_bounds [of "max 1 x" rnd y] by simp
  then have "0 < effective_cap rnd (max 1 x) y" for x y
    by (meson less_le_trans zero_less_one)
  then have "k < effective_cap rnd (max 1 x) y" if "k \<le> 0" for k x y
    using that le_less_trans by blast
  then show ?thesis by (simp add: admit_iff within_caps_def GovernorCaps_def)
qed

definition sample_request :: "string \<Rightarrow> admit_request" where
  "sample_request pool = \<lparr> ar_story_id = ''S'', ar_needs_coding_worker = True,
     ar_needs_integration_slot = False, ar_provider_pool = pool \<rparr>"

definition sample_state :: "int \<Rightarrow> int \<Rightarrow> run_state" where
  "sample_state stories coding = \<lparr> rs_running_stories = stories, rs_running_coding_workers = coding,
     rs_running_integration_slots = 0, rs_story_is_already_running = False,
     rs_pool_healthy_capacity = [(''cc'', 2)] \<rparr>"

theorem admit_decides_witness:
  "fst (admit (\<lambda>x. x) (GovernorCaps 0 0 0) (sample_request ''cc'') (sample_state 0 0)
     (Some (no_pressure \<lparr> rp_cpu := NaN \<rparr>))) = ADMIT"
proof -
  have "rs_running_stories (sample_state 0 0) \<le> 0 \<and> rs_running_coding_workers (sample_state 0 0) \<le> 0 \<and>
      rs_running_integration_slots (sample_state 0 0) \<le> 0" "pool_ok (sample_request ''cc'') (sample_state 0 0)"
    by code_simp+
  then show ?thesis
    using conjunct2 [OF admit_decides [of "\<lambda>x. x" 0 0 0 "sample_request ''cc''" "sample_state 0 0"
        "no_pressure \<lparr> rp_cpu := NaN \<rparr>"]]
    by blast
qed

text \<open>Less pressure never refuses what more pressure admits, whatever monotone rounding the
  arithmetic uses.\<close>

theorem admit_monotone_in_pressure:
  assumes "mono rnd" and "max_pressure p' \<le> max_pressure p"
    and "fst (admit rnd (GovernorCaps a b c) q s (Some p)) = ADMIT"
  shows "fst (admit rnd (GovernorCaps a b c) q s (Some p')) = ADMIT"
  using assms within_caps_mono [OF assms(1), of "GovernorCaps a b c" "max_pressure p'" "max_pressure p"]
  by (auto simp: admit_iff GovernorCaps_def)

theorem admit_monotone_in_pressure_witness:
  "fst (admit (\<lambda>x. x) (GovernorCaps 3 6 2) (sample_request ''cc'') (sample_state 1 2)
     (Some (no_pressure \<lparr> rp_cpu := Fin (1/4) \<rparr>))) = ADMIT"
proof (rule admit_monotone_in_pressure)
  show "mono (\<lambda>x. x :: rat)" by (simp add: mono_def)
  show "max_pressure (no_pressure \<lparr> rp_cpu := Fin (1/4) \<rparr>) \<le> max_pressure (no_pressure \<lparr> rp_cpu := Fin (1/3) \<rparr>)"
    "fst (admit (\<lambda>x. x) (GovernorCaps 3 6 2) (sample_request ''cc'') (sample_state 1 2)
       (Some (no_pressure \<lparr> rp_cpu := Fin (1/3) \<rparr>))) = ADMIT"
    by code_simp+
qed

end
