(* ===== verification/Contracts.thy ===== *)
theory Contracts
  imports Prelude
begin

section \<open>The orchestration contracts: nodes, lifecycle, requirements\<close>

text \<open>
  Models the data and checks of \<open>verdict/orchestration/contracts.py\<close> that do not need the whole
  graph: the node lifecycle table, repository paths and ownership, \<open>WorkNode.__post_init__\<close>, the
  eligibility stages and capacity classes, task requirements, route names and review results.
  The work graph itself is in theory \<open>Work_Graph\<close>.
\<close>

subsection \<open>Enumerations\<close>

datatype node_kind = IMPLEMENT | RESEARCH | INTEGRATE | REVIEW

datatype node_state =
    PLANNED | ADMITTED | DISPATCHED | RUNNING | TERMINAL_SUCCESS | TERMINAL_FAILURE
  | VALIDATED | REJECTED | BLOCKED

datatype topology = SOLO | WORKER_CRITIC | PARALLEL_WORK_UNITS

datatype run_outcome = COMPLETE | OUT_BLOCKED | CANCELLED

datatype eligibility_stage =
    DISCOVERED | ENTITLED | HEALTHY | AVAILABLE | TASK_ELIGIBLE | SELECTED

datatype capacity_class = SUBSCRIPTION | FREE | METERED | UNKNOWN

text \<open>The errors the contracts raise, with the values their messages name.\<close>

datatype orch_error =
    IllegalTransition node_state node_state
  | BadOwnedPath string
  | NodeIdAndObjectiveRequired
  | BadKind string
  | NeedsOwnedFiles node_id
  | NeedsVerificationCommand node_id
  | DependsOnItself node_id
  | NoNodes
  | DuplicateNodeIds "node_id list"
  | UnknownDependencies node_id "node_id list"
  | DependencyCycle "node_id list"
  | ConcurrentOwnership node_id node_id "string list"
  | BadMaxParallel
  | NoSuchNode node_id
  | GitFailed string

fun NodeKind :: "string \<Rightarrow> orch_error + node_kind" where
  "NodeKind s =
     (if s = ''implement'' then Inr IMPLEMENT else if s = ''research'' then Inr RESEARCH
      else if s = ''integrate'' then Inr INTEGRATE else if s = ''review'' then Inr REVIEW
      else Inl (BadKind s))"


subsection \<open>Node lifecycle\<close>

fun TRANSITIONS :: "node_state \<Rightarrow> node_state list" where
  "TRANSITIONS PLANNED = [ADMITTED, BLOCKED]"
| "TRANSITIONS ADMITTED = [DISPATCHED, TERMINAL_FAILURE]"
| "TRANSITIONS DISPATCHED = [RUNNING, TERMINAL_FAILURE]"
| "TRANSITIONS RUNNING = [TERMINAL_SUCCESS, TERMINAL_FAILURE]"
| "TRANSITIONS TERMINAL_SUCCESS = [VALIDATED, REJECTED]"
| "TRANSITIONS TERMINAL_FAILURE = [PLANNED, BLOCKED]"
| "TRANSITIONS REJECTED = [PLANNED, BLOCKED]"
| "TRANSITIONS VALIDATED = []"
| "TRANSITIONS BLOCKED = []"

definition check_transition :: "node_state \<Rightarrow> node_state \<Rightarrow> orch_error + unit" where
  "check_transition current target =
     guard_res (target \<in> set (TRANSITIONS current)) (IllegalTransition current target)"

text \<open>The lifecycle as a step relation, and what a node can go through.\<close>

inductive lifecycle_step :: "node_state \<Rightarrow> node_state \<Rightarrow> bool" where
  legal: "check_transition s t = Inr () \<Longrightarrow> lifecycle_step s t"

inductive lifecycle_trace :: "node_state \<Rightarrow> node_state list \<Rightarrow> node_state \<Rightarrow> bool" where
  trace_nil: "lifecycle_trace s [] s"
| trace_cons: "lifecycle_step s t \<Longrightarrow> lifecycle_trace t ts u \<Longrightarrow> lifecycle_trace s (t # ts) u"


subsection \<open>Repository paths\<close>

text \<open>
  \<open>PurePosixPath(text)\<close> drops empty and single-dot components; it is absolute when the text starts
  with a slash; \<open>str\<close> of a path without components is a single dot.
\<close>

definition path_parts :: "string \<Rightarrow> string list" where
  "path_parts s = filter (\<lambda>w. w \<noteq> [] \<and> w \<noteq> ''.'') (py_split CHR ''/'' s)"

definition path_str :: "string list \<Rightarrow> string" where
  "path_str ws = (if ws = [] then ''.'' else py_join ''/'' ws)"

definition norm_path :: "string \<Rightarrow> orch_error + string" where
  "norm_path value =
     (let txt = py_replace_char (CHR 0x5C) (CHR ''/'') (py_strip value) in
      if txt = [] \<or> prefix ''/'' txt \<or> ''..'' \<in> set (path_parts txt) then Inl (BadOwnedPath value)
      else Inr (path_str (path_parts txt)))"


subsection \<open>Work nodes\<close>

text \<open>
  What a caller passes to \<open>WorkNode(...)\<close>. The planner's JSON may hold a boolean or another value
  where a barrier name is expected, and any value as the risk.
\<close>

datatype raw_barrier = BarrierBool bool | BarrierStr string | BarrierOther string

datatype raw_risk = RiskStr string | RiskOther

record raw_node =
  rn_node_id :: node_id
  rn_objective :: string
  rn_kind :: string
  rn_story :: string
  rn_depends_on :: "node_id list"
  rn_owned_files :: "string list"
  rn_required_context :: "string list"
  rn_acceptance :: "string list"
  rn_verification_command :: "string list"
  rn_barrier :: raw_barrier
  rn_risk :: raw_risk
  rn_required_capabilities :: "string list"
  rn_coding :: bool
  rn_reasoning :: bool
  rn_min_context_tokens :: int

record work_node =
  wn_node_id :: node_id
  wn_objective :: string
  wn_kind :: node_kind
  wn_story :: string
  wn_depends_on :: "node_id list"
  wn_owned_files :: "string list"
  wn_required_context :: "string list"
  wn_acceptance :: "string list"
  wn_verification_command :: "string list"
  wn_barrier :: string
  wn_risk :: string
  wn_required_capabilities :: "string list"
  wn_coding :: bool
  wn_reasoning :: bool
  wn_min_context_tokens :: int

definition KNOWN_BARRIERS :: "string list" where
  "KNOWN_BARRIERS = [''integration'', ''ownership'', ''no_change'']"

definition RISKS :: "string list" where
  "RISKS = [''low'', ''medium'', ''high'']"

fun norm_barrier :: "raw_barrier \<Rightarrow> string" where
  "norm_barrier b =
     (let name = (case b of BarrierBool t \<Rightarrow> if t then ''integration'' else ''''
                          | BarrierStr s \<Rightarrow> s | BarrierOther s \<Rightarrow> s)
      in if name \<noteq> '''' \<and> name \<notin> set KNOWN_BARRIERS then '''' else name)"

fun norm_risk :: "raw_risk \<Rightarrow> string" where
  "norm_risk RiskOther = ''medium''"
| "norm_risk (RiskStr s) = (if py_lower s \<in> set RISKS then py_lower s else ''medium'')"

text \<open>
  \<open>WorkNode.__post_init__\<close>, in the order of its checks. The check that the normalised risk is one
  of the three names (line 132) cannot fail after the normalisation before it, so it has no branch.
\<close>

definition WorkNode :: "raw_node \<Rightarrow> orch_error + work_node" where
  "WorkNode r =
     bind_res (guard_res (py_strip (rn_node_id r) \<noteq> [] \<and> py_strip (rn_objective r) \<noteq> [])
                 NodeIdAndObjectiveRequired) (\<lambda>_.
     bind_res (NodeKind (rn_kind r)) (\<lambda>kind.
     bind_res (map_res norm_path (rn_owned_files r)) (\<lambda>owned.
     bind_res (map_res norm_path (rn_required_context r)) (\<lambda>context.
     bind_res (guard_res (kind = IMPLEMENT \<longrightarrow> owned \<noteq> []) (NeedsOwnedFiles (rn_node_id r))) (\<lambda>_.
     bind_res (guard_res (kind = IMPLEMENT \<longrightarrow> rn_verification_command r \<noteq> [])
                 (NeedsVerificationCommand (rn_node_id r))) (\<lambda>_.
     bind_res (guard_res (rn_node_id r \<notin> set (rn_depends_on r))
                 (DependsOnItself (rn_node_id r))) (\<lambda>_.
     Inr \<lparr> wn_node_id = rn_node_id r, wn_objective = rn_objective r, wn_kind = kind,
           wn_story = rn_story r, wn_depends_on = rn_depends_on r, wn_owned_files = owned,
           wn_required_context = context, wn_acceptance = rn_acceptance r,
           wn_verification_command = rn_verification_command r,
           wn_barrier = norm_barrier (rn_barrier r), wn_risk = norm_risk (rn_risk r),
           wn_required_capabilities = rn_required_capabilities r, wn_coding = rn_coding r,
           wn_reasoning = rn_reasoning r,
           wn_min_context_tokens = rn_min_context_tokens r \<rparr>)))))))"

definition owned_by :: "string \<Rightarrow> string \<Rightarrow> bool" where
  "owned_by candidate owned \<longleftrightarrow>
     candidate = owned \<or> prefix (rstrip_char (CHR ''/'') owned @ ''/'') candidate"

definition owns :: "work_node \<Rightarrow> string \<Rightarrow> bool" where
  "owns n path =
     (case norm_path path of
        Inl _ \<Rightarrow> False
      | Inr candidate \<Rightarrow> list_ex (owned_by candidate) (wn_owned_files n))"


subsection \<open>Task requirements\<close>

definition required_capability_tier :: "work_node \<Rightarrow> int" where
  "required_capability_tier node =
     (if wn_kind node = REVIEW \<or> wn_risk node = ''high'' then 1
      else if wn_risk node = ''medium'' \<or> wn_reasoning node then 2 else 3)"

record task_requirements =
  tr_required_capabilities :: "string list"
  tr_min_context_tokens :: int
  tr_coding :: bool
  tr_reasoning :: bool
  tr_frontier_worthy :: bool
  tr_task_category :: string
  tr_exclude_routes :: "route_id list"
  tr_exclude_families :: "string list"
  tr_exclude_pools :: "string list"
  tr_max_capability_tier :: int
  tr_task_family :: "string option"

text \<open>
  \<open>TaskRequirements.for_node(node, exclude_routes=..., exclude_pools=...)\<close>: the keyword arguments
  the runtime overrides are the two exclusion sets; every other field has its default.
\<close>

definition for_node :: "work_node \<Rightarrow> route_id list \<Rightarrow> string list \<Rightarrow> task_requirements" where
  "for_node node exclude_routes exclude_pools =
     \<lparr> tr_required_capabilities = wn_required_capabilities node,
       tr_min_context_tokens = wn_min_context_tokens node,
       tr_coding = wn_coding node, tr_reasoning = wn_reasoning node,
       tr_frontier_worthy = (wn_risk node = ''high'' \<or> wn_kind node = REVIEW),
       tr_task_category = ''general'', tr_exclude_routes = exclude_routes,
       tr_exclude_families = [], tr_exclude_pools = exclude_pools,
       tr_max_capability_tier = required_capability_tier node, tr_task_family = None \<rparr>"


subsection \<open>Route names\<close>

definition route_provider :: "route_id \<Rightarrow> string" where
  "route_provider r = py_lower (py_strip (hd (py_split (CHR ''/'') r)))"

definition FAMILIES :: "string list" where
  "FAMILIES = [''claude'', ''gpt'', ''gemini'', ''grok'', ''qwen'', ''deepseek'', ''glm'', ''kimi'',
     ''llama'', ''mistral'', ''nemotron'', ''minimax'']"

definition route_family :: "route_id \<Rightarrow> string" where
  "route_family r =
     (let tail = last (py_split (CHR ''/'') (py_lower r)) in
      case List.find (\<lambda>family. contains_sub family tail) FAMILIES of
        Some family \<Rightarrow> family
      | None \<Rightarrow> hd (py_split (CHR ''-'') tail))"


subsection \<open>Worker results, failures and reviews\<close>

record worker_terminal =
  wt_ok :: bool
  wt_output :: string
  wt_model :: string
  wt_stop_reason :: string
  wt_error :: string
  wt_status_code :: "int option"
  wt_retry_after_seconds :: "rat option"
  wt_session_ref :: string
  wt_executor_kind :: string
  wt_harness :: string

datatype action = REROUTE | RETRY_INFRA | CORRECT_IMPLEMENTATION | REHYDRATE | BLOCK | FAIL_CLOSED

datatype scope = ScopeRoute | ScopeProvider | ScopeNone

record review_finding =
  rf_severity :: string
  rf_category :: string
  rf_file :: string
  rf_line :: "int option"
  rf_message :: string

definition blocking :: "review_finding \<Rightarrow> bool" where
  "blocking f \<longleftrightarrow> rf_severity f \<in> {''critical'', ''high''}"

record review_result =
  rr_status :: string
  rr_reviewer :: string
  rr_route_id :: route_id
  rr_findings :: "review_finding list"
  rr_detail :: string

definition passed :: "review_result \<Rightarrow> bool" where
  "passed r \<longleftrightarrow> rr_status r = ''PASS'' \<and> \<not> list_ex blocking (rr_findings r)"


section \<open>Lemmas\<close>

subsection \<open>Node lifecycle\<close>

inductive_simps lifecycle_step_simps: "lifecycle_step s t"
inductive_cases lifecycle_trace_nilE: "lifecycle_trace s [] u"
inductive_cases lifecycle_trace_consE: "lifecycle_trace s (t # ts) u"

lemma check_transition_Inr: "check_transition s t = Inr () \<longleftrightarrow> t \<in> set (TRANSITIONS s)"
  by (simp add: check_transition_def res_simps)

lemma check_transition_cases:
  "check_transition s t = (if t \<in> set (TRANSITIONS s) then Inr () else Inl (IllegalTransition s t))"
  by (simp add: check_transition_def guard_res_def)

lemma lifecycle_step_iff: "lifecycle_step s t \<longleftrightarrow> t \<in> set (TRANSITIONS s)"
  by (simp add: lifecycle_step_simps check_transition_Inr)

lemma predecessor_cases:
  "VALIDATED \<in> set (TRANSITIONS s) \<longleftrightarrow> s = TERMINAL_SUCCESS"
  "TERMINAL_SUCCESS \<in> set (TRANSITIONS s) \<longleftrightarrow> s = RUNNING"
  "RUNNING \<in> set (TRANSITIONS s) \<longleftrightarrow> s = DISPATCHED"
  "DISPATCHED \<in> set (TRANSITIONS s) \<longleftrightarrow> s = ADMITTED"
  "ADMITTED \<in> set (TRANSITIONS s) \<longleftrightarrow> s = PLANNED"
  "PLANNED \<in> set (TRANSITIONS s) \<longleftrightarrow> s \<in> {TERMINAL_FAILURE, REJECTED}"
  by (cases s; simp)+

lemma lifecycle_trace_snoc:
  "lifecycle_trace s (ts @ [t]) u \<longleftrightarrow> u = t \<and> (\<exists>m. lifecycle_trace s ts m \<and> lifecycle_step m t)"
proof (induction ts arbitrary: s)
  case Nil
  then show ?case
    by (auto elim!: lifecycle_trace_consE lifecycle_trace_nilE intro: lifecycle_trace.intros)
next
  case (Cons x xs)
  show ?case
  proof
    assume "lifecycle_trace s ((x # xs) @ [t]) u"
    then have "lifecycle_step s x" "lifecycle_trace x (xs @ [t]) u"
      by (auto elim: lifecycle_trace_consE)
    with Cons.IH show "u = t \<and> (\<exists>m. lifecycle_trace s (x # xs) m \<and> lifecycle_step m t)"
      by (blast intro: trace_cons)
  next
    assume "u = t \<and> (\<exists>m. lifecycle_trace s (x # xs) m \<and> lifecycle_step m t)"
    then obtain m where "u = t" "lifecycle_step s x" "lifecycle_trace x xs m" "lifecycle_step m t"
      by (auto elim: lifecycle_trace_consE)
    with Cons.IH show "lifecycle_trace s ((x # xs) @ [t]) u"
      by (auto intro: trace_cons)
  qed
qed

text \<open>A trace that ends in a state other than its start has a last step into that state.\<close>

lemma lifecycle_trace_last:
  assumes "lifecycle_trace s ts u" and "s \<noteq> u"
  obtains ts' m where "ts = ts' @ [u]" and "lifecycle_trace s ts' m" and "u \<in> set (TRANSITIONS m)"
proof (cases ts rule: rev_cases)
  case Nil
  with assms show ?thesis by (auto elim: lifecycle_trace_nilE)
next
  case (snoc ts' t)
  with assms(1) show ?thesis
    by (auto simp: lifecycle_trace_snoc lifecycle_step_iff intro: that)
qed

lemma lifecycle_trace_to_admitted:
  assumes "lifecycle_trace PLANNED ts ADMITTED"
  shows "\<exists>ts'. ts = ts' @ [ADMITTED]"
  using assms by (rule lifecycle_trace_last) auto

lemma lifecycle_trace_to_dispatched:
  assumes "lifecycle_trace PLANNED ts DISPATCHED"
  shows "\<exists>ts'. ts = ts' @ [ADMITTED, DISPATCHED]"
  using assms by (rule lifecycle_trace_last)
    (auto simp: predecessor_cases dest!: lifecycle_trace_to_admitted)

lemma lifecycle_trace_to_running:
  assumes "lifecycle_trace PLANNED ts RUNNING"
  shows "\<exists>ts'. ts = ts' @ [ADMITTED, DISPATCHED, RUNNING]"
  using assms by (rule lifecycle_trace_last)
    (auto simp: predecessor_cases dest!: lifecycle_trace_to_dispatched)

lemma lifecycle_trace_to_success:
  assumes "lifecycle_trace PLANNED ts TERMINAL_SUCCESS"
  shows "\<exists>ts'. ts = ts' @ [ADMITTED, DISPATCHED, RUNNING, TERMINAL_SUCCESS]"
  using assms by (rule lifecycle_trace_last)
    (auto simp: predecessor_cases dest!: lifecycle_trace_to_running)

lemma lifecycle_trace_to_validated:
  assumes "lifecycle_trace PLANNED ts VALIDATED"
  shows "\<exists>ts'. ts = ts' @ [ADMITTED, DISPATCHED, RUNNING, TERMINAL_SUCCESS, VALIDATED]"
  using assms by (rule lifecycle_trace_last)
    (auto simp: predecessor_cases dest!: lifecycle_trace_to_success)

lemma lifecycle_trace_from_final:
  "lifecycle_trace s ts u \<Longrightarrow> s \<in> {VALIDATED, BLOCKED} \<Longrightarrow> ts = [] \<and> u = s"
  by (induction rule: lifecycle_trace.induct) (auto simp: lifecycle_step_iff)


subsection \<open>Paths\<close>

text \<open>A list of components that \<open>path_str\<close> writes and \<open>path_parts\<close> reads back unchanged.\<close>

definition good_parts :: "string list \<Rightarrow> bool" where
  "good_parts ws \<longleftrightarrow> (\<forall>w\<in>set ws. w \<noteq> [] \<and> w \<noteq> ''.'' \<and> CHR ''/'' \<notin> set w)"

lemma good_path_parts [simp]: "good_parts (path_parts s)"
  by (auto simp: good_parts_def path_parts_def dest: py_split_free)

lemma good_parts_filter: "good_parts ws \<Longrightarrow> filter (\<lambda>w. w \<noteq> [] \<and> w \<noteq> ''.'') ws = ws"
  by (rule filter_True) (auto simp: good_parts_def)

lemma py_split_path_str: "good_parts ws \<Longrightarrow> ws \<noteq> [] \<Longrightarrow> py_split CHR ''/'' (path_str ws) = ws"
  unfolding path_str_def by (simp add: py_split_join good_parts_def)

lemma path_parts_str [simp]: "good_parts ws \<Longrightarrow> path_parts (path_str ws) = ws"
proof (cases "ws = []")
  case True
  then show ?thesis by (simp add: path_parts_def path_str_def)
next
  case False
  assume "good_parts ws"
  with False show ?thesis by (simp add: path_parts_def py_split_path_str good_parts_filter)
qed

lemma path_str_ne [simp]: "good_parts ws \<Longrightarrow> path_str ws \<noteq> []"
  using py_join_ne [of ws "''/''"] by (auto simp: path_str_def good_parts_def)

lemma path_str_relative: "good_parts ws \<Longrightarrow> \<not> prefix ''/'' (path_str ws)"
proof (cases ws)
  case Nil
  then show ?thesis by (simp add: path_str_def)
next
  case (Cons w vs)
  assume g: "good_parts ws"
  with Cons have "w \<noteq> []" "CHR ''/'' \<notin> set w"
    by (simp_all add: good_parts_def)
  then have "hd w \<noteq> CHR ''/''" using hd_in_set [of w] by force
  moreover have "hd (path_str ws) = hd w"
    using Cons \<open>w \<noteq> []\<close> by (simp add: path_str_def hd_py_join)
  ultimately show ?thesis using path_str_ne [OF g] by (cases "path_str ws") auto
qed

lemma path_str_no_trailing_slash: "good_parts ws \<Longrightarrow> last (path_str ws) \<noteq> CHR ''/''"
proof (cases "ws = []")
  case True
  then show ?thesis by (simp add: path_str_def)
next
  case False
  assume g: "good_parts ws"
  with False have "last ws \<noteq> []" "CHR ''/'' \<notin> set (last ws)"
    by (auto simp: good_parts_def)
  moreover from this have "last (last ws) \<noteq> CHR ''/''" using last_in_set [of "last ws"] by force
  ultimately show ?thesis using False by (simp add: path_str_def last_py_join)
qed

lemma norm_path_Inr:
  assumes "norm_path v = Inr p"
  obtains t where "t = py_replace_char (CHR 0x5C) (CHR ''/'') (py_strip v)"
    and "t \<noteq> []" and "''..'' \<notin> set (path_parts t)" and "p = path_str (path_parts t)"
  using assms by (auto simp: norm_path_def Let_def split: if_splits)

lemma norm_path_parts:
  "norm_path v = Inr p \<Longrightarrow> p = path_str (path_parts p) \<and> ''..'' \<notin> set (path_parts p)"
  by (erule norm_path_Inr) simp

lemma norm_path_of_normal:
  assumes "p = path_str (path_parts p)" and "''..'' \<notin> set (path_parts p)"
    and "CHR 0x5C \<notin> set p" and "py_strip p = p"
  shows "norm_path p = Inr p"
proof -
  have "py_replace_char (CHR 0x5C) (CHR ''/'') p = p"
    using assms(3) by (auto simp: py_replace_char_def intro: map_idI)
  moreover have "p \<noteq> []" "\<not> prefix ''/'' p"
    by (subst assms(1), simp add: path_str_relative)+
  ultimately show ?thesis using assms(1,2,4) by (simp add: norm_path_def Let_def)
qed

lemma set_path_str_parts: "set (path_str (path_parts s)) \<subseteq> set s \<union> {CHR ''.'', CHR ''/''}"
proof -
  have "w \<in> set (path_parts s) \<Longrightarrow> set w \<subseteq> set s" for w
  proof -
    assume "w \<in> set (path_parts s)"
    then have "w \<in> set (py_split CHR ''/'' s)" by (simp add: path_parts_def)
    then show "set w \<subseteq> set s" by (rule set_py_split)
  qed
  then have "(\<Union>w\<in>set (path_parts s). set w) \<subseteq> set s" by blast
  then have "set (py_join ''/'' (path_parts s)) \<subseteq> insert CHR ''/'' (set s)"
    by (intro order_trans [OF set_py_join]) (simp, blast)
  then show ?thesis by (auto simp: path_str_def)
qed

lemma norm_path_no_backslash: "norm_path v = Inr p \<Longrightarrow> CHR 0x5C \<notin> set p"
  by (erule norm_path_Inr) (auto simp: py_replace_char_def dest!: subsetD [OF set_path_str_parts])

lemma length_path_str_parts: "s \<noteq> [] \<Longrightarrow> length (path_str (path_parts s)) \<le> length s"
proof (cases "path_parts s = []")
  case True
  assume "s \<noteq> []"
  with True show ?thesis by (cases s) (auto simp: path_str_def)
next
  case False
  have "length (py_join ''/'' (filter P ws)) \<le> length (py_join ''/'' ws)" for P ws
    by (rule length_py_join_filter)
  from this [of "\<lambda>w. w \<noteq> [] \<and> w \<noteq> ''.''" "py_split CHR ''/'' s"] False show ?thesis
    by (simp add: path_str_def path_parts_def py_join_split)
qed

lemma owned_by_parts:
  assumes o: "good_parts us" and c: "good_parts vs" and ne: "us \<noteq> []"
  shows "owned_by (path_str vs) (path_str us) \<longleftrightarrow> prefix us vs"
proof -
  have strip: "rstrip_char CHR ''/'' (path_str us) = path_str us"
    using path_str_no_trailing_slash [OF o] by (simp add: rstrip_char_id)
  show ?thesis
  proof
    assume "owned_by (path_str vs) (path_str us)"
    then consider "path_str vs = path_str us" | t where "path_str vs = path_str us @ CHR ''/'' # t"
      unfolding owned_by_def strip by (auto elim: prefixE)
    then show "prefix us vs"
    proof cases
      case 1
      then have "vs = us" using path_parts_str o c by metis
      then show ?thesis by simp
    next
      case 2
      have "path_str vs \<noteq> ''.''" using 2 ne o path_str_ne [OF o] by (cases "path_str us") auto
      then have "vs \<noteq> []" by (auto simp: path_str_def)
      then have "vs = py_split CHR ''/'' (path_str us @ CHR ''/'' # t)"
        using py_split_path_str [OF c] 2 by simp
      also have "\<dots> = us @ py_split CHR ''/'' t"
        using py_split_path_str [OF o ne] by (simp add: py_split_append)
      finally show ?thesis by simp
    qed
  next
    assume "prefix us vs"
    then obtain ws where vs: "vs = us @ ws" by (rule prefixE)
    show "owned_by (path_str vs) (path_str us)"
    proof (cases "ws = []")
      case True
      with vs show ?thesis by (simp add: owned_by_def)
    next
      case False
      then have "path_str vs = path_str us @ ''/'' @ py_join ''/'' ws"
        using vs ne by (simp add: path_str_def py_join_append)
      then show ?thesis unfolding owned_by_def strip by simp
    qed
  qed
qed

lemma owned_by_normal:
  assumes "norm_path v = Inr p" and "norm_path w = Inr q" and "q \<noteq> ''.''"
  shows "owned_by p q \<longleftrightarrow> prefix (path_parts q) (path_parts p)"
proof -
  have q: "q = path_str (path_parts q)" and p: "p = path_str (path_parts p)"
    using assms norm_path_parts by blast+
  have "path_parts q \<noteq> []" using q assms(3) by (auto simp: path_str_def)
  then have "owned_by (path_str (path_parts p)) (path_str (path_parts q)) \<longleftrightarrow>
      prefix (path_parts q) (path_parts p)"
    by (intro owned_by_parts) auto
  with p q show ?thesis by simp
qed


subsection \<open>Work nodes\<close>

text \<open>What every node of a plan satisfies once it has been constructed.\<close>

definition normal_path :: "string \<Rightarrow> bool" where
  "normal_path p \<longleftrightarrow> p = path_str (path_parts p) \<and> ''..'' \<notin> set (path_parts p) \<and> \<not> prefix ''/'' p"

definition node_wf :: "work_node \<Rightarrow> bool" where
  "node_wf n \<longleftrightarrow>
     py_strip (wn_node_id n) \<noteq> [] \<and> py_strip (wn_objective n) \<noteq> [] \<and>
     wn_barrier n \<in> set ('''' # KNOWN_BARRIERS) \<and> wn_risk n \<in> set RISKS \<and>
     list_all normal_path (wn_owned_files n) \<and> list_all normal_path (wn_required_context n) \<and>
     (wn_kind n = IMPLEMENT \<longrightarrow> wn_owned_files n \<noteq> [] \<and> wn_verification_command n \<noteq> []) \<and>
     wn_node_id n \<notin> set (wn_depends_on n)"

lemma norm_path_normal: "norm_path v = Inr p \<Longrightarrow> normal_path p"
  by (erule norm_path_Inr) (simp add: normal_path_def path_str_relative)

lemma map_norm_path_normal: "map_res norm_path vs = Inr ps \<Longrightarrow> list_all normal_path ps"
  using map_res_set norm_path_normal by (fastforce simp: list_all_iff)

lemma norm_barrier_known: "norm_barrier b \<in> set ('''' # KNOWN_BARRIERS)"
  by (auto simp: Let_def KNOWN_BARRIERS_def split: raw_barrier.splits)

lemma norm_risk_known: "norm_risk r \<in> set RISKS"
  by (cases r) (auto simp: RISKS_def)

lemma WorkNode_wf: "WorkNode r = Inr n \<Longrightarrow> node_wf n"
  unfolding WorkNode_def node_wf_def
  using norm_barrier_known [of "rn_barrier r"] norm_risk_known [of "rn_risk r"]
  by (auto simp: res_simps simp del: norm_barrier.simps norm_risk.simps NodeKind.simps
      intro: map_norm_path_normal)

lemma required_capability_tier_range: "required_capability_tier n \<in> {1, 2, 3}"
  by (simp add: required_capability_tier_def)

lemma owned_by_dot:
  assumes "norm_path v = Inr p"
  shows "owned_by p ''.'' \<longleftrightarrow> p = ''.''"
proof -
  have p: "p = path_str (path_parts p)" using norm_path_parts [OF assms] by blast
  have False if "prefix ''./'' p"
  proof -
    from that obtain t where t: "p = ''.'' @ CHR ''/'' # t" by (auto elim: prefixE)
    then have "path_parts p \<noteq> []" using p by (auto simp: path_str_def)
    then have "path_parts p = py_split CHR ''/'' p"
      using py_split_path_str [of "path_parts p"] p by simp
    also have "\<dots> = ''.'' # py_split CHR ''/'' t"
      unfolding t by (subst py_split_append_sep) auto
    finally show False using good_path_parts [of p] by (simp add: good_parts_def)
  qed
  then show ?thesis by (auto simp: owned_by_def rstrip_char_def)
qed


section \<open>Properties\<close>

text \<open>C3. A node reaches VALIDATED only at the end of one uninterrupted attempt: the states before
  it are, in this order, ADMITTED, DISPATCHED, RUNNING and TERMINAL_SUCCESS, whatever the node went
  through before. In particular admission or dispatch alone is never success.\<close>

theorem validated_only_after_full_attempt:
  assumes "lifecycle_trace PLANNED ts VALIDATED"
  shows "suffix [ADMITTED, DISPATCHED, RUNNING, TERMINAL_SUCCESS, VALIDATED] ts"
  using lifecycle_trace_to_validated [OF assms] by (auto simp: suffix_def)

theorem validated_only_after_full_attempt_witness:
  "lifecycle_trace PLANNED
     [ADMITTED, TERMINAL_FAILURE, PLANNED, ADMITTED, DISPATCHED, RUNNING, TERMINAL_SUCCESS, VALIDATED]
     VALIDATED \<and>
   suffix [ADMITTED, DISPATCHED, RUNNING, TERMINAL_SUCCESS, VALIDATED]
     [ADMITTED, TERMINAL_FAILURE, PLANNED, ADMITTED, DISPATCHED, RUNNING, TERMINAL_SUCCESS, VALIDATED]"
proof -
  have "lifecycle_trace PLANNED
     [ADMITTED, TERMINAL_FAILURE, PLANNED, ADMITTED, DISPATCHED, RUNNING, TERMINAL_SUCCESS, VALIDATED]
     VALIDATED"
    by (intro trace_cons trace_nil) (simp_all add: lifecycle_step_iff)
  then show ?thesis using validated_only_after_full_attempt by blast
qed

text \<open>A path that \<open>_norm_path\<close> accepts is a relative path inside the repository: it is not empty,
  does not start with a slash, has no empty component, no parent component and no backslash.\<close>

theorem norm_path_safe:
  assumes "norm_path v = Inr p"
  shows "p \<noteq> [] \<and> \<not> prefix ''/'' p \<and> CHR 0x5C \<notin> set p \<and>
    (\<forall>w\<in>set (py_split CHR ''/'' p). w \<noteq> [] \<and> w \<noteq> ''..'')"
proof -
  have p: "p = path_str (path_parts p)" and dots: "''..'' \<notin> set (path_parts p)"
    using norm_path_parts [OF assms] by auto
  have "p \<noteq> []" "\<not> prefix ''/'' p"
    by (subst p, simp add: path_str_relative)+
  moreover have "\<forall>w\<in>set (py_split CHR ''/'' p). w \<noteq> [] \<and> w \<noteq> ''..''"
  proof (cases "path_parts p = []")
    case True
    then have "p = ''.''" using p by (simp add: path_str_def)
    then show ?thesis by simp
  next
    case False
    then have "py_split CHR ''/'' p = path_parts p"
      using py_split_path_str [of "path_parts p"] p by simp
    then show ?thesis using dots good_path_parts [of p] by (auto simp: good_parts_def)
  qed
  ultimately show ?thesis using norm_path_no_backslash [OF assms] by blast
qed

theorem norm_path_safe_witness:
  "norm_path '' src//a/./b.py '' = Inr ''src/a/b.py'' \<and> \<not> prefix ''/'' ''src/a/b.py''"
proof -
  have "norm_path '' src//a/./b.py '' = Inr ''src/a/b.py''" by code_simp
  then show ?thesis using norm_path_safe [of "'' src//a/./b.py ''"] by blast
qed

text \<open>Normalising a normalised path again gives it back exactly when it has no space at its
  ends. The stripping happens before the leading single-dot component is dropped, so a path such as
  dot-slash-space-a keeps its space and is not a fixed point.\<close>

theorem norm_path_fixpoint_iff:
  assumes "norm_path v = Inr p"
  shows "norm_path p = Inr p \<longleftrightarrow> py_strip p = p"
proof
  assume "py_strip p = p"
  then show "norm_path p = Inr p"
    using norm_path_of_normal norm_path_parts norm_path_no_backslash assms by blast
next
  assume "norm_path p = Inr p"
  then obtain t where t: "t = py_replace_char (CHR 0x5C) (CHR ''/'') (py_strip p)" "t \<noteq> []"
    "p = path_str (path_parts t)" by (rule norm_path_Inr)
  have "length t = length (py_strip p)" unfolding t(1) py_replace_char_def by simp
  with t(2,3) have "length p \<le> length (py_strip p)" using length_path_str_parts [of t] by simp
  then show "py_strip p = p" by (rule py_strip_long)
qed

theorem norm_path_fixpoint_iff_witness:
  "norm_path ''./ a'' = Inr '' a'' \<and> py_strip '' a'' \<noteq> '' a'' \<and> norm_path '' a'' \<noteq> Inr '' a''"
proof -
  have "norm_path ''./ a'' = Inr '' a''" "py_strip '' a'' = ''a''" by code_simp+
  then show ?thesis using norm_path_fixpoint_iff [of "''./ a''" "'' a''"] by simp
qed

text \<open>C39. Every node that \<open>WorkNode\<close> constructs has a non-blank id and objective, a known barrier
  name or none, a risk out of the three names, normalised relative paths only, owned files and a
  verification command when it implements, and no dependency on itself.\<close>

theorem constructed_node_wf:
  assumes "WorkNode r = Inr n"
  shows "node_wf n"
  using assms by (rule WorkNode_wf)

text \<open>What a constructed node owns is decided by path components, never by a mere string prefix:
  a path is owned when it normalises and one of the owned paths is a component-wise prefix of it.
  An owned path that is the single dot owns nothing but itself.\<close>

theorem owns_iff_component_prefix:
  assumes "WorkNode r = Inr n"
  shows "owns n path \<longleftrightarrow> (\<exists>p. norm_path path = Inr p \<and>
    (\<exists>q\<in>set (wn_owned_files n).
       if q = ''.'' then p = ''.'' else prefix (path_parts q) (path_parts p)))"
proof -
  have "map_res norm_path (rn_owned_files r) = Inr (wn_owned_files n)"
    using assms by (auto simp: WorkNode_def res_simps simp del: norm_barrier.simps)
  from map_res_set [OF this] have src: "\<exists>v. norm_path v = Inr q"
    if "q \<in> set (wn_owned_files n)" for q using that by blast
  have "owned_by p q \<longleftrightarrow> (if q = ''.'' then p = ''.'' else prefix (path_parts q) (path_parts p))"
    if "norm_path path = Inr p" "q \<in> set (wn_owned_files n)" for p q
    using owned_by_normal owned_by_dot src that by metis
  then show ?thesis
    by (auto simp: owns_def list_ex_iff split: sum.splits)
qed

definition sample_raw_node :: "string \<Rightarrow> string list \<Rightarrow> string list \<Rightarrow> raw_node" where
  "sample_raw_node i deps owned =
     \<lparr> rn_node_id = i, rn_objective = ''do'', rn_kind = ''implement'', rn_story = '''',
       rn_depends_on = deps, rn_owned_files = owned, rn_required_context = [],
       rn_acceptance = [], rn_verification_command = [''pytest''], rn_barrier = BarrierBool True,
       rn_risk = RiskStr ''HIGH'', rn_required_capabilities = [''tools''], rn_coding = True,
       rn_reasoning = False, rn_min_context_tokens = 32000 \<rparr>"

definition sample_node :: "string \<Rightarrow> string list \<Rightarrow> string list \<Rightarrow> work_node" where
  "sample_node i deps owned =
     \<lparr> wn_node_id = i, wn_objective = ''do'', wn_kind = IMPLEMENT, wn_story = '''',
       wn_depends_on = deps, wn_owned_files = owned, wn_required_context = [],
       wn_acceptance = [], wn_verification_command = [''pytest''], wn_barrier = ''integration'',
       wn_risk = ''high'', wn_required_capabilities = [''tools''], wn_coding = True,
       wn_reasoning = False, wn_min_context_tokens = 32000 \<rparr>"

lemma sample_node_constructed:
  "WorkNode (sample_raw_node ''n1'' [] [''src'']) = Inr (sample_node ''n1'' [] [''src''])"
  by code_simp

theorem constructed_node_wf_witness: "node_wf (sample_node ''n1'' [] [''src''])"
  using sample_node_constructed by (rule constructed_node_wf)

theorem owns_iff_component_prefix_witness:
  "owns (sample_node ''n1'' [] [''src'']) ''src/a.py'' \<and>
   \<not> owns (sample_node ''n1'' [] [''src'']) ''src2/a.py''"
proof -
  note iff = owns_iff_component_prefix [OF sample_node_constructed]
  have "norm_path ''src/a.py'' = Inr ''src/a.py''" "norm_path ''src2/a.py'' = Inr ''src2/a.py''"
    "prefix (path_parts ''src'') (path_parts ''src/a.py'')"
    "\<not> prefix (path_parts ''src'') (path_parts ''src2/a.py'')"
    by code_simp+
  then show ?thesis unfolding iff by (simp add: sample_node_def)
qed

end
