(* ===== verification/Credential_Pools.thy ===== *)
theory Credential_Pools
  imports Contracts
begin

section \<open>Credential pools\<close>

text \<open>
  Models \<open>verdict/orchestration/credential_pools.py\<close> and the pool tables of
  \<open>verdict/orchestration/provider_catalog.py\<close>: which quota a route draws from, the canonical name
  of a route, and the collapse of alias duplicates before a probe. Route ids are byte strings, so
  lower-casing is that of ASCII.
\<close>

subsection \<open>Pools of the provider catalog\<close>

text \<open>\<open>s.partition(c)\<close>: the text before the first separator, and the text after it if there is one.\<close>

fun py_partition :: "char \<Rightarrow> string \<Rightarrow> string \<times> string option" where
  "py_partition c [] = ([], None)"
| "py_partition c (d # s) =
     (if d = c then ([], Some s) else (case py_partition c s of (a, b) \<Rightarrow> (d # a, b)))"

definition route_prefix :: "route_id \<Rightarrow> string" where
  "route_prefix route = py_lower (fst (py_partition (CHR ''/'') route))"

definition POOL_BY_PREFIX :: "(string, string) dict" where
  "POOL_BY_PREFIX = [(''agy'', ''google-antigravity''), (''antigravity'', ''google-antigravity'')]"

definition FREE_SUFFIX_POOL :: "(string, string) dict" where
  "FREE_SUFFIX_POOL = [(''kc'', ''openrouter-free''), (''kilocode'', ''openrouter-free''),
     (''openrouter'', ''openrouter-free'')]"

definition has_free_suffix :: "route_id \<Rightarrow> bool" where
  "has_free_suffix route = suffix '':free'' route"

definition backend_pool :: "route_id \<Rightarrow> string" where
  "backend_pool route =
     (let pre = route_prefix route in
      case (if has_free_suffix route then map_of FREE_SUFFIX_POOL pre else None) of
        Some pool \<Rightarrow> pool
      | None \<Rightarrow> (case map_of POOL_BY_PREFIX pre of Some pool \<Rightarrow> pool | None \<Rightarrow> pre))"

definition routes_share_pool :: "route_id \<Rightarrow> route_id \<Rightarrow> bool" where
  "routes_share_pool a b \<longleftrightarrow> backend_pool a = backend_pool b"

definition pool_aware_families :: "route_id list \<Rightarrow> string list" where
  "pool_aware_families routes = py_dedupe (map backend_pool routes)"

definition ALIASED_POOLS :: "string list" where
  "ALIASED_POOLS = py_dedupe (map snd POOL_BY_PREFIX @ map snd FREE_SUFFIX_POOL)"

definition aliased_pools_for :: "route_id list \<Rightarrow> string list" where
  "aliased_pools_for routes = filter (\<lambda>p. p \<in> set ALIASED_POOLS) (pool_aware_families routes)"


subsection \<open>Aliases\<close>

definition ALIAS_FAMILIES :: "(string, string) dict" where
  "ALIAS_FAMILIES =
     [(''agy'', ''antigravity''), (''antigravity'', ''antigravity''),
      (''af'', ''api-airforce''), (''api-airforce'', ''api-airforce''),
      (''ollama-cloud'', ''ollama-cloud''), (''ollamacloud'', ''ollama-cloud''),
      (''bm'', ''bluesminds''), (''bluesminds'', ''bluesminds''),
      (''kc'', ''kilocode''), (''kilocode'', ''kilocode''),
      (''gh'', ''github''), (''github'', ''github''),
      (''cc'', ''claude''), (''claude'', ''claude''),
      (''cx'', ''codex''), (''codex'', ''codex''),
      (''oc'', ''opencode''), (''opencode'', ''opencode''),
      (''zm'', ''zenmux''), (''zenmux'', ''zenmux''),
      (''cu'', ''cursor''), (''cursor'', ''cursor''),
      (''cua'', ''cursor-api''), (''cursor-api'', ''cursor-api''),
      (''dva'', ''devin-cli'')]"

definition alias_of :: "string \<Rightarrow> string" where
  "alias_of pre = (case map_of ALIAS_FAMILIES pre of Some canonical \<Rightarrow> canonical | None \<Rightarrow> pre)"

lemma py_partition_shorter: "py_partition c s = (a, Some b) \<Longrightarrow> length b < length s"
  by (induction c s arbitrary: a b rule: py_partition.induct) (fastforce split: if_splits prod.splits)+

function pool_of :: "route_id \<Rightarrow> string" where
  "pool_of route =
     (case py_partition (CHR ''/'') route of
        (_, Some rest) \<Rightarrow>
          if route_prefix route = ''no-think'' then pool_of rest
          else if backend_pool route \<noteq> route_prefix route then backend_pool route
          else alias_of (route_prefix route)
      | (_, None) \<Rightarrow>
          if backend_pool route \<noteq> route_prefix route then backend_pool route
          else alias_of (route_prefix route))"
  by pat_completeness auto
termination
  by (relation "measure length") (auto intro: py_partition_shorter [OF sym])

declare pool_of.simps [simp del]

definition backend_model :: "route_id \<Rightarrow> string \<times> string" where
  "backend_model route =
     (let inner = (case py_partition (CHR ''/'') route of
                     (a, Some rest) \<Rightarrow> if prefix ''no-think/'' (py_lower route) then rest else route
                   | (a, None) \<Rightarrow> route)
      in (pool_of inner,
          py_lower (case py_partition (CHR ''/'') inner of (a, Some rest) \<Rightarrow> rest | (a, None) \<Rightarrow> a)))"

definition canonical_route :: "route_id \<Rightarrow> route_id" where
  "canonical_route route =
     (case py_partition (CHR ''/'') route of
        (pre, None) \<Rightarrow> alias_of (py_lower pre)
      | (pre, Some rest) \<Rightarrow> alias_of (py_lower pre) @ ''/'' @ rest)"


subsection \<open>Effort variants and non-chat routes\<close>

definition EFFORTS :: "string list" where
  "EFFORTS = [''low'', ''medium'', ''high'', ''xhigh'', ''max'']"

text \<open>
  \<open>pattern.search(route)\<close> for a pattern that is one of the given endings followed by \<open>$\<close>, which also
  matches before a final newline: the text before the leftmost match.
\<close>

fun before_ending :: "string list \<Rightarrow> string \<Rightarrow> string option" where
  "before_ending endings s =
     (if list_ex (\<lambda>e. s = e \<or> s = e @ [CHR 0x0A]) endings then Some []
      else (case s of [] \<Rightarrow> None | c # t \<Rightarrow> map_option ((#) c) (before_ending endings t)))"

fun base_route_from :: "string list list \<Rightarrow> route_id \<Rightarrow> route_id list \<Rightarrow> route_id" where
  "base_route_from [] route known = route"
| "base_route_from (endings # patterns) route known =
     (case before_ending endings route of
        None \<Rightarrow> base_route_from patterns route known
      | Some candidate \<Rightarrow>
          if candidate \<in> set known then candidate else base_route_from patterns route known)"

definition base_route :: "route_id \<Rightarrow> route_id list \<Rightarrow> route_id" where
  "base_route = base_route_from [map ((@) ''-thinking-'') EFFORTS, map ((@) ''-'') EFFORTS]"

definition NON_CHAT_TYPES :: "string list" where
  "NON_CHAT_TYPES = [''embedding'', ''image'', ''audio'', ''rerank'', ''tts'']"

definition NON_CHAT_CAPABILITY_KEYS :: "string list" where
  "NON_CHAT_CAPABILITY_KEYS = [''embedding'', ''rerank'', ''tts'']"

definition NON_CHAT_ID_MARKERS :: "string list" where
  "NON_CHAT_ID_MARKERS = [''embed'', ''rerank'', ''bge-'', ''e5-'', ''gte-'', ''tts'', ''whisper'',
     ''transcri'', ''speech'', ''audio-'', ''moderation'', ''dall-e'', ''imagen'', ''image-gen'',
     ''flux'', ''stable-diffusion'', ''sdxl'', ''midjourney'', ''ocr'', ''clip-'']"

text \<open>
  A catalog row as the test reads it: the text of its type (empty when absent) and, when its
  capabilities are a mapping, the value of each capability: \<open>True\<close> itself, another true value, or
  a false value.
\<close>

datatype capability = IsTrue | Truthy | Falsy

record catalog_row =
  cr_type :: string
  cr_capabilities :: "(string, capability) dict option"

definition is_non_chat_route :: "route_id \<Rightarrow> catalog_row option \<Rightarrow> bool" where
  "is_non_chat_route route row =
     (let by_id = list_ex (\<lambda>m. contains_sub m (py_lower route)) NON_CHAT_ID_MARKERS in
      case row of
        None \<Rightarrow> by_id
      | Some r \<Rightarrow>
          let route_type = py_lower (cr_type r); caps = cr_capabilities r in
          if route_type = ''chat'' \<or>
             (case caps of None \<Rightarrow> False
              | Some d \<Rightarrow> map_of d ''chat'' = Some IsTrue \<or> map_of d ''tool_calling'' = Some IsTrue)
          then False
          else if route_type \<noteq> [] then route_type \<in> set NON_CHAT_TYPES
          else (case caps of
                  Some (c # d) \<Rightarrow>
                    list_ex (\<lambda>k. map_of (c # d) k \<in> {Some IsTrue, Some Truthy}) NON_CHAT_CAPABILITY_KEYS
                | _ \<Rightarrow> by_id))"


subsection \<open>Collapsing alias duplicates\<close>

definition group_members :: "route_id list \<Rightarrow> route_id \<Rightarrow> route_id list" where
  "group_members routes canon = filter (\<lambda>r. canonical_route r = canon) routes"

text \<open>The member already named under the canonical prefix, else the first one.\<close>

definition probed_of :: "route_id list \<Rightarrow> route_id \<Rightarrow> route_id" where
  "probed_of routes canon =
     (case List.find (\<lambda>m. m = canon) (group_members routes canon) of
        Some m \<Rightarrow> m | None \<Rightarrow> hd (group_members routes canon))"

fun collapse_loop ::
  "route_id list \<Rightarrow> route_id list \<Rightarrow> string list \<Rightarrow> route_id list \<Rightarrow> (route_id, route_id) dict
     \<Rightarrow> route_id list \<times> (route_id, route_id) dict" where
  "collapse_loop routes [] decided kept inherited = (kept, inherited)"
| "collapse_loop routes (r # rest) decided kept inherited =
     (let canon = canonical_route r in
      if canon \<in> set decided then collapse_loop routes rest decided kept inherited
      else
        let members = group_members routes canon in
        if length members = 1 then
          collapse_loop routes rest (canon # decided) (kept @ [hd members]) inherited
        else
          let probed = probed_of routes canon in
          collapse_loop routes rest (canon # decided) (kept @ [probed])
            (foldl (\<lambda>d m. if m \<noteq> probed then dict_put m probed d else d) inherited members))"

definition collapse_alias_duplicates :: "route_id list \<Rightarrow> route_id list \<times> (route_id, route_id) dict" where
  "collapse_alias_duplicates routes = collapse_loop routes routes [] [] []"

definition POOL_COOLDOWN_CATEGORIES :: "string list" where
  "POOL_COOLDOWN_CATEGORIES = [''quota_exhausted'', ''rate_limited'', ''payment_required'',
     ''permission'', ''authentication'']"


section \<open>Lemmas\<close>

lemma py_partition_cases:
  "py_partition c s = (if c \<in> set s then (takeWhile (\<lambda>d. d \<noteq> c) s, Some (tl (dropWhile (\<lambda>d. d \<noteq> c) s)))
                       else (s, None))"
  by (induction s) auto

lemma py_partition_sep: "c \<notin> set a \<Longrightarrow> py_partition c (a @ c # b) = (a, Some b)"
  by (induction a) auto

lemma py_partition_Some: "py_partition c s = (a, Some b) \<Longrightarrow> s = a @ c # b \<and> c \<notin> set a"
  by (induction c s arbitrary: a b rule: py_partition.induct) (auto split: if_splits prod.splits)

lemma py_partition_None: "py_partition c s = (a, None) \<Longrightarrow> s = a \<and> c \<notin> set a"
  by (induction c s arbitrary: a rule: py_partition.induct) (auto split: if_splits prod.splits)

lemma map_of_closed: "list_all (\<lambda>(k, v). P v) d \<Longrightarrow> map_of d x = Some v \<Longrightarrow> P v"
  by (induction d) (auto split: if_splits)

lemma alias_table_slash: "list_all (\<lambda>(k, v). CHR ''/'' \<notin> set v) ALIAS_FAMILIES"
  unfolding ALIAS_FAMILIES_def by simp

lemma alias_table_fixed: "list_all (\<lambda>(k, v). alias_of v = v) ALIAS_FAMILIES"
  by code_simp

lemma alias_table_lower: "list_all (\<lambda>(k, v). py_lower v = v) ALIAS_FAMILIES"
  by code_simp

lemma alias_idem [simp]: "alias_of (alias_of p) = alias_of p"
proof (cases "map_of ALIAS_FAMILIES p")
  case None
  then show ?thesis by (simp add: alias_of_def)
next
  case (Some q)
  from map_of_closed [OF alias_table_fixed Some] have "alias_of q = q" .
  then show ?thesis using Some by (simp add: alias_of_def)
qed

lemma py_lower_char_slash: "py_lower_char c = CHR ''/'' \<longleftrightarrow> c = CHR ''/''"
proof (cases "65 \<le> (of_char c :: nat) \<and> (of_char c :: nat) \<le> 90")
  case True
  then have "(of_char (py_lower_char c) :: nat) \<noteq> of_char (CHR ''/'')"
    by (auto simp: py_lower_char_def)
  then show ?thesis using True by auto
next
  case False
  then have "py_lower_char c = c" by (simp only: py_lower_char_def if_False)
  then show ?thesis by simp
qed

lemma py_lower_char_idem [simp]: "py_lower_char (py_lower_char c) = py_lower_char c"
  by (simp add: py_lower_char_def)

lemma py_lower_idem [simp]: "py_lower (py_lower s) = py_lower s"
  by (simp add: py_lower_def)

lemma slash_py_lower [simp]: "CHR ''/'' \<in> set (py_lower s) \<longleftrightarrow> CHR ''/'' \<in> set s"
  by (simp add: py_lower_def image_iff eq_commute [of "CHR ''/''"] py_lower_char_slash)

lemma alias_slash: "CHR ''/'' \<notin> set p \<Longrightarrow> CHR ''/'' \<notin> set (alias_of p)"
  using map_of_closed [OF alias_table_slash] by (auto simp: alias_of_def split: option.splits)

lemma alias_lower: "py_lower p = p \<Longrightarrow> py_lower (alias_of p) = alias_of p"
  using map_of_closed [OF alias_table_lower] by (auto simp: alias_of_def split: option.splits)

lemma canonical_route_parts:
  assumes "py_partition (CHR ''/'') r = (a, b)"
  shows "py_partition (CHR ''/'') (canonical_route r) = (alias_of (py_lower a), b)"
proof -
  have a: "CHR ''/'' \<notin> set a" using assms py_partition_Some py_partition_None by (cases b) blast+
  then have "CHR ''/'' \<notin> set (alias_of (py_lower a))" by (simp add: alias_slash)
  then have "py_partition (CHR ''/'') (alias_of (py_lower a)) = (alias_of (py_lower a), None)"
    "py_partition (CHR ''/'') (alias_of (py_lower a) @ CHR ''/'' # rest) = (alias_of (py_lower a), Some rest)"
    for rest
    by (simp_all add: py_partition_sep) (simp add: py_partition_cases)
  with assms show ?thesis by (cases b) (simp_all add: canonical_route_def)
qed

lemma canonical_route_prefix: "route_prefix (canonical_route r) = alias_of (route_prefix r)"
  by (cases "py_partition (CHR ''/'') r") (simp add: route_prefix_def canonical_route_parts alias_lower)

lemma suffix_after_sep: "c \<notin> set t \<Longrightarrow> suffix t (a @ c # b) \<longleftrightarrow> suffix t b"
  by (auto simp: suffix_append suffix_Cons)

text \<open>The pool the catalog knows for a prefix, if any.\<close>

definition known_pool :: "bool \<Rightarrow> string \<Rightarrow> string option" where
  "known_pool free p =
     (case (if free then map_of FREE_SUFFIX_POOL p else None) of
        Some pool \<Rightarrow> Some pool | None \<Rightarrow> map_of POOL_BY_PREFIX p)"

lemma backend_pool_known:
  "backend_pool r = (case known_pool (has_free_suffix r) (route_prefix r) of
     Some pool \<Rightarrow> pool | None \<Rightarrow> route_prefix r)"
  by (simp add: backend_pool_def known_pool_def Let_def split: option.split)

lemma alias_keeps_pools:
  "list_all (\<lambda>(k, v). known_pool True v = known_pool True k \<and> known_pool False v = known_pool False k)
     ALIAS_FAMILIES"
  by code_simp

lemma known_pool_alias [simp]: "known_pool free (alias_of p) = known_pool free p"
proof (cases "map_of ALIAS_FAMILIES p")
  case None
  then show ?thesis by (simp add: alias_of_def)
next
  case (Some q)
  then have "(p, q) \<in> set ALIAS_FAMILIES" by (rule map_of_SomeD)
  with alias_keeps_pools have "known_pool True q = known_pool True p \<and> known_pool False q = known_pool False p"
    by (auto simp: list_all_iff)
  then show ?thesis using Some by (cases free) (simp_all add: alias_of_def)
qed

lemma known_pool_fixed: "known_pool free p = Some q \<Longrightarrow> alias_of q = q"
proof -
  assume h: "known_pool free p = Some q"
  have t: "list_all (\<lambda>(k, v). alias_of v = v) FREE_SUFFIX_POOL" "list_all (\<lambda>(k, v). alias_of v = v) POOL_BY_PREFIX"
    by code_simp+
  show ?thesis
    using h map_of_closed [OF t(1)] map_of_closed [OF t(2)]
    by (auto simp: known_pool_def split: option.splits if_splits)
qed

definition direct_pool :: "bool \<Rightarrow> string \<Rightarrow> string" where
  "direct_pool free p = (case known_pool free p of Some pool \<Rightarrow> pool | None \<Rightarrow> alias_of p)"

lemma direct_pool_alias [simp]: "direct_pool free (alias_of p) = direct_pool free p"
  by (simp add: direct_pool_def split: option.split)

lemma backend_direct:
  "(if backend_pool r \<noteq> route_prefix r then backend_pool r else alias_of (route_prefix r))
   = direct_pool (has_free_suffix r) (route_prefix r)"
  using known_pool_fixed by (auto simp: backend_pool_known direct_pool_def split: option.splits)

lemma pool_of_cases:
  "pool_of r = (case py_partition (CHR ''/'') r of
     (a, Some rest) \<Rightarrow> if py_lower a = ''no-think'' then pool_of rest
                        else direct_pool (has_free_suffix rest) (py_lower a)
   | (a, None) \<Rightarrow> direct_pool (has_free_suffix a) (py_lower a))"
proof (cases "py_partition (CHR ''/'') r")
  case (Pair a b)
  show ?thesis
  proof (cases b)
    case None
    with Pair have "r = a" using py_partition_None by blast
    then show ?thesis using Pair None backend_direct [of r] by (subst pool_of.simps) (simp add: route_prefix_def)
  next
    case (Some rest)
    with Pair have "r = a @ CHR ''/'' # rest" using py_partition_Some by blast
    then have "has_free_suffix r = has_free_suffix rest" by (simp add: has_free_suffix_def suffix_after_sep)
    then show ?thesis using Pair Some backend_direct [of r]
      by (subst pool_of.simps) (simp add: route_prefix_def)
  qed
qed

lemma free_suffix_irrelevant:
  assumes "has_free_suffix p"
  shows "map_of FREE_SUFFIX_POOL (py_lower p) = None"
proof -
  from assms obtain q where p: "p = q @ '':free''" by (auto simp: has_free_suffix_def suffix_def)
  have "last (py_lower p) = CHR ''e''" by (simp add: p py_lower_def py_lower_char_def)
  moreover have "list_all (\<lambda>(k, v). last k \<noteq> CHR ''e'' \<or> k = ''kilocode'') FREE_SUFFIX_POOL" by code_simp
  moreover have "py_lower p \<noteq> ''kilocode''"
  proof
    assume "py_lower p = ''kilocode''"
    then have "CHR '':'' \<notin> set (py_lower p)" by simp
    moreover have "py_lower_char (CHR '':'') \<in> set (py_lower p)" by (simp add: p py_lower_def)
    ultimately show False by (simp add: py_lower_char_def)
  qed
  ultimately show ?thesis by (auto simp: FREE_SUFFIX_POOL_def)
qed

lemma direct_pool_no_slash: "direct_pool (has_free_suffix p) (py_lower p) = direct_pool False (py_lower p)"
  using free_suffix_irrelevant [of p] by (simp add: direct_pool_def known_pool_def)

lemma alias_no_think: "alias_of p = ''no-think'' \<longleftrightarrow> p = ''no-think''"
proof (cases "map_of ALIAS_FAMILIES p")
  case None
  then show ?thesis by (simp add: alias_of_def)
next
  case (Some q)
  have t: "list_all (\<lambda>(k, v). k \<noteq> ''no-think'' \<and> v \<noteq> ''no-think'') ALIAS_FAMILIES" by code_simp
  from map_of_SomeD [OF Some] t have "p \<noteq> ''no-think''" "q \<noteq> ''no-think''"
    by (auto simp: list_all_iff)
  then show ?thesis using Some by (simp add: alias_of_def)
qed

lemma pool_canonical: "pool_of (canonical_route r) = pool_of r"
proof (cases "py_partition (CHR ''/'') r")
  case (Pair a b)
  note parts = canonical_route_parts [OF Pair]
  have low: "py_lower (alias_of (py_lower a)) = alias_of (py_lower a)" by (simp add: alias_lower)
  show ?thesis
  proof (cases b)
    case None
    have "pool_of (canonical_route r) = direct_pool False (alias_of (py_lower a))"
      using None parts direct_pool_no_slash [of "alias_of (py_lower a)"]
      by (subst pool_of_cases) (simp add: low)
    then show ?thesis using Pair None direct_pool_no_slash [of a] by (subst (2) pool_of_cases) simp
  next
    case (Some rest)
    then show ?thesis using Pair parts
      by (subst (1 2) pool_of_cases) (simp add: low alias_no_think)
  qed
qed

lemma canonical_idem: "canonical_route (canonical_route r) = canonical_route r"
proof (cases "py_partition (CHR ''/'') r")
  case (Pair a b)
  then show ?thesis
    using canonical_route_parts [OF Pair]
    by (cases b) (simp_all add: canonical_route_def alias_lower)
qed

lemma probed_in_group:
  assumes "r \<in> set routes"
  shows "probed_of routes (canonical_route r) \<in> set (group_members routes (canonical_route r))"
proof -
  let ?g = "group_members routes (canonical_route r)"
  from assms have "?g \<noteq> []" by (auto simp: group_members_def filter_empty_conv)
  then show ?thesis
    by (auto simp: probed_of_def find_Some_iff split: option.split dest: nth_mem)
qed

lemma probed_single: "group_members routes c = [x] \<Longrightarrow> probed_of routes c = x"
  by (simp add: probed_of_def)

lemma map_of_fold_inherit:
  "map_of (foldl (\<lambda>d m. if m \<noteq> p then dict_put m p d else d) inh ms) x =
     (if x \<in> set ms \<and> x \<noteq> p then Some p else map_of inh x)"
  by (induction ms arbitrary: inh) auto

text \<open>What the loop has recorded once the groups in \<open>decided\<close> are settled.\<close>

definition collapsed :: "route_id list \<Rightarrow> string list \<Rightarrow> route_id list \<Rightarrow> (route_id, route_id) dict \<Rightarrow> bool" where
  "collapsed routes decided kept inherited \<longleftrightarrow>
     distinct decided \<and> set decided \<subseteq> canonical_route ` set routes \<and>
     kept = map (probed_of routes) (rev decided) \<and>
     (\<forall>m. map_of inherited m =
        (if m \<in> set routes \<and> canonical_route m \<in> set decided \<and> m \<noteq> probed_of routes (canonical_route m)
         then Some (probed_of routes (canonical_route m)) else None))"

lemma collapse_loop_collapsed:
  assumes "collapsed routes decided kept inherited" and "set rest \<subseteq> set routes"
  shows "\<exists>decided'. set decided' = set decided \<union> canonical_route ` set rest \<and>
     collapsed routes decided' (fst (collapse_loop routes rest decided kept inherited))
       (snd (collapse_loop routes rest decided kept inherited))"
  using assms
proof (induction routes rest decided kept inherited rule: collapse_loop.induct)
  case (1 routes decided kept inherited)
  then show ?case by (auto intro!: exI [of _ decided])
next
  case (2 routes r rest decided kept inherited)
  let ?c = "canonical_route r"
  let ?g = "group_members routes ?c"
  show ?case
  proof (cases "?c \<in> set decided")
    case True
    with 2 show ?thesis by (simp add: insert_absorb)
  next
    case new: False
    have r: "r \<in> set ?g" using "2.prems"(2) by (simp add: group_members_def)
    show ?thesis
    proof (cases "length ?g = 1")
      case True
      then have g: "?g = [r]" using r by (cases ?g) auto
      have only: "m = r" if "m \<in> set routes" "canonical_route m = ?c" for m
        using that arg_cong [OF g, of set] by (auto simp: group_members_def)
      have "collapsed routes (?c # decided) (kept @ [hd ?g]) inherited"
        using "2.prems" new g only probed_single [OF g] unfolding collapsed_def by auto
      with "2.IH"(2) [OF refl new refl True] "2.prems"(2) new True show ?thesis
        by (simp add: Let_def)
    next
      case False
      have "collapsed routes (?c # decided) (kept @ [probed_of routes ?c])
          (foldl (\<lambda>d m. if m \<noteq> probed_of routes ?c then dict_put m (probed_of routes ?c) d else d) inherited ?g)"
        using "2.prems" new unfolding collapsed_def map_of_fold_inherit
        by (auto simp: group_members_def)
      with "2.IH"(3) [OF refl new refl False refl] "2.prems"(2) new False show ?thesis
        by (simp add: Let_def)
    qed
  qed
qed

lemma collapse_exact:
  assumes "collapse_alias_duplicates routes = (kept, inherited)"
  obtains decided where "set decided = canonical_route ` set routes" and "collapsed routes decided kept inherited"
proof -
  have "collapsed routes [] [] []" by (simp add: collapsed_def)
  from collapse_loop_collapsed [OF this, of routes] assms that show ?thesis
    by (auto simp: collapse_alias_duplicates_def)
qed


section \<open>Properties\<close>

text \<open>Rewriting a route onto the canonical prefix of its alias family never changes the credential
  pool it draws from, and rewriting twice changes nothing more.\<close>

theorem canonical_route_keeps_pool:
  "pool_of (canonical_route r) = pool_of r \<and> canonical_route (canonical_route r) = canonical_route r"
  by (simp add: pool_canonical canonical_idem)

text \<open>Collapsing alias duplicates partitions the given routes: one kept route per canonical name,
  every other route inherits, and it inherits from a kept route with the same canonical name and
  hence the same credential pool.\<close>

theorem collapse_partitions_routes:
  assumes "collapse_alias_duplicates routes = (kept, inherited)"
  shows "distinct (map canonical_route kept) \<and> set kept \<inter> dom (map_of inherited) = {} \<and>
    set kept \<union> dom (map_of inherited) = set routes \<and>
    (\<forall>m p. map_of inherited m = Some p \<longrightarrow>
       p \<in> set kept \<and> canonical_route p = canonical_route m \<and> pool_of p = pool_of m)"
proof -
  from collapse_exact [OF assms] obtain decided where d: "set decided = canonical_route ` set routes"
    and c: "collapsed routes decided kept inherited" .
  let ?P = "probed_of routes"
  have canon: "canonical_route (?P x) = x" "?P x \<in> set routes" if "x \<in> set decided" for x
    using that d probed_in_group [of _ routes] by (auto simp: group_members_def)
  have kept: "kept = map ?P (rev decided)" and dist: "distinct decided"
    and inh: "\<And>m. map_of inherited m = (if m \<in> set routes \<and> m \<noteq> ?P (canonical_route m)
       then Some (?P (canonical_route m)) else None)"
    using c d by (auto simp: collapsed_def)
  have "map canonical_route kept = rev decided"
    unfolding kept map_map by (rule map_idI) (simp add: canon)
  moreover have "set kept = ?P ` canonical_route ` set routes" using kept d by simp
  moreover have "pool_of (?P (canonical_route m)) = pool_of m" if "m \<in> set routes" for m
    using pool_canonical [of "?P (canonical_route m)"] pool_canonical [of m] canon(1) that d by simp
  ultimately show ?thesis
    using dist canon d by (auto simp: inh dom_def split: if_splits)
qed

theorem collapse_partitions_routes_witness:
  "collapse_alias_duplicates [''agy/x'', ''antigravity/x'', ''cc/y'']
     = ([''antigravity/x'', ''cc/y''], [(''agy/x'', ''antigravity/x'')]) \<and>
   set [''antigravity/x'', ''cc/y''] \<union> dom (map_of [(''agy/x'', ''antigravity/x'')])
     = set [''agy/x'', ''antigravity/x'', ''cc/y'']"
proof -
  have h: "collapse_alias_duplicates [''agy/x'', ''antigravity/x'', ''cc/y'']
     = ([''antigravity/x'', ''cc/y''], [(''agy/x'', ''antigravity/x'')])"
    by code_simp
  show ?thesis
    using h conjunct1 [OF conjunct2 [OF conjunct2 [OF collapse_partitions_routes [OF h]]]]
    by (rule conjI)
qed

end
