(* ===== verification/Token_Buckets.thy ===== *)
theory Token_Buckets
  imports Credential_Pools
begin

section \<open>Request budgets: token buckets\<close>

text \<open>
  Models the sliding-window budgets of \<open>verdict/orchestration/health_cache.py\<close>: \<open>TokenBucket\<close> with
  its owned tokens and tombstones, the buckets of a \<open>HealthCache\<close>, the reservations that are made
  and released under the file lock, and the migration of legacy bucket keys. Times are seconds. The
  random token ids are an argument (\<open>fresh\<close>), and so is the SHA-256 digest that names the tokens of
  records written before tokens had ids.
\<close>

subsection \<open>One bucket\<close>

record token_bucket =
  tb_capacity :: int
  tb_window_seconds :: rat
  tb_timestamps :: "rat list"
  tb_zeroed_until :: "rat option"
  tb_token_ids :: "string list"
  tb_removed :: "(string, rat) dict"
  tb_released :: "(string, rat) dict"
  tb_ledger_at :: "rat option"

datatype bucket_error =
    CapacityTooSmall
  | WindowNotPositive
  | AmountTooSmall
  | EmptyProvider
  | UnusedOutOfRange
  | AmbiguousTombstones
  | AmbiguousTokens

definition TokenBucket :: "int \<Rightarrow> rat \<Rightarrow> rat list \<Rightarrow> bucket_error + token_bucket" where
  "TokenBucket capacity window stamps =
     (if capacity < 1 then Inl CapacityTooSmall
      else if window \<le> 0 then Inl WindowNotPositive
      else Inr \<lparr> tb_capacity = capacity, tb_window_seconds = window, tb_timestamps = stamps,
        tb_zeroed_until = None, tb_token_ids = [], tb_removed = [], tb_released = [], tb_ledger_at = None \<rparr>)"

text \<open>Ids of legacy stamps: a digest of the stamp and of how often it occurred before.\<close>

type_synonym stamp_digest = "rat \<Rightarrow> nat \<Rightarrow> string"

fun legacy_ids :: "stamp_digest \<Rightarrow> rat list \<Rightarrow> rat list \<Rightarrow> string list" where
  "legacy_ids digest before [] = []"
| "legacy_ids digest before (t # ts) = digest t (count_list before t) # legacy_ids digest (t # before) ts"

definition with_ids :: "stamp_digest \<Rightarrow> token_bucket \<Rightarrow> token_bucket" where
  "with_ids digest b =
     (if length (tb_token_ids b) \<noteq> length (tb_timestamps b)
      then b \<lparr> tb_token_ids := legacy_ids digest [] (tb_timestamps b) \<rparr> else b)"

definition tokens :: "stamp_digest \<Rightarrow> token_bucket \<Rightarrow> (string, rat) dict" where
  "tokens digest b = dict_of (zip (tb_token_ids (with_ids digest b)) (tb_timestamps b))"

definition set_tokens :: "(string, rat) dict \<Rightarrow> token_bucket \<Rightarrow> token_bucket" where
  "set_tokens ts b = b \<lparr> tb_token_ids := map fst ts, tb_timestamps := map snd ts \<rparr>"

definition live_stamps :: "rat \<Rightarrow> token_bucket \<Rightarrow> rat list" where
  "live_stamps now b = filter (\<lambda>s. s > now - tb_window_seconds b) (tb_timestamps b)"

definition remaining :: "rat \<Rightarrow> token_bucket \<Rightarrow> int" where
  "remaining now b =
     (if (case tb_zeroed_until b of None \<Rightarrow> False | Some z \<Rightarrow> now < z) then 0
      else max 0 (tb_capacity b - int (length (live_stamps now b))))"

definition dict_update :: "('k, 'v) dict \<Rightarrow> ('k, 'v) dict \<Rightarrow> ('k, 'v) dict" where
  "dict_update d e = foldl (\<lambda>d (k, v). dict_put k v d) d e"

definition after :: "rat \<Rightarrow> ('k, rat) dict \<Rightarrow> ('k, rat) dict" where
  "after cutoff d = filter (\<lambda>(k, stamp). stamp > cutoff) d"

definition consume :: "stamp_digest \<Rightarrow> string list \<Rightarrow> rat \<Rightarrow> int \<Rightarrow> token_bucket \<Rightarrow> bucket_error + bool \<times> token_bucket" where
  "consume digest fresh now amount b =
     (if amount < 1 then Inl AmountTooSmall
      else if remaining now b < amount then Inr (False, b)
      else
        let cutoff = now - tb_window_seconds b;
            ts = after cutoff (tokens digest b);
            ts' = dict_update ts (map (\<lambda>k. (k, now)) (take (nat amount) fresh)) in
        Inr (True, (set_tokens ts' b) \<lparr>
          tb_ledger_at := Some (max now (case tb_ledger_at b of Some l \<Rightarrow> l | None \<Rightarrow> now)),
          tb_removed := after cutoff (tb_removed b), tb_released := after cutoff (tb_released b) \<rparr>))"

text \<open>When \<open>amount\<close> tokens are free; \<open>None\<close> when the capacity never allows it.\<close>

definition available_at :: "rat \<Rightarrow> int \<Rightarrow> token_bucket \<Rightarrow> rat option" where
  "available_at now amount b =
     (if amount > tb_capacity b then None
      else
        let start = (case tb_zeroed_until b of None \<Rightarrow> now | Some z \<Rightarrow> max now z);
            live = filter (\<lambda>s. s > start - tb_window_seconds b) (sort (tb_timestamps b));
            excess = int (length live) - (tb_capacity b - amount) in
        if excess \<le> 0 then Some start
        else Some (max start (live ! nat (excess - 1) + tb_window_seconds b)))"

definition zero :: "stamp_digest \<Rightarrow> rat \<Rightarrow> token_bucket \<Rightarrow> token_bucket" where
  "zero digest until b =
     set_tokens [] (b \<lparr> tb_zeroed_until := Some until,
       tb_removed := dict_update (tb_removed b) (tokens digest b) \<rparr>)"

text \<open>The later stamp of each key: how tombstones of two views are joined.\<close>

definition later_stamps :: "(string, rat) dict \<Rightarrow> (string, rat) dict \<Rightarrow> (string, rat) dict" where
  "later_stamps target source =
     foldl (\<lambda>d (k, stamp). dict_put k (max stamp (case map_of d k of Some s \<Rightarrow> s | None \<Rightarrow> stamp)) d) target source"

definition max_stamp :: "rat list \<Rightarrow> rat option" where
  "max_stamp ts = (case ts of [] \<Rightarrow> None | t # ts \<Rightarrow> Some (foldl max t ts))"

definition kept_after :: "rat option \<Rightarrow> (string, rat) dict \<Rightarrow> (string, rat) dict" where
  "kept_after cutoff d = (case cutoff of None \<Rightarrow> d | Some c \<Rightarrow> after c d)"

definition merge_from :: "stamp_digest \<Rightarrow> token_bucket \<Rightarrow> token_bucket \<Rightarrow> token_bucket" where
  "merge_from digest self other =
     (let window = max (tb_window_seconds self) (tb_window_seconds other);
          ts = dict_update (tokens digest other) (tokens digest self);
          removed = later_stamps (tb_removed self) (tb_removed other);
          released = later_stamps (tb_released self) (tb_released other);
          ledger = max_stamp (map snd ts @ map snd removed @ map snd released @
            (case tb_ledger_at self of None \<Rightarrow> [] | Some l \<Rightarrow> [l]) @
            (case tb_ledger_at other of None \<Rightarrow> [] | Some l \<Rightarrow> [l]));
          cutoff = map_option (\<lambda>l. l - window) ledger in
      set_tokens (kept_after cutoff (filter (\<lambda>(k, s). k \<notin> fst ` set removed) ts))
        (self \<lparr> tb_capacity := min (tb_capacity self) (tb_capacity other), tb_window_seconds := window,
           tb_ledger_at := ledger, tb_removed := kept_after cutoff removed,
           tb_released := kept_after cutoff released,
           tb_zeroed_until := (case tb_zeroed_until other of
              None \<Rightarrow> tb_zeroed_until self
            | Some z \<Rightarrow> Some (max z (case tb_zeroed_until self of Some y \<Rightarrow> y | None \<Rightarrow> z))) \<rparr>))"


subsection \<open>The buckets of a cache\<close>

record bucket_cache =
  bc_buckets :: "(string, token_bucket) dict"
  bc_overrides :: "(string, int) dict"
  bc_capacity :: int
  bc_window_seconds :: rat

definition bucket_key :: "string \<Rightarrow> string option \<Rightarrow> bucket_error + string" where
  "bucket_key provider pool =
     (if py_strip provider = [] then Inl EmptyProvider
      else Inr (case pool of None \<Rightarrow> provider | Some p \<Rightarrow> if p = [] then provider else p))"

definition bucket_capacity_for :: "bucket_cache \<Rightarrow> string \<Rightarrow> int" where
  "bucket_capacity_for c key =
     (case map_of (bc_overrides c) key of
        Some n \<Rightarrow> n
      | None \<Rightarrow> (case map_of (bc_overrides c) (fst (py_partition CHR ''/'' key)) of
                   Some n \<Rightarrow> n | None \<Rightarrow> bc_capacity c))"

text \<open>\<open>bucket_for\<close> creates a missing bucket, so every reader may change the cache.\<close>

definition bucket_for :: "string \<Rightarrow> string option \<Rightarrow> bucket_cache \<Rightarrow> bucket_error + token_bucket \<times> string \<times> bucket_cache" where
  "bucket_for provider pool c =
     bind_res (bucket_key provider pool) (\<lambda>key.
       case map_of (bc_buckets c) key of
         Some b \<Rightarrow> Inr (b, key, c)
       | None \<Rightarrow>
           bind_res (TokenBucket (bucket_capacity_for c key) (bc_window_seconds c) []) (\<lambda>b.
           Inr (b, key, c \<lparr> bc_buckets := dict_put key b (bc_buckets c) \<rparr>)))"

definition put_bucket :: "string \<Rightarrow> token_bucket \<Rightarrow> bucket_cache \<Rightarrow> bucket_cache" where
  "put_bucket key b c = c \<lparr> bc_buckets := dict_put key b (bc_buckets c) \<rparr>"

definition cache_consume ::
  "stamp_digest \<Rightarrow> string list \<Rightarrow> string \<Rightarrow> rat \<Rightarrow> string option \<Rightarrow> int \<Rightarrow> bucket_cache \<Rightarrow> bucket_error + bool \<times> bucket_cache" where
  "cache_consume digest fresh provider now pool amount c =
     bind_res (bucket_for provider pool c) (\<lambda>(b, key, c1).
     bind_res (consume digest fresh now amount b) (\<lambda>(ok, b').
     Inr (ok, put_bucket key b' c1)))"

definition zero_bucket :: "stamp_digest \<Rightarrow> string \<Rightarrow> rat \<Rightarrow> string option \<Rightarrow> bucket_cache \<Rightarrow> bucket_error + bucket_cache" where
  "zero_bucket digest provider until pool c =
     bind_res (bucket_for provider pool c) (\<lambda>(b, key, c1). Inr (put_bucket key (zero digest until b) c1))"

definition bucket_remaining :: "string \<Rightarrow> rat \<Rightarrow> string option \<Rightarrow> bucket_cache \<Rightarrow> bucket_error + int \<times> bucket_cache" where
  "bucket_remaining provider now pool c =
     bind_res (bucket_for provider pool c) (\<lambda>(b, key, c1). Inr (remaining now b, c1))"

definition bucket_available_at ::
  "string \<Rightarrow> rat \<Rightarrow> string option \<Rightarrow> int \<Rightarrow> bucket_cache \<Rightarrow> bucket_error + rat option \<times> bucket_cache" where
  "bucket_available_at provider now pool amount c =
     bind_res (bucket_for provider pool c) (\<lambda>(b, key, c1). Inr (available_at now amount b, c1))"


subsection \<open>Reservations\<close>

record reservation =
  rs_id :: string
  rs_bucket_key :: string
  rs_token_ids :: "string list"
  rs_reserved_at :: rat

text \<open>
  Both run under the lock on the cache that was just loaded, which they replace. \<open>handle_id\<close> is the
  random id of the reservation.
\<close>

definition reserve_bucket ::
  "stamp_digest \<Rightarrow> string list \<Rightarrow> string \<Rightarrow> string \<Rightarrow> rat \<Rightarrow> string option \<Rightarrow> int \<Rightarrow> bucket_cache
     \<Rightarrow> bucket_error + reservation option \<times> bucket_cache" where
  "reserve_bucket digest fresh handle_id provider now pool amount c =
     bind_res (bucket_for provider pool c) (\<lambda>(b, key, c1).
     let before = map fst (tokens digest b) in
     bind_res (consume digest fresh now amount (with_ids digest b)) (\<lambda>(ok, b').
     Inr (if ok then Some \<lparr> rs_id = handle_id, rs_bucket_key = key,
            rs_token_ids = filter (\<lambda>k. k \<notin> set before) (tb_token_ids b'), rs_reserved_at = now \<rparr> else None,
          put_bucket key b' c1)))"

text \<open>The loop over the unused tokens of a handle: pop each and bury what was there.\<close>

fun bury :: "string list \<Rightarrow> (string, rat) dict \<Rightarrow> (string, rat) dict \<Rightarrow> (string, rat) dict \<times> (string, rat) dict" where
  "bury [] ts removed = (ts, removed)"
| "bury (k # ks) ts removed =
     (case map_of ts k of
        None \<Rightarrow> bury ks (dict_del k ts) removed
      | Some stamp \<Rightarrow> bury ks (dict_del k ts) (dict_put k stamp removed))"

definition release_bucket :: "stamp_digest \<Rightarrow> reservation \<Rightarrow> int \<Rightarrow> bucket_cache \<Rightarrow> bucket_error + bucket_cache" where
  "release_bucket digest handle unused c =
     (if unused < 0 \<or> unused > int (length (rs_token_ids handle)) then Inl UnusedOutOfRange
      else
        (case map_of (bc_buckets c) (rs_bucket_key handle) of
           None \<Rightarrow> Inr c
         | Some b \<Rightarrow>
             if rs_id handle \<in> fst ` set (tb_released b) then Inr c
             else
               let (ts, removed) = bury (take (nat unused) (rs_token_ids handle)) (tokens digest b) (tb_removed b) in
               Inr (put_bucket (rs_bucket_key handle)
                 (set_tokens ts (b \<lparr> tb_released := dict_put (rs_id handle) (rs_reserved_at handle) (tb_released b),
                    tb_removed := removed \<rparr>)) c)))"


subsection \<open>Legacy keys\<close>

definition bucket_identity :: string where
  "bucket_identity = ''/_bucket_identity_''"

definition legacy_pool_key :: "string \<Rightarrow> string" where
  "legacy_pool_key key =
     (case py_partition CHR ''/'' key of
        (provider, None) \<Rightarrow> key
      | (provider, Some pool) \<Rightarrow>
          if pool = [] \<or> CHR ''/'' \<in> set pool then key
          else
            let regular = pool_of (provider @ bucket_identity);
                free = backend_pool (provider @ bucket_identity @ '':free'') in
            if pool = regular \<and> (regular \<noteq> provider \<or> provider \<in> fst ` set ALIAS_FAMILIES) then pool
            else if pool = free \<and> free \<noteq> provider then pool
            else key)"

text \<open>Naming the stamps of a migrating record that has no ids, with a digest of key and token.\<close>

definition name_tokens ::
  "stamp_digest \<Rightarrow> (string \<Rightarrow> string \<Rightarrow> string) \<Rightarrow> string \<Rightarrow> token_bucket \<Rightarrow> bucket_error + token_bucket" where
  "name_tokens digest owned key b =
     (if legacy_pool_key key \<noteq> key \<and> tb_token_ids b = [] \<and> tb_timestamps b \<noteq> [] then
        if tb_removed b \<noteq> [] \<or> tb_released b \<noteq> [] then Inl AmbiguousTombstones
        else Inr (b \<lparr> tb_token_ids := map (owned key) (tb_token_ids (with_ids digest b)) \<rparr>)
      else Inr b)"

definition ambiguous :: "token_bucket \<Rightarrow> bool" where
  "ambiguous b \<longleftrightarrow> length (tb_token_ids b) \<notin> {0, length (tb_timestamps b)} \<or> \<not> distinct (tb_token_ids b)"

fun canonicalize_loop ::
  "stamp_digest \<Rightarrow> (string \<Rightarrow> string \<Rightarrow> string) \<Rightarrow> string list \<Rightarrow> (string, token_bucket) dict \<Rightarrow> (string, token_bucket) dict
     \<Rightarrow> bucket_error + (string, token_bucket) dict" where
  "canonicalize_loop digest owned migrating [] canonical = Inr canonical"
| "canonicalize_loop digest owned migrating ((key, b) # rest) canonical =
     bind_res (name_tokens digest owned key b) (\<lambda>b'.
       let target = legacy_pool_key key in
       if (target \<noteq> key \<or> key \<in> set migrating) \<and> ambiguous b' then Inl AmbiguousTokens
       else canonicalize_loop digest owned migrating rest
         (case map_of canonical target of
            None \<Rightarrow> dict_put target b' canonical
          | Some c \<Rightarrow> dict_put target (merge_from digest c b') canonical))"

definition canonicalize_buckets ::
  "stamp_digest \<Rightarrow> (string \<Rightarrow> string \<Rightarrow> string) \<Rightarrow> (string, token_bucket) dict
     \<Rightarrow> bucket_error + (string, token_bucket) dict" where
  "canonicalize_buckets digest owned buckets =
     canonicalize_loop digest owned
       (map legacy_pool_key (filter (\<lambda>k. legacy_pool_key k \<noteq> k) (map fst buckets))) buckets []"


section \<open>Lemmas\<close>

subsection \<open>Tokens\<close>

definition bucket_wf :: "token_bucket \<Rightarrow> bool" where
  "bucket_wf b \<longleftrightarrow> 1 \<le> tb_capacity b \<and> 0 < tb_window_seconds b \<and>
     length (tb_token_ids b) = length (tb_timestamps b) \<and> distinct (tb_token_ids b)"

lemma new_bucket_wf: "TokenBucket capacity window [] = Inr b \<Longrightarrow> bucket_wf b"
  by (auto simp: TokenBucket_def bucket_wf_def split: if_splits)

lemma with_ids_wf [simp]: "bucket_wf b \<Longrightarrow> with_ids digest b = b"
  by (simp add: with_ids_def bucket_wf_def)

lemma tokens_wf: "bucket_wf b \<Longrightarrow> tokens digest b = zip (tb_token_ids b) (tb_timestamps b)"
  by (simp add: tokens_def dict_of_distinct bucket_wf_def)

lemma tokens_wf_parts:
  "bucket_wf b \<Longrightarrow> map fst (tokens digest b) = tb_token_ids b"
  "bucket_wf b \<Longrightarrow> map snd (tokens digest b) = tb_timestamps b"
  by (simp_all add: tokens_wf) (simp_all add: bucket_wf_def)

lemma tokens_set_tokens: "distinct (map fst ts) \<Longrightarrow> tokens digest (set_tokens ts b) = ts"
  by (simp add: tokens_def with_ids_def set_tokens_def dict_of_distinct zip_map_fst_snd)

lemma set_tokens_fields [simp]:
  "tb_capacity (set_tokens ts b) = tb_capacity b" "tb_window_seconds (set_tokens ts b) = tb_window_seconds b"
  "tb_zeroed_until (set_tokens ts b) = tb_zeroed_until b" "tb_timestamps (set_tokens ts b) = map snd ts"
  "tb_token_ids (set_tokens ts b) = map fst ts" "tb_removed (set_tokens ts b) = tb_removed b"
  "tb_released (set_tokens ts b) = tb_released b"
  by (simp_all add: set_tokens_def)

lemma map_snd_after: "map snd (after c d) = filter (\<lambda>s. s > c) (map snd d)"
  by (induction d) (auto simp: after_def)

lemma distinct_after: "distinct (map fst d) \<Longrightarrow> distinct (map fst (after c d))"
  by (induction d) (auto simp: after_def)

lemma set_fst_after: "set (map fst (after c d)) \<subseteq> set (map fst d)"
  by (auto simp: after_def)

lemma dict_update_new:
  "distinct (map fst e) \<Longrightarrow> set (map fst e) \<inter> set (map fst d) = {} \<Longrightarrow> dict_update d e = d @ e"
proof (induction e arbitrary: d)
  case (Cons kv e)
  then show ?case by (cases kv) (auto simp: dict_update_def dict_put_new)
qed (simp add: dict_update_def)

text \<open>Ids that are new to the bucket, one for each token.\<close>

definition fresh_for :: "string list \<Rightarrow> int \<Rightarrow> token_bucket \<Rightarrow> bool" where
  "fresh_for fresh amount b \<longleftrightarrow> distinct fresh \<and> int (length fresh) = amount \<and> set fresh \<inter> set (tb_token_ids b) = {}"

lemma consume_cases:
  assumes "bucket_wf b" and "fresh_for fresh amount b" and "consume digest fresh now amount b = Inr (ok, b')"
  shows "ok \<longleftrightarrow> amount \<le> remaining now b" and "1 \<le> amount"
    and "\<not> ok \<Longrightarrow> b' = b"
    and "ok \<Longrightarrow> tb_timestamps b' = live_stamps now b @ replicate (nat amount) now"
    and "ok \<Longrightarrow> set (tb_token_ids b') \<subseteq> set (tb_token_ids b) \<union> set fresh"
    and "bucket_wf b'" and "tb_capacity b' = tb_capacity b" and "tb_window_seconds b' = tb_window_seconds b"
    and "tb_zeroed_until b' = tb_zeroed_until b"
proof -
  let ?new = "map (\<lambda>k. (k, now)) fresh" and ?old = "after (now - tb_window_seconds b) (tokens digest b)"
  have amount: "take (nat amount) fresh = fresh" "length fresh = nat amount"
    using assms(2) by (auto simp: fresh_for_def)
  have old: "distinct (map fst ?old)" "set (map fst ?old) \<subseteq> set (tb_token_ids b)" "map snd ?old = live_stamps now b"
    using assms(1) tokens_wf_parts [OF assms(1), of digest] set_fst_after [of "now - tb_window_seconds b" "tokens digest b"]
    by (auto simp: distinct_after bucket_wf_def map_snd_after live_stamps_def)
  have keys: "map fst ?new = fresh" by (simp add: comp_def)
  have new: "dict_update ?old ?new = ?old @ ?new"
    by (rule dict_update_new) (use assms(2) old(2) in \<open>auto simp: fresh_for_def comp_def\<close>)
  have stamps: "map snd ?new = replicate (nat amount) now" using amount(2) by (simp add: comp_def map_replicate_const)
  have distinct: "distinct (map fst (?old @ ?new))"
    using old(1,2) assms(2) unfolding map_append keys by (auto simp: fresh_for_def)
  from assms(3) show "ok \<longleftrightarrow> amount \<le> remaining now b" "1 \<le> amount" "\<not> ok \<Longrightarrow> b' = b"
    by (auto simp: consume_def Let_def split: if_splits)
  show "ok \<Longrightarrow> tb_timestamps b' = live_stamps now b @ replicate (nat amount) now"
    "tb_capacity b' = tb_capacity b" "tb_window_seconds b' = tb_window_seconds b" "tb_zeroed_until b' = tb_zeroed_until b"
    using assms(3) old(3) stamps unfolding consume_def amount(1) Let_def new by (auto split: if_splits)
  show "ok \<Longrightarrow> set (tb_token_ids b') \<subseteq> set (tb_token_ids b) \<union> set fresh"
    using assms(3) old(2) keys unfolding consume_def amount(1) Let_def new by (auto split: if_splits)
  show "bucket_wf b'"
    using assms(1,3) distinct unfolding consume_def amount(1) Let_def new
    by (auto simp: bucket_wf_def split: if_splits)
qed



subsection \<open>The sliding window\<close>

definition in_window :: "rat \<Rightarrow> rat \<Rightarrow> rat list \<Rightarrow> nat" where
  "in_window w t stamps = length (filter (\<lambda>s. t - w < s \<and> s \<le> t) stamps)"

text \<open>Requests in order, each with its time, amount and new ids; the stamps that were granted.\<close>

fun consume_all :: "stamp_digest \<Rightarrow> (rat \<times> int \<times> string list) list \<Rightarrow> token_bucket \<Rightarrow> bucket_error + rat list \<times> token_bucket" where
  "consume_all digest [] b = Inr ([], b)"
| "consume_all digest ((now, amount, fresh) # reqs) b =
     bind_res (consume digest fresh now amount b) (\<lambda>(ok, b').
     bind_res (consume_all digest reqs b') (\<lambda>(granted, b'').
     Inr ((if ok then replicate (nat amount) now else []) @ granted, b'')))"

text \<open>The bucket remembers the stamps granted so far, as far as a window reaches.\<close>

definition remembers :: "rat \<Rightarrow> rat list \<Rightarrow> token_bucket \<Rightarrow> bool" where
  "remembers since past b \<longleftrightarrow> bucket_wf b \<and> (\<forall>s\<in>set past. s \<le> since) \<and>
     (\<forall>now\<ge>since. length (live_stamps now b) = length (filter (\<lambda>s. s > now - tb_window_seconds b) past)) \<and>
     (\<forall>t. int (in_window (tb_window_seconds b) t past) \<le> tb_capacity b)"

lemma filter_mono_length:
  "(\<And>x. x \<in> set xs \<Longrightarrow> P x \<Longrightarrow> Q x) \<Longrightarrow> length (filter P xs) \<le> length (filter Q xs)"
  by (induction xs) auto

lemma remembers_denied: "remembers since past b \<Longrightarrow> since \<le> now \<Longrightarrow> remembers now past b"
  unfolding remembers_def by auto

lemma remembers_granted:
  assumes past: "remembers since past b" and "since \<le> now" and fresh: "fresh_for fresh amount b"
    and ok: "consume digest fresh now amount b = Inr (True, b')"
  shows "remembers now (past @ replicate (nat amount) now) b'"
proof -
  let ?w = "tb_window_seconds b" and ?new = "replicate (nat amount) now"
  have wf: "bucket_wf b" and w: "0 < ?w" using past by (auto simp: remembers_def bucket_wf_def)
  note spent = consume_cases [OF wf fresh ok]
  have live: "length (live_stamps t b) = length (filter (\<lambda>s. s > t - ?w) past)" if "now \<le> t" for t
    using past that assms(2) by (auto simp: remembers_def)
  have room: "int (length (live_stamps now b)) + amount \<le> tb_capacity b"
    using spent(1,2) by (auto simp: remaining_def split: if_splits)
  have "length (live_stamps t b') = length (filter (\<lambda>s. s > t - ?w) (past @ ?new))" if t: "now \<le> t" for t
  proof -
    have "filter (\<lambda>s. s > t - ?w) (live_stamps now b) = live_stamps t b"
      unfolding live_stamps_def filter_filter using t by (intro filter_cong) auto
    then show ?thesis using live [OF t] spent(4,8) by (simp add: live_stamps_def)
  qed
  moreover have "int (in_window ?w t (past @ ?new)) \<le> tb_capacity b" for t
  proof (cases "now \<le> t")
    case True
    have "in_window ?w t (past @ ?new) \<le> length (filter (\<lambda>s. s > now - ?w) past) + nat amount"
      unfolding in_window_def filter_append length_append
      by (intro add_mono filter_mono_length order_trans [OF length_filter_le]) (use True in auto)
    then show ?thesis using room live [of now] spent(2) by simp
  next
    case False
    then have "in_window ?w t (past @ ?new) = in_window ?w t past" by (simp add: in_window_def)
    then show ?thesis using past by (simp add: remembers_def)
  qed
  ultimately show ?thesis using past assms(2) spent(6,7,8) unfolding remembers_def by auto
qed

text \<open>Every request names new ids, and the requests come in the order of their times.\<close>

definition ordered_requests :: "rat \<Rightarrow> (rat \<times> int \<times> string list) list \<Rightarrow> bool" where
  "ordered_requests since reqs \<longleftrightarrow> sorted (since # map fst reqs) \<and>
     list_all (\<lambda>(now, amount, fresh). int (length fresh) = amount) reqs \<and>
     distinct (concat (map (snd \<circ> snd) reqs))"

lemma consume_all_window:
  assumes "remembers since past b" and "ordered_requests since reqs"
    and "set (concat (map (snd \<circ> snd) reqs)) \<inter> set (tb_token_ids b) = {}"
    and "consume_all digest reqs b = Inr (granted, b')"
  shows "int (in_window (tb_window_seconds b) t (past @ granted)) \<le> tb_capacity b"
  using assms
proof (induction digest reqs b arbitrary: since past granted b' rule: consume_all.induct)
  case (1 digest b)
  then show ?case by (simp add: remembers_def)
next
  case (2 digest now amount fresh reqs b)
  have fresh: "fresh_for fresh amount b" and later: "since \<le> now" and rest: "ordered_requests now reqs"
    using "2.prems"(2,3) by (auto simp: ordered_requests_def fresh_for_def)
  obtain ok b1 where one: "consume digest fresh now amount b = Inr (ok, b1)"
    using "2.prems"(4) by (cases "consume digest fresh now amount b") auto
  obtain granted1 where more: "consume_all digest reqs b1 = Inr (granted1, b')"
    and granted: "granted = (if ok then replicate (nat amount) now else []) @ granted1"
    using "2.prems"(4) one by (cases "consume_all digest reqs b1") auto
  have wf: "bucket_wf b" using "2.prems"(1) by (simp add: remembers_def)
  note c = consume_cases [OF wf fresh one]
  have old: "set (concat (map (snd \<circ> snd) reqs)) \<inter> set (tb_token_ids b) = {}" using "2.prems"(3) by auto
  have "set (tb_token_ids b1) \<subseteq> set (tb_token_ids b) \<union> set fresh" using c(3,5) by (cases ok) auto
  moreover have "set fresh \<inter> set (concat (map (snd \<circ> snd) reqs)) = {}"
    using "2.prems"(2) by (simp add: ordered_requests_def)
  ultimately have ids: "set (concat (map (snd \<circ> snd) reqs)) \<inter> set (tb_token_ids b1) = {}"
    using old by blast
  have inv: "remembers now (past @ (if ok then replicate (nat amount) now else [])) b1"
    using remembers_granted [OF "2.prems"(1) later fresh] remembers_denied [OF "2.prems"(1) later] one c(3) by auto
  show ?case
    using "2.IH" [OF inv rest ids more] granted c(7,8) by simp
qed


subsection \<open>When tokens are free again\<close>

lemma sorted_filter_gt:
  assumes "sorted xs" and "i < length xs"
  shows "length (filter (\<lambda>x. x > xs ! i) xs) \<le> length xs - Suc i"
proof -
  have "filter (\<lambda>x. x > xs ! i) (take (Suc i) xs) = []"
    using assms by (auto simp: filter_empty_conv in_set_conv_nth sorted_nth_mono leD)
  then have "length (filter (\<lambda>x. x > xs ! i) xs) = length (filter (\<lambda>x. x > xs ! i) (drop (Suc i) xs))"
    by (metis append_take_drop_id append_Nil filter_append)
  also have "\<dots> \<le> length xs - Suc i" using length_filter_le [of _ "drop (Suc i) xs"] by (simp add: order_trans)
  finally show ?thesis .
qed

lemma sorted_filter_ge:
  assumes "sorted xs" and "i < length xs" and "c < xs ! i"
  shows "length xs - i \<le> length (filter (\<lambda>x. x > c) xs)"
proof -
  have "filter (\<lambda>x. x > c) (drop i xs) = drop i xs"
    using assms by (auto simp: filter_id_conv in_set_conv_nth intro!: less_le_trans [OF assms(3)] sorted_nth_mono)
  then have "length (drop i xs) \<le> length (filter (\<lambda>x. x > c) xs)"
    by (metis append_take_drop_id filter_append length_append le_add2)
  then show ?thesis by simp
qed

lemma length_filter_sort: "length (filter P (sort xs)) = length (filter P xs)"
  by (simp add: filter_sort)

lemma live_after:
  assumes "start \<le> t"
  shows "length (live_stamps t b) =
    length (filter (\<lambda>s. s > t - tb_window_seconds b) (filter (\<lambda>s. s > start - tb_window_seconds b) (sort (tb_timestamps b))))"
proof -
  have "filter (\<lambda>s. s > t - tb_window_seconds b) (filter (\<lambda>s. s > start - tb_window_seconds b) (sort (tb_timestamps b))) =
      filter (\<lambda>s. s > t - tb_window_seconds b) (sort (tb_timestamps b))"
    unfolding filter_filter using assms by (intro filter_cong) auto
  then show ?thesis by (simp add: live_stamps_def length_filter_sort)
qed

lemma available_window:
  assumes "available_at now amount b = Some t0" and "1 \<le> amount" and "0 < tb_window_seconds b"
  defines "start \<equiv> (case tb_zeroed_until b of None \<Rightarrow> now | Some z \<Rightarrow> max now z)"
  shows "start \<le> t0" and "int (length (live_stamps t0 b)) + amount \<le> tb_capacity b"
    and "start \<le> t \<Longrightarrow> t < t0 \<Longrightarrow> tb_capacity b < int (length (live_stamps t b)) + amount"
proof -
  let ?w = "tb_window_seconds b"
  let ?live = "filter (\<lambda>s. s > start - ?w) (sort (tb_timestamps b))"
  let ?excess = "int (length ?live) - (tb_capacity b - amount)"
  have fits: "amount \<le> tb_capacity b"
    and t0: "t0 = (if ?excess \<le> 0 then start else max start (?live ! nat (?excess - 1) + ?w))"
    using assms(1) by (auto simp: available_at_def Let_def start_def split: if_splits)
  show le: "start \<le> t0" by (simp add: t0)
  show "int (length (live_stamps t0 b)) + amount \<le> tb_capacity b"
    "start \<le> t \<Longrightarrow> t < t0 \<Longrightarrow> tb_capacity b < int (length (live_stamps t b)) + amount"
  proof -
    have "int (length (live_stamps t0 b)) + amount \<le> tb_capacity b \<and>
      (start \<le> t \<longrightarrow> t < t0 \<longrightarrow> tb_capacity b < int (length (live_stamps t b)) + amount)"
    proof (cases "?excess \<le> 0")
      case True
      then show ?thesis using live_after [of start start b] t0 by simp
    next
      case False
      define i where "i = nat (?excess - 1)"
      have i: "i < length ?live" "int i = ?excess - 1" using False fits by (auto simp: i_def)
      have sorted: "sorted ?live" using sorted_filter [of "\<lambda>x. x" "sort (tb_timestamps b)"] by simp
      have "?live ! i \<in> set ?live" using i(1) by (rule nth_mem)
      then have "start < ?live ! i + ?w" by auto
      then have t0': "t0 = ?live ! i + ?w" using False t0 by (simp add: i_def)
      have "length (live_stamps t0 b) \<le> length ?live - Suc i"
        using sorted_filter_gt [OF sorted i(1)] live_after [OF le] by (simp add: t0')
      moreover have "length ?live - i \<le> length (live_stamps t b)" if "start \<le> t" "t < t0"
        using sorted_filter_ge [OF sorted i(1), of "t - ?w"] live_after [OF that(1)] that(2) by (simp add: t0')
      ultimately show ?thesis using i by force
    qed
    then show "int (length (live_stamps t0 b)) + amount \<le> tb_capacity b"
      "start \<le> t \<Longrightarrow> t < t0 \<Longrightarrow> tb_capacity b < int (length (live_stamps t b)) + amount" by auto
  qed
qed


subsection \<open>Releases\<close>

lemma map_of_bury:
  "map_of (fst (bury ks ts removed)) = (\<lambda>k. if k \<in> set ks then None else map_of ts k)"
  by (induction ks ts removed rule: bury.induct) (auto split: option.split)

lemma keys_bury: "distinct (map fst ts) \<Longrightarrow> distinct (map fst (fst (bury ks ts removed)))"
proof (induction ks ts removed rule: bury.induct)
  case (2 k ks ts removed)
  then show ?case using dict_wf_del [of ts k] by (auto simp: dict_wf_def split: option.split)
qed simp

lemma removed_bury:
  "map_of (snd (bury ks ts removed)) k =
     (if k \<in> set ks \<and> map_of ts k \<noteq> None then map_of ts k else map_of removed k)"
  by (induction ks ts removed rule: bury.induct) (auto split: option.split)

text \<open>The bucket after the first release of a handle.\<close>

lemma release_bucket_Inr:
  assumes "release_bucket digest h unused c = Inr c'" and "map_of (bc_buckets c) (rs_bucket_key h) = Some b"
    and "rs_id h \<notin> fst ` set (tb_released b)"
  obtains ts removed where "bury (take (nat unused) (rs_token_ids h)) (tokens digest b) (tb_removed b) = (ts, removed)"
    and "c' = put_bucket (rs_bucket_key h) (set_tokens ts (b \<lparr> tb_released :=
        dict_put (rs_id h) (rs_reserved_at h) (tb_released b), tb_removed := removed \<rparr>)) c"
  using assms by (auto simp: release_bucket_def Let_def split: if_splits prod.splits)

lemma distinct_dict_of: "distinct (map fst (dict_of kvs))"
proof (induction kvs rule: rev_induct)
  case (snoc kv kvs)
  then show ?case using dict_wf_put [of "dict_of kvs"] by (cases kv) (simp add: dict_of_def dict_wf_def)
qed (simp add: dict_of_def)

lemma distinct_tokens: "distinct (map fst (tokens digest b))"
  by (simp add: tokens_def distinct_dict_of)


subsection \<open>Merges\<close>

lemma dict_wf_update: "dict_wf d \<Longrightarrow> dict_wf (dict_update d e)"
proof (induction e arbitrary: d)
  case (Cons kv e)
  then show ?case by (cases kv) (simp add: dict_update_def dict_wf_put)
qed (simp add: dict_update_def)

lemma map_of_dict_update:
  "dict_wf e \<Longrightarrow> map_of (dict_update d e) k = (case map_of e k of Some v \<Rightarrow> Some v | None \<Rightarrow> map_of d k)"
proof (induction e arbitrary: d)
  case (Cons kv e)
  obtain a b where kv: "kv = (a, b)" by force
  have e: "dict_wf e" "map_of e a = None" using Cons.prems kv by (auto simp: dict_wf_def map_of_eq_None_iff)
  have "dict_update d (kv # e) = dict_update (dict_put a b d) e" by (simp add: dict_update_def kv)
  then show ?case using Cons.IH [OF e(1), of "dict_put a b d"] e(2) kv by (auto split: option.split)
qed (simp add: dict_update_def)

lemma keys_later_stamps: "fst ` set (later_stamps target source) = fst ` set target \<union> fst ` set source"
proof (induction source arbitrary: target)
  case (Cons kv source)
  obtain k stamp where kv: "kv = (k, stamp)" by force
  let ?d = "dict_put k (max stamp (case map_of target k of Some s \<Rightarrow> s | None \<Rightarrow> stamp)) target"
  have "later_stamps target (kv # source) = later_stamps ?d source" by (simp add: later_stamps_def kv)
  then show ?case using Cons [of ?d] kv by (simp add: keys_dict_put [unfolded list.set_map])
qed (simp add: later_stamps_def)

lemma set_kept_after:
  "(k, s) \<in> set (kept_after cutoff d) \<longleftrightarrow> (k, s) \<in> set d \<and> (case cutoff of None \<Rightarrow> True | Some c \<Rightarrow> s > c)"
  by (auto simp: kept_after_def after_def split: option.split)

lemma dict_wf_kept_after: "dict_wf d \<Longrightarrow> dict_wf (kept_after cutoff d)"
  by (auto simp: kept_after_def after_def dict_wf_filter split: option.split)

text \<open>When the newest time that either side of a merge has seen leaves a stamp in the window.\<close>

definition merge_ledger :: "stamp_digest \<Rightarrow> token_bucket \<Rightarrow> token_bucket \<Rightarrow> rat option" where
  "merge_ledger digest self other = tb_ledger_at (merge_from digest self other)"

lemma tokens_merge:
  "(k, s) \<in> set (tokens digest (merge_from digest self other)) \<longleftrightarrow>
     map_of (dict_update (tokens digest other) (tokens digest self)) k = Some s \<and>
     k \<notin> fst ` set (tb_removed self) \<and> k \<notin> fst ` set (tb_removed other) \<and>
     (case merge_ledger digest self other of None \<Rightarrow> True
      | Some l \<Rightarrow> s > l - max (tb_window_seconds self) (tb_window_seconds other))"
proof -
  let ?ts = "dict_update (tokens digest other) (tokens digest self)"
  let ?keep = "filter (\<lambda>(k, s). k \<notin> fst ` set (later_stamps (tb_removed self) (tb_removed other))) ?ts"
  let ?cutoff = "map_option (\<lambda>l. l - max (tb_window_seconds self) (tb_window_seconds other)) (merge_ledger digest self other)"
  have wf: "dict_wf ?ts" by (rule dict_wf_update) (simp add: dict_wf_def distinct_tokens)
  have "tokens digest (merge_from digest self other) = kept_after ?cutoff ?keep"
    unfolding merge_ledger_def merge_from_def Let_def
    by (subst tokens_set_tokens) (use dict_wf_kept_after [OF dict_wf_filter [OF wf]] in \<open>auto simp: dict_wf_def set_tokens_def\<close>)
  moreover have "(k, s) \<in> set ?ts \<longleftrightarrow> map_of ?ts k = Some s" using wf by (simp add: dict_wf_def)
  ultimately show ?thesis
    by (cases "merge_ledger digest self other") (auto simp: set_kept_after keys_later_stamps)
qed



section \<open>Properties\<close>

text \<open>C37. A new bucket never grants more than its capacity in any window: whatever requests come, in the
  order of their times and with new token ids, for every point in time the tokens granted in the window
  that ends there are at most the capacity.\<close>

theorem window_never_exceeded:
  assumes "TokenBucket capacity window [] = Inr b" and "ordered_requests since reqs"
    and "consume_all digest reqs b = Inr (granted, b')"
  shows "int (length (filter (\<lambda>s. t - window < s \<and> s \<le> t) granted)) \<le> capacity"
proof -
  have b: "tb_timestamps b = []" "tb_token_ids b = []" "tb_capacity b = capacity" "tb_window_seconds b = window"
    using assms(1) by (auto simp: TokenBucket_def split: if_splits)
  have "remembers since [] b"
    using new_bucket_wf [OF assms(1)] b by (simp add: remembers_def in_window_def live_stamps_def bucket_wf_def)
  from consume_all_window [OF this assms(2) _ assms(3), of t] b show ?thesis by (simp add: in_window_def)
qed

text \<open>\<open>available_at\<close> is exact: when it answers a time, the amount is free at that time and at no earlier
  time from now on, as long as nothing else is spent; when it answers nothing, the amount is never free.\<close>

theorem available_at_exact:
  assumes "1 \<le> amount" and "0 < tb_window_seconds b"
  shows "case available_at now amount b of
      None \<Rightarrow> \<forall>t. remaining t b < amount
    | Some t0 \<Rightarrow> now \<le> t0 \<and> amount \<le> remaining t0 b \<and> (\<forall>t. now \<le> t \<longrightarrow> t < t0 \<longrightarrow> remaining t b < amount)"
proof (cases "available_at now amount b")
  case None
  then have "tb_capacity b < amount" by (auto simp: available_at_def Let_def split: if_splits)
  then show ?thesis using None assms(1) by (auto simp: remaining_def max_def)
next
  case (Some t0)
  note w = available_window [OF Some assms]
  have "amount \<le> remaining t0 b"
    using w(1,2) assms(1) by (auto simp: remaining_def split: option.splits)
  moreover have "remaining t b < amount" if "now \<le> t" "t < t0" for t
    using w(3) [of t] that assms(1) by (auto simp: remaining_def split: option.splits)
  moreover have "now \<le> t0" using w(1) by (auto split: option.splits)
  ultimately show ?thesis using Some by auto
qed

text \<open>A release returns only unused tokens of its own handle: every other token of the bucket and every
  other bucket stay as they are, the returned tokens are buried so that a stale view cannot bring them
  back, and releasing the same handle again changes nothing.\<close>

theorem release_only_own_tokens_once:
  assumes "release_bucket digest h unused c = Inr c'" and "map_of (bc_buckets c) (rs_bucket_key h) = Some b"
    and "rs_id h \<notin> fst ` set (tb_released b)"
  shows "(\<exists>b'. map_of (bc_buckets c') (rs_bucket_key h) = Some b' \<and>
      map_of (tokens digest b') = (\<lambda>k. if k \<in> set (take (nat unused) (rs_token_ids h)) then None else map_of (tokens digest b) k) \<and>
      (\<forall>k\<in>set (take (nat unused) (rs_token_ids h)). map_of (tokens digest b) k \<noteq> None \<longrightarrow>
         map_of (tb_removed b') k = map_of (tokens digest b) k)) \<and>
    (\<forall>key. key \<noteq> rs_bucket_key h \<longrightarrow> map_of (bc_buckets c') key = map_of (bc_buckets c) key) \<and>
    release_bucket digest h unused c' = Inr c'"
proof -
  from release_bucket_Inr [OF assms] obtain ts removed where
    bury: "bury (take (nat unused) (rs_token_ids h)) (tokens digest b) (tb_removed b) = (ts, removed)"
    and c': "c' = put_bucket (rs_bucket_key h) (set_tokens ts (b \<lparr> tb_released :=
        dict_put (rs_id h) (rs_reserved_at h) (tb_released b), tb_removed := removed \<rparr>)) c" .
  let ?b = "set_tokens ts (b \<lparr> tb_released := dict_put (rs_id h) (rs_reserved_at h) (tb_released b), tb_removed := removed \<rparr>)"
  have ts: "tokens digest ?b = ts"
    using keys_bury [OF distinct_tokens, of "take (nat unused) (rs_token_ids h)" digest b "tb_removed b"] bury
    by (simp add: tokens_set_tokens)
  have found: "map_of (bc_buckets c') (rs_bucket_key h) = Some ?b" by (simp add: c' put_bucket_def)
  have "rs_id h \<in> fst ` set (tb_released ?b)" by (simp add: keys_dict_put [unfolded list.set_map])
  then have "release_bucket digest h unused c' = Inr c'"
    using assms(1) found by (auto simp: release_bucket_def split: if_splits)
  moreover have "map_of ts = (\<lambda>k. if k \<in> set (take (nat unused) (rs_token_ids h)) then None else map_of (tokens digest b) k)"
    using map_of_bury [of "take (nat unused) (rs_token_ids h)" "tokens digest b" "tb_removed b"] bury by simp
  moreover have "map_of removed k = map_of (tokens digest b) k"
    if "k \<in> set (take (nat unused) (rs_token_ids h))" "map_of (tokens digest b) k \<noteq> None" for k
    using removed_bury [of "take (nat unused) (rs_token_ids h)" "tokens digest b" "tb_removed b" k] bury that by simp
  ultimately show ?thesis using found ts by (auto simp: c' put_bucket_def)
qed

text \<open>A merge of two views of a bucket is conservative: a token that either view holds, that neither has
  buried and that is still in the window of the newest time either view has seen is in the result; a
  token that either view has buried is not; the capacity is the smaller and a zeroing the later one.\<close>

theorem merge_keeps_spend:
  assumes "\<And>k s s'. (k, s) \<in> set (tokens digest self) \<Longrightarrow> (k, s') \<in> set (tokens digest other) \<Longrightarrow> s = s'"
  defines "m \<equiv> merge_from digest self other"
  shows "((k, s) \<in> set (tokens digest m) \<longleftrightarrow>
      (k, s) \<in> set (tokens digest self) \<union> set (tokens digest other) \<and>
      k \<notin> fst ` set (tb_removed self) \<union> fst ` set (tb_removed other) \<and>
      (\<forall>l. tb_ledger_at m = Some l \<longrightarrow> s > l - tb_window_seconds m)) \<and>
    tb_capacity m = min (tb_capacity self) (tb_capacity other) \<and>
    (\<forall>b\<in>{self, other}. \<forall>z. tb_zeroed_until b = Some z \<longrightarrow> (\<exists>z'\<ge>z. tb_zeroed_until m = Some z'))"
proof -
  have wf: "dict_wf (tokens digest b)" for b by (simp add: dict_wf_def distinct_tokens)
  have is_token: "map_of (tokens digest b) k = Some s \<longleftrightarrow> (k, s) \<in> set (tokens digest b)" for b s
    using wf [of b] by (simp add: dict_wf_def)
  have "map_of (dict_update (tokens digest other) (tokens digest self)) k = Some s \<longleftrightarrow>
      (k, s) \<in> set (tokens digest self) \<union> set (tokens digest other)"
  proof (cases "map_of (tokens digest self) k")
    case None
    then have "(k, s) \<notin> set (tokens digest self)" using is_token [of self s] by simp
    with None show ?thesis by (simp add: map_of_dict_update [OF wf] map_add_def is_token)
  next
    case (Some s0)
    then have self: "(k, s) \<in> set (tokens digest self) \<longleftrightarrow> s = s0" using is_token [of self s] by auto
    show ?thesis
    proof (cases "map_of (tokens digest other) k")
      case None
      then have "(k, s) \<notin> set (tokens digest other)" using is_token [of other s] by simp
      with None Some self show ?thesis by (auto simp: map_of_dict_update [OF wf] map_add_def)
    next
      case (Some s1)
      then have "(k, s) \<in> set (tokens digest other) \<longleftrightarrow> s = s1" using is_token [of other s] by auto
      moreover have "s0 = s1"
        using assms(1) [of k s0 s1] is_token [of other s1] is_token [of self s0] Some \<open>map_of (tokens digest self) k = Some s0\<close> by simp
      ultimately show ?thesis using self Some \<open>map_of (tokens digest self) k = Some s0\<close>
        by (auto simp: map_of_dict_update [OF wf] map_add_def)
    qed
  qed
  moreover have "tb_window_seconds m = max (tb_window_seconds self) (tb_window_seconds other)"
    "tb_capacity m = min (tb_capacity self) (tb_capacity other)"
    by (simp_all add: m_def merge_from_def Let_def)
  moreover have "\<forall>b\<in>{self, other}. \<forall>z. tb_zeroed_until b = Some z \<longrightarrow> (\<exists>z'\<ge>z. tb_zeroed_until m = Some z')"
    by (auto simp: m_def merge_from_def Let_def split: option.split)
  ultimately show ?thesis
    using tokens_merge [of k s digest self other]
    by (cases "tb_ledger_at m") (auto simp: m_def merge_ledger_def)
qed


section \<open>A concrete bucket\<close>

definition sample_digest :: stamp_digest where
  "sample_digest t n = replicate n CHR ''x''"

definition sample_bucket :: token_bucket where
  "sample_bucket = projr (TokenBucket 2 60 [])"

definition sample_spending :: "(rat \<times> int \<times> string list) list" where
  "sample_spending = [(10, 1, [''i'']), (20, 1, [''j'']), (30, 1, [''k'']), (75, 1, [''l''])]"

theorem window_never_exceeded_witness:
  "int (length (filter (\<lambda>s. 20 - 60 < s \<and> s \<le> (20 :: rat)) [10, 20, 75])) \<le> 2"
proof (rule window_never_exceeded)
  show "TokenBucket 2 60 [] = Inr sample_bucket" by code_simp
  show "ordered_requests 0 sample_spending" by code_simp
  show "consume_all sample_digest sample_spending sample_bucket =
      Inr ([10, 20, 75], snd (projr (consume_all sample_digest sample_spending sample_bucket)))" by code_simp
qed

definition spent_bucket :: token_bucket where
  "spent_bucket = sample_bucket \<lparr> tb_timestamps := [10, 20], tb_token_ids := [''i'', ''j''] \<rparr>"

theorem available_at_exact_witness: "1 \<le> remaining 70 spent_bucket"
proof -
  have "available_at 30 1 spent_bucket = Some 70" "0 < tb_window_seconds spent_bucket" by code_simp+
  with available_at_exact [of 1 spent_bucket 30] show ?thesis by simp
qed

definition spent_cache :: bucket_cache where
  "spent_cache = \<lparr> bc_buckets = [(''cc'', spent_bucket)], bc_overrides = [], bc_capacity = 10, bc_window_seconds = 60 \<rparr>"

definition sample_handle :: reservation where
  "sample_handle = \<lparr> rs_id = ''h'', rs_bucket_key = ''cc'', rs_token_ids = [''j''], rs_reserved_at = 20 \<rparr>"

definition released_cache :: bucket_cache where
  "released_cache = projr (release_bucket sample_digest sample_handle 1 spent_cache)"

theorem release_only_own_tokens_once_witness:
  "release_bucket sample_digest sample_handle 1 released_cache = Inr released_cache"
proof -
  have "release_bucket sample_digest sample_handle 1 spent_cache = Inr released_cache"
    "map_of (bc_buckets spent_cache) (rs_bucket_key sample_handle) = Some spent_bucket"
    "rs_id sample_handle \<notin> fst ` set (tb_released spent_bucket)" by code_simp+
  from release_only_own_tokens_once [OF this] show ?thesis by blast
qed

theorem merge_keeps_spend_witness: "tb_capacity (merge_from sample_digest sample_bucket spent_bucket) = 2"
proof -
  have none: "tokens sample_digest sample_bucket = []" by code_simp
  have "tb_capacity (merge_from sample_digest sample_bucket spent_bucket) =
      min (tb_capacity sample_bucket) (tb_capacity spent_bucket)"
    by (rule conjunct1 [OF conjunct2 [OF merge_keeps_spend]]) (simp add: none)
  then show ?thesis by (simp only:) code_simp
qed

end
