(* ===== verification/Health_Entries.thy ===== *)
theory Health_Entries
  imports Prelude "HOL-Library.Option_ord"
begin

section \<open>Health entries\<close>

text \<open>
  Models the route entries of \<open>verdict/orchestration/health_cache.py\<close>: \<open>HealthEntry\<close> with all its
  fields, the lifetimes of healthy and failed checks, and the operations of \<open>HealthCache\<close> that read
  and write the entries: \<open>lookup\<close>, \<open>healthy_routes\<close>, \<open>record\<close>, \<open>record_liveness\<close>, the two passive
  recorders, \<open>record_agentic_evidence\<close> and \<open>record_half_open_success\<close>. Times are seconds and floats
  are finite rationals, so the checks for non-finite numbers and naive datetimes have no counterpart.
  \<open>fresh\<close> is \<open>EVIDENCE_FRESH_SECONDS\<close>, which the program reads once from its environment.
\<close>

subsection \<open>Lifetimes\<close>

datatype cache_error =
    EmptyScopeField
  | EmptyRouteId
  | EmptyAttemptId
  | EmptyEventId
  | NegativeEpoch
  | NegativeFailures
  | BadNegativeTtl
  | FloatOverflow

text \<open>The argument is the parsed environment variable, \<open>None\<close> when it is unset or not a number.\<close>

definition evidence_fresh_seconds :: "rat option \<Rightarrow> rat" where
  "evidence_fresh_seconds configured =
     (case configured of None \<Rightarrow> 21600 | Some v \<Rightarrow> min 172800 (max 60 v))"

definition usable_seconds :: "rat \<Rightarrow> rat" where
  "usable_seconds fresh = fresh + 1200"

text \<open>
  How long a failed probe stays negative; seconds are exact where Python has floats. The doubling is
  computed as the integer \<open>2 ** (failures - 1)\<close> converted to a float, which raises \<open>OverflowError\<close> from
  \<open>2 ** 1024\<close> on; a product beyond the floats is infinite and capped like any other.
\<close>

definition LONG_TTL_STATUSES :: "int list" where
  "LONG_TTL_STATUSES = [401, 402, 403, 404, 410]"

definition LONG_TTL_CATEGORIES :: "string list" where
  "LONG_TTL_CATEGORIES = [''authentication'', ''payment_required'', ''permission'', ''not_found'',
     ''gone'', ''catalog_stale'']"

definition is_long_negative :: "string \<Rightarrow> int option \<Rightarrow> bool" where
  "is_long_negative category http_status \<longleftrightarrow>
     (case http_status of None \<Rightarrow> False | Some s \<Rightarrow> s \<in> set LONG_TTL_STATUSES) \<or>
     category \<in> set LONG_TTL_CATEGORIES"

definition capped :: "rat \<Rightarrow> int \<Rightarrow> rat \<Rightarrow> cache_error + rat" where
  "capped base failures cap =
     (if failures - 1 \<ge> 1024 then Inl FloatOverflow
      else let grown = base * 2 ^ nat (failures - 1) in Inr (if grown > cap then cap else grown))"

definition negative_seconds :: "string \<Rightarrow> int option \<Rightarrow> rat option \<Rightarrow> int \<Rightarrow> cache_error + rat" where
  "negative_seconds category http_status retry_after consecutive_failures =
     (let failures = max 1 consecutive_failures in
      if category = ''rate_limited'' \<or> http_status = Some 429 then
        Inr (case retry_after of Some r \<Rightarrow> if r > 0 then r else 60 | None \<Rightarrow> 60)
      else if is_long_negative category http_status then capped 21600 failures 86400
      else capped 60 failures 900)"

definition next_backoff_seconds :: "rat \<Rightarrow> rat" where
  "next_backoff_seconds previous = (if previous \<le> 0 then 60 else max 60 (previous / 2))"

definition usable_until :: "rat \<Rightarrow> rat \<Rightarrow> rat" where
  "usable_until fresh checked_at = checked_at + usable_seconds fresh"

datatype health_state = FRESH | STALE | NEGATIVE | UNPROBED

definition classify_state :: "rat \<Rightarrow> bool \<Rightarrow> rat \<Rightarrow> rat \<Rightarrow> rat \<Rightarrow> health_state" where
  "classify_state fresh healthy checked until now =
     (if healthy then
        if now < checked + fresh then FRESH
        else if now < checked + usable_seconds fresh then STALE
        else UNPROBED
      else if now < until then NEGATIVE
      else UNPROBED)"


subsection \<open>Entries and probe results\<close>

record health_entry =
  he_route_id :: route_id
  he_category :: string
  he_checked_at :: rat
  he_until :: rat
  he_consecutive_failures :: int
  he_chat_ok :: bool
  he_tool_ok :: bool
  he_latency_ms :: "rat option"
  he_pool :: "string option"
  he_capacity_evidence :: "string option"
  he_http_status :: "int option"
  he_healthy :: bool
  he_identity :: string
  he_probe_class :: string
  he_agentic_ok :: bool
  he_agentic_checked_at :: "rat option"
  he_last_success_at :: "rat option"
  he_last_failure_at :: "rat option"
  he_failure_scope :: "string option"
  he_session_agentic_ok :: "bool option"
  he_session_agentic_at :: "rat option"
  he_agentic_source :: "string option"
  he_agentic_child_id :: "string option"
  he_write_revision :: int
  he_feedback_source :: "string option"
  he_feedback_category :: "string option"
  he_feedback_turn_count :: "int option"
  he_feedback_turns_source :: "string option"
  he_feedback_provenance :: "string option"
  he_evidence_source :: "string option"

type_synonym routes = "(route_id, health_entry) dict"

text \<open>The constructor with the defaults of the dataclass and the checks of \<open>__post_init__\<close>.\<close>

definition HealthEntry ::
  "route_id \<Rightarrow> string \<Rightarrow> rat \<Rightarrow> rat \<Rightarrow> int \<Rightarrow> bool \<Rightarrow> bool \<Rightarrow> cache_error + health_entry" where
  "HealthEntry route category checked_at until failures chat_ok tool_ok =
     (if py_strip route = [] then Inl EmptyRouteId
      else if failures < 0 then Inl NegativeFailures
      else Inr \<lparr> he_route_id = route, he_category = category, he_checked_at = checked_at, he_until = until,
        he_consecutive_failures = failures, he_chat_ok = chat_ok, he_tool_ok = tool_ok, he_latency_ms = None,
        he_pool = None, he_capacity_evidence = None, he_http_status = None, he_healthy = False,
        he_identity = [], he_probe_class = ''single_call'', he_agentic_ok = False,
        he_agentic_checked_at = None, he_last_success_at = None, he_last_failure_at = None,
        he_failure_scope = None, he_session_agentic_ok = None, he_session_agentic_at = None,
        he_agentic_source = None, he_agentic_child_id = None, he_write_revision = 0,
        he_feedback_source = None, he_feedback_category = None, he_feedback_turn_count = None,
        he_feedback_turns_source = None, he_feedback_provenance = None, he_evidence_source = None \<rparr>)"

definition state_at :: "rat \<Rightarrow> health_entry \<Rightarrow> rat \<Rightarrow> health_state" where
  "state_at fresh e now = classify_state fresh (he_healthy e) (he_checked_at e) (he_until e) now"

record probe_result =
  po_category :: string
  po_chat_ok :: bool
  po_tool_ok :: bool
  po_latency_ms :: "rat option"
  po_http_status :: "int option"
  po_retry_after_seconds :: "rat option"
  po_pool :: "string option"
  po_capacity_evidence :: "string option"
  po_identity :: string
  po_probe_class :: string
  po_agentic_ok :: bool
  po_last_success_at :: "rat option"
  po_failure_scope :: "string option"
  po_negative_ttl_seconds :: "rat option"
  po_feedback_source :: "string option"
  po_feedback_category :: "string option"
  po_feedback_turn_count :: "int option"
  po_feedback_turns_source :: "string option"
  po_feedback_provenance :: "string option"

definition ProbeResult :: "string \<Rightarrow> bool \<Rightarrow> bool \<Rightarrow> probe_result" where
  "ProbeResult category chat_ok tool_ok =
     \<lparr> po_category = category, po_chat_ok = chat_ok, po_tool_ok = tool_ok, po_latency_ms = None,
       po_http_status = None, po_retry_after_seconds = None, po_pool = None, po_capacity_evidence = None,
       po_identity = [], po_probe_class = ''single_call'', po_agentic_ok = False, po_last_success_at = None,
       po_failure_scope = None, po_negative_ttl_seconds = None, po_feedback_source = None,
       po_feedback_category = None, po_feedback_turn_count = None, po_feedback_turns_source = None,
       po_feedback_provenance = None \<rparr>"

definition probe_healthy :: "probe_result \<Rightarrow> bool" where
  "probe_healthy r \<longleftrightarrow> po_chat_ok r \<and> po_tool_ok r \<and> po_category r = ''ok''"


subsection \<open>Reading\<close>

definition lookup_state :: "rat \<Rightarrow> routes \<Rightarrow> route_id \<Rightarrow> rat \<Rightarrow> health_state" where
  "lookup_state fresh routes route now =
     (case map_of routes route of None \<Rightarrow> UNPROBED | Some e \<Rightarrow> state_at fresh e now)"

definition healthy_routes :: "rat \<Rightarrow> rat \<Rightarrow> (health_entry \<Rightarrow> bool) \<Rightarrow> routes \<Rightarrow> health_entry list" where
  "healthy_routes fresh now accept routes =
     sort_key (\<lambda>e. - he_checked_at e)
       (filter (\<lambda>e. state_at fresh e now \<in> {FRESH, STALE} \<and> accept e) (map snd routes))"

text \<open>
  The agentic qualification: a session proof counts for \<open>session_ttl\<close> seconds (the configured
  lifetime, zero when it is not a positive number), a probe for a day.
\<close>

definition AGENTIC_PROBE_TTL_SECONDS :: rat where
  "AGENTIC_PROBE_TTL_SECONDS = 86400"

definition agentic_qualified :: "rat \<Rightarrow> health_entry option \<Rightarrow> rat \<Rightarrow> bool" where
  "agentic_qualified session_ttl entry now \<longleftrightarrow>
     (case entry of
        None \<Rightarrow> False
      | Some e \<Rightarrow>
          (case he_session_agentic_at e of
             Some stamp \<Rightarrow> he_session_agentic_ok e = Some True \<and> 0 \<le> now - stamp \<and> now - stamp \<le> max 0 session_ttl
           | None \<Rightarrow>
               (case he_agentic_checked_at e of
                  None \<Rightarrow> False
                | Some stamp \<Rightarrow> he_agentic_ok e \<and> 0 \<le> now - stamp \<and> now - stamp \<le> AGENTIC_PROBE_TTL_SECONDS)))"

text \<open>The time of the last failure an entry remembers; a failed entry without one failed when it was checked.\<close>

definition last_failure :: "health_entry \<Rightarrow> rat option" where
  "last_failure e =
     (case he_last_failure_at e of
        Some t \<Rightarrow> Some t
      | None \<Rightarrow> if \<not> he_healthy e then Some (he_checked_at e) else None)"


subsection \<open>Recording a probe\<close>

definition NO_ANSWER_CATEGORIES :: "string list" where
  "NO_ANSWER_CATEGORIES = [''timeout'', ''upstream'', ''rate_limited'', ''authentication'',
     ''payment_required'', ''permission'']"

definition preserve_agentic :: "health_entry option \<Rightarrow> probe_result \<Rightarrow> rat \<Rightarrow> bool" where
  "preserve_agentic previous r now \<longleftrightarrow>
     (case previous of
        None \<Rightarrow> False
      | Some p \<Rightarrow> he_agentic_ok p \<and>
          (case he_agentic_checked_at p of None \<Rightarrow> False | Some stamp \<Rightarrow> stamp < now) \<and>
          \<not> po_chat_ok r \<and> \<not> po_tool_ok r \<and> po_category r \<in> set NO_ANSWER_CATEGORIES)"

text \<open>The probe class, the agentic verdict and the time of the agentic check of the new entry.\<close>

definition agentic_fields :: "health_entry option \<Rightarrow> probe_result \<Rightarrow> rat \<Rightarrow> string \<times> bool \<times> rat option" where
  "agentic_fields previous r now =
     (let carried = (case previous of
            Some p \<Rightarrow>
              if he_agentic_ok p \<and> po_probe_class r = ''single_call''
              then Some (''agentic'', True, he_agentic_checked_at p) else None
          | None \<Rightarrow> None);
          own = (po_probe_class r, po_agentic_ok r, if po_probe_class r = ''agentic'' then Some now else None)
      in (case previous of
            Some p \<Rightarrow>
              if preserve_agentic previous r now
              then (he_probe_class p, he_agentic_ok p, he_agentic_checked_at p)
              else (case carried of Some c \<Rightarrow> c | None \<Rightarrow> own)
          | None \<Rightarrow> own))"

definition failure_seconds :: "probe_result \<Rightarrow> int \<Rightarrow> cache_error + rat" where
  "failure_seconds r failures =
     (case po_negative_ttl_seconds r of
        Some s \<Rightarrow> if s \<le> 0 then Inl BadNegativeTtl else Inr (min s 86400)
      | None \<Rightarrow> negative_seconds (po_category r) (po_http_status r) (po_retry_after_seconds r) failures)"

definition healthy_entry :: "rat \<Rightarrow> route_id \<Rightarrow> health_entry option \<Rightarrow> probe_result \<Rightarrow> rat \<Rightarrow> cache_error + health_entry" where
  "healthy_entry fresh route previous r now =
     bind_res (HealthEntry route ''ok'' now (usable_until fresh now) 0 True True) (\<lambda>e.
     let (cls, ok, stamp) = agentic_fields previous r now in
     Inr (e \<lparr> he_latency_ms := po_latency_ms r, he_pool := po_pool r,
       he_capacity_evidence := po_capacity_evidence r, he_http_status := po_http_status r,
       he_healthy := True, he_identity := po_identity r, he_probe_class := cls, he_agentic_ok := ok,
       he_agentic_checked_at := stamp, he_last_success_at := Some now, he_failure_scope := None \<rparr>))"

definition failed_entry :: "route_id \<Rightarrow> health_entry option \<Rightarrow> probe_result \<Rightarrow> rat \<Rightarrow> cache_error + health_entry" where
  "failed_entry route previous r now =
     (let failures = (case previous of Some p \<Rightarrow> he_consecutive_failures p | None \<Rightarrow> 0) + 1 in
      bind_res (failure_seconds r failures) (\<lambda>seconds.
      bind_res (HealthEntry route (po_category r) now (now + seconds) failures (po_chat_ok r) (po_tool_ok r)) (\<lambda>e.
      let (cls, ok, stamp) = agentic_fields previous r now in
      Inr (e \<lparr> he_latency_ms := po_latency_ms r,
        he_pool := (case po_pool r of Some p \<Rightarrow> Some p | None \<Rightarrow> Option.bind previous he_pool),
        he_capacity_evidence := po_capacity_evidence r, he_http_status := po_http_status r,
        he_healthy := False, he_identity := po_identity r, he_probe_class := cls,
        he_agentic_ok := (if preserve_agentic previous r now then ok else False),
        he_agentic_checked_at := (case stamp of Some t \<Rightarrow> Some t | None \<Rightarrow> Option.bind previous he_agentic_checked_at),
        he_last_success_at := (case po_last_success_at r of
           Some t \<Rightarrow> Some t | None \<Rightarrow> Option.bind previous he_last_success_at),
        he_failure_scope := po_failure_scope r, he_feedback_source := po_feedback_source r,
        he_feedback_category := po_feedback_category r, he_feedback_turn_count := po_feedback_turn_count r,
        he_feedback_turns_source := po_feedback_turns_source r,
        he_feedback_provenance := po_feedback_provenance r \<rparr>))))"

text \<open>What an entry inherits: the last failure, the revision and the session proof.\<close>

definition inherit :: "health_entry option \<Rightarrow> probe_result \<Rightarrow> rat \<Rightarrow> health_entry \<Rightarrow> health_entry" where
  "inherit previous r now e =
     (let before = Option.bind previous last_failure in
      e \<lparr> he_last_failure_at := (if probe_healthy r then before
            else Some (case before of Some t \<Rightarrow> max now t | None \<Rightarrow> now)),
          he_write_revision := (case previous of Some p \<Rightarrow> he_write_revision p | None \<Rightarrow> 0),
          he_agentic_source := Option.bind previous he_agentic_source,
          he_agentic_child_id := Option.bind previous he_agentic_child_id,
          he_session_agentic_ok := Option.bind previous he_session_agentic_ok,
          he_session_agentic_at := Option.bind previous he_session_agentic_at \<rparr>)"

text \<open>A route that answered and failed a newer agentic probe loses its session proof.\<close>

definition revoke_session :: "probe_result \<Rightarrow> rat \<Rightarrow> health_entry \<Rightarrow> health_entry" where
  "revoke_session r now e =
     (if po_probe_class r = ''agentic'' \<and> po_chat_ok r \<and> \<not> po_agentic_ok r \<and>
         (case he_session_agentic_at e of None \<Rightarrow> False | Some stamp \<Rightarrow> stamp \<le> now)
      then e \<lparr> he_session_agentic_ok := Some False, he_session_agentic_at := Some now,
        he_agentic_source := Some ''agentic_probe'', he_agentic_child_id := None \<rparr>
      else e)"

definition record_probe :: "rat \<Rightarrow> route_id \<Rightarrow> probe_result \<Rightarrow> rat \<Rightarrow> routes \<Rightarrow> cache_error + health_entry \<times> routes" where
  "record_probe fresh route r now routes =
     (if py_strip route = [] then Inl EmptyRouteId
      else
        let previous = map_of routes route in
        bind_res (if probe_healthy r then healthy_entry fresh route previous r now
                  else failed_entry route previous r now) (\<lambda>e.
        let entry = revoke_session r now (inherit previous r now e) in
        Inr (entry, dict_put route entry routes)))"


subsection \<open>Recording other evidence\<close>

definition record_liveness ::
  "rat \<Rightarrow> route_id \<Rightarrow> rat option \<Rightarrow> string option \<Rightarrow> string option \<Rightarrow> rat \<Rightarrow> string \<Rightarrow> routes
     \<Rightarrow> cache_error + health_entry \<times> routes" where
  "record_liveness fresh route latency pool capacity now identity routes =
     (if py_strip route = [] then Inl EmptyRouteId
      else
        let previous = map_of routes route in
        bind_res (HealthEntry route ''ok'' now (usable_until fresh now) 0 True False) (\<lambda>e.
        let entry = e \<lparr> he_last_failure_at := Option.bind previous last_failure,
              he_latency_ms := latency, he_pool := pool, he_capacity_evidence := capacity,
              he_http_status := Some 200, he_healthy := True, he_identity := identity,
              he_last_success_at := Some now,
              he_session_agentic_ok := Option.bind previous he_session_agentic_ok,
              he_session_agentic_at := Option.bind previous he_session_agentic_at,
              he_probe_class := (case previous of Some p \<Rightarrow> he_probe_class p | None \<Rightarrow> ''single_call''),
              he_agentic_ok := (case previous of Some p \<Rightarrow> he_agentic_ok p | None \<Rightarrow> False),
              he_agentic_checked_at := Option.bind previous he_agentic_checked_at,
              he_agentic_source := Option.bind previous he_agentic_source,
              he_agentic_child_id := Option.bind previous he_agentic_child_id,
              he_write_revision := (case previous of Some p \<Rightarrow> he_write_revision p | None \<Rightarrow> 0) \<rparr> in
        Inr (entry, dict_put route entry routes)))"

datatype passive_outcome =
    Recorded
  | SkippedFuture
  | SkippedTooOld
  | SkippedNewerOrEqual
  | SkippedActiveNegative
  | SkippedToolProofUsable
  | SkippedExpired

definition PASSIVE_CLOCK_SKEW_SECONDS :: rat where
  "PASSIVE_CLOCK_SKEW_SECONDS = 60"

definition passive_traffic_skip :: "rat \<Rightarrow> health_entry option \<Rightarrow> rat \<Rightarrow> rat \<Rightarrow> passive_outcome option" where
  "passive_traffic_skip fresh previous observed now =
     (if observed > now + PASSIVE_CLOCK_SKEW_SECONDS then Some SkippedFuture
      else if now - observed \<ge> usable_seconds fresh then Some SkippedTooOld
      else (case previous of
              None \<Rightarrow> None
            | Some p \<Rightarrow>
                if he_checked_at p \<ge> observed then Some SkippedNewerOrEqual
                else if state_at fresh p now = NEGATIVE then Some SkippedActiveNegative
                else if he_healthy p \<and> he_tool_ok p \<and> state_at fresh p now \<in> {FRESH, STALE}
                then Some SkippedToolProofUsable else None))"

definition record_passive_traffic ::
  "rat \<Rightarrow> route_id \<Rightarrow> rat \<Rightarrow> rat \<Rightarrow> string \<Rightarrow> rat option \<Rightarrow> string option \<Rightarrow> string option \<Rightarrow> routes
     \<Rightarrow> cache_error + passive_outcome \<times> routes" where
  "record_passive_traffic fresh route observed now source latency pool capacity routes =
     (let previous = map_of routes route in
      case passive_traffic_skip fresh previous observed now of
        Some skipped \<Rightarrow> Inr (skipped, routes)
      | None \<Rightarrow>
          bind_res (record_liveness fresh route latency
            (case pool of Some p \<Rightarrow> Some p | None \<Rightarrow> Option.bind previous he_pool) capacity observed [] routes)
            (\<lambda>(entry, routes1). Inr (Recorded, dict_put route (entry \<lparr> he_evidence_source := Some source \<rparr>) routes1)))"

definition record_passive_failure ::
  "rat \<Rightarrow> route_id \<Rightarrow> rat \<Rightarrow> rat \<Rightarrow> int option \<Rightarrow> string \<Rightarrow> string \<Rightarrow> routes
     \<Rightarrow> cache_error + passive_outcome \<times> routes" where
  "record_passive_failure fresh route observed now http_status category source routes =
     (let previous = map_of routes route in
      if observed > now + PASSIVE_CLOCK_SKEW_SECONDS then Inr (SkippedFuture, routes)
      else if (case previous of None \<Rightarrow> False | Some p \<Rightarrow> he_checked_at p \<ge> observed) then Inr (SkippedNewerOrEqual, routes)
      else
        bind_res (record_probe fresh route
          ((ProbeResult category False False) \<lparr> po_http_status := http_status, po_failure_scope := Some ''route'' \<rparr>)
          observed routes)
          (\<lambda>(entry, routes1).
            if state_at fresh entry now \<noteq> NEGATIVE then
              Inr (SkippedExpired, case previous of
                     None \<Rightarrow> dict_del route routes1 | Some p \<Rightarrow> dict_put route p routes1)
            else Inr (Recorded, dict_put route (entry \<lparr> he_evidence_source := Some source \<rparr>) routes1)))"

text \<open>The earlier agentic evidence of a route: the session proof if there is one, else the probe.\<close>

definition prior_agentic :: "health_entry option \<Rightarrow> (rat \<times> bool) option" where
  "prior_agentic previous =
     (case previous of
        None \<Rightarrow> None
      | Some p \<Rightarrow>
          (case he_session_agentic_at p of
             Some stamp \<Rightarrow> Some (stamp, he_session_agentic_ok p = Some True)
           | None \<Rightarrow> map_option (\<lambda>stamp. (stamp, he_agentic_ok p)) (he_agentic_checked_at p)))"

definition superseded_evidence :: "health_entry option \<Rightarrow> bool \<Rightarrow> rat \<Rightarrow> bool" where
  "superseded_evidence previous passed stamp \<longleftrightarrow>
     (case prior_agentic previous of
        None \<Rightarrow> False
      | Some (prior_at, prior_ok) \<Rightarrow> stamp < prior_at \<or> (stamp = prior_at \<and> (passed \<or> \<not> prior_ok)))"

definition record_agentic_evidence ::
  "route_id \<Rightarrow> bool \<Rightarrow> rat \<Rightarrow> string \<Rightarrow> string option \<Rightarrow> routes \<Rightarrow> cache_error + bool \<times> routes" where
  "record_agentic_evidence route passed stamp source child routes =
     (let previous = map_of routes route in
      if superseded_evidence previous passed stamp then Inr (False, routes)
      else
        bind_res (case previous of
            Some p \<Rightarrow> Inr p
          | None \<Rightarrow> HealthEntry route ''session_evidence'' stamp stamp 0 False False) (\<lambda>base.
        Inr (True, dict_put route (base \<lparr> he_probe_class := ''agentic'', he_agentic_ok := passed,
          he_agentic_checked_at := Some stamp, he_agentic_source := Some source, he_agentic_child_id := child,
          he_session_agentic_ok := Some passed, he_session_agentic_at := Some stamp \<rparr>) routes)))"

definition record_half_open_success :: "routes \<Rightarrow> route_id \<Rightarrow> rat" where
  "record_half_open_success routes route =
     (case map_of routes route of
        None \<Rightarrow> 0
      | Some p \<Rightarrow> if he_healthy p then 0 else next_backoff_seconds (he_until p - he_checked_at p))"


section \<open>Lemmas\<close>

subsection \<open>What a new entry looks like\<close>

lemma HealthEntry_Inr:
  assumes "HealthEntry route category checked until failures chat tool = Inr e"
  shows "he_route_id e = route" "he_category e = category" "he_checked_at e = checked" "he_until e = until"
    "he_consecutive_failures e = failures" "he_chat_ok e = chat" "he_tool_ok e = tool" "\<not> he_healthy e"
    "he_write_revision e = 0" "he_last_failure_at e = None" "0 \<le> failures" "py_strip route \<noteq> []"
    "he_session_agentic_at e = None" "he_agentic_checked_at e = None"
  using assms by (auto simp: HealthEntry_def split: if_splits)

lemma healthy_entry_Inr:
  assumes "healthy_entry fresh route previous r now = Inr e"
  shows "he_healthy e" "he_checked_at e = now" "he_until e = usable_until fresh now"
    "he_consecutive_failures e = 0" "he_tool_ok e"
    "(he_probe_class e, he_agentic_ok e, he_agentic_checked_at e) = agentic_fields previous r now"
  using assms by (cases "agentic_fields previous r now";
      auto simp: healthy_entry_def res_simps Let_def HealthEntry_Inr)+

lemma failed_entry_Inr:
  assumes "failed_entry route previous r now = Inr e"
  obtains seconds where
    "failure_seconds r ((case previous of Some p \<Rightarrow> he_consecutive_failures p | None \<Rightarrow> 0) + 1) = Inr seconds"
    "\<not> he_healthy e" "he_checked_at e = now" "he_until e = now + seconds"
    "he_consecutive_failures e = (case previous of Some p \<Rightarrow> he_consecutive_failures p | None \<Rightarrow> 0) + 1"
    "he_agentic_ok e \<longleftrightarrow> preserve_agentic previous r now \<and> fst (snd (agentic_fields previous r now))"
    "he_agentic_checked_at e = (case snd (snd (agentic_fields previous r now)) of
       Some t \<Rightarrow> Some t | None \<Rightarrow> Option.bind previous he_agentic_checked_at)"
proof -
  obtain cls ok stamp where fields: "agentic_fields previous r now = (cls, ok, stamp)"
    by (cases "agentic_fields previous r now") auto
  from assms that show thesis
    by (auto simp: failed_entry_def res_simps Let_def HealthEntry_Inr fields)
qed

lemma revoke_session_fields [simp]:
  "he_healthy (revoke_session r now e) = he_healthy e" "he_checked_at (revoke_session r now e) = he_checked_at e"
  "he_until (revoke_session r now e) = he_until e" "he_tool_ok (revoke_session r now e) = he_tool_ok e"
  "he_consecutive_failures (revoke_session r now e) = he_consecutive_failures e"
  "he_last_failure_at (revoke_session r now e) = he_last_failure_at e"
  "he_write_revision (revoke_session r now e) = he_write_revision e"
  "he_agentic_ok (revoke_session r now e) = he_agentic_ok e"
  "he_agentic_checked_at (revoke_session r now e) = he_agentic_checked_at e"
  by (simp_all add: revoke_session_def)

lemma inherit_fields [simp]:
  "he_healthy (inherit previous r now e) = he_healthy e" "he_checked_at (inherit previous r now e) = he_checked_at e"
  "he_until (inherit previous r now e) = he_until e" "he_tool_ok (inherit previous r now e) = he_tool_ok e"
  "he_consecutive_failures (inherit previous r now e) = he_consecutive_failures e"
  "he_agentic_ok (inherit previous r now e) = he_agentic_ok e"
  "he_agentic_checked_at (inherit previous r now e) = he_agentic_checked_at e"
  "he_write_revision (inherit previous r now e) = (case previous of Some p \<Rightarrow> he_write_revision p | None \<Rightarrow> 0)"
  "he_session_agentic_at (inherit previous r now e) = Option.bind previous he_session_agentic_at"
  "he_session_agentic_ok (inherit previous r now e) = Option.bind previous he_session_agentic_ok"
  "he_last_failure_at (inherit previous r now e) =
     (if probe_healthy r then Option.bind previous last_failure
      else Some (case Option.bind previous last_failure of Some t \<Rightarrow> max now t | None \<Rightarrow> now))"
  by (simp_all add: inherit_def Let_def)

text \<open>\<open>record\<close> writes one entry, which the two constructors and the inherited fields determine.\<close>

lemma record_probe_Inr:
  assumes "record_probe fresh route r now routes = Inr (e, routes')"
  obtains e0 where "routes' = dict_put route e routes"
    "e = revoke_session r now (inherit (map_of routes route) r now e0)"
    "(if probe_healthy r then healthy_entry fresh route (map_of routes route) r now
      else failed_entry route (map_of routes route) r now) = Inr e0"
  using assms by (auto simp: record_probe_def Let_def res_simps split: if_splits)

lemma record_probe_fields:
  assumes "record_probe fresh route r now routes = Inr (e, routes')"
  shows "routes' = dict_put route e routes" "he_healthy e \<longleftrightarrow> probe_healthy r" "he_checked_at e = now"
    "he_last_failure_at e = (if probe_healthy r then Option.bind (map_of routes route) last_failure
      else Some (case Option.bind (map_of routes route) last_failure of Some t \<Rightarrow> max now t | None \<Rightarrow> now))"
    "he_write_revision e = (case map_of routes route of Some p \<Rightarrow> he_write_revision p | None \<Rightarrow> 0)"
proof -
  obtain e0 where e0: "routes' = dict_put route e routes"
    "e = revoke_session r now (inherit (map_of routes route) r now e0)"
    "(if probe_healthy r then healthy_entry fresh route (map_of routes route) r now
      else failed_entry route (map_of routes route) r now) = Inr e0"
    by (rule record_probe_Inr [OF assms])
  have "he_healthy e0 \<longleftrightarrow> probe_healthy r" "he_checked_at e0 = now"
    using e0(3) by (auto split: if_splits dest: healthy_entry_Inr elim: failed_entry_Inr)
  then show "routes' = dict_put route e routes" "he_healthy e \<longleftrightarrow> probe_healthy r" "he_checked_at e = now"
    "he_last_failure_at e = (if probe_healthy r then Option.bind (map_of routes route) last_failure
      else Some (case Option.bind (map_of routes route) last_failure of Some t \<Rightarrow> max now t | None \<Rightarrow> now))"
    "he_write_revision e = (case map_of routes route of Some p \<Rightarrow> he_write_revision p | None \<Rightarrow> 0)"
    using e0(1,2) by simp_all
qed

lemma record_liveness_fields:
  assumes "record_liveness fresh route latency pool capacity now identity routes = Inr (e, routes')"
  shows "routes' = dict_put route e routes" "he_healthy e" "\<not> he_tool_ok e" "he_checked_at e = now"
    "he_last_failure_at e = Option.bind (map_of routes route) last_failure"
    "he_write_revision e = (case map_of routes route of Some p \<Rightarrow> he_write_revision p | None \<Rightarrow> 0)"
    "he_agentic_ok e = (case map_of routes route of Some p \<Rightarrow> he_agentic_ok p | None \<Rightarrow> False)"
    "he_agentic_checked_at e = Option.bind (map_of routes route) he_agentic_checked_at"
    "he_session_agentic_ok e = Option.bind (map_of routes route) he_session_agentic_ok"
    "he_session_agentic_at e = Option.bind (map_of routes route) he_session_agentic_at"
  using assms by (auto simp: record_liveness_def Let_def res_simps HealthEntry_Inr split: if_splits)


subsection \<open>No recorder forgets a failure\<close>

text \<open>
  An entry descends from an earlier one of its route when it carries the same revision and remembers
  no earlier last failure; a new entry has revision zero.
\<close>

definition descends :: "health_entry option \<Rightarrow> health_entry option \<Rightarrow> bool" where
  "descends old new =
     (case (old, new) of
        (None, None) \<Rightarrow> True
      | (None, Some e) \<Rightarrow> he_write_revision e = 0
      | (Some p, Some e) \<Rightarrow> he_write_revision e = he_write_revision p \<and> last_failure p \<le> last_failure e
      | (Some p, None) \<Rightarrow> False)"

lemma descends_refl [simp]: "descends x x"
  by (simp add: descends_def split: option.split)

definition routes_descend :: "routes \<Rightarrow> routes \<Rightarrow> bool" where
  "routes_descend rs rs' \<longleftrightarrow> (\<forall>r. descends (map_of rs r) (map_of rs' r))"

lemma descends_trans: "descends x y \<Longrightarrow> descends y z \<Longrightarrow> descends x z"
  by (auto simp: descends_def split: option.splits)

lemma routes_descend_refl [simp]: "routes_descend rs rs"
  by (simp add: routes_descend_def)

lemma routes_descend_trans [trans]: "routes_descend a b \<Longrightarrow> routes_descend b c \<Longrightarrow> routes_descend a c"
  unfolding routes_descend_def using descends_trans by blast

lemma routes_descend_put:
  "descends (map_of rs route) (Some e) \<Longrightarrow> routes_descend rs (dict_put route e rs)"
  by (simp add: routes_descend_def)

text \<open>The contract of an operation that writes route entries.\<close>

locale route_writer =
  fixes wr :: "routes \<Rightarrow> cache_error + 'a \<times> routes"
  assumes write_descends: "wr rs = Inr (x, rs') \<Longrightarrow> routes_descend rs rs'"
    and write_wf: "wr rs = Inr (x, rs') \<Longrightarrow> dict_wf rs \<Longrightarrow> dict_wf rs'"
begin

lemma keeps_failure:
  assumes "wr rs = Inr (x, rs')" and "map_of rs r = Some p" and "last_failure p = Some t"
  shows "\<exists>e t'. map_of rs' r = Some e \<and> last_failure e = Some t' \<and> t \<le> t'"
proof -
  have "descends (Some p) (map_of rs' r)"
    using write_descends [OF assms(1)] assms(2) by (simp add: routes_descend_def) metis
  then obtain e where e: "map_of rs' r = Some e" "Some t \<le> last_failure e"
    using assms(3) by (auto simp: descends_def split: option.splits)
  then show ?thesis by (cases "last_failure e") auto
qed

end

lemma last_failure_of:
  "he_last_failure_at e = Some t \<Longrightarrow> last_failure e = Some t"
  "he_healthy e \<Longrightarrow> last_failure e = he_last_failure_at e"
  by (auto simp: last_failure_def split: option.split)

lemma last_failure_upd [simp]:
  "last_failure (e \<lparr> he_evidence_source := s \<rparr>) = last_failure e"
  by (simp add: last_failure_def split: option.split)

lemma record_probe_descends:
  assumes "record_probe fresh route r now routes = Inr (e, routes')"
  shows "descends (map_of routes route) (Some e)"
proof (cases "probe_healthy r")
  case True
  then have "last_failure e = Option.bind (map_of routes route) last_failure"
    using record_probe_fields [OF assms] last_failure_of(2) [of e] by simp
  then show ?thesis
    using record_probe_fields(5) [OF assms] by (simp add: descends_def split: option.splits)
next
  case False
  then have "last_failure e = Some (case Option.bind (map_of routes route) last_failure of Some t \<Rightarrow> max now t | None \<Rightarrow> now)"
    using record_probe_fields(4) [OF assms] last_failure_of(1) [of e] by simp
  then show ?thesis
    using record_probe_fields(5) [OF assms] by (auto simp: descends_def split: option.splits)
qed

lemma record_liveness_descends:
  assumes "record_liveness fresh route latency pool capacity now identity routes = Inr (e, routes')"
  shows "descends (map_of routes route) (Some e)"
  using record_liveness_fields [OF assms] last_failure_of(2) [of e]
  by (auto simp: descends_def split: option.splits)

lemma descends_evidence_source [simp]:
  "descends p (Some (e \<lparr> he_evidence_source := s \<rparr>)) = descends p (Some e)"
  by (simp add: descends_def split: option.splits)

interpretation probe_writer: route_writer "record_probe fresh route r now" for fresh route r now
  by unfold_locales (metis record_probe_descends record_probe_fields(1) routes_descend_put, metis record_probe_fields(1) dict_wf_put)

interpretation liveness_writer: route_writer "record_liveness fresh route latency pool capacity now identity"
  for fresh route latency pool capacity now identity
  by unfold_locales (metis record_liveness_descends record_liveness_fields(1) routes_descend_put, metis record_liveness_fields(1) dict_wf_put)

lemma record_passive_traffic_cases:
  assumes "record_passive_traffic fresh route observed now source latency pool capacity rs = Inr (x, rs')"
  obtains (skipped) "rs' = rs" "passive_traffic_skip fresh (map_of rs route) observed now = Some x"
  | (written) e pool' where "passive_traffic_skip fresh (map_of rs route) observed now = None"
      "record_liveness fresh route latency pool' capacity observed [] rs = Inr (e, dict_put route e rs)"
      "rs' = dict_put route (e \<lparr> he_evidence_source := Some source \<rparr>) rs"
proof (cases "passive_traffic_skip fresh (map_of rs route) observed now")
  case None
  with assms obtain e rs1 where e: "record_liveness fresh route latency
      (case pool of Some p \<Rightarrow> Some p | None \<Rightarrow> Option.bind (map_of rs route) he_pool) capacity observed [] rs = Inr (e, rs1)"
    "rs' = dict_put route (e \<lparr> he_evidence_source := Some source \<rparr>) rs1"
    by (auto simp: record_passive_traffic_def Let_def res_simps)
  with record_liveness_fields(1) [OF e(1)] None written show ?thesis by simp
next
  case (Some y)
  with assms skipped show ?thesis by (simp add: record_passive_traffic_def)
qed

lemma record_passive_failure_cases:
  assumes "record_passive_failure fresh route observed now http_status category source rs = Inr (x, rs')"
  obtains (skipped) "x \<noteq> Recorded" "\<And>r. map_of rs' r = map_of rs r"
  | (written) e where "x = Recorded" "record_probe fresh route
        ((ProbeResult category False False) \<lparr> po_http_status := http_status, po_failure_scope := Some ''route'' \<rparr>)
        observed rs = Inr (e, dict_put route e rs)"
      "rs' = dict_put route (e \<lparr> he_evidence_source := Some source \<rparr>) rs"
proof (cases "x = Recorded")
  case True
  with assms obtain e rs1 where e: "record_probe fresh route
        ((ProbeResult category False False) \<lparr> po_http_status := http_status, po_failure_scope := Some ''route'' \<rparr>)
        observed rs = Inr (e, rs1)"
    "rs' = dict_put route (e \<lparr> he_evidence_source := Some source \<rparr>) rs1"
    by (auto simp: record_passive_failure_def Let_def res_simps split: if_splits)
  with record_probe_fields(1) [OF e(1)] True written show ?thesis by simp
next
  case False
  have "map_of rs' r = map_of rs r" for r
    using assms False record_probe_fields(1)
    by (fastforce simp: record_passive_failure_def Let_def res_simps split: if_splits option.splits)
  with False skipped show ?thesis by blast
qed

interpretation passive_traffic_writer:
  route_writer "record_passive_traffic fresh route observed now source latency pool capacity"
  for fresh route observed now source latency pool capacity
proof unfold_locales
  fix rs x rs'
  assume "record_passive_traffic fresh route observed now source latency pool capacity rs = Inr (x, rs')"
  then show "routes_descend rs rs'"
  proof (cases rule: record_passive_traffic_cases)
    case (written e pool')
    then show ?thesis using record_liveness_descends [OF written(2)] by (simp add: routes_descend_put)
  qed simp
next
  fix rs x rs'
  assume "record_passive_traffic fresh route observed now source latency pool capacity rs = Inr (x, rs')" "dict_wf rs"
  then show "dict_wf rs'" by (cases rule: record_passive_traffic_cases) (simp_all add: dict_wf_put)
qed

interpretation passive_failure_writer:
  route_writer "record_passive_failure fresh route observed now http_status category source"
  for fresh route observed now http_status category source
proof unfold_locales
  fix rs x rs'
  assume "record_passive_failure fresh route observed now http_status category source rs = Inr (x, rs')"
  then show "routes_descend rs rs'"
  proof (cases rule: record_passive_failure_cases)
    case (written e)
    then show ?thesis using record_probe_descends [OF written(2)] by (simp add: routes_descend_put)
  qed (simp add: routes_descend_def)
next
  fix rs x rs'
  assume "record_passive_failure fresh route observed now http_status category source rs = Inr (x, rs')" "dict_wf rs"
  then show "dict_wf rs'"
    by (auto simp: record_passive_failure_def Let_def res_simps dict_wf_put dict_wf_del
        dest!: record_probe_fields(1) split: if_splits option.splits)
qed

interpretation agentic_writer: route_writer "record_agentic_evidence route passed stamp source child"
  for route passed stamp source child
proof unfold_locales
  fix rs x rs'
  assume "record_agentic_evidence route passed stamp source child rs = Inr (x, rs')"
  then show "routes_descend rs rs'"
    by (auto simp: record_agentic_evidence_def Let_def res_simps routes_descend_def descends_def last_failure_def
        HealthEntry_Inr split: option.splits if_splits)
next
  fix rs x rs'
  assume "record_agentic_evidence route passed stamp source child rs = Inr (x, rs')" "dict_wf rs"
  then show "dict_wf rs'"
    by (auto simp: record_agentic_evidence_def Let_def res_simps dict_wf_put split: if_splits)
qed


subsection \<open>Sequences of probes\<close>

fun record_all :: "rat \<Rightarrow> route_id \<Rightarrow> (probe_result \<times> rat) list \<Rightarrow> routes \<Rightarrow> cache_error + routes" where
  "record_all fresh route [] routes = Inr routes"
| "record_all fresh route ((r, now) # rest) routes =
     bind_res (record_probe fresh route r now routes) (\<lambda>(e, routes'). record_all fresh route rest routes')"

definition failures_of :: "routes \<Rightarrow> route_id \<Rightarrow> int" where
  "failures_of routes route = (case map_of routes route of Some p \<Rightarrow> he_consecutive_failures p | None \<Rightarrow> 0)"

lemma record_failed_probe:
  assumes "record_probe fresh route r now routes = Inr (e, routes')" and "\<not> probe_healthy r"
  obtains seconds where "failure_seconds r (failures_of routes route + 1) = Inr seconds" "\<not> he_healthy e"
    "he_until e = now + seconds" "he_consecutive_failures e = failures_of routes route + 1"
    "routes' = dict_put route e routes"
proof -
  obtain e0 where e0: "routes' = dict_put route e routes"
    "e = revoke_session r now (inherit (map_of routes route) r now e0)"
    "failed_entry route (map_of routes route) r now = Inr e0"
    using record_probe_Inr [OF assms(1)] assms(2) by auto
  show thesis
    by (rule failed_entry_Inr [OF e0(3)], rule that) (simp_all add: e0(1,2) failures_of_def)
qed

lemma record_all_append:
  "record_all fresh route (xs @ ys) routes =
     bind_res (record_all fresh route xs routes) (record_all fresh route ys)"
  by (induction fresh route xs routes rule: record_all.induct)
     (auto split: sum.splits prod.splits simp: bind_res.simps, (case_tac "record_probe fresh route r now routes"; auto)+)

lemma record_all_failures:
  assumes "list_all (\<lambda>(r, t). \<not> probe_healthy r) hist" and "record_all fresh route hist routes = Inr routes'"
  shows "failures_of routes' route = failures_of routes route + int (length hist)"
  using assms
proof (induction hist arbitrary: routes)
  case (Cons h hist)
  obtain r now where h: "h = (r, now)" by force
  from Cons.prems h obtain e routes1 where
    step: "record_probe fresh route r now routes = Inr (e, routes1)"
    and rest: "record_all fresh route hist routes1 = Inr routes'" by (auto simp: res_simps)
  have "failures_of routes1 route = failures_of routes route + 1"
    by (rule record_failed_probe [OF step]) (use Cons.prems h in \<open>auto simp: failures_of_def\<close>)
  with Cons.IH [OF _ rest] Cons.prems show ?case by simp
qed simp

lemma agentic_qualified_cong:
  "he_session_agentic_at e = he_session_agentic_at p \<Longrightarrow> he_session_agentic_ok e = he_session_agentic_ok p \<Longrightarrow>
   he_agentic_checked_at e = he_agentic_checked_at p \<Longrightarrow> he_agentic_ok e = he_agentic_ok p \<Longrightarrow>
   agentic_qualified ttl (Some e) t = agentic_qualified ttl (Some p) t"
  by (simp add: agentic_qualified_def split: option.split)

lemma failure_seconds_unhinted:
  assumes "po_negative_ttl_seconds r = None" and "po_category r \<noteq> ''rate_limited''" and "po_http_status r \<noteq> Some 429"
  shows "failure_seconds r (int n + 1) =
    (if 1024 \<le> n then Inl FloatOverflow
     else Inr (if is_long_negative (po_category r) (po_http_status r)
               then min 86400 (21600 * 2 ^ n) else min 900 (60 * 2 ^ n)))"
  using assms by (simp add: failure_seconds_def negative_seconds_def capped_def Let_def max_def min_def)

lemma failed_entry_Inl:
  assumes "failed_entry route previous r now = Inl err" and "py_strip route \<noteq> []"
    and "0 \<le> (case previous of Some p \<Rightarrow> he_consecutive_failures p | None \<Rightarrow> 0)"
  shows "failure_seconds r ((case previous of Some p \<Rightarrow> he_consecutive_failures p | None \<Rightarrow> 0) + 1) = Inl err"
  using assms
  by (cases "failure_seconds r ((case previous of Some p \<Rightarrow> he_consecutive_failures p | None \<Rightarrow> 0) + 1)")
     (auto simp: failed_entry_def HealthEntry_def Let_def split: prod.splits)

lemma record_failed_probe_Inl:
  assumes "record_probe fresh route r now routes = Inl err" and "\<not> probe_healthy r" and "py_strip route \<noteq> []"
    and "0 \<le> failures_of routes route"
  shows "failure_seconds r (failures_of routes route + 1) = Inl err"
proof -
  have "failed_entry route (map_of routes route) r now = Inl err"
    using assms(1-3) by (cases "failed_entry route (map_of routes route) r now") (auto simp: record_probe_def Let_def)
  from failed_entry_Inl [OF this assms(3)] assms(4) show ?thesis by (simp add: failures_of_def)
qed


section \<open>Properties\<close>

text \<open>C34. A route that keeps failing backs off. Take a route with no entry, or with one without failures in a
  row, and n failed probes recorded for it. A further failed probe, with no explicit negative lifetime and
  not a rate limit (category or status 429), is recorded exactly when n is below 1024: then the route is
  negative for the base time doubled n times, at most fifteen minutes for transient failures and a day for
  account and catalog failures, and afterwards unprobed, never healthy. From the 1025th failure on the
  doubling overflows and the call raises, so the failure is not recorded.\<close>

theorem failed_probes_back_off:
  assumes "\<forall>p. map_of routes route = Some p \<longrightarrow> he_consecutive_failures p = 0" and "py_strip route \<noteq> []"
    and "list_all (\<lambda>(r, t). \<not> probe_healthy r) hist" and "record_all fresh route hist routes = Inr routes1"
    and "\<not> probe_healthy r"
    and "po_negative_ttl_seconds r = None" and "po_category r \<noteq> ''rate_limited''" and "po_http_status r \<noteq> Some 429"
  shows "case record_probe fresh route r now routes1 of
      Inl err \<Rightarrow> err = FloatOverflow \<and> 1024 \<le> length hist
    | Inr (e, routes') \<Rightarrow> length hist < 1024 \<and>
        (\<forall>t. lookup_state fresh routes' route t =
          (if t < now + (if is_long_negative (po_category r) (po_http_status r)
                         then min 86400 (21600 * 2 ^ length hist) else min 900 (60 * 2 ^ length hist))
           then NEGATIVE else UNPROBED))"
proof -
  have n: "failures_of routes1 route = int (length hist)"
    using record_all_failures [OF assms(3,4)] assms(1) by (simp add: failures_of_def split: option.splits)
  note seconds = failure_seconds_unhinted [OF assms(6-8), of "length hist"]
  show ?thesis
  proof (cases "record_probe fresh route r now routes1")
    case (Inl err)
    then show ?thesis using record_failed_probe_Inl [OF Inl assms(5,2)] seconds by (simp add: n split: if_splits)
  next
    case (Inr res)
    obtain e routes' where res: "res = (e, routes')" by force
    show ?thesis
      by (rule record_failed_probe [OF Inr [unfolded res] assms(5)])
         (use Inr res seconds in \<open>auto simp: n lookup_state_def state_at_def classify_state_def split: if_splits\<close>)
  qed
qed

text \<open>Passive traffic grants nothing: a success that the gateway observed never makes a route usable for
  tool work, never extends an agentic qualification, and never replaces an active negative.\<close>

theorem passive_traffic_grants_nothing:
  assumes "record_passive_traffic fresh route observed now source latency pool capacity routes = Inr (outcome, routes')"
  shows "(map_of routes' r = Some e \<and> he_tool_ok e \<longrightarrow> map_of routes r = Some e) \<and>
    (agentic_qualified ttl (map_of routes' r) t \<longrightarrow> agentic_qualified ttl (map_of routes r) t) \<and>
    (lookup_state fresh routes r now = NEGATIVE \<longrightarrow> map_of routes' r = map_of routes r)"
  using assms
proof (cases rule: record_passive_traffic_cases)
  case (written e' pool')
  note new = record_liveness_fields [OF written(2)]
  have "agentic_qualified ttl (Some (e' \<lparr> he_evidence_source := Some source \<rparr>)) t \<longrightarrow>
      agentic_qualified ttl (map_of routes route) t"
  proof (cases "map_of routes route")
    case (Some p)
    then show ?thesis using new(7-10) agentic_qualified_cong [of "e' \<lparr> he_evidence_source := Some source \<rparr>" p ttl t] by simp
  qed (use new(7-10) in \<open>simp add: agentic_qualified_def\<close>)
  moreover have "lookup_state fresh routes route now \<noteq> NEGATIVE"
    using written(1) by (auto simp: passive_traffic_skip_def lookup_state_def split: option.splits if_splits)
  ultimately show ?thesis using new(3) by (auto simp: written(3))
qed simp

text \<open>An agentic qualification is never extended by other evidence: after a probe is recorded, the route is
  qualified at a time only if it was before or the probe itself was a passed agentic one.\<close>

theorem agentic_proof_needs_agentic_probe:
  assumes "record_probe fresh route r now routes = Inr (e, routes')"
    and "agentic_qualified ttl (map_of routes' route) t"
  shows "agentic_qualified ttl (map_of routes route) t \<or> (po_probe_class r = ''agentic'' \<and> po_agentic_ok r)"
proof -
  let ?p = "map_of routes route"
  obtain e0 where e0: "routes' = dict_put route e routes" "e = revoke_session r now (inherit ?p r now e0)"
    "(if probe_healthy r then healthy_entry fresh route ?p r now else failed_entry route ?p r now) = Inr e0"
    by (rule record_probe_Inr [OF assms(1)])
  have q: "agentic_qualified ttl (Some e) t" using assms(2) e0(1) by simp
  have own_or_old: "he_agentic_ok e0 \<Longrightarrow> he_agentic_checked_at e0 = Some stamp \<Longrightarrow>
      (\<exists>p. ?p = Some p \<and> he_agentic_ok p \<and> he_agentic_checked_at p = Some stamp) \<or>
      (po_probe_class r = ''agentic'' \<and> po_agentic_ok r)" for stamp
    using e0(3)
    by (auto simp: agentic_fields_def preserve_agentic_def Let_def split: if_splits option.splits
        dest!: healthy_entry_Inr(6) elim!: failed_entry_Inr)
  show ?thesis
  proof (cases "Option.bind ?p he_session_agentic_at")
    case None
    then have "he_session_agentic_at e = None" by (simp add: e0(2) revoke_session_def)
    with q obtain stamp where "he_agentic_ok e0" "he_agentic_checked_at e0 = Some stamp"
      "0 \<le> t - stamp" "t - stamp \<le> AGENTIC_PROBE_TTL_SECONDS"
      by (auto simp: agentic_qualified_def e0(2) split: option.splits)
    with own_or_old None show ?thesis by (fastforce simp: agentic_qualified_def)
  next
    case (Some stamp)
    then obtain p where p: "?p = Some p" "he_session_agentic_at p = Some stamp" by (cases ?p) auto
    with q show ?thesis
      by (auto simp: agentic_qualified_def e0(2) revoke_session_def split: option.splits if_splits)
  qed
qed

text \<open>Session evidence of a route that has no entry yet counts as a failure, also when the session passed: the
  new entry is unhealthy, so its last failure is the time of the evidence.\<close>

theorem passed_session_counts_as_failure:
  "py_strip route \<noteq> [] \<Longrightarrow> map_of routes route = None \<Longrightarrow>
   \<exists>routes' e. record_agentic_evidence route True stamp source child routes = Inr (True, routes') \<and>
     map_of routes' route = Some e \<and> he_session_agentic_ok e = Some True \<and> last_failure e = Some stamp"
  by (simp add: record_agentic_evidence_def superseded_evidence_def prior_agentic_def HealthEntry_def last_failure_def)


section \<open>Concrete entries\<close>

definition failed_probe :: probe_result where
  "failed_probe = (ProbeResult ''upstream'' False False) \<lparr> po_http_status := Some 502 \<rparr>"

definition good_probe :: probe_result where
  "good_probe = (ProbeResult ''ok'' True True) \<lparr> po_probe_class := ''agentic'', po_agentic_ok := True \<rparr>"

definition twice_failed :: routes where
  "twice_failed = projr (record_all 21600 ''cc/x'' [(failed_probe, 0), (failed_probe, 100)] [])"

definition proven_route :: routes where
  "proven_route = projr (record_all 21600 ''cc/x'' [(good_probe, 0)] [])"

theorem failed_probes_back_off_witness: "lookup_state 21600 twice_failed ''cc/x'' 219 = NEGATIVE"
proof -
  define once where "once = projr (record_all 21600 ''cc/x'' [(failed_probe, 0)] [])"
  have hist: "record_all 21600 ''cc/x'' [(failed_probe, 0)] [] = Inr once" unfolding once_def by code_simp
  have twice: "snd (projr (record_probe 21600 ''cc/x'' failed_probe 100 once)) = twice_failed"
    "\<not> isl (record_probe 21600 ''cc/x'' failed_probe 100 once)" unfolding once_def by code_simp+
  have facts: "py_strip ''cc/x'' \<noteq> []" "list_all (\<lambda>(r, t). \<not> probe_healthy r) [(failed_probe, 0 :: rat)]" "\<not> probe_healthy failed_probe"
    "po_negative_ttl_seconds failed_probe = None" "po_category failed_probe \<noteq> ''rate_limited''"
    "po_http_status failed_probe \<noteq> Some 429" "\<not> is_long_negative (po_category failed_probe) (po_http_status failed_probe)"
    by code_simp+
  have none: "\<forall>p. map_of [] ''cc/x'' = Some p \<longrightarrow> he_consecutive_failures p = 0" by simp
  from failed_probes_back_off [OF none facts(1,2) hist facts(3-6), of 100] twice facts(7)
  show ?thesis by (cases "record_probe 21600 ''cc/x'' failed_probe 100 once") auto
qed

theorem passive_traffic_grants_nothing_witness:
  "map_of (snd (projr (record_passive_traffic 21600 ''cc/x'' 150 160 ''omniroute_traffic'' None None None twice_failed))) ''cc/x'' =
     map_of twice_failed ''cc/x''"
proof -
  have "record_passive_traffic 21600 ''cc/x'' 150 160 ''omniroute_traffic'' None None None twice_failed =
      Inr (SkippedActiveNegative, snd (projr (record_passive_traffic 21600 ''cc/x'' 150 160 ''omniroute_traffic'' None None None twice_failed)))"
    "lookup_state 21600 twice_failed ''cc/x'' 160 = NEGATIVE" by code_simp+
  from conjunct2 [OF conjunct2 [OF passive_traffic_grants_nothing [OF this(1)]]] this(2) show ?thesis by blast
qed

theorem agentic_proof_needs_agentic_probe_witness: "agentic_qualified 0 (map_of proven_route ''cc/x'') 500"
proof -
  let ?r = "ProbeResult ''ok'' True True"
  have "record_probe 21600 ''cc/x'' ?r 400 proven_route =
      Inr (fst (projr (record_probe 21600 ''cc/x'' ?r 400 proven_route)), snd (projr (record_probe 21600 ''cc/x'' ?r 400 proven_route)))"
    "agentic_qualified 0 (map_of (snd (projr (record_probe 21600 ''cc/x'' ?r 400 proven_route))) ''cc/x'') 500" by code_simp+
  from agentic_proof_needs_agentic_probe [OF this] show ?thesis by (simp add: ProbeResult_def)
qed

theorem passed_session_counts_as_failure_witness:
  "\<exists>routes' e. record_agentic_evidence ''cc/x'' True 70 ''ledger'' None [] = Inr (True, routes') \<and>
     map_of routes' ''cc/x'' = Some e \<and> he_session_agentic_ok e = Some True \<and> last_failure e = Some 70"
  by (rule passed_session_counts_as_failure) (code_simp, simp)

end
