(* ===== verification/Dispatch_Permits.thy ===== *)
theory Dispatch_Permits
  imports Health_Entries
begin

section \<open>Dispatch permits and revocation epochs\<close>

text \<open>
  Models the permit part of \<open>verdict/orchestration/health_cache.py\<close> (scopes, revocation epochs,
  \<open>record_revocation\<close>, \<open>commit_dispatch\<close>, the merge of two views) and \<open>admission_proof\<close> of
  \<open>verdict/relay.py\<close>. The state is the store on disk: every write operation takes the file lock,
  reloads the file, changes it and replaces it, so it is a function from store to store. Times are
  seconds, and the route entries are those of theory \<open>Health_Entries\<close>. A scope is its own key: \<open>to_key\<close> is the JSON text of its four strings, which determines
  them. The random permit id is an argument.
\<close>

subsection \<open>State\<close>

record dispatch_scope =
  sc_gateway_origin :: string
  sc_config_generation :: string
  sc_profile_digest :: string
  sc_binding_id :: string

record dispatch_permit =
  pm_permit_id :: string
  pm_attempt_id :: string
  pm_route_id :: route_id
  pm_scope :: dispatch_scope
  pm_epoch :: int
  pm_not_after :: rat

record revocation_event =
  re_route_id :: route_id
  re_source_revision :: "string option"
  re_observed_at :: rat
  re_sequence :: int

record scope_state =
  ss_epoch :: int
  ss_sequence :: int
  ss_revocations :: "(string, revocation_event) dict"

record dispatch_attempt =
  da_permit :: dispatch_permit
  da_committed_at :: rat
  da_authorization_digest :: string

record permit_store =
  ps_scopes :: "(dispatch_scope, scope_state) dict"
  ps_attempts :: "(string, dispatch_attempt) dict"
  ps_routes :: routes

definition PERMIT_PROOF_MAX_VALIDITY_SECONDS :: rat where
  "PERMIT_PROOF_MAX_VALIDITY_SECONDS = 600"

definition fresh_scope_state :: scope_state where
  "fresh_scope_state = \<lparr> ss_epoch = 0, ss_sequence = 0, ss_revocations = [] \<rparr>"

text \<open>\<open>DispatchScope.__post_init__\<close>.\<close>

definition DispatchScope :: "string \<Rightarrow> string \<Rightarrow> string \<Rightarrow> string \<Rightarrow> cache_error + dispatch_scope" where
  "DispatchScope origin generation digest binding =
     (if list_all (\<lambda>v. py_strip v \<noteq> []) [origin, generation, digest, binding] then
        Inr \<lparr> sc_gateway_origin = origin, sc_config_generation = generation,
              sc_profile_digest = digest, sc_binding_id = binding \<rparr>
      else Inl EmptyScopeField)"


subsection \<open>Reading\<close>

definition scope_record :: "permit_store \<Rightarrow> dispatch_scope \<Rightarrow> scope_state" where
  "scope_record st scope =
     (case map_of (ps_scopes st) scope of Some r \<Rightarrow> r | None \<Rightarrow> fresh_scope_state)"

definition revocation_epoch :: "permit_store \<Rightarrow> dispatch_scope \<Rightarrow> int" where
  "revocation_epoch st scope =
     (case map_of (ps_scopes st) scope of Some r \<Rightarrow> ss_epoch r | None \<Rightarrow> 0)"

definition latest_revocation_at :: "permit_store \<Rightarrow> dispatch_scope \<Rightarrow> rat option" where
  "latest_revocation_at st scope =
     (case map_of (ps_scopes st) scope of
        None \<Rightarrow> None
      | Some r \<Rightarrow> (case map (re_observed_at \<circ> snd) (ss_revocations r) of
                    [] \<Rightarrow> None | t # ts \<Rightarrow> Some (foldl max t ts)))"

definition permit_for_attempt :: "permit_store \<Rightarrow> string \<Rightarrow> dispatch_permit option" where
  "permit_for_attempt st attempt = map_option da_permit (map_of (ps_attempts st) attempt)"


subsection \<open>Writing under the lock\<close>

definition record_revocation ::
  "dispatch_scope \<Rightarrow> route_id \<Rightarrow> string \<Rightarrow> string option \<Rightarrow> rat \<Rightarrow> permit_store
     \<Rightarrow> cache_error + int \<times> permit_store" where
  "record_revocation scope route event_id source_revision observed_at st =
     (if py_strip route = [] then Inl EmptyRouteId
      else if py_strip event_id = [] then Inl EmptyEventId
      else
        let record = scope_record st scope in
        if event_id \<in> fst ` set (ss_revocations record) then Inr (ss_epoch record, st)
        else
          let event = \<lparr> re_route_id = route, re_source_revision = source_revision,
                re_observed_at = observed_at, re_sequence = ss_sequence record + 1 \<rparr>;
              record' = \<lparr> ss_epoch = ss_epoch record + 1, ss_sequence = ss_sequence record + 1,
                ss_revocations = dict_put event_id event (ss_revocations record) \<rparr>
          in Inr (ss_epoch record', st \<lparr> ps_scopes := dict_put scope record' (ps_scopes st) \<rparr>))"

text \<open>
  The checks of the route's last health entry, inside the lock: an active negative denies, and so
  does a proof qualified at or before the last failure.
\<close>

definition entry_denies :: "health_entry \<Rightarrow> rat \<Rightarrow> rat \<Rightarrow> bool" where
  "entry_denies entry qualified current \<longleftrightarrow>
     (\<not> he_healthy entry \<and> he_until entry > current) \<or>
     (case last_failure entry of None \<Rightarrow> False | Some t \<Rightarrow> qualified \<le> t)"

definition commit_dispatch ::
  "dispatch_scope \<Rightarrow> route_id \<Rightarrow> string \<Rightarrow> string \<Rightarrow> int \<Rightarrow> rat \<Rightarrow> rat \<Rightarrow> rat \<Rightarrow> string \<Rightarrow> permit_store
     \<Rightarrow> cache_error + dispatch_permit option \<times> permit_store" where
  "commit_dispatch scope route attempt digest expected_epoch due qualified current fresh_id st =
     (if py_strip route = [] then Inl EmptyRouteId
      else if py_strip attempt = [] then Inl EmptyAttemptId
      else if expected_epoch < 0 then Inl NegativeEpoch
      else if qualified > current \<or> qualified \<ge> due then Inr (None, st)
      else if current \<ge> due then Inr (None, st)
      else if due > current + PERMIT_PROOF_MAX_VALIDITY_SECONDS then Inr (None, st)
      else if (case map_of (ps_routes st) route of
                 None \<Rightarrow> False | Some entry \<Rightarrow> entry_denies entry qualified current) then Inr (None, st)
      else if expected_epoch \<noteq> ss_epoch (scope_record st scope) then Inr (None, st)
      else if attempt \<in> fst ` set (ps_attempts st) then Inr (None, st)
      else
        let minted = \<lparr> pm_permit_id = fresh_id, pm_attempt_id = attempt, pm_route_id = route,
              pm_scope = scope, pm_epoch = expected_epoch, pm_not_after = due \<rparr>;
            entry = \<lparr> da_permit = minted, da_committed_at = current, da_authorization_digest = digest \<rparr>
        in Inr (Some minted, st \<lparr> ps_attempts := dict_put attempt entry (ps_attempts st) \<rparr>))"

text \<open>\<open>_merge_dispatch_records\<close>: the disk wins on key conflicts, epochs take the maximum.\<close>

definition dict_setdefault :: "'k \<Rightarrow> 'v \<Rightarrow> ('k, 'v) dict \<Rightarrow> ('k, 'v) dict" where
  "dict_setdefault k v d = (if k \<in> fst ` set d then d else d @ [(k, v)])"

definition merge_scope :: "scope_state \<Rightarrow> scope_state \<Rightarrow> scope_state" where
  "merge_scope current mine =
     \<lparr> ss_epoch = max (ss_epoch current) (ss_epoch mine),
       ss_sequence = max (ss_sequence current) (ss_sequence mine),
       ss_revocations = foldl (\<lambda>d (k, e). dict_setdefault k e d) (ss_revocations current)
         (ss_revocations mine) \<rparr>"

definition merge_dispatch_records :: "permit_store \<Rightarrow> permit_store \<Rightarrow> permit_store" where
  "merge_dispatch_records mine disk =
     disk \<lparr> ps_scopes := foldl (\<lambda>d (k, m). case map_of d k of
                None \<Rightarrow> dict_put k m d | Some current \<Rightarrow> dict_put k (merge_scope current m) d)
              (ps_scopes disk) (ps_scopes mine),
            ps_attempts := foldl (\<lambda>d (k, a). dict_setdefault k a d) (ps_attempts disk) (ps_attempts mine) \<rparr>"


subsection \<open>Admission proofs\<close>

text \<open>The lifetime of a first failure, which never overflows, is the default of an active revocation.\<close>

definition revocation_is_active :: "permit_store \<Rightarrow> dispatch_scope \<Rightarrow> route_id \<Rightarrow> rat \<Rightarrow> bool" where
  "revocation_is_active st scope route now =
     (case latest_revocation_at st scope of
        None \<Rightarrow> False
      | Some revoked_at \<Rightarrow>
          let dflt = (revoked_at + projr (negative_seconds ''authentication'' None None 1) > now) in
          (case map_of (ps_routes st) route of
             None \<Rightarrow> dflt
           | Some entry \<Rightarrow>
               if he_checked_at entry \<ge> revoked_at then
                 if he_healthy entry \<and> he_checked_at entry > revoked_at then False
                 else if \<not> he_healthy entry then he_until entry > now
                 else dflt
               else dflt))"

text \<open>A passport row of a confirmation; times are \<open>None\<close> when they do not parse.\<close>

record passport_row =
  pr_identity_id :: string
  pr_fresh :: bool
  pr_auth_state :: string
  pr_availability_state :: string
  pr_qualified_at :: "rat option"
  pr_expires_at :: "rat option"

record confirmation =
  cf_admitted :: "route_id list"
  cf_receipt_id :: string
  cf_passport :: "passport_row list"

record admission_proof =
  ap_route_id :: route_id
  ap_provider :: string
  ap_model :: string
  ap_qualified_at :: rat
  ap_expires_at :: rat
  ap_receipt_id :: string
  ap_authorization_digest :: string
  ap_epoch :: int
  ap_scope :: dispatch_scope

definition row_matches :: "route_id \<Rightarrow> passport_row \<Rightarrow> bool" where
  "row_matches route row \<longleftrightarrow> pr_identity_id row = route \<and> pr_fresh row \<and>
     pr_auth_state row = ''authorized'' \<and> pr_availability_state row = ''eligible''"

definition admission_proof_of ::
  "permit_store \<Rightarrow> confirmation \<Rightarrow> route_id \<Rightarrow> dispatch_scope \<Rightarrow> string \<Rightarrow> string \<Rightarrow> string \<Rightarrow> rat
     \<Rightarrow> admission_proof option" where
  "admission_proof_of st conf route scope digest provider model now =
     (if route \<notin> set (cf_admitted conf) then None
      else if cf_receipt_id conf = [] then None
      else (case List.find (row_matches route) (cf_passport conf) of
              None \<Rightarrow> None
            | Some row \<Rightarrow>
                (case (pr_qualified_at row, pr_expires_at row) of
                   (Some qualified, Some expires) \<Rightarrow>
                     if qualified > now \<or> expires \<le> now then None
                     else if (case map_of (ps_routes st) route of
                                None \<Rightarrow> False | Some e \<Rightarrow> \<not> he_healthy e \<and> he_until e > now) then None
                     else if revocation_is_active st scope route now then None
                     else if (case latest_revocation_at st scope of
                                None \<Rightarrow> False | Some t \<Rightarrow> qualified \<le> t) then None
                     else Some \<lparr> ap_route_id = route, ap_provider = provider, ap_model = model,
                       ap_qualified_at = qualified, ap_expires_at = expires,
                       ap_receipt_id = cf_receipt_id conf, ap_authorization_digest = digest,
                       ap_epoch = revocation_epoch st scope, ap_scope = scope \<rparr>
                 | _ \<Rightarrow> None)))"


subsection \<open>Histories\<close>

text \<open>
  The writes the store can see: revocations, commits, merges of a stale view (whose epochs
  \<open>_DispatchScopeState.from_dict\<close> has checked to be non-negative) and new health rows.
\<close>

inductive store_step :: "permit_store \<Rightarrow> permit_store \<Rightarrow> bool" where
  revoked: "record_revocation sc r ev src t st = Inr (e, st') \<Longrightarrow> store_step st st'"
| committed: "commit_dispatch sc r a d e due q now pid st = Inr (p, st') \<Longrightarrow> store_step st st'"
| merged: "list_all (\<lambda>(k, r). 0 \<le> ss_epoch r) (ps_scopes mine) \<Longrightarrow>
    store_step st (merge_dispatch_records mine st)"
| probed: "store_step st (st \<lparr> ps_routes := routes \<rparr>)"


section \<open>The contract of a revocable ledger\<close>

text \<open>
  What a client of the store relies on: every write keeps granted permits and never lowers an
  epoch, a new negative raises it, and a grant needs the current epoch and an unused attempt.
\<close>

locale ledger =
  fixes step :: "'s \<Rightarrow> 's \<Rightarrow> bool"
    and epoch :: "'s \<Rightarrow> 'k \<Rightarrow> int"
    and granted :: "'s \<Rightarrow> 'a \<Rightarrow> 'p option"
  assumes epoch_step: "step s t \<Longrightarrow> epoch s k \<le> epoch t k"
    and granted_step: "step s t \<Longrightarrow> granted s a = Some p \<Longrightarrow> granted t a = Some p"
begin

lemma epoch_steps: "step\<^sup>*\<^sup>* s t \<Longrightarrow> epoch s k \<le> epoch t k"
  by (induction rule: rtranclp_induct) (auto intro: order_trans dest: epoch_step)

lemma granted_steps: "step\<^sup>*\<^sup>* s t \<Longrightarrow> granted s a = Some p \<Longrightarrow> granted t a = Some p"
  by (induction rule: rtranclp_induct) (auto dest: granted_step)

end

locale revocable_ledger = ledger step epoch granted
  for step :: "'s \<Rightarrow> 's \<Rightarrow> bool" and epoch :: "'s \<Rightarrow> 'k \<Rightarrow> int" and granted :: "'s \<Rightarrow> 'a \<Rightarrow> 'p option" +
  fixes revokes :: "'k \<Rightarrow> 's \<Rightarrow> 's \<Rightarrow> bool"
    and commits :: "'k \<Rightarrow> int \<Rightarrow> 'a \<Rightarrow> 'p \<Rightarrow> 's \<Rightarrow> 's \<Rightarrow> bool"
  assumes revokes_raises: "revokes k s t \<Longrightarrow> epoch s k < epoch t k"
    and commits_current: "commits k e a p s t \<Longrightarrow> e = epoch s k"
    and commits_unused: "commits k e a p s t \<Longrightarrow> granted s a = None"
    and commits_grants: "commits k e a p s t \<Longrightarrow> granted t a = Some p"
begin

lemma stale_never_commits:
  assumes "step\<^sup>*\<^sup>* s0 s" and "revokes k s t" and "step\<^sup>*\<^sup>* t u" and "e \<le> epoch s0 k"
  shows "\<not> commits k e a p u v"
  using epoch_steps [OF assms(1), of k] revokes_raises [OF assms(2)] epoch_steps [OF assms(3), of k]
    assms(4) commits_current by fastforce

lemma committed_once:
  assumes "commits k e a p s t" and "step\<^sup>*\<^sup>* t u"
  shows "\<not> commits k' e' a p' u v" and "granted u a = Some p"
  using granted_steps [OF assms(2) commits_grants [OF assms(1)]] commits_unused by fastforce+

end


section \<open>Lemmas\<close>

lemma scope_record_epoch: "ss_epoch (scope_record st scope) = revocation_epoch st scope"
  by (simp add: scope_record_def revocation_epoch_def fresh_scope_state_def split: option.split)

lemma map_of_setdefault:
  "map_of (dict_setdefault k v d) x = (case map_of d x of Some w \<Rightarrow> Some w | None \<Rightarrow> if x = k then Some v else None)"
  by (auto simp: dict_setdefault_def map_add_def dest: map_of_SomeD weak_map_of_SomeI split: option.split)

lemma fold_setdefault_keeps:
  "map_of d x = Some w \<Longrightarrow> map_of (foldl (\<lambda>d (k, a). dict_setdefault k a d) d kvs) x = Some w"
  by (induction kvs arbitrary: d) (auto simp: map_of_setdefault)

definition epoch_in :: "(dispatch_scope, scope_state) dict \<Rightarrow> dispatch_scope \<Rightarrow> int" where
  "epoch_in d s = (case map_of d s of Some r \<Rightarrow> ss_epoch r | None \<Rightarrow> 0)"

lemma fold_merge_epoch:
  "list_all (\<lambda>(k, r). 0 \<le> ss_epoch r) ms \<Longrightarrow>
   epoch_in d s \<le> epoch_in (foldl (\<lambda>d (k, m). case map_of d k of
     None \<Rightarrow> dict_put k m d | Some current \<Rightarrow> dict_put k (merge_scope current m) d) d ms) s"
proof (induction ms arbitrary: d)
  case (Cons km ms)
  obtain k m where km: "km = (k, m)" by force
  let ?d = "case map_of d k of None \<Rightarrow> dict_put k m d | Some current \<Rightarrow> dict_put k (merge_scope current m) d"
  have "0 \<le> ss_epoch m" using Cons.prems km by simp
  then have "epoch_in d s \<le> epoch_in ?d s"
    by (auto simp: epoch_in_def merge_scope_def split: option.split)
  also note Cons.IH [of ?d]
  finally show ?case using Cons.prems km by simp
qed simp

lemma merge_epoch:
  "list_all (\<lambda>(k, r). 0 \<le> ss_epoch r) (ps_scopes mine) \<Longrightarrow>
   revocation_epoch st s \<le> revocation_epoch (merge_dispatch_records mine st) s"
  using fold_merge_epoch [of "ps_scopes mine" "ps_scopes st" s]
  by (simp add: revocation_epoch_def merge_dispatch_records_def epoch_in_def)

text \<open>A revocation that the store had not seen.\<close>

definition new_negative :: "dispatch_scope \<Rightarrow> permit_store \<Rightarrow> permit_store \<Rightarrow> bool" where
  "new_negative scope st st' \<longleftrightarrow>
     (\<exists>r ev src t e. ev \<notin> fst ` set (ss_revocations (scope_record st scope)) \<and>
        record_revocation scope r ev src t st = Inr (e, st'))"

definition minted ::
  "dispatch_scope \<Rightarrow> int \<Rightarrow> string \<Rightarrow> dispatch_permit \<Rightarrow> permit_store \<Rightarrow> permit_store \<Rightarrow> bool" where
  "minted scope e attempt p st st' \<longleftrightarrow>
     (\<exists>r d due q now pid. commit_dispatch scope r attempt d e due q now pid st = Inr (Some p, st'))"

lemma record_revocation_cases:
  assumes "record_revocation scope r ev src t st = Inr (e, st')"
  shows "e = revocation_epoch st' scope" and "ps_attempts st' = ps_attempts st"
    and "revocation_epoch st' s = revocation_epoch st s +
       (if s = scope \<and> ev \<notin> fst ` set (ss_revocations (scope_record st scope)) then 1 else 0)"
  using assms scope_record_epoch [of st]
  by (auto simp: record_revocation_def revocation_epoch_def Let_def split: if_splits)

lemma commit_dispatch_Some:
  assumes "commit_dispatch scope r a d e due q now pid st = Inr (Some p, st')"
  shows "e = revocation_epoch st scope" and "permit_for_attempt st a = None"
    and "permit_for_attempt st' a = Some p" and "q \<le> now" and "now < due"
    and "due \<le> now + PERMIT_PROOF_MAX_VALIDITY_SECONDS" and "pm_epoch p = e" and "pm_route_id p = r"
  using assms scope_record_epoch [of st]
  by (auto simp: commit_dispatch_def permit_for_attempt_def Let_def map_of_eq_None_iff split: if_splits)

lemma commit_dispatch_keeps:
  assumes "commit_dispatch scope r a d e due q now pid st = Inr (p, st')"
  shows "ps_scopes st' = ps_scopes st"
    and "permit_for_attempt st x = Some w \<Longrightarrow> permit_for_attempt st' x = Some w"
  using assms
  by (auto simp: commit_dispatch_def permit_for_attempt_def Let_def map_of_eq_None_iff [symmetric]
      split: if_splits)

lemma store_step_epoch: "store_step s t \<Longrightarrow> revocation_epoch s k \<le> revocation_epoch t k"
proof (induction rule: store_step.induct)
  case (committed sc r a d e due q now pid st p st')
  then show ?case using commit_dispatch_keeps(1) by (simp add: revocation_epoch_def)
qed (auto simp: record_revocation_cases merge_epoch, simp add: revocation_epoch_def)

lemma store_step_granted:
  "store_step s t \<Longrightarrow> permit_for_attempt s a = Some p \<Longrightarrow> permit_for_attempt t a = Some p"
proof (induction rule: store_step.induct)
  case (merged mine st)
  then show ?case by (auto simp: permit_for_attempt_def merge_dispatch_records_def fold_setdefault_keeps)
qed (auto simp: commit_dispatch_keeps, auto simp: permit_for_attempt_def record_revocation_cases)

interpretation permits: revocable_ledger store_step revocation_epoch permit_for_attempt new_negative minted
proof unfold_locales
  fix s t k a p
  show "store_step s t \<Longrightarrow> revocation_epoch s k \<le> revocation_epoch t k" by (rule store_step_epoch)
  show "store_step s t \<Longrightarrow> permit_for_attempt s a = Some p \<Longrightarrow> permit_for_attempt t a = Some p"
    by (rule store_step_granted)
qed (auto simp: new_negative_def minted_def record_revocation_cases dest: commit_dispatch_Some)


section \<open>Properties\<close>

text \<open>C10. A proof captured before a revocation never authorizes a send: once the scope has seen a new
  negative after the proof's epoch was read, no later state of the store, whatever other writes,
  merges and probes happened in between, mints a permit for that epoch.\<close>

theorem revoked_proof_never_mints:
  assumes "e = revocation_epoch s0 scope" and "store_step\<^sup>*\<^sup>* s0 s"
    and "ev \<notin> fst ` set (ss_revocations (scope_record s scope))"
    and "record_revocation scope r ev src t s = Inr (e', s1)" and "store_step\<^sup>*\<^sup>* s1 u"
  shows "commit_dispatch scope r' a d e due q now pid u \<noteq> Inr (Some p, v)"
proof -
  have "new_negative scope s s1" unfolding new_negative_def using assms(3,4) by blast
  from permits.stale_never_commits [OF assms(2) this assms(5), of e a p v] assms(1)
  show ?thesis unfolding minted_def by blast
qed

text \<open>An attempt id is consumed at most once: after a permit was minted for it, every later store
  still holds that very permit and no second permit is minted for the id, also when a stale view is
  merged in between.\<close>

theorem attempt_consumed_once:
  assumes "commit_dispatch scope r a d e due q now pid s = Inr (Some p, t)" and "store_step\<^sup>*\<^sup>* t u"
  shows "permit_for_attempt u a = Some p \<and>
    commit_dispatch scope' r' a d' e' due' q' now' pid' u \<noteq> Inr (Some p', v)"
proof -
  have m: "minted scope e a p s t" unfolding minted_def using assms(1) by blast
  show ?thesis
    using permits.committed_once [OF m assms(2)] unfolding minted_def by blast
qed

definition sample_scope :: dispatch_scope where
  "sample_scope = \<lparr> sc_gateway_origin = ''o'', sc_config_generation = ''g'', sc_profile_digest = ''p'',
     sc_binding_id = ''b'' \<rparr>"

definition empty_store :: permit_store where
  "empty_store = \<lparr> ps_scopes = [], ps_attempts = [], ps_routes = [] \<rparr>"

text \<open>What a committed attempt leaves behind, for the concrete examples.\<close>

definition store_after :: "cache_error + 'a \<times> permit_store \<Rightarrow> permit_store" where
  "store_after r = (case r of Inr (_, st) \<Rightarrow> st | Inl _ \<Rightarrow> empty_store)"

definition revoked_store :: permit_store where
  "revoked_store = store_after (record_revocation sample_scope ''cc/x'' ''ev'' None 50 empty_store)"

theorem revoked_proof_never_mints_witness:
  "\<forall>p v. commit_dispatch sample_scope ''cc/x'' ''a1'' ''d'' 0 200 60 100 ''id'' revoked_store \<noteq> Inr (Some p, v)"
proof (intro allI, rule revoked_proof_never_mints)
  show "0 = revocation_epoch empty_store sample_scope" by code_simp
  show "''ev'' \<notin> fst ` set (ss_revocations (scope_record empty_store sample_scope))" by code_simp
  show "record_revocation sample_scope ''cc/x'' ''ev'' None 50 empty_store = Inr (1, revoked_store)"
    by code_simp
qed simp_all

definition minted_store :: permit_store where
  "minted_store = store_after (commit_dispatch sample_scope ''cc/x'' ''a1'' ''d'' 0 200 60 100 ''id'' empty_store)"

theorem attempt_consumed_once_witness:
  "permit_for_attempt minted_store ''a1'' = Some \<lparr> pm_permit_id = ''id'', pm_attempt_id = ''a1'',
     pm_route_id = ''cc/x'', pm_scope = sample_scope, pm_epoch = 0, pm_not_after = 200 \<rparr>"
proof -
  have "commit_dispatch sample_scope ''cc/x'' ''a1'' ''d'' 0 200 60 100 ''id'' empty_store =
      Inr (Some \<lparr> pm_permit_id = ''id'', pm_attempt_id = ''a1'', pm_route_id = ''cc/x'',
        pm_scope = sample_scope, pm_epoch = 0, pm_not_after = 200 \<rparr>, minted_store)"
    by code_simp
  from conjunct1 [OF attempt_consumed_once [OF this rtranclp.rtrancl_refl]] show ?thesis .
qed

end
