(* ===== verification/Health_Store.thy ===== *)
theory Health_Store
  imports Token_Buckets Dispatch_Permits
begin

section \<open>The shared health store\<close>

text \<open>
  Models \<open>HealthCache\<close> of \<open>verdict/orchestration/health_cache.py\<close> as a whole: the file, the views that
  the processes hold of it, \<open>_load\<close>, \<open>_snapshot\<close>, \<open>save\<close>, \<open>merge_and_save\<close> and \<open>reload\<close>, over the route
  entries, buckets and permits of the other theories, and the scoped cooldowns. The operations that
  change a view are a datatype, so that a callback of \<open>merge_and_save\<close> is a list of them. The file is
  absent (an empty disk) or was written by a \<open>HealthCache\<close>; a file that does not parse, and a failing
  write, are not modelled. A whole \<open>save\<close> or \<open>merge_and_save\<close> is one step, because both hold the file lock.
\<close>

subsection \<open>Scoped cooldowns\<close>

record scoped_cooldown =
  cd_key :: string
  cd_category :: string
  cd_checked_at :: rat
  cd_until :: rat
  cd_canonical_category :: "string option"
  cd_provider_id :: "string option"
  cd_pool :: "string option"
  cd_account_id :: "string option"

type_synonym cooldowns = "(string, scoped_cooldown) dict"

definition active_at :: "scoped_cooldown \<Rightarrow> rat \<Rightarrow> bool" where
  "active_at c now \<longleftrightarrow> now < cd_until c"

definition active_cooldowns :: "rat \<Rightarrow> cooldowns \<Rightarrow> scoped_cooldown list" where
  "active_cooldowns now d = filter (\<lambda>c. active_at c now) (map snd d)"

definition cooldown_for :: "string \<Rightarrow> rat \<Rightarrow> cooldowns \<Rightarrow> scoped_cooldown option" where
  "cooldown_for key now d =
     (case map_of d key of None \<Rightarrow> None | Some c \<Rightarrow> if active_at c now then Some c else None)"

definition record_cooldown :: "scoped_cooldown \<Rightarrow> cooldowns \<Rightarrow> cooldowns" where
  "record_cooldown c d =
     (if (case map_of d (cd_key c) of None \<Rightarrow> False | Some existing \<Rightarrow> cd_until existing \<ge> cd_until c) then d
      else dict_put (cd_key c) c d)"

definition clear_cooldown :: "string \<Rightarrow> cooldowns \<Rightarrow> cooldowns" where
  "clear_cooldown key d = dict_del key d"


subsection \<open>File and views\<close>

text \<open>The cursor maps names to the JSON texts of their values; a rescreen request carries its time.\<close>

record disk =
  dk_routes :: routes
  dk_rescreen :: "(route_id, rat) dict"
  dk_buckets :: "(string, token_bucket) dict"
  dk_cursor :: "(string, string) dict"
  dk_cooldowns :: cooldowns
  dk_scopes :: "(dispatch_scope, scope_state) dict"
  dk_attempts :: "(string, dispatch_attempt) dict"

record health_cache =
  hc_routes :: routes
  hc_rescreen :: "(route_id, rat) dict"
  hc_buckets :: bucket_cache
  hc_cursor :: "(string, string) dict"
  hc_cooldowns :: cooldowns
  hc_scopes :: "(dispatch_scope, scope_state) dict"
  hc_attempts :: "(string, dispatch_attempt) dict"
  hc_disk_snapshot :: disk

text \<open>The evidence lifetime, and the two digests that name tokens without ids.\<close>

record cache_env =
  ce_fresh :: rat
  ce_digest :: stamp_digest
  ce_owned :: "string \<Rightarrow> string \<Rightarrow> string"

datatype store_error = Entry cache_error | Bucket bucket_error

definition lift_error :: "('e \<Rightarrow> 'f) \<Rightarrow> 'e + 'a \<Rightarrow> 'f + 'a" where
  "lift_error f r = (case r of Inl e \<Rightarrow> Inl (f e) | Inr x \<Rightarrow> Inr x)"

definition empty_disk :: disk where
  "empty_disk = \<lparr> dk_routes = [], dk_rescreen = [], dk_buckets = [], dk_cursor = [], dk_cooldowns = [],
     dk_scopes = [], dk_attempts = [] \<rparr>"

text \<open>
  What \<open>HealthEntry.to_dict\<close> writes: the session verdict only with its time, the feedback fields only
  with their source, and an unnamed turn count as unknown.
\<close>

definition written :: "health_entry \<Rightarrow> health_entry" where
  "written e = e
     \<lparr> he_session_agentic_ok := (if he_session_agentic_at e = None then None else he_session_agentic_ok e),
       he_feedback_category := (if he_feedback_source e = None then None else he_feedback_category e),
       he_feedback_turn_count := (if he_feedback_source e = None then None else he_feedback_turn_count e),
       he_feedback_turns_source := (if he_feedback_source e = None then None
         else (case he_feedback_turns_source e of
                 None \<Rightarrow> Some ''unknown'' | Some s \<Rightarrow> if s = [] then Some ''unknown'' else Some s)),
       he_feedback_provenance := (if he_feedback_source e = None then None else he_feedback_provenance e) \<rparr>"

text \<open>What \<open>HealthEntry.from_dict\<close> makes of it.\<close>

definition parsed :: "health_entry \<Rightarrow> health_entry" where
  "parsed e = e
     \<lparr> he_probe_class := (if he_probe_class e = [] then ''single_call'' else he_probe_class e),
       he_failure_scope := (case he_failure_scope e of
          None \<Rightarrow> None | Some s \<Rightarrow> if py_strip s = [] then None else Some s) \<rparr>"

definition written_bucket :: "stamp_digest \<Rightarrow> token_bucket \<Rightarrow> token_bucket" where
  "written_bucket digest b = b \<lparr> tb_token_ids := map fst (tokens digest b),
     tb_removed := by_key (tb_removed b), tb_released := by_key (tb_released b) \<rparr>"

definition parsed_cooldown :: "scoped_cooldown \<Rightarrow> scoped_cooldown" where
  "parsed_cooldown c = c \<lparr> cd_canonical_category := (case cd_canonical_category c of
     None \<Rightarrow> None | Some s \<Rightarrow> if py_strip s = [] then None else Some s) \<rparr>"

text \<open>
  \<open>_snapshot\<close>. Dictionaries whose order nothing reads are compared and written by key as well, which
  stands for the order-free comparison of Python and for \<open>sort_keys\<close>; the order of the permit records
  is never observed.
\<close>

definition snapshot :: "cache_env \<Rightarrow> health_cache \<Rightarrow> disk" where
  "snapshot env c =
     \<lparr> dk_routes = by_key (map_vals written (hc_routes c)),
       dk_rescreen = by_key (hc_rescreen c),
       dk_buckets = by_key (map_vals (written_bucket (ce_digest env)) (bc_buckets (hc_buckets c))),
       dk_cursor = by_key (hc_cursor c),
       dk_cooldowns = by_key (hc_cooldowns c),
       dk_scopes = hc_scopes c, dk_attempts = hc_attempts c \<rparr>"

text \<open>\<open>_load\<close> keeps the bucket configuration of the object.\<close>

definition load :: "cache_env \<Rightarrow> bucket_cache \<Rightarrow> disk \<Rightarrow> store_error + health_cache" where
  "load env conf d =
     bind_res (lift_error Bucket (canonicalize_buckets (ce_digest env) (ce_owned env) (dk_buckets d))) (\<lambda>buckets.
     let c = \<lparr> hc_routes = map_vals parsed (dk_routes d), hc_rescreen = dk_rescreen d,
           hc_buckets = conf \<lparr> bc_buckets := buckets \<rparr>, hc_cursor = dk_cursor d,
           hc_cooldowns = map_vals parsed_cooldown (dk_cooldowns d), hc_scopes = dk_scopes d,
           hc_attempts = dk_attempts d, hc_disk_snapshot = empty_disk \<rparr> in
     Inr (c \<lparr> hc_disk_snapshot := snapshot env c \<rparr>))"

definition permits_of :: "health_cache \<Rightarrow> permit_store" where
  "permits_of c = \<lparr> ps_scopes = hc_scopes c, ps_attempts = hc_attempts c, ps_routes = hc_routes c \<rparr>"

definition with_permits :: "permit_store \<Rightarrow> health_cache \<Rightarrow> health_cache" where
  "with_permits st c = c \<lparr> hc_scopes := ps_scopes st, hc_attempts := ps_attempts st \<rparr>"


subsection \<open>Merging a view over the file\<close>

definition merge_route :: "routes \<Rightarrow> route_id \<times> health_entry \<Rightarrow> routes" where
  "merge_route d kv =
     (let (route, e) = kv in
      case map_of d route of
        None \<Rightarrow> dict_put route (e \<lparr> he_write_revision := 1 \<rparr>) d
      | Some dsk \<Rightarrow>
          if he_write_revision e \<ge> he_write_revision dsk \<and> he_checked_at e > he_checked_at dsk
          then dict_put route (e \<lparr> he_write_revision := he_write_revision dsk + 1 \<rparr>) d else d)"

definition merge_bucket ::
  "stamp_digest \<Rightarrow> (string, token_bucket) dict \<Rightarrow> string \<times> token_bucket \<Rightarrow> (string, token_bucket) dict" where
  "merge_bucket digest d kb =
     (case map_of d (fst kb) of
        None \<Rightarrow> dict_put (fst kb) (snd kb) d
      | Some b \<Rightarrow> dict_put (fst kb) (merge_from digest b (snd kb)) d)"

definition fold_cooldowns :: "scoped_cooldown list \<Rightarrow> cooldowns \<Rightarrow> cooldowns" where
  "fold_cooldowns cs d = foldl (\<lambda>d c. record_cooldown c d) d cs"

definition merge_in_memory_over_disk :: "cache_env \<Rightarrow> health_cache \<Rightarrow> disk \<Rightarrow> store_error + health_cache" where
  "merge_in_memory_over_disk env mine d =
     bind_res (lift_error Bucket (canonicalize_buckets (ce_digest env) (ce_owned env) (bc_buckets (hc_buckets mine))))
       (\<lambda>mine_buckets.
     bind_res (load env (hc_buckets mine) d) (\<lambda>c.
     let st = merge_dispatch_records (permits_of mine) (permits_of c) in
     Inr (c \<lparr> hc_routes := foldl merge_route (hc_routes c) (hc_routes mine),
       hc_cooldowns := fold_cooldowns (map snd (hc_cooldowns mine)) (hc_cooldowns c),
       hc_buckets := (hc_buckets c) \<lparr> bc_buckets :=
         foldl (merge_bucket (ce_digest env)) (bc_buckets (hc_buckets c)) mine_buckets \<rparr>,
       hc_cursor := hc_cursor mine, hc_scopes := ps_scopes st, hc_attempts := ps_attempts st \<rparr>)))"

text \<open>\<open>save\<close> returns the view and the file after it.\<close>

definition save :: "cache_env \<Rightarrow> health_cache \<Rightarrow> disk \<Rightarrow> store_error + health_cache \<times> disk" where
  "save env c d =
     bind_res (merge_in_memory_over_disk env c d) (\<lambda>c'.
     Inr (c' \<lparr> hc_disk_snapshot := snapshot env c' \<rparr>, snapshot env c'))"

text \<open>A view that may hold unsaved changes is refreshed; only what it changed is put over the file.\<close>

definition reload_route :: "routes \<Rightarrow> route_id \<times> health_entry \<Rightarrow> routes" where
  "reload_route d kv =
     (case map_of d (fst kv) of
        None \<Rightarrow> dict_put (fst kv) (snd kv) d
      | Some dsk \<Rightarrow> if he_checked_at (snd kv) > he_checked_at dsk then dict_put (fst kv) (snd kv) d else d)"

definition reload :: "cache_env \<Rightarrow> health_cache \<Rightarrow> disk \<Rightarrow> store_error + health_cache" where
  "reload env mine d =
     (if snapshot env mine = hc_disk_snapshot mine then load env (hc_buckets mine) d
      else
        let loaded = hc_disk_snapshot mine;
            changed_routes = filter (\<lambda>(k, e). map_of (dk_routes loaded) k \<noteq> Some (written e)) (hc_routes mine);
            changed_cooldowns = filter (\<lambda>(k, c). map_of (dk_cooldowns loaded) k \<noteq> Some c) (hc_cooldowns mine);
            changed_buckets = filter (\<lambda>(k, b). map_of (dk_buckets loaded) k \<noteq> Some (written_bucket (ce_digest env) b))
              (bc_buckets (hc_buckets mine));
            cursor_changed = (by_key (hc_cursor mine) \<noteq> dk_cursor loaded) in
        bind_res (load env (hc_buckets mine) d) (\<lambda>c.
        let st = merge_dispatch_records (permits_of mine) (permits_of c) in
        Inr (c \<lparr> hc_routes := foldl reload_route (hc_routes c) changed_routes,
          hc_cooldowns := fold_cooldowns (map snd changed_cooldowns) (hc_cooldowns c),
          hc_buckets := (hc_buckets c) \<lparr> bc_buckets :=
            foldl (merge_bucket (ce_digest env)) (bc_buckets (hc_buckets c)) changed_buckets \<rparr>,
          hc_cursor := (if cursor_changed then hc_cursor mine else hc_cursor c),
          hc_scopes := ps_scopes st, hc_attempts := ps_attempts st \<rparr>)))"


subsection \<open>Operations on a view\<close>

datatype cache_op =
    Probe route_id probe_result rat
  | Liveness route_id "rat option" "string option" "string option" rat string
  | PassiveTraffic route_id rat rat string "rat option" "string option" "string option"
  | PassiveFailure route_id rat rat "int option" string string
  | Evidence route_id bool rat string "string option"
  | Cooldown scoped_cooldown
  | ClearCooldown string
  | RequestRescreen "route_id list" rat
  | CompleteRescreen route_id
  | SetCursor "(string, string) dict"
  | Consume "string list" string rat "string option" int
  | ZeroBucket string rat "string option"
  | Reserve "string list" string string rat "string option" int
  | Release reservation int
  | Revoke dispatch_scope route_id string "string option" rat
  | Commit dispatch_scope route_id string string int rat rat rat string

definition on_routes :: "health_cache \<Rightarrow> cache_error + 'a \<times> routes \<Rightarrow> store_error + health_cache" where
  "on_routes c r = bind_res (lift_error Entry r) (\<lambda>(x, routes). Inr (c \<lparr> hc_routes := routes \<rparr>))"

definition on_buckets :: "health_cache \<Rightarrow> bucket_error + bucket_cache \<Rightarrow> store_error + health_cache" where
  "on_buckets c r = bind_res (lift_error Bucket r) (\<lambda>b. Inr (c \<lparr> hc_buckets := b \<rparr>))"

definition on_permits :: "health_cache \<Rightarrow> cache_error + 'a \<times> permit_store \<Rightarrow> store_error + health_cache" where
  "on_permits c r = bind_res (lift_error Entry r) (\<lambda>(x, st). Inr (with_permits st c))"

fun apply_op :: "cache_env \<Rightarrow> cache_op \<Rightarrow> health_cache \<Rightarrow> store_error + health_cache" where
  "apply_op env (Probe route r now) c = on_routes c (record_probe (ce_fresh env) route r now (hc_routes c))"
| "apply_op env (Liveness route latency pool capacity now identity) c =
     on_routes c (record_liveness (ce_fresh env) route latency pool capacity now identity (hc_routes c))"
| "apply_op env (PassiveTraffic route observed now source latency pool capacity) c =
     on_routes c (record_passive_traffic (ce_fresh env) route observed now source latency pool capacity (hc_routes c))"
| "apply_op env (PassiveFailure route observed now status category source) c =
     on_routes c (record_passive_failure (ce_fresh env) route observed now status category source (hc_routes c))"
| "apply_op env (Evidence route ok stamp source child) c =
     on_routes c (record_agentic_evidence route ok stamp source child (hc_routes c))"
| "apply_op env (Cooldown cd) c = Inr (c \<lparr> hc_cooldowns := record_cooldown cd (hc_cooldowns c) \<rparr>)"
| "apply_op env (ClearCooldown key) c = Inr (c \<lparr> hc_cooldowns := clear_cooldown key (hc_cooldowns c) \<rparr>)"
| "apply_op env (RequestRescreen rs now) c =
     Inr (c \<lparr> hc_rescreen := dict_update (hc_rescreen c) (map (\<lambda>r. (r, now)) rs) \<rparr>)"
| "apply_op env (CompleteRescreen r) c = Inr (c \<lparr> hc_rescreen := dict_del r (hc_rescreen c) \<rparr>)"
| "apply_op env (SetCursor cur) c = Inr (c \<lparr> hc_cursor := cur \<rparr>)"
| "apply_op env (Consume ids provider now pool amount) c =
     on_buckets c (bind_res (cache_consume (ce_digest env) ids provider now pool amount (hc_buckets c)) (\<lambda>(ok, b). Inr b))"
| "apply_op env (ZeroBucket provider until pool) c =
     on_buckets c (zero_bucket (ce_digest env) provider until pool (hc_buckets c))"
| "apply_op env (Reserve ids handle provider now pool amount) c =
     on_buckets c (bind_res (reserve_bucket (ce_digest env) ids handle provider now pool amount (hc_buckets c)) (\<lambda>(h, b). Inr b))"
| "apply_op env (Release handle unused) c = on_buckets c (release_bucket (ce_digest env) handle unused (hc_buckets c))"
| "apply_op env (Revoke scope route event source observed) c =
     on_permits c (record_revocation scope route event source observed (permits_of c))"
| "apply_op env (Commit scope route attempt digest epoch due qualified now pid) c =
     on_permits c (commit_dispatch scope route attempt digest epoch due qualified now pid (permits_of c))"

fun apply_ops :: "cache_env \<Rightarrow> cache_op list \<Rightarrow> health_cache \<Rightarrow> store_error + health_cache" where
  "apply_ops env [] c = Inr c"
| "apply_ops env (x # xs) c = bind_res (apply_op env x c) (apply_ops env xs)"

text \<open>The revision of an entry that a callback changed is allocated under the lock.\<close>

definition bump_revisions :: "routes \<Rightarrow> routes \<Rightarrow> routes" where
  "bump_revisions previous routes =
     map (\<lambda>(k, e). (k, if map_of previous k = Some e then e
       else e \<lparr> he_write_revision := (case map_of previous k of Some p \<Rightarrow> he_write_revision p | None \<Rightarrow> 0) + 1 \<rparr>)) routes"

text \<open>
  The callback runs on the view that was just loaded and may return a value; \<open>merge_and_save\<close> is the case of
  a callback that is a sequence of operations.
\<close>

definition merge_and_save_with ::
  "cache_env \<Rightarrow> (health_cache \<Rightarrow> store_error + 'a \<times> health_cache) \<Rightarrow> health_cache \<Rightarrow> disk
     \<Rightarrow> store_error + 'a \<times> health_cache \<times> disk" where
  "merge_and_save_with env mutate c d =
     bind_res (load env (hc_buckets c) d) (\<lambda>c0.
     bind_res (mutate c0) (\<lambda>(x, c1).
     let c2 = c1 \<lparr> hc_routes := bump_revisions (hc_routes c0) (hc_routes c1) \<rparr>;
         snap = snapshot env c2 in
     Inr (x, c2 \<lparr> hc_disk_snapshot := snap \<rparr>, snap)))"

definition merge_and_save ::
  "cache_env \<Rightarrow> cache_op list \<Rightarrow> health_cache \<Rightarrow> disk \<Rightarrow> store_error + health_cache \<times> disk" where
  "merge_and_save env ops c d =
     bind_res (merge_and_save_with env (\<lambda>c0. bind_res (apply_ops env ops c0) (\<lambda>c1. Inr ((), c1))) c d)
       (\<lambda>(x, c', d'). Inr (c', d'))"


subsection \<open>Many processes, one file\<close>

record shared =
  sh_disk :: disk
  sh_views :: "(nat, health_cache) dict"

inductive shared_step :: "cache_env \<Rightarrow> shared \<Rightarrow> shared \<Rightarrow> bool" for env where
  opened: "load env conf (sh_disk s) = Inr c \<Longrightarrow>
    shared_step env s (s \<lparr> sh_views := dict_put i c (sh_views s) \<rparr>)"
| changed: "map_of (sh_views s) i = Some c \<Longrightarrow> apply_op env x c = Inr c' \<Longrightarrow>
    shared_step env s (s \<lparr> sh_views := dict_put i c' (sh_views s) \<rparr>)"
| saved: "map_of (sh_views s) i = Some c \<Longrightarrow> save env c (sh_disk s) = Inr (c', d') \<Longrightarrow>
    shared_step env s \<lparr> sh_disk = d', sh_views = dict_put i c' (sh_views s) \<rparr>"
| locked: "map_of (sh_views s) i = Some c \<Longrightarrow> merge_and_save env ops c (sh_disk s) = Inr (c', d') \<Longrightarrow>
    shared_step env s \<lparr> sh_disk = d', sh_views = dict_put i c' (sh_views s) \<rparr>"
| reloaded: "map_of (sh_views s) i = Some c \<Longrightarrow> reload env c (sh_disk s) = Inr c' \<Longrightarrow>
    shared_step env s (s \<lparr> sh_views := dict_put i c' (sh_views s) \<rparr>)"

text \<open>The program starts with a file, whose route ids are distinct, and no process that has read it.\<close>

definition reachable :: "cache_env \<Rightarrow> shared \<Rightarrow> bool" where
  "reachable env s \<longleftrightarrow> (\<exists>d. dict_wf (dk_routes d) \<and> (shared_step env)\<^sup>*\<^sup>* \<lparr> sh_disk = d, sh_views = [] \<rparr> s)"


section \<open>Lemmas\<close>

subsection \<open>Loading and writing keep revisions and failures\<close>

lemma written_memory [simp]:
  "he_write_revision (written e) = he_write_revision e" "last_failure (written e) = last_failure e"
  by (simp_all add: written_def last_failure_def split: option.split)

lemma parsed_memory [simp]:
  "he_write_revision (parsed e) = he_write_revision e" "last_failure (parsed e) = last_failure e"
  by (simp_all add: parsed_def last_failure_def split: option.split)

lemma with_revision_memory [simp]: "last_failure (e \<lparr> he_write_revision := n \<rparr>) = last_failure e"
  by (simp add: last_failure_def split: option.split)

lemma lift_error_Inr [res_simps]: "lift_error f r = Inr x \<longleftrightarrow> r = Inr x"
  by (simp add: lift_error_def split: sum.split)

lemma load_Inr:
  assumes "load env conf d = Inr c"
  shows "hc_routes c = map_vals parsed (dk_routes d)" "hc_cooldowns c = map_vals parsed_cooldown (dk_cooldowns d)"
    "hc_scopes c = dk_scopes d" "hc_attempts c = dk_attempts d" "hc_cursor c = dk_cursor d"
    "hc_rescreen c = dk_rescreen d"
  using assms by (auto simp: load_def res_simps Let_def)

lemma snapshot_routes [simp]: "dk_routes (snapshot env c) = by_key (map_vals written (hc_routes c))"
  by (simp add: snapshot_def)


subsection \<open>Revisions order the writes\<close>

text \<open>
  The file's entry of a route only advances: it is written back with the same revision and the same
  memory, or it gets the next revision and remembers no earlier failure.
\<close>

definition advances :: "health_entry option \<Rightarrow> health_entry option \<Rightarrow> bool" where
  "advances d d' =
     (case (d, d') of
        (None, None) \<Rightarrow> True
      | (None, Some e) \<Rightarrow> he_write_revision e = 1
      | (Some p, Some e) \<Rightarrow> last_failure p \<le> last_failure e \<and>
          (he_write_revision e = he_write_revision p + 1 \<or>
           he_write_revision e = he_write_revision p \<and> last_failure e = last_failure p)
      | (Some p, None) \<Rightarrow> False)"

text \<open>
  A view's entry is coherent with the file's when it is of an earlier revision, or of the same one and
  remembers no earlier failure than the file's.
\<close>

definition coherent :: "health_entry option \<Rightarrow> health_entry option \<Rightarrow> bool" where
  "coherent d v =
     (case (d, v) of
        (None, None) \<Rightarrow> True
      | (None, Some e) \<Rightarrow> he_write_revision e = 0
      | (Some p, None) \<Rightarrow> 1 \<le> he_write_revision p
      | (Some p, Some e) \<Rightarrow> he_write_revision e < he_write_revision p \<or>
          he_write_revision e = he_write_revision p \<and> last_failure p \<le> last_failure e)"

lemma coherent_descends: "coherent d v \<Longrightarrow> descends v v' \<Longrightarrow> coherent d v'"
  by (auto simp: coherent_def descends_def split: option.splits)

lemma coherent_advances: "coherent d v \<Longrightarrow> advances d d' \<Longrightarrow> coherent d' v"
  by (auto simp: coherent_def advances_def split: option.splits)

lemma coherent_loaded: "coherent d (map_option parsed d)"
  by (simp add: coherent_def split: option.split)

lemma advances_failure:
  "advances (Some p) d' \<Longrightarrow> last_failure p = Some t \<Longrightarrow>
   \<exists>e t'. d' = Some e \<and> last_failure e = Some t' \<and> t \<le> t'"
  by (cases d'; cases "last_failure (the d')") (auto simp: advances_def)

definition view_ok :: "disk \<Rightarrow> health_cache \<Rightarrow> bool" where
  "view_ok d c \<longleftrightarrow> dict_wf (hc_routes c) \<and> (\<forall>r. coherent (map_of (dk_routes d) r) (map_of (hc_routes c) r))"

definition disk_advances :: "disk \<Rightarrow> disk \<Rightarrow> bool" where
  "disk_advances d d' \<longleftrightarrow> dict_wf (dk_routes d') \<and> (\<forall>r. advances (map_of (dk_routes d) r) (map_of (dk_routes d') r))"

definition store_ok :: "shared \<Rightarrow> bool" where
  "store_ok s \<longleftrightarrow> dict_wf (dk_routes (sh_disk s)) \<and>
     (\<forall>i c. map_of (sh_views s) i = Some c \<longrightarrow> view_ok (sh_disk s) c)"


subsection \<open>Every operation keeps the store coherent\<close>

lemma load_view_ok: "load env conf d = Inr c \<Longrightarrow> dict_wf (dk_routes d) \<Longrightarrow> view_ok d c"
  by (simp add: view_ok_def load_Inr coherent_loaded)

lemma on_routes_Inr: "on_routes c r = Inr c' \<longleftrightarrow> (\<exists>x rs. r = Inr (x, rs) \<and> c' = c \<lparr> hc_routes := rs \<rparr>)"
  by (auto simp: on_routes_def res_simps)

lemma on_buckets_Inr: "on_buckets c r = Inr c' \<Longrightarrow> hc_routes c' = hc_routes c \<and> hc_cooldowns c' = hc_cooldowns c"
  by (auto simp: on_buckets_def res_simps)

lemma on_permits_Inr: "on_permits c r = Inr c' \<Longrightarrow> hc_routes c' = hc_routes c \<and> hc_cooldowns c' = hc_cooldowns c"
  by (auto simp: on_permits_def with_permits_def res_simps)

lemmas writers_descend = probe_writer.write_descends liveness_writer.write_descends
  passive_traffic_writer.write_descends passive_failure_writer.write_descends agentic_writer.write_descends

lemmas writers_wf = probe_writer.write_wf liveness_writer.write_wf
  passive_traffic_writer.write_wf passive_failure_writer.write_wf agentic_writer.write_wf

lemma apply_op_routes:
  assumes "apply_op env x c = Inr c'"
  shows "routes_descend (hc_routes c) (hc_routes c')" "dict_wf (hc_routes c) \<Longrightarrow> dict_wf (hc_routes c')"
  using assms
  by (cases x; auto simp: on_routes_Inr dest: writers_descend writers_wf on_buckets_Inr on_permits_Inr)+

lemma apply_ops_routes:
  "apply_ops env ops c = Inr c' \<Longrightarrow> routes_descend (hc_routes c) (hc_routes c') \<and>
     (dict_wf (hc_routes c) \<longrightarrow> dict_wf (hc_routes c'))"
proof (induction ops arbitrary: c)
  case (Cons x ops)
  from Cons.prems obtain c1 where c1: "apply_op env x c = Inr c1" "apply_ops env ops c1 = Inr c'"
    by (auto simp: res_simps)
  from apply_op_routes [OF c1(1)] Cons.IH [OF c1(2)] show ?case using routes_descend_trans by blast
qed simp

lemma apply_op_view_ok:
  "apply_op env x c = Inr c' \<Longrightarrow> view_ok d c \<Longrightarrow> view_ok d c'"
  unfolding view_ok_def using apply_op_routes coherent_descends routes_descend_def by blast

lemma map_of_merge_route:
  "map_of (merge_route d (k, e)) = (map_of d)(k := (case map_of d k of
     None \<Rightarrow> Some (e \<lparr> he_write_revision := 1 \<rparr>)
   | Some p \<Rightarrow> if he_write_revision e \<ge> he_write_revision p \<and> he_checked_at e > he_checked_at p
       then Some (e \<lparr> he_write_revision := he_write_revision p + 1 \<rparr>) else Some p))"
  by (auto simp: merge_route_def split: option.split)

lemma dict_wf_merge_route: "dict_wf d \<Longrightarrow> dict_wf (merge_route d kv)"
  by (simp add: merge_route_def dict_wf_put split: prod.split option.split)

lemma merged_routes:
  assumes "merge_in_memory_over_disk env mine d = Inr c"
  shows "hc_routes c = foldl merge_route (map_vals parsed (dk_routes d)) (hc_routes mine)"
  using assms by (auto simp: merge_in_memory_over_disk_def res_simps Let_def load_Inr)

lemma merged_route:
  assumes "merge_in_memory_over_disk env mine d = Inr c" and "view_ok d mine"
  shows "advances (map_of (dk_routes d) r) (map_of (hc_routes c) r)"
proof -
  have "dict_wf (hc_routes mine)" "coherent (map_of (dk_routes d) r) (map_of (hc_routes mine) r)"
    using assms(2) by (simp_all add: view_ok_def)
  then show ?thesis
    by (auto simp: merged_routes [OF assms(1)] map_of_foldl_local [OF map_of_merge_route] coherent_def advances_def
        split: option.split)
qed

lemma advances_written: "advances d (map_option written d') = advances d d'"
  by (simp add: advances_def split: option.split)

lemma coherent_written: "coherent (map_option written d) d"
  by (simp add: coherent_def split: option.split)

lemma save_ok:
  assumes "save env c d = Inr (c', d')" and "view_ok d c" and "dict_wf (dk_routes d)"
  shows "disk_advances d d'" "view_ok d' c'"
proof -
  obtain m where m: "merge_in_memory_over_disk env c d = Inr m"
    "c' = m \<lparr> hc_disk_snapshot := snapshot env m \<rparr>" "d' = snapshot env m"
    using assms(1) by (auto simp: save_def res_simps)
  have wf: "dict_wf (hc_routes m)"
    unfolding merged_routes [OF m(1)] by (rule dict_wf_foldl) (simp_all add: dict_wf_merge_route assms(3))
  show "disk_advances d d'"
    using merged_route [OF m(1) assms(2)] by (simp add: disk_advances_def m(3) wf advances_written)
  show "view_ok d' c'" by (simp add: view_ok_def m wf coherent_written)
qed

lemma bumped_route:
  "map_of (bump_revisions previous routes) r =
     map_option (\<lambda>e. if map_of previous r = Some e then e
       else e \<lparr> he_write_revision := (case map_of previous r of Some p \<Rightarrow> he_write_revision p | None \<Rightarrow> 0) + 1 \<rparr>)
       (map_of routes r)"
  unfolding bump_revisions_def by (rule map_of_pairs)

lemma dict_wf_bump: "dict_wf (bump_revisions previous routes) = dict_wf routes"
  by (simp add: dict_wf_def bump_revisions_def case_prod_beta comp_def)

lemma merge_and_save_ok:
  assumes "merge_and_save env ops c d = Inr (c', d')" and "dict_wf (dk_routes d)"
  shows "disk_advances d d'" "view_ok d' c'"
proof -
  obtain c0 c1 where c: "load env (hc_buckets c) d = Inr c0" "apply_ops env ops c0 = Inr c1"
    "hc_routes c' = bump_revisions (hc_routes c0) (hc_routes c1)"
    "dk_routes d' = by_key (map_vals written (hc_routes c'))"
    using assms(1) by (auto simp: merge_and_save_def merge_and_save_with_def res_simps Let_def)
  have wf: "dict_wf (hc_routes c')"
    using apply_ops_routes [OF c(2)] assms(2) by (simp add: c(3) dict_wf_bump load_Inr(1) [OF c(1)])
  have "advances (map_of (dk_routes d) r) (map_of (hc_routes c') r)" for r
  proof -
    have "descends (map_option parsed (map_of (dk_routes d) r)) (map_of (hc_routes c1) r)"
      using apply_ops_routes [OF c(2)] by (simp add: routes_descend_def load_Inr(1) [OF c(1)])
    then show ?thesis
      by (auto simp: c(3) bumped_route load_Inr(1) [OF c(1)] descends_def advances_def split: option.splits)
  qed
  then show "disk_advances d d'" by (simp add: disk_advances_def c(4) wf advances_written)
  show "view_ok d' c'" by (simp add: view_ok_def c(4) wf coherent_written)
qed

lemma merge_and_save_with_ops:
  assumes "merge_and_save_with env mutate c d = Inr (x, c', d')"
    and "\<And>c0 c1. load env (hc_buckets c) d = Inr c0 \<Longrightarrow> mutate c0 = Inr (x, c1) \<Longrightarrow> apply_ops env ops c0 = Inr c1"
  shows "merge_and_save env ops c d = Inr (c', d')"
  using assms by (auto simp: merge_and_save_def merge_and_save_with_def res_simps Let_def)

lemma map_of_reload_route:
  "map_of (reload_route d (k, e)) = (map_of d)(k := (case map_of d k of
     None \<Rightarrow> Some e | Some p \<Rightarrow> if he_checked_at e > he_checked_at p then Some e else Some p))"
  by (auto simp: reload_route_def split: option.split)

lemma reload_ok:
  assumes "reload env c d = Inr c'" and "view_ok d c" and "dict_wf (dk_routes d)"
  shows "view_ok d c'"
proof (cases "snapshot env c = hc_disk_snapshot c")
  case True
  then show ?thesis using assms by (auto simp: reload_def dest: load_view_ok)
next
  case False
  let ?changed = "filter (\<lambda>(k, e). map_of (dk_routes (hc_disk_snapshot c)) k \<noteq> Some (written e)) (hc_routes c)"
  from assms(1) False obtain c0 where c0: "load env (hc_buckets c) d = Inr c0"
    "hc_routes c' = foldl reload_route (hc_routes c0) ?changed"
    by (auto simp: reload_def Let_def res_simps)
  have wf: "dict_wf (hc_routes c)" and co: "\<And>r. coherent (map_of (dk_routes d) r) (map_of (hc_routes c) r)"
    using assms(2) by (simp_all add: view_ok_def)
  have "dict_wf (hc_routes c')"
    unfolding c0(2)
  proof (rule dict_wf_foldl)
    show "dict_wf (hc_routes c0)" using load_Inr(1) [OF c0(1)] assms(3) by simp
  qed (auto simp: reload_route_def dict_wf_put split: option.split)
  moreover have "coherent (map_of (dk_routes d) r) (map_of (hc_routes c') r)" for r
    using co [of r] coherent_loaded [of "map_of (dk_routes d) r"]
    by (auto simp: c0(2) map_of_foldl_local [OF map_of_reload_route dict_wf_filter [OF wf]]
        map_of_filter_values [OF wf] load_Inr(1) [OF c0(1)] split: option.split)
  ultimately show ?thesis by (simp add: view_ok_def)
qed

lemma store_ok_views:
  assumes "store_ok s" and "view_ok d c" and "disk_advances (sh_disk s) d"
  shows "store_ok \<lparr> sh_disk = d, sh_views = dict_put i c (sh_views s) \<rparr>"
proof -
  have "view_ok d c'" if "map_of (sh_views s) j = Some c'" for j c'
    using that assms(1,3) coherent_advances unfolding store_ok_def view_ok_def disk_advances_def by blast
  with assms(2,3) show ?thesis by (simp add: store_ok_def disk_advances_def)
qed

lemma disk_advances_refl: "dict_wf (dk_routes d) \<Longrightarrow> disk_advances d d"
  by (simp add: disk_advances_def advances_def split: option.split)

lemma shared_step_ok:
  assumes "shared_step env s s'" and "store_ok s"
  shows "store_ok s' \<and> disk_advances (sh_disk s) (sh_disk s')"
proof -
  have disk: "dict_wf (dk_routes (sh_disk s))"
    and views: "\<And>i c. map_of (sh_views s) i = Some c \<Longrightarrow> view_ok (sh_disk s) c"
    using assms(2) by (auto simp: store_ok_def)
  have same: "store_ok (s \<lparr> sh_views := dict_put i c (sh_views s) \<rparr>)" if "view_ok (sh_disk s) c" for i c
    using store_ok_views [OF assms(2) that disk_advances_refl [OF disk], of i] by (simp add: store_ok_def)
  show ?thesis
    using assms(1)
  proof cases
    case (opened conf c i)
    then show ?thesis using same load_view_ok disk disk_advances_refl by simp
  next
    case (changed i c x c')
    then show ?thesis using same views apply_op_view_ok disk disk_advances_refl by simp
  next
    case (saved i c c' d')
    then show ?thesis using save_ok [OF saved(3) views [OF saved(2)] disk] store_ok_views [OF assms(2)] by simp
  next
    case (locked i c ops c' d')
    then show ?thesis using merge_and_save_ok [OF locked(3) disk] store_ok_views [OF assms(2)] by simp
  next
    case (reloaded i c c')
    then show ?thesis using same reload_ok [OF reloaded(3) views [OF reloaded(2)] disk] disk disk_advances_refl by simp
  qed
qed


subsection \<open>Reachable stores\<close>

text \<open>
  The contract that the clients of the store rely on: what a state remembers of a key never goes back.
\<close>

locale memory =
  fixes step :: "'s \<Rightarrow> 's \<Rightarrow> bool" and remembers :: "'s \<Rightarrow> 'k \<Rightarrow> rat \<Rightarrow> bool"
  assumes step_remembers: "step s s' \<Longrightarrow> remembers s k t \<Longrightarrow> remembers s' k t"
begin

lemma steps_remember: "step\<^sup>*\<^sup>* s s' \<Longrightarrow> remembers s k t \<Longrightarrow> remembers s' k t"
  by (induction rule: rtranclp_induct) (auto dest: step_remembers)

end

definition ok_step :: "cache_env \<Rightarrow> shared \<Rightarrow> shared \<Rightarrow> bool" where
  "ok_step env s s' \<longleftrightarrow> store_ok s \<and> shared_step env s s'"

definition failed_since :: "shared \<Rightarrow> route_id \<Rightarrow> rat \<Rightarrow> bool" where
  "failed_since s r t \<longleftrightarrow>
     (case Option.bind (map_of (dk_routes (sh_disk s)) r) last_failure of None \<Rightarrow> False | Some t' \<Rightarrow> t \<le> t')"

interpretation failures: memory "ok_step env" failed_since for env
proof unfold_locales
  fix s s' r t
  assume step: "ok_step env s s'" and since: "failed_since s r t"
  from since obtain p t0 where p: "map_of (dk_routes (sh_disk s)) r = Some p" "last_failure p = Some t0" "t \<le> t0"
    by (auto simp: failed_since_def split: option.splits bind_splits)
  have "advances (Some p) (map_of (dk_routes (sh_disk s')) r)"
    using shared_step_ok [of env s s'] step p(1) unfolding ok_step_def disk_advances_def by metis
  from advances_failure [OF this p(2)] p(3) show "failed_since s' r t"
    by (auto simp: failed_since_def)
qed

lemma steps_ok:
  "(shared_step env)\<^sup>*\<^sup>* s s' \<Longrightarrow> store_ok s \<Longrightarrow> store_ok s' \<and> (ok_step env)\<^sup>*\<^sup>* s s'"
proof (induction rule: rtranclp_induct)
  case (step y z)
  then have "store_ok y" "(ok_step env)\<^sup>*\<^sup>* s y" by simp_all
  with step.hyps(2) shared_step_ok show ?case
    by (metis ok_step_def rtranclp.rtrancl_into_rtrancl)
qed simp

lemma reachable_ok: "reachable env s \<Longrightarrow> store_ok s"
  using steps_ok by (auto simp: reachable_def store_ok_def)


text \<open>A remembered failure denies every proof that is not newer.\<close>

lemma failed_since_denies:
  assumes "failed_since u route t" and "load env conf (sh_disk u) = Inr c" and "qualified \<le> t"
  shows "commit_dispatch scope route attempt digest epoch due qualified now pid (permits_of c) \<noteq> Inr (Some p, st)"
proof -
  from assms(1) obtain e' t' where "map_of (dk_routes (sh_disk u)) route = Some e'" "last_failure e' = Some t'" "t \<le> t'"
    by (auto simp: failed_since_def split: option.splits bind_splits)
  then have "map_of (ps_routes (permits_of c)) route = Some (parsed e')" "entry_denies (parsed e') qualified now"
    using assms(3) by (auto simp: permits_of_def load_Inr [OF assms(2)] entry_denies_def)
  then show ?thesis by (auto simp: commit_dispatch_def Let_def split: if_splits)
qed


subsection \<open>Cooldowns only grow\<close>

definition in_force :: "cooldowns \<Rightarrow> string \<Rightarrow> rat \<Rightarrow> bool" where
  "in_force d key now \<longleftrightarrow> cooldown_for key now d \<noteq> None"

lemma in_force_iff: "in_force d key now \<longleftrightarrow> (\<exists>c. map_of d key = Some c \<and> now < cd_until c)"
  by (auto simp: in_force_def cooldown_for_def active_at_def split: option.splits)

lemma record_cooldown_keeps: "in_force d key now \<Longrightarrow> in_force (record_cooldown c d) key now"
  by (auto simp: in_force_iff record_cooldown_def split: option.splits)

lemma fold_cooldowns_keeps: "in_force d key now \<Longrightarrow> in_force (fold_cooldowns cs d) key now"
  unfolding fold_cooldowns_def by (induction cs arbitrary: d) (auto simp: record_cooldown_keeps)

lemma in_force_parsed: "in_force (map_vals parsed_cooldown d) key now = in_force d key now"
  by (auto simp: in_force_iff parsed_cooldown_def)

lemma in_force_snapshot: "in_force (dk_cooldowns (snapshot env c)) key now = in_force (hc_cooldowns c) key now"
  by (simp add: snapshot_def in_force_iff)

lemma apply_op_in_force:
  "apply_op env x c = Inr c' \<Longrightarrow> x \<noteq> ClearCooldown key \<Longrightarrow> in_force (hc_cooldowns c) key now \<Longrightarrow> in_force (hc_cooldowns c') key now"
  by (cases x; auto simp: on_routes_Inr record_cooldown_keeps dest: on_buckets_Inr on_permits_Inr)
     (auto simp: clear_cooldown_def in_force_iff)

lemma apply_ops_in_force:
  "apply_ops env ops c = Inr c' \<Longrightarrow> ClearCooldown key \<notin> set ops \<Longrightarrow> in_force (hc_cooldowns c) key now \<Longrightarrow>
   in_force (hc_cooldowns c') key now"
proof (induction ops arbitrary: c)
  case (Cons x ops)
  then obtain c1 where "apply_op env x c = Inr c1" "apply_ops env ops c1 = Inr c'" by (auto simp: res_simps)
  with Cons apply_op_in_force show ?case by (metis list.set_intros(1,2))
qed simp

lemma save_in_force:
  assumes "save env c d = Inr (c', d')" and "in_force (dk_cooldowns d) key now"
  shows "in_force (dk_cooldowns d') key now"
proof -
  obtain m where m: "merge_in_memory_over_disk env c d = Inr m" "d' = snapshot env m"
    using assms(1) by (auto simp: save_def res_simps)
  have "hc_cooldowns m = fold_cooldowns (map snd (hc_cooldowns c)) (map_vals parsed_cooldown (dk_cooldowns d))"
    using m(1) by (auto simp: merge_in_memory_over_disk_def res_simps Let_def load_Inr)
  then show ?thesis by (simp add: m(2) in_force_snapshot fold_cooldowns_keeps in_force_parsed assms(2))
qed

lemma merge_and_save_in_force:
  assumes "merge_and_save env ops c d = Inr (c', d')" and "in_force (dk_cooldowns d) key now" and "ClearCooldown key \<notin> set ops"
  shows "in_force (dk_cooldowns d') key now"
proof -
  obtain c0 c1 where c: "load env (hc_buckets c) d = Inr c0" "apply_ops env ops c0 = Inr c1"
    "d' = snapshot env (c1 \<lparr> hc_routes := bump_revisions (hc_routes c0) (hc_routes c1) \<rparr>)"
    using assms(1) by (auto simp: merge_and_save_def merge_and_save_with_def res_simps Let_def)
  have "in_force (hc_cooldowns c0) key now" by (simp add: load_Inr [OF c(1)] in_force_parsed assms(2))
  from apply_ops_in_force [OF c(2) assms(3) this] show ?thesis by (simp add: c(3) in_force_snapshot)
qed


section \<open>Properties\<close>

text \<open>C15. A failure is never forgotten: however many processes record, save, merge and reload in whatever order,
  once the file holds a failure of a route at a time t, no proof that was qualified at or before t is ever
  again turned into a dispatch permit for that route, also after the route has recovered.\<close>

theorem failure_outlives_every_interleaving:
  assumes "reachable env s" and "map_of (dk_routes (sh_disk s)) route = Some e" and "last_failure e = Some t"
    and "(shared_step env)\<^sup>*\<^sup>* s u" and "load env conf (sh_disk u) = Inr c" and "qualified \<le> t"
  shows "commit_dispatch scope route attempt digest epoch due qualified now pid (permits_of c) \<noteq> Inr (Some p, st)"
proof -
  have "failed_since s route t" by (simp add: failed_since_def assms(2,3))
  then have "failed_since u route t"
    using failures.steps_remember steps_ok [OF assms(4) reachable_ok [OF assms(1)]] by blast
  from failed_since_denies [OF this assms(5,6)] show ?thesis .
qed

text \<open>A cooldown in force disappears from the file in one way only: a locked update that clears its key.
  Plain saves, also of views that have dropped it, opens, reloads and all other updates keep it in force.\<close>

theorem cooldown_only_cleared_under_lock:
  assumes "shared_step env s s'" and "cooldown_for key now (dk_cooldowns (sh_disk s)) \<noteq> None"
    and "cooldown_for key now (dk_cooldowns (sh_disk s')) = None"
  shows "\<exists>i c ops c'. map_of (sh_views s) i = Some c \<and> ClearCooldown key \<in> set ops \<and>
    merge_and_save env ops c (sh_disk s) = Inr (c', sh_disk s')"
  using assms(1)
proof cases
  case (saved i c c' d')
  then show ?thesis using save_in_force [OF saved(3), of key now] assms(2,3) by (simp add: in_force_def)
next
  case (locked i c ops c' d')
  then show ?thesis using merge_and_save_in_force [OF locked(3), of key now] assms(2,3) by (auto simp: in_force_def)
qed (use assms(2,3) in simp_all)


text \<open>A view that has recorded a newer entry of a route, unsaved, keeps it over a reload, but its next save
  drops it when another process has written the route since: the reload compares the times only, the save
  also the revisions.\<close>

theorem unsaved_entry_lost_after_reload:
  assumes "reload env c d = Inr c'" and "save env c' d = Inr (c'', d')"
    and "dict_wf (hc_routes c)" and "dict_wf (dk_routes d)"
    and "map_of (hc_routes c) route = Some e" and "map_of (dk_routes (hc_disk_snapshot c)) route \<noteq> Some (written e)"
    and "map_of (dk_routes d) route = Some p" and "he_write_revision e < he_write_revision p"
    and "he_checked_at p < he_checked_at e"
  shows "map_of (hc_routes c') route = Some e \<and> map_of (hc_routes c'') route = Some (parsed p)"
proof -
  let ?changed = "filter (\<lambda>(k, e). map_of (dk_routes (hc_disk_snapshot c)) k \<noteq> Some (written e)) (hc_routes c)"
  have "map_of (dk_routes (snapshot env c)) route = Some (written e)" using assms(5) by simp
  then have "snapshot env c \<noteq> hc_disk_snapshot c" using assms(6) by metis
  with assms(1) obtain c0 where c0: "load env (hc_buckets c) d = Inr c0"
    "hc_routes c' = foldl reload_route (hc_routes c0) ?changed"
    by (auto simp: reload_def Let_def res_simps)
  have e: "map_of (hc_routes c') route = Some e"
    using assms(5-7,9) by (simp add: c0(2) map_of_foldl_local [OF map_of_reload_route dict_wf_filter [OF assms(3)]]
        map_of_filter_values [OF assms(3)] load_Inr(1) [OF c0(1)] parsed_def)
  have wf: "dict_wf (hc_routes c')"
    unfolding c0(2)
    by (rule dict_wf_foldl) (auto simp: reload_route_def dict_wf_put load_Inr(1) [OF c0(1)] assms(4) split: option.split)
  obtain m where m: "merge_in_memory_over_disk env c' d = Inr m" "hc_routes c'' = hc_routes m"
    using assms(2) by (auto simp: save_def res_simps)
  have "map_of (hc_routes m) route = Some (parsed p)"
    using e assms(7,8) by (simp add: merged_routes [OF m(1)] map_of_foldl_local [OF map_of_merge_route wf])
  with e m(2) show ?thesis by simp
qed


section \<open>A concrete store\<close>

definition sample_env :: cache_env where
  "sample_env = \<lparr> ce_fresh = 21600, ce_digest = sample_digest, ce_owned = (\<lambda>key token. key @ token) \<rparr>"

definition sample_conf :: bucket_cache where
  "sample_conf = \<lparr> bc_buckets = [], bc_overrides = [], bc_capacity = 10, bc_window_seconds = 60 \<rparr>"

definition opened_view :: health_cache where
  "opened_view = projr (load sample_env sample_conf empty_disk)"

definition after_failure_write :: "health_cache \<times> disk" where
  "after_failure_write = projr (merge_and_save sample_env [Probe ''cc/x'' failed_probe 100] opened_view empty_disk)"

definition after_recovery_write :: "health_cache \<times> disk" where
  "after_recovery_write = projr (merge_and_save sample_env [Probe ''cc/x'' good_probe 200]
     (fst after_failure_write) (snd after_failure_write))"

definition failed_shared :: shared where
  "failed_shared = \<lparr> sh_disk = snd after_failure_write, sh_views = [(0, fst after_failure_write)] \<rparr>"

definition recovered_shared :: shared where
  "recovered_shared = \<lparr> sh_disk = snd after_recovery_write, sh_views = [(0, fst after_recovery_write)] \<rparr>"

lemma failed_shared_reachable: "reachable sample_env failed_shared"
proof -
  let ?s0 = "\<lparr> sh_disk = empty_disk, sh_views = [] \<rparr>"
  let ?s1 = "\<lparr> sh_disk = empty_disk, sh_views = [(0, opened_view)] \<rparr>"
  have "load sample_env sample_conf (sh_disk ?s0) = Inr opened_view" by code_simp
  from shared_step.opened [OF this, of 0] have "shared_step sample_env ?s0 ?s1" by simp
  moreover have "merge_and_save sample_env [Probe ''cc/x'' failed_probe 100] opened_view (sh_disk ?s1) =
      Inr (fst after_failure_write, snd after_failure_write)" by code_simp
  from shared_step.locked [OF _ this, of 0] have "shared_step sample_env ?s1 failed_shared"
    by (simp add: failed_shared_def)
  moreover have "dict_wf (dk_routes empty_disk)" by code_simp
  ultimately show ?thesis unfolding reachable_def by (meson rtranclp.rtrancl_into_rtrancl rtranclp.rtrancl_refl)
qed

lemma recovery_step: "shared_step sample_env failed_shared recovered_shared"
proof -
  have "merge_and_save sample_env [Probe ''cc/x'' good_probe 200] (fst after_failure_write) (sh_disk failed_shared) =
      Inr (fst after_recovery_write, snd after_recovery_write)" by code_simp
  from shared_step.locked [OF _ this, of 0] show ?thesis by (simp add: failed_shared_def recovered_shared_def)
qed

theorem failure_outlives_every_interleaving_witness:
  "\<forall>p st. commit_dispatch sample_scope ''cc/x'' ''a1'' ''d'' 0 400 100 300 ''id''
     (permits_of (projr (load sample_env sample_conf (sh_disk recovered_shared)))) \<noteq> Inr (Some p, st)"
proof -
  let ?e = "the (map_of (dk_routes (sh_disk failed_shared)) ''cc/x'')"
  have "map_of (dk_routes (sh_disk failed_shared)) ''cc/x'' = Some ?e" "last_failure ?e = Some 100"
    "load sample_env sample_conf (sh_disk recovered_shared) = Inr (projr (load sample_env sample_conf (sh_disk recovered_shared)))"
    by code_simp+
  from failure_outlives_every_interleaving [OF failed_shared_reachable this(1,2) r_into_rtranclp [of "shared_step sample_env", OF recovery_step] this(3)]
  show ?thesis by simp
qed

definition provider_cooldown :: scoped_cooldown where
  "provider_cooldown = \<lparr> cd_key = ''provider:cc'', cd_category = ''authentication'', cd_checked_at = 100, cd_until = 500,
     cd_canonical_category = None, cd_provider_id = Some ''cc'', cd_pool = None, cd_account_id = None \<rparr>"

definition cooled_write :: "health_cache \<times> disk" where
  "cooled_write = projr (merge_and_save sample_env [Cooldown provider_cooldown] opened_view empty_disk)"

definition cleared_write :: "health_cache \<times> disk" where
  "cleared_write = projr (merge_and_save sample_env [ClearCooldown ''provider:cc''] (fst cooled_write) (snd cooled_write))"

definition cooled_shared :: shared where
  "cooled_shared = \<lparr> sh_disk = snd cooled_write, sh_views = [(0, fst cooled_write)] \<rparr>"

definition cleared_shared :: shared where
  "cleared_shared = \<lparr> sh_disk = snd cleared_write, sh_views = [(0, fst cleared_write)] \<rparr>"

theorem cooldown_only_cleared_under_lock_witness:
  "\<exists>i c ops c'. map_of (sh_views cooled_shared) i = Some c \<and> ClearCooldown ''provider:cc'' \<in> set ops \<and>
    merge_and_save sample_env ops c (sh_disk cooled_shared) = Inr (c', sh_disk cleared_shared)"
proof (rule cooldown_only_cleared_under_lock)
  have "merge_and_save sample_env [ClearCooldown ''provider:cc''] (fst cooled_write) (sh_disk cooled_shared) =
      Inr (fst cleared_write, snd cleared_write)" by code_simp
  from shared_step.locked [OF _ this, of 0] show "shared_step sample_env cooled_shared cleared_shared"
    by (simp add: cooled_shared_def cleared_shared_def)
  show "cooldown_for ''provider:cc'' 300 (dk_cooldowns (sh_disk cooled_shared)) \<noteq> None"
    "cooldown_for ''provider:cc'' 300 (dk_cooldowns (sh_disk cleared_shared)) = None" by code_simp+
qed

definition unsaved_view :: health_cache where
  "unsaved_view = projr (apply_op sample_env (Probe ''cc/x'' failed_probe 150) opened_view)"

definition other_write :: "health_cache \<times> disk" where
  "other_write = projr (merge_and_save sample_env [Probe ''cc/x'' good_probe 120] opened_view empty_disk)"

definition reloaded_view :: health_cache where
  "reloaded_view = projr (reload sample_env unsaved_view (snd other_write))"

definition saved_view :: "health_cache \<times> disk" where
  "saved_view = projr (save sample_env reloaded_view (snd other_write))"

theorem unsaved_entry_lost_after_reload_witness:
  "map_of (hc_routes reloaded_view) ''cc/x'' = map_of (hc_routes unsaved_view) ''cc/x'' \<and>
   map_of (hc_routes (fst saved_view)) ''cc/x'' = map_option parsed (map_of (dk_routes (snd other_write)) ''cc/x'')"
proof -
  let ?e = "the (map_of (hc_routes unsaved_view) ''cc/x'')"
  let ?p = "the (map_of (dk_routes (snd other_write)) ''cc/x'')"
  have e: "map_of (hc_routes unsaved_view) ''cc/x'' = Some ?e" and p: "map_of (dk_routes (snd other_write)) ''cc/x'' = Some ?p"
    by code_simp+
  have "reload sample_env unsaved_view (snd other_write) = Inr reloaded_view"
    "save sample_env reloaded_view (snd other_write) = Inr (fst saved_view, snd saved_view)"
    "dict_wf (hc_routes unsaved_view)" "dict_wf (dk_routes (snd other_write))" by code_simp+
  note unsaved = unsaved_entry_lost_after_reload [OF this e _ p]
  have "map_of (dk_routes (hc_disk_snapshot unsaved_view)) ''cc/x'' \<noteq> Some (written ?e)"
    "he_write_revision ?e < he_write_revision ?p" "he_checked_at ?p < he_checked_at ?e" by code_simp+
  note kept = unsaved [OF this]
  show ?thesis
  proof (rule conjI)
    show "map_of (hc_routes reloaded_view) ''cc/x'' = map_of (hc_routes unsaved_view) ''cc/x''"
      by (rule trans [OF conjunct1 [OF kept] e [symmetric]])
    have "map_option parsed (map_of (dk_routes (snd other_write)) ''cc/x'') = Some (parsed ?p)"
      by (rule trans [OF arg_cong [where f = "map_option parsed", OF p] option.map(2)])
    then show "map_of (hc_routes (fst saved_view)) ''cc/x'' = map_option parsed (map_of (dk_routes (snd other_write)) ''cc/x'')"
      by (rule trans [OF conjunct2 [OF kept] sym])
  qed
qed

end
