(* ===== verification/Admission.thy ===== *)
theory Admission
  imports Health_Store
begin

section \<open>Canonical admission\<close>

text \<open>
  Models \<open>verdict/admission.py\<close>: the runtime evidence read from the state files, the judgement of one inventory
  route, \<open>admit\<close>, and the operations of an \<open>AdmittedSet\<close>; with \<open>QuotaEvidence\<close> of \<open>verdict/availability.py\<close> and
  \<open>subscription_observations\<close> of \<open>verdict/subscription_headroom.py\<close>. An inventory row and a gateway connection are
  records of the fields that the code reads, with the empty text for a missing or empty one. Files are given by
  their parsed content (\<open>None\<close> when they cannot be read); receipts are not modelled.
\<close>

subsection \<open>Rows and connections\<close>

text \<open>A time given as a text: missing, or present and perhaps unreadable.\<close>

type_synonym stamp = "rat option option"

definition stamp_time :: "stamp \<Rightarrow> rat option" where
  "stamp_time s = (case s of Some (Some t) \<Rightarrow> Some t | _ \<Rightarrow> None)"

record inventory_row =
  ir_owned_by :: string
  ir_capabilities :: "(string, bool) dict"
  ir_max_input_tokens :: "int option"
  ir_context_length :: "int option"
  ir_capability_tier :: "int option"
  ir_prices :: "rat list"
  ir_pool_id :: string
  ir_account_id :: string

record provider_data =
  pd_import_free_models_only :: bool
  pd_tier :: string
  pd_plan :: string

record connection =
  cn_provider :: string
  cn_is_active :: bool
  cn_auth_type :: string
  cn_plan_label :: string
  cn_import_free_models_only :: bool
  cn_import_free_only :: bool
  cn_provider_data :: "provider_data option"
  cn_rate_limited_until :: "(string, rat option) dict"
  cn_quota_models :: "(string, rat) dict"
  cn_quota_percent :: "rat option"
  cn_quota_reset_at :: "rat option"
  cn_test_status :: string
  cn_account_id :: string
  cn_id :: string
  cn_workspace_id :: string
  cn_scope_type :: string
  cn_scope_id :: string
  cn_model :: string
  cn_pool_id :: string
  cn_last_error :: string
  cn_cooldown_until :: "rat option"
  cn_last_error_at :: stamp
  cn_observed_at :: stamp
  cn_updated_at :: stamp
  cn_last_tested :: stamp

definition account_of :: "connection \<Rightarrow> string" where
  "account_of c = (if cn_account_id c \<noteq> [] then cn_account_id c else cn_id c)"


subsection \<open>Route names\<close>

definition canonical_route_id :: "route_id \<Rightarrow> route_id" where
  "canonical_route_id route =
     (let txt = py_strip route in
      if prefix ''omniroute/'' (py_lower txt) then drop (length ''omniroute/'') txt else txt)"

definition OPAQUE_PREFIXES :: "string list" where
  "OPAQUE_PREFIXES = [''auto/'', ''combo/'', ''router/'', ''virtual/'']"

definition is_opaque :: "route_id \<Rightarrow> bool" where
  "is_opaque route \<longleftrightarrow>
     (let lowered = py_lower (canonical_route_id route) in
      lowered \<in> {''auto'', ''default'', ''best''} \<or> list_ex (\<lambda>p. prefix p lowered) OPAQUE_PREFIXES)"

definition route_provider_prefix :: "route_id \<Rightarrow> string" where
  "route_provider_prefix route =
     (let txt = canonical_route_id route in if CHR ''/'' \<in> set txt then py_lower (fst (py_partition (CHR ''/'') txt)) else [])"

definition OWNED_BY_ALIASES :: "(string, string) dict" where
  "OWNED_BY_ALIASES =
     [(''devin-cli-agentic'', ''devin-cli''), (''auggie'', ''auggie''), (''codex-app-server'', ''codex''),
      (''cloudflare-playground'', ''cloudflare-playground''), (''duckduckgo-web'', ''duckduckgo-web''),
      (''felo-web'', ''felo-web''), (''uncloseai'', ''uncloseai''), (''veoaifree-web'', ''veoaifree-web''),
      (''chipotle'', ''chipotle'')]"

definition resolve_provider :: "string \<Rightarrow> string" where
  "resolve_provider name =
     (case map_of OWNED_BY_ALIASES (py_lower name) of Some p \<Rightarrow> p | None \<Rightarrow> py_lower name)"


subsection \<open>Quota evidence of a connection\<close>

definition RATE_LIMIT_SECONDS :: rat where
  "RATE_LIMIT_SECONDS = 60"

record quota_evidence =
  qe_scope :: string
  qe_scope_id :: string
  qe_cooldown_until :: "rat option"
  qe_source :: string
  qe_observed_at :: "rat option"
  qe_rate_limited :: bool

fun first_stamp :: "stamp list \<Rightarrow> rat option" where
  "first_stamp [] = None"
| "first_stamp (s # ss) = (case s of None \<Rightarrow> first_stamp ss | Some t \<Rightarrow> t)"

definition from_connection :: "connection \<Rightarrow> quota_evidence" where
  "from_connection c =
     (let scope = (if cn_scope_type c \<in> {''model'', ''account'', ''provider'', ''pool''} then cn_scope_type c else ''account'');
          field = (if scope = ''model'' then cn_model c else if scope = ''pool'' then cn_pool_id c
                   else if scope = ''provider'' then cn_provider c else cn_account_id c);
          identifier = (if cn_scope_id c \<noteq> [] then cn_scope_id c else if field \<noteq> [] then field
                        else if scope = ''account'' then cn_id c else []);
          error = take 4096 (cn_last_error c) in
      \<lparr> qe_scope = scope, qe_scope_id = identifier, qe_cooldown_until = cn_cooldown_until c,
        qe_source = ''omniroute:/api/providers'',
        qe_observed_at = first_stamp [cn_last_error_at c, cn_observed_at c, cn_updated_at c, cn_last_tested c],
        qe_rate_limited = (contains_sub ''429'' error \<or> error = ''rate_limited'') \<rparr>)"

definition current_cooldown :: "quota_evidence \<Rightarrow> rat \<Rightarrow> bool" where
  "current_cooldown q now \<longleftrightarrow> (case qe_cooldown_until q of None \<Rightarrow> False | Some u \<Rightarrow> u > now)"

definition current_429 :: "quota_evidence \<Rightarrow> rat \<Rightarrow> rat option \<Rightarrow> bool" where
  "current_429 q now last_success \<longleftrightarrow>
     (case qe_observed_at q of
        None \<Rightarrow> False
      | Some t \<Rightarrow> qe_rate_limited q \<and> (case last_success of None \<Rightarrow> True | Some s \<Rightarrow> t > s) \<and>
          (if qe_cooldown_until q \<noteq> None then current_cooldown q now
           else 0 \<le> now - t \<and> now - t < RATE_LIMIT_SECONDS))"

definition blocked_until :: "quota_evidence \<Rightarrow> rat \<Rightarrow> rat option \<Rightarrow> rat option" where
  "blocked_until q now last_success =
     (if current_cooldown q now then qe_cooldown_until q
      else if current_429 q now last_success then map_option (\<lambda>t. t + RATE_LIMIT_SECONDS) (qe_observed_at q)
      else None)"

definition QUOTA_EFFORTS :: "string list" where
  "QUOTA_EFFORTS = [''-low'', ''-medium'', ''-high'', ''-xhigh'', ''-tiered'']"

text \<open>The model id without an effort suffix; no two of the suffixes end the same id.\<close>

definition without_effort :: "string \<Rightarrow> string" where
  "without_effort model =
     (case List.find (\<lambda>e. suffix e model) QUOTA_EFFORTS of
        Some e \<Rightarrow> take (length model - length e) model | None \<Rightarrow> model)"

definition quota_remaining :: "connection \<Rightarrow> route_id \<Rightarrow> rat option" where
  "quota_remaining c route =
     (let model = (case py_partition (CHR ''/'') route of (a, Some b) \<Rightarrow> b | (a, None) \<Rightarrow> a) in
      case map_of (cn_quota_models c) model of
        Some q \<Rightarrow> Some q
      | None \<Rightarrow> (case map_of (cn_quota_models c) (without_effort model) of
                   Some q \<Rightarrow> Some q | None \<Rightarrow> cn_quota_percent c))"

definition BAD_TEST_STATUS :: "string list" where
  "BAD_TEST_STATUS = [''error'', ''failed'', ''expired'', ''unauthorized'', ''invalid'', ''unavailable'', ''disabled'',
     ''exhausted'', ''quota_exhausted'', ''rate_limited'', ''banned'']"

definition test_status :: "connection \<Rightarrow> string" where
  "test_status c = py_lower (py_strip (cn_test_status c))"

text \<open>The first window of a connection that is open for the route.\<close>

definition live_window :: "connection \<Rightarrow> route_id \<Rightarrow> rat \<Rightarrow> rat option" where
  "live_window c route now =
     (case List.find (\<lambda>(key, until). \<not> (CHR ''/'' \<in> set key \<and> canonical_route_id key \<noteq> route) \<and>
          (case until of None \<Rightarrow> False | Some u \<Rightarrow> u > now)) (cn_rate_limited_until c) of
        None \<Rightarrow> None | Some (key, until) \<Rightarrow> until)"

definition connection_is_rate_limited :: "connection \<Rightarrow> route_id \<Rightarrow> rat \<Rightarrow> bool" where
  "connection_is_rate_limited c route now \<longleftrightarrow>
     blocked_until (from_connection c) now None \<noteq> None \<or> live_window c route now \<noteq> None"

definition connection_is_viable :: "connection \<Rightarrow> route_id \<Rightarrow> rat \<Rightarrow> bool" where
  "connection_is_viable c route now \<longleftrightarrow>
     cn_is_active c \<and> test_status c \<notin> set BAD_TEST_STATUS \<and> \<not> connection_is_rate_limited c route now"

definition RATE_LIMIT_COOLDOWN_CATEGORIES :: "string list" where
  "RATE_LIMIT_COOLDOWN_CATEGORIES = [''rate_limited'', ''rate_limit'', ''quota_exhausted'']"

definition live_quota_refutes_rate_limit :: "connection \<Rightarrow> route_id \<Rightarrow> rat option \<Rightarrow> rat \<Rightarrow> bool" where
  "live_quota_refutes_rate_limit c route cooled_at now \<longleftrightarrow>
     (case (cooled_at, stamp_time (cn_last_tested c), quota_remaining c route) of
        (Some cooled, Some tested, Some quota) \<Rightarrow>
          cooled < tested \<and> tested \<le> now \<and> quota > 0 \<and> connection_is_viable c route now
      | _ \<Rightarrow> False)"



subsection \<open>Runtime evidence\<close>

record observation =
  ob_key :: string
  ob_state :: string
  ob_category :: string
  ob_source :: string
  ob_observed_at :: stamp
  ob_until :: stamp
  ob_pool_id :: "string option"
  ob_reset_at :: stamp
  ob_account_id :: "string option"
  ob_workspace_id :: "string option"

definition RuntimeObservation :: "string \<Rightarrow> string \<Rightarrow> string \<Rightarrow> string \<Rightarrow> stamp \<Rightarrow> stamp \<Rightarrow> observation" where
  "RuntimeObservation key st category source observed until =
     \<lparr> ob_key = key, ob_state = st, ob_category = category, ob_source = source, ob_observed_at = observed, ob_until = until,
       ob_pool_id = None, ob_reset_at = None, ob_account_id = None, ob_workspace_id = None \<rparr>"

record evidence =
  ev_observations :: "observation list"
  ev_sources :: "string list"

definition for_key :: "evidence \<Rightarrow> string \<Rightarrow> observation list" where
  "for_key ev key = filter (\<lambda>x. ob_key x = key) (ev_observations ev)"

definition consulted :: "evidence \<Rightarrow> string list" where
  "consulted ev = filter (\<lambda>s. \<not> suffix '':absent'' s) (ev_sources ev)"

definition merged :: "evidence \<Rightarrow> evidence \<Rightarrow> evidence" where
  "merged a b = \<lparr> ev_observations = ev_observations a @ ev_observations b, ev_sources = py_dedupe (ev_sources a @ ev_sources b) \<rparr>"

definition no_evidence :: evidence where
  "no_evidence = \<lparr> ev_observations = [], ev_sources = [] \<rparr>"

definition state_for_category :: "string \<Rightarrow> string" where
  "state_for_category category =
     (let lowered = py_lower (py_strip category) in
      if lowered \<in> {''authentication'', ''permission'', ''payment_required'', ''unauthorized''} then ''unauthorized''
      else if lowered \<in> {''quota_exhausted'', ''exhausted'', ''rate_limited''} then ''exhausted''
      else if lowered \<in> {'''', ''unknown'', ''unprobed''} then ''unknown''
      else ''unhealthy'')"

definition text_or :: "string \<Rightarrow> string \<Rightarrow> string" where
  "text_or fallback txt = (if txt = [] then fallback else txt)"

text \<open>The state file of the ladder: its health, cooldowns and not-free overrides.\<close>

record ladder_health =
  lh_healthy :: bool
  lh_category :: string
  lh_checked_at :: "rat option"

record ladder_cooldown =
  lc_until :: rat
  lc_category :: string

record ladder_file =
  lf_health :: "(route_id, ladder_health) dict"
  lf_cooldowns :: "(string, ladder_cooldown) dict"
  lf_not_free :: "(string, ladder_cooldown) dict"

text \<open>Scope and name of a cooldown key; the name of a route is made canonical, any other lower case.\<close>

definition cooldown_scope :: "string list \<Rightarrow> string \<Rightarrow> string option" where
  "cooldown_scope scopes key =
     (case py_partition (CHR '':'') key of
        (scope, Some name) \<Rightarrow>
          if scope \<in> set scopes \<and> name \<noteq> [] then
            Some (scope @ '':'' @ (if scope = ''route'' then canonical_route_id name else py_lower name))
          else None
      | (scope, None) \<Rightarrow> None)"

definition HEALTHY_TTL_SECONDS :: rat where
  "HEALTHY_TTL_SECONDS = 300"

definition ladder_health_observation :: "string \<Rightarrow> rat \<Rightarrow> route_id \<times> ladder_health \<Rightarrow> observation option" where
  "ladder_health_observation source now rh =
     (case lh_checked_at (snd rh) of
        None \<Rightarrow> None
      | Some checked \<Rightarrow>
          if now - checked > HEALTHY_TTL_SECONDS \<or> lh_healthy (snd rh) then None
          else
            let st = state_for_category (lh_category (snd rh)) in
            Some (RuntimeObservation (''route:'' @ canonical_route_id (fst rh)) st (text_or st (lh_category (snd rh))) source
              (Some (Some checked)) None))"

definition ladder_cooldown_observation :: "string \<Rightarrow> rat \<Rightarrow> string \<times> ladder_cooldown \<Rightarrow> observation option" where
  "ladder_cooldown_observation source now kc =
     (if lc_until (snd kc) \<le> now then None
      else map_option (\<lambda>key. RuntimeObservation key ''cooldown'' (text_or ''cooldown'' (lc_category (snd kc))) source None
        (Some (Some (lc_until (snd kc))))) (cooldown_scope [''route'', ''provider''] (fst kc)))"

definition evidence_from_ladder_state :: "string \<Rightarrow> ladder_file option \<Rightarrow> rat \<Rightarrow> evidence" where
  "evidence_from_ladder_state name file now =
     (let source = ''ladder_state:'' @ name in
      case file of
        None \<Rightarrow> \<lparr> ev_observations = [], ev_sources = [source @ '':absent''] \<rparr>
      | Some f \<Rightarrow>
          \<lparr> ev_observations = List.map_filter (ladder_health_observation source now) (lf_health f) @
              List.map_filter (ladder_cooldown_observation source now) (lf_cooldowns f),
            ev_sources = [source] \<rparr>)"

text \<open>The flat worker cache \<open>subagent-health.json\<close>.\<close>

record worker_health =
  wh_healthy :: bool
  wh_category :: string
  wh_observed_at :: stamp
  wh_expires_at :: "rat option"

definition worker_observation :: "string \<Rightarrow> rat \<Rightarrow> string \<times> worker_health \<Rightarrow> observation option" where
  "worker_observation source now kw =
     (case wh_expires_at (snd kw) of
        None \<Rightarrow> None
      | Some expires \<Rightarrow>
          let category = text_or ''unknown'' (wh_category (snd kw)) in
          if expires \<le> now \<or> wh_healthy (snd kw) then None
          else if prefix ''provider:'' (fst kw) then
            Some (RuntimeObservation (py_lower (fst kw)) ''cooldown'' category source (wh_observed_at (snd kw)) (Some (Some expires)))
          else
            Some (RuntimeObservation (''route:'' @ canonical_route_id (fst kw)) (state_for_category category) category source
              (wh_observed_at (snd kw)) (Some (Some expires))))"

definition evidence_from_health_cache :: "string \<Rightarrow> (string, worker_health) dict option \<Rightarrow> rat \<Rightarrow> evidence" where
  "evidence_from_health_cache name file now =
     (let source = ''health_cache:'' @ name in
      case file of
        None \<Rightarrow> \<lparr> ev_observations = [], ev_sources = [source @ '':absent''] \<rparr>
      | Some d \<Rightarrow> \<lparr> ev_observations = List.map_filter (worker_observation source now) d, ev_sources = [source] \<rparr>)"

text \<open>The shared health store of \<open>HealthCache\<close>, of which only failures and cooldowns count.\<close>

definition entry_observation :: "string \<Rightarrow> rat \<Rightarrow> route_id \<times> health_entry \<Rightarrow> observation option" where
  "entry_observation source now re =
     (let e = snd re; st = state_for_category (he_category e) in
      if he_healthy e \<or> he_until e \<le> now then None
      else Some (RuntimeObservation (''route:'' @ canonical_route_id (fst re)) st (text_or st (he_category e)) source
        (Some (Some (he_checked_at e))) (Some (Some (he_until e)))))"

definition scoped_observation :: "string \<Rightarrow> rat \<Rightarrow> string \<times> scoped_cooldown \<Rightarrow> observation option" where
  "scoped_observation source now kc =
     (let c = snd kc in
      if cd_until c \<le> now then None
      else map_option (\<lambda>key. (RuntimeObservation key ''cooldown'' (text_or ''cooldown'' (cd_category c)) source
        (Some (Some (cd_checked_at c))) (Some (Some (cd_until c)))) \<lparr> ob_account_id := cd_account_id c \<rparr>)
        (cooldown_scope [''route'', ''provider'', ''pool'', ''account''] (fst kc)))"

definition evidence_from_at_rest_health_cache :: "string \<Rightarrow> disk option \<Rightarrow> rat \<Rightarrow> evidence" where
  "evidence_from_at_rest_health_cache name file now =
     (let source = ''at_rest_health_cache:'' @ name in
      case file of
        None \<Rightarrow> \<lparr> ev_observations = [], ev_sources = [source @ '':absent''] \<rparr>
      | Some d \<Rightarrow>
          \<lparr> ev_observations = List.map_filter (entry_observation source now) (dk_routes d) @
              List.map_filter (scoped_observation source now) (dk_cooldowns d),
            ev_sources = [source] \<rparr>)"

record quota_row =
  qr_route_id :: string
  qr_provider :: string
  qr_exhausted :: bool
  qr_source :: string
  qr_observed_at :: stamp
  qr_until :: stamp

definition quota_observation :: "string \<Rightarrow> quota_row \<Rightarrow> observation option" where
  "quota_observation source r =
     (let key = (if py_strip (qr_route_id r) \<noteq> [] then Some (''route:'' @ canonical_route_id (qr_route_id r))
                 else if py_strip (qr_provider r) \<noteq> [] then Some (''provider:'' @ py_lower (py_strip (qr_provider r)))
                 else None) in
      map_option (\<lambda>k. RuntimeObservation k (if qr_exhausted r then ''exhausted'' else ''unknown'')
        (if qr_exhausted r then ''quota_exhausted'' else ''quota_unknown'') (text_or source (qr_source r))
        (qr_observed_at r) (qr_until r)) key)"

definition evidence_from_quota_rows :: "string \<Rightarrow> quota_row list \<Rightarrow> evidence" where
  "evidence_from_quota_rows source rows =
     \<lparr> ev_observations = List.map_filter (quota_observation source) rows, ev_sources = [source] \<rparr>"

definition default_runtime_evidence ::
  "string \<Rightarrow> ladder_file option \<Rightarrow> (string, worker_health) dict option \<Rightarrow> disk option \<Rightarrow> rat \<Rightarrow> evidence" where
  "default_runtime_evidence ladder_name ladder_state worker_cache health_cache now =
     merged (merged (evidence_from_ladder_state ladder_name ladder_state now)
         (evidence_from_health_cache ''subagent-health.json'' worker_cache now))
       (evidence_from_at_rest_health_cache ''health-cache.json'' health_cache now)"


subsection \<open>Subscription snapshots\<close>

datatype capacity_failure =
    RATE_LIMIT | CONCURRENCY_LIMIT | PROVIDER_OVERLOAD | QUOTA_EXHAUSTED | BALANCE_EXHAUSTED | AUTH_EXPIRED
  | PERMISSION_DENIED | TRANSPORT | PROVIDER_OUTAGE | UNSUPPORTED | PARSE_ERROR | UNKNOWN_FAILURE

record capacity_error =
  ce_failure_class :: capacity_failure
  ce_message :: string
  ce_retry_after :: "rat option"

record capacity_pool =
  cp_pool_id :: string
  cp_status :: string
  cp_retry_after :: "rat option"
  cp_cooldown_until :: "rat option"
  cp_reset_at :: "rat option"

record balance =
  bl_balance_id :: string
  bl_kind :: string
  bl_remaining :: "rat option"

record capacity_snapshot =
  sn_provider_id :: string
  sn_account_id :: string
  sn_workspace_id :: "string option"
  sn_observed_at :: rat
  sn_fresh_until :: "rat option"
  sn_errors :: "capacity_error list"
  sn_pools :: "capacity_pool list"
  sn_balances :: "balance list"

definition snapshot_fresh :: "rat \<Rightarrow> rat \<Rightarrow> capacity_snapshot \<Rightarrow> bool" where
  "snapshot_fresh ttl now s \<longleftrightarrow>
     (case sn_fresh_until s of Some d \<Rightarrow> d | None \<Rightarrow> sn_observed_at s + ttl) \<ge> now"

definition snapshot_source :: "capacity_snapshot \<Rightarrow> string" where
  "snapshot_source s = ''subscription_headroom:'' @ sn_provider_id s @ '':'' @ sn_account_id s"

definition snapshot_observation :: "capacity_snapshot \<Rightarrow> string \<Rightarrow> string \<Rightarrow> stamp \<Rightarrow> string option \<Rightarrow> stamp \<Rightarrow> observation" where
  "snapshot_observation s st category until pool reset =
     \<lparr> ob_key = ''provider:'' @ py_lower (sn_provider_id s), ob_state = st, ob_category = category,
       ob_source = snapshot_source s, ob_observed_at = Some (Some (sn_observed_at s)), ob_until = until, ob_pool_id = pool,
       ob_reset_at = reset, ob_account_id = Some (sn_account_id s), ob_workspace_id = sn_workspace_id s \<rparr>"

definition error_state :: "capacity_error \<Rightarrow> (string \<times> string) option" where
  "error_state e =
     (case ce_failure_class e of
        BALANCE_EXHAUSTED \<Rightarrow> Some (''exhausted'', ''subscription_exhaustion'')
      | QUOTA_EXHAUSTED \<Rightarrow> Some (''exhausted'', ''subscription_exhaustion'')
      | AUTH_EXPIRED \<Rightarrow> Some (''unauthorized'', ''lockout'')
      | PERMISSION_DENIED \<Rightarrow> Some (''unauthorized'', ''lockout'')
      | RATE_LIMIT \<Rightarrow> Some (''cooldown'', ''rate_limit'')
      | CONCURRENCY_LIMIT \<Rightarrow> Some (''cooldown'', ''concurrency_limit'')
      | PROVIDER_OVERLOAD \<Rightarrow> Some (''cooldown'', ''provider_overload'')
      | PROVIDER_OUTAGE \<Rightarrow> Some (''cooldown'', ''provider_overload'')
      | _ \<Rightarrow> if contains_sub ''payment'' (py_lower (ce_message e)) \<or> contains_sub ''billing'' (py_lower (ce_message e))
             then Some (''unauthorized'', ''payment'') else None)"

definition pool_category :: "capacity_pool \<Rightarrow> string" where
  "pool_category p =
     (if cp_status p = ''exhausted'' then ''subscription_exhaustion''
      else if cp_status p = ''cooldown'' then (if cp_retry_after p \<noteq> None then ''rate_limit'' else ''cooldown'')
      else if cp_status p = ''constrained'' then ''subscription_constrained''
      else if cp_status p = ''available'' then ''subscription_available''
      else ''subscription_unknown'')"

definition pool_until :: "rat \<Rightarrow> capacity_pool \<Rightarrow> rat option" where
  "pool_until now p =
     (case cp_cooldown_until p of
        Some u \<Rightarrow> Some u
      | None \<Rightarrow> map_option (\<lambda>seconds. of_int \<lfloor>now\<rfloor> + seconds) (cp_retry_after p))"

definition snapshot_observations :: "rat \<Rightarrow> capacity_snapshot \<Rightarrow> observation list" where
  "snapshot_observations now s =
     List.map_filter (\<lambda>e. map_option (\<lambda>(st, category).
         snapshot_observation s st category (map_option (\<lambda>r. Some (now + r)) (ce_retry_after e)) None None) (error_state e)) (sn_errors s) @
     map (\<lambda>p. snapshot_observation s (cp_status p) (pool_category p) (map_option Some (pool_until now p)) (Some (cp_pool_id p))
         (map_option Some (cp_reset_at p))) (sn_pools s) @
     (if sn_pools s = [] \<and> sn_balances s = [] \<and> sn_errors s = []
      then [snapshot_observation s ''unknown'' ''subscription_unknown'' None None None] else []) @
     List.map_filter (\<lambda>b. case bl_remaining b of
         Some r \<Rightarrow>
           if bl_kind b = ''subscription_credits'' then
             Some (if r \<le> 0 then snapshot_observation s ''exhausted'' ''subscription_exhaustion'' None (Some (bl_balance_id b)) None
               else snapshot_observation s ''healthy'' ''subscription_available'' None (Some (bl_balance_id b)) None)
           else None
       | None \<Rightarrow> None) (sn_balances s)"

definition subscription_observations :: "rat \<Rightarrow> rat \<Rightarrow> capacity_snapshot list \<Rightarrow> evidence" where
  "subscription_observations ttl now snapshots =
     \<lparr> ev_observations = concat (map (snapshot_observations now) (filter (snapshot_fresh ttl now) snapshots)),
       ev_sources = py_dedupe (map snapshot_source snapshots) \<rparr>"



subsection \<open>Records\<close>

datatype admission_stage =
    Ad_DISCOVERED | Ad_ENTITLED | Ad_HEALTHY | Ad_AVAILABLE | Ad_CAPABILITY | Ad_POLICY | Ad_WORKER_SCOPE
  | Ad_CONTROLLER_SCOPE | Ad_CONTROLLER_EXCLUDED | Ad_DOWNSTREAM

record admission_record =
  ar_route_id :: route_id
  ar_provider :: string
  ar_admitted :: bool
  ar_first_failed_stage :: "admission_stage option"
  ar_reason :: string
  ar_source :: string
  ar_observed_at :: stamp
  ar_health :: string
  ar_until :: stamp
  ar_reset_at :: stamp
  ar_confirmation_source :: "string option"
  ar_confirmed_at :: "rat option"

definition dropped :: "route_id \<Rightarrow> string \<Rightarrow> admission_stage \<Rightarrow> string \<Rightarrow> string \<Rightarrow> stamp \<Rightarrow> string \<Rightarrow> stamp \<Rightarrow> stamp \<Rightarrow> admission_record" where
  "dropped route provider stage reason source observed health until reset =
     \<lparr> ar_route_id = route, ar_provider = provider, ar_admitted = False, ar_first_failed_stage = Some stage, ar_reason = reason,
       ar_source = source, ar_observed_at = observed, ar_health = health, ar_until = until, ar_reset_at = reset,
       ar_confirmation_source = None, ar_confirmed_at = None \<rparr>"

definition accepted :: "route_id \<Rightarrow> string \<Rightarrow> string \<Rightarrow> string \<Rightarrow> stamp \<Rightarrow> string \<Rightarrow> stamp \<Rightarrow> stamp \<Rightarrow> admission_record" where
  "accepted route provider reason source observed health until reset =
     \<lparr> ar_route_id = route, ar_provider = provider, ar_admitted = True, ar_first_failed_stage = None, ar_reason = reason,
       ar_source = source, ar_observed_at = observed, ar_health = health, ar_until = until, ar_reset_at = reset,
       ar_confirmation_source = None, ar_confirmed_at = None \<rparr>"

text \<open>\<open>ad_token\<close> is the opaque token of an account id (a SHA-256 digest); \<open>ad_deny\<close> the deny policy, if any.\<close>

record admission_params =
  ad_connections_source :: string
  ad_required :: "string list"
  ad_min_context :: int
  ad_deny :: "route_id \<Rightarrow> string option"
  ad_token :: "string \<Rightarrow> string"


subsection \<open>The evidence that concerns a route\<close>

definition account_forms :: "(string \<Rightarrow> string) \<Rightarrow> string \<Rightarrow> string list" where
  "account_forms token value =
     (let txt = py_strip value in
      if txt = [] then [] else if prefix ''conn:'' txt then [txt] else [txt, token txt])"

definition connections_for :: "connection list \<Rightarrow> string list \<Rightarrow> connection list" where
  "connections_for conns names = filter (\<lambda>c. py_lower (cn_provider c) \<in> set (map py_lower (filter (\<lambda>n. n \<noteq> []) names))) conns"

definition route_observations :: "evidence \<Rightarrow> route_id \<Rightarrow> rat \<Rightarrow> observation list" where
  "route_observations ev route now =
     filter (\<lambda>x. ob_state x \<noteq> ''healthy'' \<or> ob_until x = None \<or> (case stamp_time (ob_until x) of None \<Rightarrow> False | Some t \<Rightarrow> t > now))
       (for_key ev (''route:'' @ route))"

definition last_success :: "observation list \<Rightarrow> rat option" where
  "last_success obs =
     (case List.map_filter (\<lambda>x. stamp_time (ob_observed_at x))
         (filter (\<lambda>x. ob_state x \<in> {''healthy'', ''success_hint''} \<and> ob_category x \<noteq> ''passive_success'') obs) of
        [] \<Rightarrow> None | t # ts \<Rightarrow> Some (foldl max t ts))"

definition gateway_observation :: "string \<Rightarrow> rat \<Rightarrow> rat option \<Rightarrow> connection \<Rightarrow> observation option" where
  "gateway_observation provider now success c =
     (let q = from_connection c; given = (\<lambda>s. if s = [] then None else Some s) in
      map_option (\<lambda>u. \<lparr> ob_key = (if qe_scope q = ''model'' then ''route:'' @ canonical_route_id (qe_scope_id q) else ''provider:'' @ provider),
        ob_state = ''cooldown'', ob_category = ''rate_limit'', ob_source = qe_source q, ob_observed_at = map_option Some (qe_observed_at q),
        ob_until = Some (Some u), ob_pool_id = (if qe_scope q = ''pool'' then given (qe_scope_id q) else None), ob_reset_at = None,
        ob_account_id = (if qe_scope q = ''account'' then given (account_of c) else None), ob_workspace_id = None \<rparr>)
        (blocked_until q now success))"

text \<open>
  What pins a route to accounts: the forms of its pool marker, its bound account, and an account encoded in the
  route id; then the active connections, accounts and workspaces that remain.
\<close>

record binding =
  bi_markers :: "string list"
  bi_bound :: string
  bi_encoded :: string
  bi_active :: "connection list"
  bi_accounts :: "string list"
  bi_workspaces :: "string list"

definition bind_accounts :: "(string \<Rightarrow> string) \<Rightarrow> route_id \<Rightarrow> inventory_row \<Rightarrow> string \<Rightarrow> string \<Rightarrow> connection list \<Rightarrow> binding" where
  "bind_accounts token route row owned prefx active0 =
     (let markers = (if ir_pool_id row = [] then [] else account_forms token (ir_pool_id row));
          bound = ir_account_id row;
          active = (if bound = [] then active0 else filter (\<lambda>c. account_of c \<in> set (account_forms token bound)) active0);
          accounts = filter (\<lambda>s. s \<noteq> []) (map account_of active);
          parts = py_split (CHR ''/'') route;
          encoded = (if length parts > 2 \<and> prefix (prefx @ ''/'') owned then parts ! 1 else []) in
      \<lparr> bi_markers = markers, bi_bound = bound, bi_encoded = encoded, bi_active = active,
        bi_accounts = (if accounts = [] \<and> encoded \<noteq> [] then [encoded] else accounts),
        bi_workspaces = filter (\<lambda>s. s \<noteq> []) (map cn_workspace_id active) \<rparr>)"

definition account_bound :: "binding \<Rightarrow> bool" where
  "account_bound b \<longleftrightarrow> bi_markers b \<noteq> [] \<or> bi_encoded b \<noteq> [] \<or> bi_bound b \<noteq> []"

definition in_scope :: "binding \<Rightarrow> route_id \<Rightarrow> observation \<Rightarrow> bool" where
  "in_scope b route x \<longleftrightarrow>
     (case ob_account_id x of None \<Rightarrow> True | Some a \<Rightarrow> a \<in> set (bi_accounts b)) \<and>
     (case ob_workspace_id x of None \<Rightarrow> True | Some w \<Rightarrow> w = [] \<or> w \<in> set (bi_workspaces b) \<or>
        (bi_workspaces b = [] \<and> length (bi_active b) = 1)) \<and>
     (bi_markers b = [] \<or> (case ob_pool_id x of None \<Rightarrow> True | Some p \<Rightarrow> p = [] \<or> p \<in> set (bi_markers b) \<or> contains_sub p route))"

definition refuted_limit :: "binding \<Rightarrow> route_id \<Rightarrow> rat \<Rightarrow> observation \<Rightarrow> bool" where
  "refuted_limit b route now x \<longleftrightarrow>
     ob_state x \<in> {''cooldown'', ''exhausted''} \<and> ob_category x \<in> set RATE_LIMIT_COOLDOWN_CATEGORIES \<and>
     list_ex (\<lambda>c. live_quota_refutes_rate_limit c route (stamp_time (ob_observed_at x)) now) (bi_active b)"

text \<open>An exhausted account is ignored while a sibling account is viable, for routes that are not bound to one.\<close>

definition suppress_siblings :: "binding \<Rightarrow> route_id \<Rightarrow> rat \<Rightarrow> observation list \<Rightarrow> observation list" where
  "suppress_siblings b route now obs =
     (let bad = List.map_filter (\<lambda>x. if ob_state x \<in> {''exhausted'', ''cooldown''} \<and> ob_account_id x \<noteq> Some []
            then ob_account_id x else None) obs;
          viable = filter (\<lambda>a. a \<notin> set bad \<and> list_ex (\<lambda>c. account_of c = a \<and> connection_is_viable c route now) (bi_active b))
            (bi_accounts b) in
      if account_bound b \<or> viable = [] then obs
      else filter (\<lambda>x. case ob_account_id x of None \<Rightarrow> True | Some a \<Rightarrow> a \<notin> set bad) obs)"

text \<open>
  The observations of the route and of its provider. The names of the provider form a set in the code; here
  the owner comes before the prefix.
\<close>

definition judged_observations ::
  "admission_params \<Rightarrow> evidence \<Rightarrow> route_id \<Rightarrow> inventory_row \<Rightarrow> string \<Rightarrow> string \<Rightarrow> string \<Rightarrow> connection list \<Rightarrow> rat
     \<Rightarrow> observation list \<times> observation list" where
  "judged_observations pa ev route row owned prefx provider active now =
     (let route_obs = route_observations ev route now;
          provider_obs = concat (map (\<lambda>n. for_key ev (''provider:'' @ n)) (py_dedupe (filter (\<lambda>n. n \<noteq> []) [owned, prefx])));
          gateway = List.map_filter (gateway_observation provider now (last_success route_obs)) active;
          b = bind_accounts (ad_token pa) route row owned prefx active;
          scoped = filter (in_scope b route) (provider_obs @ filter (\<lambda>x. ob_key x = ''provider:'' @ provider) gateway);
          standing = filter (\<lambda>x. x \<in> set gateway \<or> \<not> refuted_limit b route now x) scoped in
      (route_obs @ filter (\<lambda>x. ob_key x = ''route:'' @ route) gateway, suppress_siblings b route now standing))"


subsection \<open>The judgement of a route\<close>

definition context_of :: "inventory_row \<Rightarrow> int" where
  "context_of row =
     (case ir_max_input_tokens row of
        Some n \<Rightarrow> if n \<noteq> 0 then n else (case ir_context_length row of Some m \<Rightarrow> m | None \<Rightarrow> 0)
      | None \<Rightarrow> (case ir_context_length row of Some m \<Rightarrow> m | None \<Rightarrow> 0))"

definition has_capability :: "inventory_row \<Rightarrow> string \<Rightarrow> bool" where
  "has_capability row needed \<longleftrightarrow>
     map_of (ir_capabilities row) (if needed = ''tools'' then ''tool_calling'' else needed) = Some True"

definition NAMED_CATEGORIES :: "string list" where
  "NAMED_CATEGORIES = [''subscription_exhaustion'', ''subscription_unknown'', ''rate_limit'', ''concurrency_limit'',
     ''provider_overload'', ''lockout'', ''payment'']"

text \<open>The first observation that speaks against the route, in the order of the stages.\<close>

definition observed_failure :: "route_id \<Rightarrow> string \<Rightarrow> observation list \<Rightarrow> observation list \<Rightarrow> admission_record option" where
  "observed_failure route provider route_obs provider_obs =
     (case List.find (\<lambda>x. ob_state x = ''unauthorized'') (route_obs @ provider_obs) of
        Some x \<Rightarrow> Some (dropped route provider Ad_ENTITLED (ob_category x) (ob_source x) (ob_observed_at x) (ob_state x) (ob_until x) (ob_reset_at x))
      | None \<Rightarrow>
          (case List.find (\<lambda>x. ob_state x = ''unhealthy'') route_obs of
             Some x \<Rightarrow> Some (dropped route provider Ad_HEALTHY (ob_category x) (ob_source x) (ob_observed_at x) (ob_state x) (ob_until x) None)
           | None \<Rightarrow>
               (case List.find (\<lambda>x. ob_state x \<in> {''exhausted'', ''cooldown''}) (route_obs @ provider_obs) of
                  Some x \<Rightarrow> Some (dropped route provider Ad_AVAILABLE
                    (if ob_category x \<in> set NAMED_CATEGORIES then ob_category x else ob_state x @ '':'' @ ob_category x)
                    (ob_source x) (ob_observed_at x) (ob_state x) (ob_until x) (ob_reset_at x))
                | None \<Rightarrow> None)))"

definition unknown_headroom :: "observation \<Rightarrow> bool" where
  "unknown_headroom x \<longleftrightarrow>
     ob_category x = ''subscription_unknown'' \<or> (ob_state x = ''unknown'' \<and> prefix ''subscription_headroom:'' (ob_source x))"

text \<open>An admitted route is healthy on positive evidence, else admitted for a bounded probe.\<close>

definition judged_healthy :: "admission_params \<Rightarrow> route_id \<Rightarrow> string \<Rightarrow> observation list \<Rightarrow> stamp \<Rightarrow> admission_record" where
  "judged_healthy pa route provider obs stamp =
     (case filter (\<lambda>x. ob_state x = ''healthy'') obs of
        [] \<Rightarrow> accepted route provider ''admitted_unverified'' (ad_connections_source pa) stamp ''unknown'' None None
      | x # xs \<Rightarrow>
          let latest = last (x # xs) in
          accepted route provider ''admitted'' (ob_source latest) (ob_observed_at latest) ''healthy'' None None)"

definition judge_observed ::
  "admission_params \<Rightarrow> route_id \<Rightarrow> string \<Rightarrow> inventory_row \<Rightarrow> observation list \<Rightarrow> observation list \<Rightarrow> rat \<Rightarrow> admission_record" where
  "judge_observed pa route provider row route_obs provider_obs now =
     (let stamp = Some (Some now); obs = route_obs @ provider_obs in
      case observed_failure route provider route_obs provider_obs of
        Some r \<Rightarrow> r
      | None \<Rightarrow>
      case List.find unknown_headroom obs of
        Some x \<Rightarrow> accepted route provider ''subscription_unknown'' (ob_source x) (ob_observed_at x) ''unknown'' (ob_until x) (ob_reset_at x)
      | None \<Rightarrow>
      case List.find (\<lambda>needed. \<not> has_capability row needed) (sorted_set (ad_required pa)) of
        Some needed \<Rightarrow> dropped route provider Ad_CAPABILITY (''missing_capability:'' @ needed) ''inventory'' stamp ''unknown'' None None
      | None \<Rightarrow>
      if context_of row < ad_min_context pa \<and> (ad_required pa \<noteq> [] \<or> ad_min_context pa \<noteq> 0)
      then dropped route provider Ad_CAPABILITY ''insufficient_context'' ''inventory'' stamp ''unknown'' None None
      else
        (case ad_deny pa route of
           Some reason \<Rightarrow>
             if reason \<noteq> [] then dropped route provider Ad_POLICY reason ''policy'' stamp ''unknown'' None None
             else judged_healthy pa route provider obs stamp
         | None \<Rightarrow> judged_healthy pa route provider obs stamp))"

definition owner_of_row :: "inventory_row \<Rightarrow> string" where
  "owner_of_row row = py_lower (ir_owned_by row)"

definition resolved_owner :: "inventory_row \<Rightarrow> string" where
  "resolved_owner row = (if owner_of_row row = [] then [] else resolve_provider (owner_of_row row))"

definition judged_provider :: "route_id \<Rightarrow> inventory_row \<Rightarrow> string" where
  "judged_provider route row = text_or (text_or (route_provider_prefix route) (owner_of_row row)) (resolved_owner row)"

definition row_connections :: "connection list \<Rightarrow> route_id \<Rightarrow> inventory_row \<Rightarrow> connection list" where
  "row_connections connections route row =
     connections_for connections [resolved_owner row, owner_of_row row, route_provider_prefix route]"

definition judge ::
  "admission_params \<Rightarrow> connection list \<Rightarrow> evidence \<Rightarrow> rat \<Rightarrow> route_id \<Rightarrow> inventory_row \<Rightarrow> admission_record" where
  "judge pa connections ev now route row =
     (let provider = judged_provider route row;
          source = ad_connections_source pa;
          stamp = Some (Some now);
          conns = row_connections connections route row;
          active = filter cn_is_active conns;
          statuses = map test_status active in
      if is_opaque route \<or> owner_of_row row = ''combo'' then
        dropped route provider Ad_DISCOVERED ''opaque_route'' ''inventory'' stamp ''unknown'' None None
      else if active = [] then
        dropped route provider Ad_ENTITLED (if conns = [] then ''no_connection_evidence'' else ''no_active_account'') source stamp ''unknown'' None None
      else if set statuses \<subseteq> set BAD_TEST_STATUS then
        (let status = hd (sorted_set statuses) in
         dropped route provider Ad_ENTITLED (''connection_status:'' @ status) source stamp (state_for_category status) None None)
      else
        (case List.map_filter (\<lambda>c. live_window c route now) active of
           until # _ \<Rightarrow> dropped route provider Ad_AVAILABLE ''provider_rate_limited'' source stamp ''exhausted'' (Some (Some until)) None
         | [] \<Rightarrow>
             let (route_obs, provider_obs) =
               judged_observations pa ev route row (owner_of_row row) (route_provider_prefix route) provider active now in
             judge_observed pa route provider row route_obs provider_obs now))"


subsection \<open>The admitted set\<close>

datatype admission_error =
    Unavailable string
  | BypassError string "route_id list"

definition CONTROLLER_IDENTITY_UNKNOWN :: string where
  "CONTROLLER_IDENTITY_UNKNOWN = ''unknown''"

record admitted_set =
  am_records :: "admission_record list"
  am_generated_at :: rat
  am_sources :: "string list"
  am_controller_identity :: string
  am_narrowing :: "string list"
  am_runtime_consulted :: "string list"

text \<open>The first row of each canonical id; a row without an id counts as one with the empty id.\<close>

definition inventory_by_id :: "(string \<times> inventory_row) list \<Rightarrow> (route_id, inventory_row) dict" where
  "inventory_by_id rows =
     foldl (\<lambda>d (rid, row).
       if py_strip rid = [] \<or> canonical_route_id rid \<in> set (dict_keys d) then d
       else d @ [(canonical_route_id rid, row)]) [] rows"

definition admit ::
  "admission_params \<Rightarrow> string \<Rightarrow> bool \<Rightarrow> rat \<Rightarrow> (string \<times> inventory_row) list option \<Rightarrow> connection list option
     \<Rightarrow> evidence option \<Rightarrow> capacity_snapshot list \<Rightarrow> rat \<Rightarrow> admission_error + admitted_set" where
  "admit pa inventory_source require_runtime ttl inventory connections runtime snapshots now =
     (case inventory of
        None \<Rightarrow> Inl (Unavailable ''live_inventory_unavailable'')
      | Some rows \<Rightarrow>
      case connections of
        None \<Rightarrow> Inl (Unavailable ''connection_evidence_unavailable'')
      | Some conns \<Rightarrow>
      if runtime = None \<and> require_runtime \<and> snapshots = [] \<and> \<not> list_ex (\<lambda>(rid, row). contains_sub ''/subscription/'' rid) rows
      then Inl (Unavailable ''runtime_evidence_unavailable'')
      else
        let ev0 = (case runtime of Some e \<Rightarrow> e | None \<Rightarrow> no_evidence);
            ev = (if snapshots = [] then ev0 else merged ev0 (subscription_observations ttl now snapshots));
            by_id = inventory_by_id rows in
        Inr \<lparr> am_records = map (\<lambda>rid. judge pa conns ev now rid (the (map_of by_id rid))) (sort (dict_keys by_id)),
          am_generated_at = now,
          am_sources = py_dedupe (inventory_source # ad_connections_source pa # ev_sources ev),
          am_controller_identity = CONTROLLER_IDENTITY_UNKNOWN, am_narrowing = [], am_runtime_consulted = consulted ev \<rparr>)"

definition record_for :: "admission_record list \<Rightarrow> route_id \<Rightarrow> admission_record option" where
  "record_for records route = List.find (\<lambda>r. ar_route_id r = canonical_route_id route) records"

definition admitted_ids :: "admission_record list \<Rightarrow> route_id list" where
  "admitted_ids records = map ar_route_id (filter ar_admitted records)"

definition in_admitted :: "admission_record list \<Rightarrow> route_id \<Rightarrow> bool" where
  "in_admitted records route \<longleftrightarrow> canonical_route_id route \<in> set (admitted_ids records)"

definition proven_healthy :: "admission_record list \<Rightarrow> route_id \<Rightarrow> bool" where
  "proven_healthy records route \<longleftrightarrow>
     (case record_for records route of None \<Rightarrow> False | Some r \<Rightarrow> ar_admitted r \<and> ar_health r = ''healthy'')"

definition ar_confirmed :: "admission_record \<Rightarrow> bool" where
  "ar_confirmed r \<longleftrightarrow> ar_confirmation_source r \<noteq> None"

definition launchable :: "admission_record list \<Rightarrow> route_id \<Rightarrow> bool" where
  "launchable records route \<longleftrightarrow>
     (case record_for records route of
        None \<Rightarrow> False
      | Some r \<Rightarrow> ar_admitted r \<and> \<not> (ar_reason r = ''subscription_unknown'' \<and> \<not> ar_confirmed r) \<and>
          (ar_health r = ''healthy'' \<or> ar_confirmed r))"

text \<open>The record that explains an exclusion.\<close>

definition first_failure :: "rat \<Rightarrow> admission_record list \<Rightarrow> route_id \<Rightarrow> admission_record" where
  "first_failure generated_at records route =
     (case record_for records route of
        Some r \<Rightarrow> r
      | None \<Rightarrow> dropped (canonical_route_id route) (route_provider_prefix route) Ad_DISCOVERED ''absent_from_live_inventory''
          ''admission'' (Some (Some generated_at)) ''unknown'' None None)"

definition require_launchable :: "string \<Rightarrow> admission_record list \<Rightarrow> route_id \<Rightarrow> admission_error + admission_record" where
  "require_launchable surface records route =
     (if \<not> launchable records route then Inl (BypassError surface [canonical_route_id route])
      else (case record_for records route of
              Some r \<Rightarrow> Inr r | None \<Rightarrow> Inl (BypassError surface [canonical_route_id route])))"

definition require_subset :: "string \<Rightarrow> admission_record list \<Rightarrow> route_id list \<Rightarrow> admission_error + unit" where
  "require_subset surface records routes =
     (let outside = filter (\<lambda>r. \<not> in_admitted records r) routes in
      if outside = [] then Inr () else Inl (BypassError surface (sorted_set outside)))"

datatype launch_basis = Proven_healthy | Live_confirmation | No_basis

text \<open>Basis, source and time of the authority to launch.\<close>

definition launch_authority :: "rat \<Rightarrow> admission_record list \<Rightarrow> route_id \<Rightarrow> launch_basis \<times> string \<times> stamp" where
  "launch_authority generated_at records route =
     (let r = first_failure generated_at records route in
      if ar_admitted r \<and> ar_health r = ''healthy'' then (Proven_healthy, ar_source r, ar_observed_at r)
      else case (ar_admitted r, ar_confirmation_source r) of
        (True, Some source) \<Rightarrow> (Live_confirmation, source, map_option Some (ar_confirmed_at r))
      | _ \<Rightarrow> (No_basis, ar_source r, ar_observed_at r))"


subsection \<open>Deriving admitted sets\<close>

definition stage_value :: "admission_stage \<Rightarrow> string" where
  "stage_value s = (case s of
      Ad_DISCOVERED \<Rightarrow> ''DISCOVERED'' | Ad_ENTITLED \<Rightarrow> ''ENTITLED'' | Ad_HEALTHY \<Rightarrow> ''HEALTHY'' | Ad_AVAILABLE \<Rightarrow> ''AVAILABLE''
    | Ad_CAPABILITY \<Rightarrow> ''CAPABILITY'' | Ad_POLICY \<Rightarrow> ''POLICY'' | Ad_WORKER_SCOPE \<Rightarrow> ''WORKER_SCOPE''
    | Ad_CONTROLLER_SCOPE \<Rightarrow> ''CONTROLLER_SCOPE'' | Ad_CONTROLLER_EXCLUDED \<Rightarrow> ''CONTROLLER_EXCLUDED''
    | Ad_DOWNSTREAM \<Rightarrow> ''DOWNSTREAM'')"

definition derive :: "admission_record list \<Rightarrow> string option \<Rightarrow> string option \<Rightarrow> admitted_set \<Rightarrow> admission_error + admitted_set" where
  "derive records step controller s =
     (let foreign = filter (\<lambda>i. i \<notin> set (admitted_ids (am_records s))) (admitted_ids records) in
      if foreign \<noteq> [] then Inl (BypassError ''AdmittedSet._derive'' (sorted_set foreign))
      else Inr (s \<lparr> am_records := records,
        am_controller_identity := (case controller of Some c \<Rightarrow> text_or (am_controller_identity s) c | None \<Rightarrow> am_controller_identity s),
        am_narrowing := am_narrowing s @ (case step of Some x \<Rightarrow> [x] | None \<Rightarrow> []) \<rparr>))"

definition confirm_record :: "route_id \<Rightarrow> bool \<Rightarrow> string \<Rightarrow> rat \<Rightarrow> string \<Rightarrow> admission_record \<Rightarrow> admission_record" where
  "confirm_record route healthy source observed category r =
     (if ar_route_id r \<noteq> canonical_route_id route \<or> \<not> ar_admitted r then r
      else if healthy then r \<lparr> ar_confirmation_source := Some source, ar_confirmed_at := Some observed \<rparr>
      else r \<lparr> ar_admitted := False, ar_first_failed_stage := Some Ad_HEALTHY, ar_reason := text_or ''confirmation_failed'' category,
        ar_source := source, ar_observed_at := Some (Some observed),
        ar_health := state_for_category (text_or ''unhealthy'' category) \<rparr>)"

definition record_confirmation ::
  "route_id \<Rightarrow> bool \<Rightarrow> string \<Rightarrow> rat \<Rightarrow> string \<Rightarrow> admitted_set \<Rightarrow> admission_error + admitted_set" where
  "record_confirmation route healthy source observed category s =
     derive (map (confirm_record route healthy source observed category) (am_records s))
       (Some (''CONFIRMATION:'' @ canonical_route_id route @ '':'' @
         (if healthy then ''confirmed'' else ''failed:'' @ text_or ''unhealthy'' category) @ ''@'' @ source)) None s"

definition narrow_record :: "admission_stage \<Rightarrow> string \<Rightarrow> (route_id \<Rightarrow> bool) \<Rightarrow> string \<Rightarrow> admission_record \<Rightarrow> admission_record" where
  "narrow_record stage reason keep source r =
     (if ar_admitted r \<and> \<not> keep (ar_route_id r)
      then r \<lparr> ar_admitted := False, ar_first_failed_stage := Some stage, ar_reason := reason, ar_source := text_or (ar_source r) source \<rparr>
      else r)"

definition narrow ::
  "admission_stage \<Rightarrow> string \<Rightarrow> (route_id \<Rightarrow> bool) \<Rightarrow> string \<Rightarrow> admitted_set \<Rightarrow> admission_error + admitted_set" where
  "narrow stage reason keep source s =
     derive (map (narrow_record stage reason keep source) (am_records s)) (Some (stage_value stage @ '':'' @ reason)) None s"

definition exclude :: "route_id list \<Rightarrow> admission_stage \<Rightarrow> string \<Rightarrow> string \<Rightarrow> admitted_set \<Rightarrow> admission_error + admitted_set" where
  "exclude routes stage reason source =
     narrow stage reason (\<lambda>rid. rid \<notin> set (map canonical_route_id (filter (\<lambda>r. r \<noteq> []) routes))) source"

text \<open>A bare family matches up to its slash.\<close>

definition scope_prefixes :: "string list \<Rightarrow> string list" where
  "scope_prefixes cleaned =
     map (\<lambda>c. if CHR ''/'' \<in> set c then c else c @ ''/'') (filter (\<lambda>c. c \<noteq> []) (map canonical_route_id cleaned))"

definition restrict_scope :: "admission_stage \<Rightarrow> string \<Rightarrow> string \<Rightarrow> string list \<Rightarrow> admitted_set \<Rightarrow> admission_error + admitted_set" where
  "restrict_scope stage reason source names s =
     (let cleaned = filter (\<lambda>p. p \<noteq> []) (map py_strip names) in
      if cleaned = [] then Inr s
      else narrow stage reason (\<lambda>rid. list_ex (\<lambda>p. prefix p rid) (scope_prefixes cleaned)) source s)"

definition restrict_prefixes :: "string list \<Rightarrow> admitted_set \<Rightarrow> admission_error + admitted_set" where
  "restrict_prefixes = restrict_scope Ad_WORKER_SCOPE ''outside_worker_route_prefix'' ''worker_scope''"

definition restrict_controller_scope :: "string list \<Rightarrow> admitted_set \<Rightarrow> admission_error + admitted_set" where
  "restrict_controller_scope = restrict_scope Ad_CONTROLLER_SCOPE ''outside_controller_route_prefix'' ''controller_scope''"

definition restrict_families :: "string list \<Rightarrow> admitted_set \<Rightarrow> admission_error + admitted_set" where
  "restrict_families families s =
     (let wanted = map (\<lambda>f. py_lower (py_strip f)) (filter (\<lambda>f. py_strip f \<noteq> []) families) in
      if wanted = [] then Inr s
      else narrow Ad_WORKER_SCOPE ''outside_provider_family'' (\<lambda>rid. route_provider_prefix rid \<in> set wanted) ''worker_scope'' s)"

definition exclude_controller :: "string option \<Rightarrow> admitted_set \<Rightarrow> admission_error + admitted_set" where
  "exclude_controller identity s =
     (case identity of
        Some name \<Rightarrow>
          if py_strip name = [] then
            derive (am_records s) (Some ''CONTROLLER_EXCLUDED:identity_unknown'') (Some CONTROLLER_IDENTITY_UNKNOWN) s
          else
            bind_res (exclude [canonical_route_id name] Ad_CONTROLLER_EXCLUDED ''active_controller_identity'' ''controller_identity'' s) (\<lambda>s'.
            derive (am_records s') None (Some (canonical_route_id name)) s')
      | None \<Rightarrow> derive (am_records s) (Some ''CONTROLLER_EXCLUDED:identity_unknown'') (Some CONTROLLER_IDENTITY_UNKNOWN) s)"


subsection \<open>Sequences of derivations\<close>

text \<open>The operations that derive an admitted set from another one.\<close>

datatype admission_op =
    Op_confirm route_id bool string rat string
  | Op_narrow admission_stage string "route_id \<Rightarrow> bool" string
  | Op_exclude "route_id list" admission_stage string string
  | Op_prefixes "string list"
  | Op_controller_scope "string list"
  | Op_families "string list"
  | Op_exclude_controller "string option"

fun derive_with :: "admission_op \<Rightarrow> admitted_set \<Rightarrow> admission_error + admitted_set" where
  "derive_with (Op_confirm route healthy source observed category) s = record_confirmation route healthy source observed category s"
| "derive_with (Op_narrow stage reason keep source) s = narrow stage reason keep source s"
| "derive_with (Op_exclude routes stage reason source) s = exclude routes stage reason source s"
| "derive_with (Op_prefixes names) s = restrict_prefixes names s"
| "derive_with (Op_controller_scope names) s = restrict_controller_scope names s"
| "derive_with (Op_families names) s = restrict_families names s"
| "derive_with (Op_exclude_controller identity) s = exclude_controller identity s"

fun derive_all :: "admission_op list \<Rightarrow> admitted_set \<Rightarrow> admission_error + admitted_set" where
  "derive_all [] s = Inr s"
| "derive_all (x # xs) s = bind_res (derive_with x s) (derive_all xs)"


subsection \<open>Changing records one by one\<close>

text \<open>What all derivations have in common: the id of a record stays, and a dropped record stays as it is.\<close>

locale narrowing =
  fixes change :: "'op \<Rightarrow> admission_record \<Rightarrow> admission_record"
  assumes keeps_id: "ar_route_id (change x r) = ar_route_id r"
    and keeps_dropped: "\<not> ar_admitted r \<Longrightarrow> change x r = r"
begin

lemma fold_keeps_id: "ar_route_id (fold change xs r) = ar_route_id r"
  by (induction xs arbitrary: r) (simp_all add: keeps_id)

lemma fold_keeps_dropped: "\<not> ar_admitted r \<Longrightarrow> fold change xs r = r"
  by (induction xs) (simp_all add: keeps_dropped)

lemma fold_admitted: "ar_admitted (fold change xs r) \<Longrightarrow> ar_admitted r"
  by (metis fold_keeps_dropped)

lemma map_ids: "map ar_route_id (map (fold change xs) records) = map ar_route_id records"
  by (simp add: fold_keeps_id)

lemma fold_admitted_ids: "set (admitted_ids (map (fold change xs) records)) \<subseteq> set (admitted_ids records)"
  by (auto simp: admitted_ids_def fold_keeps_id dest: fold_admitted)

lemma fold_record_for:
  "record_for (map (fold change xs) records) route = map_option (fold change xs) (record_for records route)"
  unfolding record_for_def by (induction records) (simp_all add: fold_keeps_id)

lemma change_admitted_ids: "set (admitted_ids (map (change x) records)) \<subseteq> set (admitted_ids records)"
  using fold_admitted_ids [of "[x]"] by simp

lemma change_record_for: "record_for (map (change x) records) route = map_option (change x) (record_for records route)"
  using fold_record_for [of "[x]"] by simp

lemma derive_changed:
  "\<exists>s'. derive (map (change x) (am_records s)) step controller s = Inr s' \<and> am_records s' = map (change x) (am_records s) \<and>
     am_generated_at s' = am_generated_at s \<and> am_sources s' = am_sources s \<and> am_runtime_consulted s' = am_runtime_consulted s"
  using change_admitted_ids [of x "am_records s"] by (auto simp: derive_def Let_def filter_empty_conv)

end

definition narrowed :: "admission_stage \<times> string \<times> (route_id \<Rightarrow> bool) \<times> string \<Rightarrow> admission_record \<Rightarrow> admission_record" where
  "narrowed = (\<lambda>(stage, reason, keep, source). narrow_record stage reason keep source)"

definition confirmed :: "route_id \<times> bool \<times> string \<times> rat \<times> string \<Rightarrow> admission_record \<Rightarrow> admission_record" where
  "confirmed = (\<lambda>(route, healthy, source, observed, category). confirm_record route healthy source observed category)"

interpretation nr: narrowing narrowed
  by unfold_locales (auto simp: narrowed_def narrow_record_def)

interpretation cr: narrowing confirmed
  by unfold_locales (auto simp: confirmed_def confirm_record_def)

text \<open>What an operation does to each record.\<close>

definition scoped_record :: "admission_stage \<Rightarrow> string \<Rightarrow> string \<Rightarrow> string list \<Rightarrow> admission_record \<Rightarrow> admission_record" where
  "scoped_record stage reason source names =
     (let cleaned = filter (\<lambda>p. p \<noteq> []) (map py_strip names) in
      if cleaned = [] then id else narrow_record stage reason (\<lambda>rid. list_ex (\<lambda>p. prefix p rid) (scope_prefixes cleaned)) source)"

fun op_record :: "admission_op \<Rightarrow> admission_record \<Rightarrow> admission_record" where
  "op_record (Op_confirm route healthy source observed category) = confirm_record route healthy source observed category"
| "op_record (Op_narrow stage reason keep source) = narrow_record stage reason keep source"
| "op_record (Op_exclude routes stage reason source) =
     narrow_record stage reason (\<lambda>rid. rid \<notin> set (map canonical_route_id (filter (\<lambda>r. r \<noteq> []) routes))) source"
| "op_record (Op_prefixes names) = scoped_record Ad_WORKER_SCOPE ''outside_worker_route_prefix'' ''worker_scope'' names"
| "op_record (Op_controller_scope names) = scoped_record Ad_CONTROLLER_SCOPE ''outside_controller_route_prefix'' ''controller_scope'' names"
| "op_record (Op_families families) =
     (let wanted = map (\<lambda>f. py_lower (py_strip f)) (filter (\<lambda>f. py_strip f \<noteq> []) families) in
      if wanted = [] then id
      else narrow_record Ad_WORKER_SCOPE ''outside_provider_family'' (\<lambda>rid. route_provider_prefix rid \<in> set wanted) ''worker_scope'')"
| "op_record (Op_exclude_controller identity) =
     (case identity of
        Some name \<Rightarrow>
          if py_strip name = [] then id
          else narrow_record Ad_CONTROLLER_EXCLUDED ''active_controller_identity''
            (\<lambda>rid. rid \<notin> set (map canonical_route_id (filter (\<lambda>r. r \<noteq> []) [canonical_route_id name]))) ''controller_identity''
      | None \<Rightarrow> id)"

lemma narrow_record_id: "ar_route_id (narrow_record stage reason keep source r) = ar_route_id r"
  by (simp add: narrow_record_def)

lemma narrow_record_dropped: "\<not> ar_admitted r \<Longrightarrow> narrow_record stage reason keep source r = r"
  by (simp add: narrow_record_def)

interpretation ops: narrowing op_record
proof
  show "ar_route_id (op_record x r) = ar_route_id r" for x r
    by (cases x) (auto simp: narrow_record_id scoped_record_def confirm_record_def Let_def split: option.split)
  show "op_record x r = r" if "\<not> ar_admitted r" for x r
    using that by (cases x) (auto simp: narrow_record_dropped scoped_record_def confirm_record_def Let_def split: option.split)
qed

text \<open>The guard of \<open>derive\<close> never fails: an operation maps \<open>op_record\<close> over the records.\<close>

definition same_origin :: "admitted_set \<Rightarrow> admitted_set \<Rightarrow> bool" where
  "same_origin s t \<longleftrightarrow> am_generated_at t = am_generated_at s \<and> am_sources t = am_sources s \<and>
     am_runtime_consulted t = am_runtime_consulted s"

lemma narrow_result:
  "\<exists>s'. narrow stage reason keep source s = Inr s' \<and> am_records s' = map (narrow_record stage reason keep source) (am_records s) \<and>
     same_origin s s'"
  using nr.derive_changed [of "(stage, reason, keep, source)" s]
  by (simp add: narrow_def narrowed_def same_origin_def)

lemma derive_same:
  "\<exists>s'. derive (am_records s) step controller s = Inr s' \<and> am_records s' = am_records s \<and> same_origin s s'"
  by (auto simp: derive_def Let_def filter_empty_conv same_origin_def)

lemma restrict_scope_result:
  "\<exists>s'. restrict_scope stage reason source names s = Inr s' \<and>
     am_records s' = map (scoped_record stage reason source names) (am_records s) \<and> same_origin s s'"
  using narrow_result by (auto simp: restrict_scope_def scoped_record_def Let_def same_origin_def)

lemma confirmation_result:
  "\<exists>s'. record_confirmation route healthy source observed category s = Inr s' \<and>
     am_records s' = map (confirm_record route healthy source observed category) (am_records s) \<and> same_origin s s'"
  using cr.derive_changed [of "(route, healthy, source, observed, category)" s]
  by (simp add: record_confirmation_def confirmed_def same_origin_def)

lemma exclude_controller_result:
  "\<exists>s'. exclude_controller identity s = Inr s' \<and> am_records s' = map (op_record (Op_exclude_controller identity)) (am_records s) \<and>
     same_origin s s'"
proof (cases "identity = None \<or> (\<exists>name. identity = Some name \<and> py_strip name = [])")
  case True
  then show ?thesis using derive_same by (auto simp: exclude_controller_def)
next
  case False
  then obtain name where n: "identity = Some name" "py_strip name \<noteq> []" by auto
  obtain s1 where s1: "exclude [canonical_route_id name] Ad_CONTROLLER_EXCLUDED ''active_controller_identity'' ''controller_identity'' s = Inr s1"
    "am_records s1 = map (op_record (Op_exclude_controller identity)) (am_records s)" "same_origin s s1"
    using narrow_result n unfolding exclude_def by fastforce
  then show ?thesis
    using derive_same [of s1 None "Some (canonical_route_id name)"] n by (auto simp: exclude_controller_def same_origin_def)
qed

lemma derive_with_result:
  "\<exists>s'. derive_with x s = Inr s' \<and> am_records s' = map (op_record x) (am_records s) \<and> same_origin s s'"
proof (cases x)
  case Op_families
  then show ?thesis using narrow_result by (auto simp: restrict_families_def Let_def same_origin_def)
qed (use narrow_result restrict_scope_result confirmation_result exclude_controller_result in
  \<open>simp_all add: exclude_def restrict_prefixes_def restrict_controller_scope_def del: op_record.simps(7)\<close>,
  (simp only: op_record.simps)?)

lemma derive_all_result:
  "\<exists>s'. derive_all xs s = Inr s' \<and> am_records s' = map (fold op_record xs) (am_records s) \<and> same_origin s s'"
proof (induction xs arbitrary: s)
  case Nil
  show ?case by (simp add: same_origin_def)
next
  case (Cons x xs)
  obtain s1 where s1: "derive_with x s = Inr s1" "am_records s1 = map (op_record x) (am_records s)" "same_origin s s1"
    using derive_with_result by blast
  with Cons.IH [of s1] show ?case by (auto simp: same_origin_def)
qed

lemma derive_all_records: "derive_all xs s = Inr s' \<Longrightarrow> am_records s' = map (fold op_record xs) (am_records s)"
  using derive_all_result [of xs s] by auto


subsection \<open>What the judgement of a route rests on\<close>

lemma record_fields [simp]:
  "ar_route_id (dropped route provider stage reason source observed health until reset) = route"
  "ar_route_id (accepted route provider reason source observed health until reset) = route"
  "ar_admitted (dropped route provider stage reason source observed health until reset) = False"
  "ar_admitted (accepted route provider reason source observed health until reset) = True"
  "ar_health (accepted route provider reason source observed health until reset) = health"
  "ar_reason (accepted route provider reason source observed health until reset) = reason"
  "\<not> ar_confirmed (dropped route provider stage reason source observed health until reset)"
  "\<not> ar_confirmed (accepted route provider reason source observed health until reset)"
  by (simp_all add: dropped_def accepted_def ar_confirmed_def)

lemma judged_healthy_fields [simp]:
  "ar_route_id (judged_healthy pa route provider obs stamp) = route"
  "ar_admitted (judged_healthy pa route provider obs stamp)"
  "\<not> ar_confirmed (judged_healthy pa route provider obs stamp)"
  "ar_health (judged_healthy pa route provider obs stamp) = (if \<exists>x\<in>set obs. ob_state x = ''healthy'' then ''healthy'' else ''unknown'')"
  "ar_reason (judged_healthy pa route provider obs stamp) \<noteq> ''subscription_unknown''"
  by (auto simp: judged_healthy_def Let_def filter_empty_conv filter_eq_Cons_iff split: list.split)

definition against :: "observation list \<Rightarrow> observation list \<Rightarrow> bool" where
  "against route_obs provider_obs \<longleftrightarrow>
     (\<exists>x\<in>set route_obs. ob_state x \<in> {''unauthorized'', ''unhealthy'', ''exhausted'', ''cooldown''}) \<or>
     (\<exists>x\<in>set provider_obs. ob_state x \<in> {''unauthorized'', ''exhausted'', ''cooldown''})"

lemma observed_failure_None_iff: "observed_failure route provider ro po = None \<longleftrightarrow> \<not> against ro po"
proof -
  have "observed_failure route provider ro po = None \<longleftrightarrow>
      List.find (\<lambda>x. ob_state x = ''unauthorized'') (ro @ po) = None \<and> List.find (\<lambda>x. ob_state x = ''unhealthy'') ro = None \<and>
      List.find (\<lambda>x. ob_state x \<in> {''exhausted'', ''cooldown''}) (ro @ po) = None"
    unfolding observed_failure_def by (simp split: option.split)
  then show ?thesis unfolding find_None_iff against_def by auto
qed

lemma observed_failure_fields:
  assumes "observed_failure route provider ro po = Some r"
  shows "ar_route_id r = route" "\<not> ar_admitted r" "\<not> ar_confirmed r"
  using assms by (auto simp: observed_failure_def split: option.splits)

definition fits :: "admission_params \<Rightarrow> inventory_row \<Rightarrow> route_id \<Rightarrow> bool" where
  "fits pa row route \<longleftrightarrow>
     (\<forall>needed\<in>set (ad_required pa). has_capability row needed) \<and>
     (ad_required pa \<noteq> [] \<or> ad_min_context pa \<noteq> 0 \<longrightarrow> ad_min_context pa \<le> context_of row) \<and>
     (case ad_deny pa route of None \<Rightarrow> True | Some reason \<Rightarrow> reason = [])"

lemma judge_observed_fields [simp]:
  "ar_route_id (judge_observed pa route provider row ro po now) = route"
  "\<not> ar_confirmed (judge_observed pa route provider row ro po now)"
  unfolding judge_observed_def Let_def by (auto split: option.split dest: observed_failure_fields)

lemma fits_iff:
  "fits pa row route \<longleftrightarrow>
     List.find (\<lambda>needed. \<not> has_capability row needed) (sorted_set (ad_required pa)) = None \<and>
     \<not> (context_of row < ad_min_context pa \<and> (ad_required pa \<noteq> [] \<or> ad_min_context pa \<noteq> 0)) \<and>
     (case ad_deny pa route of None \<Rightarrow> True | Some reason \<Rightarrow> reason = [])"
  unfolding fits_def find_None_iff set_sorted_set not_less [symmetric] by auto

lemma judge_observed_unknown:
  assumes "\<not> against ro po" "\<exists>x\<in>set ro \<union> set po. unknown_headroom x"
  shows "ar_admitted (judge_observed pa route provider row ro po now)"
    "ar_health (judge_observed pa route provider row ro po now) = ''unknown''"
    "ar_reason (judge_observed pa route provider row ro po now) = ''subscription_unknown''"
proof -
  from assms(2) have "List.find unknown_headroom (ro @ po) \<noteq> None" by (auto simp: find_None_iff)
  with assms(1) show "ar_admitted (judge_observed pa route provider row ro po now)"
    "ar_health (judge_observed pa route provider row ro po now) = ''unknown''"
    "ar_reason (judge_observed pa route provider row ro po now) = ''subscription_unknown''"
    by (auto simp: judge_observed_def Let_def simp flip: observed_failure_None_iff [of route provider])
qed

lemma judge_observed_fits:
  assumes "\<not> against ro po" "\<not> (\<exists>x\<in>set ro \<union> set po. unknown_headroom x)"
  shows "fits pa row route \<Longrightarrow>
      judge_observed pa route provider row ro po now = judged_healthy pa route provider (ro @ po) (Some (Some now))"
    and "\<not> fits pa row route \<Longrightarrow> \<not> ar_admitted (judge_observed pa route provider row ro po now)"
proof -
  have "List.find unknown_headroom (ro @ po) = None" using assms(2) by (auto simp: find_None_iff)
  moreover have "observed_failure route provider ro po = None" using assms(1) by (simp add: observed_failure_None_iff)
  ultimately show "fits pa row route \<Longrightarrow>
      judge_observed pa route provider row ro po now = judged_healthy pa route provider (ro @ po) (Some (Some now))"
    and "\<not> fits pa row route \<Longrightarrow> \<not> ar_admitted (judge_observed pa route provider row ro po now)"
    unfolding fits_iff judge_observed_def Let_def by (auto split: option.split)
qed

lemma judge_observed_admitted_iff:
  "ar_admitted (judge_observed pa route provider row ro po now) \<longleftrightarrow>
     \<not> against ro po \<and> ((\<exists>x\<in>set ro \<union> set po. unknown_headroom x) \<or> fits pa row route)"
proof (cases "against ro po")
  case True
  then obtain r where "observed_failure route provider ro po = Some r" using observed_failure_None_iff by blast
  with True show ?thesis by (simp add: judge_observed_def observed_failure_fields)
next
  case False
  with judge_observed_unknown judge_observed_fits show ?thesis by (metis judged_healthy_fields(2))
qed

lemma judge_observed_healthy:
  assumes "ar_admitted (judge_observed pa route provider row ro po now)"
    and "ar_health (judge_observed pa route provider row ro po now) = ''healthy''"
  shows "(\<exists>x\<in>set ro \<union> set po. ob_state x = ''healthy'') \<and> fits pa row route"
proof -
  from assms(1) have clear: "\<not> against ro po" by (simp add: judge_observed_admitted_iff)
  have known: "\<not> (\<exists>x\<in>set ro \<union> set po. unknown_headroom x)"
  proof
    assume "\<exists>x\<in>set ro \<union> set po. unknown_headroom x"
    from judge_observed_unknown(2) [OF clear this] assms(2) show False by simp
  qed
  with assms(1) have "fits pa row route" by (simp add: judge_observed_admitted_iff)
  with assms(2) show ?thesis by (auto simp: judge_observed_fits [OF clear known] split: if_splits)
qed

lemma judge_route_id [simp]: "ar_route_id (judge pa cs ev now route row) = route"
  by (auto simp: judge_def Let_def split: list.split prod.split)

lemma judge_unconfirmed [simp]: "\<not> ar_confirmed (judge pa cs ev now route row)"
  by (auto simp: judge_def Let_def split: list.split prod.split)

text \<open>The active connections of a route, and the requirements on them.\<close>

definition active_connections :: "connection list \<Rightarrow> route_id \<Rightarrow> inventory_row \<Rightarrow> connection list" where
  "active_connections cs route row = filter cn_is_active (row_connections cs route row)"

definition well_connected :: "connection list \<Rightarrow> rat \<Rightarrow> route_id \<Rightarrow> inventory_row \<Rightarrow> bool" where
  "well_connected cs now route row \<longleftrightarrow>
     \<not> is_opaque route \<and> owner_of_row row \<noteq> ''combo'' \<and>
     (\<exists>c\<in>set (active_connections cs route row). test_status c \<notin> set BAD_TEST_STATUS) \<and>
     (\<forall>c\<in>set (active_connections cs route row). live_window c route now = None)"

definition observations_of ::
  "admission_params \<Rightarrow> connection list \<Rightarrow> evidence \<Rightarrow> rat \<Rightarrow> route_id \<Rightarrow> inventory_row \<Rightarrow> observation list \<times> observation list" where
  "observations_of pa cs ev now route row =
     judged_observations pa ev route row (owner_of_row row) (route_provider_prefix route) (judged_provider route row)
       (active_connections cs route row) now"

lemma map_filter_Nil_iff: "List.map_filter f xs = [] \<longleftrightarrow> (\<forall>x\<in>set xs. f x = None)"
  by (auto simp: map_filter_def filter_empty_conv)

lemma judge_connected:
  assumes "well_connected cs now route row"
  shows "judge pa cs ev now route row =
    judge_observed pa route (judged_provider route row) row (fst (observations_of pa cs ev now route row))
      (snd (observations_of pa cs ev now route row)) now"
proof -
  from assms have "filter cn_is_active (row_connections cs route row) \<noteq> []"
    "\<not> test_status ` set (filter cn_is_active (row_connections cs route row)) \<subseteq> set BAD_TEST_STATUS"
    "List.map_filter (\<lambda>c. live_window c route now) (filter cn_is_active (row_connections cs route row)) = []"
    by (auto simp: well_connected_def active_connections_def map_filter_Nil_iff filter_empty_conv)
  with assms show ?thesis
    by (simp add: judge_def well_connected_def observations_of_def active_connections_def split_def Let_def del: set_filter)
qed

lemma judge_not_connected:
  assumes "\<not> well_connected cs now route row"
  shows "\<not> ar_admitted (judge pa cs ev now route row)"
proof -
  let ?a = "filter cn_is_active (row_connections cs route row)"
  from assms consider "is_opaque route \<or> owner_of_row row = ''combo''" | "?a = []"
    | "test_status ` set ?a \<subseteq> set BAD_TEST_STATUS"
    | "List.map_filter (\<lambda>c. live_window c route now) ?a \<noteq> []"
    unfolding well_connected_def active_connections_def map_filter_Nil_iff by blast
  then show ?thesis
    by cases (auto simp: judge_def Let_def simp del: set_filter split: list.split)
qed


lemma judge_admitted_iff:
  "ar_admitted (judge pa cs ev now route row) \<longleftrightarrow>
     well_connected cs now route row \<and>
     (let (ro, po) = observations_of pa cs ev now route row in
      \<not> against ro po \<and> ((\<exists>x\<in>set ro \<union> set po. unknown_headroom x) \<or> fits pa row route))"
  by (cases "well_connected cs now route row")
    (simp_all add: judge_connected judge_not_connected judge_observed_admitted_iff split_def Let_def)

lemma judge_admitted_ex:
  "ar_admitted (judge pa cs ev now route row) \<longleftrightarrow>
     (\<exists>ro po. well_connected cs now route row \<and> observations_of pa cs ev now route row = (ro, po) \<and> \<not> against ro po \<and>
        ((\<exists>x\<in>set ro \<union> set po. unknown_headroom x) \<or> fits pa row route))"
  unfolding judge_admitted_iff by (cases "observations_of pa cs ev now route row") simp

lemma judge_healthy:
  assumes "ar_admitted (judge pa cs ev now route row)" "ar_health (judge pa cs ev now route row) = ''healthy''"
  obtains x where "x \<in> set (fst (observations_of pa cs ev now route row)) \<union> set (snd (observations_of pa cs ev now route row))"
    "ob_state x = ''healthy''" "fits pa row route"
proof -
  from assms(1) judge_not_connected have "well_connected cs now route row" by blast
  with assms judge_observed_healthy that show ?thesis unfolding judge_connected [OF \<open>well_connected cs now route row\<close>] by blast
qed


subsection \<open>Which observations are judged\<close>

lemma gateway_observation_state: "gateway_observation provider now success c = Some x \<Longrightarrow> ob_state x = ''cooldown''"
  by (auto simp: gateway_observation_def Let_def)

lemma gateway_states:
  "x \<in> set (List.map_filter (gateway_observation provider now success) cs) \<Longrightarrow> ob_state x = ''cooldown''"
  by (auto simp: map_filter_def dest: gateway_observation_state)

lemma suppress_siblings_subset: "set (suppress_siblings b route now obs) \<subseteq> set obs"
  by (auto simp: suppress_siblings_def Let_def)

lemma judged_positive:
  assumes "x \<in> set (fst (observations_of pa cs ev now route row)) \<union> set (snd (observations_of pa cs ev now route row))"
    "ob_state x \<noteq> ''cooldown''"
  shows "x \<in> set (ev_observations ev)"
  using assms suppress_siblings_subset
  by (fastforce simp: observations_of_def judged_observations_def Let_def route_observations_def for_key_def dest: gateway_states)

text \<open>Evidence against the exact route is always judged; an authorization failure of its provider is never suppressed.\<close>

lemma route_evidence_judged:
  assumes "x \<in> set (ev_observations ev)" "ob_key x = ''route:'' @ route" "ob_state x \<noteq> ''healthy''"
  shows "x \<in> set (fst (observations_of pa cs ev now route row))"
  using assms by (simp add: observations_of_def judged_observations_def Let_def route_observations_def for_key_def)

lemma direct_evidence_drops:
  assumes "x \<in> set (ev_observations ev)" "ob_key x = ''route:'' @ route"
    "ob_state x \<in> {''unauthorized'', ''unhealthy'', ''exhausted'', ''cooldown''}"
  shows "\<not> ar_admitted (judge pa cs ev now route row)"
proof -
  from assms(3) have "ob_state x \<noteq> ''healthy''" by auto
  then have "x \<in> set (fst (observations_of pa cs ev now route row))" by (rule route_evidence_judged [OF assms(1,2)])
  with assms(3) have "against (fst (observations_of pa cs ev now route row)) (snd (observations_of pa cs ev now route row))"
    unfolding against_def by blast
  then show ?thesis by (simp add: judge_admitted_iff split_def Let_def)
qed


subsection \<open>The inventory and the admitted set\<close>

lemma inventory_step:
  fixes d :: "(route_id, inventory_row) dict"
  assumes "distinct (map fst d)"
  defines "f \<equiv> \<lambda>d (rid, row). if py_strip rid = [] \<or> canonical_route_id rid \<in> set (dict_keys d) then d
       else d @ [(canonical_route_id rid, row)]"
  shows "distinct (map fst (foldl f d rows)) \<and>
    set (map fst (foldl f d rows)) = set (map fst d) \<union> {canonical_route_id rid | rid row. (rid, row) \<in> set rows \<and> py_strip rid \<noteq> []} \<and>
    set (foldl f d rows) \<subseteq> set d \<union> {(canonical_route_id rid, row) | rid row. (rid, row) \<in> set rows}"
  using assms(1)
proof (induction rows arbitrary: d)
  case (Cons x rows)
  obtain rid row where x: "x = (rid, row)" by fastforce
  have d: "distinct (map fst (f d x))" using Cons.prems by (auto simp: f_def x dict_keys_def)
  have keys: "set (map fst (f d x)) = set (map fst d) \<union> {i. py_strip rid \<noteq> [] \<and> i = canonical_route_id rid}"
    by (auto simp: f_def x dict_keys_def)
  have vals: "set (f d x) \<subseteq> set d \<union> {(canonical_route_id rid, row)}" by (auto simp: f_def x dict_keys_def)
  note IH = Cons.IH [OF d]
  have "set (map fst (foldl f (f d x) rows)) =
      set (map fst d) \<union> {canonical_route_id rid | rid row. (rid, row) \<in> set (x # rows) \<and> py_strip rid \<noteq> []}"
    using IH [THEN conjunct2, THEN conjunct1, unfolded keys] unfolding x by (simp only: list.set insert_iff prod.inject) blast
  moreover have "set (foldl f (f d x) rows) \<subseteq> set d \<union> {(canonical_route_id rid, row) | rid row. (rid, row) \<in> set (x # rows)}"
    using IH vals unfolding x by (simp only: list.set insert_iff prod.inject) blast
  ultimately show ?case using IH by (simp only: foldl_Cons)
qed simp

lemma inventory_by_id_facts:
  "distinct (dict_keys (inventory_by_id rows))"
  "set (dict_keys (inventory_by_id rows)) = {canonical_route_id rid | rid row. (rid, row) \<in> set rows \<and> py_strip rid \<noteq> []}"
  "map_of (inventory_by_id rows) route = Some row \<Longrightarrow> \<exists>rid. (rid, row) \<in> set rows \<and> canonical_route_id rid = route"
proof -
  note facts = inventory_step [of "[]" rows, folded inventory_by_id_def, simplified list.simps distinct.simps]
  show "distinct (dict_keys (inventory_by_id rows))"
    unfolding dict_keys_def by (rule facts [OF TrueI, THEN conjunct1])
  show "set (dict_keys (inventory_by_id rows)) = {canonical_route_id rid | rid row. (rid, row) \<in> set rows \<and> py_strip rid \<noteq> []}"
    using facts [OF TrueI, THEN conjunct2, THEN conjunct1] unfolding dict_keys_def by simp
  assume "map_of (inventory_by_id rows) route = Some row"
  with facts [OF TrueI, THEN conjunct2, THEN conjunct2] have "(route, row) \<in> {(canonical_route_id rid, row) | rid row. (rid, row) \<in> set rows}"
    by (auto dest!: map_of_SomeD)
  then show "\<exists>rid. (rid, row) \<in> set rows \<and> canonical_route_id rid = route" by blast
qed

text \<open>The evidence that an admission judges.\<close>

definition all_evidence :: "evidence option \<Rightarrow> capacity_snapshot list \<Rightarrow> rat \<Rightarrow> rat \<Rightarrow> evidence" where
  "all_evidence runtime snapshots ttl now =
     (let ev = (case runtime of Some e \<Rightarrow> e | None \<Rightarrow> no_evidence) in
      if snapshots = [] then ev else merged ev (subscription_observations ttl now snapshots))"

lemma all_evidence_alone: "all_evidence (Some ev) [] ttl now = ev"
  by (simp add: all_evidence_def)

lemma admitE:
  assumes "admit pa inventory_source require_runtime ttl inventory connections runtime snapshots now = Inr s"
  obtains rows conns where "inventory = Some rows" "connections = Some conns"
    "am_records s = map (\<lambda>rid. judge pa conns (all_evidence runtime snapshots ttl now) now rid (the (map_of (inventory_by_id rows) rid)))
       (sort (dict_keys (inventory_by_id rows)))"
proof (rule that)
  show "inventory = Some (the inventory)" "connections = Some (the connections)"
    "am_records s = map (\<lambda>rid. judge pa (the connections) (all_evidence runtime snapshots ttl now) now rid
       (the (map_of (inventory_by_id (the inventory)) rid))) (sort (dict_keys (inventory_by_id (the inventory))))"
    using assms by (auto simp: admit_def all_evidence_def Let_def split: option.splits if_splits)
qed

lemma admit_record:
  assumes "admit pa inventory_source require_runtime ttl inventory connections runtime snapshots now = Inr s" "r \<in> set (am_records s)"
  obtains rows conns row where "inventory = Some rows" "connections = Some conns"
    "map_of (inventory_by_id rows) (ar_route_id r) = Some row"
    "r = judge pa conns (all_evidence runtime snapshots ttl now) now (ar_route_id r) row"
proof -
  obtain rows conns where a: "inventory = Some rows" "connections = Some conns"
    "am_records s = map (\<lambda>rid. judge pa conns (all_evidence runtime snapshots ttl now) now rid (the (map_of (inventory_by_id rows) rid)))
       (sort (dict_keys (inventory_by_id rows)))"
    using assms(1) by (rule admitE)
  with assms(2) obtain rid where rid: "rid \<in> set (dict_keys (inventory_by_id rows))"
    "r = judge pa conns (all_evidence runtime snapshots ttl now) now rid (the (map_of (inventory_by_id rows) rid))" by auto
  then obtain row where "map_of (inventory_by_id rows) rid = Some row"
    by (auto simp: dict_keys_def dest: weak_map_of_SomeI)
  with that [OF a(1,2)] rid show ?thesis by auto
qed

lemma admit_ids:
  assumes "admit pa inventory_source require_runtime ttl inventory connections runtime snapshots now = Inr s"
  shows "distinct (map ar_route_id (am_records s)) \<and> sorted (map ar_route_id (am_records s))"
  using assms by (rule admitE) (simp add: comp_def inventory_by_id_facts(1))

lemma record_for_Some: "record_for records route = Some r \<Longrightarrow> r \<in> set records \<and> ar_route_id r = canonical_route_id route"
  by (auto simp: record_for_def find_Some_iff)

lemma in_admitted_record:
  assumes "distinct (map ar_route_id records)"
  shows "in_admitted records route \<longleftrightarrow> (\<exists>r. record_for records route = Some r \<and> ar_admitted r)"
proof
  assume "in_admitted records route"
  then obtain r where r: "r \<in> set records" "ar_admitted r" "ar_route_id r = canonical_route_id route"
    by (auto simp: in_admitted_def admitted_ids_def)
  then obtain x where x: "record_for records route = Some x"
    by (fastforce simp: record_for_def find_None_iff dest: not_None_eq [THEN iffD1])
  from assms have "inj_on ar_route_id (set records)" by (simp add: distinct_map)
  then have "x = r" by (rule inj_onD) (use r record_for_Some [OF x] in simp_all)
  with x r show "\<exists>r. record_for records route = Some r \<and> ar_admitted r" by simp
next
  assume "\<exists>r. record_for records route = Some r \<and> ar_admitted r"
  then obtain r where "r \<in> set records" "ar_admitted r" "canonical_route_id route = ar_route_id r"
    using record_for_Some by fastforce
  then show "in_admitted records route" by (auto simp: in_admitted_def admitted_ids_def)
qed


subsection \<open>The evidence of the state files\<close>

lemma state_for_category_not_healthy [simp]: "state_for_category c \<noteq> ''healthy''"
  by (simp add: state_for_category_def Let_def)

lemma RuntimeObservation_state [simp]: "ob_state (RuntimeObservation key st category source observed until) = st"
  by (simp add: RuntimeObservation_def)

lemma RuntimeObservation_key [simp]: "ob_key (RuntimeObservation key st category source observed until) = key"
  by (simp add: RuntimeObservation_def)

lemma map_filterE:
  assumes "y \<in> set (List.map_filter f xs)"
  obtains x where "x \<in> set xs" "f x = Some y"
  using assms by (auto simp: map_filter_def)

lemma in_map_filter: "x \<in> set xs \<Longrightarrow> f x = Some y \<Longrightarrow> y \<in> set (List.map_filter f xs)"
  by (force simp: map_filter_def)

lemma file_observations_not_healthy:
  "ladder_health_observation source now rh = Some x \<Longrightarrow> ob_state x \<noteq> ''healthy''"
  "ladder_cooldown_observation source now kc = Some x \<Longrightarrow> ob_state x \<noteq> ''healthy''"
  "worker_observation source now kw = Some x \<Longrightarrow> ob_state x \<noteq> ''healthy''"
  "entry_observation source now re = Some x \<Longrightarrow> ob_state x \<noteq> ''healthy''"
  "scoped_observation source now kd = Some x \<Longrightarrow> ob_state x \<noteq> ''healthy''"
  by (auto simp: ladder_health_observation_def ladder_cooldown_observation_def worker_observation_def entry_observation_def
      scoped_observation_def Let_def split: option.splits if_splits)

lemma default_evidence_not_healthy:
  assumes "x \<in> set (ev_observations (default_runtime_evidence name lf wc hc now))"
  shows "ob_state x \<noteq> ''healthy''"
  using assms
  by (auto simp: default_runtime_evidence_def merged_def evidence_from_ladder_state_def evidence_from_health_cache_def
      evidence_from_at_rest_health_cache_def Let_def elim!: map_filterE dest: file_observations_not_healthy split: option.splits)

lemma default_evidence_of_entry:
  assumes "(route, e) \<in> set (dk_routes d)" "\<not> he_healthy e" "he_until e > now"
  shows "\<exists>x\<in>set (ev_observations (default_runtime_evidence name lf wc (Some d) now)).
    ob_key x = ''route:'' @ canonical_route_id route \<and> ob_state x = state_for_category (he_category e)"
proof -
  obtain x where x: "entry_observation ''at_rest_health_cache:health-cache.json'' now (route, e) = Some x"
    "ob_key x = ''route:'' @ canonical_route_id route" "ob_state x = state_for_category (he_category e)"
    using assms(2,3) by (simp add: entry_observation_def Let_def)
  from assms(1) x(1) have "x \<in> set (List.map_filter (entry_observation ''at_rest_health_cache:health-cache.json'' now) (dk_routes d))"
    by (rule in_map_filter)
  then have "x \<in> set (ev_observations (default_runtime_evidence name lf wc (Some d) now))"
    by (simp add: default_runtime_evidence_def merged_def evidence_from_at_rest_health_cache_def Let_def)
  with x show ?thesis by blast
qed


subsection \<open>Launch authority along derivations\<close>

lemma op_record_launch:
  assumes "ar_admitted (op_record x r)"
  shows "ar_health (op_record x r) = ar_health r"
    and "ar_confirmed (op_record x r) \<Longrightarrow> ar_confirmed r \<or> (\<exists>name source observed category.
      x = Op_confirm name True source observed category \<and> canonical_route_id name = ar_route_id r)"
  using assms
  by (cases x; auto simp: confirm_record_def narrow_record_def scoped_record_def ar_confirmed_def Let_def split: option.splits if_splits)+

lemma fold_record_launch:
  assumes "ar_admitted (fold op_record xs r)"
  shows "ar_health (fold op_record xs r) = ar_health r \<and>
    (ar_confirmed (fold op_record xs r) \<longrightarrow> ar_confirmed r \<or> (\<exists>name source observed category.
      Op_confirm name True source observed category \<in> set xs \<and> canonical_route_id name = ar_route_id r))"
  using assms
proof (induction xs arbitrary: r)
  case (Cons x xs)
  from Cons.prems ops.fold_admitted have "ar_admitted (op_record x r)" by simp
  from Cons.IH [of "op_record x r"] Cons.prems op_record_launch [OF this] show ?case by (simp add: ops.keeps_id) blast
qed simp

lemma admit_unverified:
  assumes "admit pa inventory_source require_runtime ttl inventory connections
      (Some (default_runtime_evidence name lf wc hc now)) [] now = Inr s"
    and "r \<in> set (am_records s)" "ar_admitted r"
  shows "ar_health r \<noteq> ''healthy'' \<and> \<not> ar_confirmed r"
proof -
  obtain conns row where r: "r = judge pa conns (default_runtime_evidence name lf wc hc now) now (ar_route_id r) row"
    using assms(1,2) by (rule admit_record) (rule that, simp only: all_evidence_alone)
  have "ar_health r \<noteq> ''healthy''"
  proof
    assume "ar_health r = ''healthy''"
    with r assms(3) obtain x where
      x: "x \<in> set (fst (observations_of pa conns (default_runtime_evidence name lf wc hc now) now (ar_route_id r) row)) \<union>
         set (snd (observations_of pa conns (default_runtime_evidence name lf wc hc now) now (ar_route_id r) row))"
      "ob_state x = ''healthy''" by (metis judge_healthy)
    from x(2) have "ob_state x \<noteq> ''cooldown''" by simp
    from judged_positive [OF x(1) this] default_evidence_not_healthy x(2) show False by blast
  qed
  moreover have "\<not> ar_confirmed r" using r judge_unconfirmed by metis
  ultimately show ?thesis ..
qed


text \<open>Judgements read the observations of routes and providers only.\<close>

definition read_key :: "string \<Rightarrow> bool" where
  "read_key key \<longleftrightarrow> prefix ''route:'' key \<or> prefix ''provider:'' key"

definition read_evidence :: "evidence \<Rightarrow> observation list" where
  "read_evidence ev = filter (\<lambda>x. read_key (ob_key x)) (ev_observations ev)"

lemma for_key_read:
  assumes "read_evidence ev = read_evidence ev'"
  shows "for_key ev (''route:'' @ route) = for_key ev' (''route:'' @ route)"
    "for_key ev (''provider:'' @ name) = for_key ev' (''provider:'' @ name)"
proof -
  have for_key: "for_key e k = filter (\<lambda>x. ob_key x = k) (read_evidence e)" if "read_key k" for e k
    using that by (auto simp: for_key_def read_evidence_def intro: filter_cong)
  have "read_key (''route:'' @ route)" "read_key (''provider:'' @ name)" by (simp_all add: read_key_def)
  with assms show "for_key ev (''route:'' @ route) = for_key ev' (''route:'' @ route)"
    "for_key ev (''provider:'' @ name) = for_key ev' (''provider:'' @ name)" by (simp_all only: for_key)
qed

lemma judge_read:
  assumes "read_evidence ev = read_evidence ev'"
  shows "judge pa cs ev now route row = judge pa cs ev' now route row"
  unfolding judge_def judged_observations_def route_observations_def for_key_read [OF assms] by (rule refl)

lemma scoped_observation_key:
  assumes "scoped_observation source now (key, c) = Some x"
  shows "read_key (ob_key x) \<longleftrightarrow> read_key key"
proof -
  obtain scope name where p: "py_partition (CHR '':'') key = (scope, Some name)" "scope \<in> {''route'', ''provider'', ''pool'', ''account''}"
    and x: "ob_key x = scope @ '':'' @ (if scope = ''route'' then canonical_route_id name else py_lower name)"
    using assms by (auto simp: scoped_observation_def cooldown_scope_def Let_def RuntimeObservation_def split: if_splits option.splits prod.splits)
  from py_partition_Some [OF p(1)] p(2) show ?thesis unfolding x by (auto simp: read_key_def)
qed

lemma read_scoped_observations:
  "filter (\<lambda>x. read_key (ob_key x)) (List.map_filter (scoped_observation source now) (filter (\<lambda>kc. read_key (fst kc)) cds)) =
   filter (\<lambda>x. read_key (ob_key x)) (List.map_filter (scoped_observation source now) cds)"
  by (induction cds) (auto simp: List.map_filter_simps scoped_observation_key split: option.split)


text \<open>
  Evidence against every route of a provider: it names no account, workspace or pool, and it reports an
  authorization failure, or a cooldown or exhaustion that is no rate limit. (A rate limit may be refuted by a
  later live measurement of the quota, and evidence on one account by a viable sibling account.)
\<close>

definition blocks_provider :: "string \<Rightarrow> observation \<Rightarrow> bool" where
  "blocks_provider name x \<longleftrightarrow> name \<noteq> [] \<and> ob_key x = ''provider:'' @ name \<and>
     ob_account_id x = None \<and> ob_workspace_id x = None \<and> ob_pool_id x = None \<and>
     (ob_state x = ''unauthorized'' \<or>
      ob_state x \<in> {''cooldown'', ''exhausted''} \<and> ob_category x \<notin> set RATE_LIMIT_COOLDOWN_CATEGORIES)"

definition blocks_route :: "route_id \<Rightarrow> observation \<Rightarrow> bool" where
  "blocks_route route x \<longleftrightarrow> ob_key x = ''route:'' @ route \<and>
     ob_state x \<in> {''unauthorized'', ''unhealthy'', ''exhausted'', ''cooldown''}"

lemma provider_evidence_judged:
  assumes "x \<in> set (ev_observations ev)" and "blocks_provider name x" and "name \<in> {owner_of_row row, route_provider_prefix route}"
  shows "x \<in> set (snd (observations_of pa cs ev now route row))"
proof -
  have "in_scope b route x" "\<not> refuted_limit b route now x" for b
    using assms(2) by (auto simp: blocks_provider_def in_scope_def refuted_limit_def)
  moreover have "x \<in> set (suppress_siblings b route now obs)" if "x \<in> set obs" for b obs
    using that assms(2) by (auto simp: suppress_siblings_def blocks_provider_def Let_def)
  moreover have "x \<in> set (for_key ev (''provider:'' @ name))" "name \<noteq> []"
    using assms(1,2) by (auto simp: for_key_def blocks_provider_def)
  ultimately show ?thesis
    using assms(3) by (auto simp: observations_of_def judged_observations_def Let_def)
qed

lemma provider_evidence_drops:
  assumes "x \<in> set (ev_observations ev)" and "blocks_provider name x" and "name \<in> {owner_of_row row, route_provider_prefix route}"
  shows "\<not> ar_admitted (judge pa cs ev now route row)"
proof -
  have "against (fst (observations_of pa cs ev now route row)) (snd (observations_of pa cs ev now route row))"
    using provider_evidence_judged [OF assms, of pa cs now] assms(2) unfolding against_def blocks_provider_def by blast
  then show ?thesis by (simp add: judge_admitted_iff split_def Let_def)
qed

lemma judge_reason:
  assumes "ar_admitted (judge pa cs ev now route row)"
  shows "if ar_reason (judge pa cs ev now route row) = ''subscription_unknown''
    then ar_health (judge pa cs ev now route row) = ''unknown'' else fits pa row route"
proof -
  obtain ro po where obs: "observations_of pa cs ev now route row = (ro, po)" by force
  from assms have ok: "well_connected cs now route row" "\<not> against ro po"
    "(\<exists>x\<in>set ro \<union> set po. unknown_headroom x) \<or> fits pa row route"
    by (simp_all add: judge_admitted_iff obs)
  show ?thesis
  proof (cases "\<exists>x\<in>set ro \<union> set po. unknown_headroom x")
    case True
    then show ?thesis using judge_observed_unknown [OF ok(2)] by (simp add: judge_connected [OF ok(1)] obs)
  next
    case False
    then show ?thesis using ok(3) judge_observed_fits(1) [OF ok(2) False] by (simp add: judge_connected [OF ok(1)] obs)
  qed
qed


section \<open>Properties\<close>


text \<open>C18. No sequence of confirmations and narrowings is refused by the guard against widening, and none widens: the
  admitted routes only shrink, every record keeps its place and route, and a record that was dropped keeps the
  stage and reason of its first failure for good.\<close>

theorem derivations_only_narrow:
  "\<exists>s'. derive_all xs s = Inr s' \<and> set (admitted_ids (am_records s')) \<subseteq> set (admitted_ids (am_records s)) \<and>
     map ar_route_id (am_records s') = map ar_route_id (am_records s) \<and>
     {r \<in> set (am_records s). \<not> ar_admitted r} \<subseteq> set (am_records s') \<and> same_origin s s'"
proof -
  obtain s' where s': "derive_all xs s = Inr s'" "am_records s' = map (fold op_record xs) (am_records s)" "same_origin s s'"
    using derive_all_result by blast
  have "{r \<in> set (am_records s). \<not> ar_admitted r} \<subseteq> set (map (fold op_record xs) (am_records s))"
  proof
    fix r
    assume "r \<in> {r \<in> set (am_records s). \<not> ar_admitted r}"
    then have "r \<in> set (am_records s)" "fold op_record xs r = r" by (simp_all add: ops.fold_keeps_dropped)
    then show "r \<in> set (map (fold op_record xs) (am_records s))" by force
  qed
  then show ?thesis using s'(1,3) ops.fold_admitted_ids [of xs "am_records s"] ops.map_ids [of xs "am_records s"]
    by (intro exI [of _ s'] conjI) (simp_all only: s'(2))
qed

text \<open>C17. The local state files give no launch authority: when an admission rests on them alone, a route can be
  launched after any sequence of derivations only if one of them was a successful confirmation of that route.\<close>

theorem local_state_never_launches:
  assumes "admit pa inventory_source require_runtime ttl inventory connections
      (Some (default_runtime_evidence name lf wc hc now)) [] now = Inr s"
    and "derive_all xs s = Inr s'" "launchable (am_records s') route"
  shows "\<exists>alias source observed category.
    Op_confirm alias True source observed category \<in> set xs \<and> canonical_route_id alias = canonical_route_id route"
proof -
  from assms(3) obtain r' where r': "record_for (am_records s') route = Some r'" "ar_admitted r'"
    "ar_health r' = ''healthy'' \<or> ar_confirmed r'" by (auto simp: launchable_def split: option.splits)
  then obtain r where r: "record_for (am_records s) route = Some r" "r' = fold op_record xs r"
    using derive_all_records [OF assms(2)] by (auto simp: ops.fold_record_for)
  from record_for_Some [OF r(1)] have mem: "r \<in> set (am_records s)" "ar_route_id r = canonical_route_id route" by auto
  from r'(2) ops.fold_admitted have "ar_admitted r" by (simp add: r(2))
  note unverified = admit_unverified [OF assms(1) mem(1) this]
  from fold_record_launch [of xs r] r'(2,3) unverified mem(2) show ?thesis unfolding r(2) by auto
qed

text \<open>A failure of a route that stands in the shared health cache keeps the route out of the admitted set,
  whatever the connections and the other files say.\<close>

theorem cached_failure_drops_route:
  assumes "admit pa inventory_source require_runtime ttl inventory connections
      (Some (default_runtime_evidence name lf wc (Some d) now)) snapshots now = Inr s"
    and "(route, e) \<in> set (dk_routes d)" "\<not> he_healthy e" "he_until e > now"
    and "state_for_category (he_category e) \<noteq> ''unknown''"
  shows "\<not> in_admitted (am_records s) route"
proof
  assume "in_admitted (am_records s) route"
  then obtain r where r: "r \<in> set (am_records s)" "ar_admitted r" "ar_route_id r = canonical_route_id route"
    by (auto simp: in_admitted_def admitted_ids_def)
  obtain conns row where j: "r = judge pa conns
      (all_evidence (Some (default_runtime_evidence name lf wc (Some d) now)) snapshots ttl now) now (ar_route_id r) row"
    using assms(1) r(1) by (rule admit_record) (rule that)
  obtain x where x: "x \<in> set (ev_observations (default_runtime_evidence name lf wc (Some d) now))"
    "ob_key x = ''route:'' @ ar_route_id r" "ob_state x = state_for_category (he_category e)"
    using default_evidence_of_entry [OF assms(2-4)] r(3) by metis
  have "x \<in> set (ev_observations (all_evidence (Some (default_runtime_evidence name lf wc (Some d) now)) snapshots ttl now))"
    using x(1) by (simp add: all_evidence_def merged_def Let_def)
  moreover have "ob_state x \<in> {''unauthorized'', ''unhealthy'', ''exhausted'', ''cooldown''}"
    using x(3) assms(5) by (auto simp: state_for_category_def Let_def split: if_splits)
  ultimately have "\<not> ar_admitted r" using direct_evidence_drops x(2) j by metis
  with r(2) show False by simp
qed

text \<open>Cooldowns of pools and accounts in the shared health cache never reach an admission: it gives the same result
  when they are removed from the file.
\<close>

theorem pool_cooldowns_not_admission_evidence:
  "admit pa inventory_source require_runtime ttl inventory connections
     (Some (default_runtime_evidence name lf wc (Some (d \<lparr> dk_cooldowns := filter (\<lambda>kc. read_key (fst kc)) (dk_cooldowns d) \<rparr>)) now))
     snapshots now =
   admit pa inventory_source require_runtime ttl inventory connections
     (Some (default_runtime_evidence name lf wc (Some d) now)) snapshots now"
proof -
  define ev where "ev d = default_runtime_evidence name lf wc (Some d) now" for d
  define d' where "d' = d \<lparr> dk_cooldowns := filter (\<lambda>kc. read_key (fst kc)) (dk_cooldowns d) \<rparr>"
  have obs: "read_evidence (ev d') = read_evidence (ev d)"
    unfolding read_evidence_def ev_def d'_def default_runtime_evidence_def merged_def evidence_from_at_rest_health_cache_def
    by (simp add: Let_def read_scoped_observations)
  have src: "ev_sources (ev d') = ev_sources (ev d)"
    by (simp add: ev_def default_runtime_evidence_def merged_def evidence_from_at_rest_health_cache_def Let_def)
  define all where "all e = (if snapshots = [] then e else merged e (subscription_observations ttl now snapshots))" for e
  have "read_evidence (all (ev d')) = read_evidence (all (ev d))" using obs by (simp add: all_def read_evidence_def merged_def)
  from judge_read [OF this] have j: "judge pa cs (all (ev d')) now route row = judge pa cs (all (ev d)) now route row" for cs route row .
  have s: "ev_sources (all (ev d')) = ev_sources (all (ev d))" using src by (simp add: all_def merged_def)
  then have c: "consulted (all (ev d')) = consulted (all (ev d))" by (simp add: consulted_def)
  show ?thesis unfolding ev_def [symmetric] d'_def [symmetric]
    unfolding admit_def Let_def option.simps all_def [symmetric] j s c by (simp split: option.split)
qed


section \<open>Examples\<close>

definition sample_row :: "string \<Rightarrow> rat list \<Rightarrow> inventory_row" where
  "sample_row owner prices = \<lparr> ir_owned_by = owner, ir_capabilities = [(''tool_calling'', True)], ir_max_input_tokens = Some 100000,
     ir_context_length = None, ir_capability_tier = Some 1, ir_prices = prices, ir_pool_id = [], ir_account_id = [] \<rparr>"

definition sample_connection :: "string \<Rightarrow> string \<Rightarrow> connection" where
  "sample_connection provider auth = \<lparr> cn_provider = provider, cn_is_active = True, cn_auth_type = auth, cn_plan_label = [],
     cn_import_free_models_only = False, cn_import_free_only = False, cn_provider_data = None, cn_rate_limited_until = [],
     cn_quota_models = [], cn_quota_percent = None, cn_quota_reset_at = None, cn_test_status = ''ok'', cn_account_id = ''x'',
     cn_id = [], cn_workspace_id = [], cn_scope_type = [], cn_scope_id = [], cn_model = [], cn_pool_id = [], cn_last_error = [],
     cn_cooldown_until = None, cn_last_error_at = None, cn_observed_at = None, cn_updated_at = None, cn_last_tested = None \<rparr>"

definition sample_params :: "(route_id \<Rightarrow> string option) \<Rightarrow> admission_params" where
  "sample_params deny = \<lparr> ad_connections_source = ''conns'', ad_required = [''tools''], ad_min_context = 1000, ad_deny = deny,
     ad_token = (\<lambda>t. ''conn:'' @ t) \<rparr>"

definition sample_inventory :: "(string \<times> inventory_row) list" where
  "sample_inventory = [(''omniroute/g/a'', sample_row ''g'' []), (''g/b'', sample_row ''g'' [])]"

definition sample_admit :: "(route_id \<Rightarrow> string option) \<Rightarrow> evidence \<Rightarrow> capacity_snapshot list \<Rightarrow> admission_error + admitted_set" where
  "sample_admit deny ev snapshots =
     admit (sample_params deny) ''inv'' True 300 (Some sample_inventory) (Some [sample_connection ''g'' ''key'']) (Some ev) snapshots 1000"

definition timed_out :: health_entry where
  "timed_out = projr (HealthEntry ''g/b'' ''timeout'' 990 1100 1 False False)"

definition sample_disk :: disk where
  "sample_disk = empty_disk \<lparr> dk_routes := [(''g/b'', timed_out)] \<rparr>"

definition sample_evidence :: evidence where
  "sample_evidence = default_runtime_evidence ''ladder.json'' None None (Some sample_disk) 1000"

definition sample_set :: admitted_set where
  "sample_set = projr (sample_admit (\<lambda>r. None) sample_evidence [])"

definition confirmed_set :: admitted_set where
  "confirmed_set = projr (derive_all [Op_confirm ''g/a'' True ''probe'' 1001 []] sample_set)"

lemma sample_admission:
  "admit (sample_params (\<lambda>r. None)) ''inv'' True 300 (Some sample_inventory) (Some [sample_connection ''g'' ''key''])
     (Some (default_runtime_evidence ''ladder.json'' None None (Some sample_disk) 1000)) [] 1000 = Inr sample_set"
  by code_simp

lemma sample_confirmed: "derive_all [Op_confirm ''g/a'' True ''probe'' 1001 []] sample_set = Inr confirmed_set"
proof -
  obtain s' where "derive_all [Op_confirm ''g/a'' True ''probe'' 1001 []] sample_set = Inr s'" using derive_all_result by blast
  then show ?thesis unfolding confirmed_set_def by (simp only: sum.sel)
qed


theorem local_state_never_launches_witness:
  "launchable (am_records confirmed_set) ''omniroute/g/a'' \<and>
   (\<exists>alias source observed category. Op_confirm alias True source observed category \<in> set [Op_confirm ''g/a'' True ''probe'' 1001 []] \<and>
      canonical_route_id alias = canonical_route_id ''omniroute/g/a'')"
proof
  show "launchable (am_records confirmed_set) ''omniroute/g/a''" by code_simp
  from local_state_never_launches [OF sample_admission sample_confirmed this]
  show "\<exists>alias source observed category. Op_confirm alias True source observed category \<in> set [Op_confirm ''g/a'' True ''probe'' 1001 []] \<and>
      canonical_route_id alias = canonical_route_id ''omniroute/g/a''" .
qed

theorem cached_failure_drops_route_witness: "\<not> in_admitted (am_records sample_set) ''g/b''"
proof (rule cached_failure_drops_route [OF sample_admission])
  show "(''g/b'', timed_out) \<in> set (dk_routes sample_disk)" by (simp add: sample_disk_def)
  show "\<not> he_healthy timed_out" "he_until timed_out > 1000" "state_for_category (he_category timed_out) \<noteq> ''unknown''" by code_simp+
qed

text \<open>A snapshot without any reading, and one with credits left.\<close>

definition idle_snapshot :: capacity_snapshot where
  "idle_snapshot = \<lparr> sn_provider_id = ''g'', sn_account_id = ''x'', sn_workspace_id = None, sn_observed_at = 990, sn_fresh_until = None,
     sn_errors = [], sn_pools = [], sn_balances = [] \<rparr>"

definition credit_snapshot :: capacity_snapshot where
  "credit_snapshot = idle_snapshot \<lparr> sn_balances := [\<lparr> bl_balance_id = ''b'', bl_kind = ''subscription_credits'', bl_remaining = Some 5 \<rparr>] \<rparr>"

text \<open>
  The policy is not consulted for a route whose subscription headroom is unknown: a snapshot without a reading
  admits a route that the policy denies, and one confirmation then makes it launchable.
\<close>

theorem unknown_headroom_skips_policy:
  "\<not> in_admitted (am_records (projr (sample_admit (\<lambda>r. Some ''denied'') no_evidence []))) ''g/a''"
  "launchable (am_records (projr (derive_all [Op_confirm ''g/a'' True ''probe'' 1001 []]
     (projr (sample_admit (\<lambda>r. Some ''denied'') no_evidence [idle_snapshot]))))) ''g/a''"
  by code_simp+

text \<open>
  A positive balance of the account counts as health of every route of the provider: the route is launchable
  although no evidence concerns it.
\<close>

theorem balance_launches_unprobed_routes:
  "launchable (am_records (projr (sample_admit (\<lambda>r. None) no_evidence [credit_snapshot]))) ''g/a''"
  "launchable (am_records (projr (sample_admit (\<lambda>r. None) no_evidence [credit_snapshot]))) ''g/b''"
  by code_simp+

end
