(* ===== verification/Py_Re.thy ===== *)
theory Py_Re
  imports Prelude
begin

section \<open>Python regular expressions\<close>

text \<open>
  The part of Python's \<open>re\<close> module that the modelled code uses: backtracking match in priority
  order (alternatives left to right, repetitions greedy), capture groups, the word boundary, negative
  lookahead and the end anchor, and \<open>search\<close>, \<open>findall\<close> and \<open>sub\<close> on top of it. The classes
  are the ASCII ones. A literal compares without case, as every pattern of the modelled code that
  has letters is compiled with \<open>IGNORECASE\<close> or applied to lower-case text.
\<close>

subsection \<open>Definitions\<close>

datatype re =
    Class "char \<Rightarrow> bool"
  | Eps
  | Then re re
  | Or re re
  | Many re
  | Grp nat re
  | WordBoundary
  | NotAhead re
  | AtEnd

text \<open>A position: the character before it, the text after it, the groups captured so far.\<close>

record re_pos =
  pos_prev :: "char option"
  pos_rest :: string
  pos_groups :: "(nat, string) dict"

definition is_digit :: "char \<Rightarrow> bool" where
  "is_digit c \<longleftrightarrow> 48 \<le> (of_char c :: nat) \<and> (of_char c :: nat) \<le> 57"

definition is_letter :: "char \<Rightarrow> bool" where
  "is_letter c \<longleftrightarrow> 97 \<le> (of_char (py_lower_char c) :: nat) \<and> (of_char (py_lower_char c) :: nat) \<le> 122"

definition is_word :: "char \<Rightarrow> bool" where
  "is_word c \<longleftrightarrow> is_digit c \<or> is_letter c \<or> c = CHR ''_''"

definition at_boundary :: "re_pos \<Rightarrow> bool" where
  "at_boundary p \<longleftrightarrow>
     (case pos_prev p of None \<Rightarrow> False | Some c \<Rightarrow> is_word c) \<noteq>
     (case pos_rest p of [] \<Rightarrow> False | c # _ \<Rightarrow> is_word c)"

definition step_pos :: "char \<Rightarrow> string \<Rightarrow> re_pos \<Rightarrow> re_pos" where
  "step_pos c cs p = p\<lparr>pos_prev := Some c, pos_rest := cs\<rparr>"

text \<open>
  All ways to match a pattern at a position, the preferred one first. A repetition goes on only
  while an iteration consumes something.
\<close>

function re_match :: "re \<Rightarrow> re_pos \<Rightarrow> re_pos list" where
  "re_match (Class P) p =
     (case pos_rest p of [] \<Rightarrow> [] | c # cs \<Rightarrow> if P c then [step_pos c cs p] else [])"
| "re_match Eps p = [p]"
| "re_match (Then r s) p = concat (map (re_match s) (re_match r p))"
| "re_match (Or r s) p = re_match r p @ re_match s p"
| "re_match (Many r) p =
     concat (map (re_match (Many r))
       (filter (\<lambda>q. length (pos_rest q) < length (pos_rest p)) (re_match r p))) @ [p]"
| "re_match (Grp k r) p =
     map (\<lambda>q. q\<lparr>pos_groups :=
            dict_put k (take (length (pos_rest p) - length (pos_rest q)) (pos_rest p)) (pos_groups q)\<rparr>)
       (re_match r p)"
| "re_match WordBoundary p = (if at_boundary p then [p] else [])"
| "re_match (NotAhead r) p = (if re_match r p = [] then [p] else [])"
| "re_match AtEnd p = (if pos_rest p = [] then [p] else [])"
  by pat_completeness auto
termination
  by (relation "measures [\<lambda>(r, p). size r, \<lambda>(r, p). length (pos_rest p)]") auto

text \<open>\<open>r?\<close>, \<open>r+\<close>, a literal, a list of alternatives, a sequence.\<close>

definition Opt :: "re \<Rightarrow> re" where "Opt r = Or r Eps"

definition Some_of :: "re \<Rightarrow> re" where "Some_of r = Then r (Many r)"

fun Lit :: "string \<Rightarrow> re" where
  "Lit [] = Eps"
| "Lit (c # cs) = Then (Class (\<lambda>d. py_lower_char d = py_lower_char c)) (Lit cs)"

fun Alts :: "re list \<Rightarrow> re" where
  "Alts [] = Class (\<lambda>_. False)"
| "Alts [r] = r"
| "Alts (r # rs) = Or r (Alts rs)"

fun Seqs :: "re list \<Rightarrow> re" where
  "Seqs [] = Eps"
| "Seqs [r] = r"
| "Seqs (r # rs) = Then r (Seqs rs)"

definition group_of :: "nat \<Rightarrow> re_pos \<Rightarrow> string" where
  "group_of k p = (case map_of (pos_groups p) k of None \<Rightarrow> [] | Some s \<Rightarrow> s)"

text \<open>\<open>re.search\<close>: the preferred match at the first position that has one.\<close>

fun re_search_from :: "re \<Rightarrow> char option \<Rightarrow> string \<Rightarrow> re_pos option" where
  "re_search_from r prev s =
     (case re_match r \<lparr>pos_prev = prev, pos_rest = s, pos_groups = []\<rparr> of
        q # _ \<Rightarrow> Some q
      | [] \<Rightarrow> (case s of [] \<Rightarrow> None | c # cs \<Rightarrow> re_search_from r (Some c) cs))"

definition re_search :: "re \<Rightarrow> string \<Rightarrow> re_pos option" where
  "re_search r s = re_search_from r None s"

text \<open>
  \<open>re.findall\<close> and \<open>re.sub\<close> for patterns that never match the empty string: the matches from left
  to right that do not overlap.
\<close>

function re_findall_from :: "re \<Rightarrow> char option \<Rightarrow> string \<Rightarrow> re_pos list" where
  "re_findall_from r prev s =
     (case s of
        [] \<Rightarrow> []
      | c # cs \<Rightarrow>
          (case re_match r \<lparr>pos_prev = prev, pos_rest = s, pos_groups = []\<rparr> of
             q # _ \<Rightarrow> if length (pos_rest q) < length s
                      then q # re_findall_from r (pos_prev q) (pos_rest q)
                      else re_findall_from r (Some c) cs
           | [] \<Rightarrow> re_findall_from r (Some c) cs))"
  by pat_completeness auto
termination
  by (relation "measure (\<lambda>(r, prev, s). length s)") auto

definition re_findall :: "re \<Rightarrow> string \<Rightarrow> re_pos list" where
  "re_findall r s = re_findall_from r None s"

function re_sub_from :: "re \<Rightarrow> string \<Rightarrow> char option \<Rightarrow> string \<Rightarrow> string" where
  "re_sub_from r new prev s =
     (case s of
        [] \<Rightarrow> []
      | c # cs \<Rightarrow>
          (case re_match r \<lparr>pos_prev = prev, pos_rest = s, pos_groups = []\<rparr> of
             q # _ \<Rightarrow> if length (pos_rest q) < length s
                      then new @ re_sub_from r new (pos_prev q) (pos_rest q)
                      else c # re_sub_from r new (Some c) cs
           | [] \<Rightarrow> c # re_sub_from r new (Some c) cs))"
  by pat_completeness auto
termination
  by (relation "measure (\<lambda>(r, new, prev, s). length s)") auto

definition re_sub :: "re \<Rightarrow> string \<Rightarrow> string \<Rightarrow> string" where
  "re_sub r new s = re_sub_from r new None s"

declare re_match.simps(5) [simp del]
declare re_search_from.simps [simp del] re_findall_from.simps [simp del] re_sub_from.simps [simp del]


subsection \<open>Lemmas\<close>

text \<open>A match consumes text from the front only.\<close>

lemma re_match_suffix: "q \<in> set (re_match r p) \<Longrightarrow> suffix (pos_rest q) (pos_rest p)"
proof (induction r p arbitrary: q rule: re_match.induct)
  case (1 P p)
  then show ?case by (cases "pos_rest p") (auto simp: step_pos_def suffix_Cons split: if_splits)
next
  case (3 r s p)
  then show ?case by (auto intro: suffix_order.trans)
next
  case (5 r p)
  from 5(3) consider "q = p" | m where "m \<in> set (re_match r p)"
      "length (pos_rest m) < length (pos_rest p)" "q \<in> set (re_match (Many r) m)"
    by (auto simp: re_match.simps(5) [of r p])
  then show ?case
  proof cases
    case 2
    then have "suffix (pos_rest q) (pos_rest m)" "suffix (pos_rest m) (pos_rest p)"
      using 5(1,2) by auto
    then show ?thesis by (rule suffix_order.trans)
  qed simp
qed (auto split: if_splits)

text \<open>A literal matches exactly when the text starts with it, up to case.\<close>

lemma py_lower_Nil [simp]: "py_lower [] = []"
  by (simp add: py_lower_def)

lemma py_lower_Cons [simp]: "py_lower (c # cs) = py_lower_char c # py_lower cs"
  by (simp add: py_lower_def)

lemma re_match_Lit_Nil: "re_match (Lit w) p = [] \<longleftrightarrow> \<not> prefix (py_lower w) (py_lower (pos_rest p))"
proof (induction w arbitrary: p)
  case (Cons c cs)
  show ?case
  proof (cases "pos_rest p")
    case (Cons d ds)
    then show ?thesis using Cons.IH [of "step_pos d ds p"] by (auto simp: step_pos_def)
  qed simp
qed simp

lemma re_search_from_Lit:
  "re_search_from (Lit w) prev s = None \<longleftrightarrow> \<not> contains_sub (py_lower w) (py_lower s)"
proof (induction s arbitrary: prev)
  case Nil
  let ?p = "\<lparr>pos_prev = prev, pos_rest = [], pos_groups = []\<rparr>"
  show ?case using re_match_Lit_Nil [of w ?p]
    by (subst re_search_from.simps) (cases "re_match (Lit w) ?p"; simp add: py_lower_def)
next
  case (Cons c cs)
  let ?p = "\<lparr>pos_prev = prev, pos_rest = c # cs, pos_groups = []\<rparr>"
  show ?case using re_match_Lit_Nil [of w ?p] Cons.IH [of "Some c"]
    by (subst re_search_from.simps) (cases "re_match (Lit w) ?p"; simp)
qed

end
