(* ===== verification/Recovery.thy ===== *)
theory Recovery
  imports Contracts Py_Re
begin

section \<open>Failure classification and the recovery budget\<close>

text \<open>
  Models \<open>verdict/orchestration/recovery.py\<close> (\<open>FailureIntelligence.classify\<close>, the reset hints it
  reads from error text, \<open>RecoveryBudget.decide\<close>) and the context-length test it imports from
  \<open>verdict/subagent_selection.py\<close>. Seconds are exact rationals where Python has floats.
\<close>

subsection \<open>Patterns and durations\<close>

definition MAX_COOLDOWN_SECONDS :: rat where "MAX_COOLDOWN_SECONDS = 86400"

definition Spaces :: re where "Spaces = Many (Class py_isspace)"

definition Digits :: re where "Digits = Some_of (Class is_digit)"

text \<open>\<open>\d+(?:\.\d+)?\<close>\<close>

definition Number :: re where
  "Number = Then Digits (Opt (Then (Class (\<lambda>c. c = CHR ''.'')) Digits))"

definition optional_s :: "string \<Rightarrow> re" where
  "optional_s w = Then (Lit w) (Opt (Lit ''s''))"

definition Unit :: re where
  "Unit = Alts [optional_s ''day'', Lit ''d'', optional_s ''hour'', optional_s ''hr'', Lit ''h'',
     optional_s ''minute'', optional_s ''min'', Lit ''m'', optional_s ''second'', optional_s ''sec'',
     Lit ''s'']"

definition GATEWAY_BUSY_RE :: re where
  "GATEWAY_BUSY_RE = Alts [Lit ''chat_admission_busy'',
     Then (Lit ''admission capacity is '') (Alts [Lit ''temporarily unavailable'', Lit ''busy'']),
     Lit ''Structurally heavy chat request capacity is busy'']"

definition DURATION_UNITS :: "(string, rat) dict" where
  "DURATION_UNITS = [(''d'', 86400), (''day'', 86400), (''days'', 86400), (''h'', 3600), (''hr'', 3600),
     (''hrs'', 3600), (''hour'', 3600), (''hours'', 3600), (''m'', 60), (''min'', 60), (''mins'', 60),
     (''minute'', 60), (''minutes'', 60), (''s'', 1), (''sec'', 1), (''secs'', 1), (''second'', 1),
     (''seconds'', 1)]"

definition DURATION_PART :: re where
  "DURATION_PART = Seqs [Grp 1 Number, Spaces, Grp 2 Unit, WordBoundary]"

definition digit_value :: "char \<Rightarrow> rat" where
  "digit_value c = of_nat (of_char c - 48)"

definition digits_value :: "string \<Rightarrow> rat" where
  "digits_value ds = foldl (\<lambda>v c. 10 * v + digit_value c) 0 ds"

text \<open>\<open>float(number)\<close> of a text that \<open>Number\<close> matched.\<close>

definition py_float :: "string \<Rightarrow> rat" where
  "py_float s =
     (case py_split CHR ''.'' s of
        [w] \<Rightarrow> digits_value w
      | w # fr # _ \<Rightarrow> digits_value w + digits_value fr / 10 ^ length fr
      | [] \<Rightarrow> 0)"

definition parse_duration :: "string \<Rightarrow> rat option" where
  "parse_duration txt =
     (let parts = re_findall DURATION_PART txt in
      if parts = [] then None
      else Some (foldl (\<lambda>total q. total + py_float (group_of 1 q) *
                   the (map_of DURATION_UNITS (py_lower (group_of 2 q)))) 0 parts))"

definition parse_iso8601 :: "string \<Rightarrow> rat option" where
  "parse_iso8601 ts =
     (if CHR ''T'' \<in> set ts then
        let t = concat (map (\<lambda>c. if c = CHR ''Z'' then ''+00:00'' else [c]) ts) in
        if CHR ''+'' \<in> set t \<or> count_list t CHR ''-'' > 2 then Some 3600 else None
      else None)"

text \<open>The four patterns of \<open>RETRY_AFTER_PATTERNS\<close> with their converters, in their order.\<close>

definition retry_after_header :: re where
  "retry_after_header = Seqs [Lit ''retry-after:'', Spaces, Grp 1 Digits, WordBoundary,
     NotAhead (Then Spaces (Class is_letter))]"

definition retry_after_seconds_re :: re where
  "retry_after_seconds_re = Seqs [Lit ''retry after '', Grp 1 Digits, Lit '' seconds'']"

definition resets_at_re :: re where
  "resets_at_re = Seqs [optional_s ''reset'', Lit '' at '',
     Grp 1 (Some_of (Class (\<lambda>c. is_digit c \<or> c \<in> set ''-TZtz:.+'')))]"

definition resets_in_re :: re where
  "resets_in_re = Seqs
     [Alts [optional_s ''reset'', Lit ''try again'',
        Then (Lit ''retry'') (Opt (Alts [Lit ''-after'', Lit '' after''])), Lit ''available again'',
        Lit ''reset''],
      Spaces, Opt (Alts [Lit ''in'', Lit ''after'']), Spaces,
      Grp 1 (Some_of (Seqs [Number, Spaces, Unit, WordBoundary,
        Many (Class (\<lambda>c. py_isspace c \<or> py_lower_char c \<in> set '',and''))]))]"

definition RETRY_AFTER_PATTERNS :: "(re \<times> (string \<Rightarrow> rat option)) list" where
  "RETRY_AFTER_PATTERNS =
     [(retry_after_header, \<lambda>g. Some (py_float g)), (retry_after_seconds_re, \<lambda>g. Some (py_float g)),
      (resets_at_re, parse_iso8601), (resets_in_re, parse_duration)]"

fun first_hint :: "(re \<times> (string \<Rightarrow> rat option)) list \<Rightarrow> string \<Rightarrow> rat option" where
  "first_hint [] txt = None"
| "first_hint ((pattern, convert) # rest) txt =
     (case re_search pattern txt of
        None \<Rightarrow> first_hint rest txt
      | Some m \<Rightarrow>
          (case convert (group_of 1 m) of
             Some r \<Rightarrow> if r > 0 then Some (min r MAX_COOLDOWN_SECONDS) else first_hint rest txt
           | None \<Rightarrow> first_hint rest txt))"

definition parse_reset_hint :: "string \<Rightarrow> rat option" where
  "parse_reset_hint error_text =
     (if error_text = [] then None else first_hint RETRY_AFTER_PATTERNS error_text)"

definition token_char :: "char \<Rightarrow> bool" where
  "token_char c \<longleftrightarrow> is_digit c \<or> is_letter c \<or> c \<in> set ''._-''"

definition sanitize_error :: "string \<Rightarrow> string" where
  "sanitize_error error_text =
     (let a = re_sub (Seqs [Lit ''bearer'', Some_of (Class py_isspace), Some_of (Class token_char)])
                ''REDACTED'' error_text;
          b = re_sub (Then (Lit ''sk-'') (Some_of (Class (\<lambda>c. is_digit c \<or> is_letter c)))) ''REDACTED'' a;
          c = re_sub (Seqs [Alts [Seqs [Lit ''api'', Opt (Class (\<lambda>c. c \<in> set ''_-'')), Lit ''key''],
                       Lit ''token'', Lit ''secret''],
                     Some_of (Class (\<lambda>c. c \<in> set ''=:'' \<or> py_isspace c)), Some_of (Class token_char)])
                ''REDACTED'' b
      in py_head 300 c)"


subsection \<open>Classification\<close>

record failure =
  fc_category :: string
  fc_action :: action
  fc_cooldown :: rat
  fc_scope :: scope
  fc_evidence :: string

definition CONTEXT_LENGTH_CATEGORY :: string where
  "CONTEXT_LENGTH_CATEGORY = ''context_length_exceeded''"

definition CONTEXT_LENGTH_MARKERS :: "string list" where
  "CONTEXT_LENGTH_MARKERS = [''input is too long'', ''prompt is too long'', ''context length'',
     ''context_length_exceeded'', ''maximum context'', ''context window'', ''too many tokens'']"

definition any_in :: "string list \<Rightarrow> string \<Rightarrow> bool" where
  "any_in markers txt \<longleftrightarrow> list_ex (\<lambda>m. contains_sub m txt) markers"

definition is_context_length_error :: "string \<Rightarrow> bool" where
  "is_context_length_error txt = any_in CONTEXT_LENGTH_MARKERS (py_lower txt)"

definition MODEL_SCOPED_403_MARKERS :: "string list" where
  "MODEL_SCOPED_403_MARKERS = [''this model'', ''for model'', ''model not allowed'',
     ''model is not allowed'', ''not allowed to use model'', ''does not have access to model'',
     ''no access to model'', ''model access'', ''blocked model'', ''model is blocked'']"

definition QUOTA_INDICATORS :: "string list" where
  "QUOTA_INDICATORS = [''quota'', ''exceeded your'', ''usage limit'', ''insufficient_quota'',
     ''weekly limit'', ''monthly limit'', ''daily limit'']"

text \<open>\<open>if not cooldown: cooldown = default\<close>.\<close>

definition cool_or :: "rat \<Rightarrow> rat \<Rightarrow> rat" where
  "cool_or cooldown dflt = (if cooldown = 0 then dflt else cooldown)"

definition FC :: "string \<Rightarrow> action \<Rightarrow> rat \<Rightarrow> scope \<Rightarrow> string \<Rightarrow> failure" where
  "FC category act cooldown sc evidence =
     \<lparr> fc_category = category, fc_action = act, fc_cooldown = cooldown, fc_scope = sc,
       fc_evidence = evidence \<rparr>"

text \<open>Priority 1, the explicit status code; \<open>None\<close> falls through to the text patterns.\<close>

definition classify_status :: "int \<Rightarrow> string \<Rightarrow> string \<Rightarrow> rat \<Rightarrow> failure option" where
  "classify_status status error_lower evidence cooldown =
     (if status = 429 then
        if any_in QUOTA_INDICATORS error_lower then
          Some (FC ''quota_exhausted'' REROUTE (cool_or cooldown 3600)
            (if any_in [''for this model'', ''model usage limit'', ''per-model''] error_lower
             then ScopeRoute else ScopeProvider) evidence)
        else Some (FC ''rate_limited'' REROUTE (cool_or cooldown 60) ScopeProvider evidence)
      else if status = 401 then
        Some (FC ''authentication'' REROUTE (cool_or cooldown 3600) ScopeProvider evidence)
      else if status = 402 then
        Some (FC ''payment_required'' REROUTE (cool_or cooldown 3600) ScopeProvider evidence)
      else if status = 403 then
        Some (FC ''permission'' REROUTE (cool_or cooldown 3600)
          (if any_in MODEL_SCOPED_403_MARKERS error_lower then ScopeRoute else ScopeProvider) evidence)
      else if status = 400 then
        if any_in [''unsupported'', ''not supported''] error_lower then
          Some (FC ''unsupported'' REROUTE (cool_or cooldown 86400) ScopeRoute evidence)
        else Some (FC ''bad_request'' REROUTE (cool_or cooldown 120) ScopeRoute evidence)
      else if status = 404 then
        Some (FC ''model_unavailable'' REROUTE (cool_or cooldown 3600) ScopeRoute evidence)
      else if status = 410 then
        Some (FC ''gone'' REROUTE (cool_or cooldown MAX_COOLDOWN_SECONDS) ScopeRoute evidence)
      else if 500 \<le> status \<and> status < 600 then
        Some (FC ''upstream_temporary'' REROUTE (cool_or cooldown 60) ScopeRoute evidence)
      else None)"

text \<open>Priority 2, the text patterns.\<close>

definition classify_text :: "worker_terminal \<Rightarrow> string \<Rightarrow> string \<Rightarrow> rat \<Rightarrow> failure" where
  "classify_text terminal error_lower evidence cooldown =
     (if any_in [''model not found'', ''unknown model'', ''does not exist''] error_lower then
        FC ''model_unavailable'' REROUTE (cool_or cooldown 3600) ScopeRoute evidence
      else if wt_stop_reason terminal = ''timeout'' \<or> any_in [''timeout'', ''timed out''] error_lower then
        FC ''timeout'' REROUTE (cool_or cooldown 120) ScopeRoute evidence
      else if any_in [''connection refused'', ''connection reset'', ''transport''] error_lower then
        FC ''transport_temporary'' REROUTE (cool_or cooldown 60) ScopeRoute evidence
      else if wt_error terminal = ''no_final_answer'' \<or>
              wt_stop_reason terminal \<notin> {''stop'', ''end_turn'', ''''} then
        FC ''no_final_answer'' REROUTE (cool_or cooldown 300) ScopeRoute evidence
      else if any_in [''malformed''] error_lower then
        FC ''malformed_response'' REROUTE (cool_or cooldown 300) ScopeRoute evidence
      else if wt_error terminal = ''model_mismatch'' then
        FC ''model_mismatch'' REROUTE (cool_or cooldown 3600) ScopeRoute evidence
      else if prefix ''verification_failed'' (wt_error terminal) then
        FC ''verification_failed'' CORRECT_IMPLEMENTATION 0 ScopeNone evidence
      else if prefix ''ownership_violation'' (wt_error terminal) then
        FC ''ownership_violation'' REHYDRATE 0 ScopeNone evidence
      else FC ''unknown'' REROUTE (cool_or cooldown 120) ScopeRoute evidence)"

text \<open>The retry hint of the terminal, else the one read from the error text, else none.\<close>

definition hinted_cooldown :: "worker_terminal \<Rightarrow> rat" where
  "hinted_cooldown terminal =
     (let cooldown = (case wt_retry_after_seconds terminal of None \<Rightarrow> 0 | Some r \<Rightarrow> r) in
      if cooldown = 0 then (case parse_reset_hint (wt_error terminal) of None \<Rightarrow> 0 | Some h \<Rightarrow> h)
      else cooldown)"

text \<open>The tests before the retry hint is read: task feedback and local refusals.\<close>

definition classify_early :: "worker_terminal \<Rightarrow> failure option" where
  "classify_early terminal =
     (let error_text = wt_error terminal; evidence = sanitize_error error_text in
      if wt_ok terminal then
        if py_strip (wt_output terminal) = [] then
          Some (FC ''empty_output'' REROUTE 300 ScopeRoute (sanitize_error ''ok but empty output''))
        else Some (FC ''success'' BLOCK 0 ScopeNone '''')
      else if prefix ''worker_blocked:'' error_text then
        Some (FC ''worker_blocked'' CORRECT_IMPLEMENTATION 0 ScopeNone evidence)
      else if prefix ''harness_configuration:'' error_text then
        Some (FC ''harness_configuration'' BLOCK 0 ScopeNone evidence)
      else if prefix ''ownership_refused:'' error_text \<or> wt_status_code terminal = Some 125 then
        Some (FC ''ownership_refused'' BLOCK 0 ScopeNone evidence)
      else if wt_status_code terminal \<in> {Some 400, Some 413, None} \<and> is_context_length_error error_text then
        Some (FC CONTEXT_LENGTH_CATEGORY REROUTE 0 ScopeNone evidence)
      else None)"

definition classify :: "worker_terminal \<Rightarrow> failure" where
  "classify terminal =
     (case classify_early terminal of
        Some c \<Rightarrow> c
      | None \<Rightarrow>
          let error_text = wt_error terminal; error_lower = py_lower error_text;
              evidence = sanitize_error error_text; cooldown = hinted_cooldown terminal in
          if re_search GATEWAY_BUSY_RE error_text \<noteq> None then
            FC ''gateway_busy'' RETRY_INFRA (cool_or cooldown 15) ScopeNone evidence
          else
            (case wt_status_code terminal of
               None \<Rightarrow> classify_text terminal error_lower evidence cooldown
             | Some status \<Rightarrow>
                 (case classify_status status error_lower evidence cooldown of
                    Some c \<Rightarrow> c
                  | None \<Rightarrow> classify_text terminal error_lower evidence cooldown)))"


subsection \<open>Recovery budget\<close>

datatype decision = D_FAIL_CLOSED | D_REASSIGN | D_REPAIR

record recovery_budget =
  rb_max_attempts_per_node :: int
  rb_max_same_route_retries :: int
  rb_max_verification_repairs :: int

definition verification_failures :: "failure list \<Rightarrow> int" where
  "verification_failures history =
     int (length (filter (\<lambda>c. fc_category c = ''verification_failed'') history))"

text \<open>\<open>RecoveryBudget.decide\<close>; the \<open>attempts\<close> argument is \<open>None\<close> or a count, and \<open>None\<close> reads as 0.\<close>

definition decide :: "recovery_budget \<Rightarrow> failure list \<Rightarrow> int option \<Rightarrow> decision" where
  "decide b history attempts =
     (let used = max (int (length history)) (case attempts of None \<Rightarrow> 0 | Some a \<Rightarrow> a) in
      if used \<ge> rb_max_attempts_per_node b then D_FAIL_CLOSED
      else if history = [] then D_REASSIGN
      else if fc_action (last history) = BLOCK then D_FAIL_CLOSED
      else let repairs_attempted = max 0 (verification_failures history - 1) in
        if fc_category (last history) = ''verification_failed'' then
          if repairs_attempted \<ge> rb_max_verification_repairs b then D_FAIL_CLOSED else D_REPAIR
        else D_REASSIGN)"

text \<open>The histories a node can collect when every further attempt is allowed by the budget.\<close>

inductive budgeted :: "recovery_budget \<Rightarrow> failure list \<Rightarrow> bool" for b where
  budgeted_start: "budgeted b []"
| budgeted_next: "budgeted b h \<Longrightarrow> decide b h None \<noteq> D_FAIL_CLOSED \<Longrightarrow> budgeted b (h @ [c])"

text \<open>The categories that say nothing about the health of a route or provider.\<close>

definition LOCAL_CATEGORIES :: "string list" where
  "LOCAL_CATEGORIES = [''success'', ''worker_blocked'', ''harness_configuration'', ''ownership_refused'',
     CONTEXT_LENGTH_CATEGORY, ''gateway_busy'', ''verification_failed'', ''ownership_violation'']"

definition SHARED_CATEGORIES :: "string list" where
  "SHARED_CATEGORIES = [''quota_exhausted'', ''rate_limited'', ''payment_required'', ''permission'',
     ''authentication'']"


section \<open>Lemmas\<close>

named_theorems fc_simps \<open>the fields of a classification\<close>

lemma FC_fields [fc_simps]:
  "fc_category (FC c a k s e) = c" "fc_action (FC c a k s e) = a" "fc_cooldown (FC c a k s e) = k"
  "fc_scope (FC c a k s e) = s" "fc_evidence (FC c a k s e) = e"
  by (simp_all add: FC_def)

text \<open>What holds of every classification, whatever the terminal said.\<close>

definition disciplined :: "failure \<Rightarrow> bool" where
  "disciplined c \<longleftrightarrow>
     (fc_scope c = ScopeNone \<longleftrightarrow> fc_category c \<in> set LOCAL_CATEGORIES) \<and>
     (fc_scope c = ScopeProvider \<longrightarrow> fc_category c \<in> set SHARED_CATEGORIES) \<and>
     (fc_action c = BLOCK \<longleftrightarrow>
        fc_category c \<in> {''success'', ''harness_configuration'', ''ownership_refused''})"

lemma disciplined_early: "classify_early t = Some c \<Longrightarrow> disciplined c"
  unfolding classify_early_def Let_def
  by (auto simp: disciplined_def LOCAL_CATEGORIES_def SHARED_CATEGORIES_def CONTEXT_LENGTH_CATEGORY_def
      fc_simps simp del: insert_iff split: if_splits)

lemma disciplined_status: "classify_status st lower ev k = Some c \<Longrightarrow> disciplined c"
  unfolding classify_status_def
  by (auto simp: disciplined_def LOCAL_CATEGORIES_def SHARED_CATEGORIES_def CONTEXT_LENGTH_CATEGORY_def
      fc_simps split: if_splits)

lemma disciplined_text: "disciplined (classify_text t lower ev k)"
  unfolding classify_text_def
  by (simp add: disciplined_def LOCAL_CATEGORIES_def SHARED_CATEGORIES_def CONTEXT_LENGTH_CATEGORY_def
      fc_simps)

lemma disciplined_busy: "disciplined (FC ''gateway_busy'' RETRY_INFRA k ScopeNone ev)"
  by (simp add: disciplined_def LOCAL_CATEGORIES_def fc_simps)

lemma disciplined_classify: "disciplined (classify t)"
  unfolding classify_def Let_def
  by (auto simp: disciplined_text disciplined_busy
      intro: disciplined_early disciplined_status split: option.split)

lemma first_hint_bounds: "first_hint ps s = Some h \<Longrightarrow> 0 < h \<and> h \<le> MAX_COOLDOWN_SECONDS"
  by (induction ps s rule: first_hint.induct)
     (auto simp: MAX_COOLDOWN_SECONDS_def split: option.splits if_splits)

lemma hinted_cooldown_bounds:
  assumes "case wt_retry_after_seconds t of None \<Rightarrow> True | Some r \<Rightarrow> 0 \<le> r \<and> r \<le> MAX_COOLDOWN_SECONDS"
  shows "0 \<le> hinted_cooldown t \<and> hinted_cooldown t \<le> MAX_COOLDOWN_SECONDS"
  using assms first_hint_bounds [of RETRY_AFTER_PATTERNS "wt_error t"]
  by (auto simp: hinted_cooldown_def parse_reset_hint_def MAX_COOLDOWN_SECONDS_def Let_def
      split: option.splits if_splits)

text \<open>The cooldown of a classification, given the hint it started from.\<close>

definition cooled :: "failure \<Rightarrow> bool" where
  "cooled c \<longleftrightarrow> 0 \<le> fc_cooldown c \<and> fc_cooldown c \<le> MAX_COOLDOWN_SECONDS \<and>
     (fc_scope c \<noteq> ScopeNone \<longrightarrow> 0 < fc_cooldown c) \<and>
     (fc_scope c = ScopeNone \<longrightarrow> fc_category c \<noteq> ''gateway_busy'' \<longrightarrow> fc_cooldown c = 0)"

lemma cooled_FC:
  assumes "0 \<le> k" "k \<le> MAX_COOLDOWN_SECONDS" "0 < d" "d \<le> MAX_COOLDOWN_SECONDS"
    and "s \<noteq> ScopeNone \<or> c = ''gateway_busy''"
  shows "cooled (FC c a (cool_or k d) s ev)"
  using assms by (auto simp: cooled_def cool_or_def fc_simps)

lemma cooled_zero: "cooled (FC c a 0 ScopeNone ev)"
  by (simp add: cooled_def fc_simps MAX_COOLDOWN_SECONDS_def)

lemma cooled_early: "classify_early t = Some c \<Longrightarrow> cooled c"
  unfolding classify_early_def Let_def
  by (auto simp: cooled_zero split: if_splits) (simp add: cooled_def fc_simps MAX_COOLDOWN_SECONDS_def)

lemma cooled_status:
  "0 \<le> k \<Longrightarrow> k \<le> MAX_COOLDOWN_SECONDS \<Longrightarrow> classify_status st lower ev k = Some c \<Longrightarrow> cooled c"
  unfolding classify_status_def
  by (auto simp: MAX_COOLDOWN_SECONDS_def intro!: cooled_FC split: if_splits)

lemma cooled_text:
  "0 \<le> k \<Longrightarrow> k \<le> MAX_COOLDOWN_SECONDS \<Longrightarrow> cooled (classify_text t lower ev k)"
  unfolding classify_text_def
  by (simp add: cooled_zero cooled_FC MAX_COOLDOWN_SECONDS_def)

lemma cooled_classify:
  assumes "0 \<le> hinted_cooldown t" "hinted_cooldown t \<le> MAX_COOLDOWN_SECONDS"
  shows "cooled (classify t)"
proof -
  have "cooled (FC ''gateway_busy'' RETRY_INFRA (cool_or (hinted_cooldown t) 15) ScopeNone ev)" for ev
    using assms by (intro cooled_FC) (auto simp: MAX_COOLDOWN_SECONDS_def)
  then show ?thesis unfolding classify_def Let_def
    using cooled_text [OF assms] cooled_status [OF assms]
    by (auto intro: cooled_early split: option.split)
qed

lemma verification_failures_snoc:
  "verification_failures (h @ [c]) =
     verification_failures h + (if fc_category c = ''verification_failed'' then 1 else 0)"
  by (simp add: verification_failures_def)

lemma decide_not_closed:
  "decide b h a \<noteq> D_FAIL_CLOSED \<Longrightarrow> int (length h) < rb_max_attempts_per_node b \<and>
     (h \<noteq> [] \<longrightarrow> fc_action (last h) \<noteq> BLOCK \<and>
        (fc_category (last h) = ''verification_failed'' \<longrightarrow>
           verification_failures h \<le> max 0 (rb_max_verification_repairs b)))"
  by (auto simp: decide_def Let_def split: if_splits)

lemma budgeted_bounds:
  "budgeted b h \<Longrightarrow> int (length h) \<le> max 0 (rb_max_attempts_per_node b) \<and>
     verification_failures h \<le> 1 + max 0 (rb_max_verification_repairs b) \<and>
     (verification_failures h = 1 + max 0 (rb_max_verification_repairs b) \<longrightarrow>
        h \<noteq> [] \<and> fc_category (last h) = ''verification_failed'')"
proof (induction rule: budgeted.induct)
  case budgeted_start
  then show ?case by (simp add: verification_failures_def)
next
  case (budgeted_next h c)
  then show ?case using decide_not_closed [OF budgeted_next.hyps(2)]
    by (auto simp: verification_failures_snoc)
qed


section \<open>Properties\<close>

text \<open>Every classification is disciplined: exactly the eight local categories (task feedback,
  local refusals, oversized requests, gateway congestion) leave routes and providers alone, a
  provider is held responsible only for the shared-credential categories, and only a success or a
  configuration or ownership refusal blocks further attempts.\<close>

theorem classify_disciplined:
  "(fc_scope (classify t) = ScopeNone \<longleftrightarrow> fc_category (classify t) \<in> set LOCAL_CATEGORIES) \<and>
   (fc_scope (classify t) = ScopeProvider \<longrightarrow> fc_category (classify t) \<in> set SHARED_CATEGORIES) \<and>
   (fc_action (classify t) = BLOCK \<longleftrightarrow>
      fc_category (classify t) \<in> {''success'', ''harness_configuration'', ''ownership_refused''})"
  using disciplined_classify [of t] unfolding disciplined_def .

definition sample_terminal :: "string \<Rightarrow> int option \<Rightarrow> rat option \<Rightarrow> worker_terminal" where
  "sample_terminal err status retry =
     \<lparr> wt_ok = False, wt_output = '''', wt_model = ''m'', wt_stop_reason = '''', wt_error = err,
       wt_status_code = status, wt_retry_after_seconds = retry, wt_session_ref = '''',
       wt_executor_kind = '''', wt_harness = '''' \<rparr>"

text \<open>When the terminal's own retry hint is between zero and a day, so is every cooldown; a failure
  charged to a route or provider always has a positive cooldown, and a local failure other than
  gateway congestion has none.\<close>

theorem classify_cooldown_bounds:
  assumes "case wt_retry_after_seconds t of None \<Rightarrow> True | Some r \<Rightarrow> 0 \<le> r \<and> r \<le> MAX_COOLDOWN_SECONDS"
  shows "0 \<le> fc_cooldown (classify t) \<and> fc_cooldown (classify t) \<le> MAX_COOLDOWN_SECONDS \<and>
    (fc_scope (classify t) \<noteq> ScopeNone \<longrightarrow> 0 < fc_cooldown (classify t)) \<and>
    (fc_scope (classify t) = ScopeNone \<longrightarrow> fc_category (classify t) \<noteq> ''gateway_busy'' \<longrightarrow>
       fc_cooldown (classify t) = 0)"
  using cooled_classify hinted_cooldown_bounds [OF assms] unfolding cooled_def by blast

text \<open>A failed verification without a status code keeps its category exactly when the text of
  the failing check names none of the transport, timeout, model or context markers. Otherwise the
  check's own output is read as a provider fault, although the failure is local.\<close>

theorem verification_failure_kept_iff:
  assumes "\<not> wt_ok t" and "prefix ''verification_failed'' (wt_error t)"
    and "wt_status_code t = None" and "wt_stop_reason t = ''''"
  shows "fc_category (classify t) = ''verification_failed'' \<longleftrightarrow>
    \<not> is_context_length_error (wt_error t) \<and> re_search GATEWAY_BUSY_RE (wt_error t) = None \<and>
    \<not> any_in [''model not found'', ''unknown model'', ''does not exist'', ''timeout'', ''timed out'',
       ''connection refused'', ''connection reset'', ''transport'', ''malformed''] (py_lower (wt_error t))"
proof -
  have p: "\<not> prefix ''worker_blocked:'' (wt_error t)" "\<not> prefix ''harness_configuration:'' (wt_error t)"
    "\<not> prefix ''ownership_refused:'' (wt_error t)" "wt_error t \<noteq> ''no_final_answer''"
    "wt_error t \<noteq> ''model_mismatch''"
    using assms(2) by (auto elim!: prefixE)
  show ?thesis
  proof (cases "is_context_length_error (wt_error t)")
    case True
    then show ?thesis using assms p
      by (simp add: classify_def classify_early_def Let_def fc_simps CONTEXT_LENGTH_CATEGORY_def)
  next
    case False
    then have "classify_early t = None" using assms p by (simp add: classify_early_def Let_def)
    then show ?thesis using assms p False
      by (auto simp: classify_def classify_text_def Let_def fc_simps any_in_def)
  qed
qed

theorem verification_failure_kept_iff_witness:
  "fc_category (classify (sample_terminal ''verification_failed: exit 1: test timed out'' None None))
     \<noteq> ''verification_failed''"
proof -
  let ?t = "sample_terminal ''verification_failed: exit 1: test timed out'' None None"
  have "\<not> wt_ok ?t" "prefix ''verification_failed'' (wt_error ?t)" "wt_status_code ?t = None"
    "wt_stop_reason ?t = ''''"
    by (simp_all add: sample_terminal_def)
  note kept = verification_failure_kept_iff [OF this]
  have "any_in [''model not found'', ''unknown model'', ''does not exist'', ''timeout'',
      ''timed out'', ''connection refused'', ''connection reset'', ''transport'', ''malformed'']
      (py_lower (wt_error ?t))"
    by code_simp
  then show ?thesis by (simp only: kept simp_thms)
qed

text \<open>The recovery budget bounds a node's history: when every further attempt is allowed by
  \<open>decide\<close>, the history never exceeds the attempt limit and never holds more failed
  verifications than one plus the repair limit.\<close>

theorem recovery_budget_bounds:
  assumes "budgeted b h"
  shows "int (length h) \<le> max 0 (rb_max_attempts_per_node b) \<and>
    verification_failures h \<le> 1 + max 0 (rb_max_verification_repairs b)"
  using budgeted_bounds [OF assms] by blast

theorem recovery_budget_bounds_witness:
  "budgeted \<lparr>rb_max_attempts_per_node = 4, rb_max_same_route_retries = 0, rb_max_verification_repairs = 1\<rparr>
     [FC ''verification_failed'' CORRECT_IMPLEMENTATION 0 ScopeNone '''',
      FC ''verification_failed'' CORRECT_IMPLEMENTATION 0 ScopeNone ''''] \<and>
   verification_failures [FC ''verification_failed'' CORRECT_IMPLEMENTATION 0 ScopeNone '''',
      FC ''verification_failed'' CORRECT_IMPLEMENTATION 0 ScopeNone ''''] \<le> 1 + max 0 1"
proof -
  let ?b = "\<lparr>rb_max_attempts_per_node = 4, rb_max_same_route_retries = 0, rb_max_verification_repairs = 1\<rparr>"
  let ?f = "FC ''verification_failed'' CORRECT_IMPLEMENTATION 0 ScopeNone ''''"
  have d: "decide ?b [] None \<noteq> D_FAIL_CLOSED" "decide ?b [?f] None \<noteq> D_FAIL_CLOSED" by code_simp+
  have "budgeted ?b [?f]" using budgeted_next [OF budgeted_start d(1), of ?f] by (simp only: append.simps)
  then have h: "budgeted ?b [?f, ?f]" using budgeted_next [OF _ d(2), of ?f] by (simp only: append.simps)
  show ?thesis using recovery_budget_bounds [OF h] h by simp
qed

end
