(* ===== verification/Session_Evidence.thy ===== *)
theory Session_Evidence
  imports Credential_Pools "HOL-Library.Multiset"
begin

section \<open>Evidence of worker sessions\<close>

text \<open>
  Models \<open>verdict/orchestration/session_evidence.py\<close>: session outcomes, the append-only ledger, its summaries and
  the importer of the controller's own ledger. A line of a file is given by its parsed fields; a locked append or
  load is one operation. Times are seconds; a score is an exact rational.
\<close>

definition FAILURE_CLASSES :: "string list" where
  "FAILURE_CLASSES = [''narrates_tool_calls'', ''gave_up'', ''false_success_claim'', ''transport_error'', ''timeout'', ''wrong_result'']"

record session_outcome =
  so_route_id :: route_id
  so_outcome :: string
  so_kind :: string
  so_failure_class :: "string option"
  so_verified_by_controller :: bool
  so_at :: rat
  so_source :: string
  so_child_id :: "string option"

datatype session_error = OutcomeRequired | UnknownFailureClass | PassWithFailure | NegativeWindow | MalformedLine | BadTimestamp

text \<open>The checks of \<open>__post_init__\<close>.\<close>

definition SessionOutcome :: "session_outcome \<Rightarrow> session_error + session_outcome" where
  "SessionOutcome x =
     (if py_strip (so_route_id x) = [] \<or> so_outcome x \<notin> {''pass'', ''fail''} then Inl OutcomeRequired
      else if (case so_failure_class x of None \<Rightarrow> False | Some f \<Rightarrow> f \<notin> set FAILURE_CLASSES) then Inl UnknownFailureClass
      else if so_outcome x = ''pass'' \<and> so_failure_class x \<noteq> None then Inl PassWithFailure
      else Inr x)"

definition identity :: "session_outcome \<Rightarrow> route_id \<times> rat \<times> string" where
  "identity x = (so_route_id x, so_at x, so_outcome x)"


subsection \<open>The ledger\<close>

text \<open>A line is blank, not a session at all, or has the fields of one.\<close>

datatype ledger_line = Blank | Garbage | Fields session_outcome

type_synonym ledger = "ledger_line list"

definition add_new :: "session_outcome \<Rightarrow> session_outcome list \<Rightarrow> session_outcome list" where
  "add_new x items = (if identity x \<in> set (map identity items) then items else items @ [x])"

definition read_line :: "ledger_line \<Rightarrow> session_outcome list \<times> nat \<Rightarrow> session_outcome list \<times> nat" where
  "read_line line st =
     (case line of
        Blank \<Rightarrow> st
      | Garbage \<Rightarrow> (fst st, Suc (snd st))
      | Fields x \<Rightarrow> (case SessionOutcome x of Inl e \<Rightarrow> (fst st, Suc (snd st)) | Inr y \<Rightarrow> (add_new y (fst st), snd st)))"

definition read_ledger :: "ledger \<Rightarrow> session_outcome list \<times> nat" where
  "read_ledger file = fold read_line file ([], 0)"

text \<open>An absent file is created by the first append.\<close>

definition append_outcome :: "session_outcome \<Rightarrow> ledger option \<Rightarrow> ledger option" where
  "append_outcome x file =
     (let lines = (case file of Some l \<Rightarrow> l | None \<Rightarrow> []) in
      Some (if identity x \<in> set (map identity (fst (read_ledger lines))) then lines else lines @ [Fields x]))"

definition load_ledger :: "ledger option \<Rightarrow> session_outcome list" where
  "load_ledger file = (case file of None \<Rightarrow> [] | Some lines \<Rightarrow> fst (read_ledger lines))"


subsection \<open>Summaries\<close>

record session_stats =
  ses_passes :: int
  ses_fails :: int
  ses_false_claims :: int
  ses_last_pass_at :: "rat option"
  ses_last_fail_at :: "rat option"
  ses_score :: rat

record tally =
  ta_passes :: int
  ta_fails :: int
  ta_false_claims :: int
  ta_last_pass :: "rat option"
  ta_last_fail :: "rat option"

definition latest :: "rat option \<Rightarrow> rat \<Rightarrow> rat option" where
  "latest t new = (case t of Some old \<Rightarrow> Some (max old new) | None \<Rightarrow> Some new)"

definition count_outcome :: "session_outcome \<Rightarrow> tally \<Rightarrow> tally" where
  "count_outcome x t =
     (if so_outcome x = ''pass'' then t \<lparr> ta_passes := ta_passes t + 1, ta_last_pass := latest (ta_last_pass t) (so_at x) \<rparr>
      else
        let false_claim = (so_failure_class x = Some ''false_success_claim'') in
        t \<lparr> ta_false_claims := ta_false_claims t + (if false_claim then 1 else 0),
            ta_fails := ta_fails t + (if false_claim then 2 else 1), ta_last_fail := latest (ta_last_fail t) (so_at x) \<rparr>)"

definition no_tally :: tally where
  "no_tally = \<lparr> ta_passes = 0, ta_fails = 0, ta_false_claims = 0, ta_last_pass = None, ta_last_fail = None \<rparr>"

definition summarize_items :: "session_outcome list \<Rightarrow> session_stats" where
  "summarize_items items =
     (let t = fold count_outcome items no_tally in
      \<lparr> ses_passes = ta_passes t, ses_fails = ta_fails t, ses_false_claims = ta_false_claims t,
        ses_last_pass_at = ta_last_pass t, ses_last_fail_at = ta_last_fail t,
        ses_score = of_int (ta_passes t + 1) / of_int (ta_passes t + ta_fails t + 2) \<rparr>)"

definition in_window :: "rat \<Rightarrow> int \<Rightarrow> session_outcome \<Rightarrow> bool" where
  "in_window now days x \<longleftrightarrow> so_verified_by_controller x \<and> now - of_int days * 86400 \<le> so_at x \<and> so_at x \<le> now"

definition window :: "rat \<Rightarrow> int \<Rightarrow> ledger option \<Rightarrow> session_error + session_outcome list" where
  "window now days file = (if days < 0 then Inl NegativeWindow else Inr (filter (in_window now days) (load_ledger file)))"

definition summarize :: "route_id \<Rightarrow> rat \<Rightarrow> int \<Rightarrow> ledger option \<Rightarrow> session_error + session_stats" where
  "summarize route now days file =
     bind_res (window now days file) (\<lambda>items. Inr (summarize_items (filter (\<lambda>x. so_route_id x = route) items)))"

definition model_part :: "route_id \<Rightarrow> string" where
  "model_part route = (case py_partition (CHR ''/'') route of (a, Some b) \<Rightarrow> b | (a, None) \<Rightarrow> [])"

definition same_backend :: "route_id \<Rightarrow> session_outcome \<Rightarrow> bool" where
  "same_backend route x \<longleftrightarrow> backend_pool (so_route_id x) = backend_pool route \<and> model_part (so_route_id x) = model_part route"

definition summarize_pool :: "route_id \<Rightarrow> rat \<Rightarrow> int \<Rightarrow> ledger option \<Rightarrow> session_error + session_stats" where
  "summarize_pool route now days file =
     bind_res (window now days file) (\<lambda>items. Inr (summarize_items (filter (same_backend route) items)))"


subsection \<open>Importing the controller's ledger\<close>

record controller_line =
  cl_kind :: string
  cl_outcome :: string
  cl_error :: string
  cl_route :: "string option"
  cl_ts :: "rat option option"
  cl_child :: string

definition worker_failure_class :: "string \<Rightarrow> string \<Rightarrow> string" where
  "worker_failure_class error message =
     (let txt = py_lower (error @ '' '' @ message);
          spaced = map (\<lambda>c. if c = CHR ''_'' then CHR '' '' else c) in
      case List.find (\<lambda>f. contains_sub f txt \<or> contains_sub (spaced f) txt)
          [''false_success_claim'', ''narrates_tool_calls'', ''gave_up'', ''timeout''] of
        Some f \<Rightarrow> f
      | None \<Rightarrow>
          if contains_sub ''timed out'' txt then ''timeout''
          else if list_ex (\<lambda>token. contains_sub token txt) [''transport'', ''upstream'', ''http'', ''429'', ''504'']
          then ''transport_error'' else ''wrong_result'')"

text \<open>Outcome and failure class of a line, for the kinds that count.\<close>

definition line_outcome :: "controller_line \<Rightarrow> (string \<times> string option) option" where
  "line_outcome l =
     (let message = cl_outcome l;
          starts = (\<lambda>ps. list_ex (\<lambda>p. prefix p message) ps);
          failed = Some (''fail'', Some (if prefix ''FALSE_CLAIM'' message then ''false_success_claim''
            else worker_failure_class (cl_error l) message)) in
      if cl_kind l = ''session_canary_v1'' \<and> prefix ''SESSION_CANARY_PASS'' message then Some (''pass'', None)
      else if cl_kind l = ''session_canary_v1'' \<and> starts [''SESSION_CANARY_FAIL'', ''SESSION_FAIL'', ''FALSE_CLAIM''] then failed
      else if cl_kind l = ''free_real_task'' \<and> starts [''REAL_TASK_PASS'', ''REAL_TASK_FIX_PASS''] then Some (''pass'', None)
      else if cl_kind l = ''free_real_task'' \<and> starts [''FALSE_CLAIM'', ''SESSION_FAIL'', ''SESSION_CANARY_FAIL''] then failed
      else None)"

definition import_line :: "string \<Rightarrow> controller_line \<Rightarrow> session_error + session_outcome option" where
  "import_line source l =
     (case (line_outcome l, cl_route l, cl_ts l) of
        (Some (outcome, failure), Some route, Some stamp) \<Rightarrow>
          (case stamp of
             None \<Rightarrow> Inl BadTimestamp
           | Some t \<Rightarrow>
               bind_res (SessionOutcome \<lparr> so_route_id = route, so_outcome = outcome, so_kind = cl_kind l, so_failure_class = failure,
                 so_verified_by_controller = True, so_at = t, so_source = source,
                 so_child_id = (if cl_child l = [] then None else Some (cl_child l)) \<rparr>) (\<lambda>x. Inr (Some x)))
      | _ \<Rightarrow> Inr None)"

text \<open>The lines that are not blank; \<open>None\<close> for one that is no JSON object, which ends the import with an error.\<close>

fun import_lines :: "string \<Rightarrow> controller_line option list \<Rightarrow> session_outcome list \<Rightarrow> session_error + session_outcome list" where
  "import_lines source [] items = Inr items"
| "import_lines source (None # ls) items = Inl MalformedLine"
| "import_lines source (Some l # ls) items =
     bind_res (import_line source l) (\<lambda>r.
     import_lines source ls (case r of None \<Rightarrow> items | Some x \<Rightarrow> add_new x items))"

definition import_worker_outcomes :: "string \<Rightarrow> controller_line option list \<Rightarrow> session_error + session_outcome list" where
  "import_worker_outcomes source ls = import_lines source ls []"


subsection \<open>What a ledger holds\<close>

definition well_formed :: "session_outcome \<Rightarrow> bool" where
  "well_formed x \<longleftrightarrow> SessionOutcome x = Inr x"

lemma SessionOutcome_Inr: "SessionOutcome x = Inr y \<Longrightarrow> y = x \<and> well_formed x"
  by (auto simp: SessionOutcome_def well_formed_def split: if_splits)

definition append_all :: "session_outcome list \<Rightarrow> ledger option \<Rightarrow> ledger option" where
  "append_all xs file = fold append_outcome xs file"

lemma load_append:
  assumes "well_formed x"
  shows "load_ledger (append_outcome x led) = add_new x (load_ledger led)"
  using assms
  by (cases led) (auto simp: load_ledger_def append_outcome_def read_ledger_def read_line_def well_formed_def add_new_def Let_def)

lemma load_append_all:
  assumes "\<forall>x\<in>set xs. well_formed x"
  shows "load_ledger (append_all xs led) = fold add_new xs (load_ledger led)"
  using assms unfolding append_all_def by (induction xs arbitrary: led) (simp_all add: load_append)

lemma fold_add_new:
  assumes "inj_on identity (set items \<union> set xs)" "distinct items"
  shows "distinct (fold add_new xs items) \<and> set (fold add_new xs items) = set items \<union> set xs"
  using assms
proof (induction xs arbitrary: items)
  case (Cons x xs)
  have mem: "identity x \<in> identity ` set items \<longleftrightarrow> x \<in> set items"
    by (rule inj_on_image_mem_iff [OF Cons.prems(1)]) auto
  have new: "distinct (add_new x items)" "set (add_new x items) = insert x (set items)"
    using Cons.prems(2) by (auto simp: add_new_def mem)
  have "inj_on identity (set (add_new x items) \<union> set xs)" using Cons.prems(1) by (simp add: new(2))
  from Cons.IH [OF this new(1)] show ?case by (simp add: new(2))
qed simp

lemma count_outcome_commutes: "count_outcome x \<circ> count_outcome y = count_outcome y \<circ> count_outcome x"
  by (rule ext) (auto simp: count_outcome_def latest_def Let_def max_def split: option.split)

lemma summarize_items_mset:
  assumes "mset xs = mset ys"
  shows "summarize_items xs = summarize_items ys"
  using fold_multiset_equiv [of xs count_outcome ys] assms count_outcome_commutes
  by (simp add: summarize_items_def)

lemma filtered_equal:
  assumes "distinct xs" "distinct ys" "set xs = set ys"
  shows "summarize_items (filter P (filter Q xs)) = summarize_items (filter P (filter Q ys))"
proof (rule summarize_items_mset)
  from assms have "mset xs = mset ys" by (simp add: set_eq_iff_mset_eq_distinct)
  then show "mset (filter P (filter Q xs)) = mset (filter P (filter Q ys))" by simp
qed

text \<open>The counts of a summary.\<close>

definition failures :: "session_outcome list \<Rightarrow> session_outcome list" where
  "failures items = filter (\<lambda>x. so_outcome x \<noteq> ''pass'') items"

definition false_claims :: "session_outcome list \<Rightarrow> session_outcome list" where
  "false_claims items = filter (\<lambda>x. so_failure_class x = Some ''false_success_claim'') (failures items)"

lemma tally_counts:
  "ta_passes (fold count_outcome items t) = ta_passes t + int (length (filter (\<lambda>x. so_outcome x = ''pass'') items))"
  "ta_fails (fold count_outcome items t) = ta_fails t + int (length (failures items)) + int (length (false_claims items))"
  "ta_false_claims (fold count_outcome items t) = ta_false_claims t + int (length (false_claims items))"
  by (induction items arbitrary: t) (simp_all add: count_outcome_def failures_def false_claims_def Let_def)

lemma summary_counts:
  "ses_passes (summarize_items items) = int (length (filter (\<lambda>x. so_outcome x = ''pass'') items))"
  "ses_fails (summarize_items items) = int (length (failures items)) + int (length (false_claims items))"
  "ses_false_claims (summarize_items items) = int (length (false_claims items))"
  by (simp_all add: summarize_items_def Let_def tally_counts no_tally_def)

lemma summary_score:
  "ses_score (summarize_items items) =
     of_int (ses_passes (summarize_items items) + 1) / of_int (ses_passes (summarize_items items) + ses_fails (summarize_items items) + 2)"
  by (simp add: summarize_items_def Let_def)



section \<open>Properties\<close>

text \<open>C26. Importing is idempotent and independent of order. Take any series of well-formed outcomes in which no two
  different outcomes have the same route, time and result (of two failures of one route at the same instant the ledger
  keeps only the first, whatever their failure classes). Appended to a new ledger, in any order and with any
  repetitions, they are all there when it is read, each exactly once, and every route and every backend gets the same
  statistics in every window.\<close>

theorem repeated_imports_count_once:
  assumes "set xs = set ys" and "\<forall>x\<in>set xs. well_formed x"
    and "\<forall>x\<in>set xs. \<forall>y\<in>set xs. so_route_id x = so_route_id y \<and> so_at x = so_at y \<and> so_outcome x = so_outcome y \<longrightarrow> x = y"
  shows "distinct (load_ledger (append_all xs None)) \<and> set (load_ledger (append_all xs None)) = set xs \<and>
    summarize route now days (append_all xs None) = summarize route now days (append_all ys None) \<and>
    summarize_pool route now days (append_all xs None) = summarize_pool route now days (append_all ys None)"
proof -
  have ids: "inj_on identity (set xs)"
    using assms(3) by (intro inj_onI) (simp add: identity_def)
  have once: "distinct (load_ledger (append_all zs None)) \<and> set (load_ledger (append_all zs None)) = set xs" if "set zs = set xs" for zs
    using load_append_all [of zs None] fold_add_new [of "[]" zs] assms(2) ids that by (simp add: load_ledger_def)
  from once [of xs] once [of ys] assms(1)
  have same: "distinct (load_ledger (append_all xs None))" "distinct (load_ledger (append_all ys None))"
    "set (load_ledger (append_all xs None)) = set (load_ledger (append_all ys None))" by simp_all
  note stats = filtered_equal [OF same]
  have "summarize route now days (append_all xs None) = summarize route now days (append_all ys None)"
    unfolding summarize_def window_def by (simp only: stats bind_res.simps split: if_split) simp
  moreover have "summarize_pool route now days (append_all xs None) = summarize_pool route now days (append_all ys None)"
    unfolding summarize_pool_def window_def by (simp only: stats bind_res.simps split: if_split) simp
  ultimately show ?thesis using once [of xs] by simp
qed

text \<open>A score lies strictly between zero and one, and below one half exactly when the failures, false claims counted
  twice, outnumber the passes.\<close>

theorem score_weighs_false_claims_twice:
  "0 < ses_score (summarize_items items) \<and> ses_score (summarize_items items) < 1 \<and>
   (ses_score (summarize_items items) < 1 / 2 \<longleftrightarrow>
      length (filter (\<lambda>x. so_outcome x = ''pass'') items) < length (failures items) + length (false_claims items))"
proof -
  define p where "p = ses_passes (summarize_items items)"
  define f where "f = ses_fails (summarize_items items)"
  have nonneg: "0 \<le> p" "0 \<le> f" by (simp_all add: p_def f_def summary_counts)
  have score: "ses_score (summarize_items items) = of_int (p + 1) / of_int (p + f + 2)" by (simp add: summary_score p_def f_def)
  have "(of_int (p + 1) / of_int (p + f + 2) :: rat) < 1 / 2 \<longleftrightarrow> p < f" using nonneg by (simp add: field_simps)
  moreover have "p < f \<longleftrightarrow> length (filter (\<lambda>x. so_outcome x = ''pass'') items) < length (failures items) + length (false_claims items)"
    unfolding p_def f_def summary_counts by linarith
  ultimately show ?thesis unfolding score using nonneg by simp
qed

definition sample_outcome_of :: "route_id \<Rightarrow> string \<Rightarrow> string option \<Rightarrow> rat \<Rightarrow> session_outcome" where
  "sample_outcome_of route outcome failure t = \<lparr> so_route_id = route, so_outcome = outcome, so_kind = ''session_canary_v1'',
     so_failure_class = failure, so_verified_by_controller = True, so_at = t, so_source = ''ledger'', so_child_id = None \<rparr>"

definition passed_session :: session_outcome where
  "passed_session = sample_outcome_of ''g/a'' ''pass'' None 900"

definition false_session :: session_outcome where
  "false_session = sample_outcome_of ''g/a'' ''fail'' (Some ''false_success_claim'') 950"

theorem repeated_imports_count_once_witness:
  "set (load_ledger (append_all [passed_session, false_session, passed_session] None)) = {passed_session, false_session} \<and>
   summarize ''g/a'' 1000 14 (append_all [passed_session, false_session, passed_session] None) =
   summarize ''g/a'' 1000 14 (append_all [false_session, passed_session] None)"
proof -
  have wf: "well_formed passed_session" "well_formed false_session" and ids: "so_at passed_session \<noteq> so_at false_session"
    by code_simp+
  have "\<forall>x\<in>set [passed_session, false_session, passed_session]. \<forall>y\<in>set [passed_session, false_session, passed_session].
      so_route_id x = so_route_id y \<and> so_at x = so_at y \<and> so_outcome x = so_outcome y \<longrightarrow> x = y"
    using ids by auto
  moreover have "set [passed_session, false_session, passed_session] = set [false_session, passed_session]" by auto
  moreover have "\<forall>x\<in>set [passed_session, false_session, passed_session]. well_formed x" using wf by simp
  ultimately have "set (load_ledger (append_all [passed_session, false_session, passed_session] None)) =
      set [passed_session, false_session, passed_session] \<and>
      summarize ''g/a'' 1000 14 (append_all [passed_session, false_session, passed_session] None) =
      summarize ''g/a'' 1000 14 (append_all [false_session, passed_session] None)"
    using repeated_imports_count_once by blast
  then show ?thesis by auto
qed

end
