(* ===== verification/Eligibility.thy ===== *)
theory Eligibility
  imports Admission Recovery Session_Evidence "HOL-Library.Product_Lexorder" "HOL-Library.Multiset"
begin

section \<open>The eligibility ladder\<close>

text \<open>
  Models \<open>verdict/orchestration/eligibility.py\<close>, the selector of the runtime, with the capacity classes of
  \<open>verdict/capacity.py\<close>, over the rows, connections and admitted records of the admission. A time that does not
  parse is \<open>None\<close>, and times are compared as times where the code compares their ISO texts. What other services answer
  (ratings, the id classifier, session history, token usage, load, live probes, the passport store and what other
  processes have written to the health cache meanwhile) is part of the environment of a selection. Receipts and
  the display fields of a verdict are left out.
\<close>

subsection \<open>Outside answers and the ladder\<close>

text \<open>
  \<open>ou_conf\<close> is the bucket configuration of a cache object that is opened anew, \<open>ou_iso\<close> the ISO text of a time.
  Ratings are the keys that \<open>rating_key\<close> builds. \<open>ou_ledger\<close> is the session ledger, if there is one that can be read.
\<close>

record outside =
  ou_env :: cache_env
  ou_conf :: bucket_cache
  ou_iso :: "rat \<Rightarrow> string"
  ou_session_ttl :: rat
  ou_public_free :: "route_id \<Rightarrow> bool"
  ou_tier :: "route_id \<Rightarrow> int option"
  ou_rating :: "route_id \<Rightarrow> int \<times> rat \<times> int"
  ou_tokens :: "route_id \<Rightarrow> rat option"
  ou_rankings :: "(route_id, int) dict"
  ou_rankings_fresh :: bool
  ou_rankings_category :: "string option"
  ou_load :: "route_id \<Rightarrow> int"
  ou_ledger :: "ledger option option"

text \<open>
  \<open>ld_harness\<close>: no harness gate, a gate without inventory, or the ids the harness can spawn. Of its admitted set the
  ladder keeps the records and the time of the admission.
\<close>

record ladder =
  ld_rows :: "(route_id, inventory_row) dict"
  ld_connections :: "connection list"
  ld_ttl :: rat
  ld_harness :: "route_id list option option"
  ld_prefer_providers :: "string list"
  ld_max_per_route :: int
  ld_max_probes :: int
  ld_min_quota_percent :: rat
  ld_health :: "(route_id, ladder_health) dict"
  ld_cooldowns :: "(string, ladder_cooldown) dict"
  ld_not_free :: "(string, ladder_cooldown) dict"
  ld_admitted :: "admission_record list option"
  ld_admitted_at :: rat
  ld_cache :: "health_cache option"


subsection \<open>Stages of the admission\<close>

definition ADMISSION_TO_LADDER :: "admission_stage \<Rightarrow> eligibility_stage option" where
  "ADMISSION_TO_LADDER stage = (case stage of
      Ad_DISCOVERED \<Rightarrow> Some DISCOVERED | Ad_ENTITLED \<Rightarrow> Some ENTITLED | Ad_HEALTHY \<Rightarrow> Some HEALTHY
    | Ad_AVAILABLE \<Rightarrow> Some AVAILABLE | _ \<Rightarrow> None)"


subsection \<open>Capacity classes\<close>

definition is_openrouter_catalog_route :: "route_id \<Rightarrow> bool" where
  "is_openrouter_catalog_route route \<longleftrightarrow> route_prefix route = ''openrouter''"

definition provider_data_free :: "provider_data \<Rightarrow> string option" where
  "provider_data_free pd =
     (if pd_import_free_models_only pd then Some ''importFreeModelsOnly''
      else if contains_sub ''free'' (py_lower (pd_tier pd)) then Some ''providerSpecificData.tier''
      else if contains_sub ''free'' (py_lower (pd_plan pd)) then Some ''providerSpecificData.plan''
      else None)"

definition connection_signals_free :: "connection \<Rightarrow> string option" where
  "connection_signals_free c =
     (if cn_import_free_models_only c then Some ''importFreeModelsOnly''
      else if cn_import_free_only c then Some ''import_free_only''
      else (case Option.bind (cn_provider_data c) provider_data_free of
              Some rule \<Rightarrow> Some rule
            | None \<Rightarrow> if contains_sub ''free'' (py_lower (cn_plan_label c)) then Some ''plan_label'' else None))"

definition classify_route_capacity ::
  "outside \<Rightarrow> connection option \<Rightarrow> inventory_row \<Rightarrow> route_id \<Rightarrow> capacity_class \<times> string" where
  "classify_route_capacity ou conn row route =
     (case conn of
        None \<Rightarrow> (UNKNOWN, ''no_connection'')
      | Some c \<Rightarrow>
          let auth = py_lower (py_strip (cn_auth_type c));
              openrouter = route \<noteq> [] \<and> is_openrouter_catalog_route route in
          if openrouter \<and> ou_public_free ou route then (FREE, ''openrouter_public_zero'')
          else if openrouter \<or> py_lower (cn_provider c) = ''openrouter'' then (METERED, ''openrouter_not_in_public_free_set'')
          else if py_lower (cn_provider c) = ''anthropic'' \<and> auth = ''apikey'' then (METERED, ''anthropic_apikey'')
          else if route \<noteq> [] \<and> has_free_suffix route then (FREE, ''free_suffix'')
          else (case connection_signals_free c of
                  Some signal \<Rightarrow> (FREE, signal)
                | None \<Rightarrow>
                    if auth = ''oauth'' then (SUBSCRIPTION, ''oauth_subscription'')
                    else if ir_prices row \<noteq> [] \<and> list_all (\<lambda>p. p = 0) (ir_prices row) then (FREE, ''all_zero_pricing'')
                    else if list_ex (\<lambda>p. p > 0) (ir_prices row) then (METERED, ''apikey_positive_pricing'')
                    else (FREE, ''assumed_free_no_paid_evidence'')))"

definition billing_capacity_override :: "health_cache \<Rightarrow> route_id \<Rightarrow> rat \<Rightarrow> bool" where
  "billing_capacity_override cache route now \<longleftrightarrow>
     (case map_of (hc_routes cache) route of
        None \<Rightarrow> False
      | Some e \<Rightarrow> \<not> he_healthy e \<and> he_capacity_evidence e = Some ''billing_402_metered'' \<and> he_until e > now)"

definition ladder_capacity :: "outside \<Rightarrow> ladder \<Rightarrow> connection option \<Rightarrow> inventory_row \<Rightarrow> route_id \<Rightarrow> rat \<Rightarrow> capacity_class \<times> string" where
  "ladder_capacity ou l conn row route now =
     (if (case ld_cache l of None \<Rightarrow> False | Some cache \<Rightarrow> billing_capacity_override cache route now)
      then (METERED, ''billing_402_metered'')
      else classify_route_capacity ou conn row route)"

definition CAPACITY_ORDER :: "capacity_class \<Rightarrow> int" where
  "CAPACITY_ORDER c = (case c of FREE \<Rightarrow> 0 | SUBSCRIPTION \<Rightarrow> 1 | METERED \<Rightarrow> 2 | UNKNOWN \<Rightarrow> 3)"


subsection \<open>Quota, connections and cooldowns\<close>

definition CATEGORY_COOLDOWN_SECONDS :: "(string, rat) dict" where
  "CATEGORY_COOLDOWN_SECONDS =
     [(''rate_limited'', 60), (''quota_exhausted'', 3600), (''authentication'', 3600), (''payment_required'', 3600),
      (''permission'', 3600), (''unsupported'', 86400), (''unservable'', 21600), (''timeout'', 60),
      (''upstream_temporary'', 60), (''transport_temporary'', 60), (''catalog_stale'', 21600)]"

definition cooldown_seconds_for :: "string \<Rightarrow> rat option \<Rightarrow> rat" where
  "cooldown_seconds_for category retry_after =
     (let dflt = (case map_of CATEGORY_COOLDOWN_SECONDS category of Some s \<Rightarrow> s | None \<Rightarrow> 60) in
      case retry_after of Some r \<Rightarrow> if r > 0 then r else dflt | None \<Rightarrow> dflt)"

definition quota_rank :: "rat option \<Rightarrow> int" where
  "quota_rank percent = (case percent of None \<Rightarrow> 2 | Some p \<Rightarrow> 4 - min 4 \<lfloor>p / 20\<rfloor>)"

text \<open>The first active connection of a provider, else its first.\<close>

definition connection_for :: "ladder \<Rightarrow> string \<Rightarrow> connection option" where
  "connection_for l provider =
     (let mine = filter (\<lambda>c. py_lower (cn_provider c) = py_lower provider) (ld_connections l) in
      case List.find cn_is_active mine of
        Some c \<Rightarrow> Some c
      | None \<Rightarrow> (case mine of [] \<Rightarrow> None | c # _ \<Rightarrow> Some c))"

definition provider_of :: "ladder \<Rightarrow> route_id \<Rightarrow> string" where
  "provider_of l route =
     (let raw = (case map_of (ld_rows l) route of Some row \<Rightarrow> py_lower (ir_owned_by row) | None \<Rightarrow> []);
          provider = (if raw = [] then raw else resolve_provider raw) in
      if provider = [] then route_prefix route else provider)"

text \<open>A shared provider cooldown for a rate limit does not count once a connection was tested with quota left.\<close>

definition refuted :: "ladder \<Rightarrow> string \<Rightarrow> rat \<Rightarrow> route_id option \<Rightarrow> scoped_cooldown \<Rightarrow> bool" where
  "refuted l key now route cd \<longleftrightarrow>
     (case route of
        None \<Rightarrow> False
      | Some r \<Rightarrow> prefix ''provider:'' key \<and> cd_category cd \<in> set RATE_LIMIT_COOLDOWN_CATEGORIES \<and>
          list_ex (\<lambda>c. py_lower (cn_provider c) = drop (length ''provider:'') key \<and> cn_is_active c \<and>
            live_quota_refutes_rate_limit c r (Some (cd_checked_at cd)) now) (ld_connections l))"

definition active_cooldown :: "outside \<Rightarrow> ladder \<Rightarrow> string \<Rightarrow> rat \<Rightarrow> route_id option \<Rightarrow> rat option" where
  "active_cooldown ou l key now route =
     (let own = map_option lc_until (map_of (ld_cooldowns l) key);
          cached = (case ld_cache l of None \<Rightarrow> None | Some cache \<Rightarrow> cooldown_for key now (hc_cooldowns cache));
          cached' = (case cached of None \<Rightarrow> None | Some cd \<Rightarrow> if refuted l key now route cd then None else Some cd);
          until = (case cached' of
              None \<Rightarrow> own
            | Some cd \<Rightarrow> (case own of None \<Rightarrow> Some (cd_until cd) | Some u \<Rightarrow> Some (if cd_until cd > u then cd_until cd else u)))
      in case until of None \<Rightarrow> None | Some u \<Rightarrow> if u > now then Some u else None)"

definition rate_limited_until :: "connection option \<Rightarrow> route_id \<Rightarrow> rat \<Rightarrow> rat option" where
  "rate_limited_until conn route now =
     (case conn of
        None \<Rightarrow> None
      | Some c \<Rightarrow>
          foldl (\<lambda>blocked (key, until).
            if CHR ''/'' \<in> set key \<and> key \<noteq> route then blocked
            else (case until of
                    None \<Rightarrow> blocked
                  | Some u \<Rightarrow> if u > now \<and> (case blocked of None \<Rightarrow> True | Some b \<Rightarrow> u > b) then Some u else blocked))
            None (cn_rate_limited_until c))"



subsection \<open>Health of a route\<close>

datatype route_health = Healthy | Unhealthy | Unprobed | Stale

text \<open>
  \<open>_health_status\<close>. An unexpired failure of the shared cache counts first; an expired one is half-open, and only
  a newer success of the ladder itself closes it.
\<close>

definition half_open :: "ladder_health \<Rightarrow> health_entry option \<Rightarrow> bool" where
  "half_open h expired \<longleftrightarrow>
     (case expired of
        None \<Rightarrow> False
      | Some e \<Rightarrow> \<not> lh_healthy h \<or> (case lh_checked_at h of None \<Rightarrow> True | Some t \<Rightarrow> t \<le> he_checked_at e))"

definition own_status :: "ladder \<Rightarrow> route_id \<Rightarrow> rat \<Rightarrow> health_entry option \<Rightarrow> route_health \<times> string" where
  "own_status l route now expired =
     (case map_of (ld_health l) route of
        None \<Rightarrow> (Unprobed, case expired of Some e \<Rightarrow> he_category e | None \<Rightarrow> [])
      | Some h \<Rightarrow>
          if half_open h expired then (Unprobed, case expired of Some e \<Rightarrow> he_category e | None \<Rightarrow> [])
          else if (case lh_checked_at h of None \<Rightarrow> True | Some t \<Rightarrow> now - t > ld_ttl l) then (Stale, lh_category h)
          else if lh_healthy h then (Healthy, []) else (Unhealthy, lh_category h))"

definition cached_entry :: "ladder \<Rightarrow> route_id \<Rightarrow> health_entry option" where
  "cached_entry l route = (case ld_cache l of None \<Rightarrow> None | Some cache \<Rightarrow> map_of (hc_routes cache) route)"

definition health_status :: "outside \<Rightarrow> ladder \<Rightarrow> route_id \<Rightarrow> rat \<Rightarrow> route_health \<times> string" where
  "health_status ou l route now =
     (let admitted = (case ld_admitted l of None \<Rightarrow> False | Some records \<Rightarrow> proven_healthy records route);
          rest = (\<lambda>expired. if admitted then (Healthy, []) else own_status l route now expired) in
      case cached_entry l route of
        None \<Rightarrow> rest None
      | Some e \<Rightarrow>
          if \<not> he_healthy e then
            (if state_at (ce_fresh (ou_env ou)) e now = NEGATIVE then (Unhealthy, he_category e) else rest (Some e))
          else if state_at (ce_fresh (ou_env ou)) e now = FRESH then (Healthy, []) else rest None)"


subsection \<open>The task gate\<close>

definition EFFORT_SUFFIXES :: "string list" where
  "EFFORT_SUFFIXES = [''-low'', ''-medium'', ''-high'', ''-xhigh'', ''-max'', ''-ultra'']"

definition effort_duplicate :: "ladder \<Rightarrow> route_id \<Rightarrow> bool" where
  "effort_duplicate l route \<longleftrightarrow>
     list_ex (\<lambda>e. suffix e (py_lower route) \<and> take (length route - length e) route \<in> set (dict_keys (ld_rows l)))
       EFFORT_SUFFIXES"

definition session_summary :: "outside \<Rightarrow> route_id \<Rightarrow> rat \<Rightarrow> int \<Rightarrow> session_stats option" where
  "session_summary ou route now days =
     (case ou_ledger ou of
        None \<Rightarrow> None
      | Some led \<Rightarrow> (case summarize_pool route now days led of Inl e \<Rightarrow> None | Inr stats \<Rightarrow> Some stats))"

text \<open>A free route does implementation work only with a current agentic proof and no recent false claim.\<close>

definition agentic_gate :: "outside \<Rightarrow> ladder \<Rightarrow> route_id \<Rightarrow> rat \<Rightarrow> string" where
  "agentic_gate ou l route now =
     (if ld_cache l = None then ''no_health_cache''
      else
        let entry = cached_entry l route in
        if \<not> agentic_qualified (ou_session_ttl ou) entry now then
          (case entry of
             None \<Rightarrow> ''no_agentic_probe''
           | Some e \<Rightarrow>
               if he_session_agentic_at e \<noteq> None then ''session_capability_expired_or_revoked''
               else if \<not> he_agentic_ok e then ''no_agentic_probe'' else ''agentic_probe_stale'')
        else
          (case (session_summary ou route now 14, session_summary ou route now 7) of
             (Some stats, Some recent) \<Rightarrow>
               if ses_passes stats + ses_fails stats = 0 then []
               else if ses_false_claims recent \<noteq> 0 then ''recent_false_claim''
               else if ses_score stats < 1 / 2 then ''session_evidence_insufficient'' else []
           | _ \<Rightarrow> []))"

definition task_gate :: "outside \<Rightarrow> ladder \<Rightarrow> inventory_row \<Rightarrow> route_id \<Rightarrow> task_requirements \<Rightarrow> capacity_class \<Rightarrow> rat \<Rightarrow> string" where
  "task_gate ou l row route req capacity now =
     (case List.find (\<lambda>needed. \<not> has_capability row needed) (sorted_set (tr_required_capabilities req)) of
        Some needed \<Rightarrow> ''missing_capability:'' @ needed
      | None \<Rightarrow>
          if context_of row < tr_min_context_tokens req then ''insufficient_context''
          else if pool_of route \<in> set (tr_exclude_pools req) then ''excluded_pool''
          else if route \<in> set (tr_exclude_routes req) then ''excluded_route''
          else if route_family route \<in> set (tr_exclude_families req) then ''excluded_family''
          else if backend_pool route \<in> set (tr_exclude_families req) then ''excluded_family''
          else if backend_pool route \<in> set (aliased_pools_for (tr_exclude_routes req)) then ''excluded_family''
          else if effort_duplicate l route then ''effort_duplicate''
          else if capacity = FREE \<and> \<not> tr_frontier_worthy req then agentic_gate ou l route now
          else [])"

definition CODING_MARKERS :: "string list" where
  "CODING_MARKERS = [''code'', ''codex'', ''sonnet'', ''fable'', ''opus'']"

definition fit :: "inventory_row \<Rightarrow> route_id \<Rightarrow> task_requirements \<Rightarrow> int" where
  "fit row route req =
     (if tr_coding req \<and> list_ex (\<lambda>m. contains_sub m (py_lower route)) CODING_MARKERS then 2 else 0) +
     (if tr_reasoning req \<and> map_of (ir_capabilities row) ''reasoning'' = Some True then 1 else 0)"

definition declared_tier :: "inventory_row \<Rightarrow> int option" where
  "declared_tier row =
     (case ir_capability_tier row of None \<Rightarrow> None | Some t \<Rightarrow> if 0 \<le> t \<and> t \<le> 3 then Some t else None)"

definition capability_tier :: "outside \<Rightarrow> inventory_row \<Rightarrow> route_id \<Rightarrow> int option" where
  "capability_tier ou row route = (case declared_tier row of Some t \<Rightarrow> Some t | None \<Rightarrow> ou_tier ou route)"

definition context_window :: "inventory_row \<Rightarrow> int option" where
  "context_window row =
     (case (case ir_max_input_tokens row of Some n \<Rightarrow> Some n | None \<Rightarrow> ir_context_length row) of
        None \<Rightarrow> None | Some n \<Rightarrow> if n > 0 then Some n else None)"



subsection \<open>Assessing a route\<close>

record assessment =
  as_route_id :: route_id
  as_provider :: string
  as_capacity :: capacity_class
  as_capacity_evidence :: string
  as_pool :: string
  as_failed_stage :: "eligibility_stage option"
  as_reason :: string
  as_cooldown_until :: "rat option"
  as_cooldown_scope :: string
  as_health :: route_health
  as_health_category :: string
  as_quota_percent :: "rat option"
  as_context_window :: "int option"
  as_tier :: int
  as_tier_known :: bool
  as_slack :: int
  as_probation :: bool
  as_fit :: int
  as_rating :: "(int \<times> rat \<times> int) option"

definition Assessment :: "route_id \<Rightarrow> string \<Rightarrow> capacity_class \<times> string \<Rightarrow> assessment" where
  "Assessment route provider capacity =
     \<lparr> as_route_id = route, as_provider = provider, as_capacity = fst capacity, as_capacity_evidence = snd capacity,
       as_pool = pool_of route, as_failed_stage = None, as_reason = [], as_cooldown_until = None, as_cooldown_scope = [],
       as_health = Unprobed, as_health_category = [], as_quota_percent = None, as_context_window = None, as_tier = 2,
       as_tier_known = False, as_slack = 0, as_probation = False, as_fit = 0, as_rating = None \<rparr>"

definition failed_at :: "eligibility_stage \<Rightarrow> string \<Rightarrow> assessment \<Rightarrow> assessment" where
  "failed_at stage reason a = a \<lparr> as_failed_stage := Some stage, as_reason := reason \<rparr>"

definition selectable :: "assessment \<Rightarrow> bool" where
  "selectable a \<longleftrightarrow> as_failed_stage a = None \<and> as_health a \<noteq> Unhealthy"

text \<open>The last stage before the failed one, or before \<open>HEALTHY\<close> when the route is not healthy.\<close>

fun reached_from :: "assessment \<Rightarrow> eligibility_stage option \<Rightarrow> eligibility_stage list \<Rightarrow> eligibility_stage option" where
  "reached_from a r [] = r"
| "reached_from a r (stage # stages) =
     (if as_failed_stage a = Some stage \<or> (stage = HEALTHY \<and> as_health a \<noteq> Healthy) then r
      else reached_from a (Some stage) stages)"

definition reached :: "assessment \<Rightarrow> eligibility_stage option" where
  "reached a = reached_from a None [DISCOVERED, ENTITLED, HEALTHY, AVAILABLE, TASK_ELIGIBLE]"

text \<open>The provider of a row and its connection: the owner by its alias, else by its own name.\<close>

definition provider_connection :: "ladder \<Rightarrow> route_id \<Rightarrow> inventory_row \<Rightarrow> string \<times> connection option" where
  "provider_connection l route row =
     (let raw = py_lower (ir_owned_by row);
          resolved = (if raw = [] then raw else resolve_provider raw);
          provider = (if resolved = [] then route_prefix route else resolved) in
      case connection_for l provider of
        Some c \<Rightarrow> (provider, Some c)
      | None \<Rightarrow>
          if raw \<noteq> [] \<and> raw \<noteq> provider then
            (case connection_for l raw of Some c \<Rightarrow> (raw, Some c) | None \<Rightarrow> (provider, None))
          else (provider, None))"

definition harness_visible :: "ladder \<Rightarrow> route_id \<Rightarrow> bool" where
  "harness_visible l route \<longleftrightarrow>
     (case ld_harness l of None \<Rightarrow> True | Some None \<Rightarrow> False | Some (Some ids) \<Rightarrow> route \<in> set ids)"

definition cooldown_keys :: "route_id \<Rightarrow> string \<Rightarrow> (string \<times> string) list" where
  "cooldown_keys route provider =
     [(''pool:'' @ pool_of route, ''cooldown:pool''), (''route:'' @ route, ''cooldown:route''),
      (''provider:'' @ provider, ''cooldown:provider'')]"

definition measured_quota :: "ladder \<Rightarrow> string \<Rightarrow> route_id \<Rightarrow> rat list" where
  "measured_quota l provider route =
     List.map_filter (\<lambda>c. quota_remaining c route)
       (filter (\<lambda>c. py_lower (cn_provider c) = provider \<and> cn_is_active c) (ld_connections l))"

definition quota_resets :: "ladder \<Rightarrow> string \<Rightarrow> rat list" where
  "quota_resets l provider =
     List.map_filter cn_quota_reset_at
       (filter (\<lambda>c. py_lower (cn_provider c) = provider \<and> cn_is_active c) (ld_connections l))"

definition min_of :: "rat list \<Rightarrow> rat option" where
  "min_of xs = (case xs of [] \<Rightarrow> None | x # rest \<Rightarrow> Some (foldl min x rest))"

definition UNKNOWN_SLACK :: int where
  "UNKNOWN_SLACK = 4"

text \<open>The last part of \<open>_assess\<close>: the task gate, the capability tier and the values that rank a route.\<close>

definition assess_task ::
  "outside \<Rightarrow> ladder \<Rightarrow> task_requirements \<Rightarrow> rat \<Rightarrow> route_id \<Rightarrow> inventory_row \<Rightarrow> assessment \<Rightarrow> assessment" where
  "assess_task ou l req now route row a0 =
     (let a = a0 \<lparr> as_context_window := context_window row \<rparr>;
          reason = task_gate ou l row route req (as_capacity a) now;
          rated = (\<lambda>b. b \<lparr> as_probation := as_capacity b = FREE \<and> \<not> tr_frontier_worthy req \<and> tr_max_capability_tier req = 3,
            as_fit := fit row route req, as_rating := Some (ou_rating ou route) \<rparr>) in
      if reason \<noteq> [] then failed_at TASK_ELIGIBLE reason a
      else
        (case capability_tier ou row route of
           None \<Rightarrow>
             if tr_max_capability_tier req < 3 then failed_at TASK_ELIGIBLE ''unknown_capability'' a
             else rated (a \<lparr> as_tier := 3, as_slack := UNKNOWN_SLACK, as_tier_known := False \<rparr>)
         | Some tier \<Rightarrow>
             let b = a \<lparr> as_tier := tier, as_tier_known := True \<rparr> in
             if tier > tr_max_capability_tier req then failed_at TASK_ELIGIBLE ''insufficient_capability'' b
             else rated (b \<lparr> as_slack := tr_max_capability_tier req - tier \<rparr>)))"

definition assess_quota ::
  "outside \<Rightarrow> ladder \<Rightarrow> task_requirements \<Rightarrow> rat \<Rightarrow> route_id \<Rightarrow> inventory_row \<Rightarrow> assessment \<Rightarrow> assessment" where
  "assess_quota ou l req now route row a0 =
     (let measured = measured_quota l (as_provider a0) route;
          a = a0 \<lparr> as_quota_percent := min_of measured \<rparr> in
      if measured \<noteq> [] \<and> list_all (\<lambda>q. q < ld_min_quota_percent l) measured then
        (failed_at AVAILABLE ''quota_low'' a)
          \<lparr> as_cooldown_until := (case min_of (quota_resets l (as_provider a0)) of
              None \<Rightarrow> None | Some r \<Rightarrow> if r > now then Some r else None) \<rparr>
      else assess_task ou l req now route row a)"

definition admission_failure :: "ladder \<Rightarrow> route_id \<Rightarrow> (eligibility_stage \<times> string \<times> rat option) option" where
  "admission_failure l route =
     (case ld_admitted l of
        None \<Rightarrow> None
      | Some records \<Rightarrow>
          if in_admitted records route then None
          else
            let r = first_failure (ld_admitted_at l) records route in
            Some (case Option.bind (ar_first_failed_stage r) ADMISSION_TO_LADDER of Some s \<Rightarrow> s | None \<Rightarrow> TASK_ELIGIBLE,
              ''admission:'' @ ar_reason r, stamp_time (ar_until r)))"

text \<open>The first of some keys with a cooldown in force: its key, its label and its end.\<close>

fun first_cooldown :: "outside \<Rightarrow> ladder \<Rightarrow> rat \<Rightarrow> route_id option \<Rightarrow> (string \<times> string) list \<Rightarrow> (string \<times> string \<times> rat) option" where
  "first_cooldown ou l now route [] = None"
| "first_cooldown ou l now route ((key, label) # keys) =
     (case active_cooldown ou l key now route of
        Some u \<Rightarrow> Some (key, label, u) | None \<Rightarrow> first_cooldown ou l now route keys)"

definition assess :: "outside \<Rightarrow> ladder \<Rightarrow> task_requirements \<Rightarrow> rat \<Rightarrow> route_id \<Rightarrow> inventory_row \<Rightarrow> assessment" where
  "assess ou l req now route row =
     (let (provider, conn) = provider_connection l route row;
          a = Assessment route provider (ladder_capacity ou l conn row route now) in
      case admission_failure l route of
        Some (stage, reason, until) \<Rightarrow> (failed_at stage reason a) \<lparr> as_cooldown_until := until \<rparr>
      | None \<Rightarrow>
      if (case conn of None \<Rightarrow> True | Some c \<Rightarrow> \<not> cn_is_active c) then failed_at ENTITLED ''no_active_account'' a
      else if \<not> harness_visible l route then
        failed_at ENTITLED (if ld_harness l = Some None then ''harness_inventory_unavailable'' else ''not_harness_visible'') a
      else
        let (health, category) = health_status ou l route now;
            b = a \<lparr> as_health := health, as_health_category := category \<rparr> in
        if health = Unhealthy then
          (case active_cooldown ou l (''route:'' @ route) now None of
             None \<Rightarrow> failed_at HEALTHY category b
           | Some u \<Rightarrow> (failed_at HEALTHY category b) \<lparr> as_cooldown_until := Some u, as_cooldown_scope := ''route:'' @ route \<rparr>)
        else
          (case first_cooldown ou l now (Some route) (cooldown_keys route provider) of
             Some (key, label, u) \<Rightarrow>
               (failed_at AVAILABLE label b) \<lparr> as_cooldown_until := Some u, as_cooldown_scope := key \<rparr>
           | None \<Rightarrow>
               (case rate_limited_until conn route now of
                  Some u \<Rightarrow> (failed_at AVAILABLE ''provider_rate_limited'' b) \<lparr> as_cooldown_until := Some u \<rparr>
                | None \<Rightarrow> assess_quota ou l req now route row b)))"


subsection \<open>Ranking\<close>

text \<open>Advisory ranks count while they are fresh and only for the category they were fetched for.\<close>

definition advisory_rank :: "outside \<Rightarrow> task_requirements \<Rightarrow> route_id \<Rightarrow> int option" where
  "advisory_rank ou req route =
     (if ou_rankings_fresh ou \<and> (case ou_rankings_category ou of None \<Rightarrow> True | Some c \<Rightarrow> c = tr_task_category req)
      then map_of (ou_rankings ou) route else None)"

text \<open>\<open>sys.maxsize\<close>\<close>

definition MAXSIZE :: int where
  "MAXSIZE = 2 ^ 63 - 1"

definition rating_of :: "assessment \<Rightarrow> int \<times> rat \<times> int" where
  "rating_of a = (case as_rating a of Some r \<Rightarrow> r | None \<Rightarrow> (3, 0, 0))"

text \<open>
  The sort tuple of \<open>_rank_key\<close>: twelve numbers, compared in order, and the route id. \<open>cost_key\<close> is its
  first three.
\<close>

definition cost_key :: "outside \<Rightarrow> assessment \<Rightarrow> rat list" where
  "cost_key ou a =
     (let subscription = as_capacity a = SUBSCRIPTION; tokens = ou_tokens ou (as_route_id a) in
      [of_int (CAPACITY_ORDER (as_capacity a)),
       if subscription \<and> tokens = None then 1 else 0,
       if subscription then (case tokens of Some t \<Rightarrow> t | None \<Rightarrow> 0) else 0])"

definition rank_key :: "outside \<Rightarrow> ladder \<Rightarrow> task_requirements \<Rightarrow> assessment \<Rightarrow> rat list \<times> route_id" where
  "rank_key ou l req a =
     (let (rank, neg_score, declared) = rating_of a in
      (cost_key ou a @
       [of_int rank, if rank \<in> {0, 1} then neg_score else 0, of_int (if rank = 2 then declared else 0),
        of_int (as_slack a),
        of_int (case advisory_rank ou req (as_route_id a) of None \<Rightarrow> MAXSIZE | Some r \<Rightarrow> r),
        of_int (if as_capacity a = SUBSCRIPTION then 0 else quota_rank (as_quota_percent a)),
        of_nat (length (takeWhile (\<lambda>p. p \<noteq> as_provider a) (ld_prefer_providers l))),
        of_int (ou_load ou (as_route_id a)), of_int (- as_fit a)],
       as_route_id a))"

definition opaque_row :: "route_id \<Rightarrow> inventory_row \<Rightarrow> bool" where
  "opaque_row route row \<longleftrightarrow>
     list_ex (\<lambda>p. prefix p (py_lower route)) OPAQUE_PREFIXES \<or> py_lower (ir_owned_by row) = ''combo''"

definition assessments :: "outside \<Rightarrow> ladder \<Rightarrow> task_requirements \<Rightarrow> rat \<Rightarrow> assessment list" where
  "assessments ou l req now =
     map (\<lambda>(route, row). assess ou l req now route row)
       (filter (\<lambda>(route, row). \<not> opaque_row route row) (by_key (ld_rows l)))"

definition at_capacity :: "outside \<Rightarrow> ladder \<Rightarrow> assessment \<Rightarrow> bool" where
  "at_capacity ou l a \<longleftrightarrow> ou_load ou (as_route_id a) \<ge> ld_max_per_route l"

text \<open>\<open>_assess_all\<close> after the reload of the cache: every verdict, and the candidates in rank order.\<close>

definition assess_all :: "outside \<Rightarrow> ladder \<Rightarrow> task_requirements \<Rightarrow> rat \<Rightarrow> assessment list \<times> assessment list" where
  "assess_all ou l req now =
     (let all = assessments ou l req now in
      (map (\<lambda>a. if selectable a \<and> at_capacity ou l a then failed_at SELECTED ''at_capacity'' a else a) all,
       sort_key (rank_key ou l req) (filter (\<lambda>a. selectable a \<and> \<not> at_capacity ou l a) all)))"


subsection \<open>The order of the probes\<close>

definition providers_of :: "assessment list \<Rightarrow> string list" where
  "providers_of as = py_dedupe (map as_provider as)"

fun round_robin :: "nat \<Rightarrow> nat \<Rightarrow> 'a list list \<Rightarrow> 'a list" where
  "round_robin i 0 queues = []"
| "round_robin i (Suc depth) queues =
     List.map_filter (\<lambda>q. if i < length q then Some (q ! i) else None) queues @ round_robin (Suc i) depth queues"

definition probe_schedule :: "assessment list \<Rightarrow> bool \<Rightarrow> assessment list" where
  "probe_schedule as fresh =
     (let queues = map (\<lambda>p. filter (\<lambda>a. as_provider a = p \<and> (as_health a = Healthy) = fresh) as) (providers_of as) in
      round_robin 0 (foldl max 0 (map length queues)) queues)"

text \<open>The key of the final sort: the cost of the route, then its rating.\<close>

definition probe_key :: "outside \<Rightarrow> assessment \<Rightarrow> rat list" where
  "probe_key ou a =
     (let (rank, neg_score, declared) = rating_of a in cost_key ou a @ [of_int rank, neg_score, of_int declared])"

definition probe_order :: "outside \<Rightarrow> assessment list \<Rightarrow> assessment list" where
  "probe_order ou as = sort_key (probe_key ou) (probe_schedule as True @ probe_schedule as False)"



section \<open>Lemmas\<close>

subsection \<open>Cooldown windows\<close>

definition window_applies :: "route_id \<Rightarrow> rat \<Rightarrow> string \<times> rat option \<Rightarrow> bool" where
  "window_applies route now w \<longleftrightarrow>
     (CHR ''/'' \<in> set (fst w) \<longrightarrow> fst w = route) \<and> (case snd w of None \<Rightarrow> False | Some u \<Rightarrow> u > now)"

lemma window_fold_None:
  "foldl (\<lambda>blocked (key, until).
     if CHR ''/'' \<in> set key \<and> key \<noteq> route then blocked
     else (case until of
             None \<Rightarrow> blocked
           | Some u \<Rightarrow> if u > now \<and> (case blocked of None \<Rightarrow> True | Some b \<Rightarrow> u > b) then Some u else blocked)) b ws = None
   \<longleftrightarrow> b = None \<and> (\<forall>w\<in>set ws. \<not> window_applies route now w)"
  by (induction ws arbitrary: b) (auto simp: window_applies_def split: option.splits if_splits)

lemma rate_limited_None_iff:
  "rate_limited_until (Some c) route now = None \<longleftrightarrow> (\<forall>w\<in>set (cn_rate_limited_until c). \<not> window_applies route now w)"
  by (simp add: rate_limited_until_def window_fold_None)

lemma first_cooldown_None_iff:
  "first_cooldown ou l now route keys = None \<longleftrightarrow> (\<forall>k\<in>set keys. active_cooldown ou l (fst k) now route = None)"
  by (induction keys) (auto split: option.splits)

lemma first_cooldown_Some:
  "first_cooldown ou l now route keys = Some (key, label, u) \<Longrightarrow>
     (key, label) \<in> set keys \<and> active_cooldown ou l key now route = Some u"
  by (induction keys) (auto split: option.splits)


subsection \<open>The gates of an assessment\<close>

lemma failed_at_simps [simp]:
  "as_failed_stage (failed_at s r a) = Some s" "as_route_id (failed_at s r a) = as_route_id a"
  "as_provider (failed_at s r a) = as_provider a" "as_capacity (failed_at s r a) = as_capacity a"
  "as_reason (failed_at s r a) = r" "as_health (failed_at s r a) = as_health a"
  by (simp_all add: failed_at_def)

lemma Assessment_simps [simp]:
  "as_failed_stage (Assessment route provider capacity) = None" "as_route_id (Assessment route provider capacity) = route"
  "as_provider (Assessment route provider capacity) = provider" "as_capacity (Assessment route provider capacity) = fst capacity"
  by (simp_all add: Assessment_def)

text \<open>The requirements that a route meets before any probe, each stated on the data it reads.\<close>

definition quota_left :: "ladder \<Rightarrow> string \<Rightarrow> route_id \<Rightarrow> bool" where
  "quota_left l provider route \<longleftrightarrow>
     measured_quota l provider route = [] \<or> (\<exists>q\<in>set (measured_quota l provider route). q \<ge> ld_min_quota_percent l)"

definition capable :: "outside \<Rightarrow> task_requirements \<Rightarrow> inventory_row \<Rightarrow> route_id \<Rightarrow> bool" where
  "capable ou req row route \<longleftrightarrow>
     (case capability_tier ou row route of None \<Rightarrow> tr_max_capability_tier req \<ge> 3 | Some t \<Rightarrow> t \<le> tr_max_capability_tier req)"

definition passes_gates :: "outside \<Rightarrow> ladder \<Rightarrow> task_requirements \<Rightarrow> rat \<Rightarrow> route_id \<Rightarrow> inventory_row \<Rightarrow> bool" where
  "passes_gates ou l req now route row \<longleftrightarrow>
     (let (provider, conn) = provider_connection l route row in
      (case ld_admitted l of None \<Rightarrow> True | Some records \<Rightarrow> in_admitted records route) \<and>
      (case conn of None \<Rightarrow> False | Some c \<Rightarrow> cn_is_active c \<and> (\<forall>w\<in>set (cn_rate_limited_until c). \<not> window_applies route now w)) \<and>
      harness_visible l route \<and> fst (health_status ou l route now) \<noteq> Unhealthy \<and>
      (\<forall>k\<in>set (cooldown_keys route provider). active_cooldown ou l (fst k) now (Some route) = None) \<and>
      quota_left l provider route \<and>
      task_gate ou l row route req (fst (ladder_capacity ou l conn row route now)) now = [] \<and>
      capable ou req row route)"

lemma assess_task_failed_iff:
  assumes "as_failed_stage a = None"
  shows "as_failed_stage (assess_task ou l req now route row a) = None \<longleftrightarrow>
    task_gate ou l row route req (as_capacity a) now = [] \<and> capable ou req row route"
  using assms by (auto simp: assess_task_def Let_def capable_def split: option.splits)

lemma assess_quota_failed_iff:
  assumes "as_failed_stage a = None"
  shows "as_failed_stage (assess_quota ou l req now route row a) = None \<longleftrightarrow>
    quota_left l (as_provider a) route \<and> task_gate ou l row route req (as_capacity a) now = [] \<and> capable ou req row route"
  using assms
  by (auto simp: assess_quota_def Let_def quota_left_def assess_task_failed_iff list_all_iff not_less split: if_splits)

lemma admission_failure_None_iff:
  "admission_failure l route = None \<longleftrightarrow> (case ld_admitted l of None \<Rightarrow> True | Some records \<Rightarrow> in_admitted records route)"
  by (auto simp: admission_failure_def Let_def split: option.splits prod.splits)

lemma assess_failed_iff:
  "as_failed_stage (assess ou l req now route row) = None \<longleftrightarrow> passes_gates ou l req now route row"
proof -
  obtain provider conn where pc: "provider_connection l route row = (provider, conn)" by fastforce
  show ?thesis
  proof (cases "admission_failure l route = None \<and> (\<exists>c. conn = Some c \<and> cn_is_active c) \<and> harness_visible l route \<and>
      fst (health_status ou l route now) \<noteq> Unhealthy")
    case True
    then obtain c where c: "conn = Some c" "cn_is_active c" by blast
    have "as_failed_stage (assess ou l req now route row) = None \<longleftrightarrow>
      first_cooldown ou l now (Some route) (cooldown_keys route provider) = None \<and> rate_limited_until conn route now = None \<and>
      quota_left l provider route \<and>
      task_gate ou l row route req (fst (ladder_capacity ou l conn row route now)) now = [] \<and> capable ou req row route"
      using True c by (auto simp: assess_def pc Let_def assess_quota_failed_iff split: option.splits prod.splits)
    with True c show ?thesis
      unfolding passes_gates_def pc
      by (auto simp: Let_def admission_failure_None_iff [symmetric] first_cooldown_None_iff rate_limited_None_iff)
  next
    case False
    then show ?thesis
      unfolding passes_gates_def pc admission_failure_None_iff [symmetric]
      by (auto simp: assess_def pc Let_def split: option.splits prod.splits if_splits)
  qed
qed



lemma assess_task_fields:
  "as_route_id (assess_task ou l req now route row a) = as_route_id a"
  "as_provider (assess_task ou l req now route row a) = as_provider a"
  "as_capacity (assess_task ou l req now route row a) = as_capacity a"
  "as_health (assess_task ou l req now route row a) = as_health a"
  by (simp_all add: assess_task_def Let_def split: option.split)

lemma assess_quota_fields:
  "as_route_id (assess_quota ou l req now route row a) = as_route_id a"
  "as_provider (assess_quota ou l req now route row a) = as_provider a"
  "as_capacity (assess_quota ou l req now route row a) = as_capacity a"
  "as_health (assess_quota ou l req now route row a) = as_health a"
  by (simp_all add: assess_quota_def Let_def assess_task_fields)

lemma assess_fields [simp]:
  "as_route_id (assess ou l req now route row) = route"
  "as_provider (assess ou l req now route row) = fst (provider_connection l route row)"
  "as_capacity (assess ou l req now route row) =
     fst (ladder_capacity ou l (snd (provider_connection l route row)) row route now)"
  by (auto simp: assess_def Let_def assess_quota_fields split: option.split prod.split)

lemma assess_health:
  assumes "passes_gates ou l req now route row"
  shows "as_health (assess ou l req now route row) = fst (health_status ou l route now)"
  using assms unfolding assess_failed_iff [symmetric]
  by (auto simp: assess_def Let_def assess_quota_fields split: option.splits prod.splits if_splits)

lemma selectable_assess: "selectable (assess ou l req now route row) \<longleftrightarrow> passes_gates ou l req now route row"
proof
  assume gates: "passes_gates ou l req now route row"
  then have "fst (health_status ou l route now) \<noteq> Unhealthy"
    by (auto simp: passes_gates_def Let_def split: prod.splits)
  with gates show "selectable (assess ou l req now route row)"
    by (simp add: selectable_def assess_failed_iff assess_health)
qed (simp add: selectable_def assess_failed_iff)

lemma set_assessments:
  "set (assessments ou l req now) =
     {assess ou l req now route row | route row. (route, row) \<in> set (ld_rows l) \<and> \<not> opaque_row route row}"
  by (force simp: assessments_def)

lemma assessments_distinct:
  assumes "dict_wf (ld_rows l)"
  shows "distinct (map as_route_id (assessments ou l req now))"
proof -
  have "distinct (map fst (by_key (ld_rows l)))" using assms by (simp flip: dict_wf_def)
  moreover have "map as_route_id (assessments ou l req now) =
      map fst (filter (\<lambda>(route, row). \<not> opaque_row route row) (by_key (ld_rows l)))"
    by (simp add: assessments_def split_def)
  ultimately show ?thesis by (simp add: distinct_map_filter)
qed

lemma candidate_iff:
  "a \<in> set (snd (assess_all ou l req now)) \<longleftrightarrow>
     (\<exists>route row. a = assess ou l req now route row \<and> (route, row) \<in> set (ld_rows l) \<and> \<not> opaque_row route row \<and>
        passes_gates ou l req now route row \<and> ou_load ou route < ld_max_per_route l)"
  by (auto simp: assess_all_def Let_def set_assessments selectable_assess at_capacity_def not_le) blast

lemma candidates_distinct:
  assumes "dict_wf (ld_rows l)"
  shows "distinct (map as_route_id (snd (assess_all ou l req now)))"
proof -
  let ?f = "filter (\<lambda>a. selectable a \<and> \<not> at_capacity ou l a) (assessments ou l req now)"
  have "distinct (map as_route_id ?f)" by (rule distinct_map_filter [OF assessments_distinct [OF assms]])
  then have "distinct ?f" "inj_on as_route_id (set ?f)" by (simp_all add: distinct_map)
  then show ?thesis by (simp add: assess_all_def Let_def distinct_map)
qed


subsection \<open>The probe order is a permutation\<close>

lemma take_one_drop: "take 1 (drop i q) = (if i < length q then [q ! i] else [])"
proof (cases "i < length q")
  case True
  then show ?thesis by (simp add: Cons_nth_drop_Suc [symmetric])
qed simp

lemma mset_map_filter_nth:
  "mset (List.map_filter (\<lambda>q. if i < length q then Some (q ! i) else None) queues) =
     (\<Sum>q\<leftarrow>queues. mset (take 1 (drop i q)))"
  unfolding take_one_drop by (induction queues) (simp_all add: List.map_filter_simps)

lemma take_Suc_drop: "take (Suc d) (drop i q) = take 1 (drop i q) @ take d (drop (Suc i) q)"
  using take_add [of 1 d "drop i q"] by simp

lemma mset_round_robin: "mset (round_robin i d queues) = (\<Sum>q\<leftarrow>queues. mset (take d (drop i q)))"
proof (induction d arbitrary: i)
  case (Suc d)
  have "mset (round_robin i (Suc d) queues) =
      (\<Sum>q\<leftarrow>queues. mset (take 1 (drop i q))) + (\<Sum>q\<leftarrow>queues. mset (take d (drop (Suc i) q)))"
    by (simp only: round_robin.simps mset_append mset_map_filter_nth Suc)
  also have "\<dots> = (\<Sum>q\<leftarrow>queues. mset (take (Suc d) (drop i q)))"
    by (simp only: sum_list_addf [symmetric] take_Suc_drop mset_append)
  finally show ?case .
qed simp

lemma foldl_max_ge: "x \<in> set xs \<or> x \<le> (m::nat) \<Longrightarrow> x \<le> foldl max m xs"
proof (induction xs arbitrary: m)
  case (Cons y ys)
  from Cons.prems have "x \<in> set ys \<or> x \<le> max m y" by auto
  from Cons.IH [OF this] show ?case by simp
qed simp

lemma round_robin_all:
  "mset (round_robin 0 (foldl max 0 (map length queues)) queues) = (\<Sum>q\<leftarrow>queues. mset q)"
proof -
  have "take (foldl max 0 (map length queues)) q = q" if "q \<in> set queues" for q
    using that by (simp add: foldl_max_ge)
  then show ?thesis by (simp add: mset_round_robin cong: map_cong)
qed

lemma mset_by_group:
  assumes "distinct ps" "f ` set xs \<subseteq> set ps"
  shows "(\<Sum>p\<leftarrow>ps. mset (filter (\<lambda>x. f x = p \<and> P x) xs)) = mset (filter P xs)"
  using assms(2)
proof (induction xs)
  case (Cons x xs)
  have "(\<Sum>p\<leftarrow>ps. mset (filter (\<lambda>y. f y = p \<and> P y) (x # xs))) =
      (\<Sum>p\<leftarrow>ps. (if p = f x \<and> P x then {#x#} else {#}) + mset (filter (\<lambda>y. f y = p \<and> P y) xs))"
    by (intro arg_cong [where f = sum_list] map_cong) auto
  also have "\<dots> = (\<Sum>p\<leftarrow>ps. if p = f x \<and> P x then {#x#} else {#}) + mset (filter P xs)"
    using Cons by (simp add: sum_list_addf)
  also have "(\<Sum>p\<leftarrow>ps. if p = f x \<and> P x then {#x#} else {#}) = (if P x then {#x#} else {#})"
    using Cons.prems assms(1) by (simp add: sum_list_distinct_conv_sum_set sum.delta if_distrib)
  finally show ?case by simp
qed simp

lemma mset_probe_schedule: "mset (probe_schedule as fresh) = mset (filter (\<lambda>a. (as_health a = Healthy) = fresh) as)"
  unfolding probe_schedule_def Let_def round_robin_all
  using mset_by_group [of "providers_of as" as_provider as "\<lambda>a. (as_health a = Healthy) = fresh"]
  by (simp add: providers_of_def comp_def)

lemma mset_probe_order [simp]: "mset (probe_order ou as) = mset as"
proof -
  have "mset (filter (\<lambda>a. (as_health a = Healthy) = True) as) + mset (filter (\<lambda>a. (as_health a = Healthy) = False) as) = mset as"
    by (induction as) auto
  then show ?thesis by (simp add: probe_order_def mset_probe_schedule)
qed

lemma set_probe_order [simp]: "set (probe_order ou as) = set as"
  by (rule mset_eq_setD) simp

lemma distinct_probe_order: "distinct (map as_route_id as) \<Longrightarrow> distinct (map as_route_id (probe_order ou as))"
  by (metis mset_eq_imp_distinct_iff mset_map mset_probe_order)

lemma sorted_probe_order: "sorted (map (probe_key ou) (probe_order ou as))"
  by (simp add: probe_order_def)


section \<open>Properties\<close>

text \<open>C27. The candidates that the ladder ranks are exactly the assessments of the inventory routes that are no
  opaque routers, pass every gate and run fewer workers than allowed: no route is dropped for another reason,
  and none is ranked that failed a gate.\<close>

theorem candidates_are_exactly_the_eligible:
  "set (snd (assess_all ou l req now)) =
     {assess ou l req now route row | route row. (route, row) \<in> set (ld_rows l) \<and> \<not> opaque_row route row \<and>
        passes_gates ou l req now route row \<and> ou_load ou route < ld_max_per_route l}"
  using candidate_iff by blast

text \<open>A false success claim that the controller verified within the last week, of the route or of an alias of the
  same model and backend, keeps a free route from implementation work: it does not pass the gates.\<close>

theorem recent_false_claim_blocks_free_route:
  assumes "ou_ledger ou = Some led" "x \<in> set (load_ledger led)" "in_window now 7 x" "same_backend route x"
    and "so_outcome x = ''fail''" "so_failure_class x = Some ''false_success_claim''"
    and "fst (ladder_capacity ou l (snd (provider_connection l route row)) row route now) = FREE" "\<not> tr_frontier_worthy req"
  shows "\<not> passes_gates ou l req now route row"
proof -
  let ?items = "\<lambda>days. filter (same_backend route) (filter (in_window now days) (load_ledger led))"
  have summary: "session_summary ou route now days = Some (summarize_items (?items days))" if "days \<ge> 0" for days
    using assms(1) that by (simp add: session_summary_def summarize_pool_def window_def)
  have wider: "in_window now 14 x" using assms(3) by (simp add: in_window_def)
  have "x \<in> set (false_claims (?items 7))" "x \<in> set (failures (?items 14))"
    using assms(2-6) wider by (simp_all add: false_claims_def failures_def)
  then have recent: "ses_false_claims (summarize_items (?items 7)) \<noteq> 0" and
    some: "ses_passes (summarize_items (?items 14)) + ses_fails (summarize_items (?items 14)) \<noteq> 0"
    unfolding summary_counts by (auto simp: add_nonneg_eq_0_iff)
  have "agentic_gate ou l route now \<noteq> []"
    using recent some unfolding agentic_gate_def summary [of 14, simplified] summary [of 7, simplified]
    by (auto simp: Let_def split: option.split)
  then have "task_gate ou l row route req FREE now \<noteq> []"
    using assms(8) by (auto simp: task_gate_def split: option.split)
  with assms(7) show ?thesis by (auto simp: passes_gates_def Let_def split: prod.splits)
qed

text \<open>The order of the probes is a permutation of the candidates that rises in cost class, token estimate and rating.\<close>

lemma probe_order_sorted_permutation:
  "mset (probe_order ou cands) = mset cands \<and> sorted (map (probe_key ou) (probe_order ou cands))"
  by (simp add: sorted_probe_order)

end
