(* ===== verification/Session_Feedback.thy ===== *)
theory Session_Feedback
  imports Health_Store Recovery
begin

section \<open>Failures of live traffic in the health store\<close>

text \<open>
  Models \<open>verdict/orchestration/session_feedback.py\<close> (\<open>record_worker_failure\<close>, which the runtime calls with
  the classified terminal of a worker attempt) and the feedback part of \<open>verdict/relay.py\<close>
  (\<open>failure_class\<close>, \<open>relay_failure_feedback\<close>). Both write through \<open>merge_and_save\<close>. The SHA-256 digest of the
  provenance is an argument, and so is the number of turns in the usage record of a terminal.
\<close>

subsection \<open>Worker terminals\<close>

definition CACHE_CATEGORIES :: "(string, string) dict" where
  "CACHE_CATEGORIES =
     [(''rate_limited'', ''rate_limited''), (''quota_exhausted'', ''rate_limited''),
      (''authentication'', ''authentication''), (''payment_required'', ''payment_required''),
      (''permission'', ''permission''), (''unsupported'', ''not_found''), (''model_unavailable'', ''not_found''),
      (''gone'', ''gone''), (''bad_request'', ''bad_request''), (''upstream_temporary'', ''upstream''),
      (''transport_temporary'', ''upstream''), (''timeout'', ''timeout''), (''empty_output'', ''empty_output''),
      (''no_final_answer'', ''no_final_answer''), (''malformed_response'', ''malformed_response''),
      (''model_mismatch'', ''model_mismatch'')]"

definition CREDENTIAL_CATEGORIES :: "string list" where
  "CREDENTIAL_CATEGORIES = [''rate_limited'', ''quota_exhausted'', ''authentication'', ''payment_required'', ''permission'']"

definition NON_AVAILABILITY_ERRORS :: "string list" where
  "NON_AVAILABILITY_ERRORS =
     [''verification_failed'', ''ownership_violation'', ''review_failed'', ''task_feedback'', ''worker_blocked'']"

datatype feedback =
    Written
  | InjectedTerminal
  | UnattestedTerminal
  | SuccessfulTerminal
  | NonAvailabilityFailure
  | InvalidCooldown
  | SupersededOrDuplicate

datatype feedback_error = EmptyRouteOrProvider | EmptyPool | Store store_error

text \<open>The early returns, in order; \<open>None\<close> means that the failure is availability evidence.\<close>

definition feedback_skip :: "failure \<Rightarrow> worker_terminal \<Rightarrow> bool \<Rightarrow> feedback option" where
  "feedback_skip f t injected =
     (if injected \<or> wt_executor_kind t = ''fault-injected'' \<or> prefix ''fault-injected'' (wt_session_ref t)
      then Some InjectedTerminal
      else if wt_executor_kind t \<noteq> ''live'' then Some UnattestedTerminal
      else if wt_ok t \<and> (fc_category f \<noteq> ''empty_output'' \<or> py_strip (wt_output t) \<noteq> []) then Some SuccessfulTerminal
      else if list_ex (\<lambda>p. prefix p (wt_error t)) NON_AVAILABILITY_ERRORS then Some NonAvailabilityFailure
      else if fc_category f \<notin> fst ` set CACHE_CATEGORIES \<or> fc_action f \<noteq> REROUTE \<or>
              fc_scope f \<notin> {ScopeRoute, ScopeProvider} \<or>
              (fc_scope f = ScopeProvider \<and> fc_category f \<notin> set CREDENTIAL_CATEGORIES)
      then Some NonAvailabilityFailure
      else if fc_cooldown f \<le> 0 then Some InvalidCooldown
      else None)"

definition observed_turns :: "int option \<Rightarrow> int option \<Rightarrow> int option \<times> string" where
  "observed_turns turn_count usage_turns =
     (case turn_count of
        Some n \<Rightarrow> if n < 0 then (None, ''unknown'') else (Some n, ''explicit'')
      | None \<Rightarrow>
          (case usage_turns of
             Some n \<Rightarrow> if n < 0 then (None, ''unknown'') else (Some n, ''usage.turns'')
           | None \<Rightarrow> (None, ''unknown'')))"

definition opaque :: "(string \<Rightarrow> string) \<Rightarrow> string \<Rightarrow> string option" where
  "opaque sha source = (if source = [] then None else Some (''sha256:'' @ sha source))"

definition feedback_scope :: "failure \<Rightarrow> string option \<Rightarrow> string" where
  "feedback_scope f pool =
     (if fc_scope f = ScopeProvider then (if pool \<noteq> None then ''pool'' else ''provider'') else ''route'')"

definition feedback_key :: "failure \<Rightarrow> string \<Rightarrow> string option \<Rightarrow> string option" where
  "feedback_key f provider pool =
     (if fc_scope f = ScopeProvider then
        Some (case pool of Some p \<Rightarrow> ''pool:'' @ p | None \<Rightarrow> ''provider:'' @ py_lower provider)
      else None)"

definition worker_probe ::
  "failure \<Rightarrow> worker_terminal \<Rightarrow> string option \<Rightarrow> int option \<times> string \<Rightarrow> string option \<Rightarrow> probe_result" where
  "worker_probe f t pool turns source =
     (ProbeResult (the (map_of CACHE_CATEGORIES (fc_category f))) False False)
       \<lparr> po_http_status := wt_status_code t, po_pool := pool, po_failure_scope := Some (feedback_scope f pool),
         po_negative_ttl_seconds := Some (min (fc_cooldown f) 86400), po_feedback_source := Some ''worker_terminal'',
         po_feedback_category := Some (fc_category f), po_feedback_turn_count := fst turns,
         po_feedback_turns_source := Some (snd turns), po_feedback_provenance := source \<rparr>"

text \<open>A newer entry wins, and so does a failure of the same time.\<close>

definition superseded :: "health_entry option \<Rightarrow> rat \<Rightarrow> bool" where
  "superseded previous now \<longleftrightarrow>
     (case previous of
        None \<Rightarrow> False
      | Some p \<Rightarrow> he_checked_at p > now \<or> (he_checked_at p = now \<and> \<not> he_healthy p))"

text \<open>The cooldown and the emptied bucket of a credential failure.\<close>

definition block_credential ::
  "cache_env \<Rightarrow> failure \<Rightarrow> string \<Rightarrow> string option \<Rightarrow> rat \<Rightarrow> health_entry \<Rightarrow> health_cache \<Rightarrow> store_error + health_cache" where
  "block_credential env f provider pool now entry c =
     (case feedback_key f provider pool of
        None \<Rightarrow> Inr c
      | Some key \<Rightarrow>
          let cd = \<lparr> cd_key = key, cd_category = he_category entry, cd_checked_at = now, cd_until = he_until entry,
                cd_canonical_category = Some (fc_category f), cd_provider_id = Some provider, cd_pool = pool,
                cd_account_id = None \<rparr>;
              c1 = c \<lparr> hc_cooldowns := record_cooldown cd (hc_cooldowns c) \<rparr> in
          if fc_category f \<in> {''rate_limited'', ''quota_exhausted''}
          then on_buckets c1 (zero_bucket (ce_digest env) provider (he_until entry) pool (hc_buckets c1))
          else Inr c1)"

definition worker_mutate ::
  "cache_env \<Rightarrow> failure \<Rightarrow> probe_result \<Rightarrow> route_id \<Rightarrow> string \<Rightarrow> string option \<Rightarrow> rat \<Rightarrow> health_cache
     \<Rightarrow> store_error + feedback \<times> health_cache" where
  "worker_mutate env f result route provider pool now c =
     (if superseded (map_of (hc_routes c) route) now then Inr (SupersededOrDuplicate, c)
      else
        bind_res (lift_error Entry (record_probe (ce_fresh env) route result now (hc_routes c))) (\<lambda>(entry, routes).
        bind_res (block_credential env f provider pool now entry (c \<lparr> hc_routes := routes \<rparr>)) (\<lambda>c1.
        Inr (Written, c1))))"

definition record_worker_failure ::
  "cache_env \<Rightarrow> (string \<Rightarrow> string) \<Rightarrow> failure \<Rightarrow> worker_terminal \<Rightarrow> route_id \<Rightarrow> string \<Rightarrow> string option \<Rightarrow> rat
     \<Rightarrow> int option \<Rightarrow> int option \<Rightarrow> string option \<Rightarrow> bool \<Rightarrow> health_cache \<Rightarrow> disk
     \<Rightarrow> feedback_error + feedback \<times> health_cache \<times> disk" where
  "record_worker_failure env sha f t route provider pool now turn_count usage_turns provenance injected c d =
     (case feedback_skip f t injected of
        Some reason \<Rightarrow> Inr (reason, c, d)
      | None \<Rightarrow>
          if py_strip route = [] \<or> py_strip provider = [] then Inl EmptyRouteOrProvider
          else if (case pool of None \<Rightarrow> False | Some p \<Rightarrow> py_strip p = []) then Inl EmptyPool
          else
            let source = opaque sha (case provenance of Some p \<Rightarrow> p | None \<Rightarrow> wt_session_ref t);
                result = worker_probe f t pool (observed_turns turn_count usage_turns) source in
            lift_error Store (merge_and_save_with env (worker_mutate env f result route provider pool now) c d))"


subsection \<open>Relay failures\<close>

datatype relay_error = TimeoutError | ConnectionError | OtherError string

definition failure_class :: "int option \<Rightarrow> relay_error option \<Rightarrow> string \<Rightarrow> string" where
  "failure_class status error body =
     (case error of
        Some TimeoutError \<Rightarrow> ''transport_timeout''
      | Some ConnectionError \<Rightarrow> ''transport_connection''
      | Some (OtherError msg) \<Rightarrow> if is_context_length_error msg then ''context_length_overflow'' else ''transport_error''
      | None \<Rightarrow>
          if status \<in> {Some 400, Some 413} \<and> is_context_length_error body then ''context_length_overflow''
          else if status = Some 402 then ''payment_required''
          else if status \<in> {Some 401, Some 403} then ''auth_failure''
          else if status \<in> {Some 408, Some 409, Some 425, Some 429} then ''transport_retryable''
          else if (case status of None \<Rightarrow> False | Some s \<Rightarrow> s \<ge> 500) then ''transport_upstream''
          else if status \<in> {Some 400, Some 404, Some 422} then ''capability_or_request_failure''
          else ''upstream_failure'')"

definition RELAY_FEEDBACK_CATEGORIES :: "(string, string) dict" where
  "RELAY_FEEDBACK_CATEGORIES =
     [(''payment_required'', ''payment_required''), (''transport_upstream'', ''upstream''),
      (''transport_timeout'', ''timeout''), (''transport_connection'', ''upstream'')]"

definition relay_mutate ::
  "cache_env \<Rightarrow> probe_result \<Rightarrow> route_id \<Rightarrow> rat \<Rightarrow> health_cache \<Rightarrow> store_error + feedback \<times> health_cache" where
  "relay_mutate env result route now c =
     (if superseded (map_of (hc_routes c) route) now then Inr (SupersededOrDuplicate, c)
      else
        bind_res (lift_error Entry (record_probe (ce_fresh env) route result now (hc_routes c))) (\<lambda>(entry, routes).
        Inr (Written, c \<lparr> hc_routes := routes \<rparr>)))"

definition relay_failure_feedback ::
  "cache_env \<Rightarrow> (string \<Rightarrow> string) \<Rightarrow> route_id \<Rightarrow> int option \<Rightarrow> relay_error option \<Rightarrow> string \<Rightarrow> rat \<Rightarrow> string option
     \<Rightarrow> health_cache \<Rightarrow> disk \<Rightarrow> feedback_error + feedback \<times> health_cache \<times> disk" where
  "relay_failure_feedback env sha route status error body now provenance c d =
     (let failure = failure_class status error body in
      case map_of RELAY_FEEDBACK_CATEGORIES failure of
        None \<Rightarrow> Inr (NonAvailabilityFailure, c, d)
      | Some category \<Rightarrow>
          if py_strip route = [] then Inl EmptyRouteOrProvider
          else
            let result = (ProbeResult category False False)
                  \<lparr> po_http_status := status, po_failure_scope := Some ''route'',
                    po_feedback_source := Some ''serve_request'', po_feedback_category := Some failure,
                    po_capacity_evidence := (if category = ''payment_required'' then Some ''billing_402_metered'' else None),
                    po_feedback_provenance := Option.bind provenance (opaque sha) \<rparr> in
            lift_error Store (merge_and_save_with env (relay_mutate env result route now) c d))"


section \<open>Lemmas\<close>

subsection \<open>The classifier and the feedback table\<close>

text \<open>A classification that charges a route or provider carries what the feedback writer needs.\<close>

definition feedable :: "failure \<Rightarrow> bool" where
  "feedable f \<longleftrightarrow> fc_scope f \<noteq> ScopeNone \<longrightarrow>
     (fc_category f \<in> fst ` set CACHE_CATEGORIES \<or> fc_category f = ''unknown'') \<and> fc_action f = REROUTE \<and>
     (fc_scope f = ScopeProvider \<longrightarrow> fc_category f \<in> set CREDENTIAL_CATEGORIES)"

lemma feedable_local: "feedable (FC c a k ScopeNone ev)"
  by (simp add: feedable_def fc_simps)

lemma feedable_route: "c \<in> fst ` set CACHE_CATEGORIES \<or> c = ''unknown'' \<Longrightarrow> feedable (FC c REROUTE k ScopeRoute ev)"
  by (simp add: feedable_def fc_simps)

lemma feedable_credential: "c \<in> set CREDENTIAL_CATEGORIES \<Longrightarrow> feedable (FC c REROUTE k s ev)"
  by (auto simp: feedable_def fc_simps CACHE_CATEGORIES_def CREDENTIAL_CATEGORIES_def)

lemma feedable_status: "classify_status st lower ev k = Some f \<Longrightarrow> feedable f"
  unfolding classify_status_def
  by (auto simp: CACHE_CATEGORIES_def CREDENTIAL_CATEGORIES_def feedable_route feedable_credential split: if_splits)

lemma feedable_early: "classify_early t = Some f \<Longrightarrow> feedable f"
  unfolding classify_early_def Let_def
  by (auto simp: feedable_local CACHE_CATEGORIES_def intro!: feedable_route split: if_splits)

lemma feedable_text: "feedable (classify_text t lower ev k)"
  unfolding classify_text_def
  by (simp add: feedable_local feedable_route CACHE_CATEGORIES_def)

lemma feedable_classify: "feedable (classify t)"
  unfolding classify_def Let_def
  by (auto simp: feedable_text feedable_local intro: feedable_early feedable_status split: option.split)


subsection \<open>Feedback is a locked update\<close>

lemma block_credential_ops:
  assumes "block_credential env f provider pool now entry c = Inr c'"
  shows "\<exists>ops. apply_ops env ops c = Inr c'"
proof (cases "feedback_key f provider pool")
  case None
  with assms have "apply_ops env [] c = Inr c'" by (simp add: block_credential_def)
  then show ?thesis by blast
next
  case (Some key)
  let ?cd = "\<lparr> cd_key = key, cd_category = he_category entry, cd_checked_at = now, cd_until = he_until entry,
    cd_canonical_category = Some (fc_category f), cd_provider_id = Some provider, cd_pool = pool, cd_account_id = None \<rparr>"
  show ?thesis
  proof (cases "fc_category f \<in> {''rate_limited'', ''quota_exhausted''}")
    case True
    with Some assms have "apply_ops env [Cooldown ?cd, ZeroBucket provider (he_until entry) pool] c = Inr c'"
      by (simp add: block_credential_def Let_def bind_res_Inr)
    then show ?thesis by blast
  next
    case False
    with Some assms have "apply_ops env [Cooldown ?cd] c = Inr c'" by (simp add: block_credential_def Let_def)
    then show ?thesis by blast
  qed
qed

lemma block_credential_routes:
  "block_credential env f provider pool now entry c = Inr c' \<Longrightarrow> hc_routes c' = hc_routes c"
  by (auto simp: block_credential_def Let_def split: option.splits if_splits dest: on_buckets_Inr)

lemma worker_mutate_Written:
  assumes "worker_mutate env f result route provider pool now c = Inr (Written, c')"
  obtains entry routes where "record_probe (ce_fresh env) route result now (hc_routes c) = Inr (entry, routes)"
    "block_credential env f provider pool now entry (c \<lparr> hc_routes := routes \<rparr>) = Inr c'" "hc_routes c' = routes"
proof -
  from assms obtain entry routes where
    r: "record_probe (ce_fresh env) route result now (hc_routes c) = Inr (entry, routes)"
      "block_credential env f provider pool now entry (c \<lparr> hc_routes := routes \<rparr>) = Inr c'"
    by (auto simp: worker_mutate_def res_simps split: if_splits)
  with block_credential_routes [OF r(2)] that show thesis by simp
qed

lemma worker_mutate_ops:
  assumes "worker_mutate env f result route provider pool now c = Inr (Written, c')"
  shows "\<exists>ops. apply_ops env ops c = Inr c'"
proof -
  obtain entry routes where r: "record_probe (ce_fresh env) route result now (hc_routes c) = Inr (entry, routes)"
    "block_credential env f provider pool now entry (c \<lparr> hc_routes := routes \<rparr>) = Inr c'"
    by (rule worker_mutate_Written [OF assms])
  from block_credential_ops [OF r(2)] obtain ops where "apply_ops env ops (c \<lparr> hc_routes := routes \<rparr>) = Inr c'" by blast
  with r(1) have "apply_ops env (Probe route result now # ops) c = Inr c'" by (simp add: on_routes_def lift_error_def)
  then show ?thesis by blast
qed

lemma record_worker_failure_Written:
  assumes "record_worker_failure env sha f t route provider pool now tc ut prov injected c d = Inr (Written, c', d')"
  obtains result where "merge_and_save_with env (worker_mutate env f result route provider pool now) c d = Inr (Written, c', d')"
    "feedback_skip f t injected = None" "\<not> probe_healthy result"
    "po_negative_ttl_seconds result = Some (min (fc_cooldown f) 86400)"
proof -
  have skip: "feedback_skip f t injected \<noteq> Some Written" by (simp add: feedback_skip_def)
  have "\<not> probe_healthy (worker_probe f t pool turns source)" for turns source
    by (simp add: worker_probe_def probe_healthy_def ProbeResult_def)
  with assms skip that show thesis
    by (auto simp: record_worker_failure_def res_simps Let_def worker_probe_def split: option.splits if_splits)
qed

lemma written_fields:
  "he_healthy (written e) = he_healthy e" "he_checked_at (written e) = he_checked_at e" "he_until (written e) = he_until e"
  by (simp_all add: written_def)

text \<open>What a written feedback leaves in the view and in the file.\<close>

lemma worker_failure_entry:
  assumes "record_worker_failure env sha f t route provider pool now tc ut prov injected c d = Inr (Written, c', d')"
  obtains e ops where "map_of (dk_routes d') route = Some e" "\<not> he_healthy e" "he_checked_at e = now"
    "he_until e = now + min (fc_cooldown f) 86400" "failed_since \<lparr> sh_disk = d', sh_views = vs \<rparr> route now"
    "merge_and_save env ops c d = Inr (c', d')"
proof -
  obtain result where m: "merge_and_save_with env (worker_mutate env f result route provider pool now) c d = Inr (Written, c', d')"
    "\<not> probe_healthy result" "po_negative_ttl_seconds result = Some (min (fc_cooldown f) 86400)"
    using record_worker_failure_Written [OF assms] by metis
  from m(1) obtain c0 c1 where c: "load env (hc_buckets c) d = Inr c0"
    "worker_mutate env f result route provider pool now c0 = Inr (Written, c1)"
    "dk_routes d' = by_key (map_vals written (bump_revisions (hc_routes c0) (hc_routes c1)))"
    by (auto simp: merge_and_save_with_def res_simps Let_def)
  from worker_mutate_ops [OF c(2)] obtain ops where ops: "apply_ops env ops c0 = Inr c1" by blast
  have "merge_and_save env ops c d = Inr (c', d')"
    by (rule merge_and_save_with_ops [OF m(1)]) (use c(1,2) ops in auto)
  moreover obtain e rs where e: "record_probe (ce_fresh env) route result now (hc_routes c0) = Inr (e, rs)" "hc_routes c1 = rs"
    by (rule worker_mutate_Written [OF c(2)]) (rule that)
  have fields: "rs = dict_put route e (hc_routes c0)" "\<not> he_healthy e" "he_checked_at e = now"
    "he_until e = now + min (fc_cooldown f) 86400" "\<exists>t'\<ge>now. last_failure e = Some t'"
  proof -
    show "rs = dict_put route e (hc_routes c0)" "\<not> he_healthy e" "he_checked_at e = now"
      using record_probe_fields [OF e(1)] m(2) by simp_all
    show "he_until e = now + min (fc_cooldown f) 86400"
      by (rule record_failed_probe [OF e(1) m(2)]) (auto simp: failure_seconds_def m(3) min_def split: if_splits)
    show "\<exists>t'\<ge>now. last_failure e = Some t'"
      using record_probe_fields(4) [OF e(1)] m(2) last_failure_of(1) [of e] by (auto split: option.splits)
  qed
  obtain n where d': "map_of (dk_routes d') route = Some (written (e \<lparr> he_write_revision := n \<rparr>))"
  proof (cases "map_of (hc_routes c0) route = Some e")
    case True
    moreover have "e = e \<lparr> he_write_revision := he_write_revision e \<rparr>" by simp
    ultimately show thesis using that [of "he_write_revision e"] by (simp add: c(3) bumped_route e(2) fields(1))
  next
    case False
    then show thesis using that by (simp add: c(3) bumped_route e(2) fields(1))
  qed
  then have "failed_since \<lparr> sh_disk = d', sh_views = vs \<rparr> route now"
    using fields(5) by (auto simp: failed_since_def)
  ultimately show thesis using that [OF d'] fields(2-4) by (simp add: written_fields)
qed


section \<open>Properties\<close>

text \<open>C13. A live worker failure that was written stops every older proof: whatever the processes do afterwards, in
  whatever order, no proof that was qualified at or before the failure yields a dispatch permit for the route.\<close>

theorem worker_failure_stops_old_proofs:
  assumes "reachable env s" and "map_of (sh_views s) i = Some c"
    and "record_worker_failure env sha f t route provider pool now tc ut prov injected c (sh_disk s) = Inr (Written, c', d')"
    and "(shared_step env)\<^sup>*\<^sup>* \<lparr> sh_disk = d', sh_views = dict_put i c' (sh_views s) \<rparr> u"
    and "load env conf (sh_disk u) = Inr v" and "qualified \<le> now"
  shows "commit_dispatch scope route attempt digest epoch due qualified current pid (permits_of v) \<noteq> Inr (Some p, st)"
proof -
  let ?s = "\<lparr> sh_disk = d', sh_views = dict_put i c' (sh_views s) \<rparr>"
  obtain e ops where e: "failed_since ?s route now" "merge_and_save env ops c (sh_disk s) = Inr (c', d')"
    by (rule worker_failure_entry [OF assms(3), of "sh_views ?s"]) (rule that, simp_all)
  have "shared_step env s ?s" by (rule shared_step.locked [OF assms(2) e(2)])
  then have "store_ok ?s" using shared_step_ok reachable_ok [OF assms(1)] by blast
  then have "failed_since u route now"
    using failures.steps_remember [OF _ e(1)] steps_ok [OF assms(4)] by blast
  from failed_since_denies [OF this assms(5,6)] show ?thesis .
qed

text \<open>A failure that is charged to the route alone touches nothing else: apart from the entry of the route, the
  view and the file keep every entry, cooldown, bucket and permit record that was on disk.\<close>

theorem route_failure_spares_siblings:
  assumes "record_worker_failure env sha f t route provider pool now tc ut prov injected c d = Inr (Written, c', d')"
    and "fc_scope f = ScopeRoute" and "load env (hc_buckets c) d = Inr c0"
  shows "hc_cooldowns c' = hc_cooldowns c0 \<and> hc_buckets c' = hc_buckets c0 \<and> hc_scopes c' = hc_scopes c0 \<and>
    hc_attempts c' = hc_attempts c0 \<and> (r \<noteq> route \<longrightarrow> map_of (hc_routes c') r = map_of (hc_routes c0) r)"
proof -
  obtain result where m: "merge_and_save_with env (worker_mutate env f result route provider pool now) c d = Inr (Written, c', d')"
    by (rule record_worker_failure_Written [OF assms(1)])
  with assms(3) obtain c1 where c1: "worker_mutate env f result route provider pool now c0 = Inr (Written, c1)"
    "c' = c1 \<lparr> hc_routes := bump_revisions (hc_routes c0) (hc_routes c1), hc_disk_snapshot := d' \<rparr>"
    by (auto simp: merge_and_save_with_def res_simps Let_def)
  obtain entry routes where w: "record_probe (ce_fresh env) route result now (hc_routes c0) = Inr (entry, routes)"
    "block_credential env f provider pool now entry (c0 \<lparr> hc_routes := routes \<rparr>) = Inr c1" "hc_routes c1 = routes"
    by (rule worker_mutate_Written [OF c1(1)])
  have "c1 = c0 \<lparr> hc_routes := routes \<rparr>" using w(2) assms(2) by (simp add: block_credential_def feedback_key_def)
  moreover have "map_of (bump_revisions (hc_routes c0) routes) r = map_of (hc_routes c0) r" if "r \<noteq> route"
    using that by (cases "map_of (hc_routes c0) r") (simp_all add: record_probe_fields(1) [OF w(1)] bumped_route)
  ultimately show ?thesis by (simp add: c1(2))
qed

text \<open>Classifier and feedback agree: of the failures of a live worker that are not task feedback, exactly those
  that the classifier charges to a route or provider reach the shared store, except the unknown ones.\<close>

theorem charged_failures_reach_the_store:
  assumes "wt_executor_kind t = ''live''" and "\<not> prefix ''fault-injected'' (wt_session_ref t)" and "\<not> wt_ok t"
    and "\<not> list_ex (\<lambda>p. prefix p (wt_error t)) NON_AVAILABILITY_ERRORS"
    and "case wt_retry_after_seconds t of None \<Rightarrow> True | Some r \<Rightarrow> 0 \<le> r \<and> r \<le> MAX_COOLDOWN_SECONDS"
  shows "feedback_skip (classify t) t False = None \<longleftrightarrow>
    fc_scope (classify t) \<noteq> ScopeNone \<and> fc_category (classify t) \<noteq> ''unknown''"
proof -
  have "cooled (classify t)" using cooled_classify hinted_cooldown_bounds [OF assms(5)] by blast
  then have pos: "fc_scope (classify t) \<noteq> ScopeNone \<Longrightarrow> 0 < fc_cooldown (classify t)" by (simp add: cooled_def)
  have live: "wt_executor_kind t \<noteq> ''fault-injected''" using assms(1) by simp
  define known where "known = fst ` set CACHE_CATEGORIES"
  have unknown: "''unknown'' \<notin> known" by (simp add: known_def CACHE_CATEGORIES_def)
  have "feedback_skip (classify t) t False = None \<longleftrightarrow>
      \<not> (fc_category (classify t) \<notin> known \<or> fc_action (classify t) \<noteq> REROUTE \<or>
         fc_scope (classify t) \<notin> {ScopeRoute, ScopeProvider} \<or>
         (fc_scope (classify t) = ScopeProvider \<and> fc_category (classify t) \<notin> set CREDENTIAL_CATEGORIES)) \<and>
      \<not> fc_cooldown (classify t) \<le> 0"
    unfolding feedback_skip_def known_def using assms(1-4) live by simp
  also have "\<dots> \<longleftrightarrow> fc_scope (classify t) \<noteq> ScopeNone \<and> fc_category (classify t) \<noteq> ''unknown''"
    using feedable_classify [of t, unfolded feedable_def, folded known_def] pos unknown
    by (cases "fc_scope (classify t)") auto
  finally show ?thesis .
qed


section \<open>A concrete failure\<close>

definition busy_terminal :: worker_terminal where
  "busy_terminal = \<lparr> wt_ok = False, wt_output = '''', wt_model = ''m'', wt_stop_reason = '''', wt_error = ''bad gateway'',
     wt_status_code = Some 502, wt_retry_after_seconds = None, wt_session_ref = ''s1'', wt_executor_kind = ''live'',
     wt_harness = '''' \<rparr>"

definition busy_failure :: failure where
  "busy_failure = FC ''upstream_temporary'' REROUTE 60 ScopeRoute ''''"

definition fed_back :: "feedback \<times> health_cache \<times> disk" where
  "fed_back = projr (record_worker_failure sample_env (\<lambda>x. x) busy_failure busy_terminal ''cc/x'' ''cc'' None 300 None None None
     False (fst after_recovery_write) (snd after_recovery_write))"

lemma fed_back_written:
  "record_worker_failure sample_env (\<lambda>x. x) busy_failure busy_terminal ''cc/x'' ''cc'' None 300 None None None
     False (fst after_recovery_write) (snd after_recovery_write) = Inr (Written, fst (snd fed_back), snd (snd fed_back))"
  by code_simp

lemma recovered_shared_reachable: "reachable sample_env recovered_shared"
  using failed_shared_reachable recovery_step unfolding reachable_def by (meson rtranclp.rtrancl_into_rtrancl)

theorem worker_failure_stops_old_proofs_witness:
  "\<forall>p st. commit_dispatch sample_scope ''cc/x'' ''a1'' ''d'' 0 800 250 700 ''id''
     (permits_of (projr (load sample_env sample_conf (snd (snd fed_back))))) \<noteq> Inr (Some p, st)"
proof -
  have view: "map_of (sh_views recovered_shared) 0 = Some (fst after_recovery_write)"
    and disk: "sh_disk recovered_shared = snd after_recovery_write" by (simp_all add: recovered_shared_def)
  have "load sample_env sample_conf (snd (snd fed_back)) = Inr (projr (load sample_env sample_conf (snd (snd fed_back))))"
    by code_simp
  then show ?thesis
    using worker_failure_stops_old_proofs [OF recovered_shared_reachable view fed_back_written [folded disk] rtranclp.rtrancl_refl]
    by simp
qed

definition loaded_before :: health_cache where
  "loaded_before = projr (load sample_env (hc_buckets (fst after_recovery_write)) (snd after_recovery_write))"

theorem route_failure_spares_siblings_witness: "hc_cooldowns (fst (snd fed_back)) = hc_cooldowns loaded_before"
proof -
  have "load sample_env (hc_buckets (fst after_recovery_write)) (snd after_recovery_write) = Inr loaded_before"
    "fc_scope busy_failure = ScopeRoute" by code_simp+
  from conjunct1 [OF route_failure_spares_siblings [OF fed_back_written this(2,1)]] show ?thesis .
qed

end
