(* ===== verification/Work_Graph.thy ===== *)
theory Work_Graph
  imports Contracts "HOL-Library.Multiset"
begin

section \<open>The work graph\<close>

text \<open>
  Models the class \<open>WorkGraph\<close> of \<open>verdict/orchestration/contracts.py\<close>: the construction checks of
  \<open>__post_init__\<close>, the topological layers, the ancestors of a node and the ownership check, and
  proves them equivalent to a declarative statement of what a valid plan is.
\<close>

subsection \<open>Definitions\<close>

record work_graph =
  wg_goal :: string
  wg_nodes :: "work_node list"
  wg_topology :: topology
  wg_rationale :: "string list"
  wg_max_parallel :: int

definition node_ids :: "work_node list \<Rightarrow> node_id list" where
  "node_ids ns = map wn_node_id ns"

definition node_of :: "work_node list \<Rightarrow> node_id \<Rightarrow> orch_error + work_node" where
  "node_of ns i =
     (case List.find (\<lambda>n. wn_node_id n = i) ns of Some n \<Rightarrow> Inr n | None \<Rightarrow> Inl (NoSuchNode i))"

text \<open>The loop of \<open>layers\<close>: each round takes the nodes whose dependencies are all done.\<close>

function layers_loop ::
  "(node_id, node_id list) dict \<Rightarrow> node_id list \<Rightarrow> node_id list list \<Rightarrow> orch_error + node_id list list"
where
  "layers_loop remaining dn result =
     (if remaining = [] then Inr result
      else let ready = sort (map fst (filter (\<lambda>(i, deps). set deps \<subseteq> set dn) remaining)) in
        if ready = [] then Inl (DependencyCycle (sort (map fst remaining)))
        else layers_loop (filter (\<lambda>(i, deps). i \<notin> set ready) remaining) (dn @ ready) (result @ [ready]))"
  by pat_completeness auto
termination
proof (relation "measure (\<lambda>(remaining, dn, result). length remaining)", goal_cases)
  case (2 remaining dn result ready)
  from 2(3) obtain i where i: "i \<in> set ready" by (cases ready) auto
  then obtain deps where "(i, deps) \<in> set remaining" using 2(2) by auto
  with i have "length (filter (\<lambda>(i, deps). i \<notin> set ready) remaining) < length remaining"
    by (intro length_filter_less) auto
  then show ?case by simp
qed simp

declare layers_loop.simps [simp del]

definition layers :: "work_node list \<Rightarrow> orch_error + node_id list list" where
  "layers ns = layers_loop (dict_of (map (\<lambda>n. (wn_node_id n, wn_depends_on n)) ns)) [] []"

text \<open>
  The loop of \<open>ancestors\<close>. The Python list used as a stack has its top at the end; here the top is
  at the head, so extending the stack by a list puts its reverse in front.
\<close>

function ancestors_loop ::
  "work_node list \<Rightarrow> node_id list \<Rightarrow> node_id list \<Rightarrow> orch_error + node_id list"
where
  "ancestors_loop ns [] seen = Inr seen"
| "ancestors_loop ns (current # stack) seen =
     (if current \<in> set seen then ancestors_loop ns stack seen
      else case node_of ns current of
        Inl e \<Rightarrow> Inl e
      | Inr n \<Rightarrow> ancestors_loop ns (rev (wn_depends_on n) @ stack) (seen @ [current]))"
  by pat_completeness auto
termination
proof (relation "measures [\<lambda>(ns, stack, seen). card (set (node_ids ns) - set seen),
    \<lambda>(ns, stack, seen). length stack]", goal_cases)
  case (3 ns current stack seen n)
  then have "current \<in> set (node_ids ns)"
    by (auto simp: node_of_def node_ids_def find_Some_iff split: option.splits)
  with 3(1) have "card (set (node_ids ns) - insert current (set seen)) < card (set (node_ids ns) - set seen)"
    by (intro psubset_card_mono) auto
  then show ?case by simp
qed auto

definition ancestors :: "work_node list \<Rightarrow> node_id \<Rightarrow> orch_error + node_id list" where
  "ancestors ns i = bind_res (node_of ns i) (\<lambda>n. ancestors_loop ns (rev (wn_depends_on n)) [])"

definition check_pair :: "work_node list \<Rightarrow> work_node \<Rightarrow> work_node \<Rightarrow> orch_error + unit" where
  "check_pair ns left right =
     bind_res (ancestors ns (wn_node_id right)) (\<lambda>ra.
     bind_res (if wn_node_id left \<in> set ra then Inr True
               else bind_res (ancestors ns (wn_node_id left)) (\<lambda>la. Inr (wn_node_id right \<in> set la)))
     (\<lambda>ordered.
       if ordered then Inr ()
       else let overlap = sorted_set (filter (\<lambda>f. f \<in> set (wn_owned_files right)) (wn_owned_files left)) in
         guard_res (overlap = []) (ConcurrentOwnership (wn_node_id left) (wn_node_id right) overlap)))"

fun check_against :: "work_node list \<Rightarrow> work_node \<Rightarrow> work_node list \<Rightarrow> orch_error + unit" where
  "check_against ns left [] = Inr ()"
| "check_against ns left (right # rest) =
     bind_res (check_pair ns left right) (\<lambda>_. check_against ns left rest)"

fun check_writers :: "work_node list \<Rightarrow> work_node list \<Rightarrow> orch_error + unit" where
  "check_writers ns [] = Inr ()"
| "check_writers ns (left # rest) =
     bind_res (check_against ns left rest) (\<lambda>_. check_writers ns rest)"

definition check_ownership :: "work_node list \<Rightarrow> orch_error + unit" where
  "check_ownership ns = check_writers ns (filter (\<lambda>n. wn_kind n = IMPLEMENT) ns)"

definition dupes :: "node_id list \<Rightarrow> node_id list" where
  "dupes ids = sorted_set (filter (\<lambda>i. count_list ids i > 1) ids)"

fun check_deps :: "node_id list \<Rightarrow> work_node list \<Rightarrow> orch_error + unit" where
  "check_deps known [] = Inr ()"
| "check_deps known (n # ns) =
     (let missing = sorted_set (filter (\<lambda>d. d \<notin> set known) (wn_depends_on n)) in
      bind_res (guard_res (missing = []) (UnknownDependencies (wn_node_id n) missing))
        (\<lambda>_. check_deps known ns))"

text \<open>\<open>WorkGraph(...)\<close>: the checks of \<open>__post_init__\<close> in their order.\<close>

definition WorkGraph :: "string \<Rightarrow> work_node list \<Rightarrow> topology \<Rightarrow> string list \<Rightarrow> int \<Rightarrow> orch_error + work_graph"
where
  "WorkGraph goal ns topo rationale max_parallel =
     bind_res (guard_res (node_ids ns \<noteq> []) NoNodes) (\<lambda>_.
     bind_res (guard_res (dupes (node_ids ns) = []) (DuplicateNodeIds (dupes (node_ids ns)))) (\<lambda>_.
     bind_res (check_deps (node_ids ns) ns) (\<lambda>_.
     bind_res (layers ns) (\<lambda>_.
     bind_res (check_ownership ns) (\<lambda>_.
     bind_res (guard_res (1 \<le> max_parallel) BadMaxParallel) (\<lambda>_.
     Inr \<lparr> wg_goal = goal, wg_nodes = ns, wg_topology = topo, wg_rationale = rationale,
           wg_max_parallel = max_parallel \<rparr>))))))"


subsection \<open>What a valid plan is\<close>

text \<open>\<open>(d, i)\<close> is in the relation when the node \<open>i\<close> names \<open>d\<close> as a dependency.\<close>

definition dep_rel :: "work_node list \<Rightarrow> (node_id \<times> node_id) set" where
  "dep_rel ns = {(d, wn_node_id n) | d n. n \<in> set ns \<and> d \<in> set (wn_depends_on n)}"

definition closed_ids :: "work_node list \<Rightarrow> bool" where
  "closed_ids ns \<longleftrightarrow> distinct (node_ids ns) \<and>
     (\<forall>n\<in>set ns. set (wn_depends_on n) \<subseteq> set (node_ids ns))"

text \<open>Two nodes are ordered when one must wait for the other.\<close>

definition ordered_nodes :: "work_node list \<Rightarrow> work_node \<Rightarrow> work_node \<Rightarrow> bool" where
  "ordered_nodes ns l r \<longleftrightarrow>
     (wn_node_id l, wn_node_id r) \<in> (dep_rel ns)\<^sup>+ \<or> (wn_node_id r, wn_node_id l) \<in> (dep_rel ns)\<^sup>+"

definition exclusive_files :: "work_node list \<Rightarrow> bool" where
  "exclusive_files ns \<longleftrightarrow>
     (\<forall>l\<in>set ns. \<forall>r\<in>set ns. wn_kind l = IMPLEMENT \<longrightarrow> wn_kind r = IMPLEMENT \<longrightarrow>
        wn_node_id l \<noteq> wn_node_id r \<longrightarrow> set (wn_owned_files l) \<inter> set (wn_owned_files r) \<noteq> {} \<longrightarrow>
        ordered_nodes ns l r)"

definition valid_plan :: "work_node list \<Rightarrow> int \<Rightarrow> bool" where
  "valid_plan ns max_parallel \<longleftrightarrow>
     ns \<noteq> [] \<and> closed_ids ns \<and> acyclic (dep_rel ns) \<and> exclusive_files ns \<and> 1 \<le> max_parallel"


section \<open>Lemmas\<close>

subsection \<open>Layers\<close>

text \<open>
  What the loop maintains: the ids left are distinct, none of them is done, and every dependency of
  a node that is left is either done or left.
\<close>

definition loop_inv :: "(node_id, node_id list) dict \<Rightarrow> node_id list \<Rightarrow> bool" where
  "loop_inv rem dn \<longleftrightarrow> distinct (map fst rem) \<and> set (map fst rem) \<inter> set dn = {} \<and>
     (\<forall>(i, deps)\<in>set rem. set deps \<subseteq> set dn \<union> set (map fst rem))"

definition ready_of :: "(node_id, node_id list) dict \<Rightarrow> node_id list \<Rightarrow> node_id list" where
  "ready_of rem dn = sort (map fst (filter (\<lambda>(i, deps). set deps \<subseteq> set dn) rem))"

definition rest_of :: "(node_id, node_id list) dict \<Rightarrow> node_id list \<Rightarrow> (node_id, node_id list) dict" where
  "rest_of rem dn = filter (\<lambda>(i, deps). i \<notin> set (ready_of rem dn)) rem"

lemma layers_loop_unfold:
  "layers_loop rem dn res =
     (if rem = [] then Inr res
      else if ready_of rem dn = [] then Inl (DependencyCycle (sort (map fst rem)))
      else layers_loop (rest_of rem dn) (dn @ ready_of rem dn) (res @ [ready_of rem dn]))"
  by (subst layers_loop.simps) (simp add: ready_of_def rest_of_def Let_def)

lemma set_ready_of: "set (ready_of rem dn) = {i. \<exists>deps. (i, deps) \<in> set rem \<and> set deps \<subseteq> set dn}"
  by (force simp: ready_of_def)

lemma ready_deps_done:
  assumes "loop_inv rem dn" and i: "(i, deps) \<in> set rem" and "i \<in> set (ready_of rem dn)"
  shows "set deps \<subseteq> set dn"
proof -
  from assms(3) obtain deps' where "(i, deps') \<in> set rem" "set deps' \<subseteq> set dn"
    by (auto simp: set_ready_of)
  moreover from this i assms(1) have "deps' = deps"
    by (auto simp: loop_inv_def dest: eq_key_imp_eq_value)
  ultimately show ?thesis by simp
qed

lemma rest_of_eq:
  assumes "loop_inv rem dn"
  shows "rest_of rem dn = filter (\<lambda>(i, deps). \<not> set deps \<subseteq> set dn) rem"
  unfolding rest_of_def
proof (rule filter_cong [OF refl])
  fix x assume "x \<in> set rem"
  then show "(case x of (i, deps) \<Rightarrow> i \<notin> set (ready_of rem dn)) = (case x of (i, deps) \<Rightarrow> \<not> set deps \<subseteq> set dn)"
    using ready_deps_done [OF assms] by (cases x) (auto simp: set_ready_of)
qed

lemma keys_rest_of: "set (map fst rem) = set (ready_of rem dn) \<union> set (map fst (rest_of rem dn))"
  by (force simp: rest_of_def set_ready_of)

lemma loop_inv_step:
  assumes inv: "loop_inv rem dn"
  shows "loop_inv (rest_of rem dn) (dn @ ready_of rem dn)"
proof -
  have sub: "set (rest_of rem dn) \<subseteq> set rem" by (auto simp: rest_of_def)
  have "distinct (map fst (rest_of rem dn))"
    using inv by (simp add: loop_inv_def rest_of_def distinct_map_filter)
  moreover have "set (map fst (rest_of rem dn)) \<inter> set (dn @ ready_of rem dn) = {}"
    using inv sub by (fastforce simp: loop_inv_def rest_of_def)
  moreover have "set deps \<subseteq> set (dn @ ready_of rem dn) \<union> set (map fst (rest_of rem dn))"
    if "(i, deps) \<in> set (rest_of rem dn)" for i deps
  proof -
    from that sub inv have "set deps \<subseteq> set dn \<union> set (map fst rem)"
      unfolding loop_inv_def by blast
    then show ?thesis using keys_rest_of [of rem dn] by (simp add: Un_assoc)
  qed
  ultimately show ?thesis unfolding loop_inv_def by blast
qed

lemma mset_ready_rest:
  assumes "loop_inv rem dn"
  shows "mset (map fst rem) = mset (ready_of rem dn) + mset (map fst (rest_of rem dn))"
proof -
  let ?P = "\<lambda>(i, deps). set deps \<subseteq> set dn"
  have "mset rem = mset (filter ?P rem) + mset (filter (\<lambda>x. \<not> ?P x) rem)"
    unfolding mset_filter by (rule multiset_partition)
  then have "image_mset fst (mset rem) =
      image_mset fst (mset (filter ?P rem)) + image_mset fst (mset (filter (\<lambda>x. \<not> ?P x) rem))"
    by (metis image_mset_union)
  then show ?thesis
    by (simp add: ready_of_def rest_of_eq [OF assms] case_prod_unfold)
qed

lemma layers_loop_sound:
  "layers_loop rem dn res = Inr ls \<Longrightarrow> loop_inv rem dn \<Longrightarrow>
   \<exists>new. ls = res @ new \<and> mset (concat new) = mset (map fst rem) \<and>
     (\<forall>k<length new. \<forall>i\<in>set (new ! k). \<forall>deps. (i, deps) \<in> set rem \<longrightarrow>
        set deps \<subseteq> set dn \<union> set (concat (take k new)))"
proof (induction rem dn res rule: layers_loop.induct)
  case (1 rem dn res)
  show ?case
  proof (cases "rem = []")
    case True
    with 1 show ?thesis by (simp add: layers_loop_unfold)
  next
    case False
    let ?r = "ready_of rem dn" and ?rest = "rest_of rem dn"
    from 1(2) False have ne: "?r \<noteq> []" and eq: "layers_loop ?rest (dn @ ?r) (res @ [?r]) = Inr ls"
      by (auto simp: layers_loop_unfold [of rem] split: if_splits)
    from 1(1) [OF False refl] ne eq loop_inv_step [OF 1(3)] obtain new where
      new: "ls = (res @ [?r]) @ new" "mset (concat new) = mset (map fst ?rest)" and
      deps: "\<And>k i deps. k < length new \<Longrightarrow> i \<in> set (new ! k) \<Longrightarrow> (i, deps) \<in> set ?rest \<Longrightarrow>
        set deps \<subseteq> set (dn @ ?r) \<union> set (concat (take k new))"
      unfolding ready_of_def [symmetric] rest_of_def [symmetric] by metis
    have "set deps \<subseteq> set dn \<union> set (concat (take k (?r # new)))"
      if k: "k < length (?r # new)" and i: "i \<in> set ((?r # new) ! k)" and m: "(i, deps) \<in> set rem" for k i deps
    proof (cases k)
      case 0
      with i m show ?thesis using ready_deps_done [OF 1(3)] by auto
    next
      case (Suc j)
      with i k have ij: "i \<in> set (new ! j)" "j < length new" by auto
      then have "i \<in> set (concat new)" by (auto simp: in_set_conv_nth intro: nth_mem)
      then have "i \<in> set (map fst ?rest)" using new(2) mset_eq_setD by blast
      then have "(i, deps) \<in> set ?rest" using m by (auto simp: rest_of_def)
      from deps [OF ij(2,1) this] show ?thesis using Suc by auto
    qed
    moreover have "mset (concat (?r # new)) = mset (map fst rem)"
      using new(2) mset_ready_rest [OF 1(3)] by simp
    ultimately show ?thesis using new(1) by (intro exI [of _ "?r # new"]) auto
  qed
qed

text \<open>When the loop gives up, some nodes that are left all wait for each other.\<close>

lemma layers_loop_stuck:
  "layers_loop rem dn res = Inl e \<Longrightarrow> loop_inv rem dn \<Longrightarrow>
   \<exists>S. S \<noteq> {} \<and> S \<subseteq> set (map fst rem) \<and> (\<forall>i\<in>S. \<exists>deps. (i, deps) \<in> set rem \<and> (\<exists>d\<in>set deps. d \<in> S))"
proof (induction rem dn res rule: layers_loop.induct)
  case (1 rem dn res)
  have ne: "rem \<noteq> []" using 1(2) by (auto simp: layers_loop_unfold)
  show ?case
  proof (cases "ready_of rem dn = []")
    case True
    have "\<exists>deps. (i, deps) \<in> set rem \<and> (\<exists>d\<in>set deps. d \<in> set (map fst rem))"
      if i: "i \<in> set (map fst rem)" for i
    proof -
      from i obtain deps where d: "(i, deps) \<in> set rem" by auto
      then have "\<not> set deps \<subseteq> set dn" using True set_ready_of [of rem dn] by auto
      moreover have "set deps \<subseteq> set dn \<union> set (map fst rem)"
        using 1(3) d unfolding loop_inv_def by blast
      ultimately show ?thesis using d by blast
    qed
    then show ?thesis using ne by (intro exI [of _ "set (map fst rem)"]) auto
  next
    case False
    with 1(2) ne have "layers_loop (rest_of rem dn) (dn @ ready_of rem dn) (res @ [ready_of rem dn]) = Inl e"
      by (simp add: layers_loop_unfold [of rem])
    with 1(1) [OF ne refl] False loop_inv_step [OF 1(3)] obtain S where
      "S \<noteq> {}" "S \<subseteq> set (map fst (rest_of rem dn))"
      "\<forall>i\<in>S. \<exists>deps. (i, deps) \<in> set (rest_of rem dn) \<and> (\<exists>d\<in>set deps. d \<in> S)"
      unfolding ready_of_def [symmetric] rest_of_def [symmetric] by metis
    moreover have "set (rest_of rem dn) \<subseteq> set rem" by (auto simp: rest_of_def)
    ultimately show ?thesis by (intro exI [of _ S] conjI) (assumption, force, blast)
  qed
qed

lemma loop_inv_start:
  "closed_ids ns \<Longrightarrow> loop_inv (map (\<lambda>n. (wn_node_id n, wn_depends_on n)) ns) []"
  by (fastforce simp: closed_ids_def loop_inv_def node_ids_def comp_def)

lemma layers_closed:
  assumes "closed_ids ns"
  shows "layers ns = layers_loop (map (\<lambda>n. (wn_node_id n, wn_depends_on n)) ns) [] []"
  using assms unfolding layers_def
  by (subst dict_of_distinct) (simp_all add: closed_ids_def node_ids_def comp_def)

lemma dep_rel_iff: "(d, i) \<in> dep_rel ns \<longleftrightarrow> (\<exists>n\<in>set ns. wn_node_id n = i \<and> d \<in> set (wn_depends_on n))"
  by (auto simp: dep_rel_def)

lemma layers_sound:
  assumes c: "closed_ids ns" and l: "layers ns = Inr ls"
  shows "mset (concat ls) = mset (node_ids ns)"
    and "\<And>k i d. k < length ls \<Longrightarrow> i \<in> set (ls ! k) \<Longrightarrow> (d, i) \<in> dep_rel ns \<Longrightarrow> d \<in> set (concat (take k ls))"
proof -
  let ?rem = "map (\<lambda>n. (wn_node_id n, wn_depends_on n)) ns"
  obtain new where new: "ls = [] @ new" "mset (concat new) = mset (map fst ?rem)" and
    deps: "\<forall>k<length new. \<forall>i\<in>set (new ! k). \<forall>deps. (i, deps) \<in> set ?rem \<longrightarrow>
        set deps \<subseteq> set [] \<union> set (concat (take k new))"
    using layers_loop_sound [OF l [unfolded layers_closed [OF c]] loop_inv_start [OF c]] by blast
  from new show "mset (concat ls) = mset (node_ids ns)"
    by (simp add: node_ids_def comp_def)
  fix k i d assume "k < length ls" "i \<in> set (ls ! k)" "(d, i) \<in> dep_rel ns"
  then obtain n where "n \<in> set ns" "wn_node_id n = i" "d \<in> set (wn_depends_on n)"
    by (auto simp: dep_rel_iff)
  then have "(i, wn_depends_on n) \<in> set ?rem" by auto
  with deps new(1) \<open>k < length ls\<close> \<open>i \<in> set (ls ! k)\<close>
  have "set (wn_depends_on n) \<subseteq> set (concat (take k ls))" by fastforce
  with \<open>d \<in> set (wn_depends_on n)\<close> show "d \<in> set (concat (take k ls))" by blast
qed

lemma dep_rel_finite: "finite (dep_rel ns)"
proof -
  have "dep_rel ns \<subseteq> (\<Union>n\<in>set ns. set (wn_depends_on n) \<times> {wn_node_id n})"
    by (auto simp: dep_rel_def)
  then show ?thesis by (rule finite_subset) simp
qed

lemma layers_Inr_acyclic:
  assumes c: "closed_ids ns" and l: "layers ns = Inr ls"
  shows "acyclic (dep_rel ns)"
proof -
  let ?in = "\<lambda>i k. k < length ls \<and> i \<in> set (ls ! k)"
  let ?rank = "\<lambda>i. LEAST k. ?in i k"
  have "(d, i) \<in> measure ?rank" if d: "(d, i) \<in> dep_rel ns" for d i
  proof -
    have "i \<in> set (node_ids ns)" using d by (auto simp: dep_rel_iff node_ids_def)
    then have "i \<in> set (concat ls)" using layers_sound(1) [OF c l] mset_eq_setD by blast
    then obtain l where "l \<in> set ls" "i \<in> set l" by auto
    then have "\<exists>k. ?in i k" by (metis in_set_conv_nth)
    then have i: "?in i (?rank i)" by (rule LeastI_ex)
    then have "d \<in> set (concat (take (?rank i) ls))" using layers_sound(2) [OF c l] d by blast
    then obtain l where "l \<in> set (take (?rank i) ls)" "d \<in> set l" by auto
    then obtain j where "j < ?rank i" "?in d j" by (auto simp: in_set_conv_nth [of l])
    then have "?rank d \<le> j" by (intro Least_le) simp
    with \<open>j < ?rank i\<close> show ?thesis by simp
  qed
  then have "dep_rel ns \<subseteq> measure ?rank" by auto
  then have "wf (dep_rel ns)" using wf_subset wf_measure by blast
  then show ?thesis by (rule wf_acyclic)
qed

lemma layers_Inl_cyclic:
  assumes c: "closed_ids ns" and l: "layers ns = Inl e"
  shows "\<not> acyclic (dep_rel ns)"
proof
  assume "acyclic (dep_rel ns)"
  then have wf: "wf (dep_rel ns)" by (simp add: finite_acyclic_wf dep_rel_finite)
  let ?rem = "map (\<lambda>n. (wn_node_id n, wn_depends_on n)) ns"
  obtain S where S: "S \<noteq> {}" "\<forall>i\<in>S. \<exists>deps. (i, deps) \<in> set ?rem \<and> (\<exists>d\<in>set deps. d \<in> S)"
    using layers_loop_stuck [OF l [unfolded layers_closed [OF c]] loop_inv_start [OF c]] by blast
  then obtain i where "i \<in> S" "\<And>d. (d, i) \<in> dep_rel ns \<Longrightarrow> d \<notin> S"
    using wfE_min' [OF wf] by blast
  with S(2) show False by (fastforce simp: dep_rel_iff)
qed


subsection \<open>Ancestors\<close>

lemma node_of_Inr:
  "distinct (node_ids ns) \<Longrightarrow> node_of ns i = Inr n \<longleftrightarrow> n \<in> set ns \<and> wn_node_id n = i"
proof (induction ns)
  case (Cons m ns)
  then show ?case by (auto simp: node_of_def node_ids_def)
qed (simp add: node_of_def)

lemma node_of_known: "i \<in> set (node_ids ns) \<Longrightarrow> \<exists>n. node_of ns i = Inr n"
  by (auto simp: node_of_def node_ids_def find_None_iff split: option.splits)

lemma ancestors_loop_sound:
  assumes "closed_ids ns" and "ancestors_loop ns stack seen = Inr out"
    and "\<forall>x\<in>set seen. \<forall>d. (d, x) \<in> dep_rel ns \<longrightarrow> d \<in> set seen \<union> set stack"
  shows "set seen \<union> set stack \<subseteq> set out \<and>
    (\<forall>x\<in>set out. \<forall>d. (d, x) \<in> dep_rel ns \<longrightarrow> d \<in> set out) \<and>
    set out \<subseteq> set seen \<union> {x. \<exists>s\<in>set stack. (x, s) \<in> (dep_rel ns)\<^sup>*}"
  using assms
proof (induction ns stack seen rule: ancestors_loop.induct)
  case (1 ns seen)
  then show ?case by auto
next
  case (2 ns current stack seen)
  show ?case
  proof (cases "current \<in> set seen")
    case True
    have "set seen \<union> set stack \<subseteq> set out \<and>
      (\<forall>x\<in>set out. \<forall>d. (d, x) \<in> dep_rel ns \<longrightarrow> d \<in> set out) \<and>
      set out \<subseteq> set seen \<union> {x. \<exists>s\<in>set stack. (x, s) \<in> (dep_rel ns)\<^sup>*}"
    proof (rule 2(1) [OF True 2(3)])
      show "ancestors_loop ns stack seen = Inr out" using 2(4) True by simp
      show "\<forall>x\<in>set seen. \<forall>d. (d, x) \<in> dep_rel ns \<longrightarrow> d \<in> set seen \<union> set stack"
        using 2(5) True by auto
    qed
    then show ?thesis using True by auto
  next
    case False
    with 2(4) obtain n where n: "node_of ns current = Inr n"
      and rec: "ancestors_loop ns (rev (wn_depends_on n) @ stack) (seen @ [current]) = Inr out"
      by (auto split: sum.splits)
    have deps: "(d, current) \<in> dep_rel ns \<longleftrightarrow> d \<in> set (wn_depends_on n)" for d
      using n 2(3) by (auto simp: dep_rel_iff closed_ids_def node_of_Inr)
        (metis node_of_Inr sum.inject(2))
    have inv: "\<forall>x\<in>set (seen @ [current]). \<forall>d. (d, x) \<in> dep_rel ns \<longrightarrow>
        d \<in> set (seen @ [current]) \<union> set (rev (wn_depends_on n) @ stack)"
      using 2(5) deps by auto
    note ih = 2(2) [OF False n 2(3) rec inv]
    have "(x, current) \<in> (dep_rel ns)\<^sup>*" if "(x, s) \<in> (dep_rel ns)\<^sup>*" "s \<in> set (wn_depends_on n)" for x s
      using that deps by (meson rtrancl.rtrancl_into_rtrancl)
    with ih show ?thesis by auto
  qed
qed

lemma ancestors_loop_total:
  "closed_ids ns \<Longrightarrow> set stack \<subseteq> set (node_ids ns) \<Longrightarrow> \<exists>out. ancestors_loop ns stack seen = Inr out"
proof (induction ns stack seen rule: ancestors_loop.induct)
  case (2 ns current stack seen)
  show ?case
  proof (cases "current \<in> set seen")
    case True
    with 2(1) [OF True] 2(3,4) show ?thesis by auto
  next
    case False
    obtain n where n: "node_of ns current = Inr n" using node_of_known 2(4) by fastforce
    then have "set (wn_depends_on n) \<subseteq> set (node_ids ns)"
      using 2(3) by (auto simp: closed_ids_def node_of_Inr)
    with 2(2) [OF False n] 2(3,4) False n show ?thesis by auto
  qed
qed simp

lemma rtrancl_closed:
  "(x, y) \<in> R\<^sup>* \<Longrightarrow> y \<in> S \<Longrightarrow> (\<And>d z. z \<in> S \<Longrightarrow> (d, z) \<in> R \<Longrightarrow> d \<in> S) \<Longrightarrow> x \<in> S"
  by (induction rule: converse_rtrancl_induct) auto

lemma ancestors_exact:
  assumes c: "closed_ids ns" and i: "i \<in> set (node_ids ns)"
  shows "\<exists>out. ancestors ns i = Inr out \<and> set out = {a. (a, i) \<in> (dep_rel ns)\<^sup>+}"
proof -
  obtain n where n: "node_of ns i = Inr n" using node_of_known [OF i] by blast
  then have mem: "n \<in> set ns" "wn_node_id n = i" using c by (auto simp: closed_ids_def node_of_Inr)
  then have sub: "set (rev (wn_depends_on n)) \<subseteq> set (node_ids ns)"
    using c by (auto simp: closed_ids_def)
  obtain out where out: "ancestors_loop ns (rev (wn_depends_on n)) [] = Inr out"
    using ancestors_loop_total [OF c sub] by blast
  have deps: "(d, i) \<in> dep_rel ns \<longleftrightarrow> d \<in> set (wn_depends_on n)" for d
    using mem c n by (auto simp: dep_rel_iff closed_ids_def) (metis node_of_Inr sum.inject(2))
  from ancestors_loop_sound [OF c out] have
    s: "set (wn_depends_on n) \<subseteq> set out"
      "\<And>x d. x \<in> set out \<Longrightarrow> (d, x) \<in> dep_rel ns \<Longrightarrow> d \<in> set out"
      "set out \<subseteq> {x. \<exists>s\<in>set (wn_depends_on n). (x, s) \<in> (dep_rel ns)\<^sup>*}"
    by auto
  have "a \<in> set out \<longleftrightarrow> (a, i) \<in> (dep_rel ns)\<^sup>+" for a
  proof
    assume "a \<in> set out"
    then show "(a, i) \<in> (dep_rel ns)\<^sup>+" using s(3) deps by (blast intro: rtrancl_into_trancl1)
  next
    assume "(a, i) \<in> (dep_rel ns)\<^sup>+"
    then obtain d where "(a, d) \<in> (dep_rel ns)\<^sup>*" "(d, i) \<in> dep_rel ns" by (meson tranclD2)
    then show "a \<in> set out" using s(1,2) deps rtrancl_closed [of a d "dep_rel ns" "set out"] by blast
  qed
  then show ?thesis using n out by (auto simp: ancestors_def)
qed


subsection \<open>Construction\<close>

lemma sorted_set_Nil [simp]: "sorted_set xs = [] \<longleftrightarrow> xs = []"
  by (metis set_empty set_sorted_set)

lemma dupes_Nil: "dupes ids = [] \<longleftrightarrow> distinct ids"
proof -
  have "(\<forall>i\<in>set ids. count_list ids i \<le> 1) \<longleftrightarrow> distinct ids"
  proof (induction ids)
    case (Cons x xs)
    have "count_list xs x = 0 \<longleftrightarrow> x \<notin> set xs" by (metis count_list_0_iff)
    moreover have "(\<forall>i\<in>set xs. count_list xs i \<le> 1) \<longleftrightarrow> distinct xs" by (rule Cons.IH)
    ultimately show ?case by (auto simp: le_Suc_eq)
  qed simp
  then show ?thesis by (auto simp: dupes_def filter_empty_conv not_less)
qed

lemma check_deps_Inr:
  "check_deps known ns = Inr () \<longleftrightarrow> (\<forall>n\<in>set ns. set (wn_depends_on n) \<subseteq> set known)"
  by (induction ns) (auto simp: Let_def res_simps filter_empty_conv subset_iff)

lemma closed_ids_iff: "closed_ids ns \<longleftrightarrow> dupes (node_ids ns) = [] \<and> check_deps (node_ids ns) ns = Inr ()"
  by (simp add: closed_ids_def dupes_Nil check_deps_Inr)

lemma check_pair_Inr:
  assumes c: "closed_ids ns" and l: "l \<in> set ns" and r: "r \<in> set ns"
  shows "check_pair ns l r = Inr () \<longleftrightarrow>
    ordered_nodes ns l r \<or> set (wn_owned_files l) \<inter> set (wn_owned_files r) = {}"
proof -
  have "wn_node_id l \<in> set (node_ids ns)" "wn_node_id r \<in> set (node_ids ns)"
    using l r by (simp_all add: node_ids_def)
  from this [THEN ancestors_exact [OF c]]
  obtain la ra where la: "ancestors ns (wn_node_id l) = Inr la"
      "set la = {a. (a, wn_node_id l) \<in> (dep_rel ns)\<^sup>+}"
    and ra: "ancestors ns (wn_node_id r) = Inr ra"
      "set ra = {a. (a, wn_node_id r) \<in> (dep_rel ns)\<^sup>+}"
    by blast
  have "check_pair ns l r = Inr () \<longleftrightarrow> wn_node_id l \<in> set ra \<or> wn_node_id r \<in> set la \<or>
      filter (\<lambda>f. f \<in> set (wn_owned_files r)) (wn_owned_files l) = []"
    by (simp add: check_pair_def la(1) ra(1) Let_def guard_res_def)
  also have "\<dots> \<longleftrightarrow> ordered_nodes ns l r \<or> set (wn_owned_files l) \<inter> set (wn_owned_files r) = {}"
    unfolding la(2) ra(2) ordered_nodes_def filter_empty_conv by blast
  finally show ?thesis .
qed

lemma check_against_Inr: "check_against ns l ws = Inr () \<longleftrightarrow> (\<forall>r\<in>set ws. check_pair ns l r = Inr ())"
  by (induction ws) (auto simp: res_simps)

lemma check_writers_Inr:
  "check_writers ns ws = Inr () \<longleftrightarrow> sorted_wrt (\<lambda>l r. check_pair ns l r = Inr ()) ws"
  by (induction ws) (auto simp: res_simps check_against_Inr)

lemma sorted_wrt_iff_on:
  "(\<And>x y. x \<in> set xs \<Longrightarrow> y \<in> set xs \<Longrightarrow> P x y \<longleftrightarrow> Q x y) \<Longrightarrow> sorted_wrt P xs \<longleftrightarrow> sorted_wrt Q xs"
  by (induction xs) auto

lemma sorted_wrt_all_pairs:
  assumes "\<And>x y. P x y \<Longrightarrow> P y x" and "distinct (map f xs)"
  shows "sorted_wrt P xs \<longleftrightarrow> (\<forall>x\<in>set xs. \<forall>y\<in>set xs. f x \<noteq> f y \<longrightarrow> P x y)"
  using assms by (induction xs) (auto simp: image_iff)

lemma check_ownership_Inr:
  assumes c: "closed_ids ns"
  shows "check_ownership ns = Inr () \<longleftrightarrow> exclusive_files ns"
proof -
  let ?ws = "filter (\<lambda>n. wn_kind n = IMPLEMENT) ns"
  let ?P = "\<lambda>l r. ordered_nodes ns l r \<or> set (wn_owned_files l) \<inter> set (wn_owned_files r) = {}"
  have "check_ownership ns = Inr () \<longleftrightarrow> sorted_wrt (\<lambda>l r. check_pair ns l r = Inr ()) ?ws"
    by (simp add: check_ownership_def check_writers_Inr)
  also have "\<dots> \<longleftrightarrow> sorted_wrt ?P ?ws"
    by (rule sorted_wrt_iff_on) (auto simp: check_pair_Inr [OF c])
  also have "\<dots> \<longleftrightarrow> (\<forall>l\<in>set ?ws. \<forall>r\<in>set ?ws. wn_node_id l \<noteq> wn_node_id r \<longrightarrow> ?P l r)"
    using c by (intro sorted_wrt_all_pairs)
      (auto simp: ordered_nodes_def closed_ids_def node_ids_def distinct_map_filter)
  finally show ?thesis by (auto simp: exclusive_files_def)
qed

lemma WorkGraph_Inr:
  "WorkGraph goal ns topo rationale mp = Inr g \<longleftrightarrow> valid_plan ns mp \<and>
     g = \<lparr> wg_goal = goal, wg_nodes = ns, wg_topology = topo, wg_rationale = rationale,
           wg_max_parallel = mp \<rparr>"
proof (cases "closed_ids ns")
  case True
  have "(\<exists>ls. layers ns = Inr ls) \<longleftrightarrow> acyclic (dep_rel ns)"
    using layers_Inr_acyclic [OF True] layers_Inl_cyclic [OF True] by (cases "layers ns") auto
  with True check_ownership_Inr [OF True] show ?thesis
    by (auto simp: WorkGraph_def valid_plan_def res_simps closed_ids_iff node_ids_def)
next
  case False
  then show ?thesis by (auto simp: WorkGraph_def valid_plan_def res_simps closed_ids_iff)
qed


section \<open>Properties\<close>

text \<open>C2. A plan is accepted exactly when it is valid: it has a node, its ids are distinct, every
  dependency names a node, no node waits for itself through its dependencies, two implementing
  nodes that name the same owned file are ordered by the dependencies, and the parallelism is at
  least one. Acceptance keeps the plan's data unchanged.\<close>

theorem WorkGraph_accepts_iff_valid:
  "WorkGraph goal ns topo rationale mp = Inr g \<longleftrightarrow> valid_plan ns mp \<and>
     g = \<lparr> wg_goal = goal, wg_nodes = ns, wg_topology = topo, wg_rationale = rationale,
           wg_max_parallel = mp \<rparr>"
  by (rule WorkGraph_Inr)

text \<open>For a plan with distinct ids and known dependencies, \<open>layers\<close> returns exactly when the
  dependencies are acyclic; otherwise it raises.\<close>

theorem layers_returns_iff_acyclic:
  assumes "closed_ids ns"
  shows "(\<exists>ls. layers ns = Inr ls) \<longleftrightarrow> acyclic (dep_rel ns)"
  using layers_Inr_acyclic [OF assms] layers_Inl_cyclic [OF assms] by (cases "layers ns") auto

text \<open>The layers of a plan are a topological order: together they hold every node exactly once,
  and whatever a node depends on is in an earlier layer.\<close>

theorem layers_topological:
  assumes "closed_ids ns" and "layers ns = Inr ls"
  shows "mset (concat ls) = mset (node_ids ns) \<and>
    (\<forall>k i d. k < length ls \<and> i \<in> set (ls ! k) \<and> (d, i) \<in> dep_rel ns \<longrightarrow>
       (\<exists>j<k. d \<in> set (ls ! j)))"
proof -
  have "\<exists>j<k. d \<in> set (ls ! j)" if "k < length ls" "i \<in> set (ls ! k)" "(d, i) \<in> dep_rel ns" for k i d
  proof -
    from layers_sound(2) [OF assms that] obtain l where "l \<in> set (take k ls)" "d \<in> set l" by auto
    then show ?thesis by (auto simp: in_set_conv_nth [of l])
  qed
  with layers_sound(1) [OF assms] show ?thesis by blast
qed

text \<open>\<open>ancestors\<close> returns, for every node of a plan with distinct ids and known dependencies,
  exactly the nodes it transitively depends on.\<close>

theorem ancestors_transitive_dependencies:
  assumes "closed_ids ns" and "i \<in> set (node_ids ns)"
  shows "\<exists>out. ancestors ns i = Inr out \<and> set out = {a. (a, i) \<in> (dep_rel ns)\<^sup>+}"
  using assms by (rule ancestors_exact)

definition sample_chain :: "work_node list" where
  "sample_chain = [sample_node ''c'' [''a'', ''b''] [''c.py''], sample_node ''b'' [''a''] [''b.py''],
     sample_node ''a'' [] [''a.py'']]"

lemma sample_chain_closed: "closed_ids sample_chain"
  unfolding closed_ids_iff by code_simp

lemma sample_chain_layers: "layers sample_chain = Inr [[''a''], [''b''], [''c'']]"
  by code_simp

theorem layers_returns_iff_acyclic_witness: "acyclic (dep_rel sample_chain)"
  using layers_returns_iff_acyclic [OF sample_chain_closed] sample_chain_layers by blast

theorem layers_topological_witness:
  "mset (concat [[''a''], [''b''], [''c'']]) = mset (node_ids sample_chain)"
  using layers_topological [OF sample_chain_closed sample_chain_layers] by blast

theorem ancestors_transitive_dependencies_witness:
  "\<exists>out. ancestors sample_chain ''c'' = Inr out \<and> set out = {a. (a, ''c'') \<in> (dep_rel sample_chain)\<^sup>+}"
  by (rule ancestors_transitive_dependencies [OF sample_chain_closed])
     (simp add: sample_chain_def node_ids_def sample_node_def)

text \<open>The ownership check of an accepted plan compares the owned paths as they are written: a plan
  in which two nodes that do not wait for each other both own the file \<open>src/a.py\<close>, one through its
  directory, is accepted.\<close>

theorem directory_overlap_is_accepted:
  "\<exists>g l r. WorkGraph ''goal'' [l, r] PARALLEL_WORK_UNITS [] 2 = Inr g \<and>
     WorkNode (sample_raw_node ''l'' [] [''src'']) = Inr l \<and>
     WorkNode (sample_raw_node ''r'' [] [''src/a.py'']) = Inr r \<and>
     owns l ''src/a.py'' \<and> owns r ''src/a.py'' \<and> \<not> ordered_nodes [l, r] l r"
proof -
  let ?l = "sample_node ''l'' [] [''src'']" and ?r = "sample_node ''r'' [] [''src/a.py'']"
  have "\<not> isl (WorkGraph ''goal'' [?l, ?r] PARALLEL_WORK_UNITS [] 2)" by code_simp
  then have "\<exists>g. WorkGraph ''goal'' [?l, ?r] PARALLEL_WORK_UNITS [] 2 = Inr g"
    by (rule not_isl_ex)
  moreover have "dep_rel [?l, ?r] = {}" by (auto simp: dep_rel_def sample_node_def)
  then have "\<not> ordered_nodes [?l, ?r] ?l ?r" by (simp add: ordered_nodes_def)
  moreover have "WorkNode (sample_raw_node ''l'' [] [''src'']) = Inr ?l"
    "WorkNode (sample_raw_node ''r'' [] [''src/a.py'']) = Inr ?r"
    "owns ?l ''src/a.py''" "owns ?r ''src/a.py''" by code_simp+
  ultimately show ?thesis by blast
qed

end
