(* ===== verification/Runtime_State.thy ===== *)
theory Runtime_State
  imports Work_Graph Recovery Credential_Pools Dispatch_Permits
begin

section \<open>State of the DAG runtime, operator controls, readiness and blocking\<close>

text \<open>
  Models the state of \<open>DagRuntime\<close> in \<open>verdict/orchestration/runtime.py\<close>, the operator controls of
  \<open>controls.py\<close> and their handlers, \<open>_ready\<close> and \<open>_propagate_blocks\<close>. A task of the event loop is
  known by whether it has ended, whether its cancellation was requested and how it crashed, if it did. The drivers of the nodes
  are in theory \<open>Node_Driver\<close>, the loop around them in theory \<open>Run_Loop\<close>.
\<close>

subsection \<open>Records\<close>

record runtime_policy =
  pol_max_parallel :: int
  pol_max_attempts_per_node :: int
  pol_require_review :: bool
  pol_max_cooldown_wait_seconds :: rat
  pol_context_budget_bytes :: int
  pol_min_context_budget_bytes :: int
  pol_run_repo_gates :: bool
  pol_require_dispatch_permit :: bool

text \<open>An entry of a node's attempt history, with the fields later code reads.\<close>

record history_entry =
  h_attempt :: int
  h_route_id :: route_id
  h_outcome :: string
  h_commit :: string
  h_evidence :: string

record node_run =
  nr_node :: work_node
  nr_state :: node_state
  nr_attempt :: int
  nr_route_id :: route_id
  nr_history :: "history_entry list"
  nr_failures :: "failure list"
  nr_excluded_routes :: "route_id list"
  nr_commit :: string
  nr_reason :: string
  nr_context_budget :: int
  nr_repacked_routes :: "route_id list"
  nr_failure_feedback :: string
  nr_rehydrated_routes :: "route_id list"
  nr_excluded_pools :: "string list"
  nr_selected_context_window :: "int option"
  nr_dispatch_proof :: "admission_proof option"
  nr_permit :: "dispatch_permit option"

definition NodeRun :: "work_node \<Rightarrow> node_run" where
  "NodeRun node =
     \<lparr> nr_node = node, nr_state = PLANNED, nr_attempt = 0, nr_route_id = '''', nr_history = [],
       nr_failures = [], nr_excluded_routes = [], nr_commit = '''', nr_reason = '''',
       nr_context_budget = 0, nr_repacked_routes = [], nr_failure_feedback = '''',
       nr_rehydrated_routes = [], nr_excluded_pools = [], nr_selected_context_window = None,
       nr_dispatch_proof = None, nr_permit = None \<rparr>"

text \<open>Why a control request was refused, or accepted.\<close>

datatype control_reason =
    UnknownKind string
  | UnknownNodeId node_id
  | OnlyActiveWork node_id node_state
  | RetryOnlyFailed node_id node_state
  | DriverStillActive
  | NodeWasCancelled
  | NoFailureEvidence
  | BudgetRefused
  | RunCancelled
  | NodeCancelledByOperator
  | RetryAccepted

text \<open>
  The events that carry state. \<open>NodeStateEv\<close> is what \<open>_set\<close> emits (with the route and the attempt),
  \<open>ForcedStateEv\<close> is the event of code that writes the state directly.
\<close>

datatype event =
    NodeStateEv node_id node_state route_id int string
  | ForcedStateEv node_id node_state string
  | ControlEv string string bool control_reason
  | FailureEv node_id string action route_id string
  | CooldownEv node_id string string string
  | EligibilityEv node_id "route_id option" "route_id option" string
  | SelectionEv node_id route_id capacity_class int
  | ReassignEv node_id route_id route_id string int
  | RepackEv node_id int int int
  | RehydrateEv node_id string route_id int
  | DispatchEv node_id route_id int string
  | HydrateEv node_id route_id int int bool
  | TerminalEv node_id bool route_id int
  | PermitEv node_id string int
  | VerifyEv node_id bool int
  | BarrierEv node_id string bool "string list"
  | RepoGatesEv node_id string
  | RepoGateEv node_id string bool int
  | SalvageEv node_id int
  | RestoreEv node_id int
  | FormatterEv node_id "string list" int
  | IntegrateEv "string list" string
  | IndependenceEv string "route_id list" "string list" route_id
  | ReviewEv string route_id int int
  | RunFinishedEv run_outcome string string

record task =
  tk_done :: bool
  tk_cancelling :: bool
  tk_crash :: "string option"

record runtime =
  rt_nodes :: "(node_id, node_run) dict"
  rt_pending :: "(node_id, task) dict"
  rt_cancel_requested :: bool
  rt_processed_controls :: "string list"
  rt_events :: "event list"

definition emit :: "event \<Rightarrow> runtime \<Rightarrow> runtime" where
  "emit e rt = rt \<lparr> rt_events := rt_events rt @ [e] \<rparr>"

definition put_run :: "node_id \<Rightarrow> node_run \<Rightarrow> runtime \<Rightarrow> runtime" where
  "put_run i run rt = rt \<lparr> rt_nodes := dict_put i run (rt_nodes rt) \<rparr>"

text \<open>\<open>DagRuntime.__init__\<close>: one \<open>NodeRun\<close> for each node of the validated graph.\<close>

definition DagRuntime :: "work_graph \<Rightarrow> runtime" where
  "DagRuntime g =
     \<lparr> rt_nodes = dict_of (map (\<lambda>n. (wn_node_id n, NodeRun n)) (wg_nodes g)), rt_pending = [],
       rt_cancel_requested = False, rt_processed_controls = [], rt_events = [] \<rparr>"


subsection \<open>Control requests\<close>

record control_request =
  cq_id :: string
  cq_kind :: string
  cq_node_id :: "node_id option"
  cq_requested_by :: string

datatype control_error =
    CE_UnknownKind string
  | CE_NeedsNodeId string
  | CE_UnknownNodeId node_id
  | CE_TakesNoNodeId string

definition VALID_KINDS :: "string list" where
  "VALID_KINDS = [''cancel_run'', ''cancel_node'', ''retry_node'']"

definition NODE_SCOPED_KINDS :: "string list" where
  "NODE_SCOPED_KINDS = [''cancel_node'', ''retry_node'']"

text \<open>\<open>request_control\<close>: the request it appends; the random id is an argument.\<close>

definition request_control ::
  "string \<Rightarrow> node_id option \<Rightarrow> string \<Rightarrow> node_id list option \<Rightarrow> string \<Rightarrow> control_error + control_request"
where
  "request_control kind node requested_by graph_ids fresh_id =
     (let req = \<lparr> cq_id = fresh_id, cq_kind = kind, cq_node_id = node, cq_requested_by = requested_by \<rparr> in
      if kind \<notin> set VALID_KINDS then Inl (CE_UnknownKind kind)
      else if kind \<in> set NODE_SCOPED_KINDS then
        (case node of
           None \<Rightarrow> Inl (CE_NeedsNodeId kind)
         | Some i \<Rightarrow>
             (case graph_ids of
                Some ids \<Rightarrow> if i \<notin> set ids then Inl (CE_UnknownNodeId i) else Inr req
              | None \<Rightarrow> Inr req))
      else (case node of Some _ \<Rightarrow> Inl (CE_TakesNoNodeId kind) | None \<Rightarrow> Inr req))"

definition active_states :: "node_state list" where
  "active_states = [PLANNED, ADMITTED, DISPATCHED, RUNNING]"

definition cancel_tasks :: "(node_id, task) dict \<Rightarrow> (node_id, task) dict" where
  "cancel_tasks pending = map (\<lambda>(i, t). (i, t \<lparr> tk_cancelling := True \<rparr>)) pending"

text \<open>The body of the loop of \<open>_handle_cancel_run\<close>, for one node.\<close>

definition cancel_run_node :: "node_run \<Rightarrow> node_run \<times> event list" where
  "cancel_run_node run =
     (let i = wn_node_id (nr_node run) in
      if nr_state run \<in> set active_states then
        if BLOCKED \<in> set (TRANSITIONS (nr_state run)) then
          (run \<lparr> nr_reason := ''cancelled by operator'', nr_state := BLOCKED \<rparr>,
           [ForcedStateEv i BLOCKED ''cancelled by operator''])
        else if TERMINAL_FAILURE \<in> set (TRANSITIONS (nr_state run)) then
          (run \<lparr> nr_reason := ''cancelled by operator'', nr_state := TERMINAL_FAILURE \<rparr>,
           [ForcedStateEv i TERMINAL_FAILURE ''cancelled by operator''])
        else (run, [])
      else (run, []))"

definition handle_cancel_run :: "control_request \<Rightarrow> runtime \<Rightarrow> runtime" where
  "handle_cancel_run req rt =
     rt \<lparr> rt_cancel_requested := True,
          rt_pending := cancel_tasks (rt_pending rt),
          rt_nodes := map (\<lambda>(i, run). (i, fst (cancel_run_node run))) (rt_nodes rt),
          rt_events := rt_events rt @ concat (map (\<lambda>(i, run). snd (cancel_run_node run)) (rt_nodes rt)) @
            [ControlEv (cq_id req) ''cancel_run'' True RunCancelled] \<rparr>"

definition request_node :: "control_request \<Rightarrow> node_id" where
  "request_node req = (case cq_node_id req of None \<Rightarrow> '''' | Some i \<Rightarrow> i)"

text \<open>
  \<open>_handle_cancel_node\<close>. The states are tested twice in the code; the second test (line 588) always
  succeeds after the first, so its other branch is left out.
\<close>

definition handle_cancel_node :: "control_request \<Rightarrow> runtime \<Rightarrow> runtime" where
  "handle_cancel_node req rt =
     (let i = request_node req in
      case map_of (rt_nodes rt) i of
        None \<Rightarrow> emit (ControlEv (cq_id req) ''cancel_node'' False (UnknownNodeId i)) rt
      | Some run \<Rightarrow>
          if nr_state run \<notin> set active_states then
            emit (ControlEv (cq_id req) ''cancel_node'' False (OnlyActiveWork i (nr_state run))) rt
          else
            let rt1 = rt \<lparr> rt_pending := map (\<lambda>(j, t). (j, if j = i then t \<lparr> tk_cancelling := True \<rparr> else t))
                            (rt_pending rt) \<rparr>;
                run' = run \<lparr> nr_reason := ''cancelled_by_operator'', nr_state := BLOCKED \<rparr>;
                rt2 = (if TERMINAL_FAILURE \<in> set (TRANSITIONS (nr_state run)) then
                         emit (ForcedStateEv i BLOCKED ''cancelled_by_operator'')
                           (emit (ForcedStateEv i TERMINAL_FAILURE ''cancelled_by_operator'') (put_run i run' rt1))
                       else if BLOCKED \<in> set (TRANSITIONS (nr_state run)) then
                         emit (ForcedStateEv i BLOCKED ''cancelled_by_operator'') (put_run i run' rt1)
                       else rt1)
            in emit (ControlEv (cq_id req) ''cancel_node'' True NodeCancelledByOperator) rt2)"

definition recovery_budget_of :: "runtime_policy \<Rightarrow> recovery_budget" where
  "recovery_budget_of pol = \<lparr> rb_max_attempts_per_node = pol_max_attempts_per_node pol,
     rb_max_same_route_retries = 0, rb_max_verification_repairs = 1 \<rparr>"

definition driver_active :: "runtime \<Rightarrow> node_id \<Rightarrow> bool" where
  "driver_active rt i = (case map_of (rt_pending rt) i of None \<Rightarrow> False | Some t \<Rightarrow> \<not> tk_done t)"

definition handle_retry_node :: "runtime_policy \<Rightarrow> control_request \<Rightarrow> runtime \<Rightarrow> runtime" where
  "handle_retry_node pol req rt =
     (let i = request_node req; refuse = (\<lambda>why. emit (ControlEv (cq_id req) ''retry_node'' False why) rt) in
      case map_of (rt_nodes rt) i of
        None \<Rightarrow> refuse (UnknownNodeId i)
      | Some run \<Rightarrow>
          if nr_state run \<notin> {TERMINAL_FAILURE, BLOCKED} then refuse (RetryOnlyFailed i (nr_state run))
          else if driver_active rt i then refuse DriverStillActive
          else if contains_sub ''cancelled'' (nr_reason run) then refuse NodeWasCancelled
          else if nr_failures run = [] then refuse NoFailureEvidence
          else if decide (recovery_budget_of pol) (nr_failures run) (Some (nr_attempt run)) = D_FAIL_CLOSED
          then refuse BudgetRefused
          else emit (ControlEv (cq_id req) ''retry_node'' True RetryAccepted)
                 (emit (ForcedStateEv i PLANNED ''retry requested by operator'')
                    (put_run i (run \<lparr> nr_state := PLANNED, nr_reason := '''' \<rparr>) rt)))"

text \<open>\<open>_poll_controls\<close> over the requests the reader returns; \<open>True\<close> when the run was cancelled.\<close>

fun poll_controls :: "runtime_policy \<Rightarrow> control_request list \<Rightarrow> runtime \<Rightarrow> bool \<times> runtime" where
  "poll_controls pol [] rt = (False, rt)"
| "poll_controls pol (req # reqs) rt =
     (if cq_id req \<in> set (rt_processed_controls rt) then poll_controls pol reqs rt
      else
        let rt1 = rt \<lparr> rt_processed_controls := cq_id req # rt_processed_controls rt \<rparr> in
        if cq_kind req = ''cancel_run'' then (True, handle_cancel_run req rt1)
        else if cq_kind req = ''cancel_node'' then poll_controls pol reqs (handle_cancel_node req rt1)
        else if cq_kind req = ''retry_node'' then poll_controls pol reqs (handle_retry_node pol req rt1)
        else poll_controls pol reqs
               (emit (ControlEv (cq_id req) (cq_kind req) False (UnknownKind (cq_kind req))) rt1))"


subsection \<open>Readiness and propagation of blocked nodes\<close>

definition state_in :: "(node_id, node_run) dict \<Rightarrow> node_id \<Rightarrow> node_state option" where
  "state_in nodes i = map_option nr_state (map_of nodes i)"

definition ready :: "runtime \<Rightarrow> node_id list" where
  "ready rt =
     (if rt_cancel_requested rt then []
      else map fst (filter (\<lambda>(i, run). nr_state run = PLANNED \<and>
             list_all (\<lambda>d. state_in (rt_nodes rt) d = Some VALIDATED) (wn_depends_on (nr_node run)))
           (rt_nodes rt)))"

definition blocked_deps :: "runtime \<Rightarrow> node_run \<Rightarrow> node_id list" where
  "blocked_deps rt run =
     filter (\<lambda>d. state_in (rt_nodes rt) d = Some BLOCKED) (wn_depends_on (nr_node run))"

definition dependency_reason :: "node_id list \<Rightarrow> string" where
  "dependency_reason blocked = ''dependency blocked: '' @ py_join '', '' blocked"

text \<open>One pass over the nodes, which sees the changes it has made itself.\<close>

fun propagate_pass :: "node_id list \<Rightarrow> runtime \<Rightarrow> bool \<times> runtime" where
  "propagate_pass [] rt = (False, rt)"
| "propagate_pass (i # ids) rt =
     (case map_of (rt_nodes rt) i of
        None \<Rightarrow> propagate_pass ids rt
      | Some run \<Rightarrow>
          if nr_state run \<noteq> PLANNED \<or> blocked_deps rt run = [] then propagate_pass ids rt
          else
            let reason = dependency_reason (blocked_deps rt run) in
            (True, snd (propagate_pass ids (emit (ForcedStateEv i BLOCKED reason)
               (put_run i (run \<lparr> nr_state := BLOCKED, nr_reason := reason \<rparr>) rt)))))"

definition planned_count :: "runtime \<Rightarrow> nat" where
  "planned_count rt = length (filter (\<lambda>(i, run). nr_state run = PLANNED) (rt_nodes rt))"

lemma dict_put_count:
  "map_of d k = Some v \<Longrightarrow> P (k, v) \<Longrightarrow> \<not> P (k, v') \<Longrightarrow>
   length (filter P (dict_put k v' d)) < length (filter P d)"
  by (induction k v' d rule: dict_put.induct) (auto split: if_splits)

lemma propagate_pass_measure:
  "(\<not> fst (propagate_pass ids rt) \<longrightarrow> snd (propagate_pass ids rt) = rt) \<and>
   planned_count (snd (propagate_pass ids rt)) \<le> planned_count rt \<and>
   (fst (propagate_pass ids rt) \<longrightarrow> planned_count (snd (propagate_pass ids rt)) < planned_count rt)"
proof (induction ids rt rule: propagate_pass.induct)
  case (2 i ids rt)
  show ?case
  proof (cases "map_of (rt_nodes rt) i")
    case None
    with 2 show ?thesis by simp
  next
    case (Some run)
    show ?thesis
    proof (cases "nr_state run \<noteq> PLANNED \<or> blocked_deps rt run = []")
      case True
      with 2 Some show ?thesis by simp
    next
      case False
      let ?r = "dependency_reason (blocked_deps rt run)"
      let ?rt = "emit (ForcedStateEv i BLOCKED ?r) (put_run i (run \<lparr> nr_state := BLOCKED, nr_reason := ?r \<rparr>) rt)"
      have "planned_count ?rt < planned_count rt"
        unfolding planned_count_def emit_def put_run_def using Some False
        by (simp, intro dict_put_count [of _ _ run]) auto
      with 2(3) [OF Some False refl] Some False show ?thesis by (auto simp: Let_def)
    qed
  qed
qed simp

function propagate_blocks :: "runtime \<Rightarrow> runtime" where
  "propagate_blocks rt =
     (let (changed, rt') = propagate_pass (map fst (rt_nodes rt)) rt in
      if changed then propagate_blocks rt' else rt')"
  by pat_completeness auto
termination
proof (relation "measure planned_count")
  fix rt changed rt' x
  assume "x = propagate_pass (map fst (rt_nodes rt)) rt" "(changed, rt') = x" changed
  then have "fst (propagate_pass (map fst (rt_nodes rt)) rt)" "snd (propagate_pass (map fst (rt_nodes rt)) rt) = rt'"
    by (metis fst_conv, metis snd_conv)
  then show "(rt', rt) \<in> measure planned_count"
    using propagate_pass_measure [of "map fst (rt_nodes rt)" rt] by simp
qed simp

declare propagate_blocks.simps [simp del]


section \<open>Lemmas\<close>

lemmas rt_update_defs = emit_def put_run_def

lemma state_in_put: "state_in (dict_put i run nodes) j = (if j = i then Some (nr_state run) else state_in nodes j)"
  by (simp add: state_in_def)

text \<open>The nodes that propagation must block: reached from a blocked node through planned ones.\<close>

inductive doomed :: "(node_id, node_run) dict \<Rightarrow> node_id \<Rightarrow> bool" for nodes where
  doomed_blocked: "state_in nodes i = Some BLOCKED \<Longrightarrow> doomed nodes i"
| doomed_planned: "map_of nodes i = Some run \<Longrightarrow> nr_state run = PLANNED \<Longrightarrow>
    d \<in> set (wn_depends_on (nr_node run)) \<Longrightarrow> doomed nodes d \<Longrightarrow> doomed nodes i"

text \<open>What a pass may do: block doomed planned nodes and nothing else.\<close>

definition blocks_more :: "runtime \<Rightarrow> runtime \<Rightarrow> bool" where
  "blocks_more rt rt' \<longleftrightarrow>
     map fst (rt_nodes rt') = map fst (rt_nodes rt) \<and>
     rt_pending rt' = rt_pending rt \<and> rt_cancel_requested rt' = rt_cancel_requested rt \<and>
     (\<forall>i. map_of (rt_nodes rt') i = map_of (rt_nodes rt) i \<or>
        (\<exists>run reason. map_of (rt_nodes rt) i = Some run \<and> nr_state run = PLANNED \<and> doomed (rt_nodes rt) i \<and>
           map_of (rt_nodes rt') i = Some (run \<lparr> nr_state := BLOCKED, nr_reason := reason \<rparr>)))"

lemma blocks_more_refl: "blocks_more rt rt"
  by (simp add: blocks_more_def)

lemma blocks_more_cases:
  assumes "blocks_more rt rt'"
  obtains "map_of (rt_nodes rt') i = map_of (rt_nodes rt) i"
  | run reason where "map_of (rt_nodes rt) i = Some run" "nr_state run = PLANNED" "doomed (rt_nodes rt) i"
      "map_of (rt_nodes rt') i = Some (run \<lparr> nr_state := BLOCKED, nr_reason := reason \<rparr>)"
  using assms unfolding blocks_more_def by blast

lemma blocks_more_doomed_back:
  assumes "blocks_more rt rt'"
  shows "doomed (rt_nodes rt') i \<Longrightarrow> doomed (rt_nodes rt) i"
proof (induction rule: doomed.induct)
  case (doomed_blocked i)
  from assms show ?case
  proof (rule blocks_more_cases [of rt rt' i])
    assume "map_of (rt_nodes rt') i = map_of (rt_nodes rt) i"
    then show ?thesis using doomed_blocked by (intro doomed.doomed_blocked) (simp add: state_in_def)
  qed
next
  case (doomed_planned i run d)
  from assms show ?case
  proof (rule blocks_more_cases [of rt rt' i])
    assume "map_of (rt_nodes rt') i = map_of (rt_nodes rt) i"
    with doomed_planned(1) have "map_of (rt_nodes rt) i = Some run" by simp
    then show ?thesis using doomed_planned(2,3,5) by (rule doomed.doomed_planned)
  qed
qed

lemma blocks_more_doomed_forth:
  assumes "blocks_more rt rt'"
  shows "doomed (rt_nodes rt) i \<Longrightarrow> doomed (rt_nodes rt') i"
proof (induction rule: doomed.induct)
  case (doomed_blocked i)
  from assms show ?case
    by (rule blocks_more_cases [of rt rt' i]) (use doomed_blocked in \<open>auto simp: state_in_def intro!: doomed.intros(1)\<close>)
next
  case (doomed_planned i run d)
  from assms show ?case
    by (rule blocks_more_cases [of rt rt' i])
      (use doomed_planned in \<open>auto simp: state_in_def intro: doomed.intros\<close>)
qed

lemma blocks_more_trans:
  assumes 1: "blocks_more a b" and 2: "blocks_more b c"
  shows "blocks_more a c"
proof -
  have "map_of (rt_nodes c) i = map_of (rt_nodes a) i \<or>
      (\<exists>run reason. map_of (rt_nodes a) i = Some run \<and> nr_state run = PLANNED \<and> doomed (rt_nodes a) i \<and>
         map_of (rt_nodes c) i = Some (run \<lparr> nr_state := BLOCKED, nr_reason := reason \<rparr>))" for i
  proof (rule blocks_more_cases [OF 1, of i])
    assume same: "map_of (rt_nodes b) i = map_of (rt_nodes a) i"
    show ?thesis
      by (rule blocks_more_cases [OF 2, of i]) (use same blocks_more_doomed_back [OF 1] in metis)+
  next
    fix run reason
    assume "map_of (rt_nodes a) i = Some run" "nr_state run = PLANNED" "doomed (rt_nodes a) i"
      "map_of (rt_nodes b) i = Some (run \<lparr> nr_state := BLOCKED, nr_reason := reason \<rparr>)"
    then show ?thesis by (rule_tac blocks_more_cases [OF 2, of i]) auto
  qed
  then show ?thesis using 1 2 unfolding blocks_more_def by simp
qed

lemma blocks_more_one:
  assumes "map_of (rt_nodes rt) i = Some run" "nr_state run = PLANNED" "blocked_deps rt run \<noteq> []"
  shows "blocks_more rt (emit e (put_run i (run \<lparr> nr_state := BLOCKED, nr_reason := reason \<rparr>) rt))"
proof -
  from assms(3) obtain d where "d \<in> set (wn_depends_on (nr_node run))" "state_in (rt_nodes rt) d = Some BLOCKED"
    by (auto simp: blocked_deps_def filter_empty_conv)
  then have "doomed (rt_nodes rt) i" using assms by (auto intro: doomed.intros)
  moreover have "i \<in> set (map fst (rt_nodes rt))"
    using assms(1) by (metis image_eqI fst_conv map_of_SomeD list.set_map)
  ultimately show ?thesis using assms
    by (auto simp: blocks_more_def rt_update_defs keys_dict_put_present)
qed

lemma propagate_pass_blocks_more: "blocks_more rt (snd (propagate_pass ids rt))"
proof (induction ids rt rule: propagate_pass.induct)
  case (2 i ids rt)
  show ?case
  proof (cases "map_of (rt_nodes rt) i")
    case None
    with 2 show ?thesis by simp
  next
    case (Some run)
    show ?thesis
    proof (cases "nr_state run \<noteq> PLANNED \<or> blocked_deps rt run = []")
      case True
      with 2 Some show ?thesis by simp
    next
      case False
      then have "blocks_more rt (emit (ForcedStateEv i BLOCKED (dependency_reason (blocked_deps rt run)))
          (put_run i (run \<lparr> nr_state := BLOCKED, nr_reason := dependency_reason (blocked_deps rt run) \<rparr>) rt))"
        using Some by (intro blocks_more_one) auto
      from blocks_more_trans [OF this 2(3) [OF Some False refl]] Some False show ?thesis
        by (simp add: Let_def)
    qed
  qed
qed (simp add: blocks_more_refl)

lemma propagate_pass_quiet:
  "\<not> fst (propagate_pass ids rt) \<Longrightarrow> i \<in> set ids \<Longrightarrow> map_of (rt_nodes rt) i = Some run \<Longrightarrow>
   nr_state run = PLANNED \<Longrightarrow> blocked_deps rt run = []"
  by (induction ids rt rule: propagate_pass.induct) (auto simp: Let_def split: option.splits if_splits)

lemma propagate_blocks_more: "blocks_more rt (propagate_blocks rt)"
proof (induction rt rule: propagate_blocks.induct)
  case (1 rt)
  let ?p = "propagate_pass (map fst (rt_nodes rt)) rt"
  have "blocks_more rt (snd ?p)" by (rule propagate_pass_blocks_more)
  then show ?case using 1 [OF refl prod.collapse]
    by (subst propagate_blocks.simps) (auto simp: Let_def case_prod_beta intro: blocks_more_trans)
qed

lemma propagate_blocks_quiet:
  "map_of (rt_nodes (propagate_blocks rt)) i = Some run \<Longrightarrow> nr_state run = PLANNED \<Longrightarrow>
   blocked_deps (propagate_blocks rt) run = []"
proof (induction rt rule: propagate_blocks.induct)
  case (1 rt)
  let ?p = "propagate_pass (map fst (rt_nodes rt)) rt"
  show ?case
  proof (cases "fst ?p")
    case True
    then have "propagate_blocks rt = propagate_blocks (snd ?p)"
      by (subst propagate_blocks.simps) (simp add: case_prod_beta)
    with 1(1) [OF refl prod.collapse] True 1(2,3) show ?thesis by simp
  next
    case False
    then have same: "propagate_blocks rt = rt"
      using propagate_pass_measure [of "map fst (rt_nodes rt)" rt]
      by (subst propagate_blocks.simps) (simp add: case_prod_beta)
    then have "i \<in> set (map fst (rt_nodes rt))"
      using 1(2) by (metis image_eqI fst_conv map_of_SomeD list.set_map)
    with propagate_pass_quiet [OF False _ _ 1(3)] 1(2) same show ?thesis by simp
  qed
qed

lemma doomed_after_propagation:
  "doomed (rt_nodes (propagate_blocks rt)) i \<Longrightarrow> state_in (rt_nodes (propagate_blocks rt)) i = Some BLOCKED"
proof (induction rule: doomed.induct)
  case (doomed_planned i run d)
  then show ?case using propagate_blocks_quiet [of rt i run]
    by (auto simp: blocked_deps_def filter_empty_conv)
qed


section \<open>Properties\<close>

text \<open>C38. Propagation terminates and blocks exactly the planned nodes that reach a blocked node through
  planned dependencies; every other node keeps its state.\<close>

theorem propagate_blocks_exact:
  "state_in (rt_nodes (propagate_blocks rt)) i =
     (if doomed (rt_nodes rt) i then Some BLOCKED else state_in (rt_nodes rt) i)"
proof (cases "doomed (rt_nodes rt) i")
  case True
  with blocks_more_doomed_forth [OF propagate_blocks_more] doomed_after_propagation show ?thesis by simp
next
  case False
  then show ?thesis
    by (rule_tac blocks_more_cases [OF propagate_blocks_more [of rt], of i]) (simp_all add: state_in_def)
qed

end
