(* ===== verification/Node_Driver.thy ===== *)
theory Node_Driver
  imports Runtime_State "HOL-Library.Product_Lexorder"
begin

section \<open>The driver of one node\<close>

text \<open>
  Models the coroutine \<open>DagRuntime._drive\<close> of \<open>verdict/orchestration/runtime.py\<close> and everything it
  calls on the node's own state: attempts, permits, validation, repository gates, failure records,
  the reaction to each failure and the mechanical integration node. Code outside the process (the
  selector's answers, git, the worker, the verification command, the permit store at the moment of
  the send) is a \<open>turn\<close>: the answers one iteration of the loop receives. An action is a function from
  the driver's state to a result (an exception or a value) and the next state; the state survives an
  exception, as it does in Python.
\<close>

subsection \<open>Actions\<close>

datatype crash =
    OrchestrationError orch_error
  | AdmissionBypassError route_id
  | CacheError cache_error
  | OtherException string

record driver =
  dr_run :: node_run
  dr_events :: "event list"
  dr_inflight :: "(node_id, route_id) dict"
  dr_capacity :: "(node_id, capacity_class) dict"
  dr_store_writes :: "permit_store list"

type_synonym 'a action_of = "driver \<Rightarrow> (crash + 'a) \<times> driver"

definition ret :: "'a \<Rightarrow> 'a action_of" where
  "ret x s = (Inr x, s)"

definition throw :: "crash \<Rightarrow> 'a action_of" where
  "throw e s = (Inl e, s)"

definition seq :: "'a action_of \<Rightarrow> ('a \<Rightarrow> 'b action_of) \<Rightarrow> 'b action_of" where
  "seq m f s = (case m s of (Inl e, t) \<Rightarrow> (Inl e, t) | (Inr x, t) \<Rightarrow> f x t)"

text \<open>\<open>try: ... finally: ...\<close> where the cleanup cannot fail.\<close>

definition finally_do :: "'a action_of \<Rightarrow> unit action_of \<Rightarrow> 'a action_of" where
  "finally_do m cleanup s = (case m s of (r, t) \<Rightarrow> (r, snd (cleanup t)))"

definition get_run :: "node_run action_of" where
  "get_run s = (Inr (dr_run s), s)"

definition modify_run :: "(node_run \<Rightarrow> node_run) \<Rightarrow> unit action_of" where
  "modify_run f s = (Inr (), s \<lparr> dr_run := f (dr_run s) \<rparr>)"

definition log_event :: "event \<Rightarrow> unit action_of" where
  "log_event e s = (Inr (), s \<lparr> dr_events := dr_events s @ [e] \<rparr>)"

definition reserve :: "node_id \<Rightarrow> route_id \<Rightarrow> unit action_of" where
  "reserve i r s = (Inr (), s \<lparr> dr_inflight := dict_put i r (dr_inflight s) \<rparr>)"

definition unreserve :: "node_id \<Rightarrow> unit action_of" where
  "unreserve i s = (Inr (), s \<lparr> dr_inflight := dict_del i (dr_inflight s) \<rparr>)"

definition note_capacity :: "node_id \<Rightarrow> capacity_class \<Rightarrow> unit action_of" where
  "note_capacity i c s = (Inr (), s \<lparr> dr_capacity := dict_put i c (dr_capacity s) \<rparr>)"

text \<open>The permit store is a file that other processes write too: a driver reads it under its lock (the
  content is an answer of the turn) and replaces it; \<open>dr_store_writes\<close> keeps what the driver wrote.\<close>

definition write_store :: "permit_store \<Rightarrow> unit action_of" where
  "write_store st s = (Inr (), s \<lparr> dr_store_writes := dr_store_writes s @ [st] \<rparr>)"

definition answer :: "string + 'a \<Rightarrow> 'a action_of" where
  "answer r = (case r of Inl e \<Rightarrow> throw (OtherException e) | Inr x \<Rightarrow> ret x)"

definition from_git :: "string + 'a \<Rightarrow> 'a action_of" where
  "from_git r = (case r of Inl e \<Rightarrow> throw (OrchestrationError (GitFailed e)) | Inr x \<Rightarrow> ret x)"

definition from_cache :: "cache_error + 'a \<Rightarrow> 'a action_of" where
  "from_cache r = (case r of Inl e \<Rightarrow> throw (CacheError e) | Inr x \<Rightarrow> ret x)"

text \<open>\<open>_set\<close>: the only place where a driver changes the state of its node.\<close>

definition set_node :: "node_state \<Rightarrow> string \<Rightarrow> unit action_of" where
  "set_node st reason s =
     (case check_transition (nr_state (dr_run s)) st of
        Inl e \<Rightarrow> (Inl (OrchestrationError e), s)
      | Inr _ \<Rightarrow>
          let run = (dr_run s) \<lparr> nr_state := st \<rparr> in
          (Inr (), s \<lparr> dr_run := run,
             dr_events := dr_events s @
               [NodeStateEv (wn_node_id (nr_node run)) st (nr_route_id run) (nr_attempt run) reason] \<rparr>))"


subsection \<open>What the driver asks the outside world\<close>

text \<open>The \<open>cooldown_until\<close> text of a verdict, with its time when it parses.\<close>

datatype cooldown_time = CooldownAt rat string | CooldownUnreadable string

record route_verdict =
  rv_route_id :: route_id
  rv_provider :: string
  rv_reached :: "eligibility_stage option"
  rv_failed_stage :: "eligibility_stage option"
  rv_reason :: string
  rv_capacity_class :: capacity_class
  rv_cooldown_until :: "cooldown_time option"
  rv_context_window :: "int option"

datatype exec_answer =
    ExecTerminal worker_terminal
  | ExecOwnershipError string
  | ExecException string string

record repo_gate_result =
  gt_name :: string
  gt_code :: int
  gt_out :: string

record prompt_size =
  pz_chars :: int
  pz_bytes :: int

record context_plan =
  cp_token_budget :: int
  cp_output_token_reserve :: int
  cp_tool_token_reserve :: int
  cp_candidate_context_window :: "int option"

text \<open>The answers of the validation of one attempt.\<close>

record validation_turn =
  vt_changed :: "string + string list"
  vt_verify :: "int \<times> string"
  vt_gates :: "string + repo_gate_result list"
  vt_regular_file :: "string \<Rightarrow> bool"
  vt_ruff_found :: bool
  vt_format_code :: int
  vt_gates_again :: "string + repo_gate_result list"
  vt_base_gate :: "string \<Rightarrow> int option"

text \<open>The answers of one iteration of the loop of \<open>_drive\<close>.\<close>

record turn =
  tu_select :: "task_requirements \<Rightarrow> route_verdict option \<times> route_verdict list"
  tu_now :: rat
  tu_launchable :: bool
  tu_bind_blocker :: "string option"
  tu_confirm :: "string + confirmation"
  tu_bind_store :: "string + permit_store"
  tu_bind_now :: rat
  tu_slot_blocker :: "string option"
  tu_merge :: "string + string"
  tu_add_worktree :: "string + unit"
  tu_restored :: "int option"
  tu_prompt :: "int \<Rightarrow> context_plan \<Rightarrow> string \<Rightarrow> prompt_size"
  tu_origin :: "string option"
  tu_commit_store :: "string + permit_store"
  tu_commit_now :: rat
  tu_permit_id :: string
  tu_exec :: exec_answer
  tu_epoch_store :: "string + permit_store"
  tu_revoke_store :: "string + permit_store"
  tu_revoke_now :: rat
  tu_validation :: validation_turn
  tu_commit :: "string + string"
  tu_salvage :: "string + int option"

text \<open>
  The dispatch authority as the runtime sees it: its gateway URL and how origins are compared, whether
  the URL carries credentials or no host, its origin part (all three by the URL parser of the standard
  library), and the two SHA-256 digests of a scope (of the route's identity and of the node's work).
\<close>

record authority =
  au_gateway_origin :: string
  au_matches :: "string \<Rightarrow> string \<Rightarrow> bool"
  au_unresolved :: bool
  au_origin :: string
  au_generation :: "string \<Rightarrow> string \<Rightarrow> route_id \<Rightarrow> string"
  au_profile_digest :: "work_node \<Rightarrow> string"

record driver_config =
  cfg_policy :: runtime_policy
  cfg_authority :: "authority option"
  cfg_run_name :: string
  cfg_run_digest :: string
  cfg_base_sha :: string
  cfg_dep_commits :: "string list"
  cfg_hydrator_takes_budget :: bool


subsection \<open>Text\<close>

fun show_nat :: "nat \<Rightarrow> string" where
  "show_nat n =
     (if n < 10 then [char_of (48 + n)] else show_nat (n div 10) @ [char_of (48 + n mod 10)])"

definition show_int :: "int \<Rightarrow> string" where
  "show_int k = (if k < 0 then ''-'' @ show_nat (nat (- k)) else show_nat (nat k))"

text \<open>\<open>splitlines\<close>, up to empty lines, which its only caller drops.\<close>

fun lines_of :: "string \<Rightarrow> string list" where
  "lines_of [] = [[]]"
| "lines_of (c # s) =
     (if of_char c \<in> {10, 11, 12, 13, 28, 29, 30, 133 :: nat} then [] # lines_of s
      else (case lines_of s of [] \<Rightarrow> [[c]] | w # ws \<Rightarrow> (c # w) # ws))"

definition blocked_report :: "string \<Rightarrow> string" where
  "blocked_report output =
     (let lines = filter (\<lambda>w. w \<noteq> []) (map py_strip (lines_of (py_strip output)));
          ends = (if lines = [] then [] else [hd lines, last lines])
      in case List.find (\<lambda>w. prefix ''RESULT: BLOCKED'' (py_upper w)) ends of
           Some w \<Rightarrow> w | None \<Rightarrow> [])"


subsection \<open>Recording failures\<close>

definition record_failure :: "worker_terminal \<Rightarrow> failure option \<Rightarrow> bool \<Rightarrow> unit action_of" where
  "record_failure terminal given validated =
     (let failure = (case given of Some f \<Rightarrow> f | None \<Rightarrow> classify terminal) in
      seq (modify_run (\<lambda>r. r \<lparr> nr_failures := nr_failures r @ [failure] \<rparr>)) (\<lambda>_.
      seq (set_node (if validated then REJECTED else TERMINAL_FAILURE) (fc_category failure)) (\<lambda>_.
      seq get_run (\<lambda>run.
      seq (log_event (FailureEv (wn_node_id (nr_node run)) (fc_category failure) (fc_action failure)
             (nr_route_id run) (py_head 300 (fc_evidence failure)))) (\<lambda>_.
      seq (if fc_scope failure \<noteq> ScopeNone \<and> fc_cooldown failure > 0 then
             let pooled = (fc_scope failure = ScopeProvider \<and>
                             fc_category failure \<in> set POOL_COOLDOWN_CATEGORIES) in
             log_event (CooldownEv (wn_node_id (nr_node run))
               (if pooled then pool_of (nr_route_id run) else nr_route_id run)
               (if pooled then ''pool'' else ''route'') (fc_category failure))
           else ret ()) (\<lambda>_.
      modify_run (\<lambda>r. r \<lparr> nr_history := nr_history r @
        [\<lparr> h_attempt = nr_attempt r, h_route_id = nr_route_id r, h_outcome = fc_category failure,
           h_commit = '''', h_evidence = '''' \<rparr>] \<rparr>)))))))"

definition blank_terminal :: worker_terminal where
  "blank_terminal = \<lparr> wt_ok = False, wt_output = '''', wt_model = '''', wt_stop_reason = '''',
     wt_error = '''', wt_status_code = None, wt_retry_after_seconds = None, wt_session_ref = '''',
     wt_executor_kind = '''', wt_harness = '''' \<rparr>"

definition failed_terminal :: "string \<Rightarrow> worker_terminal" where
  "failed_terminal err = blank_terminal \<lparr> wt_error := err \<rparr>"

definition REVOKING_CATEGORIES :: "string list" where
  "REVOKING_CATEGORIES = [''authentication'', ''permission'', ''model_mismatch'']"

text \<open>
  \<open>_fail\<close>: record the failure, revoke the scope of the permit for a revoking category (a write to the
  permit store, which may raise), then salvage owned partial work.
\<close>

definition revoke_permit :: "driver_config \<Rightarrow> turn \<Rightarrow> node_run \<Rightarrow> string \<Rightarrow> unit action_of" where
  "revoke_permit cfg tu run category =
     (case nr_permit run of
        None \<Rightarrow> ret ()
      | Some permit \<Rightarrow>
          if category \<in> set REVOKING_CATEGORIES then
            seq (answer (tu_revoke_store tu)) (\<lambda>st.
            seq (from_cache (record_revocation (pm_scope permit) (pm_route_id permit)
                   (cfg_run_name cfg @ '':'' @ pm_permit_id permit @ '':'' @ category) None
                   (tu_revoke_now tu) st)) (\<lambda>(epoch, st').
            write_store st'))
          else ret ())"

definition fail_attempt :: "driver_config \<Rightarrow> turn \<Rightarrow> worker_terminal \<Rightarrow> bool \<Rightarrow> bool action_of" where
  "fail_attempt cfg tu terminal validated =
     seq (record_failure terminal None validated) (\<lambda>_.
     seq get_run (\<lambda>run.
     seq (revoke_permit cfg tu run (fc_category (last (nr_failures run)))) (\<lambda>_.
     seq (if wn_owned_files (nr_node run) \<noteq> [] \<and> wt_executor_kind terminal \<noteq> ''fault-injected'' then
            seq (from_git (tu_salvage tu)) (\<lambda>saved.
              case saved of
                None \<Rightarrow> ret ()
              | Some n \<Rightarrow>
                  seq (log_event (SalvageEv (wn_node_id (nr_node run)) n)) (\<lambda>_.
                  modify_run (\<lambda>r. r \<lparr> nr_history := nr_history r @
                    [\<lparr> h_attempt = nr_attempt r, h_route_id = nr_route_id r, h_outcome = ''salvage'',
                       h_commit = '''', h_evidence = '''' \<rparr>] \<rparr>)))
          else ret ()) (\<lambda>_.
     ret False))))"

text \<open>\<open>_node_base\<close>: the run's base, the only dependency's commit, or a merge of all of them.\<close>

definition base_answer :: "driver_config \<Rightarrow> turn \<Rightarrow> string + string" where
  "base_answer cfg tu =
     (case cfg_dep_commits cfg of
        [] \<Rightarrow> Inr (cfg_base_sha cfg)
      | [c] \<Rightarrow> Inr c
      | _ \<Rightarrow> tu_merge tu)"

definition node_base :: "driver_config \<Rightarrow> turn \<Rightarrow> string action_of" where
  "node_base cfg tu = from_git (base_answer cfg tu)"


subsection \<open>Context budgets\<close>

definition WORKER_OUTPUT_RESERVE :: int where "WORKER_OUTPUT_RESERVE = 1024"

definition WORKER_SAFETY_RESERVE :: int where "WORKER_SAFETY_RESERVE = 512"

definition estimate_tokens :: "int \<Rightarrow> int" where
  "estimate_tokens chars = max 1 ((chars + 3) div 4)"

definition context_plan_of :: "int option \<Rightarrow> int \<Rightarrow> context_plan" where
  "context_plan_of selected_window budget =
     (let output = WORKER_OUTPUT_RESERVE; safety = WORKER_SAFETY_RESERVE;
          window = (case selected_window of None \<Rightarrow> None | Some w \<Rightarrow> if w < 1 then None else Some w);
          total = min (case window of Some w \<Rightarrow> w | None \<Rightarrow> 8192) (max 0 (budget div 4) + output + safety)
      in \<lparr> cp_token_budget = max 1 total,
           cp_output_token_reserve = min output (max 0 (total - 1)),
           cp_tool_token_reserve = min safety (max 0 (total - output - 1)),
           cp_candidate_context_window = window \<rparr>)"

definition input_token_budget :: "context_plan \<Rightarrow> int" where
  "input_token_budget p = cp_token_budget p - cp_output_token_reserve p - cp_tool_token_reserve p"

definition input_limit :: "context_plan \<Rightarrow> int" where
  "input_limit p =
     (case cp_candidate_context_window p of
        None \<Rightarrow> input_token_budget p
      | Some w \<Rightarrow> max 0 (min (input_token_budget p) (w - WORKER_OUTPUT_RESERVE - WORKER_SAFETY_RESERVE)))"

definition prompt_fits :: "context_plan \<Rightarrow> int \<Rightarrow> prompt_size \<Rightarrow> bool" where
  "prompt_fits plan budget z \<longleftrightarrow> estimate_tokens (pz_chars z) \<le> input_limit plan \<and> pz_bytes z \<le> budget"

definition current_budget :: "runtime_policy \<Rightarrow> node_run \<Rightarrow> int" where
  "current_budget pol run =
     (if nr_context_budget run = 0 then pol_context_budget_bytes pol else nr_context_budget run)"

definition repack :: "runtime_policy \<Rightarrow> bool action_of" where
  "repack pol =
     seq get_run (\<lambda>run.
       let current = current_budget pol run;
           smaller = max (pol_min_context_budget_bytes pol) (current div 2) in
       if smaller \<ge> current then ret False
       else
         seq (modify_run (\<lambda>r. r \<lparr> nr_context_budget := smaller \<rparr>)) (\<lambda>_.
         seq (log_event (RepackEv (wn_node_id (nr_node run)) current smaller (nr_attempt run))) (\<lambda>_.
         ret True)))"


subsection \<open>Repository gates and validation\<close>

definition gate_message :: "repo_gate_result \<Rightarrow> string" where
  "gate_message g =
     ''repo_gate_failed: '' @ gt_name g @ '' exit '' @ show_int (gt_code g) @ '': '' @ py_tail 600 (gt_out g)"

definition gate_counts :: "bool \<Rightarrow> repo_gate_result \<Rightarrow> bool" where
  "gate_counts worker_fixable_only g \<longleftrightarrow>
     gt_code g \<noteq> 0 \<and> (gt_code g \<notin> {126, 127} \<or> \<not> worker_fixable_only)"

text \<open>
  \<open>_run_repo_gates\<close>: the first failure as the result, and every failure in the \<open>failed\<close> list. Its
  events are logged by the caller's action.
\<close>

definition run_repo_gates ::
  "runtime_policy \<Rightarrow> bool \<Rightarrow> string + repo_gate_result list \<Rightarrow> (string option \<times> string list) action_of" where
  "run_repo_gates pol worker_fixable_only gates =
     seq get_run (\<lambda>run.
       let i = wn_node_id (nr_node run) in
       if \<not> pol_run_repo_gates pol then
         seq (log_event (RepoGatesEv i ''disabled by runtime policy'')) (\<lambda>_. ret (None, []))
       else
         (case gates of
            Inl exc \<Rightarrow>
              (let config_reason = py_head 300 (''repo_gates_config_error: '' @ exc) in
               seq (log_event (RepoGatesEv i config_reason)) (\<lambda>_.
               ret (if worker_fixable_only then None else Some config_reason, [])))
          | Inr gs \<Rightarrow>
              seq (log_event (RepoGatesEv i ''declared'')) (\<lambda>_.
              seq (foldr (\<lambda>g rest. seq (log_event (RepoGateEv i (gt_name g) (gt_code g = 0) (gt_code g)))
                     (\<lambda>_. rest)) gs (ret ())) (\<lambda>_.
              (let failed = map gate_message (filter (gate_counts worker_fixable_only) gs) in
               ret (case failed of [] \<Rightarrow> None | m # _ \<Rightarrow> Some m, failed))))))"

definition repair_formatting ::
  "runtime_policy \<Rightarrow> validation_turn \<Rightarrow> string list \<Rightarrow> string list action_of" where
  "repair_formatting pol vt changed =
     (let targets = filter (vt_regular_file vt) changed in
      if targets = [] then ret [''repo_gate_failed: ruff-format exit 1: no changed files to format'']
      else if \<not> vt_ruff_found vt then ret [''repo_gate_failed: ruff-format exit 127: ruff not found'']
      else
        seq get_run (\<lambda>run.
        seq (log_event (FormatterEv (wn_node_id (nr_node run)) targets (vt_format_code vt))) (\<lambda>_.
        seq (run_repo_gates pol True (vt_gates_again vt)) (\<lambda>r. ret (snd r)))))"

definition gate_name_of :: "string \<Rightarrow> string" where
  "gate_name_of gate_reason =
     hd (py_split CHR '' '' (if prefix ''repo_gate_failed: '' gate_reason
       then drop (length ''repo_gate_failed: '') gate_reason else gate_reason))"

definition gate_fails_on_base :: "validation_turn \<Rightarrow> string \<Rightarrow> bool" where
  "gate_fails_on_base vt gate_reason =
     (case vt_base_gate vt (gate_name_of gate_reason) of None \<Rightarrow> False | Some code \<Rightarrow> code \<noteq> 0)"

definition ownership_error :: "string list \<Rightarrow> string" where
  "ownership_error outside = ''ownership_violation: '' @ py_join '', '' (py_head 8 outside)"

definition unowned_error :: "string list \<Rightarrow> string" where
  "unowned_error changed =
     ''ownership_violation: node has no owned_files but changed: '' @ py_join '', '' (py_head 8 changed)"

definition verification_error :: "int \<Rightarrow> string \<Rightarrow> string" where
  "verification_error code out =
     ''verification_failed: exit '' @ show_int code @ '': '' @ py_tail 300 out"

definition ruff_format_prefix :: string where
  "ruff_format_prefix = ''repo_gate_failed: ruff-format ''"

text \<open>The ownership barrier of \<open>_validate\<close>: an error text when it refuses.\<close>

definition check_changes :: "work_node \<Rightarrow> string list \<Rightarrow> string option action_of" where
  "check_changes node changed =
     (let i = wn_node_id node; outside = filter (\<lambda>p. \<not> owns node p) changed in
      if wn_kind node = IMPLEMENT then
        seq (log_event (BarrierEv i ''ownership'' (outside = []) outside)) (\<lambda>_.
        if outside \<noteq> [] then ret (Some (ownership_error outside))
        else if changed = [] then seq (log_event (BarrierEv i ''no_change'' True [])) (\<lambda>_. ret None)
        else ret None)
      else if wn_owned_files node = [] \<and> changed \<noteq> [] then
        seq (log_event (BarrierEv i ''ownership'' False changed)) (\<lambda>_. ret (Some (unowned_error changed)))
      else ret None)"

text \<open>
  The gates of an implementation node after its verification passed: formatting alone is repaired
  and checked again, and only failures that are not already on the base count.
\<close>

definition gate_verdict ::
  "runtime_policy \<Rightarrow> validation_turn \<Rightarrow> string list \<Rightarrow> string list \<Rightarrow> string option action_of" where
  "gate_verdict pol vt changed failed =
     seq (if failed \<noteq> [] \<and> list_all (prefix ruff_format_prefix) failed
          then repair_formatting pol vt changed else ret failed) (\<lambda>failed'.
     ret (case List.find (\<lambda>g. \<not> gate_fails_on_base vt g) failed' of
            None \<Rightarrow> None
          | Some g \<Rightarrow> Some (''verification_failed: '' @ py_head 600 g)))"

definition check_gates :: "runtime_policy \<Rightarrow> validation_turn \<Rightarrow> string list \<Rightarrow> string option action_of" where
  "check_gates pol vt changed =
     seq (run_repo_gates pol True (vt_gates vt)) (\<lambda>r. gate_verdict pol vt changed (snd r))"

definition validate :: "runtime_policy \<Rightarrow> validation_turn \<Rightarrow> string option action_of" where
  "validate pol vt =
     seq get_run (\<lambda>run.
     seq (from_git (vt_changed vt)) (\<lambda>changed.
     seq (check_changes (nr_node run) changed) (\<lambda>refused.
       let node = nr_node run; i = wn_node_id node in
       case refused of
         Some e \<Rightarrow> ret (Some e)
       | None \<Rightarrow>
           if wn_verification_command node \<noteq> [] then
             seq (log_event (VerifyEv i (fst (vt_verify vt) = 0) (fst (vt_verify vt)))) (\<lambda>_.
             if fst (vt_verify vt) \<noteq> 0 then
               ret (Some (verification_error (fst (vt_verify vt)) (snd (vt_verify vt))))
             else if wn_kind node = IMPLEMENT \<and> changed \<noteq> [] then check_gates pol vt changed
             else ret None)
           else seq (log_event (VerifyEv i True 0)) (\<lambda>_. ret None))))"


subsection \<open>One attempt\<close>

definition execute :: "route_id \<Rightarrow> exec_answer \<Rightarrow> worker_terminal" where
  "execute route a =
     (case a of
        ExecTerminal t \<Rightarrow> t
      | ExecOwnershipError e \<Rightarrow> (failed_terminal (''ownership_refused: '' @ e))
          \<lparr> wt_model := route, wt_status_code := Some 125 \<rparr>
      | ExecException cls e \<Rightarrow> (failed_terminal (''transport: '' @ cls @ '': '' @ e)) \<lparr> wt_model := route \<rparr>)"

text \<open>\<open>dispatch_scope\<close> of \<open>relay.py\<close> and \<open>_bind_proof\<close>.\<close>

definition dispatch_scope_of :: "authority \<Rightarrow> work_node \<Rightarrow> route_id \<Rightarrow> dispatch_scope action_of" where
  "dispatch_scope_of au node route =
     (if au_unresolved au then
        throw (OtherException ''dispatch origin must be a resolved gateway URL without credentials'')
      else from_cache (DispatchScope (au_origin au) (au_generation au (route_provider route) route route)
             (au_profile_digest au node) (''api_relay:'' @ route)))"

definition bind_proof :: "authority \<Rightarrow> turn \<Rightarrow> work_node \<Rightarrow> route_id \<Rightarrow> admission_proof option action_of" where
  "bind_proof au tu node route =
     seq (dispatch_scope_of au node route) (\<lambda>scope.
     seq (answer (tu_confirm tu)) (\<lambda>conf.
     seq (answer (tu_bind_store tu)) (\<lambda>st.
     ret (admission_proof_of st conf route scope (cf_receipt_id conf) (route_provider route) route
            (tu_bind_now tu)))))"

definition permit_attempt_id :: "driver_config \<Rightarrow> node_run \<Rightarrow> string" where
  "permit_attempt_id cfg run =
     cfg_run_name cfg @ '':'' @ cfg_run_digest cfg @ '':'' @ wn_node_id (nr_node run) @ ''-a'' @
     show_int (nr_attempt run)"

text \<open>The inner \<open>commit\<close> of \<open>_commit_permit\<close>, on the store it reads under the lock.\<close>

definition commit_for ::
  "driver_config \<Rightarrow> turn \<Rightarrow> node_run \<Rightarrow> admission_proof \<Rightarrow> permit_store
     \<Rightarrow> cache_error + dispatch_permit option \<times> permit_store" where
  "commit_for cfg tu run proof st =
     commit_dispatch (ap_scope proof) (ap_route_id proof) (permit_attempt_id cfg run)
       (ap_authorization_digest proof) (ap_epoch proof)
       (min (ap_expires_at proof) (ap_qualified_at proof + PERMIT_PROOF_MAX_VALIDITY_SECONDS))
       (ap_qualified_at proof) (tu_commit_now tu) (tu_permit_id tu) st"

definition commit_permit :: "driver_config \<Rightarrow> turn \<Rightarrow> dispatch_permit option action_of" where
  "commit_permit cfg tu =
     seq get_run (\<lambda>run.
       case nr_dispatch_proof run of
         None \<Rightarrow> ret None
       | Some proof \<Rightarrow>
           if ap_route_id proof \<noteq> nr_route_id run then ret None
           else
             seq (answer (tu_commit_store tu)) (\<lambda>st.
             seq (from_cache (commit_for cfg tu run proof st)) (\<lambda>(permit, st').
             case permit of
               None \<Rightarrow> ret None
             | Some p \<Rightarrow>
                 seq (write_store st') (\<lambda>_.
                 seq (log_event (PermitEv (wn_node_id (nr_node run)) (pm_permit_id p) (pm_epoch p))) (\<lambda>_.
                 ret (Some p))))))"

text \<open>What follows the hydration: the attempt is settled without a send, or the worker ran.\<close>

datatype sent = Settled bool | Executed worker_terminal

text \<open>A local denial: the failure is recorded, the node is blocked, nothing is sent.\<close>

definition deny :: "string \<Rightarrow> action \<Rightarrow> string \<Rightarrow> sent action_of" where
  "deny category act reason =
     seq (record_failure (failed_terminal reason) (Some (FC category act 0 ScopeNone reason)) False) (\<lambda>_.
     seq (modify_run (\<lambda>r. r \<lparr> nr_reason := reason \<rparr>)) (\<lambda>_.
     seq (set_node BLOCKED reason) (\<lambda>_. ret (Settled True))))"

definition context_rejected :: string where
  "context_rejected = ''context_input_rejected: full prompt exceeds conservative input budget''"

definition permit_denied :: string where
  "permit_denied = ''permit_denied: proof revoked or expired before the send''"

definition no_proof_denied :: string where
  "no_proof_denied = ''dispatch_denied: no admission proof for the bound route''"

definition origin_denied :: "string option \<Rightarrow> string" where
  "origin_denied origin =
     ''dispatch_denied: executor origin '' @ (if origin = None then ''unknown'' else ''mismatch'')"

definition feedback_suffix :: "node_run \<Rightarrow> string" where
  "feedback_suffix run =
     (if nr_failure_feedback run = [] then []
      else [CHR 0x0A, CHR 0x0A] @
        (if fc_category (last (nr_failures run)) = ''ownership_violation''
         then ''PREVIOUS_ATTEMPT_FAILED_OWNERSHIP'' else ''PREVIOUS_ATTEMPT_FAILED_VERIFICATION'') @
        '':'' @ [CHR 0x0A] @ nr_failure_feedback run @ [CHR 0x0A] @
        ''Fix the cause above, then run VERIFICATION_COMMAND again.'' @ [CHR 0x0A])"

text \<open>From the permit check to the worker's terminal.\<close>

definition authorize_and_send :: "driver_config \<Rightarrow> turn \<Rightarrow> sent action_of" where
  "authorize_and_send cfg tu =
     (case cfg_authority cfg of
        Some au \<Rightarrow>
          if tu_origin tu = None \<or> \<not> au_matches au (the (tu_origin tu)) (au_gateway_origin au) then
            deny ''dispatch_denied'' BLOCK (origin_denied (tu_origin tu))
          else
            seq (commit_permit cfg tu) (\<lambda>permit.
            seq (modify_run (\<lambda>r. r \<lparr> nr_permit := permit \<rparr>)) (\<lambda>_.
            if permit = None then
              seq (record_failure (failed_terminal permit_denied)
                     (Some (FC ''permit_denied'' REROUTE 0 ScopeNone permit_denied)) False) (\<lambda>_.
              ret (Settled False))
            else seq get_run (\<lambda>run. ret (Executed (execute (nr_route_id run) (tu_exec tu))))))
      | None \<Rightarrow>
          if pol_require_dispatch_permit (cfg_policy cfg) then
            deny ''dispatch_denied'' BLOCK no_proof_denied
          else seq get_run (\<lambda>run. ret (Executed (execute (nr_route_id run) (tu_exec tu)))))"

text \<open>The first \<open>try\<close> of \<open>_attempt\<close>: dispatch, hydrate, check the size, authorize and send.\<close>

definition run_dispatch :: "driver_config \<Rightarrow> turn \<Rightarrow> string \<Rightarrow> sent action_of" where
  "run_dispatch cfg tu base =
     seq (set_node DISPATCHED '''') (\<lambda>_.
     seq get_run (\<lambda>run.
     seq (log_event (DispatchEv (wn_node_id (nr_node run)) (nr_route_id run) (nr_attempt run) base)) (\<lambda>_.
     seq (set_node RUNNING '''') (\<lambda>_.
       let budget = current_budget (cfg_policy cfg) run;
           plan = context_plan_of (nr_selected_context_window run) budget;
           z = tu_prompt tu budget plan (feedback_suffix run);
           fits = prompt_fits plan budget z in
       seq (log_event (HydrateEv (wn_node_id (nr_node run)) (nr_route_id run) budget (input_limit plan) fits)) (\<lambda>_.
       if \<not> fits then deny ''context_input_rejected'' FAIL_CLOSED context_rejected
       else authorize_and_send cfg tu)))))"

definition worker_said_blocked :: "worker_terminal \<Rightarrow> worker_terminal" where
  "worker_said_blocked t =
     (let line = (if wt_ok t then blocked_report (wt_output t) else []) in
      if line = [] then t
      else t \<lparr> wt_ok := False, wt_error := ''worker_blocked: '' @ py_head 200 line, wt_stop_reason := '''',
             wt_status_code := None, wt_retry_after_seconds := None \<rparr>)"

definition permit_revoked :: string where
  "permit_revoked = ''permit_revoked_after_commit: scope revoked during the send''"

text \<open>The permit was revoked while the worker ran.\<close>

definition revoked_in_flight :: "turn \<Rightarrow> node_run \<Rightarrow> bool action_of" where
  "revoked_in_flight tu run =
     (case nr_permit run of
        None \<Rightarrow> ret False
      | Some p \<Rightarrow> seq (answer (tu_epoch_store tu)) (\<lambda>st. ret (revocation_epoch st (pm_scope p) \<noteq> pm_epoch p)))"

text \<open>The verdict of the validation: a rejected attempt, or the commit and \<open>VALIDATED\<close>.\<close>

definition conclude_attempt :: "driver_config \<Rightarrow> turn \<Rightarrow> route_id \<Rightarrow> string option \<Rightarrow> bool action_of" where
  "conclude_attempt cfg tu route verdict =
     (case verdict of
        Some err \<Rightarrow> fail_attempt cfg tu ((failed_terminal err) \<lparr> wt_model := route \<rparr>) True
      | None \<Rightarrow>
          seq (from_git (tu_commit tu)) (\<lambda>sha.
          seq (modify_run (\<lambda>r. r \<lparr> nr_commit := sha, nr_history := nr_history r @
            [\<lparr> h_attempt = nr_attempt r, h_route_id = nr_route_id r, h_outcome = ''validated'',
               h_commit = sha, h_evidence = '''' \<rparr>] \<rparr>)) (\<lambda>_.
          seq (set_node VALIDATED '''') (\<lambda>_. ret True))))"

text \<open>The second \<open>try\<close> of \<open>_attempt\<close>: what the terminal is worth.\<close>

definition settle_attempt :: "driver_config \<Rightarrow> turn \<Rightarrow> worker_terminal \<Rightarrow> bool action_of" where
  "settle_attempt cfg tu terminal0 =
     seq get_run (\<lambda>run.
     seq (log_event (TerminalEv (wn_node_id (nr_node run)) (wt_ok terminal0) (nr_route_id run) (nr_attempt run))) (\<lambda>_.
       let terminal = worker_said_blocked terminal0 in
       if \<not> wt_ok terminal \<or> py_strip (wt_output terminal) = [] then fail_attempt cfg tu terminal False
       else
         seq (revoked_in_flight tu run) (\<lambda>revoked.
         if revoked then
           seq (record_failure terminal
                  (Some (FC ''permit_revoked_after_commit'' REROUTE 0 ScopeNone permit_revoked)) False) (\<lambda>_.
           ret False)
         else
           seq (set_node TERMINAL_SUCCESS '''') (\<lambda>_.
           seq (validate (cfg_policy cfg) (tu_validation tu)) (conclude_attempt cfg tu (nr_route_id run))))))"

definition restore_note :: "turn \<Rightarrow> unit action_of" where
  "restore_note tu =
     seq get_run (\<lambda>run.
       if nr_attempt run > 1 \<and> wn_owned_files (nr_node run) \<noteq> [] then
         (case tu_restored tu of
            None \<Rightarrow> ret ()
          | Some n \<Rightarrow>
              seq (log_event (RestoreEv (wn_node_id (nr_node run)) n)) (\<lambda>_.
              modify_run (\<lambda>r. r \<lparr> nr_history := nr_history r @
                [\<lparr> h_attempt = nr_attempt r, h_route_id = nr_route_id r, h_outcome = ''restore'',
                   h_commit = '''', h_evidence = '''' \<rparr>] \<rparr>)))
       else ret ())"

text \<open>\<open>_attempt\<close>: \<open>None\<close> when the selection was revoked before anything was dispatched.\<close>

definition attempt :: "driver_config \<Rightarrow> turn \<Rightarrow> bool option action_of" where
  "attempt cfg tu =
     seq (modify_run (\<lambda>r. r \<lparr> nr_permit := None \<rparr>)) (\<lambda>_.
     seq get_run (\<lambda>run.
       let i = wn_node_id (nr_node run) in
       case tu_slot_blocker tu of
         Some blocker \<Rightarrow>
           seq (log_event (EligibilityEv i None (Some (nr_route_id run)) blocker)) (\<lambda>_. ret None)
       | None \<Rightarrow>
           seq (set_node ADMITTED '''') (\<lambda>_.
           seq (node_base cfg tu) (\<lambda>base.
           seq (from_git (tu_add_worktree tu)) (\<lambda>_.
           seq (restore_note tu) (\<lambda>_.
           seq (reserve i (nr_route_id run)) (\<lambda>_.
           seq (finally_do (run_dispatch cfg tu base) (unreserve i)) (\<lambda>r.
             case r of
               Settled ok \<Rightarrow> ret (Some ok)
             | Executed terminal \<Rightarrow>
                 seq (settle_attempt cfg tu terminal) (\<lambda>ok. ret (Some ok))))))))))"


subsection \<open>The loop of \<open>_drive\<close>\<close>

definition stage_name :: "eligibility_stage \<Rightarrow> string" where
  "stage_name s = (case s of DISCOVERED \<Rightarrow> ''DISCOVERED'' | ENTITLED \<Rightarrow> ''ENTITLED''
     | HEALTHY \<Rightarrow> ''HEALTHY'' | AVAILABLE \<Rightarrow> ''AVAILABLE'' | TASK_ELIGIBLE \<Rightarrow> ''TASK_ELIGIBLE''
     | SELECTED \<Rightarrow> ''SELECTED'')"

definition rank_stage :: "eligibility_stage \<Rightarrow> nat" where
  "rank_stage s = (case s of AVAILABLE \<Rightarrow> 0 | HEALTHY \<Rightarrow> 1 | TASK_ELIGIBLE \<Rightarrow> 2 | SELECTED \<Rightarrow> 3
     | ENTITLED \<Rightarrow> 4 | DISCOVERED \<Rightarrow> 5)"

definition failed_rank :: "route_verdict \<Rightarrow> nat \<times> route_id" where
  "failed_rank v = (case rv_failed_stage v of Some s \<Rightarrow> rank_stage s | None \<Rightarrow> 9, rv_route_id v)"

definition failed_name :: "route_verdict \<Rightarrow> string" where
  "failed_name v = (case rv_failed_stage v of Some s \<Rightarrow> stage_name s | None \<Rightarrow> [])"

definition until_text :: "route_verdict \<Rightarrow> string" where
  "until_text v = (case rv_cooldown_until v of
     None \<Rightarrow> [] | Some (CooldownAt _ t) \<Rightarrow> '' until '' @ t | Some (CooldownUnreadable t) \<Rightarrow> '' until '' @ t)"

text \<open>\<open>_explain_exhaustion\<close>: counts by stage in the order of their names, then the first eight routes.\<close>

definition explain_exhaustion :: "route_verdict list \<Rightarrow> string" where
  "explain_exhaustion verdicts =
     (let ranked = sort_key failed_rank (filter (\<lambda>v. rv_failed_stage v \<noteq> None) verdicts);
          parts = map (\<lambda>v. rv_route_id v @ '':'' @ failed_name v @ '':'' @ rv_reason v @ until_text v)
                    (py_head 8 ranked);
          names = map failed_name ranked;
          summary = py_join '', '' (map (\<lambda>n. show_nat (count_list names n) @ '' failed '' @ n) (sorted_set names))
      in ''['' @ summary @ ''] '' @ py_join ''; '' parts)"

definition LADDER :: "eligibility_stage list" where
  "LADDER = [DISCOVERED, ENTITLED, HEALTHY, AVAILABLE, TASK_ELIGIBLE, SELECTED]"

definition stage_index :: "eligibility_stage \<Rightarrow> nat" where
  "stage_index s = length (takeWhile (\<lambda>t. t \<noteq> s) LADDER)"

text \<open>\<open>_ladder_counts\<close>: a verdict counts for every stage up to the one it reached.\<close>

definition ladder_count :: "route_verdict list \<Rightarrow> eligibility_stage \<Rightarrow> nat" where
  "ladder_count verdicts stage =
     length (filter (\<lambda>v. case rv_reached v of None \<Rightarrow> False
       | Some reached \<Rightarrow> stage \<in> set (take (Suc (stage_index reached)) LADDER)) verdicts)"

definition ladder_counts :: "route_verdict list \<Rightarrow> (string \<times> nat) list" where
  "ladder_counts verdicts =
     [(''discovered'', ladder_count verdicts DISCOVERED), (''entitled'', ladder_count verdicts ENTITLED),
      (''healthy'', ladder_count verdicts HEALTHY), (''available'', ladder_count verdicts AVAILABLE),
      (''eligible'', ladder_count verdicts TASK_ELIGIBLE)]"

text \<open>
  The earliest readable cooldown among the routes that failed only for availability and were not
  tried; only looked for once.
\<close>

definition cooling :: "route_id list \<Rightarrow> route_verdict \<Rightarrow> rat option" where
  "cooling tried v =
     (if rv_failed_stage v = Some AVAILABLE \<and> rv_route_id v \<notin> set tried then
        (case rv_cooldown_until v of Some (CooldownAt t _) \<Rightarrow> Some t | _ \<Rightarrow> None)
      else None)"

definition earliest_cooldown :: "route_id list \<Rightarrow> route_verdict list \<Rightarrow> rat option" where
  "earliest_cooldown tried considered =
     foldl (\<lambda>best v. case cooling tried v of
              None \<Rightarrow> best
            | Some t \<Rightarrow> (case best of None \<Rightarrow> Some t | Some b \<Rightarrow> if t < b then Some t else Some b))
       None considered"

definition exhausted_reason :: "node_run \<Rightarrow> string" where
  "exhausted_reason run =
     ''replacement budget exhausted after '' @ show_int (nr_attempt run) @ '' attempts: '' @
     py_join '', '' (map (\<lambda>h. h_route_id h @ '':'' @ h_outcome h) (nr_history run))"

definition no_model_reason :: "route_verdict list \<Rightarrow> string" where
  "no_model_reason considered = ''no eligible model: '' @ explain_exhaustion considered"

definition kept_revoking :: string where
  "kept_revoking = ''pre-dispatch revalidation kept revoking selections''"

text \<open>What the loop does next; \<open>Again\<close> carries \<open>waited_once\<close> and \<open>revocations\<close>.\<close>

datatype next_turn = Stop | Again bool int

definition block_node :: "string \<Rightarrow> route_id \<Rightarrow> next_turn action_of" where
  "block_node reason route =
     seq (modify_run (\<lambda>r. r \<lparr> nr_reason := reason \<rparr>)) (\<lambda>_.
     seq (set_node BLOCKED reason) (\<lambda>_.
     seq get_run (\<lambda>run.
     seq (log_event (FailureEv (wn_node_id (nr_node run)) ''pool_exhausted'' FAIL_CLOSED route reason)) (\<lambda>_.
     ret Stop))))"

definition exclude_route :: "route_id \<Rightarrow> unit action_of" where
  "exclude_route route =
     modify_run (\<lambda>r. r \<lparr> nr_excluded_routes := List.insert route (nr_excluded_routes r) \<rparr>)"

text \<open>A selection that was revoked before dispatch: exclude the route and select again, boundedly.\<close>

definition revoke_selection :: "runtime_policy \<Rightarrow> bool \<Rightarrow> int \<Rightarrow> route_id \<Rightarrow> next_turn action_of" where
  "revoke_selection pol waited revocations route =
     seq (exclude_route route) (\<lambda>_.
     if revocations + 1 > pol_max_attempts_per_node pol then block_node kept_revoking route
     else ret (Again waited (revocations + 1)))"

definition drive_no_choice ::
  "driver_config \<Rightarrow> turn \<Rightarrow> bool \<Rightarrow> int \<Rightarrow> route_verdict list \<Rightarrow> next_turn action_of" where
  "drive_no_choice cfg tu waited revocations considered =
     seq get_run (\<lambda>run.
       let i = wn_node_id (nr_node run);
           earliest = (if waited then None else earliest_cooldown (nr_excluded_routes run) considered);
           wait = (case earliest of None \<Rightarrow> 0 | Some t \<Rightarrow> t - tu_now tu) in
       if earliest \<noteq> None \<and> 0 < wait \<and> wait \<le> pol_max_cooldown_wait_seconds (cfg_policy cfg) then
         seq (log_event (CooldownEv i ''pool'' ''wait'' ''waiting_for_capacity'')) (\<lambda>_.
         ret (Again True revocations))
       else
         seq (log_event (EligibilityEv i None None (no_model_reason considered))) (\<lambda>_.
         block_node (no_model_reason considered) ''''))"

text \<open>After a failed attempt: the feedback for the next one, and what to exclude.\<close>

definition ownership_feedback :: string where
  "ownership_feedback = [CHR 0x0A] @ ''The out-of-scope files above must not be created or modified. '' @
     ''Only OWNED_FILES may change. If one is required, finish with RESULT: BLOCKED naming the file.''"

definition feedback_of :: "failure list \<Rightarrow> string" where
  "feedback_of failures =
     (if failures = [] then []
      else if fc_category (last failures) = ''ownership_violation''
        then py_head 1700 (fc_evidence (last failures)) @ ownership_feedback
      else if fc_category (last failures) = ''verification_failed''
        then py_tail 2000 (fc_evidence (last failures))
      else [])"

definition REHYDRATED_CATEGORIES :: "string list" where
  "REHYDRATED_CATEGORIES = [''verification_failed'', ''ownership_violation'']"

definition react :: "driver_config \<Rightarrow> unit action_of" where
  "react cfg =
     seq (modify_run (\<lambda>r. r \<lparr> nr_failure_feedback := feedback_of (nr_failures r) \<rparr>)) (\<lambda>_.
     seq get_run (\<lambda>run.
       let fs = nr_failures run; route = nr_route_id run; i = wn_node_id (nr_node run) in
       if fs \<noteq> [] \<and> fc_action (last fs) = RETRY_INFRA then ret ()
       else if fs \<noteq> [] \<and> fc_category (last fs) = CONTEXT_LENGTH_CATEGORY then
         seq (repack (cfg_policy cfg)) (\<lambda>shrunk.
         if shrunk \<and> cfg_hydrator_takes_budget cfg \<and> route \<notin> set (nr_repacked_routes run) then
           modify_run (\<lambda>r. r \<lparr> nr_repacked_routes := List.insert route (nr_repacked_routes r) \<rparr>)
         else exclude_route route)
       else if fs \<noteq> [] \<and> fc_category (last fs) \<in> set REHYDRATED_CATEGORIES \<and>
               route \<notin> set (nr_rehydrated_routes run) then
         seq (modify_run (\<lambda>r. r \<lparr> nr_rehydrated_routes := List.insert route (nr_rehydrated_routes r) \<rparr>)) (\<lambda>_.
         log_event (RehydrateEv i (fc_category (last fs)) route (nr_attempt run)))
       else
         seq (exclude_route route) (\<lambda>_.
         if fs \<noteq> [] \<and> fc_category (last fs) \<in> set POOL_COOLDOWN_CATEGORIES then
           modify_run (\<lambda>r. r \<lparr> nr_excluded_pools := List.insert (pool_of route) (nr_excluded_pools r) \<rparr>)
         else ret ())))"

definition non_recoverable :: "string \<Rightarrow> string" where
  "non_recoverable category = ''non-recoverable: '' @ category"

definition after_failure :: "driver_config \<Rightarrow> bool \<Rightarrow> int \<Rightarrow> next_turn action_of" where
  "after_failure cfg waited revocations =
     seq (react cfg) (\<lambda>_.
     seq get_run (\<lambda>run.
       let fs = nr_failures run in
       if fs \<noteq> [] \<and> fc_action (last fs) = BLOCK then
         seq (modify_run (\<lambda>r. r \<lparr> nr_reason := non_recoverable (fc_category (last fs)) \<rparr>)) (\<lambda>_.
         seq (set_node BLOCKED (non_recoverable (fc_category (last fs)))) (\<lambda>_. ret Stop))
       else seq (set_node PLANNED '''') (\<lambda>_. ret (Again waited revocations))))"

text \<open>Binding a selected route, the attempt, and the reaction to its outcome.\<close>

definition bind_route :: "route_verdict \<Rightarrow> unit action_of" where
  "bind_route choice =
     seq get_run (\<lambda>before.
       let i = wn_node_id (nr_node before); route = rv_route_id choice in
       seq (modify_run (\<lambda>r. r \<lparr> nr_attempt := nr_attempt r + 1, nr_route_id := route,
              nr_selected_context_window := rv_context_window choice \<rparr>)) (\<lambda>_.
       seq (log_event (EligibilityEv i (Some route) None '''')) (\<lambda>_.
       seq (log_event (SelectionEv i route (rv_capacity_class choice) (nr_attempt before + 1))) (\<lambda>_.
       seq (note_capacity i (rv_capacity_class choice)) (\<lambda>_.
       seq (reserve i route) (\<lambda>_.
       if nr_route_id before \<noteq> [] \<and> nr_failures before \<noteq> [] then
         log_event (ReassignEv i (nr_route_id before) route (fc_category (last (nr_failures before)))
           (nr_attempt before + 1))
       else ret ()))))))"

definition unbind_route :: "route_id \<Rightarrow> unit action_of" where
  "unbind_route previous =
     seq get_run (\<lambda>run.
     seq (modify_run (\<lambda>r. r \<lparr> nr_attempt := nr_attempt r - 1, nr_route_id := previous \<rparr>)) (\<lambda>_.
     unreserve (wn_node_id (nr_node run))))"

definition drive_attempt ::
  "driver_config \<Rightarrow> turn \<Rightarrow> bool \<Rightarrow> int \<Rightarrow> route_verdict \<Rightarrow> next_turn action_of" where
  "drive_attempt cfg tu waited revocations choice =
     seq get_run (\<lambda>before.
     seq (bind_route choice) (\<lambda>_.
     seq (attempt cfg tu) (\<lambda>ok.
       case ok of
         None \<Rightarrow> seq (unbind_route (nr_route_id before)) (\<lambda>_.
                 revoke_selection (cfg_policy cfg) waited revocations (rv_route_id choice))
       | Some True \<Rightarrow> ret Stop
       | Some False \<Rightarrow> after_failure cfg waited revocations)))"

definition drive_choice ::
  "driver_config \<Rightarrow> turn \<Rightarrow> bool \<Rightarrow> int \<Rightarrow> route_verdict \<Rightarrow> next_turn action_of" where
  "drive_choice cfg tu waited revocations choice =
     seq get_run (\<lambda>run.
       let i = wn_node_id (nr_node run); route = rv_route_id choice; pol = cfg_policy cfg in
       if \<not> tu_launchable tu then throw (AdmissionBypassError route)
       else
         (case tu_bind_blocker tu of
            Some blocker \<Rightarrow>
              seq (log_event (EligibilityEv i None (Some route) blocker)) (\<lambda>_.
              revoke_selection pol waited revocations route)
          | None \<Rightarrow>
              (case cfg_authority cfg of
                 None \<Rightarrow> drive_attempt cfg tu waited revocations choice
               | Some au \<Rightarrow>
                   seq (bind_proof au tu (nr_node run) route) (\<lambda>proof.
                   seq (modify_run (\<lambda>r. r \<lparr> nr_dispatch_proof := proof \<rparr>)) (\<lambda>_.
                   if proof = None then
                     seq (log_event (EligibilityEv i None (Some route) ''no_fresh_passport'')) (\<lambda>_.
                     revoke_selection pol waited revocations route)
                   else drive_attempt cfg tu waited revocations choice)))))"

text \<open>One iteration of the loop.\<close>

definition drive_turn :: "driver_config \<Rightarrow> turn \<Rightarrow> bool \<Rightarrow> int \<Rightarrow> next_turn action_of" where
  "drive_turn cfg tu waited revocations =
     seq get_run (\<lambda>run.
       if nr_attempt run \<ge> pol_max_attempts_per_node (cfg_policy cfg) then
         block_node (exhausted_reason run) (nr_route_id run)
       else
         let req = for_node (nr_node run) (nr_excluded_routes run) (nr_excluded_pools run) in
         (case tu_select tu req of
            (None, considered) \<Rightarrow> drive_no_choice cfg tu waited revocations considered
          | (Some choice, considered) \<Rightarrow> drive_choice cfg tu waited revocations choice))"


text \<open>
  The loop itself, with the answers of each iteration; \<open>None\<close> would be a loop that never ends. The
  last component counts the iterations.
\<close>

partial_function (option) drive_loop ::
  "driver_config \<Rightarrow> (nat \<Rightarrow> turn) \<Rightarrow> nat \<Rightarrow> bool \<Rightarrow> int \<Rightarrow> driver \<Rightarrow> ((crash + unit) \<times> driver \<times> nat) option"
where
  "drive_loop cfg env n waited revocations s =
     (case drive_turn cfg (env n) waited revocations s of
        (Inl e, t) \<Rightarrow> Some (Inl e, t, Suc n)
      | (Inr r, t) \<Rightarrow>
          (case r of
             Stop \<Rightarrow> Some (Inr (), t, Suc n)
           | Again w k \<Rightarrow> drive_loop cfg env (Suc n) w k t))"

declare drive_loop.simps [code]


subsection \<open>The mechanical integration node\<close>

definition merge_failed :: "string \<Rightarrow> string" where
  "merge_failed e = ''integration merge failed: '' @ e"

definition integration_verify_failed :: "int \<times> string \<Rightarrow> string" where
  "integration_verify_failed r =
     ''integration verification failed: exit '' @ show_int (fst r) @ '': '' @ py_tail 600 (snd r)"

text \<open>The combined verification and the repository gates; an empty text when both passed.\<close>

definition integration_check :: "driver_config \<Rightarrow> validation_turn \<Rightarrow> string action_of" where
  "integration_check cfg vt =
     seq get_run (\<lambda>run.
       let node = nr_node run; i = wn_node_id node in
       seq (if wn_verification_command node \<noteq> [] then
              seq (log_event (VerifyEv i (fst (vt_verify vt) = 0) (fst (vt_verify vt)))) (\<lambda>_.
              ret (if fst (vt_verify vt) = 0 then [] else integration_verify_failed (vt_verify vt)))
            else ret []) (\<lambda>reason.
       seq (if reason = [] then
              seq (run_repo_gates (cfg_policy cfg) False (vt_gates vt)) (\<lambda>r.
              ret (case fst r of None \<Rightarrow> [] | Some m \<Rightarrow> m))
            else ret reason) (\<lambda>reason'.
       seq (log_event (BarrierEv i (if wn_barrier node = [] then ''integration'' else wn_barrier node)
              (reason' = []) [])) (\<lambda>_.
       ret reason'))))"

definition with_last_evidence :: "string \<Rightarrow> history_entry list \<Rightarrow> history_entry list" where
  "with_last_evidence e hs = (if hs = [] then [] else butlast hs @ [(last hs) \<lparr> h_evidence := e \<rparr>])"

definition integration_failed :: "string \<Rightarrow> unit action_of" where
  "integration_failed reason =
     seq (modify_run (\<lambda>r. r \<lparr> nr_reason := reason \<rparr>)) (\<lambda>_.
     seq (record_failure (failed_terminal (''verification_failed: '' @ reason))
            (Some (FC ''verification_failed'' CORRECT_IMPLEMENTATION 0 ScopeNone
               (''verification_failed: '' @ reason))) True) (\<lambda>_.
     seq (modify_run (\<lambda>r. r \<lparr> nr_failure_feedback := py_tail 2000 reason,
            nr_history := with_last_evidence (py_tail 2000 reason) (nr_history r) \<rparr>)) (\<lambda>_.
     set_node BLOCKED reason)))"

definition integration_passed :: "string \<Rightarrow> unit action_of" where
  "integration_passed base =
     seq (modify_run (\<lambda>r. r \<lparr> nr_commit := base, nr_history := nr_history r @
       [\<lparr> h_attempt = nr_attempt r, h_route_id = '''', h_outcome = ''validated'', h_commit = base,
          h_evidence = '''' \<rparr>] \<rparr>)) (\<lambda>_.
     set_node VALIDATED '''')"

definition integrate_node :: "driver_config \<Rightarrow> turn \<Rightarrow> unit action_of" where
  "integrate_node cfg tu =
     seq (modify_run (\<lambda>r. r \<lparr> nr_attempt := nr_attempt r + 1, nr_route_id := '''' \<rparr>)) (\<lambda>_.
     seq (set_node ADMITTED '''') (\<lambda>_.
     seq (set_node DISPATCHED '''') (\<lambda>_.
     seq (set_node RUNNING '''') (\<lambda>_.
     seq get_run (\<lambda>run.
       let node = nr_node run; i = wn_node_id node in
       case base_answer cfg tu of
         Inl e \<Rightarrow>
           seq (set_node TERMINAL_FAILURE ''merge_conflict'') (\<lambda>_.
           seq (modify_run (\<lambda>r. r \<lparr> nr_reason := merge_failed e \<rparr>)) (\<lambda>_.
           seq (log_event (BarrierEv i (if wn_barrier node = [] then ''integration'' else wn_barrier node) False [])) (\<lambda>_.
           set_node BLOCKED (merge_failed e))))
       | Inr base \<Rightarrow>
           seq (log_event (TerminalEv i True '''' (nr_attempt run))) (\<lambda>_.
           seq (set_node TERMINAL_SUCCESS '''') (\<lambda>_.
           seq (from_git (tu_add_worktree tu)) (\<lambda>_.
           seq (integration_check cfg (tu_validation tu)) (\<lambda>reason.
           if reason \<noteq> [] then integration_failed reason else integration_passed base)))))))))"

text \<open>\<open>_drive\<close> of a node: its result, its final state and the number of iterations.\<close>

definition drive :: "driver_config \<Rightarrow> (nat \<Rightarrow> turn) \<Rightarrow> driver \<Rightarrow> ((crash + unit) \<times> driver \<times> nat) option" where
  "drive cfg env s =
     (if wn_kind (nr_node (dr_run s)) \<in> {INTEGRATE, REVIEW} then
        (case integrate_node cfg (env 0) s of (r, t) \<Rightarrow> Some (r, t, 1))
      else drive_loop cfg env 0 False 0 s)"

end
