(* ===== verification/Selection.thy ===== *)
theory Selection
  imports Eligibility Session_Feedback Node_Driver
begin

section \<open>Selecting a route\<close>

text \<open>
  Models the operations of \<open>EligibilityLadder\<close> (\<open>verdict/orchestration/eligibility.py\<close>) that change state:
  \<open>select\<close> with its confirmation loop, \<open>dispatch_blocker\<close>, \<open>_record_health\<close>, \<open>record_failure\<close>,
  \<open>record_session_failure\<close> and \<open>record_success\<close>, with \<open>record_dispatch_observation\<close> of
  \<open>verdict/admit_prove_confirm.py\<close> as far as it writes the health cache. The world is the file of the shared
  health cache and the state file of the ladder; either may be absent. Assessments are values: what the code
  changes in a shared assessment object is merged back by route id. The passport store that
  \<open>record_dispatch_observation\<close> also writes is only read through the answers of a selection.
\<close>

subsection \<open>The world of a ladder\<close>

record world =
  wd_cache_file :: "disk option"
  wd_state_file :: "ladder_file option"

datatype ladder_error = CacheFailed store_error | Bypass route_id | FeedbackFailed feedback_error

definition file_or_empty :: "disk option \<Rightarrow> disk" where
  "file_or_empty d = (case d of Some x \<Rightarrow> x | None \<Rightarrow> empty_disk)"

definition persist :: "ladder \<Rightarrow> world \<Rightarrow> world" where
  "persist l w = w \<lparr> wd_state_file := Some \<lparr> lf_health = ld_health l, lf_cooldowns = ld_cooldowns l, lf_not_free = ld_not_free l \<rparr> \<rparr>"

definition reload_now :: "outside \<Rightarrow> ladder \<Rightarrow> world \<Rightarrow> ladder_error + ladder" where
  "reload_now ou l w =
     (case ld_cache l of
        None \<Rightarrow> Inr l
      | Some c \<Rightarrow>
          bind_res (lift_error CacheFailed (reload (ou_env ou) c (file_or_empty (wd_cache_file w)))) (\<lambda>c'.
          Inr (l \<lparr> ld_cache := Some c' \<rparr>)))"

text \<open>The reload that is skipped when the file does not exist.\<close>

definition reload_if_there :: "outside \<Rightarrow> ladder \<Rightarrow> world \<Rightarrow> ladder_error + ladder" where
  "reload_if_there ou l w = (if wd_cache_file w = None then Inr l else reload_now ou l w)"


subsection \<open>Recording a probe\<close>

record health_result =
  hr_healthy :: bool
  hr_category :: string
  hr_status_code :: "int option"
  hr_retry_after :: "rat option"
  hr_error_message :: string

definition is_catalog_stale_error :: "string \<Rightarrow> bool" where
  "is_catalog_stale_error msg \<longleftrightarrow> contains_sub ''not available in the active live catalog'' (py_lower msg)"

definition probe_category :: "health_result \<Rightarrow> string" where
  "probe_category r =
     (if \<not> hr_healthy r \<and> hr_category r \<in> {''bad_request'', ''unservable'', ''unsupported''} \<and>
         is_catalog_stale_error (hr_error_message r)
      then ''catalog_stale'' else hr_category r)"

definition is_not_free_signal :: "string \<Rightarrow> int option \<Rightarrow> bool" where
  "is_not_free_signal category status \<longleftrightarrow>
     category \<in> {''payment_required'', ''insufficient_credits''} \<or> status = Some 402"

text \<open>A pool override is only extended, never shortened.\<close>

definition record_not_free_override ::
  "route_id \<Rightarrow> string \<Rightarrow> ladder_cooldown \<Rightarrow> (string, ladder_cooldown) dict \<Rightarrow> (string, ladder_cooldown) dict" where
  "record_not_free_override route pool entry overrides =
     (let d = dict_put (''route:'' @ route) entry overrides in
      if (case map_of d (''pool:'' @ pool) of None \<Rightarrow> True | Some existing \<Rightarrow> lc_until existing < lc_until entry)
      then dict_put (''pool:'' @ pool) entry d else d)"

definition observe_negative ::
  "cache_env \<Rightarrow> route_id \<Rightarrow> rat \<Rightarrow> string \<Rightarrow> rat option \<Rightarrow> health_cache \<Rightarrow> store_error + unit \<times> health_cache" where
  "observe_negative env route observed category retry_after c =
     (if superseded (map_of (hc_routes c) route) observed then Inr ((), c)
      else
        bind_res (lift_error Entry (record_probe (ce_fresh env) route
            ((ProbeResult category False False) \<lparr> po_retry_after_seconds := retry_after, po_failure_scope := Some ''route'' \<rparr>)
            observed (hc_routes c))) (\<lambda>(entry, routes).
        Inr ((), c \<lparr> hc_routes := routes \<rparr>)))"

definition record_dispatch_observation ::
  "outside \<Rightarrow> route_id \<Rightarrow> bool \<Rightarrow> rat \<Rightarrow> string \<Rightarrow> rat option \<Rightarrow> world \<Rightarrow> ladder_error + world" where
  "record_dispatch_observation ou route healthy observed category retry_after w =
     bind_res (lift_error CacheFailed (load (ou_env ou) (ou_conf ou) (file_or_empty (wd_cache_file w)))) (\<lambda>c.
     if healthy then Inr w
     else
       bind_res (lift_error CacheFailed (merge_and_save_with (ou_env ou)
         (observe_negative (ou_env ou) route observed category retry_after) c (file_or_empty (wd_cache_file w)))) (\<lambda>(x, c', d').
       Inr (w \<lparr> wd_cache_file := Some d' \<rparr>)))"

definition PROVIDER_SCOPE_CATEGORIES :: "string list" where
  "PROVIDER_SCOPE_CATEGORIES = [''payment_required'', ''permission'', ''authentication'']"

text \<open>What a failed probe does to the cooldowns and the overrides of the ladder.\<close>

definition note_failed_probe :: "route_id \<Rightarrow> health_result \<Rightarrow> rat \<Rightarrow> string \<Rightarrow> ladder \<Rightarrow> ladder" where
  "note_failed_probe route r now provider l =
     (let category = probe_category r;
          entry = \<lparr> lc_until = now + cooldown_seconds_for category (hr_retry_after r), lc_category = category \<rparr>;
          cds = dict_put (''route:'' @ route) entry (ld_cooldowns l);
          cds' = (if provider \<noteq> [] \<and> category \<in> set PROVIDER_SCOPE_CATEGORIES
                  then dict_put (''provider:'' @ provider) entry (dict_put (''pool:'' @ pool_of route) entry cds) else cds) in
      l \<lparr> ld_cooldowns := cds',
          ld_not_free := (if is_not_free_signal category (hr_status_code r)
            then record_not_free_override route (backend_pool route) entry (ld_not_free l) else ld_not_free l) \<rparr>)"

definition record_health ::
  "outside \<Rightarrow> route_id \<Rightarrow> health_result \<Rightarrow> rat \<Rightarrow> string \<Rightarrow> ladder \<Rightarrow> world \<Rightarrow> ladder_error + ladder \<times> world" where
  "record_health ou route r now provider l w =
     bind_res (record_dispatch_observation ou route (hr_healthy r) now (probe_category r) (hr_retry_after r) w) (\<lambda>w1.
     let l1 = l \<lparr> ld_health := dict_put route
           \<lparr> lh_healthy = hr_healthy r, lh_category = probe_category r, lh_checked_at = Some now \<rparr> (ld_health l) \<rparr>;
         l2 = (if hr_healthy r then l1 else note_failed_probe route r now provider l1) in
     Inr (l2, persist l2 w1))"



subsection \<open>The answers of a selection\<close>

text \<open>
  \<open>an_passport\<close>: whether the stored passport admits the route, and its time. \<open>an_writes\<close>: what other processes
  have written to the cache file between the record of a probe and the reload that follows. \<open>an_refresh\<close>: the
  refresh hook, if there is one, with its statuses (none when it raised or returned no mapping) and the cache
  file it leaves.
\<close>

record answers =
  an_probe :: "route_id \<Rightarrow> health_result"
  an_passport :: "route_id \<Rightarrow> bool \<times> rat option"
  an_writes :: "route_id \<Rightarrow> disk option \<Rightarrow> disk option"
  an_refresh :: "(route_id list \<Rightarrow> disk option \<Rightarrow> (route_id, string) dict option \<times> disk option) option"

record selection =
  sl_ladder :: ladder
  sl_world :: world
  sl_probes :: "route_id list"
  sl_blocked :: "(string, rat option) dict"

definition passport_stale :: "answers \<Rightarrow> route_id \<Rightarrow> rat \<Rightarrow> bool" where
  "passport_stale an route now \<longleftrightarrow>
     (let (admitted, qualified) = an_passport an route in
      \<not> admitted \<or> (case qualified of None \<Rightarrow> True | Some q \<Rightarrow> now - q \<ge> PERMIT_PROOF_MAX_VALIDITY_SECONDS))"


subsection \<open>The refresh before the probes\<close>

definition mark_refresh :: "(route_id, string) dict option \<Rightarrow> assessment \<Rightarrow> assessment" where
  "mark_refresh results a =
     (case results of
        None \<Rightarrow> a
      | Some m \<Rightarrow>
          (case map_of m (as_route_id a) of
             None \<Rightarrow> a
           | Some status \<Rightarrow>
               if py_lower status \<in> {''failed'', ''unavailable''} then failed_at HEALTHY (py_lower status) a else a))"

definition reassess :: "outside \<Rightarrow> ladder \<Rightarrow> task_requirements \<Rightarrow> rat \<Rightarrow> assessment \<Rightarrow> assessment" where
  "reassess ou l req now a =
     (if as_failed_stage a \<noteq> None then a
      else
        (case map_of (ld_rows l) (as_route_id a) of
           None \<Rightarrow> a
         | Some row \<Rightarrow>
             let r = assess ou l req now (as_route_id a) row;
                 b = a \<lparr> as_health := as_health r, as_health_category := as_health_category r \<rparr> in
             if as_failed_stage r = None then b
             else b \<lparr> as_failed_stage := as_failed_stage r, as_reason := as_reason r,
                 as_cooldown_until := as_cooldown_until r, as_cooldown_scope := as_cooldown_scope r \<rparr>))"

definition refresh_candidates ::
  "outside \<Rightarrow> answers \<Rightarrow> task_requirements \<Rightarrow> rat \<Rightarrow> assessment list \<Rightarrow> ladder \<Rightarrow> world
     \<Rightarrow> assessment list \<times> ladder \<times> world" where
  "refresh_candidates ou an req now cands l w =
     (case an_refresh an of
        None \<Rightarrow> (cands, l, w)
      | Some hook \<Rightarrow>
          if cands = [] then (cands, l, w)
          else
            let (results, file) = hook (map as_route_id cands) (wd_cache_file w);
                w' = w \<lparr> wd_cache_file := file \<rparr>;
                l' = (case reload_if_there ou l w' of Inl e \<Rightarrow> l | Inr x \<Rightarrow> x) in
            (map (reassess ou l' req now) (map (mark_refresh results) cands), l', w'))"


subsection \<open>One candidate\<close>

definition ladder_launchable :: "ladder \<Rightarrow> route_id \<Rightarrow> bool" where
  "ladder_launchable l route \<longleftrightarrow>
     (case ld_admitted l of None \<Rightarrow> True | Some records \<Rightarrow> launchable records route)"

text \<open>\<open>require_launchable\<close>, then the choice.\<close>

definition accept :: "assessment \<Rightarrow> selection \<Rightarrow> ladder_error + assessment \<times> bool \<times> selection" where
  "accept a st =
     (if ladder_launchable (sl_ladder st) (as_route_id a) then Inr (a, True, st)
      else Inl (Bypass (canonical_route_id (as_route_id a))))"

definition LADDER_CONFIRMATION_SOURCE :: string where
  "LADDER_CONFIRMATION_SOURCE = ''ladder_probe:openai_health_probe''"

text \<open>\<open>record_confirmation\<close> on the records that the ladder keeps; its guard never fails (\<open>confirmation_result\<close>).\<close>

definition confirm_records :: "rat \<Rightarrow> route_id \<Rightarrow> bool \<Rightarrow> string \<Rightarrow> admission_record list \<Rightarrow> admission_record list" where
  "confirm_records now route healthy category = map (confirm_record route healthy LADDER_CONFIRMATION_SOURCE now category)"

definition confirmed_ladder :: "rat \<Rightarrow> route_id \<Rightarrow> health_result \<Rightarrow> ladder \<Rightarrow> ladder" where
  "confirmed_ladder now route r l =
     l \<lparr> ld_admitted := map_option (confirm_records now route (hr_healthy r) (hr_category r)) (ld_admitted l) \<rparr>"

definition newer_negative :: "ladder \<Rightarrow> route_id \<Rightarrow> rat \<Rightarrow> bool" where
  "newer_negative l route now \<longleftrightarrow>
     (case cached_entry l route of None \<Rightarrow> False | Some e \<Rightarrow> \<not> he_healthy e \<and> he_checked_at e \<ge> now)"

definition failed_candidate :: "ladder \<Rightarrow> health_result \<Rightarrow> assessment \<Rightarrow> assessment" where
  "failed_candidate l r a =
     (failed_at HEALTHY (hr_category r) a) \<lparr> as_health := Unhealthy,
       as_cooldown_until := (case map_of (ld_cooldowns l) (''route:'' @ as_route_id a) of
         Some c \<Rightarrow> Some (lc_until c) | None \<Rightarrow> as_cooldown_until a) \<rparr>"

definition block_provider ::
  "outside \<Rightarrow> rat \<Rightarrow> ladder \<Rightarrow> health_result \<Rightarrow> assessment \<Rightarrow> (string, rat option) dict \<Rightarrow> (string, rat option) dict" where
  "block_provider ou now l r a blocked =
     (if hr_category r \<in> set PROVIDER_SCOPE_CATEGORIES then
        dict_put (as_provider a)
          (case active_cooldown ou l (''provider:'' @ as_provider a) now None of
             Some u \<Rightarrow> Some u | None \<Rightarrow> as_cooldown_until a) blocked
      else blocked)"

text \<open>A live probe of the exact route, its record, and the verdict on the candidate.\<close>

definition probe_candidate ::
  "outside \<Rightarrow> answers \<Rightarrow> rat \<Rightarrow> assessment \<Rightarrow> selection \<Rightarrow> ladder_error + assessment \<times> bool \<times> selection" where
  "probe_candidate ou an now a st =
     (let route = as_route_id a; r = an_probe an route in
      bind_res (record_health ou route r now (as_provider a) (sl_ladder st) (sl_world st)) (\<lambda>(l1, w1).
      let l2 = (if ladder_launchable (sl_ladder st) route then l1 else confirmed_ladder now route r l1);
          w2 = w1 \<lparr> wd_cache_file := an_writes an route (wd_cache_file w1) \<rparr> in
      bind_res (reload_now ou l2 w2) (\<lambda>l3.
      let st' = st \<lparr> sl_ladder := l3, sl_world := w2, sl_probes := sl_probes st @ [route] \<rparr> in
      if hr_healthy r \<and> newer_negative l3 route now then Inr (failed_at HEALTHY ''newer_negative'' a, False, st')
      else if \<not> hr_healthy r then
        (let b = failed_candidate l3 r a in
         Inr (b, False, st' \<lparr> sl_blocked := block_provider ou now l3 r b (sl_blocked st') \<rparr>))
      else accept (a \<lparr> as_health := Healthy, as_reason := [] \<rparr>) st')))"

definition needs_probe :: "answers \<Rightarrow> rat \<Rightarrow> ladder \<Rightarrow> assessment \<Rightarrow> bool" where
  "needs_probe an now l a \<longleftrightarrow>
     as_health a \<noteq> Healthy \<or> \<not> ladder_launchable l (as_route_id a) \<or> passport_stale an (as_route_id a) now"

definition try_candidate ::
  "outside \<Rightarrow> answers \<Rightarrow> rat \<Rightarrow> assessment \<Rightarrow> selection \<Rightarrow> ladder_error + assessment \<times> bool \<times> selection" where
  "try_candidate ou an now a st =
     (if as_failed_stage a \<noteq> None then Inr (a, False, st)
      else
        (case map_of (sl_blocked st) (as_provider a) of
           Some u \<Rightarrow> Inr ((failed_at AVAILABLE ''cooldown:provider'' a) \<lparr> as_cooldown_until := u \<rparr>, False, st)
         | None \<Rightarrow>
             if needs_probe an now (sl_ladder st) a then
               (if int (length (sl_probes st)) \<ge> ld_max_probes (sl_ladder st)
                then Inr (a \<lparr> as_reason := ''probe_budget_exhausted'' \<rparr>, False, st)
                else probe_candidate ou an now a st)
             else accept a st))"

text \<open>The loop: the candidates after it, the chosen one, and the state.\<close>

fun confirm_loop ::
  "outside \<Rightarrow> answers \<Rightarrow> rat \<Rightarrow> assessment list \<Rightarrow> selection \<Rightarrow> ladder_error + assessment list \<times> assessment option \<times> selection" where
  "confirm_loop ou an now [] st = Inr ([], None, st)"
| "confirm_loop ou an now (a # rest) st =
     bind_res (try_candidate ou an now a st) (\<lambda>(b, ok, st1).
     if ok then Inr (b # rest, Some b, st1)
     else bind_res (confirm_loop ou an now rest st1) (\<lambda>(bs, chosen, st2). Inr (b # bs, chosen, st2)))"


subsection \<open>Selection\<close>

definition merge_back :: "assessment list \<Rightarrow> assessment list \<Rightarrow> assessment list" where
  "merge_back updated as =
     map (\<lambda>a. case List.find (\<lambda>b. as_route_id b = as_route_id a) updated of Some b \<Rightarrow> b | None \<Rightarrow> a) as"

text \<open>Candidates the loop did not reach inherit the block of their provider.\<close>

definition inherit_block :: "(string, rat option) dict \<Rightarrow> assessment option \<Rightarrow> assessment \<Rightarrow> assessment" where
  "inherit_block blocked chosen a =
     (case map_of blocked (as_provider a) of
        None \<Rightarrow> a
      | Some u \<Rightarrow>
          if as_failed_stage a = None \<and> map_option as_route_id chosen \<noteq> Some (as_route_id a)
          then (failed_at AVAILABLE ''cooldown:provider'' a) \<lparr> as_cooldown_until := u \<rparr> else a)"

definition verdict :: "outside \<Rightarrow> assessment \<Rightarrow> route_verdict" where
  "verdict ou a =
     \<lparr> rv_route_id = as_route_id a, rv_provider = as_provider a, rv_reached = reached a,
       rv_failed_stage = as_failed_stage a,
       rv_reason = (if as_reason a \<noteq> [] then as_reason a else if as_health a \<noteq> Healthy then ''unprobed'' else ''ranked''),
       rv_capacity_class = as_capacity a,
       rv_cooldown_until = map_option (\<lambda>t. CooldownAt t (ou_iso ou t)) (as_cooldown_until a),
       rv_context_window = as_context_window a \<rparr>"

definition selected_verdict :: "outside \<Rightarrow> assessment \<Rightarrow> route_verdict" where
  "selected_verdict ou a = (verdict ou a)
     \<lparr> rv_reached := Some SELECTED, rv_failed_stage := None, rv_reason := ''selected'', rv_cooldown_until := None \<rparr>"

text \<open>A subscription fallback queues the free routes for a new screening; a failing write is suppressed.\<close>

definition request_rescreen ::
  "outside \<Rightarrow> task_requirements \<Rightarrow> rat \<Rightarrow> assessment list \<Rightarrow> assessment option \<Rightarrow> ladder \<Rightarrow> world \<Rightarrow> ladder \<times> world" where
  "request_rescreen ou req now all chosen l w =
     (let free = map as_route_id (filter (\<lambda>a. as_capacity a = FREE) all) in
      case (chosen, ld_cache l) of
        (Some a, Some c) \<Rightarrow>
          if as_capacity a = SUBSCRIPTION \<and> \<not> tr_frontier_worthy req \<and> ld_max_probes l > 0 \<and> free \<noteq> [] then
            (case merge_and_save (ou_env ou) [RequestRescreen free now] c (file_or_empty (wd_cache_file w)) of
               Inl e \<Rightarrow> (l, w)
             | Inr (c', d') \<Rightarrow> (l \<lparr> ld_cache := Some c' \<rparr>, w \<lparr> wd_cache_file := Some d' \<rparr>))
          else (l, w)
      | _ \<Rightarrow> (l, w))"

record outcome =
  oc_selected :: "route_verdict option"
  oc_verdicts :: "route_verdict list"
  oc_ladder :: ladder
  oc_world :: world
  oc_probes :: "route_id list"

definition select ::
  "outside \<Rightarrow> answers \<Rightarrow> task_requirements \<Rightarrow> rat \<Rightarrow> ladder \<Rightarrow> world \<Rightarrow> ladder_error + outcome" where
  "select ou an req now l w =
     bind_res (reload_if_there ou l w) (\<lambda>l0.
     let (all, cands0) = assess_all ou l0 req now;
         (cands, l1, w1) = refresh_candidates ou an req now cands0 l0 w in
     bind_res (confirm_loop ou an now (probe_order ou cands)
       \<lparr> sl_ladder = l1, sl_world = w1, sl_probes = [], sl_blocked = [] \<rparr>) (\<lambda>(tried, chosen, st).
     let final = map (inherit_block (sl_blocked st) chosen) tried;
         all' = merge_back final all;
         (l2, w2) = request_rescreen ou req now all' chosen (sl_ladder st) (sl_world st) in
     Inr \<lparr> oc_selected = map_option (selected_verdict ou) chosen,
           oc_verdicts = map (\<lambda>a. if map_option as_route_id chosen = Some (as_route_id a) then selected_verdict ou a
             else verdict ou a) all',
           oc_ladder = l2, oc_world = w2, oc_probes = sl_probes st \<rparr>))"


subsection \<open>Results of dispatches\<close>

text \<open>\<open>record_failure\<close>: only a shared credential cools its pool, any other provider failure the provider.\<close>

definition record_failure :: "route_id \<Rightarrow> failure \<Rightarrow> rat \<Rightarrow> ladder \<Rightarrow> world \<Rightarrow> ladder \<times> world" where
  "record_failure route f now l w =
     (let retry_after = (if fc_cooldown f > 0 then Some (fc_cooldown f) else None);
          entry = \<lparr> lc_until = now + cooldown_seconds_for (fc_category f) retry_after, lc_category = fc_category f \<rparr>;
          shared = fc_category f \<in> set POOL_COOLDOWN_CATEGORIES;
          cds = (if fc_scope f = ScopeNone then ld_cooldowns l
                 else dict_put (''route:'' @ route) entry
                   (if fc_scope f = ScopeProvider \<and> shared
                    then dict_put (''pool:'' @ pool_of route) entry (ld_cooldowns l) else ld_cooldowns l));
          cds' = (if fc_scope f = ScopeProvider \<and> \<not> shared
                  then dict_put (''provider:'' @ provider_of l route) entry cds else cds);
          l' = l \<lparr> ld_cooldowns := cds' \<rparr> in
      (l', persist l' w))"

definition record_session_failure ::
  "outside \<Rightarrow> (string \<Rightarrow> string) \<Rightarrow> route_id \<Rightarrow> failure \<Rightarrow> worker_terminal \<Rightarrow> int option \<Rightarrow> rat \<Rightarrow> string \<Rightarrow> ladder \<Rightarrow> world
     \<Rightarrow> ladder_error + feedback option \<times> ladder \<times> world" where
  "record_session_failure ou sha route f t usage_turns now provenance l w =
     (case ld_cache l of
        None \<Rightarrow> Inr (None, l, w)
      | Some c \<Rightarrow>
          let raw = (case map_of (ld_rows l) route of Some row \<Rightarrow> py_lower (ir_owned_by row) | None \<Rightarrow> []);
              provider = (if raw \<noteq> [] then resolve_provider raw else fst (py_partition (CHR ''/'') route)) in
          bind_res (lift_error FeedbackFailed (record_worker_failure (ou_env ou) sha f t route provider
            (Some (pool_of route)) now None usage_turns (Some provenance) False c (file_or_empty (wd_cache_file w))))
            (\<lambda>(outcome, c', d').
          Inr (Some outcome, l \<lparr> ld_cache := Some c' \<rparr>,
            if outcome \<in> {Written, SupersededOrDuplicate} then w \<lparr> wd_cache_file := Some d' \<rparr> else w)))"

text \<open>Success lifts the cooldowns of the route and the pool, but not the exhaustion of a shared credential.\<close>

definition record_success :: "outside \<Rightarrow> route_id \<Rightarrow> rat \<Rightarrow> ladder \<Rightarrow> world \<Rightarrow> ladder_error + ladder \<times> world" where
  "record_success ou route now l w =
     bind_res (record_dispatch_observation ou route True now ''upstream'' None w) (\<lambda>w1.
     let key = ''pool:'' @ pool_of route;
         held = (case map_of (ld_cooldowns l) key of
             None \<Rightarrow> False
           | Some c \<Rightarrow> lc_category c \<in> set POOL_COOLDOWN_CATEGORIES \<and> active_cooldown ou l key now None \<noteq> None);
         cds = (if held then ld_cooldowns l else dict_del key (ld_cooldowns l));
         l' = l \<lparr> ld_cooldowns := dict_del (''route:'' @ route) cds,
           ld_health := dict_put route \<lparr> lh_healthy = True, lh_category = [], lh_checked_at = Some now \<rparr> (ld_health l) \<rparr> in
     Inr (l', persist l' w1))"


subsection \<open>The check before a dispatch\<close>

text \<open>Persisted cooldowns are merged into those in memory; of two with one key the later counts.\<close>

definition put_later :: "(string, ladder_cooldown) dict \<Rightarrow> string \<times> ladder_cooldown \<Rightarrow> (string, ladder_cooldown) dict" where
  "put_later d kc =
     (if (case map_of d (fst kc) of None \<Rightarrow> True | Some m \<Rightarrow> lc_until (snd kc) > lc_until m)
      then dict_put (fst kc) (snd kc) d else d)"

definition merge_cooldowns :: "(string, ladder_cooldown) dict \<Rightarrow> (string, ladder_cooldown) dict \<Rightarrow> (string, ladder_cooldown) dict" where
  "merge_cooldowns fresh mine = foldl put_later mine fresh"

definition with_persisted :: "world \<Rightarrow> ladder \<Rightarrow> ladder" where
  "with_persisted w l =
     l \<lparr> ld_cooldowns := merge_cooldowns (case wd_state_file w of Some f \<Rightarrow> lf_cooldowns f | None \<Rightarrow> []) (ld_cooldowns l) \<rparr>"

definition dispatch_blocker ::
  "outside \<Rightarrow> route_id \<Rightarrow> rat \<Rightarrow> ladder \<Rightarrow> world \<Rightarrow> ladder_error + string option \<times> ladder" where
  "dispatch_blocker ou route now l w =
     bind_res (reload_if_there ou l w) (\<lambda>l0.
     let l1 = with_persisted w l0 in
     case first_cooldown ou l1 now (Some route) (cooldown_keys route (provider_of l1 route)) of
       Some (key, label, u) \<Rightarrow> Inr (Some key, l1)
     | None \<Rightarrow>
         if (case cached_entry l1 route of None \<Rightarrow> False | Some e \<Rightarrow> state_at (ce_fresh (ou_env ou)) e now = NEGATIVE)
         then Inr (Some (''route:'' @ route), l1) else Inr (None, l1))"



section \<open>Lemmas\<close>

subsection \<open>What the operations leave alone\<close>

definition same_setup :: "ladder \<Rightarrow> ladder \<Rightarrow> bool" where
  "same_setup l l' \<longleftrightarrow> ld_rows l' = ld_rows l \<and> ld_connections l' = ld_connections l \<and> ld_max_probes l' = ld_max_probes l \<and>
     ld_harness l' = ld_harness l \<and> ld_max_per_route l' = ld_max_per_route l"

lemma same_setup_refl [simp]: "same_setup l l"
  by (simp add: same_setup_def)

lemma same_setup_trans: "same_setup l l1 \<Longrightarrow> same_setup l1 l2 \<Longrightarrow> same_setup l l2"
  by (simp add: same_setup_def)

lemma reload_now_Inr:
  assumes "reload_now ou l w = Inr l'"
  shows "l' = l \<lparr> ld_cache := ld_cache l' \<rparr>" "same_setup l l'" "ld_admitted l' = ld_admitted l"
  using assms by (auto simp: reload_now_def res_simps lift_error_def same_setup_def split: option.splits sum.splits)

lemma reload_if_there_Inr:
  assumes "reload_if_there ou l w = Inr l'"
  shows "l' = l \<lparr> ld_cache := ld_cache l' \<rparr>" "same_setup l l'" "ld_admitted l' = ld_admitted l"
  using assms reload_now_Inr [of ou l w l'] by (auto simp: reload_if_there_def split: if_splits)

lemma note_failed_probe_fields [simp]:
  "ld_admitted (note_failed_probe route r now provider l) = ld_admitted l"
  "ld_cache (note_failed_probe route r now provider l) = ld_cache l"
  "same_setup l (note_failed_probe route r now provider l)"
  by (simp_all add: note_failed_probe_def Let_def same_setup_def)

lemma record_health_Inr:
  assumes "record_health ou route r now provider l w = Inr (l', w')"
  shows "ld_admitted l' = ld_admitted l" "ld_cache l' = ld_cache l" "same_setup l l'"
  using assms
  by (auto simp: record_health_def res_simps Let_def same_setup_def note_failed_probe_def split: if_splits)

lemma confirmed_ladder_fields [simp]:
  "same_setup l (confirmed_ladder now route r l)" "ld_cache (confirmed_ladder now route r l) = ld_cache l"
  by (simp_all add: confirmed_ladder_def same_setup_def)


subsection \<open>One step of the loop\<close>

definition identity_of :: "assessment \<Rightarrow> route_id \<times> string \<times> capacity_class" where
  "identity_of a = (as_route_id a, as_provider a, as_capacity a)"

definition settled :: "assessment \<Rightarrow> bool" where
  "settled a \<longleftrightarrow> as_failed_stage a \<noteq> None \<or> as_reason a = ''probe_budget_exhausted''"

definition provider_refused :: "health_result \<Rightarrow> bool" where
  "provider_refused r \<longleftrightarrow> \<not> hr_healthy r \<and> hr_category r \<in> set PROVIDER_SCOPE_CATEGORIES"

definition admitted_after :: "answers \<Rightarrow> rat \<Rightarrow> route_id \<Rightarrow> ladder \<Rightarrow> admission_record list option" where
  "admitted_after an now route l =
     (let r = an_probe an route in
      if ladder_launchable l route then ld_admitted l
      else map_option (confirm_records now route (hr_healthy r) (hr_category r)) (ld_admitted l))"

lemma accept_Inr:
  "accept a st = Inr (b, ok, st') \<longleftrightarrow> b = a \<and> ok \<and> st' = st \<and> ladder_launchable (sl_ladder st) (as_route_id a)"
  by (auto simp: accept_def)

lemma probe_candidate_steps:
  assumes "probe_candidate ou an now a st = out"
  obtains (failed) e where "out = Inl (CacheFailed e)"
  | (probed) l w where "same_setup (sl_ladder st) l" "ld_admitted l = admitted_after an now (as_route_id a) (sl_ladder st)"
      "out =
        (let r = an_probe an (as_route_id a);
             st' = st \<lparr> sl_ladder := l, sl_world := w, sl_probes := sl_probes st @ [as_route_id a] \<rparr> in
         if hr_healthy r \<and> newer_negative l (as_route_id a) now then Inr (failed_at HEALTHY ''newer_negative'' a, False, st')
         else if \<not> hr_healthy r then
           (let b = failed_candidate l r a in
            Inr (b, False, st' \<lparr> sl_blocked := block_provider ou now l r b (sl_blocked st) \<rparr>))
         else accept (a \<lparr> as_health := Healthy, as_reason := [] \<rparr>) st')"
proof -
  let ?route = "as_route_id a" let ?r = "an_probe an ?route"
  show thesis
  proof (cases "record_health ou ?route ?r now (as_provider a) (sl_ladder st) (sl_world st)")
    case (Inl e)
    moreover from Inl obtain e' where "e = CacheFailed e'"
      by (auto simp: record_health_def record_dispatch_observation_def res_simps lift_error_def Let_def
          split: sum.splits if_splits)
    ultimately show thesis using assms failed [of e'] by (simp add: probe_candidate_def Let_def)
  next
    case (Inr lw)
    then obtain l1 w1 where rh: "record_health ou ?route ?r now (as_provider a) (sl_ladder st) (sl_world st) = Inr (l1, w1)"
      by (cases lw) auto
    let ?l2 = "if ladder_launchable (sl_ladder st) ?route then l1 else confirmed_ladder now ?route ?r l1"
    let ?w2 = "w1 \<lparr> wd_cache_file := an_writes an ?route (wd_cache_file w1) \<rparr>"
    show thesis
    proof (cases "reload_now ou ?l2 ?w2")
      case (Inl e)
      moreover from Inl obtain e' where "e = CacheFailed e'"
        by (auto simp: reload_now_def res_simps lift_error_def split: sum.splits option.splits)
      ultimately show thesis using assms rh failed [of e'] by (simp add: probe_candidate_def Let_def)
    next
      case (Inr l3)
      have "same_setup l1 ?l2" "ld_admitted ?l2 = admitted_after an now ?route (sl_ladder st)"
        using record_health_Inr [OF rh] by (simp_all add: admitted_after_def confirmed_ladder_def same_setup_def Let_def)
      moreover note reload_now_Inr(2,3) [OF Inr]
      ultimately have "same_setup (sl_ladder st) l3" "ld_admitted l3 = admitted_after an now ?route (sl_ladder st)"
        using record_health_Inr(3) [OF rh] by (auto intro: same_setup_trans)
      then show thesis
        by (rule probed [where w = ?w2]) (use Inr in \<open>simp add: assms [symmetric] rh probe_candidate_def Let_def\<close>)
    qed
  qed
qed



lemma failed_candidate_fields [simp]:
  "as_failed_stage (failed_candidate l r a) = Some HEALTHY" "identity_of (failed_candidate l r a) = identity_of a"
  "as_provider (failed_candidate l r a) = as_provider a"
  by (simp_all add: failed_candidate_def identity_of_def)

lemma identity_failed_at [simp]: "identity_of (failed_at s r a) = identity_of a"
  by (simp add: identity_of_def)

definition was_probed :: "answers \<Rightarrow> rat \<Rightarrow> assessment \<Rightarrow> selection \<Rightarrow> selection \<Rightarrow> bool" where
  "was_probed an now a st st' \<longleftrightarrow>
     sl_probes st' = sl_probes st @ [as_route_id a] \<and> int (length (sl_probes st)) < ld_max_probes (sl_ladder st) \<and>
     ld_admitted (sl_ladder st') = admitted_after an now (as_route_id a) (sl_ladder st) \<and>
     as_failed_stage a = None \<and> map_of (sl_blocked st) (as_provider a) = None \<and>
     dom (map_of (sl_blocked st')) =
       (if provider_refused (an_probe an (as_route_id a)) then insert (as_provider a) (dom (map_of (sl_blocked st)))
        else dom (map_of (sl_blocked st)))"

lemma dom_block_provider:
  "dom (map_of (block_provider ou now l r a blocked)) =
     (if hr_category r \<in> set PROVIDER_SCOPE_CATEGORIES then insert (as_provider a) (dom (map_of blocked)) else dom (map_of blocked))"
  by (simp add: block_provider_def)

lemma probe_candidate_Inr:
  assumes out: "probe_candidate ou an now a st = Inr (b, ok, st')"
    and open_a: "as_failed_stage a = None" "map_of (sl_blocked st) (as_provider a) = None"
      "int (length (sl_probes st)) < ld_max_probes (sl_ladder st)"
  shows "same_setup (sl_ladder st) (sl_ladder st')" "identity_of b = identity_of a" "was_probed an now a st st'"
    "ok \<Longrightarrow> as_failed_stage b = None \<and> ladder_launchable (sl_ladder st') (as_route_id a) \<and> hr_healthy (an_probe an (as_route_id a))"
    "\<not> ok \<Longrightarrow> settled b"
proof -
  let ?route = "as_route_id a" let ?r = "an_probe an (as_route_id a)"
  obtain l w where l: "same_setup (sl_ladder st) l" "ld_admitted l = admitted_after an now ?route (sl_ladder st)"
    and o: "Inr (b, ok, st') =
        (let st' = st \<lparr> sl_ladder := l, sl_world := w, sl_probes := sl_probes st @ [?route] \<rparr> in
         if hr_healthy ?r \<and> newer_negative l ?route now then Inr (failed_at HEALTHY ''newer_negative'' a, False, st')
         else if \<not> hr_healthy ?r then
           (let b = failed_candidate l ?r a in
            Inr (b, False, st' \<lparr> sl_blocked := block_provider ou now l ?r b (sl_blocked st) \<rparr>))
         else accept (a \<lparr> as_health := Healthy, as_reason := [] \<rparr>) st')"
    by (rule probe_candidate_steps [OF out]) (simp_all add: Let_def)
  let ?st = "st \<lparr> sl_ladder := l, sl_world := w, sl_probes := sl_probes st @ [?route] \<rparr>"
  consider (negative) "hr_healthy ?r" "b = failed_at HEALTHY ''newer_negative'' a" "\<not> ok" "st' = ?st"
    | (refused) "\<not> hr_healthy ?r" "b = failed_candidate l ?r a" "\<not> ok"
        "st' = ?st \<lparr> sl_blocked := block_provider ou now l ?r b (sl_blocked st) \<rparr>"
    | (good) "hr_healthy ?r" "accept (a \<lparr> as_health := Healthy, as_reason := [] \<rparr>) ?st = Inr (b, ok, st')"
    using o by (simp add: Let_def split: if_splits)
  then have "same_setup (sl_ladder st) (sl_ladder st') \<and> identity_of b = identity_of a \<and> was_probed an now a st st' \<and>
    (ok \<longrightarrow> as_failed_stage b = None \<and> ladder_launchable (sl_ladder st') ?route \<and> hr_healthy ?r) \<and> (\<not> ok \<longrightarrow> settled b)"
  proof cases
    case negative
    then show ?thesis using l open_a by (simp add: was_probed_def provider_refused_def settled_def)
  next
    case refused
    then show ?thesis using l open_a by (simp add: was_probed_def provider_refused_def settled_def dom_block_provider)
  next
    case good
    then show ?thesis using l open_a by (simp add: accept_Inr was_probed_def provider_refused_def identity_of_def)
  qed
  then show "same_setup (sl_ladder st) (sl_ladder st')" "identity_of b = identity_of a" "was_probed an now a st st'"
    "ok \<Longrightarrow> as_failed_stage b = None \<and> ladder_launchable (sl_ladder st') (as_route_id a) \<and> hr_healthy (an_probe an (as_route_id a))"
    "\<not> ok \<Longrightarrow> settled b" by blast+
qed

lemma try_candidate_Inr:
  assumes "try_candidate ou an now a st = Inr (b, ok, st')"
  shows "same_setup (sl_ladder st) (sl_ladder st')" "identity_of b = identity_of a"
    "ok \<Longrightarrow> as_failed_stage a = None \<and> as_failed_stage b = None \<and> ladder_launchable (sl_ladder st') (as_route_id a)"
    "\<not> ok \<Longrightarrow> settled b"
    "st' = st \<and> (ok \<longrightarrow> \<not> needs_probe an now (sl_ladder st) a) \<or>
     was_probed an now a st st' \<and> (ok \<longrightarrow> hr_healthy (an_probe an (as_route_id a)))"
proof -
  consider (failed) "as_failed_stage a \<noteq> None" "b = a" "\<not> ok" "st' = st"
    | (blocked) u where "as_failed_stage a = None"
        "b = (failed_at AVAILABLE ''cooldown:provider'' a) \<lparr> as_cooldown_until := u \<rparr>" "\<not> ok" "st' = st"
    | (spent) "as_failed_stage a = None" "b = a \<lparr> as_reason := ''probe_budget_exhausted'' \<rparr>" "\<not> ok" "st' = st"
    | (probed) "as_failed_stage a = None" "map_of (sl_blocked st) (as_provider a) = None"
        "int (length (sl_probes st)) < ld_max_probes (sl_ladder st)" "probe_candidate ou an now a st = Inr (b, ok, st')"
    | (fresh) "as_failed_stage a = None" "\<not> needs_probe an now (sl_ladder st) a" "accept a st = Inr (b, ok, st')"
    using assms by (auto simp: try_candidate_def not_le split: if_splits option.splits)
  then have "same_setup (sl_ladder st) (sl_ladder st') \<and> identity_of b = identity_of a \<and>
    (ok \<longrightarrow> as_failed_stage a = None \<and> as_failed_stage b = None \<and> ladder_launchable (sl_ladder st') (as_route_id a)) \<and>
    (\<not> ok \<longrightarrow> settled b) \<and>
    (st' = st \<and> (ok \<longrightarrow> \<not> needs_probe an now (sl_ladder st) a) \<or>
     was_probed an now a st st' \<and> (ok \<longrightarrow> hr_healthy (an_probe an (as_route_id a))))"
  proof cases
    case probed
    from probe_candidate_Inr [OF probed(4,1,2,3)] probed(1) show ?thesis by simp
  qed (simp_all add: settled_def identity_of_def accept_Inr)
  then show "same_setup (sl_ladder st) (sl_ladder st')" "identity_of b = identity_of a"
    "ok \<Longrightarrow> as_failed_stage a = None \<and> as_failed_stage b = None \<and> ladder_launchable (sl_ladder st') (as_route_id a)"
    "\<not> ok \<Longrightarrow> settled b"
    "st' = st \<and> (ok \<longrightarrow> \<not> needs_probe an now (sl_ladder st) a) \<or>
     was_probed an now a st st' \<and> (ok \<longrightarrow> hr_healthy (an_probe an (as_route_id a)))" by blast+
qed



subsection \<open>The loop\<close>

lemma confirm_loop_Cons_Inr:
  "confirm_loop ou an now (a # rest) st = Inr (bs, chosen, st') \<longleftrightarrow>
     (\<exists>b ok st1. try_candidate ou an now a st = Inr (b, ok, st1) \<and>
        (ok \<and> bs = b # rest \<and> chosen = Some b \<and> st' = st1 \<or>
         \<not> ok \<and> (\<exists>cs. confirm_loop ou an now rest st1 = Inr (cs, chosen, st') \<and> bs = b # cs)))"
proof (cases "try_candidate ou an now a st")
  case (Inr out)
  obtain b ok st1 where "out = (b, ok, st1)" by (cases out)
  with Inr show ?thesis by (cases ok) (auto simp: res_simps)
qed simp

lemma confirm_loop_setup:
  assumes "confirm_loop ou an now cands st = Inr (bs, chosen, st')"
  shows "same_setup (sl_ladder st) (sl_ladder st') \<and> map identity_of bs = map identity_of cands"
  using assms
proof (induction cands arbitrary: st bs)
  case (Cons a rest)
  then obtain b ok st1 where step: "try_candidate ou an now a st = Inr (b, ok, st1)"
    and more: "ok \<and> bs = b # rest \<and> st' = st1 \<or>
      \<not> ok \<and> (\<exists>cs. confirm_loop ou an now rest st1 = Inr (cs, chosen, st') \<and> bs = b # cs)"
    unfolding confirm_loop_Cons_Inr by blast
  note try_candidate_Inr(1,2) [OF step]
  with more show ?case by (auto dest!: Cons.IH intro: same_setup_trans)
qed simp

lemma confirm_loop_probes:
  assumes "confirm_loop ou an now cands st = Inr (bs, chosen, st')"
    and "int (length (sl_probes st)) \<le> max 0 (ld_max_probes (sl_ladder st))"
  shows "(\<exists>new. sl_probes st' = sl_probes st @ new \<and> subseq new (map as_route_id cands)) \<and>
    int (length (sl_probes st')) \<le> max 0 (ld_max_probes (sl_ladder st))"
  using assms
proof (induction cands arbitrary: st bs)
  case (Cons a rest)
  then obtain b ok st1 where step: "try_candidate ou an now a st = Inr (b, ok, st1)"
    and more: "ok \<and> st' = st1 \<or> \<not> ok \<and> (\<exists>cs. confirm_loop ou an now rest st1 = Inr (cs, chosen, st'))"
    unfolding confirm_loop_Cons_Inr by blast
  have budget: "ld_max_probes (sl_ladder st1) = ld_max_probes (sl_ladder st)"
    using try_candidate_Inr(1) [OF step] by (simp add: same_setup_def)
  obtain one where one: "sl_probes st1 = sl_probes st @ one" "one = [] \<or> one = [as_route_id a]"
    "int (length (sl_probes st1)) \<le> max 0 (ld_max_probes (sl_ladder st))"
    using try_candidate_Inr(5) [OF step] Cons.prems(2) that [of "[]"] that [of "[as_route_id a]"]
    by (auto simp: was_probed_def)
  from more show ?case
  proof (elim disjE conjE exE)
    assume "st' = st1"
    with one show ?thesis by (auto simp: subseq_singleton_left)
  next
    fix cs
    assume "confirm_loop ou an now rest st1 = Inr (cs, chosen, st')"
    from Cons.IH [OF this] one(3) budget obtain new where "sl_probes st' = sl_probes st1 @ new"
      "subseq new (map as_route_id rest)" "int (length (sl_probes st')) \<le> max 0 (ld_max_probes (sl_ladder st))" by auto
    moreover from calculation(2) have "subseq (one @ new) (map as_route_id (a # rest))"
      using one(2) by (auto intro: list_emb.intros)
    ultimately show ?thesis using one(1) by auto
  qed
qed simp

text \<open>The candidate that the loop chooses, and those it passed before.\<close>

lemma confirm_loop_chosen:
  assumes "confirm_loop ou an now cands st = Inr (bs, Some c, st')"
  obtains earlier a later pre where "cands = earlier @ a # later" "bs = pre @ c # later" "length pre = length earlier"
    "list_all settled pre" "identity_of c = identity_of a" "as_failed_stage a = None" "as_failed_stage c = None"
    "ladder_launchable (sl_ladder st') (as_route_id c)"
    "as_route_id c \<in> set (sl_probes st') \<and> hr_healthy (an_probe an (as_route_id c)) \<or>
     as_health a = Healthy \<and> \<not> passport_stale an (as_route_id c) now"
  using assms
proof (induction cands arbitrary: st bs thesis)
  case (Cons x rest)
  from Cons.prems(2) obtain b ok st1 where step: "try_candidate ou an now x st = Inr (b, ok, st1)"
    and more: "ok \<and> bs = b # rest \<and> c = b \<and> st' = st1 \<or>
      \<not> ok \<and> (\<exists>cs. confirm_loop ou an now rest st1 = Inr (cs, Some c, st') \<and> bs = b # cs)"
    unfolding confirm_loop_Cons_Inr by blast
  from more show ?case
  proof (elim disjE conjE exE)
    assume ok: ok "bs = b # rest" "c = b" "st' = st1"
    have same: "as_route_id b = as_route_id x" "identity_of b = identity_of x"
      using try_candidate_Inr(2) [OF step] by (simp_all add: identity_of_def)
    have "as_route_id b \<in> set (sl_probes st1) \<and> hr_healthy (an_probe an (as_route_id b)) \<or>
        as_health x = Healthy \<and> \<not> passport_stale an (as_route_id b) now"
      using try_candidate_Inr(5) [OF step] ok(1) same by (auto simp: was_probed_def needs_probe_def)
    with try_candidate_Inr(3) [OF step] show ?thesis
      using Cons.prems(1) [of "[]" x rest "[]"] ok same by simp
  next
    fix cs
    assume cs: "\<not> ok" "confirm_loop ou an now rest st1 = Inr (cs, Some c, st')" "bs = b # cs"
    with try_candidate_Inr(4) [OF step] have "settled b" by blast
    from Cons.IH [OF _ cs(2)] obtain earlier a later pre where IH: "rest = earlier @ a # later" "cs = pre @ c # later"
      "length pre = length earlier" "list_all settled pre" "identity_of c = identity_of a" "as_failed_stage a = None"
      "as_failed_stage c = None" "ladder_launchable (sl_ladder st') (as_route_id c)"
      "as_route_id c \<in> set (sl_probes st') \<and> hr_healthy (an_probe an (as_route_id c)) \<or>
       as_health a = Healthy \<and> \<not> passport_stale an (as_route_id c) now" by metis
    show ?thesis
      by (rule Cons.prems(1) [of "x # earlier" a later "b # pre"]) (use IH cs(3) \<open>settled b\<close> in simp_all)
  qed
qed simp



subsection \<open>Confirmations and the admitted set\<close>

lemma confirm_records_changes: "confirm_records now route healthy category =
    map (confirmed (route, healthy, LADDER_CONFIRMATION_SOURCE, now, category))"
  by (simp add: confirm_records_def confirmed_def)

lemma confirm_records_ids [simp]: "map ar_route_id (confirm_records now route healthy category records) = map ar_route_id records"
  by (simp add: confirm_records_changes cr.keeps_id)

lemma record_for_confirmation:
  "record_for (confirm_records now route healthy category records) r =
     map_option (confirm_record route healthy LADDER_CONFIRMATION_SOURCE now category) (record_for records r)"
  unfolding confirm_records_changes cr.change_record_for by (simp add: confirmed_def)

lemma confirmed_launchable:
  assumes "distinct (map ar_route_id records)" "in_admitted records route"
  shows "launchable (confirm_records now route True category records) route"
proof -
  from assms obtain r where r: "record_for records route = Some r" "ar_admitted r"
    by (auto simp: in_admitted_record)
  with record_for_Some [OF r(1)] show ?thesis
    by (simp add: launchable_def record_for_confirmation confirm_record_def ar_confirmed_def)
qed

lemma confirmation_elsewhere:
  assumes "distinct (map ar_route_id records)" "canonical_route_id r \<noteq> canonical_route_id route"
  shows "in_admitted (confirm_records now route healthy category records) r = in_admitted records r"
proof -
  have "confirm_record route healthy LADDER_CONFIRMATION_SOURCE now category x = x" if "record_for records r = Some x" for x
    using record_for_Some [OF that] assms(2) by (simp add: confirm_record_def)
  then show ?thesis using assms(1) by (auto simp: in_admitted_record record_for_confirmation)
qed


subsection \<open>The launch assertion never fails\<close>

definition admits :: "admission_record list option \<Rightarrow> route_id \<Rightarrow> bool" where
  "admits admitted route \<longleftrightarrow> (case admitted of None \<Rightarrow> True | Some records \<Rightarrow> in_admitted records route)"

definition unaliased :: "admission_record list option \<Rightarrow> bool" where
  "unaliased admitted \<longleftrightarrow> (case admitted of None \<Rightarrow> True | Some records \<Rightarrow> distinct (map ar_route_id records))"

lemma clean_after: "unaliased (ld_admitted l) \<Longrightarrow> unaliased (admitted_after an now route l)"
  by (auto simp: unaliased_def admitted_after_def Let_def split: option.splits)

lemma admits_after:
  "unaliased (ld_admitted l) \<Longrightarrow> canonical_route_id r \<noteq> canonical_route_id route \<Longrightarrow>
     admits (admitted_after an now route l) r = admits (ld_admitted l) r"
  by (auto simp: unaliased_def admits_def admitted_after_def Let_def confirmation_elsewhere split: option.splits)

lemma launchable_after:
  assumes "unaliased (ld_admitted l)" "admits (ld_admitted l) route" "hr_healthy (an_probe an route)"
    and "ld_admitted l' = admitted_after an now route l"
  shows "ladder_launchable l' route"
  using assms by (auto simp: unaliased_def admits_def admitted_after_def ladder_launchable_def Let_def confirmed_launchable
    split: option.splits if_splits)

lemma try_candidate_no_bypass:
  assumes "unaliased (ld_admitted (sl_ladder st))"
    and "as_failed_stage a = None \<Longrightarrow> admits (ld_admitted (sl_ladder st)) (as_route_id a)"
  shows "try_candidate ou an now a st \<noteq> Inl (Bypass r)"
proof
  assume out: "try_candidate ou an now a st = Inl (Bypass r)"
  have fresh: "accept a st \<noteq> Inl (Bypass r)" if "\<not> needs_probe an now (sl_ladder st) a"
    using that by (auto simp: needs_probe_def accept_def)
  with out have a: "as_failed_stage a = None" and probe: "probe_candidate ou an now a st = Inl (Bypass r)"
    by (auto simp: try_candidate_def split: if_splits option.splits)
  show False
  proof (rule probe_candidate_steps [OF probe])
    fix l w
    assume probed: "same_setup (sl_ladder st) l" "ld_admitted l = admitted_after an now (as_route_id a) (sl_ladder st)"
      "Inl (Bypass r) =
        (let r = an_probe an (as_route_id a);
             st' = st \<lparr> sl_ladder := l, sl_world := w, sl_probes := sl_probes st @ [as_route_id a] \<rparr> in
         if hr_healthy r \<and> newer_negative l (as_route_id a) now then Inr (failed_at HEALTHY ''newer_negative'' a, False, st')
         else if \<not> hr_healthy r then
           (let b = failed_candidate l r a in
            Inr (b, False, st' \<lparr> sl_blocked := block_provider ou now l r b (sl_blocked st) \<rparr>))
         else accept (a \<lparr> as_health := Healthy, as_reason := [] \<rparr>) st')"
    then have "hr_healthy (an_probe an (as_route_id a))" "\<not> ladder_launchable l (as_route_id a)"
      by (auto simp: Let_def accept_def split: if_splits)
    with launchable_after [OF assms(1) assms(2) [OF a] _ probed(2)] show False by blast
  qed simp
qed

lemma confirm_loop_no_bypass:
  assumes "unaliased (ld_admitted (sl_ladder st))" "distinct (map (canonical_route_id \<circ> as_route_id) cands)"
    and "\<forall>a\<in>set cands. as_failed_stage a = None \<longrightarrow> admits (ld_admitted (sl_ladder st)) (as_route_id a)"
  shows "confirm_loop ou an now cands st \<noteq> Inl (Bypass r)"
  using assms
proof (induction cands arbitrary: st)
  case (Cons a rest)
  show ?case
  proof (cases "try_candidate ou an now a st")
    case (Inl e)
    with try_candidate_no_bypass [of st a ou an now r] Cons.prems show ?thesis by auto
  next
    case (Inr out)
    then obtain b ok st1 where step: "try_candidate ou an now a st = Inr (b, ok, st1)" by (cases out) auto
    have "ld_admitted (sl_ladder st1) = ld_admitted (sl_ladder st) \<or>
        ld_admitted (sl_ladder st1) = admitted_after an now (as_route_id a) (sl_ladder st)"
      using try_candidate_Inr(5) [OF step] by (auto simp: was_probed_def)
    moreover have "admits (admitted_after an now (as_route_id a) (sl_ladder st)) (as_route_id x) =
        admits (ld_admitted (sl_ladder st)) (as_route_id x)" if "x \<in> set rest" for x
      by (rule admits_after [OF Cons.prems(1)]) (use that Cons.prems(2) in \<open>auto simp: image_iff\<close>)
    ultimately have "unaliased (ld_admitted (sl_ladder st1))"
      "\<forall>x\<in>set rest. as_failed_stage x = None \<longrightarrow> admits (ld_admitted (sl_ladder st1)) (as_route_id x)"
      using Cons.prems by (auto simp: clean_after)
    with Cons.IH [of st1] Cons.prems(2) step show ?thesis by (cases ok) (auto simp: res_simps)
  qed
qed simp



subsection \<open>A refused provider is not asked again\<close>

lemma confirm_loop_blocks:
  assumes "confirm_loop ou an now cands st = Inr (bs, chosen, st')"
    and "\<forall>a\<in>set cands. owner (as_route_id a) = as_provider a"
  shows "\<exists>new. sl_probes st' = sl_probes st @ new \<and> (\<forall>r\<in>set new. owner r \<notin> dom (map_of (sl_blocked st))) \<and>
    sorted_wrt (\<lambda>r r'. provider_refused (an_probe an r) \<longrightarrow> owner r' \<noteq> owner r) new"
  using assms
proof (induction cands arbitrary: st bs)
  case (Cons a rest)
  then obtain b ok st1 where step: "try_candidate ou an now a st = Inr (b, ok, st1)"
    and more: "ok \<and> st' = st1 \<or> \<not> ok \<and> (\<exists>cs. confirm_loop ou an now rest st1 = Inr (cs, chosen, st'))"
    unfolding confirm_loop_Cons_Inr by blast
  have later: "\<exists>new. sl_probes st' = sl_probes st1 @ new \<and> (\<forall>r\<in>set new. owner r \<notin> dom (map_of (sl_blocked st1))) \<and>
      sorted_wrt (\<lambda>r r'. provider_refused (an_probe an r) \<longrightarrow> owner r' \<noteq> owner r) new"
    using more
  proof (elim disjE conjE exE)
    assume "st' = st1"
    then show ?thesis by (intro exI [of _ "[]"]) simp
  next
    fix cs
    assume "confirm_loop ou an now rest st1 = Inr (cs, chosen, st')"
    from Cons.IH [OF this] Cons.prems(2) show ?thesis by simp
  qed
  then obtain new where new: "sl_probes st' = sl_probes st1 @ new" "\<forall>r\<in>set new. owner r \<notin> dom (map_of (sl_blocked st1))"
    "sorted_wrt (\<lambda>r r'. provider_refused (an_probe an r) \<longrightarrow> owner r' \<noteq> owner r) new" by blast
  have owner: "owner (as_route_id a) = as_provider a" using Cons.prems(2) by simp
  from try_candidate_Inr(5) [OF step] show ?case
  proof (elim disjE conjE)
    assume "st1 = st"
    with new show ?thesis by blast
  next
    assume probed: "was_probed an now a st st1"
    then have "sl_probes st' = sl_probes st @ (as_route_id a # new)" using new(1) by (simp add: was_probed_def)
    moreover have "\<forall>r\<in>set (as_route_id a # new). owner r \<notin> dom (map_of (sl_blocked st))"
      using probed new(2) owner by (auto simp: was_probed_def split: if_splits)
    moreover have "sorted_wrt (\<lambda>r r'. provider_refused (an_probe an r) \<longrightarrow> owner r' \<noteq> owner r) (as_route_id a # new)"
      using probed new(2,3) owner by (auto simp: was_probed_def)
    ultimately show ?thesis by blast
  qed
qed simp


subsection \<open>The refresh only narrows\<close>

lemma mark_refresh_fields:
  "identity_of (mark_refresh results a) = identity_of a"
  "as_failed_stage (mark_refresh results a) = None \<Longrightarrow> as_failed_stage a = None"
  by (auto simp: mark_refresh_def split: option.splits if_splits)

lemma reassess_fields:
  "identity_of (reassess ou l req now a) = identity_of a"
  "as_failed_stage (reassess ou l req now a) = None \<Longrightarrow> as_failed_stage a = None"
  by (auto simp: reassess_def identity_of_def Let_def split: option.splits if_splits)

lemma refresh_candidates_fields:
  assumes "refresh_candidates ou an req now cands0 l w = (cands, l', w')"
  shows "map identity_of cands = map identity_of cands0" "same_setup l l'" "ld_admitted l' = ld_admitted l"
proof -
  have "same_setup l (case reload_if_there ou l v of Inl e \<Rightarrow> l | Inr x \<Rightarrow> x) \<and>
      ld_admitted (case reload_if_there ou l v of Inl e \<Rightarrow> l | Inr x \<Rightarrow> x) = ld_admitted l" for v
    using reload_if_there_Inr(2,3) [of ou l v] by (cases "reload_if_there ou l v") auto
  with assms show "map identity_of cands = map identity_of cands0" "same_setup l l'" "ld_admitted l' = ld_admitted l"
    by (auto simp: refresh_candidates_def Let_def reassess_fields mark_refresh_fields
        split: option.splits if_splits prod.splits)
qed


subsection \<open>Selection as a whole\<close>

lemma request_rescreen_fields:
  assumes "request_rescreen ou req now all chosen l w = (l', w')"
  shows "ld_admitted l' = ld_admitted l" "ld_cooldowns l' = ld_cooldowns l"
  using assms by (auto simp: request_rescreen_def Let_def split: option.splits if_splits sum.splits prod.splits)

lemma select_Inr:
  assumes "select ou an req now l w = Inr oc"
  obtains l0 cands l1 w1 tried chosen st where "reload_if_there ou l w = Inr l0"
    "refresh_candidates ou an req now (snd (assess_all ou l0 req now)) l0 w = (cands, l1, w1)"
    "confirm_loop ou an now (probe_order ou cands) \<lparr> sl_ladder = l1, sl_world = w1, sl_probes = [], sl_blocked = [] \<rparr> =
       Inr (tried, chosen, st)"
    "oc_selected oc = map_option (selected_verdict ou) chosen" "oc_probes oc = sl_probes st"
    "oc_verdicts oc = map (\<lambda>a. if map_option as_route_id chosen = Some (as_route_id a) then selected_verdict ou a
       else verdict ou a) (merge_back (map (inherit_block (sl_blocked st) chosen) tried) (fst (assess_all ou l0 req now)))"
    "ld_admitted (oc_ladder oc) = ld_admitted (sl_ladder st)"
proof -
  from assms obtain l0 where l0: "reload_if_there ou l w = Inr l0"
    by (auto simp: select_def res_simps)
  obtain all cands0 where aa: "assess_all ou l0 req now = (all, cands0)" by (rule prod.exhaust)
  obtain cands l1 w1 where rc: "refresh_candidates ou an req now cands0 l0 w = (cands, l1, w1)" by (rule prod_cases3)
  from assms l0 aa rc obtain tried chosen st where loop:
    "confirm_loop ou an now (probe_order ou cands) \<lparr> sl_ladder = l1, sl_world = w1, sl_probes = [], sl_blocked = [] \<rparr> =
       Inr (tried, chosen, st)"
    by (auto simp: select_def res_simps)
  obtain l2 w2 where rr: "request_rescreen ou req now (merge_back (map (inherit_block (sl_blocked st) chosen) tried) all)
      chosen (sl_ladder st) (sl_world st) = (l2, w2)" by (rule prod.exhaust)
  have "oc = \<lparr> oc_selected = map_option (selected_verdict ou) chosen,
      oc_verdicts = map (\<lambda>a. if map_option as_route_id chosen = Some (as_route_id a) then selected_verdict ou a
        else verdict ou a) (merge_back (map (inherit_block (sl_blocked st) chosen) tried) all),
      oc_ladder = l2, oc_world = w2, oc_probes = sl_probes st \<rparr>"
    using assms l0 aa rc loop rr by (simp add: select_def Let_def)
  with that [OF l0 _ loop] aa rc request_rescreen_fields(1) [OF rr] show thesis by simp
qed



lemma distinct_subseq: "subseq xs ys \<Longrightarrow> distinct ys \<Longrightarrow> distinct xs"
proof -
  assume "subseq xs ys"
  then have "set xs \<subseteq> set ys \<and> (distinct ys \<longrightarrow> distinct xs)" by induction auto
  then show "distinct ys \<Longrightarrow> distinct xs" by blast
qed

text \<open>The provider under which the ladder assesses a route.\<close>

definition owner_of :: "ladder \<Rightarrow> route_id \<Rightarrow> string" where
  "owner_of l route = (case map_of (ld_rows l) route of Some row \<Rightarrow> fst (provider_connection l route row) | None \<Rightarrow> [])"

lemma same_provider: "same_setup l l' \<Longrightarrow> provider_connection l' = provider_connection l"
proof -
  assume "same_setup l l'"
  then have eq: "connection_for l' = connection_for l" by (simp add: same_setup_def connection_for_def fun_eq_iff)
  show ?thesis by (intro ext) (unfold provider_connection_def eq, rule refl)
qed

text \<open>The loop as it runs inside a selection: its candidates are those of the assessment.\<close>

lemma identity_route: "map identity_of xs = map identity_of ys \<Longrightarrow> map as_route_id xs = map as_route_id ys"
  by (drule arg_cong [where f = "map fst"]) (simp add: identity_of_def comp_def)

lemma identity_capacity: "identity_of a = identity_of b \<Longrightarrow> as_capacity a = as_capacity b \<and> as_route_id a = as_route_id b"
  by (simp add: identity_of_def)

lemma refreshed_origin:
  assumes "refresh_candidates ou an req now (snd (assess_all ou l req now)) l w = (cands, l1, w1)" "a \<in> set cands"
  obtains route row where "identity_of a = identity_of (assess ou l req now route row)" "(route, row) \<in> set (ld_rows l)"
    "\<not> opaque_row route row" "passes_gates ou l req now route row" "ou_load ou route < ld_max_per_route l"
    "an_refresh an = None \<Longrightarrow> as_health a = fst (health_status ou l route now)"
proof -
  have "identity_of a \<in> set (map identity_of cands)" using assms(2) by simp
  then obtain a0 where a0: "a0 \<in> set (snd (assess_all ou l req now))" "identity_of a = identity_of a0"
    "an_refresh an = None \<Longrightarrow> a = a0"
  proof (cases "an_refresh an")
    case None
    then have "cands = snd (assess_all ou l req now)" using assms(1) by (auto simp: refresh_candidates_def)
    with assms(2) show thesis by (intro that [of a]) simp_all
  next
    case (Some hook)
    assume "identity_of a \<in> set (map identity_of cands)"
    then have "identity_of a \<in> identity_of ` set (snd (assess_all ou l req now))"
      unfolding refresh_candidates_fields(1) [OF assms(1)] by simp
    then show thesis using Some that by auto
  qed
  from a0(1) obtain route row where "a0 = assess ou l req now route row" "(route, row) \<in> set (ld_rows l)"
    "\<not> opaque_row route row" "passes_gates ou l req now route row" "ou_load ou route < ld_max_per_route l"
    unfolding candidate_iff by blast
  with a0 that show thesis by (simp add: assess_health)
qed

lemma refreshed_distinct:
  assumes "refresh_candidates ou an req now (snd (assess_all ou l req now)) l w = (cands, l1, w1)" "dict_wf (ld_rows l)"
  shows "distinct (map as_route_id (probe_order ou cands))"
  using distinct_probe_order [of cands ou] candidates_distinct [OF assms(2), of ou req now]
  by (simp add: identity_route [OF refresh_candidates_fields(1) [OF assms(1)]])

lemma verdict_fields:
  "rv_route_id (selected_verdict ou a) = as_route_id a" "rv_capacity_class (selected_verdict ou a) = as_capacity a"
  "rv_route_id (verdict ou a) = as_route_id a" "rv_capacity_class (verdict ou a) = as_capacity a"
  "rv_failed_stage (verdict ou a) = as_failed_stage a"
  by (simp_all add: selected_verdict_def verdict_def)


lemma merge_back_member:
  assumes "x \<in> set (merge_back updated as)"
  shows "x \<in> set updated \<or> x \<in> set as \<and> as_route_id x \<notin> as_route_id ` set updated"
proof -
  from assms obtain a where a: "a \<in> set as"
    "x = (case List.find (\<lambda>b. as_route_id b = as_route_id a) updated of Some b \<Rightarrow> b | None \<Rightarrow> a)"
    by (auto simp: merge_back_def)
  show ?thesis
  proof (cases "List.find (\<lambda>b. as_route_id b = as_route_id a) updated")
    case None
    with a show ?thesis by (auto simp: find_None_iff)
  next
    case (Some b)
    then have "b \<in> set updated" by (auto simp: find_Some_iff)
    with a Some show ?thesis by simp
  qed
qed

lemma open_assessments_are_candidates:
  assumes "a \<in> set (fst (assess_all ou l req now))" "as_failed_stage a = None"
  shows "a \<in> set (snd (assess_all ou l req now))"
proof -
  from assms obtain route row where "a = assess ou l req now route row" "(route, row) \<in> set (ld_rows l)"
    "\<not> opaque_row route row" "\<not> (selectable a \<and> at_capacity ou l a)"
    by (auto simp: assess_all_def Let_def set_assessments split: if_splits)
  with assms(2) show ?thesis
    by (auto simp: assess_all_def Let_def set_assessments selectable_assess assess_failed_iff)
qed

lemma probe_key_capacity: "probe_key ou a \<le> probe_key ou b \<Longrightarrow> CAPACITY_ORDER (as_capacity a) \<le> CAPACITY_ORDER (as_capacity b)"
  by (auto simp: probe_key_def cost_key_def Let_def split: prod.splits)

lemma inherit_block_fields:
  "identity_of (inherit_block blocked chosen a) = identity_of a"
  "as_failed_stage (inherit_block blocked chosen a) = None \<Longrightarrow> inherit_block blocked chosen a = a"
  "map_option as_route_id chosen = Some (as_route_id a) \<Longrightarrow> inherit_block blocked chosen a = a"
  by (auto simp: inherit_block_def identity_of_def split: option.splits if_splits)


subsection \<open>Cooldowns of the ladder\<close>

lemma active_cooldown_own:
  assumes "map_of (ld_cooldowns l) key = Some c" "lc_until c > now"
  shows "active_cooldown ou l key now route \<noteq> None"
  using assms by (auto simp: active_cooldown_def Let_def split: option.splits)

lemma active_cooldown_cong:
  assumes "map_of (ld_cooldowns l') key = map_of (ld_cooldowns l) key" "ld_cache l' = ld_cache l" "ld_connections l' = ld_connections l"
  shows "active_cooldown ou l' key now route = active_cooldown ou l key now route"
proof -
  have "refuted l' key now route = refuted l key now route"
    by (rule ext) (unfold refuted_def assms(3), rule refl)
  with assms(1,2) show ?thesis unfolding active_cooldown_def by (simp only:)
qed

lemma put_later_keeps:
  "map_of mine key = Some c \<Longrightarrow> \<exists>m. map_of (put_later mine kc) key = Some m \<and> lc_until m \<ge> lc_until c"
  by (cases "fst kc = key") (auto simp: put_later_def)

lemma put_later_takes: "\<exists>m. map_of (put_later mine (key, c)) key = Some m \<and> lc_until m \<ge> lc_until c"
  by (auto simp: put_later_def not_less split: option.split)

lemma merge_cooldowns_keeps:
  "map_of mine key = Some c \<Longrightarrow> \<exists>m. map_of (merge_cooldowns fresh mine) key = Some m \<and> lc_until m \<ge> lc_until c"
proof (induction fresh arbitrary: mine c)
  case (Cons kc fresh)
  from put_later_keeps [OF Cons.prems] obtain m where m: "map_of (put_later mine kc) key = Some m" "lc_until m \<ge> lc_until c"
    by blast
  with Cons.IH [OF m(1)] show ?case by (fastforce simp: merge_cooldowns_def)
qed (simp add: merge_cooldowns_def)

lemma merge_cooldowns_takes:
  "(key, c) \<in> set fresh \<Longrightarrow> \<exists>m. map_of (merge_cooldowns fresh mine) key = Some m \<and> lc_until m \<ge> lc_until c"
proof (induction fresh arbitrary: mine)
  case (Cons kc fresh)
  show ?case
  proof (cases "kc = (key, c)")
    case True
    from put_later_takes obtain m where m: "map_of (put_later mine (key, c)) key = Some m" "lc_until m \<ge> lc_until c" by blast
    with merge_cooldowns_keeps [OF m(1), of fresh] True show ?thesis by (fastforce simp: merge_cooldowns_def)
  next
    case False
    with Cons show ?thesis by (simp add: merge_cooldowns_def)
  qed
qed simp

text \<open>
  Whoever holds a cooldown in force, in memory or in the state file, does not launch, and a dispatch check never
  loses what the ladder already held.
\<close>

definition holds_until :: "string \<Rightarrow> rat \<Rightarrow> (string, ladder_cooldown) dict \<Rightarrow> bool" where
  "holds_until key u cds \<longleftrightarrow> (\<exists>c. map_of cds key = Some c \<and> u \<le> lc_until c)"

lemma dispatch_blocker_ladder:
  assumes "dispatch_blocker ou route now l w = Inr (blocker, l')"
  obtains l0 where "reload_if_there ou l w = Inr l0" "l' = with_persisted w l0" "ld_cooldowns l0 = ld_cooldowns l"
    "provider_of l' route = provider_of l route"
proof -
  from assms obtain l0 where l0: "reload_if_there ou l w = Inr l0" by (auto simp: dispatch_blocker_def res_simps)
  then have "l' = with_persisted w l0" using assms by (auto simp: dispatch_blocker_def Let_def split: option.splits if_splits)
  moreover have "ld_cooldowns l0 = ld_cooldowns l"
    using arg_cong [OF reload_if_there_Inr(1) [OF l0], of ld_cooldowns] by simp
  moreover have "provider_of l' route = provider_of l route"
    using reload_if_there_Inr(2) [OF l0] calculation(1) by (simp add: provider_of_def with_persisted_def same_setup_def)
  ultimately show thesis using that l0 by blast
qed

lemma dispatch_check_holds:
  assumes "dispatch_blocker ou route now l w = Inr (blocker, l')"
    and "holds_until key u (ld_cooldowns l) \<or> (\<exists>f. wd_state_file w = Some f \<and> holds_until key u (lf_cooldowns f))"
  shows "holds_until key u (ld_cooldowns l')"
proof -
  obtain l0 where l0: "l' = with_persisted w l0" "ld_cooldowns l0 = ld_cooldowns l" by (rule dispatch_blocker_ladder [OF assms(1)])
  from assms(2) show ?thesis
  proof
    assume "holds_until key u (ld_cooldowns l)"
    then obtain c where c: "map_of (ld_cooldowns l) key = Some c" "u \<le> lc_until c" by (auto simp: holds_until_def)
    from merge_cooldowns_keeps [OF c(1)] c(2) show ?thesis
      unfolding holds_until_def l0(1) with_persisted_def by (simp add: l0(2)) (meson order_trans)
  next
    assume "\<exists>f. wd_state_file w = Some f \<and> holds_until key u (lf_cooldowns f)"
    then obtain f c where f: "wd_state_file w = Some f" "map_of (lf_cooldowns f) key = Some c" "u \<le> lc_until c"
      by (auto simp: holds_until_def)
    from merge_cooldowns_takes [OF map_of_SomeD [OF f(2)], of "ld_cooldowns l"] f
    show ?thesis unfolding holds_until_def l0(1) with_persisted_def by (simp add: l0(2)) (meson order_trans)
  qed
qed

lemma held_cooldown_blocks:
  assumes "dispatch_blocker ou route now l w = Inr (blocker, l')" and "holds_until key u (ld_cooldowns l')" and "now < u"
    and "key \<in> fst ` set (cooldown_keys route (provider_of l route))"
  shows "blocker \<noteq> None"
proof -
  obtain l0 where l0: "reload_if_there ou l w = Inr l0" "l' = with_persisted w l0" "provider_of l' route = provider_of l route"
    by (rule dispatch_blocker_ladder [OF assms(1)])
  obtain c where c: "map_of (ld_cooldowns l') key = Some c" "lc_until c > now" using assms(2,3) by (auto simp: holds_until_def)
  then have "first_cooldown ou l' now (Some route) (cooldown_keys route (provider_of l' route)) \<noteq> None"
    using assms(4) active_cooldown_own [OF c, of ou "Some route"] l0(3) by (auto simp: first_cooldown_None_iff)
  then show ?thesis using assms(1) l0(1,2) by (auto simp: dispatch_blocker_def Let_def split: option.splits)
qed

text \<open>A ladder after some dispatch checks, of any routes at any times, against whatever is in the files then.\<close>

inductive checked :: "outside \<Rightarrow> ladder \<Rightarrow> ladder \<Rightarrow> bool" for ou where
  not_yet: "checked ou l l"
| once_more: "checked ou l l1 \<Longrightarrow> dispatch_blocker ou route now l1 w = Inr (blocker, l2) \<Longrightarrow> checked ou l l2"

lemma checked_holds: "checked ou l l' \<Longrightarrow> holds_until key u (ld_cooldowns l) \<Longrightarrow> holds_until key u (ld_cooldowns l')"
  by (induction rule: checked.induct) (auto dest: dispatch_check_holds)

lemma cooldown_keys_differ [simp]:
  "''pool:'' @ x \<noteq> ''route:'' @ y" "''route:'' @ y \<noteq> ''pool:'' @ x" "''provider:'' @ z \<noteq> ''route:'' @ y"
  "''provider:'' @ z \<noteq> ''pool:'' @ x" "''pool:'' @ x \<noteq> ''provider:'' @ z" "''route:'' @ y \<noteq> ''provider:'' @ z"
  by simp_all

lemma cooldown_seconds_positive: "cooldown_seconds_for category retry_after > 0"
  by (auto simp: cooldown_seconds_for_def CATEGORY_COOLDOWN_SECONDS_def Let_def split: option.split)

text \<open>The gates read the cooldowns of a ladder only through the keys of the route.\<close>

lemma passes_gates_cooldowns:
  assumes "\<forall>k\<in>set (cooldown_keys r (fst (provider_connection l r row))). map_of cds (fst k) = map_of (ld_cooldowns l) (fst k)"
  shows "passes_gates ou (l \<lparr> ld_cooldowns := cds \<rparr>) req t r row = passes_gates ou l req t r row"
proof -
  let ?l' = "l \<lparr> ld_cooldowns := cds \<rparr>"
  have pc: "provider_connection ?l' r row = provider_connection l r row"
    by (rule fun_cong [OF fun_cong [OF same_provider]]) (simp add: same_setup_def)
  obtain provider conn where c: "provider_connection l r row = (provider, conn)" by fastforce
  have "active_cooldown ou ?l' (fst k) t (Some r) = active_cooldown ou l (fst k) t (Some r)"
    if "k \<in> set (cooldown_keys r provider)" for k
    by (rule active_cooldown_cong) (use assms that c in auto)
  moreover have health: "own_status ?l' r t = own_status l r t" "cached_entry ?l' r = cached_entry l r"
    by (simp_all add: own_status_def cached_entry_def fun_eq_iff split: option.split)
  then have "health_status ou ?l' r t = health_status ou l r t"
    by (simp add: health_status_def split: option.split)
  moreover have gate: "agentic_gate ou ?l' r t = agentic_gate ou l r t" "effort_duplicate ?l' r = effort_duplicate l r"
    by (simp_all only: agentic_gate_def effort_duplicate_def health) simp_all
  have "task_gate ou ?l' row r req cap t = task_gate ou l row r req cap t" for cap
    by (unfold task_gate_def gate) (rule refl)
  moreover have "ladder_capacity ou ?l' conn row r t = ladder_capacity ou l conn row r t"
    by (simp add: ladder_capacity_def)
  ultimately show ?thesis unfolding passes_gates_def pc c
    by (simp add: harness_visible_def quota_left_def measured_quota_def cong: ball_cong)
qed


section \<open>Properties\<close>

text \<open>C19. A route that \<open>select\<close> returns is in the inventory and not an opaque router; on the reloaded evidence it
  passed every gate (admission, an active account without a rate-limit window, harness visibility, no recorded
  failure, no cooldown of its pool, route or provider, quota above the floor, the task gate, a sufficient
  capability tier) and runs fewer workers than allowed. It was probed successfully in this very selection, or
  it is healthy and its passport is younger than the validity of a permit proof; and the admitted set that the
  ladder holds afterwards allows its launch.\<close>

theorem selected_route_passed_every_gate:
  assumes "select ou an req now l w = Inr oc" "oc_selected oc = Some v"
  shows "\<exists>l0 row. reload_if_there ou l w = Inr l0 \<and> (rv_route_id v, row) \<in> set (ld_rows l) \<and>
    \<not> opaque_row (rv_route_id v) row \<and> passes_gates ou l0 req now (rv_route_id v) row \<and>
    ou_load ou (rv_route_id v) < ld_max_per_route l \<and> ladder_launchable (oc_ladder oc) (rv_route_id v) \<and>
    (rv_route_id v \<in> set (oc_probes oc) \<and> hr_healthy (an_probe an (rv_route_id v)) \<or>
     \<not> passport_stale an (rv_route_id v) now \<and>
     (an_refresh an = None \<longrightarrow> fst (health_status ou l0 (rv_route_id v) now) = Healthy))"
proof -
  obtain l0 cands l1 w1 tried chosen st where s: "reload_if_there ou l w = Inr l0"
    "refresh_candidates ou an req now (snd (assess_all ou l0 req now)) l0 w = (cands, l1, w1)"
    "confirm_loop ou an now (probe_order ou cands) \<lparr> sl_ladder = l1, sl_world = w1, sl_probes = [], sl_blocked = [] \<rparr> =
       Inr (tried, chosen, st)"
    "oc_selected oc = map_option (selected_verdict ou) chosen" "oc_probes oc = sl_probes st"
    "ld_admitted (oc_ladder oc) = ld_admitted (sl_ladder st)"
    by (rule select_Inr [OF assms(1)]) (rule that)
  from s(4) assms(2) have "map_option (selected_verdict ou) chosen = Some v" by simp
  then obtain c where c: "chosen = Some c" "rv_route_id v = as_route_id c" by (auto simp: verdict_fields)
  obtain earlier a later where a: "probe_order ou cands = earlier @ a # later" "identity_of c = identity_of a"
    "ladder_launchable (sl_ladder st) (as_route_id c)"
    "as_route_id c \<in> set (sl_probes st) \<and> hr_healthy (an_probe an (as_route_id c)) \<or>
     as_health a = Healthy \<and> \<not> passport_stale an (as_route_id c) now"
    by (rule confirm_loop_chosen [OF s(3) [unfolded c(1)]]) (rule that)
  have "a \<in> set (probe_order ou cands)" unfolding a(1) by simp
  then have "a \<in> set cands" by simp
  then obtain route row where r: "identity_of a = identity_of (assess ou l0 req now route row)" "(route, row) \<in> set (ld_rows l0)"
    "\<not> opaque_row route row" "passes_gates ou l0 req now route row" "ou_load ou route < ld_max_per_route l0"
    "an_refresh an = None \<Longrightarrow> as_health a = fst (health_status ou l0 route now)"
    by (rule refreshed_origin [OF s(2)]) (rule that)
  have v: "rv_route_id v = route" using a(2) r(1) c(2) by (simp add: identity_of_def)
  have "ladder_launchable (oc_ladder oc) (as_route_id c)" using a(3) by (simp add: ladder_launchable_def s(6))
  then have "ladder_launchable (oc_ladder oc) route" using v c(2) by simp
  moreover have "ld_rows l0 = ld_rows l" "ld_max_per_route l0 = ld_max_per_route l"
    using reload_if_there_Inr(2) [OF s(1)] by (simp_all add: same_setup_def)
  moreover have "route \<in> set (oc_probes oc) \<and> hr_healthy (an_probe an route) \<or> \<not> passport_stale an route now \<and>
      (an_refresh an = None \<longrightarrow> fst (health_status ou l0 route now) = Healthy)"
    using a(4) r(6) s(5) v c(2) by auto
  ultimately show ?thesis unfolding v using s(1) r(2-5) by auto
qed

text \<open>C22. A selection probes no route twice and never more routes than its budget, and once a probe is refused for the
  account (payment, permission, authentication) no later probe of the same selection goes to a route of that
  provider.\<close>

theorem probes_bounded_and_not_repeated:
  assumes "dict_wf (ld_rows l)" "select ou an req now l w = Inr oc"
  shows "distinct (oc_probes oc) \<and> int (length (oc_probes oc)) \<le> max 0 (ld_max_probes l) \<and>
    sorted_wrt (\<lambda>r r'. provider_refused (an_probe an r) \<longrightarrow> owner_of l r' \<noteq> owner_of l r) (oc_probes oc)"
proof -
  obtain l0 cands l1 w1 tried chosen st where s: "reload_if_there ou l w = Inr l0"
    "refresh_candidates ou an req now (snd (assess_all ou l0 req now)) l0 w = (cands, l1, w1)"
    "confirm_loop ou an now (probe_order ou cands) \<lparr> sl_ladder = l1, sl_world = w1, sl_probes = [], sl_blocked = [] \<rparr> =
       Inr (tried, chosen, st)"
    "oc_probes oc = sl_probes st"
    by (rule select_Inr [OF assms(2)]) (rule that)
  have l0: "same_setup l l0" "same_setup l0 l1"
    using reload_if_there_Inr(2) [OF s(1)] refresh_candidates_fields(2) [OF s(2)] by simp_all
  then have wf: "dict_wf (ld_rows l0)" using assms(1) by (simp add: same_setup_def)
  have probes: "subseq (sl_probes st) (map as_route_id (probe_order ou cands))" "int (length (sl_probes st)) \<le> max 0 (ld_max_probes l)"
    using confirm_loop_probes [OF s(3)] l0 by (auto simp: same_setup_def)
  have "owner_of l (as_route_id a) = as_provider a" if "a \<in> set cands" for a
  proof (rule refreshed_origin [OF s(2) that])
    fix route row
    assume "identity_of a = identity_of (assess ou l0 req now route row)" "(route, row) \<in> set (ld_rows l0)"
    moreover have "ld_rows l0 = ld_rows l" using l0(1) by (simp add: same_setup_def)
    ultimately show ?thesis using assms(1)
      by (simp add: identity_of_def owner_of_def same_provider [OF l0(1)] dict_wf_def)
  qed
  with confirm_loop_blocks [OF s(3), of "owner_of l"]
  have "sorted_wrt (\<lambda>r r'. provider_refused (an_probe an r) \<longrightarrow> owner_of l r' \<noteq> owner_of l r) (sl_probes st)" by auto
  with probes distinct_subseq [OF probes(1) refreshed_distinct [OF s(2) wf]] show ?thesis using s(4) by simp
qed

lemma select_no_bypass:
  assumes "dict_wf (ld_rows l)" "inj_on canonical_route_id (fst ` set (ld_rows l))" "unaliased (ld_admitted l)"
  shows "select ou an req now l w \<noteq> Inl (Bypass r)"
proof
  assume out: "select ou an req now l w = Inl (Bypass r)"
  have "reload_if_there ou l w \<noteq> Inl (Bypass r)"
    by (auto simp: reload_if_there_def reload_now_def res_simps lift_error_def split: option.splits sum.splits if_splits)
  with out obtain l0 where l0: "reload_if_there ou l w = Inr l0" by (auto simp: select_def res_simps)
  obtain all cands0 where aa: "assess_all ou l0 req now = (all, cands0)" by (rule prod.exhaust)
  obtain cands l1 w1 where rc: "refresh_candidates ou an req now cands0 l0 w = (cands, l1, w1)" by (rule prod_cases3)
  let ?st = "\<lparr> sl_ladder = l1, sl_world = w1, sl_probes = [], sl_blocked = [] \<rparr>"
  have loop: "confirm_loop ou an now (probe_order ou cands) ?st = Inl (Bypass r)"
    using out l0 aa rc by (auto simp: select_def res_simps Let_def split: prod.splits)
  have rc': "refresh_candidates ou an req now (snd (assess_all ou l0 req now)) l0 w = (cands, l1, w1)" using aa rc by simp
  have adm: "ld_admitted l1 = ld_admitted l" "ld_rows l0 = ld_rows l" "ld_admitted l0 = ld_admitted l"
    using reload_if_there_Inr [OF l0] refresh_candidates_fields(3) [OF rc'] by (simp_all add: same_setup_def)
  have origin: "as_route_id a \<in> fst ` set (ld_rows l) \<and> admits (ld_admitted l) (as_route_id a)" if "a \<in> set cands" for a
  proof (rule refreshed_origin [OF rc' that])
    fix route row
    assume "identity_of a = identity_of (assess ou l0 req now route row)" "(route, row) \<in> set (ld_rows l0)"
      "passes_gates ou l0 req now route row"
    then show ?thesis using adm
      by (force simp: identity_of_def passes_gates_def admits_def Let_def split: prod.splits)
  qed
  have "distinct (map as_route_id (probe_order ou cands))"
    by (rule refreshed_distinct [OF rc']) (use assms(1) adm in simp)
  moreover have "inj_on canonical_route_id (as_route_id ` set (probe_order ou cands))"
    by (rule inj_on_subset [OF assms(2)]) (use origin in auto)
  ultimately have "distinct (map (canonical_route_id \<circ> as_route_id) (probe_order ou cands))"
    by (simp add: distinct_map comp_inj_on)
  moreover have "\<forall>a\<in>set (probe_order ou cands). as_failed_stage a = None \<longrightarrow> admits (ld_admitted (sl_ladder ?st)) (as_route_id a)"
    using origin adm(1) by simp
  ultimately show False using confirm_loop_no_bypass [of ?st "probe_order ou cands" ou an now r] assms(3) adm(1) loop by simp
qed

text \<open>C23. A selection never fails on its launch assertion when its ladder holds what an admission returned, after any
  confirmations and narrowings, and no two names of the inventory stand for one canonical route.\<close>

theorem select_never_bypasses_admission:
  assumes "admit pa inventory_source require_runtime ttl inventory connections runtime snapshots before = Inr s"
    and "derive_all xs s = Inr s'" "ld_admitted l = Some (am_records s')"
    and "dict_wf (ld_rows l)" "inj_on canonical_route_id (fst ` set (ld_rows l))"
  shows "select ou an req now l w \<noteq> Inl (Bypass r)"
proof (rule select_no_bypass [OF assms(4,5)])
  show "unaliased (ld_admitted l)"
    using admit_ids [OF assms(1)] derive_all_records [OF assms(2)] assms(3) by (simp add: unaliased_def ops.map_ids del: map_map)
qed


text \<open>The chosen route appears among the merged verdicts as the loop left it, and an open route was in the loop.\<close>

lemma merged_chosen:
  assumes "distinct (map as_route_id tried)" and "c \<in> set tried"
    and "x \<in> set (merge_back (map (inherit_block blocked (Some c)) tried) all)" and "as_route_id x = as_route_id c"
  shows "x = c"
proof -
  have "as_route_id (inherit_block blocked (Some c) c) = as_route_id c"
    using inherit_block_fields(1) [of blocked "Some c" c] by (simp add: identity_of_def)
  then have "as_route_id c \<in> as_route_id ` set (map (inherit_block blocked (Some c)) tried)"
    using assms(2) by (intro image_eqI [of _ _ "inherit_block blocked (Some c) c"]) simp_all
  with assms(4) merge_back_member [OF assms(3)] obtain b where b: "b \<in> set tried" "x = inherit_block blocked (Some c) b" by auto
  then have "as_route_id b = as_route_id c"
    using assms(4) inherit_block_fields(1) [of blocked "Some c" b] by (simp add: identity_of_def)
  then have "b = c" using assms(1,2) b(1) by (metis distinct_map inj_onD)
  then show ?thesis using b(2) inherit_block_fields(3) by simp
qed

lemma merged_open:
  assumes "refresh_candidates ou an req now (snd (assess_all ou l req now)) l w = (cands, l1, w1)"
    and ids: "map as_route_id tried = map as_route_id (probe_order ou cands)"
    and "x \<in> set (merge_back (map (inherit_block blocked chosen) tried) (fst (assess_all ou l req now)))"
    and "as_failed_stage x = None"
  shows "x \<in> set tried"
proof (cases "x \<in> set (map (inherit_block blocked chosen) tried)")
  case True
  then obtain b where "b \<in> set tried" "x = inherit_block blocked chosen b" by auto
  with inherit_block_fields(2) [of blocked chosen b] assms(4) show ?thesis by simp
next
  case False
  let ?final = "map (inherit_block blocked chosen) tried"
  from False merge_back_member [OF assms(3)]
  have "x \<in> set (snd (assess_all ou l req now))" "as_route_id x \<notin> as_route_id ` set ?final"
    using open_assessments_are_candidates assms(4) by auto
  moreover have "as_route_id ` set ?final = set (map as_route_id tried)"
    using inherit_block_fields(1) by (auto simp: identity_of_def image_image)
  moreover have "set (map as_route_id tried) = set (map as_route_id (snd (assess_all ou l req now)))"
    unfolding ids using identity_route [OF refresh_candidates_fields(1) [OF assms(1)]] by (metis set_map set_probe_order)
  ultimately show ?thesis by auto
qed

text \<open>C20. The cheapest capacity class comes first: when a route is selected, every route that still stands at the end
  of the selection (no failed stage, and not passed over for lack of probe budget) is of the same or a costlier
  class: no subscription is selected beside a free route that still stands, and no metered route beside either. A
  free route that was passed over because the probe budget was spent does not stand in this sense.\<close>

theorem cheapest_capacity_first:
  assumes "dict_wf (ld_rows l)" "select ou an req now l w = Inr oc" "oc_selected oc = Some v"
    and "v' \<in> set (oc_verdicts oc)" "rv_failed_stage v' = None" "rv_reason v' \<noteq> ''probe_budget_exhausted''"
  shows "CAPACITY_ORDER (rv_capacity_class v) \<le> CAPACITY_ORDER (rv_capacity_class v')"
proof -
  obtain l0 cands l1 w1 tried chosen st where s: "reload_if_there ou l w = Inr l0"
    "refresh_candidates ou an req now (snd (assess_all ou l0 req now)) l0 w = (cands, l1, w1)"
    "confirm_loop ou an now (probe_order ou cands) \<lparr> sl_ladder = l1, sl_world = w1, sl_probes = [], sl_blocked = [] \<rparr> =
       Inr (tried, chosen, st)"
    "oc_selected oc = map_option (selected_verdict ou) chosen"
    "oc_verdicts oc = map (\<lambda>a. if map_option as_route_id chosen = Some (as_route_id a) then selected_verdict ou a
       else verdict ou a) (merge_back (map (inherit_block (sl_blocked st) chosen) tried) (fst (assess_all ou l0 req now)))"
    by (rule select_Inr [OF assms(2)]) (rule that)
  let ?final = "map (inherit_block (sl_blocked st) chosen) tried"
  from s(4) assms(3) have "map_option (selected_verdict ou) chosen = Some v" by simp
  then obtain c where c: "chosen = Some c" "rv_capacity_class v = as_capacity c" by (auto simp: verdict_fields)
  have wf: "dict_wf (ld_rows l0)" using reload_if_there_Inr(2) [OF s(1)] assms(1) by (simp add: same_setup_def)
  have ids: "map as_route_id tried = map as_route_id (probe_order ou cands)"
    using confirm_loop_setup [OF s(3)] by (intro identity_route) simp
  obtain earlier a later pre where loop: "probe_order ou cands = earlier @ a # later" "tried = pre @ c # later"
    "list_all settled pre" "identity_of c = identity_of a"
    by (rule confirm_loop_chosen [OF s(3) [unfolded c(1)]]) (rule that)
  have "sorted (map (probe_key ou) (earlier @ a # later))" using sorted_probe_order [of ou cands] loop(1) by simp
  then have later: "CAPACITY_ORDER (as_capacity c) \<le> CAPACITY_ORDER (as_capacity b)" if "b \<in> set later" for b
    using that identity_capacity [OF loop(4)] by (auto simp: sorted_append intro!: probe_key_capacity [of ou a])
  have unsettled: "CAPACITY_ORDER (as_capacity c) \<le> CAPACITY_ORDER (as_capacity b)" if "b \<in> set tried" "\<not> settled b" for b
    using that later loop(2,3) by (auto simp: list_all_iff)
  obtain x where x: "x \<in> set (merge_back ?final (fst (assess_all ou l0 req now)))"
    "v' = (if map_option as_route_id chosen = Some (as_route_id x) then selected_verdict ou x else verdict ou x)"
    using assms(4) unfolding s(5) set_map by (rule imageE)
  show ?thesis
  proof (cases "as_route_id x = as_route_id c")
    case True
    have "distinct (map as_route_id tried)" using refreshed_distinct [OF s(2) wf] unfolding ids .
    moreover have "c \<in> set tried" using loop(2) by simp
    ultimately have "x = c" using merged_chosen x(1) True unfolding c(1) by blast
    then show ?thesis using x(2) c by (simp add: verdict_fields)
  next
    case False
    then have "v' = verdict ou x" using x(2) c(1) by simp
    then have "as_failed_stage x = None" "\<not> settled x" "rv_capacity_class v' = as_capacity x"
      using assms(5,6) by (auto simp: verdict_def settled_def split: if_splits)
    then show ?thesis using merged_open [OF s(2) ids x(1)] unsettled c(2) by simp
  qed
qed



text \<open>A failure is charged no further than it reaches: a route failure leaves the gates of every other route as they
  were, and the failure of a shared credential those of every route of another pool, also of the same provider.\<close>

theorem failure_spares_other_pools:
  assumes "fc_scope f = ScopeRoute \<and> r \<noteq> route \<or>
      fc_scope f = ScopeProvider \<and> fc_category f \<in> set POOL_COOLDOWN_CATEGORIES \<and> pool_of r \<noteq> pool_of route"
    and "record_failure route f now l w = (l', w')"
  shows "passes_gates ou l' req t r row = passes_gates ou l req t r row"
proof -
  from assms have "\<exists>cds. l' = l \<lparr> ld_cooldowns := cds \<rparr> \<and>
      (\<forall>p. \<forall>k\<in>set (cooldown_keys r p). map_of cds (fst k) = map_of (ld_cooldowns l) (fst k))"
    by (auto simp: record_failure_def Let_def cooldown_keys_def)
  then show ?thesis using passes_gates_cooldowns by auto
qed

text \<open>
  A success lifts the cooldown of its own route, but never the exhaustion of a shared credential that is still
  in force: the entry of the pool stays as it was, in memory and in the file.
\<close>

theorem success_keeps_shared_cooldown:
  assumes "record_success ou route now l w = Inr (l', w')"
    and "map_of (ld_cooldowns l) (''pool:'' @ pool_of route) = Some c"
    and "lc_category c \<in> set POOL_COOLDOWN_CATEGORIES" "lc_until c > now"
  shows "map_of (ld_cooldowns l') (''pool:'' @ pool_of route) = Some c \<and> map_of (ld_cooldowns l') (''route:'' @ route) = None \<and>
    map_option lf_cooldowns (wd_state_file w') = Some (ld_cooldowns l')"
  using assms active_cooldown_own [OF assms(2,4)]
  by (auto simp: record_success_def res_simps Let_def persist_def)

section \<open>Witnesses\<close>

definition sample_outside :: outside where
  "sample_outside = \<lparr> ou_env = sample_env, ou_conf = sample_conf, ou_iso = (\<lambda>t. ''iso''), ou_session_ttl = 604800,
     ou_public_free = (\<lambda>r. False), ou_tier = (\<lambda>r. None), ou_rating = (\<lambda>r. (3, 0, 0)), ou_tokens = (\<lambda>r. None),
     ou_rankings = [], ou_rankings_fresh = True, ou_rankings_category = None, ou_load = (\<lambda>r. 0), ou_ledger = None \<rparr>"

definition sample_ladder :: "(route_id, inventory_row) dict \<Rightarrow> admission_record list option \<Rightarrow> ladder" where
  "sample_ladder rows admitted = \<lparr> ld_rows = rows,
     ld_connections = [sample_connection ''c'' ''oauth'', sample_connection ''g'' ''key''],
     ld_ttl = 300, ld_harness = None, ld_prefer_providers = [''c''], ld_max_per_route = 2, ld_max_probes = 8,
     ld_min_quota_percent = 5, ld_health = [], ld_cooldowns = [], ld_not_free = [], ld_admitted = admitted, ld_admitted_at = 990, ld_cache = None \<rparr>"

definition sample_world :: world where
  "sample_world = \<lparr> wd_cache_file = None, wd_state_file = None \<rparr>"

definition sample_requirements :: task_requirements where
  "sample_requirements = \<lparr> tr_required_capabilities = [''tools''], tr_min_context_tokens = 1000, tr_coding = True,
     tr_reasoning = False, tr_frontier_worthy = True, tr_task_category = ''general'', tr_exclude_routes = [],
     tr_exclude_families = [], tr_exclude_pools = [], tr_max_capability_tier = 2, tr_task_family = None \<rparr>"

text \<open>Probes of the listed routes time out; the others succeed. No passport is stored.\<close>

definition good_result :: health_result where
  "good_result = \<lparr> hr_healthy = True, hr_category = ''ok'', hr_status_code = Some 200, hr_retry_after = None, hr_error_message = [] \<rparr>"

definition timeout_result :: health_result where
  "timeout_result = \<lparr> hr_healthy = False, hr_category = ''timeout'', hr_status_code = None, hr_retry_after = None, hr_error_message = [] \<rparr>"

definition sample_answers :: "route_id list \<Rightarrow> answers" where
  "sample_answers failing = \<lparr> an_probe = (\<lambda>r. if r \<in> set failing then timeout_result else good_result),
     an_passport = (\<lambda>r. (False, None)), an_writes = (\<lambda>r d. d), an_refresh = None \<rparr>"

definition two_class_rows :: "(route_id, inventory_row) dict" where
  "two_class_rows = [(''c/o'', sample_row ''c'' []), (''g/a'', sample_row ''g'' [])]"

definition free_route :: assessment where
  "free_route = \<lparr> as_route_id = ''g/a'', as_provider = ''g'', as_capacity = FREE, as_capacity_evidence = ''assumed_free_no_paid_evidence'',
     as_pool = ''g'', as_failed_stage = None, as_reason = [], as_cooldown_until = None, as_cooldown_scope = [], as_health = Unprobed,
     as_health_category = [], as_quota_percent = None, as_context_window = Some 100000, as_tier = 1, as_tier_known = True,
     as_slack = 1, as_probation = False, as_fit = 0, as_rating = Some (3, 0, 0) \<rparr>"

definition paid_route :: assessment where
  "paid_route = free_route \<lparr> as_route_id := ''c/o'', as_provider := ''c'', as_capacity := SUBSCRIPTION,
     as_capacity_evidence := ''oauth_subscription'', as_pool := ''c'' \<rparr>"

definition confirmed_route :: assessment where
  "confirmed_route = free_route \<lparr> as_health := Healthy \<rparr>"

lemma sample_assessed:
  "assess sample_outside (sample_ladder two_class_rows None) sample_requirements 1000 ''g/a'' (sample_row ''g'' []) = free_route"
  "assess sample_outside (sample_ladder two_class_rows None) sample_requirements 1000 ''c/o'' (sample_row ''c'' []) = paid_route"
  by code_simp+

lemma sample_ranked:
  "assess_all sample_outside (sample_ladder two_class_rows None) sample_requirements 1000 =
     ([paid_route, free_route], [free_route, paid_route])"
proof -
  have "assessments sample_outside (sample_ladder two_class_rows None) sample_requirements 1000 = [paid_route, free_route]"
  proof -
    have "filter (\<lambda>(route, row). \<not> opaque_row route row) (by_key (ld_rows (sample_ladder two_class_rows None))) = two_class_rows"
      by code_simp
    then show ?thesis by (simp add: assessments_def) (simp add: two_class_rows_def sample_assessed [unfolded two_class_rows_def])
  qed
  moreover have "selectable paid_route" "selectable free_route"
    "\<not> at_capacity sample_outside (sample_ladder two_class_rows None) paid_route"
    "\<not> at_capacity sample_outside (sample_ladder two_class_rows None) free_route" by code_simp+
  moreover have "sort_key (rank_key sample_outside (sample_ladder two_class_rows None) sample_requirements)
      [paid_route, free_route] = [free_route, paid_route]" by code_simp
  ultimately show ?thesis by (simp add: assess_all_def)
qed

definition sample_health :: ladder_health where
  "sample_health = \<lparr> lh_healthy = True, lh_category = ''ok'', lh_checked_at = Some 1000 \<rparr>"

definition sample_after :: ladder where
  "sample_after = (sample_ladder two_class_rows None) \<lparr> ld_health := [(''g/a'', sample_health)] \<rparr>"

lemma sample_probe:
  "record_health sample_outside ''g/a'' good_result 1000 ''g'' (sample_ladder two_class_rows None) sample_world =
     Inr (sample_after, persist sample_after sample_world)"
  by code_simp

definition sample_outcome :: outcome where
  "sample_outcome = \<lparr> oc_selected = Some (selected_verdict sample_outside confirmed_route),
     oc_verdicts = [verdict sample_outside paid_route, selected_verdict sample_outside confirmed_route],
     oc_ladder = sample_after, oc_world = persist sample_after sample_world, oc_probes = [''g/a''] \<rparr>"

lemma sample_try:
  "try_candidate sample_outside (sample_answers []) 1000 free_route
     \<lparr> sl_ladder = sample_ladder two_class_rows None, sl_world = sample_world, sl_probes = [], sl_blocked = [] \<rparr> =
   Inr (confirmed_route, True,
     \<lparr> sl_ladder = sample_after, sl_world = persist sample_after sample_world, sl_probes = [''g/a''], sl_blocked = [] \<rparr>)"
  by code_simp

lemma sample_run:
  "select sample_outside (sample_answers []) sample_requirements 1000 (sample_ladder two_class_rows None) sample_world =
     Inr sample_outcome"
proof -
  have "reload_if_there sample_outside (sample_ladder two_class_rows None) sample_world = Inr (sample_ladder two_class_rows None)"
    by code_simp
  moreover have "probe_order sample_outside [free_route, paid_route] = [free_route, paid_route]" by code_simp
  moreover have "request_rescreen sample_outside sample_requirements 1000 x (Some confirmed_route) sample_after w = (sample_after, w)" for x w
    by (simp add: request_rescreen_def sample_after_def sample_ladder_def)
  moreover have "merge_back (map (inherit_block [] (Some confirmed_route)) [confirmed_route, paid_route]) [paid_route, free_route] =
      [paid_route, confirmed_route]" by code_simp
  moreover have "refresh_candidates sample_outside (sample_answers []) sample_requirements 1000 cands l w = (cands, l, w)" for cands l w
    by (simp add: refresh_candidates_def sample_answers_def)
  moreover have "as_route_id confirmed_route = ''g/a''" "as_route_id paid_route = ''c/o''" by code_simp+
  ultimately show ?thesis
    by (simp add: select_def sample_ranked sample_try sample_outcome_def)
qed


text \<open>Two inventory names of one admitted route.\<close>

definition alias_rows :: "(route_id, inventory_row) dict" where
  "alias_rows = [(''g/x'', sample_row ''g'' []), (''omniroute/g/x'', sample_row ''g'' [])]"

definition alias_admitted :: "admission_record list" where
  "alias_admitted = [accepted ''g/x'' ''g'' ''admitted_unverified'' ''conns'' (Some (Some 990)) ''unknown'' None None]"

definition alias_ladder :: ladder where
  "alias_ladder = sample_ladder alias_rows (Some alias_admitted)"

definition plain_name :: assessment where
  "plain_name = free_route \<lparr> as_route_id := ''g/x'' \<rparr>"

definition prefixed_name :: assessment where
  "prefixed_name = free_route \<lparr> as_route_id := ''omniroute/g/x'', as_pool := pool_of ''omniroute/g/x'' \<rparr>"

lemma alias_assessed:
  "assess sample_outside alias_ladder sample_requirements 1000 ''g/x'' (sample_row ''g'' []) = plain_name"
  "assess sample_outside alias_ladder sample_requirements 1000 ''omniroute/g/x'' (sample_row ''g'' []) = prefixed_name"
  by code_simp+

lemma alias_ranked:
  "assess_all sample_outside alias_ladder sample_requirements 1000 = ([plain_name, prefixed_name], [plain_name, prefixed_name])"
proof -
  have "assessments sample_outside alias_ladder sample_requirements 1000 = [plain_name, prefixed_name]"
  proof -
    have "filter (\<lambda>(route, row). \<not> opaque_row route row) (by_key (ld_rows alias_ladder)) =
        [(''g/x'', sample_row ''g'' []), (''omniroute/g/x'', sample_row ''g'' [])]" by code_simp
    then show ?thesis by (simp add: assessments_def alias_assessed)
  qed
  moreover have "selectable plain_name" "selectable prefixed_name"
    "\<not> at_capacity sample_outside alias_ladder plain_name" "\<not> at_capacity sample_outside alias_ladder prefixed_name" by code_simp+
  moreover have "sort_key (rank_key sample_outside alias_ladder sample_requirements) [plain_name, prefixed_name] =
      [plain_name, prefixed_name]" by code_simp
  ultimately show ?thesis by (simp add: assess_all_def Let_def)
qed

definition alias_start :: selection where
  "alias_start = \<lparr> sl_ladder = alias_ladder, sl_world = sample_world, sl_probes = [], sl_blocked = [] \<rparr>"

definition alias_next :: selection where
  "alias_next = snd (snd (projr (try_candidate sample_outside (sample_answers [''g/x'']) 1000 plain_name alias_start)))"

lemma alias_tried:
  "try_candidate sample_outside (sample_answers [''g/x'']) 1000 plain_name alias_start =
     Inr (fst (projr (try_candidate sample_outside (sample_answers [''g/x'']) 1000 plain_name alias_start)), False, alias_next)"
  by code_simp

lemma alias_bypassed:
  "try_candidate sample_outside (sample_answers [''g/x'']) 1000 prefixed_name alias_next = Inl (Bypass ''g/x'')"
  by code_simp

text \<open>
  With two inventory names of one admitted route, a failed confirmation under the first name removes the route
  from the admitted set; the second name is probed all the same, and its success ends the whole selection with
  the error of the launch assertion, although other candidates may follow.
\<close>

theorem aliased_names_abort_selection:
  "select sample_outside (sample_answers [''g/x'']) sample_requirements 1000 alias_ladder sample_world = Inl (Bypass ''g/x'')"
proof -
  have "reload_if_there sample_outside alias_ladder sample_world = Inr alias_ladder" by code_simp
  moreover have "probe_order sample_outside [plain_name, prefixed_name] = [plain_name, prefixed_name]" by code_simp
  moreover have "refresh_candidates sample_outside (sample_answers [''g/x'']) sample_requirements 1000 cands l w = (cands, l, w)" for cands l w
    by (simp add: refresh_candidates_def sample_answers_def)
  moreover obtain b where "try_candidate sample_outside (sample_answers [''g/x'']) 1000 plain_name alias_start = Inr (b, False, alias_next)"
    by (rule that [OF alias_tried])
  then have "confirm_loop sample_outside (sample_answers [''g/x'']) 1000 [plain_name, prefixed_name] alias_start = Inl (Bypass ''g/x'')"
    using alias_bypassed by simp
  ultimately show ?thesis
    by (simp add: select_def alias_ranked flip: alias_start_def)
qed

text \<open>Two ladders that share a state file; each records the failure of a route of its own.\<close>

definition route_failure :: failure where
  "route_failure = FC ''timeout'' REROUTE 600 ScopeRoute []"

definition credential_failure :: failure where
  "credential_failure = FC ''rate_limited'' REROUTE 600 ScopeProvider []"

definition after_first :: "ladder \<times> world" where
  "after_first = record_failure ''g/a'' route_failure 1000 (sample_ladder two_class_rows None) sample_world"

definition after_second :: "ladder \<times> world" where
  "after_second = record_failure ''c/o'' route_failure 1001 (sample_ladder two_class_rows None) (snd after_first)"

text \<open>
  The state file is written as a whole from the memory of one ladder: the record of the second ladder removes the
  cooldown of the first from the file, and a third ladder dispatches the route that the first has cooled down.
\<close>

theorem ladder_save_drops_foreign_cooldown:
  "fst (projr (dispatch_blocker sample_outside ''g/a'' 1002 (sample_ladder two_class_rows None) (snd after_first))) = Some ''route:g/a'' \<and>
   dispatch_blocker sample_outside ''g/a'' 1002 (sample_ladder two_class_rows None) (snd after_second) =
     Inr (None, with_persisted (snd after_second) (sample_ladder two_class_rows None))"
  by (intro conjI; code_simp)

theorem selected_route_passed_every_gate_witness:
  "rv_route_id (selected_verdict sample_outside confirmed_route) = ''g/a'' \<and> ladder_launchable (oc_ladder sample_outcome) ''g/a''"
proof -
  have "oc_selected sample_outcome = Some (selected_verdict sample_outside confirmed_route)" by (simp add: sample_outcome_def)
  note gates = selected_route_passed_every_gate [OF sample_run this]
  have id: "rv_route_id (selected_verdict sample_outside confirmed_route) = ''g/a''" by code_simp
  from gates show ?thesis unfolding id by blast
qed

theorem probes_bounded_and_not_repeated_witness:
  "oc_probes sample_outcome = [''g/a''] \<and> int (length (oc_probes sample_outcome)) \<le> 8"
proof -
  have "dict_wf (ld_rows (sample_ladder two_class_rows None))" "ld_max_probes (sample_ladder two_class_rows None) = 8" by code_simp+
  with probes_bounded_and_not_repeated [OF _ sample_run] show ?thesis by (simp add: sample_outcome_def)
qed

definition admitted_ladder :: ladder where
  "admitted_ladder = sample_ladder two_class_rows (Some (am_records confirmed_set))"

theorem select_never_bypasses_admission_witness:
  "select sample_outside (sample_answers []) sample_requirements 1000 admitted_ladder sample_world \<noteq> Inl (Bypass ''g/a'')"
proof (rule select_never_bypasses_admission [OF sample_admission sample_confirmed])
  have rows: "ld_rows admitted_ladder = two_class_rows" by (simp add: admitted_ladder_def sample_ladder_def)
  show "ld_admitted admitted_ladder = Some (am_records confirmed_set)" by (simp add: admitted_ladder_def sample_ladder_def)
  show "dict_wf (ld_rows admitted_ladder)" unfolding rows by code_simp
  have "canonical_route_id ''c/o'' = ''c/o''" "canonical_route_id ''g/a'' = ''g/a''" by code_simp+
  then show "inj_on canonical_route_id (fst ` set (ld_rows admitted_ladder))" unfolding rows by (simp add: two_class_rows_def)
qed

theorem cheapest_capacity_first_witness:
  "CAPACITY_ORDER (as_capacity confirmed_route) \<le> CAPACITY_ORDER (as_capacity paid_route)"
proof -
  have "oc_selected sample_outcome = Some (selected_verdict sample_outside confirmed_route)"
    "verdict sample_outside paid_route \<in> set (oc_verdicts sample_outcome)" by (simp_all add: sample_outcome_def)
  moreover have "dict_wf (ld_rows (sample_ladder two_class_rows None))"
    "rv_failed_stage (verdict sample_outside paid_route) = None"
    "rv_reason (verdict sample_outside paid_route) \<noteq> ''probe_budget_exhausted''" by code_simp+
  ultimately have "CAPACITY_ORDER (rv_capacity_class (selected_verdict sample_outside confirmed_route)) \<le>
      CAPACITY_ORDER (rv_capacity_class (verdict sample_outside paid_route))"
    using cheapest_capacity_first [OF _ sample_run] by blast
  then show ?thesis by (simp add: verdict_fields)
qed

definition after_credential :: "ladder \<times> world" where
  "after_credential = record_failure ''g/a'' credential_failure 1000 (sample_ladder two_class_rows None) sample_world"

definition blocked_sibling :: "string option \<times> ladder" where
  "blocked_sibling = projr (dispatch_blocker sample_outside ''g/b'' 1002 (fst after_credential) sample_world)"


theorem failure_spares_other_pools_witness:
  "passes_gates sample_outside (fst after_credential) sample_requirements 1000 ''c/o'' (sample_row ''c'' []) =
   passes_gates sample_outside (sample_ladder two_class_rows None) sample_requirements 1000 ''c/o'' (sample_row ''c'' [])"
proof (rule failure_spares_other_pools)
  show "record_failure ''g/a'' credential_failure 1000 (sample_ladder two_class_rows None) sample_world =
      (fst after_credential, snd after_credential)" by (simp add: after_credential_def)
  have "fc_scope credential_failure = ScopeProvider" "fc_category credential_failure \<in> set POOL_COOLDOWN_CATEGORIES"
    "pool_of ''c/o'' \<noteq> pool_of ''g/a''" by code_simp+
  then show "fc_scope credential_failure = ScopeRoute \<and> ''c/o'' \<noteq> ''g/a'' \<or> fc_scope credential_failure = ScopeProvider \<and>
      fc_category credential_failure \<in> set POOL_COOLDOWN_CATEGORIES \<and> pool_of ''c/o'' \<noteq> pool_of ''g/a''" by blast
qed

definition free_work :: task_requirements where
  "free_work = sample_requirements \<lparr> tr_frontier_worthy := False \<rparr>"

definition claim_outside :: outside where
  "claim_outside = sample_outside \<lparr> ou_ledger := Some (Some [Fields false_session]) \<rparr>"

theorem recent_false_claim_blocks_free_route_witness:
  "\<not> passes_gates claim_outside (sample_ladder two_class_rows None) free_work 1000 ''g/a'' (sample_row ''g'' [])"
proof (rule recent_false_claim_blocks_free_route)
  show "ou_ledger claim_outside = Some (Some [Fields false_session])" by (simp add: claim_outside_def)
  have "load_ledger (Some [Fields false_session]) = [false_session]" by code_simp
  then show "false_session \<in> set (load_ledger (Some [Fields false_session]))" by simp
  show "in_window 1000 7 false_session" "same_backend ''g/a'' false_session" "so_outcome false_session = ''fail''"
    "so_failure_class false_session = Some ''false_success_claim''" "\<not> tr_frontier_worthy free_work"
    "fst (ladder_capacity claim_outside (sample_ladder two_class_rows None)
      (snd (provider_connection (sample_ladder two_class_rows None) ''g/a'' (sample_row ''g'' []))) (sample_row ''g'' []) ''g/a'' 1000) = FREE"
    by code_simp+
qed

definition after_success :: "ladder \<times> world" where
  "after_success = projr (record_success sample_outside ''g/a'' 1001 (fst after_credential) (snd after_credential))"

theorem success_keeps_shared_cooldown_witness:
  "map_of (ld_cooldowns (fst after_success)) ''pool:g'' = Some \<lparr> lc_until = 1600, lc_category = ''rate_limited'' \<rparr> \<and>
   map_of (ld_cooldowns (fst after_success)) ''route:g/a'' = None"
proof -
  have run: "record_success sample_outside ''g/a'' 1001 (fst after_credential) (snd after_credential) =
      Inr (fst after_success, snd after_success)" by code_simp
  have pool: "''pool:'' @ pool_of ''g/a'' = ''pool:g''" "''route:'' @ ''g/a'' = ''route:g/a''" by code_simp+
  have "map_of (ld_cooldowns (fst after_credential)) (''pool:'' @ pool_of ''g/a'') =
      Some \<lparr> lc_until = 1600, lc_category = ''rate_limited'' \<rparr>"
    "lc_category \<lparr> lc_until = 1600, lc_category = ''rate_limited'' \<rparr> \<in> set POOL_COOLDOWN_CATEGORIES"
    "lc_until \<lparr> lc_until = 1600, lc_category = ''rate_limited'' \<rparr> > 1001" by code_simp+
  from success_keeps_shared_cooldown [OF run this] show ?thesis unfolding pool by blast
qed

end
