(* ===== verification/Py_Json.thy ===== *)
theory Py_Json
  imports Py_Re
begin

section \<open>JSON as Python reads and writes it\<close>

text \<open>
  The values of Python's \<open>json\<close> module with the operations that the modelled code applies to them, and
  \<open>json.dumps\<close> and \<open>json.loads\<close> on text. A finite float is the rational number it denotes; how the
  interpreter prints a float (\<open>repr\<close>) and reads one (\<open>float\<close>) are the parameters \<open>frepr\<close> and \<open>fread\<close>.
  Outside the model are characters above 255 and the non-standard numbers \<open>NaN\<close> and \<open>Infinity\<close>:
  \<open>loads\<close> gives \<open>None\<close> on them.
\<close>

subsection \<open>Values\<close>

datatype json = JNull | JBool bool | JInt int | JNum rat | JStr string | JList "json list" | JObj "(string \<times> json) list"

type_synonym obj = "(string, json) dict"

definition get :: "obj \<Rightarrow> string \<Rightarrow> json" where
  "get d k = (case map_of d k of Some v \<Rightarrow> v | None \<Rightarrow> JNull)"

definition get_default :: "obj \<Rightarrow> string \<Rightarrow> json \<Rightarrow> json" where
  "get_default d k missing = (case map_of d k of None \<Rightarrow> missing | Some v \<Rightarrow> v)"

definition strings :: "string list \<Rightarrow> json" where
  "strings ss = JList (map JStr ss)"

definition int_of :: "json \<Rightarrow> int option" where
  "int_of j = (case j of JInt n \<Rightarrow> Some n | _ \<Rightarrow> None)"

definition str_of :: "json \<Rightarrow> string" where
  "str_of j = (case j of JStr s \<Rightarrow> s | _ \<Rightarrow> [])"

fun truthy :: "json \<Rightarrow> bool" where
  "truthy JNull = False"
| "truthy (JBool b) = b"
| "truthy (JInt n) = (n \<noteq> 0)"
| "truthy (JNum q) = (q \<noteq> 0)"
| "truthy (JStr s) = (s \<noteq> [])"
| "truthy (JList xs) = (xs \<noteq> [])"
| "truthy (JObj d) = (d \<noteq> [])"

text \<open>Python's \<open>a or b\<close>.\<close>

definition or_else :: "json \<Rightarrow> json \<Rightarrow> json" where
  "or_else a b = (if truthy a then a else b)"

definition object :: "json \<Rightarrow> obj option" where
  "object j = (case j of JObj d \<Rightarrow> Some d | _ \<Rightarrow> None)"

definition elements :: "json \<Rightarrow> json list" where
  "elements j = (case j of JList xs \<Rightarrow> xs | _ \<Rightarrow> [])"

definition objects :: "json \<Rightarrow> obj list" where
  "objects j = List.map_filter object (elements j)"

text \<open>
  Equality of Python values: objects without regard to the order of their keys, numbers and booleans by
  their numerical value.
\<close>

fun numeric :: "json \<Rightarrow> rat option" where
  "numeric (JBool b) = Some (if b then 1 else 0)"
| "numeric (JInt n) = Some (of_int n)"
| "numeric (JNum q) = Some q"
| "numeric _ = None"

function json_eq :: "json \<Rightarrow> json \<Rightarrow> bool" where
  "json_eq x y =
     (case x of
        JObj a \<Rightarrow>
          (case y of
             JObj b \<Rightarrow>
               (\<forall>k\<in>set (map fst a @ map fst b).
                  case (map_of a k, map_of b k) of (Some v, Some w) \<Rightarrow> json_eq v w | _ \<Rightarrow> False)
           | _ \<Rightarrow> False)
      | JList xs \<Rightarrow>
          (case y of
             JList ys \<Rightarrow> length xs = length ys \<and> (\<forall>p\<in>set (zip xs ys). json_eq (fst p) (snd p))
           | _ \<Rightarrow> False)
      | _ \<Rightarrow> x = y \<or> (numeric x \<noteq> None \<and> numeric x = numeric y))"
  by pat_completeness auto

lemma size_in_pairs: "map_of a k = Some v \<Longrightarrow> size v < Suc (size_list (size_prod (\<lambda>x. 0) size) (a :: (string \<times> json) list))"
  by (induction a) (auto split: if_splits)

lemma size_in_zip: "p \<in> set (zip xs ys) \<Longrightarrow> size (fst p) < Suc (size_list size (xs :: json list))"
  by (induction xs ys rule: list_induct2') auto

termination json_eq
  by (relation "measure (size \<circ> fst)") (auto simp: size_in_pairs size_in_zip)

declare json_eq.simps [simp del]


subsection \<open>Text of values\<close>

fun str_of_nat :: "nat \<Rightarrow> string" where
  "str_of_nat n = (if n < 10 then [''0123456789'' ! n] else str_of_nat (n div 10) @ [''0123456789'' ! (n mod 10)])"

definition str_of_int :: "int \<Rightarrow> string" where
  "str_of_int n = (if n < 0 then ''-'' @ str_of_nat (nat (- n)) else str_of_nat (nat n))"

definition hex4 :: "nat \<Rightarrow> string" where
  "hex4 n = map (\<lambda>k. ''0123456789abcdef'' ! (n div 16 ^ k mod 16)) [3, 2, 1, 0]"

text \<open>
  \<open>str(value)\<close>. The \<open>repr\<close> of a string inside a list or an object is quoted with single quotes unless it
  holds one and no double quote; line breaks, tabs, backslashes and unprintable characters are escaped.
\<close>

definition repr_char :: "char \<Rightarrow> char \<Rightarrow> string" where
  "repr_char quote c =
     (let n = of_char c :: nat in
      if c = quote \<or> c = CHR 0x5C then [CHR 0x5C, c]
      else if n = 9 then [CHR 0x5C, CHR ''t''] else if n = 10 then [CHR 0x5C, CHR ''n'']
      else if n = 13 then [CHR 0x5C, CHR ''r'']
      else if n < 32 \<or> 127 \<le> n \<and> n < 161 \<or> n = 173 then [CHR 0x5C, CHR ''x''] @ drop 2 (hex4 n)
      else [c])"

definition repr_str :: "string \<Rightarrow> string" where
  "repr_str s =
     (let quote = (if CHR 0x27 \<in> set s \<and> CHR 0x22 \<notin> set s then CHR 0x22 else CHR 0x27) in
      [quote] @ concat (map (repr_char quote) s) @ [quote])"

fun py_repr :: "(rat \<Rightarrow> string) \<Rightarrow> json \<Rightarrow> string" where
  "py_repr frepr JNull = ''None''"
| "py_repr frepr (JBool b) = (if b then ''True'' else ''False'')"
| "py_repr frepr (JInt n) = str_of_int n"
| "py_repr frepr (JNum q) = frepr q"
| "py_repr frepr (JStr s) = repr_str s"
| "py_repr frepr (JList xs) = ''['' @ py_join '', '' (map (py_repr frepr) xs) @ '']''"
| "py_repr frepr (JObj d) =
     ''{'' @ py_join '', '' (map (\<lambda>kt. repr_str (fst kt) @ '': '' @ snd kt) (map (map_prod id (py_repr frepr)) d)) @ ''}''"

definition py_str :: "(rat \<Rightarrow> string) \<Rightarrow> json \<Rightarrow> string" where
  "py_str frepr j = (case j of JStr s \<Rightarrow> s | _ \<Rightarrow> py_repr frepr j)"

text \<open>\<open>int(text)\<close> in base ten: surrounding white space, a sign, digits with single underscores between them.\<close>

definition digit_val :: "char \<Rightarrow> nat" where
  "digit_val c = of_char c - 48"

definition digits_val :: "string \<Rightarrow> nat" where
  "digits_val ds = foldl (\<lambda>n c. 10 * n + digit_val c) 0 ds"

definition int_of_text :: "string \<Rightarrow> int option" where
  "int_of_text s =
     (let t = py_strip s;
          negative = prefix ''-'' t;
          body = (if prefix ''-'' t \<or> prefix ''+'' t then tl t else t);
          groups = py_split CHR ''_'' body in
      if list_all (\<lambda>g. g \<noteq> [] \<and> list_all is_digit g) groups
      then Some ((if negative then - 1 else 1) * int (digits_val (concat groups))) else None)"

definition truncate :: "rat \<Rightarrow> int" where
  "truncate q = (if 0 \<le> q then \<lfloor>q\<rfloor> else \<lceil>q\<rceil>)"

text \<open>\<open>int(value)\<close>, \<open>None\<close> where it raises.\<close>

definition to_int :: "json \<Rightarrow> int option" where
  "to_int j =
     (case j of
        JBool b \<Rightarrow> Some (if b then 1 else 0) | JInt n \<Rightarrow> Some n | JNum q \<Rightarrow> Some (truncate q)
      | JStr s \<Rightarrow> int_of_text s | _ \<Rightarrow> None)"


subsection \<open>\<open>json.dumps\<close> with \<open>sort_keys\<close>\<close>

text \<open>How the text is laid out: the separators and \<open>ensure_ascii\<close>.\<close>

record json_style =
  js_item :: string
  js_key :: string
  js_ascii :: bool

definition compact_style :: json_style where
  "compact_style = \<lparr> js_item = '','', js_key = '':'', js_ascii = True \<rparr>"

definition escape_char :: "bool \<Rightarrow> char \<Rightarrow> string" where
  "escape_char ascii c =
     (let n = of_char c :: nat in
      if c = CHR 0x22 \<or> c = CHR 0x5C then [CHR 0x5C, c]
      else if n = 8 then [CHR 0x5C, CHR ''b''] else if n = 9 then [CHR 0x5C, CHR ''t'']
      else if n = 10 then [CHR 0x5C, CHR ''n''] else if n = 12 then [CHR 0x5C, CHR ''f'']
      else if n = 13 then [CHR 0x5C, CHR ''r'']
      else if n < 32 \<or> ascii \<and> 127 \<le> n then [CHR 0x5C, CHR ''u''] @ hex4 n
      else [c])"

definition dump_str :: "bool \<Rightarrow> string \<Rightarrow> string" where
  "dump_str ascii s = [CHR 0x22] @ concat (map (escape_char ascii) s) @ [CHR 0x22]"

fun dumps :: "(rat \<Rightarrow> string) \<Rightarrow> json_style \<Rightarrow> json \<Rightarrow> string" where
  "dumps frepr st JNull = ''null''"
| "dumps frepr st (JBool b) = (if b then ''true'' else ''false'')"
| "dumps frepr st (JInt n) = str_of_int n"
| "dumps frepr st (JNum q) = frepr q"
| "dumps frepr st (JStr s) = dump_str (js_ascii st) s"
| "dumps frepr st (JList xs) = ''['' @ py_join (js_item st) (map (dumps frepr st) xs) @ '']''"
| "dumps frepr st (JObj d) =
     ''{'' @ py_join (js_item st)
       (map (\<lambda>kt. dump_str (js_ascii st) (fst kt) @ js_key st @ snd kt) (by_key (map (map_prod id (dumps frepr st)) d))) @ ''}''"


subsection \<open>\<open>json.loads\<close>\<close>

definition is_ws :: "char \<Rightarrow> bool" where
  "is_ws c \<longleftrightarrow> c \<in> {CHR '' '', CHR 0x09, CHR 0x0A, CHR 0x0D}"

definition skip_ws :: "string \<Rightarrow> string" where
  "skip_ws s = dropWhile is_ws s"

definition hex_val :: "char \<Rightarrow> nat option" where
  "hex_val c =
     (let n = of_char c :: nat in
      if 48 \<le> n \<and> n \<le> 57 then Some (n - 48)
      else if 97 \<le> n \<and> n \<le> 102 then Some (n - 87)
      else if 65 \<le> n \<and> n \<le> 70 then Some (n - 55) else None)"

definition hex_char :: "char \<Rightarrow> char \<Rightarrow> char \<Rightarrow> char \<Rightarrow> char option" where
  "hex_char a b c d =
     (case (hex_val a, hex_val b, hex_val c, hex_val d) of
        (Some i, Some j, Some k, Some l) \<Rightarrow>
          (let n = ((i * 16 + j) * 16 + k) * 16 + l in if n < 256 then Some (char_of n) else None)
      | _ \<Rightarrow> None)"

definition unescape :: "char \<Rightarrow> char option" where
  "unescape c =
     (if c = CHR 0x22 \<or> c = CHR 0x5C \<or> c = CHR ''/'' then Some c
      else if c = CHR ''b'' then Some (CHR 0x08) else if c = CHR ''f'' then Some (CHR 0x0C)
      else if c = CHR ''n'' then Some (CHR 0x0A) else if c = CHR ''r'' then Some (CHR 0x0D)
      else if c = CHR ''t'' then Some (CHR 0x09) else None)"

text \<open>The characters of a string up to its closing quote, and the text after it.\<close>

fun scan_str :: "string \<Rightarrow> (string \<times> string) option" where
  "scan_str [] = None"
| "scan_str (c # s) =
     (if c = CHR 0x22 then Some ([], s)
      else if c = CHR 0x5C then
        (case s of
           [] \<Rightarrow> None
         | e # s' \<Rightarrow>
             if e = CHR ''u'' then
               (case s' of
                  h1 # h2 # h3 # h4 # s'' \<Rightarrow>
                    (case (hex_char h1 h2 h3 h4, scan_str s'') of
                       (Some x, Some (cs, r)) \<Rightarrow> Some (x # cs, r) | _ \<Rightarrow> None)
                | _ \<Rightarrow> None)
             else (case (unescape e, scan_str s') of (Some x, Some (cs, r)) \<Rightarrow> Some (x # cs, r) | _ \<Rightarrow> None))
      else if (of_char c :: nat) < 32 then None
      else (case scan_str s of Some (cs, r) \<Rightarrow> Some (c # cs, r) | None \<Rightarrow> None))"

text \<open>A number: its integer part, fraction and exponent, each as text, and the text after it.\<close>

definition scan_int :: "string \<Rightarrow> (string \<times> string) option" where
  "scan_int s =
     (let sign = (if prefix ''-'' s then ''-'' else []); t = (if prefix ''-'' s then tl s else s) in
      case t of
        [] \<Rightarrow> None
      | c # r \<Rightarrow> if c = CHR ''0'' then Some (sign @ ''0'', r)
                 else if is_digit c then Some (sign @ takeWhile is_digit t, dropWhile is_digit t) else None)"

definition scan_frac :: "string \<Rightarrow> string \<times> string" where
  "scan_frac s =
     (case s of
        c # r \<Rightarrow> if c = CHR ''.'' \<and> takeWhile is_digit r \<noteq> [] then (c # takeWhile is_digit r, dropWhile is_digit r) else ([], s)
      | [] \<Rightarrow> ([], s))"

definition scan_exp :: "string \<Rightarrow> string \<times> string" where
  "scan_exp s =
     (case s of
        c # r \<Rightarrow>
          (let sign = (if prefix ''-'' r then ''-'' else if prefix ''+'' r then ''+'' else []);
               t = (if prefix ''-'' r \<or> prefix ''+'' r then tl r else r) in
           if (c = CHR ''e'' \<or> c = CHR ''E'') \<and> takeWhile is_digit t \<noteq> []
           then (c # sign @ takeWhile is_digit t, dropWhile is_digit t) else ([], s))
      | [] \<Rightarrow> ([], s))"

definition scan_num :: "(string \<Rightarrow> rat) \<Rightarrow> string \<Rightarrow> (json \<times> string) option" where
  "scan_num fread s =
     (case scan_int s of
        None \<Rightarrow> None
      | Some (i, r) \<Rightarrow>
          (let (f, r') = scan_frac r; (e, r'') = scan_exp r' in
           if f = [] \<and> e = [] then map_option (\<lambda>n. (JInt n, r'')) (int_of_text i)
           else Some (JNum (fread (i @ f @ e)), r'')))"

text \<open>
  Values, the elements of a list after its opening bracket and the members of an object after its opening
  brace. Every recursive call is one step of fuel; lemma \<open>parse_fuel\<close> shows that twice the length of the
  text suffices.
\<close>

fun parse_value :: "(string \<Rightarrow> rat) \<Rightarrow> nat \<Rightarrow> string \<Rightarrow> (json \<times> string) option"
  and parse_elems :: "(string \<Rightarrow> rat) \<Rightarrow> nat \<Rightarrow> string \<Rightarrow> (json list \<times> string) option"
  and parse_members :: "(string \<Rightarrow> rat) \<Rightarrow> nat \<Rightarrow> string \<Rightarrow> (obj \<times> string) option" where
  "parse_value fread 0 s = None"
| "parse_value fread (Suc n) s =
     (case s of
        [] \<Rightarrow> None
      | c # r \<Rightarrow>
          if c = CHR 0x22 then map_option (\<lambda>(cs, r'). (JStr cs, r')) (scan_str r)
          else if c = CHR ''{'' then
            (case skip_ws r of
               [] \<Rightarrow> None
             | d # r' \<Rightarrow> if d = CHR ''}'' then Some (JObj [], r')
                         else map_option (\<lambda>(kvs, r''). (JObj (dict_of kvs), r'')) (parse_members fread n (d # r')))
          else if c = CHR ''['' then
            (case skip_ws r of
               [] \<Rightarrow> None
             | d # r' \<Rightarrow> if d = CHR '']'' then Some (JList [], r')
                         else map_option (\<lambda>(xs, r''). (JList xs, r'')) (parse_elems fread n (d # r')))
          else if prefix ''null'' s then Some (JNull, drop 4 s)
          else if prefix ''true'' s then Some (JBool True, drop 4 s)
          else if prefix ''false'' s then Some (JBool False, drop 5 s)
          else scan_num fread s)"
| "parse_elems fread 0 s = None"
| "parse_elems fread (Suc n) s =
     (case parse_value fread n s of
        None \<Rightarrow> None
      | Some (v, r) \<Rightarrow>
          (case skip_ws r of
             [] \<Rightarrow> None
           | c # r' \<Rightarrow> if c = CHR '']'' then Some ([v], r')
                       else if c = CHR '','' then map_option (\<lambda>(vs, r''). (v # vs, r'')) (parse_elems fread n (skip_ws r'))
                       else None))"
| "parse_members fread 0 s = None"
| "parse_members fread (Suc n) s =
     (case s of
        [] \<Rightarrow> None
      | q # s' \<Rightarrow>
          if q \<noteq> CHR 0x22 then None
          else
            (case scan_str s' of
               None \<Rightarrow> None
             | Some (k, r) \<Rightarrow>
                 (case skip_ws r of
                    [] \<Rightarrow> None
                  | c # r' \<Rightarrow>
                      if c \<noteq> CHR '':'' then None
                      else
                        (case parse_value fread n (skip_ws r') of
                           None \<Rightarrow> None
                         | Some (v, r2) \<Rightarrow>
                             (case skip_ws r2 of
                                [] \<Rightarrow> None
                              | e # r3 \<Rightarrow>
                                  if e = CHR ''}'' then Some ([(k, v)], r3)
                                  else if e = CHR '','' then
                                    map_option (\<lambda>(kvs, r4). ((k, v) # kvs, r4)) (parse_members fread n (skip_ws r3))
                                  else None)))))"

definition fuel_for :: "string \<Rightarrow> nat" where
  "fuel_for s = 2 * length s + 2"

definition loads :: "(string \<Rightarrow> rat) \<Rightarrow> string \<Rightarrow> json option" where
  "loads fread s =
     (case parse_value fread (fuel_for s) (skip_ws s) of
        None \<Rightarrow> None
      | Some (v, r) \<Rightarrow> if skip_ws r = [] then Some v else None)"


section \<open>Lemmas\<close>

subsection \<open>Decimal text\<close>

declare str_of_nat.simps [simp del]

lemma digit_nth: "k < 10 \<Longrightarrow> is_digit (''0123456789'' ! k) \<and> digit_val (''0123456789'' ! k) = k"
proof -
  assume "k < 10"
  then have "k \<in> {0, 1, 2, 3, 4, 5, 6, 7, 8, 9}" by auto
  then show ?thesis by (auto simp: is_digit_def digit_val_def)
qed

lemma digits_val_snoc: "digits_val (ds @ [c]) = 10 * digits_val ds + digit_val c"
  by (simp add: digits_val_def)

lemma str_of_nat_facts:
  "str_of_nat n \<noteq> [] \<and> list_all is_digit (str_of_nat n) \<and> digits_val (str_of_nat n) = n \<and>
   (hd (str_of_nat n) = CHR ''0'' \<longrightarrow> n = 0)"
proof (induction n rule: str_of_nat.induct)
  case (1 n)
  show ?case
  proof (cases "n < 10")
    case True
    have zero: "''0123456789'' ! n = CHR ''0'' \<Longrightarrow> n = 0"
      using digit_nth [OF True] by (auto simp: digit_val_def)
    have "str_of_nat n = [''0123456789'' ! n]" using True by (simp add: str_of_nat.simps)
    moreover have "digits_val [''0123456789'' ! n] = n" using digit_nth [OF True] by (simp add: digits_val_def)
    ultimately show ?thesis using digit_nth [OF True] zero by simp
  next
    case False
    then have eq: "str_of_nat n = str_of_nat (n div 10) @ [''0123456789'' ! (n mod 10)]"
      by (subst str_of_nat.simps) simp
    from False have "n div 10 \<noteq> 0" by simp
    with 1 [OF False] eq digit_nth [of "n mod 10"] show ?thesis by (simp add: digits_val_snoc)
  qed
qed

lemma digit_chars: "is_digit c \<Longrightarrow> c \<noteq> CHR ''-'' \<and> c \<noteq> CHR ''+'' \<and> c \<noteq> CHR ''_'' \<and> c \<noteq> CHR ''.'' \<and> c \<noteq> CHR 0x22 \<and>
   c \<noteq> CHR ''{'' \<and> c \<noteq> CHR ''['' \<and> c \<noteq> CHR ''n'' \<and> c \<noteq> CHR ''t'' \<and> c \<noteq> CHR ''f'' \<and> c \<noteq> CHR ''e'' \<and> c \<noteq> CHR ''E'' \<and>
   c \<noteq> CHR '']'' \<and> c \<noteq> CHR ''}'' \<and> \<not> is_ws c \<and> \<not> py_isspace c"
  by (auto simp: is_digit_def is_ws_def py_isspace_def)

lemma str_of_int_cases:
  obtains d ds where "list_all is_digit (d # ds)" "str_of_int n = d # ds" "n = int (digits_val (d # ds))" "d = CHR ''0'' \<Longrightarrow> n = 0 \<and> ds = []"
  | d ds where "list_all is_digit (d # ds)" "str_of_int n = CHR ''-'' # d # ds" "n = - int (digits_val (d # ds))" "d \<noteq> CHR ''0''"
proof (cases "n < 0")
  case True
  obtain d ds where eq: "str_of_nat (nat (- n)) = d # ds" using str_of_nat_facts [of "nat (- n)"] by (cases "str_of_nat (nat (- n))") auto
  have f: "list_all is_digit (d # ds)" "digits_val (d # ds) = nat (- n)" "d = CHR ''0'' \<longrightarrow> nat (- n) = 0"
    using str_of_nat_facts [of "nat (- n)"] unfolding eq by simp_all
  show thesis
  proof (rule that(2))
    show "list_all is_digit (d # ds)" by (rule f(1))
    show "str_of_int n = CHR ''-'' # d # ds" using True eq by (simp add: str_of_int_def)
    show "n = - int (digits_val (d # ds))" using True f(2) by simp
    show "d \<noteq> CHR ''0''" using True f(3) by auto
  qed
next
  case False
  obtain d ds where eq: "str_of_nat (nat n) = d # ds" using str_of_nat_facts [of "nat n"] by (cases "str_of_nat (nat n)") auto
  have f: "list_all is_digit (d # ds)" "digits_val (d # ds) = nat n" "d = CHR ''0'' \<longrightarrow> nat n = 0"
    using str_of_nat_facts [of "nat n"] unfolding eq by simp_all
  show thesis
  proof (rule that(1))
    show "list_all is_digit (d # ds)" by (rule f(1))
    show "str_of_int n = d # ds" using False eq by (simp add: str_of_int_def)
    show "n = int (digits_val (d # ds))" using False f(2) by simp
    show "n = 0 \<and> ds = []" if "d = CHR ''0''"
    proof -
      have "nat n = 0" using f(3) that by simp
      then have "str_of_nat (nat n) = ''0''" by (simp add: str_of_nat.simps)
      then show ?thesis using eq \<open>nat n = 0\<close> False by simp
    qed
  qed
qed

lemma strip_digits: "list_all is_digit ds \<Longrightarrow> py_strip ds = ds"
  by (rule py_strip_id) (auto simp: list_all_iff digit_chars)

lemma int_of_digits: "list_all is_digit (d # ds) \<Longrightarrow> int_of_text (d # ds) = Some (int (digits_val (d # ds)))"
proof -
  assume a: "list_all is_digit (d # ds)"
  then have "CHR ''_'' \<notin> set (d # ds)" by (auto simp: list_all_iff dest: digit_chars)
  then have "py_split CHR ''_'' (d # ds) = [d # ds]" by (rule py_split_free_id)
  moreover have "d \<noteq> CHR ''-''" "d \<noteq> CHR ''+''" using a digit_chars [of d] by auto
  ultimately show ?thesis using a by (simp add: int_of_text_def strip_digits Let_def)
qed

lemma int_of_neg_digits: "list_all is_digit (d # ds) \<Longrightarrow> int_of_text (CHR ''-'' # d # ds) = Some (- int (digits_val (d # ds)))"
proof -
  assume a: "list_all is_digit (d # ds)"
  then have "CHR ''_'' \<notin> set (d # ds)" by (auto simp: list_all_iff dest: digit_chars)
  then have "py_split CHR ''_'' (d # ds) = [d # ds]" by (rule py_split_free_id)
  moreover have "py_strip (CHR ''-'' # d # ds) = CHR ''-'' # d # ds"
    using a by (intro py_strip_id) (auto simp: list_all_iff digit_chars py_isspace_def [of "CHR ''-''"])
  ultimately show ?thesis using a by (simp add: int_of_text_def Let_def)
qed

lemma int_of_str_of_int: "int_of_text (str_of_int n) = Some n"
  by (rule str_of_int_cases [of n]) (simp_all add: int_of_digits int_of_neg_digits)

text \<open>What ends a number.\<close>

definition delim :: "string \<Rightarrow> bool" where
  "delim r \<longleftrightarrow> (case r of [] \<Rightarrow> True | c # _ \<Rightarrow> \<not> is_digit c \<and> c \<noteq> CHR ''.'' \<and> c \<noteq> CHR ''e'' \<and> c \<noteq> CHR ''E'')"

lemma take_digits: "list_all is_digit ds \<Longrightarrow> delim r \<Longrightarrow> takeWhile is_digit (ds @ r) = ds \<and> dropWhile is_digit (ds @ r) = r"
  by (induction ds) (auto simp: delim_def split: list.splits)

lemma scan_int_str: "delim r \<Longrightarrow> scan_int (str_of_int n @ r) = Some (str_of_int n, r)"
proof (rule str_of_int_cases [of n])
  fix d ds
  assume d: "delim r" and a: "list_all is_digit (d # ds)" "str_of_int n = d # ds" "d = CHR ''0'' \<Longrightarrow> n = 0 \<and> ds = []"
  have "d \<noteq> CHR ''-''" using a(1) digit_chars [of d] by simp
  then show ?thesis using a take_digits [OF a(1) d] by (auto simp: scan_int_def Let_def)
next
  fix d ds
  assume d: "delim r" and a: "list_all is_digit (d # ds)" "str_of_int n = CHR ''-'' # d # ds" "d \<noteq> CHR ''0''"
  then show ?thesis using take_digits [OF a(1) d] by (simp add: scan_int_def Let_def)
qed

lemma scan_num_int: "delim r \<Longrightarrow> scan_num fread (str_of_int n @ r) = Some (JInt n, r)"
proof -
  assume d: "delim r"
  then have "scan_frac r = ([], r)" "scan_exp r = ([], r)"
    by (auto simp: delim_def scan_frac_def scan_exp_def Let_def split: list.splits)
  then show ?thesis by (simp add: scan_num_def scan_int_str [OF d] int_of_str_of_int)
qed

lemma span_append:
  "dropWhile P xs \<noteq> [] \<or> ys = [] \<or> \<not> P (hd ys) \<Longrightarrow>
   takeWhile P (xs @ ys) = takeWhile P xs \<and> dropWhile P (xs @ ys) = dropWhile P xs @ ys"
  by (induction xs) (cases ys; auto)+

lemma digits_append:
  "delim r \<Longrightarrow> takeWhile is_digit (xs @ r) = takeWhile is_digit xs \<and> dropWhile is_digit (xs @ r) = dropWhile is_digit xs @ r"
  by (rule span_append) (cases r; auto simp: delim_def)

lemma delim_frac: "delim r \<Longrightarrow> scan_frac (s @ r) = (fst (scan_frac s), snd (scan_frac s) @ r)"
proof (cases s)
  case Nil
  assume "delim r"
  then show ?thesis using Nil by (auto simp: scan_frac_def delim_def split: list.split)
next
  case (Cons c t)
  assume "delim r"
  from digits_append [OF this, of t] Cons show ?thesis by (simp add: scan_frac_def)
qed

lemma prefix_sign: "t \<noteq> [] \<or> \<not> prefix [c] r \<Longrightarrow> prefix [c] (t @ r) = prefix [c] t"
  by (cases t) auto

lemma delim_exp: "delim r \<Longrightarrow> snd (scan_exp s) = [] \<Longrightarrow> scan_exp (s @ r) = (fst (scan_exp s), r)"
proof (cases s)
  case Nil
  assume "delim r"
  then show ?thesis using Nil by (auto simp: scan_exp_def delim_def Let_def split: list.split)
next
  case (Cons c t)
  assume d: "delim r" and all: "snd (scan_exp s) = []"
  have ne: "t \<noteq> []" using all Cons by (auto simp: scan_exp_def Let_def split: if_splits)
  let ?u = "if prefix ''-'' t \<or> prefix ''+'' t then tl t else t"
  have "dropWhile is_digit ?u = []" "(c = CHR ''e'' \<or> c = CHR ''E'') \<and> takeWhile is_digit ?u \<noteq> []"
    using all Cons by (auto simp: scan_exp_def Let_def split: if_splits)
  moreover have "(if prefix ''-'' (t @ r) \<or> prefix ''+'' (t @ r) then tl (t @ r) else t @ r) = ?u @ r"
    using ne by (simp add: prefix_sign)
  ultimately show ?thesis
    using Cons ne digits_append [OF d, of ?u] by (simp add: scan_exp_def Let_def prefix_sign)
qed

lemma delim_int: "delim r \<Longrightarrow> scan_int s = Some (i, t) \<Longrightarrow> scan_int (s @ r) = Some (i, t @ r)"
proof -
  assume d: "delim r" and s: "scan_int s = Some (i, t)"
  let ?b = "if prefix ''-'' s then tl s else s"
  have ne: "?b \<noteq> []" using s by (auto simp: scan_int_def Let_def split: list.splits)
  then have "s \<noteq> []" by auto
  then have "prefix ''-'' (s @ r) = prefix ''-'' s" "(if prefix ''-'' s then tl (s @ r) else s @ r) = ?b @ r"
    by (simp_all add: prefix_sign)
  moreover obtain c u where "?b = c # u" using ne by (cases ?b) auto
  ultimately show ?thesis using s digits_append [OF d, of ?b] by (auto simp: scan_int_def Let_def split: if_splits)
qed

lemma scan_num_append:
  "delim r \<Longrightarrow> scan_num fread t = Some (JNum q, []) \<Longrightarrow> scan_num fread (t @ r) = Some (JNum q, r)"
proof -
  assume d: "delim r" and t: "scan_num fread t = Some (JNum q, [])"
  then obtain i u where i: "scan_int t = Some (i, u)" by (auto simp: scan_num_def split: option.splits)
  have e: "snd (scan_exp (snd (scan_frac u))) = []"
    using t i by (auto simp: scan_num_def split: prod.splits if_splits option.splits)
  show ?thesis
    using t i delim_int [OF d i] delim_frac [OF d, of u] delim_exp [OF d e]
    by (auto simp: scan_num_def split: prod.splits if_splits option.splits)
qed

lemma scan_num_head:
  "scan_num fread t = Some v \<Longrightarrow> \<exists>c u. t = c # u \<and> (is_digit c \<or> c = CHR ''-'')"
  by (cases t) (auto simp: scan_num_def scan_int_def Let_def is_digit_def split: option.splits list.splits if_splits)


subsection \<open>Strings\<close>

lemma hex_val_nth: "k < 16 \<Longrightarrow> hex_val (''0123456789abcdef'' ! k) = Some k"
proof -
  assume "k < 16"
  then have "k = 0 \<or> k = 1 \<or> k = 2 \<or> k = 3 \<or> k = 4 \<or> k = 5 \<or> k = 6 \<or> k = 7 \<or> k = 8 \<or> k = 9 \<or>
    k = 10 \<or> k = 11 \<or> k = 12 \<or> k = 13 \<or> k = 14 \<or> k = 15" by presburger
  then show ?thesis by (elim disjE) (simp_all add: hex_val_def)
qed

lemma hex4_char:
  "n < 256 \<Longrightarrow> \<exists>a b c d. hex4 n = [a, b, c, d] \<and> hex_char a b c d = Some (char_of n)"
proof -
  assume n: "n < 256"
  have "n div 4096 = 0" "n div 256 = 0" "n div 16 < 16" using n by auto
  then have parts: "(((n div 4096 mod 16) * 16 + n div 256 mod 16) * 16 + n div 16 mod 16) * 16 + n mod 16 = n" by simp
  have "hex_val (CHR ''0'') = Some 0" by (simp add: hex_val_def)
  then show ?thesis
    using n parts by (simp add: hex4_def hex_char_def hex_val_nth Let_def)
qed

lemma escape_cases:
  obtains x where "escape_char a c = [CHR 0x5C, x]" "unescape x = Some c" "x \<noteq> CHR ''u''"
  | "escape_char a c = [CHR 0x5C, CHR ''u''] @ hex4 (of_char c)"
  | "escape_char a c = [c]" "c \<noteq> CHR 0x22" "c \<noteq> CHR 0x5C" "\<not> (of_char c :: nat) < 32"
proof -
  let ?n = "of_char c :: nat"
  have ch: "c = d" if "?n = of_char d" for d using that by simp
  consider "c = CHR 0x22 \<or> c = CHR 0x5C" | "?n \<in> {8, 9, 10, 12, 13}"
    | "c \<noteq> CHR 0x22" "c \<noteq> CHR 0x5C" "?n \<notin> {8, 9, 10, 12, 13}" by auto
  then show thesis
  proof cases
    case 1
    then show thesis using that(1) [of c] by (auto simp: escape_char_def unescape_def Let_def)
  next
    case 2
    then have "c = CHR 0x08 \<or> c = CHR 0x09 \<or> c = CHR 0x0A \<or> c = CHR 0x0C \<or> c = CHR 0x0D"
      using ch [of "CHR 0x08"] ch [of "CHR 0x09"] ch [of "CHR 0x0A"] ch [of "CHR 0x0C"] ch [of "CHR 0x0D"] by auto
    then obtain x where "(c, x) \<in> {(CHR 0x08, CHR ''b''), (CHR 0x09, CHR ''t''), (CHR 0x0A, CHR ''n''), (CHR 0x0C, CHR ''f''), (CHR 0x0D, CHR ''r'')}"
      by blast
    then have "escape_char a c = [CHR 0x5C, x] \<and> unescape x = Some c \<and> x \<noteq> CHR ''u''"
      by (elim insertE emptyE) (simp_all add: escape_char_def unescape_def Let_def)
    then show thesis using that(1) by blast
  next
    case 3
    then show thesis
      by (cases "?n < 32 \<or> a \<and> 127 \<le> ?n") (auto intro: that(2) that(3) simp: escape_char_def Let_def)
  qed
qed

lemma scan_escape:
  "scan_str (escape_char a c @ t) = map_option (\<lambda>(cs, r). (c # cs, r)) (scan_str t)"
proof (rule escape_cases [of a c])
  fix x
  assume "escape_char a c = [CHR 0x5C, x]" "unescape x = Some c" "x \<noteq> CHR ''u''"
  then show ?thesis by (auto split: option.split)
next
  assume e: "escape_char a c = [CHR 0x5C, CHR ''u''] @ hex4 (of_char c)"
  have "(of_char c :: nat) < 256" by simp
  then obtain h1 h2 h3 h4 where "hex4 (of_char c) = [h1, h2, h3, h4]" "hex_char h1 h2 h3 h4 = Some (char_of (of_char c :: nat))"
    using hex4_char by blast
  then show ?thesis using e by (auto split: option.split)
next
  assume "escape_char a c = [c]" "c \<noteq> CHR 0x22" "c \<noteq> CHR 0x5C" "\<not> (of_char c :: nat) < 32"
  then show ?thesis by (auto split: option.split)
qed

lemma scan_dumped: "scan_str (concat (map (escape_char a) s) @ CHR 0x22 # r) = Some (s, r)"
  by (induction s) (simp_all add: scan_escape del: scan_str.simps(2), simp)


subsection \<open>Reading what was written\<close>

text \<open>A value as it comes back: the keys of its objects in order.\<close>

fun canon :: "json \<Rightarrow> json" where
  "canon (JList xs) = JList (map canon xs)"
| "canon (JObj d) = JObj (by_key (map (map_prod id canon) d))"
| "canon j = j"

text \<open>Python prints a float as a JSON number that reads back as the same float.\<close>

definition readable :: "(rat \<Rightarrow> string) \<Rightarrow> (string \<Rightarrow> rat) \<Rightarrow> rat \<Rightarrow> bool" where
  "readable frepr fread q \<longleftrightarrow> scan_num fread (frepr q) = Some (JNum q, [])"

text \<open>The values that Python dictionaries, lists and scalars can hold, with readable floats.\<close>

fun json_ok :: "(rat \<Rightarrow> string) \<Rightarrow> (string \<Rightarrow> rat) \<Rightarrow> json \<Rightarrow> bool" where
  "json_ok frepr fread (JNum q) = readable frepr fread q"
| "json_ok frepr fread (JList xs) = list_all (json_ok frepr fread) xs"
| "json_ok frepr fread (JObj d) = (dict_wf d \<and> list_all (\<lambda>kb. snd kb) (map (map_prod id (json_ok frepr fread)) d))"
| "json_ok frepr fread j = True"

definition style_ok :: "json_style \<Rightarrow> bool" where
  "style_ok st \<longleftrightarrow>
     prefix '','' (js_item st) \<and> list_all is_ws (tl (js_item st)) \<and>
     prefix '':'' (js_key st) \<and> list_all is_ws (tl (js_key st))"

lemma by_key_map_prod: "by_key (map (map_prod id f) d) = map (map_prod id f) (by_key d)"
proof -
  have ins: "insort_key fst (map_prod id f x) (map (map_prod id f) xs) = map (map_prod id f) (insort_key fst x xs)" for x xs
    by (induction xs) auto
  show ?thesis unfolding by_key_def by (induction d) (simp_all add: ins [unfolded id_def] id_def del: map_prod_simp)
qed

text \<open>Text that starts a value: neither white space nor a closing bracket.\<close>

definition starts :: "string \<Rightarrow> bool" where
  "starts t \<longleftrightarrow> (\<exists>c u. t = c # u \<and> \<not> is_ws c \<and> c \<noteq> CHR '']'' \<and> c \<noteq> CHR ''}'')"

lemma skip_ws_starts: "list_all is_ws u \<Longrightarrow> starts t \<Longrightarrow> skip_ws (u @ t @ r) = t @ r"
  by (induction u) (auto simp: skip_ws_def starts_def)

lemma skip_ws_hd: "\<not> is_ws c \<Longrightarrow> skip_ws (c # r) = c # r"
  by (simp add: skip_ws_def)

lemma punct_not_ws [simp]:
  "\<not> is_ws (CHR '','')" "\<not> is_ws (CHR '':'')" "\<not> is_ws (CHR '']'')" "\<not> is_ws (CHR ''}'')" "\<not> is_ws (CHR ''['')"
  "\<not> is_ws (CHR ''{'')" "\<not> is_ws (CHR 0x22)" "\<not> is_ws (CHR ''-'')"
  by (simp_all add: is_ws_def)

text \<open>A text that reads as a value, with whatever follows it.\<close>

definition reads_as :: "(string \<Rightarrow> rat) \<Rightarrow> string \<Rightarrow> json \<Rightarrow> bool" where
  "reads_as fread t v \<longleftrightarrow> starts t \<and>
     (\<forall>n r. delim r \<longrightarrow> 2 * length t + 1 \<le> n \<longrightarrow> parse_value fread n (t @ r) = Some (v, r))"

lemma reads_asD:
  "reads_as fread t v \<Longrightarrow> delim r \<Longrightarrow> 2 * length t + 1 \<le> n \<Longrightarrow> parse_value fread n (t @ r) = Some (v, r)"
  by (simp add: reads_as_def)

lemma reads_asI:
  assumes "starts t" "\<And>m r. delim r \<Longrightarrow> 2 * length t \<le> m \<Longrightarrow> parse_value fread (Suc m) (t @ r) = Some (v, r)"
  shows "reads_as fread t v"
proof -
  have "parse_value fread n (t @ r) = Some (v, r)" if "delim r" "2 * length t + 1 \<le> n" for n r
    using assms(2) [of r "n - 1"] that by (cases n) auto
  with assms(1) show ?thesis by (simp add: reads_as_def)
qed

lemma delim_punct: "c \<in> {CHR '','', CHR '']'', CHR ''}''} \<Longrightarrow> delim (c # r)"
  by (auto simp: delim_def is_digit_def)

lemma parse_elems_join:
  assumes st: "style_ok st" and ts: "list_all2 (reads_as fread) ts vs" "ts \<noteq> []"
    and n: "2 * length (py_join (js_item st) ts) + 2 \<le> n"
  shows "parse_elems fread n (py_join (js_item st) ts @ CHR '']'' # r) = Some (vs, r)"
  using ts n
proof (induction ts vs arbitrary: n rule: list_all2_induct)
  case Nil
  then show ?case by simp
next
  case (Cons t ts v vs)
  from Cons.prems obtain m where m: "n = Suc m" by (cases n) auto
  show ?case
  proof (cases ts)
    case Nil
    then have "vs = []" using Cons.hyps by simp
    moreover have "parse_value fread m (t @ CHR '']'' # r) = Some (v, CHR '']'' # r)"
      using Cons Nil m by (intro reads_asD [OF Cons.hyps(1)]) (simp_all add: delim_punct)
    ultimately show ?thesis using Nil m by (simp add: skip_ws_hd)
  next
    case (Cons t' ts')
    note ts = this
    obtain u where item: "js_item st = CHR '','' # u" "list_all is_ws u"
      using st by (auto simp: style_ok_def prefix_def)
    have st': "starts t'" using Cons.hyps ts by (auto simp: list_all2_Cons1 reads_as_def)
    let ?rest = "py_join (js_item st) ts @ CHR '']'' # r"
    have rest: "starts (py_join (js_item st) ts)"
      using st' ts by (cases ts') (auto simp: starts_def)
    have "parse_value fread m (t @ CHR '','' # u @ ?rest) = Some (v, CHR '','' # u @ ?rest)"
      using Cons.prems ts m by (intro reads_asD [OF Cons.hyps(1)]) (simp_all add: delim_punct)
    moreover have "skip_ws (u @ ?rest) = ?rest" by (rule skip_ws_starts [OF item(2) rest])
    moreover have "parse_elems fread m ?rest = Some (vs, r)"
      using Cons.prems ts m item by (intro Cons.IH) simp_all
    ultimately show ?thesis using ts m item by (simp add: skip_ws_hd)
  qed
qed

lemma starts_dumped: "starts (dump_str a k @ t)"
  by (simp add: starts_def dump_str_def)

lemma parse_members_join:
  assumes st: "style_ok st" and ts: "list_all2 (\<lambda>kt kv. fst kt = fst kv \<and> reads_as fread (snd kt) (snd kv)) ts kvs" "ts \<noteq> []"
    and n: "2 * length (py_join (js_item st) (map (\<lambda>kt. dump_str a (fst kt) @ js_key st @ snd kt) ts)) + 2 \<le> n"
  shows "parse_members fread n (py_join (js_item st) (map (\<lambda>kt. dump_str a (fst kt) @ js_key st @ snd kt) ts) @ CHR ''}'' # r) =
    Some (kvs, r)"
  using ts n
proof (induction ts kvs arbitrary: n rule: list_all2_induct)
  case Nil
  then show ?case by simp
next
  case (Cons kt ts kv kvs)
  let ?m = "\<lambda>kt. dump_str a (fst kt) @ js_key st @ snd kt"
  from Cons.prems obtain m where m: "n = Suc m" by (cases n) auto
  obtain w where key: "js_key st = CHR '':'' # w" "list_all is_ws w"
    using st by (auto simp: style_ok_def prefix_def)
  obtain k t v where k: "kt = (k, t)" "kv = (k, v)" "reads_as fread t v" using Cons.hyps(1) by (cases kt; cases kv) auto
  have begins: "skip_ws (w @ t @ x) = t @ x" for x using skip_ws_starts key(2) k(3) by (simp add: reads_as_def)
  have str: "scan_str (concat (map (escape_char a) k) @ CHR 0x22 # x) = Some (k, x)" for x by (rule scan_dumped)
  show ?case
  proof (cases ts)
    case Nil
    then have "kvs = []" using Cons.hyps by simp
    moreover have "parse_value fread m (t @ CHR ''}'' # r) = Some (v, CHR ''}'' # r)"
      using Cons.prems Nil m k by (intro reads_asD [OF k(3)]) (simp_all add: delim_punct)
    ultimately show ?thesis using Nil m key k str begins by (simp add: dump_str_def skip_ws_hd)
  next
    case (Cons kt' ts')
    note ts = this
    obtain u where item: "js_item st = CHR '','' # u" "list_all is_ws u"
      using st by (auto simp: style_ok_def prefix_def)
    let ?rest = "py_join (js_item st) (map ?m ts) @ CHR ''}'' # r"
    have rest: "starts (py_join (js_item st) (map ?m ts))"
      using ts by (cases ts') (simp_all add: starts_dumped)
    have "parse_value fread m (t @ CHR '','' # u @ ?rest) = Some (v, CHR '','' # u @ ?rest)"
      using Cons.prems ts m k by (intro reads_asD [OF k(3)]) (simp_all add: delim_punct)
    moreover have "skip_ws (u @ ?rest) = ?rest" by (rule skip_ws_starts [OF item(2) rest])
    moreover have "parse_members fread m ?rest = Some (kvs, r)"
      using Cons.prems ts m item by (intro Cons.IH) simp_all
    ultimately show ?thesis using ts m item key k str begins by (simp add: dump_str_def skip_ws_hd)
  qed
qed

lemma reads_scalar:
  assumes "starts t" "\<And>r. delim r \<Longrightarrow> scan_num fread (t @ r) = Some (v, r)"
  shows "reads_as fread t v"
proof -
  obtain c u where c: "t = c # u" using assms(1) by (auto simp: starts_def)
  have "scan_num fread t = Some (v, [])" using assms(2) [of "[]"] by (simp add: delim_def)
  from scan_num_head [OF this] c have h: "is_digit c \<or> c = CHR ''-''" by simp
  then have "c \<noteq> CHR 0x22 \<and> c \<noteq> CHR ''{'' \<and> c \<noteq> CHR ''['' \<and> c \<noteq> CHR ''n'' \<and> c \<noteq> CHR ''t'' \<and> c \<noteq> CHR ''f''"
    by (elim disjE) (use digit_chars [of c] in simp_all)
  then have "parse_value fread (Suc m) (t @ r) = scan_num fread (t @ r)" for m r using c by (auto)
  with assms(2) have "parse_value fread (Suc m) (t @ r) = Some (v, r)" if "delim r" for m r using that by (simp only:)
  then show ?thesis using assms(1) by (blast intro: reads_asI)
qed

lemma starts_int: "starts (str_of_int n)"
  by (rule str_of_int_cases [of n]) (auto simp: starts_def digit_chars)

lemma reads_null: "reads_as fread ''null'' JNull"
  and reads_true: "reads_as fread ''true'' (JBool True)"
  and reads_false: "reads_as fread ''false'' (JBool False)"
  by (intro reads_asI; simp add: starts_def is_ws_def)+

lemma reads_str: "reads_as fread (dump_str a s) (JStr s)"
  by (rule reads_asI) (simp_all add: starts_def dump_str_def scan_dumped)

lemma reads_list:
  assumes "style_ok st" "list_all2 (reads_as fread) ts vs"
  shows "reads_as fread (''['' @ py_join (js_item st) ts @ '']'') (JList vs)"
proof -
  have "parse_value fread n ((''['' @ py_join (js_item st) ts @ '']'') @ r) = Some (JList vs, r)"
    if n: "2 * length (''['' @ py_join (js_item st) ts @ '']'') + 1 \<le> n" for n r
  proof (cases ts)
    case Nil
    then show ?thesis using assms(2) n by (cases n) (simp_all add: skip_ws_hd)
  next
    case (Cons t ts')
    obtain m where m: "n = Suc m" using n by (cases n) auto
    have "starts (py_join (js_item st) ts)"
      using assms(2) Cons by (cases ts') (auto simp: starts_def reads_as_def list_all2_Cons1)
    then obtain c u where c: "py_join (js_item st) ts = c # u" "\<not> is_ws c" "c \<noteq> CHR '']''"
      by (auto simp: starts_def)
    have "parse_elems fread m (py_join (js_item st) ts @ CHR '']'' # r) = Some (vs, r)"
      using assms n m Cons by (intro parse_elems_join) simp_all
    then show ?thesis using m c by (simp add: skip_ws_hd)
  qed
  then show ?thesis by (simp add: reads_as_def starts_def)
qed

lemma reads_obj:
  assumes "style_ok st" "list_all2 (\<lambda>kt kv. fst kt = fst kv \<and> reads_as fread (snd kt) (snd kv)) ts kvs" "dict_wf kvs"
  shows "reads_as fread (''{'' @ py_join (js_item st) (map (\<lambda>kt. dump_str a (fst kt) @ js_key st @ snd kt) ts) @ ''}'') (JObj kvs)"
proof -
  let ?j = "py_join (js_item st) (map (\<lambda>kt. dump_str a (fst kt) @ js_key st @ snd kt) ts)"
  have "parse_value fread n ((''{'' @ ?j @ ''}'') @ r) = Some (JObj kvs, r)"
    if n: "2 * length (''{'' @ ?j @ ''}'') + 1 \<le> n" for n r
  proof (cases ts)
    case Nil
    then show ?thesis using assms(2) n by (cases n) (simp_all add: skip_ws_hd)
  next
    case (Cons t ts')
    obtain m where m: "n = Suc m" using n by (cases n) auto
    have "starts ?j" using Cons by (cases ts') (simp_all add: starts_dumped)
    then obtain c u where c: "?j = c # u" "\<not> is_ws c" "c \<noteq> CHR ''}''"
      by (auto simp: starts_def)
    have "parse_members fread m (?j @ CHR ''}'' # r) = Some (kvs, r)"
      using assms n m Cons by (intro parse_members_join) simp_all
    then show ?thesis using m c assms(3) by (simp add: skip_ws_hd dict_of_distinct dict_wf_def)
  qed
  then show ?thesis by (simp add: reads_as_def starts_def)
qed

lemma dumps_reads: "style_ok st \<Longrightarrow> json_ok frepr fread j \<Longrightarrow> reads_as fread (dumps frepr st j) (canon j)"
proof (induction j)
  case (JNum q)
  then have q: "scan_num fread (frepr q) = Some (JNum q, [])" by (simp add: readable_def)
  then have "starts (frepr q)" using scan_num_head [OF q] by (auto simp: starts_def digit_chars)
  then show ?case using scan_num_append [OF _ q] by (simp add: reads_scalar)
next
  case (JInt n)
  then show ?case using scan_num_int by (simp add: reads_scalar starts_int)
next
  case (JList xs)
  then have "list_all2 (reads_as fread) (map (dumps frepr st) xs) (map canon xs)"
    by (simp add: list_all2_map1 list_all2_map2 list.rel_refl_strong list_all_iff)
  from reads_list [OF JList.prems(1) this] show ?case by simp
next
  case (JObj d)
  have wf: "dict_wf (map (map_prod id canon) (by_key d))"
    using JObj.prems dict_wf_by_key [of d] by (simp add: dict_wf_def)
  have "\<And>kv. kv \<in> set d \<Longrightarrow> reads_as fread (dumps frepr st (snd kv)) (canon (snd kv))"
    using JObj by (force simp: list_all_iff)
  then have "list_all2 (\<lambda>kt kv. fst kt = fst kv \<and> reads_as fread (snd kt) (snd kv))
      (map (map_prod id (dumps frepr st)) (by_key d)) (map (map_prod id canon) (by_key d))"
    unfolding list_all2_map1 list_all2_map2 by (intro list.rel_refl_strong) simp
  from reads_obj [OF JObj.prems(1) this, of "js_ascii st"] show ?case using wf by (simp add: by_key_map_prod)
qed (simp_all add: reads_null reads_true reads_false reads_str)

lemma loads_reads: "reads_as fread t v \<Longrightarrow> loads fread t = Some v"
proof -
  assume r: "reads_as fread t v"
  then have "skip_ws t = t" using skip_ws_starts [of "[]" t "[]"] by (simp add: reads_as_def)
  moreover have "parse_value fread (fuel_for t) t = Some (v, [])"
    using reads_asD [OF r, of "[]" "fuel_for t"] by (simp add: delim_def fuel_for_def)
  ultimately show ?thesis by (simp add: loads_def skip_ws_def)
qed

theorem loads_dumps:
  assumes "style_ok st" and "json_ok frepr fread j"
  shows "loads fread (dumps frepr st j) = Some (canon j)"
  by (rule loads_reads [OF dumps_reads [OF assms]])

lemma map_of_map_prod_id: "map_of (map (map_prod id f) d) k = map_option f (map_of d k)"
  by (induction d) auto

lemma json_eq_canon: "json_eq j (canon j) \<and> json_eq (canon j) j"
proof (induction j)
  case (JList xs)
  then have "json_eq (fst p) (snd p)" if "p \<in> set (zip xs (map canon xs)) \<or> p \<in> set (zip (map canon xs) xs)" for p
    using that JList by (fastforce simp: in_set_zip dest: nth_mem)
  then show ?case by (simp add: json_eq.simps [of "JList xs"] json_eq.simps [of "JList (map canon xs)"])
next
  case (JObj d)
  have ih: "json_eq v (canon v) \<and> json_eq (canon v) v" if "map_of d k = Some v" for k v
    using JObj [OF map_of_SomeD [OF that], of v] by simp
  have dom: "map_of d k \<noteq> None" if "k \<in> fst ` set d" for k using that by (simp add: map_of_eq_None_iff)
  let ?c = "by_key (map (map_prod id canon) d)"
  have "map_of ?c k = map_option canon (map_of d k)" for k by (simp add: map_of_map_prod_id)
  moreover have "fst ` set ?c = fst ` set d" by (force simp: by_key_map_prod)
  ultimately show ?case
    using ih dom by (auto simp: json_eq.simps [of "JObj d"] json_eq.simps [of "JObj ?c"] simp del: map_of_by_key split: option.split)
qed (simp_all add: json_eq.simps)

lemma json_eq_refl [simp]: "json_eq j j"
proof (induction j)
  case (JList xs)
  then show ?case by (subst json_eq.simps) (auto simp: in_set_zip)
next
  case (JObj d)
  have "json_eq v v" if "map_of d k = Some v" for k v using JObj [OF map_of_SomeD [OF that], of v] by simp
  moreover have "map_of d k \<noteq> None" if "k \<in> fst ` set d" for k using that by (simp add: map_of_eq_None_iff)
  ultimately show ?case by (subst json_eq.simps) (auto split: option.split)
qed (simp_all add: json_eq.simps)

lemma get_canon: "canon (JObj d) = JObj d' \<Longrightarrow> get d' k = canon (get d k)"
  by (auto simp: get_def map_of_map_prod_id split: option.split)


subsection \<open>Fuel\<close>

lemma skip_ws_length: "length (skip_ws s) \<le> length s"
  by (simp add: skip_ws_def length_dropWhile_le)

lemma skip_ws_Cons: "skip_ws s = c # r \<Longrightarrow> length r < length s"
  using skip_ws_length [of s] by simp

lemma scan_str_length: "scan_str s = Some (cs, r) \<Longrightarrow> length r < length s"
  by (induction s arbitrary: cs r rule: scan_str.induct) (fastforce split: if_splits list.splits option.splits prod.splits)+

lemma scan_int_length: "scan_int s = Some (i, r) \<Longrightarrow> length r < length s"
proof -
  assume a: "scan_int s = Some (i, r)"
  let ?b = "if prefix ''-'' s then tl s else s"
  have "length ?b \<le> length s" by simp
  moreover obtain c u where b: "?b = c # u" using a by (cases ?b) (auto simp: scan_int_def Let_def)
  moreover have "r = u \<or> is_digit c \<and> r = dropWhile is_digit (c # u)"
    using a b by (auto simp: scan_int_def Let_def split: if_splits)
  moreover have "length (dropWhile is_digit u) \<le> length u" by (rule length_dropWhile_le)
  ultimately show ?thesis by auto
qed

lemma scan_frac_length: "length (snd (scan_frac s)) \<le> length s"
  using length_dropWhile_le [of is_digit] by (auto simp: scan_frac_def le_SucI split: list.split)

lemma scan_exp_length: "length (snd (scan_exp s)) \<le> length s"
proof (cases s)
  case (Cons c t)
  let ?u = "if prefix ''-'' t \<or> prefix ''+'' t then tl t else t"
  have "length (dropWhile is_digit ?u) \<le> length ?u" "length ?u \<le> length t" by (rule length_dropWhile_le) simp
  then show ?thesis using Cons by (simp add: scan_exp_def Let_def)
qed (simp add: scan_exp_def)

lemma scan_num_length: "scan_num fread s = Some (v, r) \<Longrightarrow> length r < length s"
proof -
  assume a: "scan_num fread s = Some (v, r)"
  then obtain i t where i: "scan_int s = Some (i, t)" by (auto simp: scan_num_def split: option.splits)
  then have "r = snd (scan_exp (snd (scan_frac t)))" using a by (auto simp: scan_num_def split: prod.splits if_splits)
  then show ?thesis
    using scan_int_length [OF i] scan_frac_length [of t] scan_exp_length [of "snd (scan_frac t)"] by simp
qed

definition shrinks :: "(string \<Rightarrow> ('a \<times> string) option) \<Rightarrow> bool" where
  "shrinks p \<longleftrightarrow> (\<forall>s v r. p s = Some (v, r) \<longrightarrow> length r < length s)"

lemma shrinksD: "shrinks p \<Longrightarrow> p s = Some (v, r) \<Longrightarrow> length r < length s"
  by (auto simp: shrinks_def)

lemma value_shrinks:
  assumes "shrinks (parse_elems fread n)" "shrinks (parse_members fread n)"
  shows "shrinks (parse_value fread (Suc n))"
  unfolding shrinks_def
proof (intro allI impI)
  fix s v r
  assume a: "parse_value fread (Suc n) s = Some (v, r)"
  show "length r < length s"
  proof (cases s)
    case (Cons c t)
    have ws: "length u < length t" if "skip_ws t = d # u" for d u using skip_ws_Cons [OF that] .
    consider "c = CHR 0x22" | "c = CHR ''{''" | "c = CHR ''[''" | "c \<notin> {CHR 0x22, CHR ''{'', CHR ''[''}" by auto
    then show ?thesis
    proof cases
      case 1
      then show ?thesis using a Cons by (auto dest: scan_str_length)
    next
      case 2
      then obtain d u where d: "skip_ws t = d # u" using a Cons by (auto split: list.splits)
      then show ?thesis
        using a Cons 2 ws [OF d] shrinksD [OF assms(2), of "d # u"] by (auto split: if_splits)
    next
      case 3
      then obtain d u where d: "skip_ws t = d # u" using a Cons by (auto split: list.splits)
      then show ?thesis
        using a Cons 3 ws [OF d] shrinksD [OF assms(1), of "d # u"] by (auto split: if_splits)
    next
      case 4
      then have "parse_value fread (Suc n) s =
          (if prefix ''null'' s then Some (JNull, drop 4 s) else if prefix ''true'' s then Some (JBool True, drop 4 s)
           else if prefix ''false'' s then Some (JBool False, drop 5 s) else scan_num fread s)"
        using Cons by simp
      then have "r = drop 4 s \<or> r = drop 5 s \<or> scan_num fread s = Some (v, r)" using a by (simp split: if_splits)
      then show ?thesis using scan_num_length [of fread s v r] Cons by auto
    qed
  qed (use a in simp)
qed

lemma elems_shrinks:
  assumes "shrinks (parse_value fread n)" "shrinks (parse_elems fread n)"
  shows "shrinks (parse_elems fread (Suc n))"
  unfolding shrinks_def
proof (intro allI impI)
  fix s vs r
  assume a: "parse_elems fread (Suc n) s = Some (vs, r)"
  then obtain v t where v: "parse_value fread n s = Some (v, t)" by (auto split: option.splits)
  with a obtain c u where c: "skip_ws t = c # u" by (auto split: list.splits)
  have "length u < length s" using shrinksD [OF assms(1) v] skip_ws_Cons [OF c] by simp
  moreover have "length (skip_ws u) \<le> length u" by (rule skip_ws_length)
  ultimately show "length r < length s"
    using a v c shrinksD [OF assms(2), of "skip_ws u"] by (auto split: if_splits)
qed

lemma members_shrinks:
  assumes "shrinks (parse_value fread n)" "shrinks (parse_members fread n)"
  shows "shrinks (parse_members fread (Suc n))"
  unfolding shrinks_def
proof (intro allI impI)
  fix s kvs r
  assume a: "parse_members fread (Suc n) s = Some (kvs, r)"
  then obtain s' where s: "s = CHR 0x22 # s'" by (auto split: list.splits if_splits)
  with a obtain k t where k: "scan_str s' = Some (k, t)" by (auto split: option.splits)
  with a s obtain u where c: "skip_ws t = CHR '':'' # u" by (auto split: list.splits if_splits)
  with a s k obtain v w where v: "parse_value fread n (skip_ws u) = Some (v, w)" by (auto split: option.splits)
  with a s k c obtain e x where e: "skip_ws w = e # x" by (auto split: list.splits)
  have "length x < length s"
    using scan_str_length [OF k] skip_ws_Cons [OF c] skip_ws_length [of u] shrinksD [OF assms(1) v] skip_ws_Cons [OF e] s by simp
  moreover have "length (skip_ws x) \<le> length x" by (rule skip_ws_length)
  ultimately show "length r < length s"
    using a s k c v e shrinksD [OF assms(2), of "skip_ws x"] by (auto split: if_splits)
qed

lemma parse_shrinks:
  "shrinks (parse_value fread n) \<and> shrinks (parse_elems fread n) \<and> shrinks (parse_members fread n)"
proof (induction n)
  case 0
  show ?case by (simp add: shrinks_def)
next
  case (Suc n)
  then show ?case by (simp add: value_shrinks elems_shrinks members_shrinks del: parse_value.simps parse_elems.simps parse_members.simps)
qed

lemma parse_fuel_step:
  "(2 * length s + 1 \<le> n \<longrightarrow> parse_value fread (Suc n) s = parse_value fread n s) \<and>
   (2 * length s + 2 \<le> n \<longrightarrow> parse_elems fread (Suc n) s = parse_elems fread n s) \<and>
   (2 * length s + 2 \<le> n \<longrightarrow> parse_members fread (Suc n) s = parse_members fread n s)"
proof (induction n arbitrary: s)
  case (Suc n)
  have vs: "parse_value fread (Suc n) s = parse_value fread n s" if "2 * length s + 1 \<le> n" for s using Suc that by blast
  have es: "parse_elems fread (Suc n) s = parse_elems fread n s" if "2 * length s + 2 \<le> n" for s using Suc that by blast
  have ms: "parse_members fread (Suc n) s = parse_members fread n s" if "2 * length s + 2 \<le> n" for s using Suc that by blast
  have "parse_value fread (Suc (Suc n)) s = parse_value fread (Suc n) s" if n: "2 * length s + 1 \<le> Suc n"
  proof -
    have "parse_elems fread (Suc n) (d # u) = parse_elems fread n (d # u)"
      "parse_members fread (Suc n) (d # u) = parse_members fread n (d # u)" if "s = c # t" "skip_ws t = d # u" for c t d u
      using that n skip_ws_Cons [OF that(2)] by (intro es ms; simp)+
    then show ?thesis
      by (simp add: parse_value.simps(2) del: parse_elems.simps parse_members.simps split: list.split)
  qed
  moreover have "parse_elems fread (Suc (Suc n)) s = parse_elems fread (Suc n) s" if n: "2 * length s + 2 \<le> Suc n"
  proof -
    have "parse_value fread (Suc n) s = parse_value fread n s" using n by (intro vs) simp
    moreover have "parse_elems fread (Suc n) (skip_ws u) = parse_elems fread n (skip_ws u)"
      if "parse_value fread n s = Some (v, t)" "skip_ws t = c # u" for v t c u
      using n shrinksD [OF conjunct1 [OF parse_shrinks] that(1)] skip_ws_Cons [OF that(2)] skip_ws_length [of u] by (intro es) simp
    ultimately show ?thesis
      by (simp only: parse_elems.simps(2)) (simp del: parse_elems.simps parse_value.simps split: option.split list.split)
  qed
  moreover have "parse_members fread (Suc (Suc n)) s = parse_members fread (Suc n) s" if n: "2 * length s + 2 \<le> Suc n"
  proof -
    have short: "length (skip_ws u) + 2 \<le> length s" if "s = q # s'" "scan_str s' = Some (k, t)" "skip_ws t = c # u" for q s' k t c u
      using that(1) scan_str_length [OF that(2)] skip_ws_Cons [OF that(3)] skip_ws_length [of u] by simp
    have "parse_value fread (Suc n) (skip_ws u) = parse_value fread n (skip_ws u)"
      if "s = q # s'" "scan_str s' = Some (k, t)" "skip_ws t = c # u" for q s' k t c u
      using n short [OF that] by (intro vs) simp
    moreover have "parse_members fread (Suc n) (skip_ws x) = parse_members fread n (skip_ws x)"
      if "s = q # s'" "scan_str s' = Some (k, t)" "skip_ws t = c # u" "parse_value fread n (skip_ws u) = Some (v, w)" "skip_ws w = e # x"
      for q s' k t c u v w e x
      using n short [OF that(1-3)] shrinksD [OF conjunct1 [OF parse_shrinks] that(4)] skip_ws_Cons [OF that(5)] skip_ws_length [of x]
      by (intro ms) simp
    ultimately show ?thesis
      by (simp only: parse_members.simps(2))
        (simp del: parse_members.simps parse_value.simps scan_str.simps split: option.split list.split)
  qed
  ultimately show ?case by blast
qed simp

lemma parse_fuel: "fuel_for s \<le> n \<Longrightarrow> parse_value fread n s = parse_value fread (fuel_for s) s"
proof (induction rule: dec_induct)
  case (step m)
  then show ?case using parse_fuel_step [of s m fread] by (simp add: fuel_for_def del: parse_value.simps)
qed simp

end
