(* ===== verification/Claims.thy ===== *)
theory Claims
  imports Admission Py_Json "HOL-Library.Multiset"
begin

section \<open>Claims derived from the evidence of a run\<close>

text \<open>
  Models \<open>verdict/orchestration/claims.py\<close>: the claims that a finished run may make, each derived from its event log
  and its receipt. Events are JSON objects; a missing key reads as \<open>null\<close>, as \<open>dict.get\<close> does. Where the recorder
  writes an object or a list, a value of another type counts as empty. The reading of an ISO time is a parameter;
  the files of the run directory and the result of \<open>verify_run_receipt\<close> are arguments.
\<close>

subsection \<open>Events and claims\<close>

datatype claim_status = VERIFIED | NOT_OBSERVED | CONTRADICTED

datatype evidence_source = Event int | Receipt string

record claim_evidence =
  ce_source :: evidence_source
  ce_value :: json

record claim =
  clm_id :: string
  clm_text :: string
  clm_status :: claim_status
  clm_evidence :: "claim_evidence list"

definition Claim :: "string \<Rightarrow> string \<Rightarrow> claim_status \<Rightarrow> claim_evidence list \<Rightarrow> claim" where
  "Claim cid txt status evidence = \<lparr> clm_id = cid, clm_text = txt, clm_status = status, clm_evidence = evidence \<rparr>"

definition data_of :: "obj \<Rightarrow> obj" where
  "data_of e = (case object (get e ''data'') of Some d \<Rightarrow> d | None \<Rightarrow> [])"

definition seq_of :: "obj \<Rightarrow> int" where
  "seq_of e = (case int_of (get e ''seq'') of Some n \<Rightarrow> n | None \<Rightarrow> - 1)"

definition is_type :: "string \<Rightarrow> obj \<Rightarrow> bool" where
  "is_type t e \<longleftrightarrow> get e ''type'' = JStr t"

definition of_type :: "string \<Rightarrow> obj list \<Rightarrow> obj list" where
  "of_type t events = filter (is_type t) events"

definition ordered_events :: "obj list \<Rightarrow> obj list" where
  "ordered_events events = sort_key seq_of events"

definition cite :: "obj \<Rightarrow> json \<Rightarrow> claim_evidence" where
  "cite e value = \<lparr> ce_source = Event (seq_of e), ce_value = value \<rparr>"

definition opaque_name :: "route_id \<Rightarrow> bool" where
  "opaque_name route \<longleftrightarrow> list_ex (\<lambda>p. prefix p (py_lower route)) OPAQUE_PREFIXES"

definition CAPABILITY_STAGE :: string where
  "CAPABILITY_STAGE = ''TASK_ELIGIBLE''"

definition HEALTHY_OR_LATER :: "string list" where
  "HEALTHY_OR_LATER = [''HEALTHY'', ''AVAILABLE'', ''TASK_ELIGIBLE'', ''SELECTED'']"

definition NO_CHECK_PREFIX :: string where
  "NO_CHECK_PREFIX = ''(none''"

definition MECHANICAL_MODEL :: string where
  "MECHANICAL_MODEL = ''(mechanical merge)''"

definition preceding_eligibility :: "obj list \<Rightarrow> obj \<Rightarrow> obj option" where
  "preceding_eligibility events selection =
     foldl (\<lambda>best e.
       if is_type ''eligibility'' e \<and> get e ''node_id'' = get selection ''node_id'' \<and> seq_of e < seq_of selection \<and>
          (case best of None \<Rightarrow> True | Some b \<Rightarrow> seq_of e > seq_of b) then Some e else best) None events"

definition candidates :: "obj \<Rightarrow> obj list" where
  "candidates d = objects (get d ''candidates'')"


subsection \<open>Selection claims\<close>

definition plan_nodes :: "obj list \<Rightarrow> (string, obj) dict" where
  "plan_nodes events =
     foldl (\<lambda>d n. case get n ''node_id'' of JStr i \<Rightarrow> dict_put i n d | _ \<Rightarrow> d) []
       (concat (map (\<lambda>p. objects (get (data_of p) ''nodes'')) (of_type ''plan_ready'' events)))"

definition selection_evidence :: "obj list \<Rightarrow> obj \<Rightarrow> claim_evidence option" where
  "selection_evidence events s =
     (let route = str_of (get (data_of s) ''route_id'');
          profiles = filter (\<lambda>u. data_of u \<noteq> [] \<and> seq_of u < seq_of s) (of_type ''understand'' events);
          requirements = (case map_of (plan_nodes events) (str_of (get s ''node_id'')) of Some n \<Rightarrow> n | None \<Rightarrow> []);
          has_requirements = (truthy (get requirements ''required_capabilities'') \<or>
            (case int_of (get requirements ''min_context_tokens'') of Some n \<Rightarrow> n \<noteq> 0 | None \<Rightarrow> False)) in
      case preceding_eligibility events s of
        None \<Rightarrow> None
      | Some elig \<Rightarrow>
          let ranked = filter (\<lambda>c. int_of (get c ''rank'') \<noteq> None) (candidates (data_of elig));
              chosen = filter (\<lambda>c. get c ''route_id'' = JStr route) ranked in
          if route \<noteq> [] \<and> profiles \<noteq> [] \<and> has_requirements \<and> length ranked > 1 \<and> chosen \<noteq> [] then
            Some (cite s (JObj [(''route_id'', JStr route), (''rank'', get (hd chosen) ''rank''),
              (''ranked_candidates'', JInt (int (length ranked))), (''profile_event'', JInt (seq_of (last profiles))),
              (''eligibility_event'', JInt (seq_of elig)),
              (''required_capabilities'', JList (elements (get requirements ''required_capabilities'')))]))
          else None)"

text \<open>\<open>VERIFIED\<close> when there is evidence, else \<open>NOT_OBSERVED\<close>.\<close>

definition if_observed :: "string \<Rightarrow> string \<Rightarrow> claim_evidence list \<Rightarrow> claim" where
  "if_observed cid txt evidence =
     (if evidence \<noteq> [] then Claim cid txt VERIFIED evidence else Claim cid txt NOT_OBSERVED [])"

definition claim_task_aware_selection :: "obj list \<Rightarrow> claim" where
  "claim_task_aware_selection events =
     if_observed ''task_aware_selection'' ''Task-aware model selection''
       (List.map_filter (selection_evidence events) (of_type ''selection'' events))"

definition add_count :: "string \<Rightarrow> int \<Rightarrow> (string, int) dict \<Rightarrow> (string, int) dict" where
  "add_count reason n found = dict_put reason ((case map_of found reason of Some m \<Rightarrow> m | None \<Rightarrow> 0) + n) found"

definition count_reasons :: "obj list \<Rightarrow> (string, int) dict \<Rightarrow> (string, int) dict" where
  "count_reasons rs found =
     foldl (\<lambda>d r. add_count (let reason = str_of (get r ''reason'') in if reason = [] then ''unknown'' else reason) 1 d) found rs"

definition capability_rejections :: "obj \<Rightarrow> (string, int) dict" where
  "capability_rejections d =
     (case get d ''rejections'' of
        JObj rej \<Rightarrow>
          foldl (\<lambda>found (reason, count). case int_of count of Some n \<Rightarrow> if n > 0 then add_count reason n found else found | None \<Rightarrow> found)
            [] (case object (get rej CAPABILITY_STAGE) of Some bucket \<Rightarrow> bucket | None \<Rightarrow> [])
      | JList rs \<Rightarrow> count_reasons (filter (\<lambda>r. get r ''stage'' = JStr CAPABILITY_STAGE) (List.map_filter object rs)) []
      | _ \<Rightarrow> count_reasons (filter (\<lambda>c. get c ''failed_stage'' = JStr CAPABILITY_STAGE) (candidates d)) [])"

definition claim_capability_filtering :: "obj list \<Rightarrow> claim" where
  "claim_capability_filtering events =
     if_observed ''capability_filtering'' ''Capability filtering reduced candidate pool''
       (List.map_filter (\<lambda>e.
          let found = capability_rejections (data_of e) in
          if found = [] then None
          else Some (cite e (JObj [(''stage'', JStr CAPABILITY_STAGE), (''reasons'', JObj (map (\<lambda>(k, n). (k, JInt n)) found))])))
        (of_type ''eligibility'' events))"

definition ok_probes :: "obj list \<Rightarrow> obj \<Rightarrow> string \<Rightarrow> obj list" where
  "ok_probes events s route =
     filter (\<lambda>p. seq_of p < seq_of s \<and> str_of (get (data_of p) ''route_id'') = route \<and> get (data_of p) ''ok'' = JBool True)
       (of_type ''probe'' events)"

definition probed_healthy :: "obj list \<Rightarrow> obj \<Rightarrow> string \<Rightarrow> claim_evidence list" where
  "probed_healthy events s route =
     concat (map (\<lambda>e.
       case int_of (get (data_of e) ''probed'') of
         None \<Rightarrow> []
       | Some probed \<Rightarrow>
           if probed \<le> 0 \<or> seq_of e \<ge> seq_of s then []
           else map (\<lambda>c. cite e (JObj [(''route_id'', JStr route), (''probed'', JInt probed), (''reached'', get c ''reached'')]))
             (filter (\<lambda>c. get c ''route_id'' = JStr route \<and> str_of (get c ''reached'') \<in> set HEALTHY_OR_LATER) (candidates (data_of e))))
       (of_type ''eligibility'' events))"

text \<open>The health result that a selected route had before its selection, a probe before an eligibility pass.\<close>

definition health_result_of :: "obj list \<Rightarrow> obj \<Rightarrow> claim_evidence option" where
  "health_result_of events s =
     (let route = str_of (get (data_of s) ''route_id'') in
      if ok_probes events s route \<noteq> [] then
        Some (cite (last (ok_probes events s route)) (JObj [(''route_id'', JStr route), (''probe'', JStr ''ok'')]))
      else if probed_healthy events s route \<noteq> [] then Some (last (probed_healthy events s route))
      else None)"

fun health_loop :: "obj list \<Rightarrow> obj list \<Rightarrow> claim_evidence list \<Rightarrow> claim_status \<times> claim_evidence list" where
  "health_loop events [] acc = (VERIFIED, acc)"
| "health_loop events (s # ss) acc =
     (case health_result_of events s of Some ev \<Rightarrow> health_loop events ss (acc @ [ev]) | None \<Rightarrow> (NOT_OBSERVED, acc))"

definition claim_health_considered :: "obj list \<Rightarrow> claim" where
  "claim_health_considered events =
     (let selections = of_type ''selection'' events;
          (status, evidence) = (if selections = [] then (NOT_OBSERVED, []) else health_loop events selections []) in
      Claim ''health_considered'' ''Provider/model health considered in routing'' status evidence)"


subsection \<open>Dispatch and failure claims\<close>

definition claim_explicit_assignment :: "obj list \<Rightarrow> claim" where
  "claim_explicit_assignment events =
     (let named = filter (\<lambda>d. str_of (get (data_of d) ''route_id'') \<noteq> []) (of_type ''dispatch'' events);
          note_route = (\<lambda>d. cite d (JObj [(''route_id'', JStr (str_of (get (data_of d) ''route_id'')))]));
          opaque = map note_route (filter (\<lambda>d. opaque_name (str_of (get (data_of d) ''route_id''))) named);
          concrete = map note_route (filter (\<lambda>d. \<not> opaque_name (str_of (get (data_of d) ''route_id''))) named) in
      if opaque \<noteq> [] then Claim ''explicit_assignment'' ''Explicit concrete worker assignment'' CONTRADICTED opaque
      else if_observed ''explicit_assignment'' ''Explicit concrete worker assignment'' concrete)"

definition isolated_failure :: "obj list \<Rightarrow> obj \<Rightarrow> claim_evidence list option" where
  "isolated_failure events f =
     (let node = str_of (get f ''node_id''); category = str_of (get (data_of f) ''category'');
          later_work = filter (\<lambda>e. (is_type ''dispatch'' e \<or> is_type ''terminal'' e) \<and> seq_of e > seq_of f) events;
          finished = filter (\<lambda>e. seq_of e > seq_of f) (of_type ''run_finished'' events) in
      if node = [] \<or> prefix ''controller'' category \<or> later_work = [] \<or> finished = [] then None
      else Some [cite f (JObj [(''category'', JStr category), (''node_id'', JStr node)]),
        cite (hd later_work) (JObj [(''type'', get (hd later_work) ''type'')]),
        cite (last finished) (JObj [(''outcome'', get (data_of (last finished)) ''outcome'')])])"

definition claim_failure_isolated :: "obj list \<Rightarrow> claim" where
  "claim_failure_isolated events =
     if_observed ''failure_isolated'' ''Worker failure isolated from controller''
       (case List.map_filter (isolated_failure events) (of_type ''failure'' events) of [] \<Rightarrow> [] | ev # _ \<Rightarrow> ev)"

definition recorded_attempt_budget :: "obj list \<Rightarrow> (int \<times> evidence_source) option" where
  "recorded_attempt_budget events =
     (case List.map_filter (\<lambda>e.
          case object (get (data_of e) ''retry_budget'') of
            None \<Rightarrow> None
          | Some budget \<Rightarrow> map_option (\<lambda>n. (n, Event (seq_of e))) (int_of (get budget ''max_attempts_per_node'')))
        (of_type ''run_started'' events) of
        [] \<Rightarrow> None | b # _ \<Rightarrow> Some b)"

definition failed_before :: "obj list \<Rightarrow> obj \<Rightarrow> obj list" where
  "failed_before events r =
     filter (\<lambda>f. get f ''node_id'' = get r ''node_id'' \<and> seq_of f < seq_of r) (of_type ''failure'' events)"

definition recovered_after :: "obj list \<Rightarrow> obj \<Rightarrow> int \<Rightarrow> obj list" where
  "recovered_after events r attempt =
     filter (\<lambda>t. get t ''node_id'' = get r ''node_id'' \<and> seq_of t > seq_of r \<and>
       int_of (get (data_of t) ''attempt'') = Some attempt \<and> get (data_of t) ''ok'' = JBool True) (of_type ''terminal'' events)"

text \<open>The source of the budget is given by its event number.\<close>

definition source_json :: "evidence_source \<Rightarrow> json" where
  "source_json s = (case s of Event n \<Rightarrow> JInt n | Receipt f \<Rightarrow> JStr f)"

definition over_budget :: "obj list \<Rightarrow> int \<Rightarrow> obj \<Rightarrow> claim_evidence option" where
  "over_budget events budget r =
     (case int_of (get (data_of r) ''attempt'') of
        None \<Rightarrow> None
      | Some attempt \<Rightarrow>
          if failed_before events r \<noteq> [] \<and> attempt > budget
          then Some (cite r (JObj [(''attempt'', JInt attempt), (''max_attempts_per_node'', JInt budget)])) else None)"

definition within_budget :: "obj list \<Rightarrow> int \<times> evidence_source \<Rightarrow> obj \<Rightarrow> claim_evidence option" where
  "within_budget events budget r =
     (case int_of (get (data_of r) ''attempt'') of
        None \<Rightarrow> None
      | Some attempt \<Rightarrow>
          let failed = failed_before events r; recovered = recovered_after events r attempt; d = data_of r in
          if failed \<noteq> [] \<and> attempt \<le> fst budget \<and> recovered \<noteq> [] then
            Some (cite r (JObj [(''from_route'', get d ''from_route''), (''to_route'', get d ''to_route''), (''reason'', get d ''reason''),
              (''attempt'', JInt attempt), (''max_attempts_per_node'', JInt (fst budget)), (''budget_source'', source_json (snd budget)),
              (''failure_event'', JInt (seq_of (last failed))), (''terminal_event'', JInt (seq_of (hd recovered)))]))
          else None)"

definition claim_automatic_failover :: "obj list \<Rightarrow> claim" where
  "claim_automatic_failover events =
     (let cid = ''automatic_failover''; txt = ''Automatic bounded failover''; reassigns = of_type ''reassign'' events in
      case recorded_attempt_budget events of
        None \<Rightarrow> Claim cid txt NOT_OBSERVED []
      | Some budget \<Rightarrow>
          let over = List.map_filter (over_budget events (fst budget)) reassigns in
          if over \<noteq> [] then Claim cid txt CONTRADICTED over
          else if_observed cid txt (List.map_filter (within_budget events budget) reassigns))"

definition time_of :: "(string \<Rightarrow> rat option) \<Rightarrow> json \<Rightarrow> rat option" where
  "time_of parse_ts j = (if str_of j = [] then None else parse_ts (str_of j))"

definition claim_cooldown_recorded :: "(string \<Rightarrow> rat option) \<Rightarrow> obj list \<Rightarrow> claim" where
  "claim_cooldown_recorded parse_ts events =
     if_observed ''cooldown_recorded'' ''Cooldown recorded''
       (List.map_filter (\<lambda>c.
          let d = data_of c; key = str_of (get d ''key''); scope = str_of (get d ''scope'') in
          if key \<noteq> [] \<and> scope \<noteq> [] \<and>
             (case (time_of parse_ts (get d ''until''), time_of parse_ts (get c ''at'')) of
                (Some until, Some t) \<Rightarrow> until > t | _ \<Rightarrow> False)
          then Some (cite c (JObj [(''key'', JStr key), (''scope'', JStr scope), (''until'', get d ''until'')])) else None)
        (of_type ''cooldown'' events))"


subsection \<open>Context, replacement and validation claims\<close>

definition hydration_sizes :: "obj \<Rightarrow> (int \<times> int) option" where
  "hydration_sizes h =
     (case (int_of (get (data_of h) ''budget_bytes''), int_of (get (data_of h) ''prompt_bytes'')) of
        (Some budget, Some prompt) \<Rightarrow> Some (budget, prompt) | _ \<Rightarrow> None)"

definition hydration_evidence :: "obj \<Rightarrow> int \<times> int \<Rightarrow> claim_evidence" where
  "hydration_evidence h sizes =
     cite h (JObj [(''budget_bytes'', JInt (fst sizes)), (''prompt_bytes'', JInt (snd sizes)),
       (''within_budget'', JBool (snd sizes \<le> fst sizes))])"

definition hydrations :: "obj list \<Rightarrow> obj list" where
  "hydrations events = filter (\<lambda>h. is_type ''hydrate'' h \<or> is_type ''rehydrate'' h) events"

definition claim_context_within_budget :: "obj list \<Rightarrow> claim" where
  "claim_context_within_budget events =
     (let cid = ''context_within_budget''; txt = ''Context assembled within budget'';
          hs = hydrations events;
          recorded = List.map_filter (\<lambda>h. map_option (hydration_evidence h) (hydration_sizes h)) hs;
          missing = map (\<lambda>h. cite h (JObj [(''node_id'', get h ''node_id''), (''recorded'', JBool False)]))
            (filter (\<lambda>h. hydration_sizes h = None) hs);
          exceeded = List.map_filter (\<lambda>h. case hydration_sizes h of
              Some (budget, prompt) \<Rightarrow> if prompt > budget then Some (hydration_evidence h (budget, prompt)) else None
            | None \<Rightarrow> None) hs in
      if exceeded \<noteq> [] then Claim cid txt CONTRADICTED exceeded
      else if recorded \<noteq> [] \<and> missing = [] then Claim cid txt VERIFIED recorded
      else if recorded \<noteq> [] then
        Claim cid (txt @ '' (only '' @ str_of_nat (length recorded) @ '' of '' @ str_of_nat (length recorded + length missing) @
          '' hydrations recorded)'') NOT_OBSERVED (recorded @ missing)
      else Claim cid txt NOT_OBSERVED missing)"

definition executed_identity :: "obj \<Rightarrow> string" where
  "executed_identity t =
     (let model = str_of (get (data_of t) ''reported_model'') in if model = MECHANICAL_MODEL then [] else model)"

text \<open>A word of a command that is no text is printed by \<open>str\<close>; such a print is neither empty nor marks a missing check.\<close>

definition command_word :: "json \<Rightarrow> string" where
  "command_word j = (case j of JStr s \<Rightarrow> s | _ \<Rightarrow> ''value'')"

definition real_command :: "json \<Rightarrow> bool" where
  "real_command j =
     (let checks = (\<lambda>command. py_strip command \<noteq> [] \<and> \<not> prefix NO_CHECK_PREFIX (py_strip command)) in
      case j of JList ws \<Rightarrow> checks (py_join '' '' (map command_word ws)) | JStr s \<Rightarrow> checks s | _ \<Rightarrow> False)"

definition attempt_of :: "obj \<Rightarrow> int option" where
  "attempt_of e = int_of (get (data_of e) ''attempt'')"

text \<open>The identities of a failed attempt, and the checks of a node after an event.\<close>

definition failed_identities :: "obj list \<Rightarrow> obj \<Rightarrow> int \<Rightarrow> string list" where
  "failed_identities node_events f attempt =
     filter (\<lambda>r. r \<noteq> []) (str_of (get (data_of f) ''route_id'') #
       map executed_identity (filter (\<lambda>t. attempt_of t = Some attempt) (of_type ''terminal'' node_events)))"

definition checks_after :: "obj list \<Rightarrow> obj \<Rightarrow> obj list" where
  "checks_after node_events t =
     filter (\<lambda>v. seq_of v > seq_of t \<and> get (data_of v) ''ok'' = JBool True \<and> real_command (get (data_of v) ''command''))
       (of_type ''verify'' node_events)"

definition replaces :: "obj list \<Rightarrow> obj \<Rightarrow> int \<Rightarrow> obj \<Rightarrow> bool" where
  "replaces node_events f attempt t \<longleftrightarrow>
     is_type ''terminal'' t \<and> seq_of t > seq_of f \<and> (case attempt_of t of Some n \<Rightarrow> n > attempt | None \<Rightarrow> False) \<and>
     get (data_of t) ''ok'' = JBool True \<and> executed_identity t \<noteq> [] \<and> failed_identities node_events f attempt \<noteq> [] \<and>
     executed_identity t \<notin> set (failed_identities node_events f attempt) \<and> checks_after node_events t \<noteq> []"

definition replacement_of :: "string \<Rightarrow> obj list \<Rightarrow> obj \<Rightarrow> claim_evidence option" where
  "replacement_of node node_events f =
     (case attempt_of f of
        None \<Rightarrow> None
      | Some attempt \<Rightarrow>
          map_option (\<lambda>t. cite t (JObj [(''node_id'', JStr node),
              (''failed_routes'', JList (map JStr (sorted_set (failed_identities node_events f attempt)))),
              (''success_route'', JStr (executed_identity t)), (''failed_attempt'', JInt attempt),
              (''success_attempt'', get (data_of t) ''attempt''),
              (''verify_event'', JInt (seq_of (hd (checks_after node_events t)))), (''final_state'', JStr ''VALIDATED'')]))
            (List.find (replaces node_events f attempt) node_events))"

definition claim_replacement_completed :: "obj list \<Rightarrow> claim" where
  "claim_replacement_completed events =
     (let nodes = sorted_set (filter (\<lambda>n. n \<noteq> []) (map (\<lambda>e. str_of (get e ''node_id'')) (of_type ''failure'' events))) in
      if_observed ''replacement_completed'' ''Replacement completed successfully on alternate route''
        (concat (map (\<lambda>node.
           let node_events = filter (\<lambda>e. get e ''node_id'' = JStr node) events in
           List.map_filter (replacement_of node node_events) (of_type ''failure'' node_events)) nodes)))"

definition last_checks :: "obj list \<Rightarrow> (string, obj) dict" where
  "last_checks events = foldl (\<lambda>d v. dict_put (str_of (get v ''node_id'')) v d) [] (of_type ''verify'' events)"

definition claim_validation_passed :: "obj list \<Rightarrow> claim" where
  "claim_validation_passed events =
     (let cid = ''validation_passed''; txt = ''Validation passed''; checks = map snd (last_checks events);
          failed = filter (\<lambda>v. get (data_of v) ''ok'' \<noteq> JBool True) checks in
      if failed \<noteq> [] then
        Claim cid txt CONTRADICTED
          (map (\<lambda>v. cite v (JObj [(''node_id'', get v ''node_id''), (''ok'', get (data_of v) ''ok'')])) failed)
      else if_observed cid txt
        (map (\<lambda>v. cite v (JObj [(''node_id'', get v ''node_id''), (''command'', get (data_of v) ''command'')]))
          (filter (\<lambda>v. real_command (get (data_of v) ''command'')) checks)))"


subsection \<open>The claim of an independent review\<close>

definition executed_as :: "obj list \<Rightarrow> obj \<Rightarrow> string list" where
  "executed_as events d =
     filter (\<lambda>m. m \<noteq> []) (map executed_identity
       (filter (\<lambda>t. get t ''node_id'' = get d ''node_id'' \<and> attempt_of t = attempt_of d) (of_type ''terminal'' events)))"

definition receipt_identities :: "obj \<Rightarrow> string list" where
  "receipt_identities receipt =
     concat (map (\<lambda>node. concat (map (\<lambda>a. [str_of (get a ''route_id''), str_of (get a ''executed_model'')])
       (objects (get node ''attempts'')))) (objects (get receipt ''nodes'')))"

definition worker_identities :: "obj list \<Rightarrow> obj \<Rightarrow> string list" where
  "worker_identities events receipt =
     filter (\<lambda>i. i \<noteq> [])
       (concat (map (\<lambda>d. executed_as events d @ [str_of (get (data_of d) ''route_id'')]) (of_type ''dispatch'' events)) @
        receipt_identities receipt)"

definition reviewer_identities :: "obj list \<Rightarrow> string \<Rightarrow> string list" where
  "reviewer_identities events reviewer =
     reviewer # filter (\<lambda>r. r \<noteq> []) (map (\<lambda>a. str_of (get (data_of a) ''route_id'')) (of_type ''review_attempt'' events))"

definition shared :: "string list \<Rightarrow> string list \<Rightarrow> string list" where
  "shared xs ys = sorted_set (filter (\<lambda>x. x \<in> set ys) xs)"

text \<open>The judgement of a passing review without blocking findings.\<close>

definition judge_independence :: "obj list \<Rightarrow> obj \<Rightarrow> obj \<Rightarrow> claim_status \<times> claim_evidence list" where
  "judge_independence events receipt review =
     (let reviewers = reviewer_identities events (str_of (get (data_of review) ''route_id''));
          workers = worker_identities events receipt;
          terminal_seqs = List.map_filter (\<lambda>t. int_of (get t ''seq'')) (of_type ''terminal'' events);
          same = shared reviewers workers;
          families = shared (map route_family reviewers) (map route_family workers);
          pools = shared (aliased_pools_for reviewers) (aliased_pools_for workers);
          value = JObj [(''reviewer_routes'', JList (map JStr (sorted_set reviewers))),
            (''worker_identities'', JList (map JStr (sorted_set workers))), (''shared_identities'', JList (map JStr same)),
            (''shared_families'', JList (map JStr families)), (''shared_pools'', JList (map JStr pools))] in
      if list_ex (\<lambda>d. executed_as events d = []) (of_type ''dispatch'' events) then (NOT_OBSERVED, [])
      else if workers = [] then (NOT_OBSERVED, [])
      else if (case int_of (get review ''seq'') of None \<Rightarrow> True | Some n \<Rightarrow> list_ex (\<lambda>t. n \<le> t) terminal_seqs)
      then (NOT_OBSERVED, [cite review (JObj [(''review_seq'', (case int_of (get review ''seq'') of Some n \<Rightarrow> JInt n | None \<Rightarrow> JNull))])])
      else if same \<noteq> [] then (CONTRADICTED, [cite review value])
      else if families \<noteq> [] \<or> pools \<noteq> [] then (NOT_OBSERVED, [cite review value])
      else (VERIFIED, [cite review value]))"

definition claim_independent_review :: "obj \<Rightarrow> obj list \<Rightarrow> claim" where
  "claim_independent_review receipt events =
     (let reviews = of_type ''review'' events;
          (status, evidence) =
            (if reviews = [] then (NOT_OBSERVED, [])
             else
               let review = last reviews; rd = data_of review in
               if get rd ''status'' \<noteq> JStr ''PASS'' \<or> str_of (get rd ''route_id'') = [] then (NOT_OBSERVED, [])
               else case int_of (get rd ''blocking'') of
                 None \<Rightarrow> (NOT_OBSERVED, [])
               | Some n \<Rightarrow>
                   if n > 0 then (CONTRADICTED, [cite review (JObj [(''blocking'', JInt n)])])
                   else judge_independence events receipt review) in
      Claim ''independent_review'' ''Independent review passed'' status evidence)"


subsection \<open>All claims\<close>

text \<open>The run directory: its receipt and events, if they can be read, and the problems that \<open>verify_run_receipt\<close> reports.\<close>

record run_directory =
  rd_files :: "(json \<times> json list) option"
  rd_problems :: "string list"

definition claim_receipt_integrity :: "json list \<Rightarrow> obj \<Rightarrow> run_directory option \<Rightarrow> claim" where
  "claim_receipt_integrity events receipt dir =
     (let cid = ''receipt_integrity''; txt = ''Receipt integrity verified'' in
      case dir of
        None \<Rightarrow> Claim cid txt NOT_OBSERVED []
      | Some rd \<Rightarrow>
          let problems = (case rd_files rd of
                None \<Rightarrow> [''cannot read run_dir evidence'']
              | Some (stored_receipt, stored_events) \<Rightarrow>
                  (if json_eq (JObj receipt) stored_receipt then [] else [''supplied receipt differs from run_dir receipt.json'']) @
                  (if json_eq (JList events) (JList stored_events) then [] else [''supplied events differ from run_dir events.jsonl'']))
                @ rd_problems rd in
          Claim cid txt (if problems = [] then VERIFIED else CONTRADICTED)
            [\<lparr> ce_source = Receipt ''verify'', ce_value = JObj [(''problems'', JList (map JStr problems))] \<rparr>])"

definition CLAIM_PREDICATES :: "(string \<Rightarrow> rat option) \<Rightarrow> obj \<Rightarrow> (obj list \<Rightarrow> claim) list" where
  "CLAIM_PREDICATES parse_ts receipt =
     [claim_task_aware_selection, claim_capability_filtering, claim_health_considered, claim_explicit_assignment,
      claim_failure_isolated, claim_automatic_failover, claim_cooldown_recorded parse_ts, claim_context_within_budget,
      claim_replacement_completed, claim_validation_passed, claim_independent_review receipt]"

definition derive_claims :: "(string \<Rightarrow> rat option) \<Rightarrow> json list \<Rightarrow> obj \<Rightarrow> run_directory option \<Rightarrow> claim list" where
  "derive_claims parse_ts events receipt dir =
     (let ordered = ordered_events (List.map_filter object events) in
      map (\<lambda>pred. pred ordered) (CLAIM_PREDICATES parse_ts receipt) @ [claim_receipt_integrity events receipt dir])"


subsection \<open>Verified claims cite recorded events\<close>

definition cited :: "obj list \<Rightarrow> claim_evidence \<Rightarrow> bool" where
  "cited events ev \<longleftrightarrow> (\<exists>e\<in>set events. ce_source ev = Event (seq_of e))"

definition grounded :: "obj list \<Rightarrow> claim \<Rightarrow> bool" where
  "grounded events c \<longleftrightarrow> (clm_status c = VERIFIED \<longrightarrow> clm_evidence c \<noteq> [] \<and> (\<forall>ev\<in>set (clm_evidence c). cited events ev))"

lemma Claim_fields [simp]:
  "clm_id (Claim cid txt status evidence) = cid" "clm_status (Claim cid txt status evidence) = status"
  "clm_evidence (Claim cid txt status evidence) = evidence"
  by (simp_all add: Claim_def)

lemma cited_cite [intro]: "e \<in> set events \<Longrightarrow> cited events (cite e v)"
  by (auto simp: cited_def cite_def)

lemma of_type_mem [simp]: "e \<in> set (of_type t events) \<longleftrightarrow> e \<in> set events \<and> is_type t e"
  by (auto simp: of_type_def)

lemma grounded_unverified: "status \<noteq> VERIFIED \<Longrightarrow> grounded events (Claim cid txt status evidence)"
  by (simp add: grounded_def)

lemma grounded_verified:
  "evidence \<noteq> [] \<Longrightarrow> (\<And>ev. ev \<in> set evidence \<Longrightarrow> cited events ev) \<Longrightarrow> grounded events (Claim cid txt VERIFIED evidence)"
  by (simp add: grounded_def)

lemma if_observed_fields [simp]:
  "clm_id (if_observed cid txt evidence) = cid" "clm_evidence (if_observed cid txt evidence) = evidence"
  "clm_status (if_observed cid txt evidence) = (if evidence = [] then NOT_OBSERVED else VERIFIED)"
  by (simp_all add: if_observed_def)

lemma grounded_if_observed: "(\<And>ev. ev \<in> set evidence \<Longrightarrow> cited events ev) \<Longrightarrow> grounded events (if_observed cid txt evidence)"
  by (simp add: grounded_def)

lemma grounded_map_filter:
  assumes "\<And>e ev. e \<in> set xs \<Longrightarrow> f e = Some ev \<Longrightarrow> cited events ev"
  shows "grounded events (if_observed cid txt (List.map_filter f xs))"
proof (rule grounded_if_observed)
  fix ev
  assume "ev \<in> set (List.map_filter f xs)"
  then obtain e where "e \<in> set xs" "f e = Some ev" by (rule map_filterE)
  then show "cited events ev" by (rule assms)
qed

lemma task_aware_grounded: "grounded events (claim_task_aware_selection events)"
  unfolding claim_task_aware_selection_def
  by (rule grounded_map_filter) (auto simp: selection_evidence_def Let_def split: option.splits if_splits)

lemma capability_grounded: "grounded events (claim_capability_filtering events)"
  unfolding claim_capability_filtering_def
  by (rule grounded_map_filter) (auto simp: Let_def split: if_splits)

lemma last_of_filter: "filter P xs \<noteq> [] \<Longrightarrow> last (filter P xs) \<in> set xs \<and> P (last (filter P xs))"
  using last_in_set [of "filter P xs"] by auto

lemma health_result_cited:
  assumes "health_result_of events s = Some ev"
  shows "cited events ev"
proof -
  define route where "route = str_of (get (data_of s) ''route_id'')"
  have "last (ok_probes events s route) \<in> set events" if "ok_probes events s route \<noteq> []"
    using last_in_set [OF that] by (simp add: ok_probes_def)
  moreover have "cited events (last (probed_healthy events s route))" if "probed_healthy events s route \<noteq> []"
    using last_in_set [OF that] by (auto simp: probed_healthy_def split: option.splits if_splits)
  ultimately show ?thesis using assms by (auto simp: health_result_of_def Let_def route_def split: if_splits)
qed

lemma health_loop_cited:
  "health_loop events ss acc = (status, evidence) \<Longrightarrow> (\<And>ev. ev \<in> set acc \<Longrightarrow> cited events ev) \<Longrightarrow>
     ss \<noteq> [] \<or> acc \<noteq> [] \<Longrightarrow> status = VERIFIED \<Longrightarrow> evidence \<noteq> [] \<and> (\<forall>ev\<in>set evidence. cited events ev)"
proof (induction ss arbitrary: acc)
  case (Cons s ss)
  then obtain ev where ev: "health_result_of events s = Some ev" by (auto split: option.splits)
  from Cons.prems(1) ev have "health_loop events ss (acc @ [ev]) = (status, evidence)" by simp
  from Cons.IH [OF this] Cons.prems(2,4) health_result_cited [OF ev] show ?case by auto
qed simp

lemma health_grounded: "grounded events (claim_health_considered events)"
proof (cases "of_type ''selection'' events = []")
  case True
  then show ?thesis by (simp add: claim_health_considered_def grounded_def)
next
  case False
  obtain status evidence where l: "health_loop events (of_type ''selection'' events) [] = (status, evidence)" by fastforce
  from health_loop_cited [OF this] False show ?thesis by (simp add: claim_health_considered_def l grounded_def)
qed

lemma assignment_grounded: "grounded events (claim_explicit_assignment events)"
  unfolding claim_explicit_assignment_def Let_def
  by (simp add: grounded_unverified) (auto intro!: grounded_if_observed)

lemma isolated_grounded: "grounded events (claim_failure_isolated events)"
  unfolding claim_failure_isolated_def
proof (rule grounded_if_observed)
  fix ev
  assume "ev \<in> set (case List.map_filter (isolated_failure events) (of_type ''failure'' events) of [] \<Rightarrow> [] | evs # _ \<Rightarrow> evs)"
  then obtain evs where evs: "evs \<in> set (List.map_filter (isolated_failure events) (of_type ''failure'' events))" "ev \<in> set evs"
    by (cases "List.map_filter (isolated_failure events) (of_type ''failure'' events)") auto
  from evs(1) obtain f where f: "f \<in> set (of_type ''failure'' events)" "isolated_failure events f = Some evs" by (rule map_filterE)
  let ?later = "filter (\<lambda>e. (is_type ''dispatch'' e \<or> is_type ''terminal'' e) \<and> seq_of e > seq_of f) events"
  let ?finished = "filter (\<lambda>e. seq_of e > seq_of f) (of_type ''run_finished'' events)"
  have "?later \<noteq> []" "?finished \<noteq> []" using f(2) by (auto simp: isolated_failure_def Let_def split: if_splits)
  then have "hd ?later \<in> set events" "last ?finished \<in> set events"
    using hd_in_set [of ?later] last_of_filter [of _ "of_type ''run_finished'' events"] by (fastforce)+
  with f evs(2) show "cited events ev" by (auto simp: isolated_failure_def Let_def split: if_splits)
qed

lemma failover_grounded: "grounded events (claim_automatic_failover events)"
proof (cases "recorded_attempt_budget events")
  case None
  then show ?thesis by (simp add: claim_automatic_failover_def grounded_def)
next
  case (Some budget)
  have "grounded events (if_observed cid label (List.map_filter (within_budget events budget) (of_type ''reassign'' events)))" for cid label
    by (rule grounded_map_filter) (auto simp: within_budget_def Let_def split: option.splits if_splits)
  with Some show ?thesis by (simp add: claim_automatic_failover_def Let_def grounded_unverified)
qed

lemma cooldown_grounded: "grounded events (claim_cooldown_recorded parse_ts events)"
  unfolding claim_cooldown_recorded_def
  by (rule grounded_map_filter) (auto simp: Let_def split: if_splits)

lemma context_grounded: "grounded events (claim_context_within_budget events)"
proof -
  have "cited events ev" if "ev \<in> set (List.map_filter (\<lambda>h. map_option (hydration_evidence h) (hydration_sizes h)) (hydrations events))" for ev
    using that by (rule map_filterE) (auto simp: hydration_evidence_def hydrations_def)
  then show ?thesis
    unfolding claim_context_within_budget_def Let_def by (simp add: grounded_unverified) (auto intro!: grounded_verified)
qed

lemma replacement_cited:
  assumes "replacement_of node (filter P events) f = Some ev"
  shows "cited events ev"
proof -
  from assms obtain attempt t where t: "List.find (replaces (filter P events) f attempt) (filter P events) = Some t"
    and ev: "ce_source ev = Event (seq_of t)"
    by (auto simp: replacement_of_def cite_def split: option.splits)
  from t have "t \<in> set (filter P events)" by (auto simp: find_Some_iff simp del: set_filter)
  with ev show ?thesis by (auto simp: cited_def)
qed

lemma replacement_grounded: "grounded events (claim_replacement_completed events)"
  unfolding claim_replacement_completed_def Let_def
  by (rule grounded_if_observed) (auto elim!: map_filterE dest: replacement_cited)

lemma dict_put_values: "(a, b) \<in> set (dict_put k v d) \<Longrightarrow> b = v \<or> (a, b) \<in> set d"
  by (induction d) (auto split: if_splits)

lemma last_checks_subset: "(n, v) \<in> set (last_checks events) \<Longrightarrow> v \<in> set (of_type ''verify'' events)"
proof -
  have "(n, v) \<in> set (foldl (\<lambda>d v. dict_put (str_of (get v ''node_id'')) v d) d vs) \<Longrightarrow> (n, v) \<in> set d \<or> v \<in> set vs" for d vs
    by (induction vs arbitrary: d) (auto dest: dict_put_values)
  from this [of "[]" "of_type ''verify'' events"] show "(n, v) \<in> set (last_checks events) \<Longrightarrow> v \<in> set (of_type ''verify'' events)"
    by (simp add: last_checks_def)
qed

lemma validation_grounded: "grounded events (claim_validation_passed events)"
proof -
  have "cited events (cite v j)" if "(n, v) \<in> set (last_checks events)" for n v j
    using last_checks_subset [OF that] by auto
  then show ?thesis
    unfolding claim_validation_passed_def Let_def by (simp add: grounded_unverified) (auto intro!: grounded_if_observed)
qed

lemma review_grounded: "grounded events (claim_independent_review receipt events)"
proof (cases "of_type ''review'' events = []")
  case True
  then show ?thesis by (simp add: claim_independent_review_def grounded_def)
next
  case False
  then have "last (of_type ''review'' events) \<in> set events" using last_in_set by fastforce
  with False show ?thesis
    by (auto simp: claim_independent_review_def judge_independence_def grounded_def Let_def split: option.splits)
qed


lemmas all_grounded = task_aware_grounded capability_grounded health_grounded assignment_grounded isolated_grounded
  failover_grounded cooldown_grounded context_grounded replacement_grounded validation_grounded review_grounded

lemma predicates_grounded: "pred \<in> set (CLAIM_PREDICATES parse_ts receipt) \<Longrightarrow> grounded events (pred events)"
  by (auto simp: CLAIM_PREDICATES_def intro: all_grounded)


subsection \<open>The last check of a node\<close>

lemma last_checks_map_of:
  "map_of (last_checks events) node =
     (case filter (\<lambda>v. str_of (get v ''node_id'') = node) (of_type ''verify'' events) of [] \<Rightarrow> None | vs \<Rightarrow> Some (last vs))"
proof -
  have "map_of (foldl (\<lambda>d v. dict_put (str_of (get v ''node_id'')) v d) d vs) node =
      (case filter (\<lambda>v. str_of (get v ''node_id'') = node) vs of [] \<Rightarrow> map_of d node | ws \<Rightarrow> Some (last ws))" for d vs
    by (induction vs arbitrary: d) (auto simp: map_of_dict_put split: list.split)
  then show ?thesis by (simp add: last_checks_def split: list.split)
qed

lemma last_checks_wf: "dict_wf (last_checks events)"
proof -
  have "dict_wf d \<Longrightarrow> dict_wf (foldl (\<lambda>d v. dict_put (str_of (get v ''node_id'')) v d) d vs)" for d vs
    by (induction vs arbitrary: d) (simp_all add: dict_wf_put)
  from this [of "[]"] show ?thesis by (simp add: last_checks_def dict_wf_def)
qed

text \<open>The last check that the log has for a node.\<close>

definition is_last_check :: "obj list \<Rightarrow> string \<Rightarrow> obj \<Rightarrow> bool" where
  "is_last_check events node v \<longleftrightarrow>
     (\<exists>earlier later. of_type ''verify'' events = earlier @ v # later \<and> str_of (get v ''node_id'') = node \<and>
        (\<forall>x\<in>set later. str_of (get x ''node_id'') \<noteq> node))"

lemma last_filter_split: "filter P xs = ws \<Longrightarrow> ws \<noteq> [] \<Longrightarrow> \<exists>us vs. xs = us @ last ws # vs \<and> P (last ws) \<and> (\<forall>x\<in>set vs. \<not> P x)"
proof (induction xs arbitrary: ws rule: rev_induct)
  case (snoc x xs)
  show ?case
  proof (cases "P x")
    case True
    with snoc.prems show ?thesis by (intro exI [of _ xs] exI [of _ "[]"]) auto
  next
    case False
    with snoc obtain us vs where "xs = us @ last ws # vs \<and> P (last ws) \<and> (\<forall>x\<in>set vs. \<not> P x)" by force
    with False show ?thesis by (intro exI [of _ us] exI [of _ "vs @ [x]"]) auto
  qed
qed simp

lemma last_checks_iff: "(node, v) \<in> set (last_checks events) \<longleftrightarrow> is_last_check events node v"
proof -
  let ?vs = "filter (\<lambda>v. str_of (get v ''node_id'') = node) (of_type ''verify'' events)"
  have "(node, v) \<in> set (last_checks events) \<longleftrightarrow> map_of (last_checks events) node = Some v"
    using last_checks_wf [of events] by (simp add: dict_wf_def)
  also have "\<dots> \<longleftrightarrow> ?vs \<noteq> [] \<and> v = last ?vs"
    unfolding last_checks_map_of by (cases ?vs) auto
  also have "\<dots> \<longleftrightarrow> is_last_check events node v"
  proof
    assume "?vs \<noteq> [] \<and> v = last ?vs"
    with last_filter_split [OF refl, of "\<lambda>v. str_of (get v ''node_id'') = node" "of_type ''verify'' events"]
    show "is_last_check events node v" by (auto simp: is_last_check_def)
  next
    assume "is_last_check events node v"
    then obtain earlier later where "of_type ''verify'' events = earlier @ v # later" "str_of (get v ''node_id'') = node"
      "filter (\<lambda>v. str_of (get v ''node_id'') = node) later = []" by (auto simp: is_last_check_def filter_empty_conv)
    then show "?vs \<noteq> [] \<and> v = last ?vs" by simp
  qed
  finally show ?thesis .
qed


subsection \<open>Who worked\<close>

text \<open>An identity that a worker used: a model that executed a dispatched attempt, the route of a dispatch, or a route or
  model of an attempt in the receipt.\<close>

definition worked_as :: "obj list \<Rightarrow> obj \<Rightarrow> string \<Rightarrow> bool" where
  "worked_as events receipt i \<longleftrightarrow> i \<noteq> [] \<and>
     ((\<exists>d\<in>set (of_type ''dispatch'' events). get (data_of d) ''route_id'' = JStr i \<or>
        (\<exists>t\<in>set (of_type ''terminal'' events). get t ''node_id'' = get d ''node_id'' \<and> attempt_of t = attempt_of d \<and>
           get (data_of t) ''reported_model'' = JStr i \<and> i \<noteq> MECHANICAL_MODEL)) \<or>
      (\<exists>node\<in>set (objects (get receipt ''nodes'')). \<exists>a\<in>set (objects (get node ''attempts'')).
         get a ''route_id'' = JStr i \<or> get a ''executed_model'' = JStr i))"

text \<open>An identity of the reviewer: the route of the review, or of any attempt at a review.\<close>

definition reviewed_as :: "obj list \<Rightarrow> obj \<Rightarrow> string \<Rightarrow> bool" where
  "reviewed_as events review i \<longleftrightarrow> i \<noteq> [] \<and>
     (get (data_of review) ''route_id'' = JStr i \<or>
      (\<exists>a\<in>set (of_type ''review_attempt'' events). get (data_of a) ''route_id'' = JStr i))"

lemma str_of_eq: "i \<noteq> [] \<Longrightarrow> str_of j = i \<longleftrightarrow> j = JStr i"
  by (auto simp: str_of_def split: json.splits)

lemma executed_identity_eq:
  "i \<noteq> [] \<Longrightarrow> executed_identity t = i \<longleftrightarrow> get (data_of t) ''reported_model'' = JStr i \<and> i \<noteq> MECHANICAL_MODEL"
  using str_of_eq [of i "get (data_of t) ''reported_model''"] by (auto simp: executed_identity_def Let_def)

lemma worker_identities_iff: "i \<in> set (worker_identities events receipt) \<longleftrightarrow> worked_as events receipt i"
proof (cases "i = []")
  case False
  have executed: "i \<in> set (executed_as events d) \<longleftrightarrow>
      (\<exists>t\<in>set (of_type ''terminal'' events). get t ''node_id'' = get d ''node_id'' \<and> attempt_of t = attempt_of d \<and> executed_identity t = i)" for d
    using False by (auto simp: executed_as_def)
  have recorded: "i \<in> set (receipt_identities receipt) \<longleftrightarrow>
      (\<exists>node\<in>set (objects (get receipt ''nodes'')). \<exists>a\<in>set (objects (get node ''attempts'')).
         str_of (get a ''route_id'') = i \<or> str_of (get a ''executed_model'') = i)"
    by (auto simp: receipt_identities_def)
  have "i \<in> set (worker_identities events receipt) \<longleftrightarrow>
      (\<exists>d\<in>set (of_type ''dispatch'' events). str_of (get (data_of d) ''route_id'') = i \<or> i \<in> set (executed_as events d)) \<or>
      i \<in> set (receipt_identities receipt)"
    using False by (auto simp: worker_identities_def)
  then show ?thesis unfolding executed recorded using False by (simp add: worked_as_def str_of_eq executed_identity_eq)
qed (simp add: worker_identities_def worked_as_def)

lemma reviewer_identities_iff:
  assumes "str_of (get (data_of review) ''route_id'') \<noteq> []"
  shows "set (reviewer_identities events (str_of (get (data_of review) ''route_id''))) = {i. reviewed_as events review i}"
proof (rule set_eqI)
  fix i
  show "i \<in> set (reviewer_identities events (str_of (get (data_of review) ''route_id''))) \<longleftrightarrow> i \<in> {i. reviewed_as events review i}"
  proof (cases "i = []")
    case True
    then show ?thesis using assms by (auto simp: reviewer_identities_def reviewed_as_def)
  next
    case False
    then have "(i = str_of j) = (j = JStr i)" for j using str_of_eq [of i j] by auto
    then show ?thesis using False by (auto simp: reviewer_identities_def reviewed_as_def image_iff)
  qed
qed


section \<open>Properties\<close>

text \<open>C24. Nothing is claimed without evidence: every verified claim other than the integrity of the receipt carries at
  least one piece of evidence, and each piece is the number of an event that the log holds.\<close>

theorem verified_claims_cite_events:
  assumes "c \<in> set (derive_claims parse_ts events receipt dir)" "clm_status c = VERIFIED" "clm_id c \<noteq> ''receipt_integrity''"
  shows "clm_evidence c \<noteq> [] \<and>
    (\<forall>ev\<in>set (clm_evidence c). \<exists>e. JObj e \<in> set events \<and> ce_source ev = Event (seq_of e))"
proof -
  let ?ordered = "ordered_events (List.map_filter object events)"
  have "clm_id (claim_receipt_integrity events receipt dir) = ''receipt_integrity''"
    by (auto simp: claim_receipt_integrity_def Let_def split: option.split)
  with assms(1,3) obtain pred where "pred \<in> set (CLAIM_PREDICATES parse_ts receipt)" "c = pred ?ordered"
    by (auto simp: derive_claims_def Let_def)
  with predicates_grounded have "grounded ?ordered c" by blast
  moreover have "JObj e \<in> set events" if "e \<in> set ?ordered" for e
  proof -
    from that have "e \<in> set (List.map_filter object events)" by (simp add: ordered_events_def)
    then obtain j where "j \<in> set events" "object j = Some e" by (rule map_filterE)
    then show ?thesis by (auto simp: object_def split: json.splits)
  qed
  ultimately show ?thesis using assms(2) by (fastforce simp: grounded_def cited_def)
qed

text \<open>C25. A review is claimed to be independent only when the last review passed without blocking findings after every
  terminal of a worker, every dispatch has an executed identity, and the reviewer shares no identity, no model
  family and no aliased pool with any worker of the log or of the receipt.\<close>

theorem independent_review_is_independent:
  assumes "clm_status (claim_independent_review receipt events) = VERIFIED"
  shows "\<exists>review n reviewers. review = last (of_type ''review'' events) \<and> get (data_of review) ''status'' = JStr ''PASS'' \<and>
    (\<exists>b. int_of (get (data_of review) ''blocking'') = Some b \<and> b \<le> 0) \<and> int_of (get review ''seq'') = Some n \<and>
    (\<forall>t\<in>set (of_type ''terminal'' events). \<forall>m. int_of (get t ''seq'') = Some m \<longrightarrow> m < n) \<and>
    (\<forall>d\<in>set (of_type ''dispatch'' events). executed_as events d \<noteq> []) \<and>
    reviewers = reviewer_identities events (str_of (get (data_of review) ''route_id'')) \<and>
    set reviewers = {i. reviewed_as events review i} \<and>
    set reviewers \<inter> {i. worked_as events receipt i} = {} \<and>
    route_family ` set reviewers \<inter> route_family ` {i. worked_as events receipt i} = {} \<and>
    set (aliased_pools_for reviewers) \<inter> set (aliased_pools_for (worker_identities events receipt)) = {}"
proof -
  define review where "review = last (of_type ''review'' events)"
  define reviewers where "reviewers = reviewer_identities events (str_of (get (data_of review) ''route_id''))"
  have judged: "fst (judge_independence events receipt review) = VERIFIED" "get (data_of review) ''status'' = JStr ''PASS''"
    "\<exists>b. int_of (get (data_of review) ''blocking'') = Some b \<and> b \<le> 0"
    using assms by (auto simp: claim_independent_review_def review_def Let_def split_def split: if_splits option.splits)
  have asked: "set reviewers = {i. reviewed_as events review i}"
    unfolding reviewers_def using assms
    by (intro reviewer_identities_iff) (auto simp: claim_independent_review_def review_def Let_def split_def split: if_splits)
  have disjoint: "shared xs ys = [] \<longleftrightarrow> set xs \<inter> set ys = {}" for xs ys
  proof -
    have "set (shared xs ys) = set xs \<inter> set ys" by (auto simp: shared_def)
    then show ?thesis by (metis set_empty)
  qed
  from judged(1) obtain n where "int_of (get review ''seq'') = Some n"
    "\<not> list_ex (\<lambda>t. n \<le> t) (List.map_filter (\<lambda>t. int_of (get t ''seq'')) (of_type ''terminal'' events))"
    "\<not> list_ex (\<lambda>d. executed_as events d = []) (of_type ''dispatch'' events)"
    "shared reviewers (worker_identities events receipt) = []"
    "shared (map route_family reviewers) (map route_family (worker_identities events receipt)) = []"
    "shared (aliased_pools_for reviewers) (aliased_pools_for (worker_identities events receipt)) = []"
    by (auto simp: judge_independence_def reviewers_def Let_def split: if_splits option.splits)
  moreover have "{i. worked_as events receipt i} = set (worker_identities events receipt)"
    using worker_identities_iff by blast
  ultimately show ?thesis
    using judged(2,3) asked unfolding disjoint
    by (intro exI [of _ review] exI [of _ n] exI [of _ reviewers])
      (auto simp: review_def reviewers_def list_ex_iff not_le intro: in_map_filter)
qed

text \<open>Validation is claimed exactly when the last check of every checked node passed and at least one of these
  checks ran a real command; a node whose last check failed contradicts the claim.\<close>

theorem validation_claim_exact:
  "(clm_status (claim_validation_passed events) = VERIFIED \<longleftrightarrow>
      (\<nexists>node v. is_last_check events node v \<and> get (data_of v) ''ok'' \<noteq> JBool True) \<and>
      (\<exists>node v. is_last_check events node v \<and> real_command (get (data_of v) ''command''))) \<and>
   (clm_status (claim_validation_passed events) = CONTRADICTED \<longleftrightarrow>
      (\<exists>node v. is_last_check events node v \<and> get (data_of v) ''ok'' \<noteq> JBool True))"
proof -
  let ?checks = "map snd (last_checks events)"
  have bad: "filter (\<lambda>v. get (data_of v) ''ok'' \<noteq> JBool True) ?checks = [] \<longleftrightarrow>
      (\<nexists>node v. is_last_check events node v \<and> get (data_of v) ''ok'' \<noteq> JBool True)"
    unfolding last_checks_iff [symmetric] by (auto simp: filter_empty_conv)
  have real: "filter (\<lambda>v. real_command (get (data_of v) ''command'')) ?checks = [] \<longleftrightarrow>
      (\<nexists>node v. is_last_check events node v \<and> real_command (get (data_of v) ''command''))"
    unfolding last_checks_iff [symmetric] by (auto simp: filter_empty_conv)
  show ?thesis
  proof (cases "filter (\<lambda>v. get (data_of v) ''ok'' \<noteq> JBool True) ?checks = []")
    case True
    then show ?thesis using bad real by (auto simp: claim_validation_passed_def Let_def)
  next
    case False
    then show ?thesis using bad by (simp add: claim_validation_passed_def Let_def)
  qed
qed

text \<open>The claims do not depend on the order in which the events arrive: two logs with the same events, numbered
  without repetition, give the same claims.\<close>

theorem claims_independent_of_order:
  assumes "mset events = mset events'" "inj_on seq_of {e. JObj e \<in> set events}"
  shows "derive_claims parse_ts events receipt None = derive_claims parse_ts events' receipt None"
proof -
  have obs: "set (List.map_filter object events) = {e. JObj e \<in> set events}"
    by (auto simp: object_def split: json.splits elim!: map_filterE intro: in_map_filter)
  have "mset (List.map_filter object events) = mset (List.map_filter object events')"
    using assms(1) by (simp add: map_filter_def)
  then have "ordered_events (List.map_filter object events) = ordered_events (List.map_filter object events')"
    unfolding ordered_events_def
  proof (intro sort_key_inj_key_eq)
    show "inj_on seq_of (set (List.map_filter object events))" unfolding obs by (rule assms(2))
  qed simp_all
  then show ?thesis by (simp add: derive_claims_def claim_receipt_integrity_def)
qed


section \<open>An example\<close>

definition sample_event :: "string \<Rightarrow> int \<Rightarrow> (string \<times> json) list \<Rightarrow> json" where
  "sample_event t n d = JObj [(''type'', JStr t), (''seq'', JInt n), (''node_id'', JStr ''n1''), (''data'', JObj d)]"

definition sample_log :: "json list" where
  "sample_log =
    [sample_event ''dispatch'' 1 [(''route_id'', JStr ''g/a''), (''attempt'', JInt 1)],
     sample_event ''terminal'' 2 [(''attempt'', JInt 1), (''ok'', JBool True), (''reported_model'', JStr ''g/a'')],
     sample_event ''review'' 3 [(''route_id'', JStr ''c/o''), (''status'', JStr ''PASS''), (''blocking'', JInt 0)]]"

definition review_claim :: claim where
  "review_claim = claim_independent_review [] (ordered_events (List.map_filter object sample_log))"

lemma review_claim_verified: "clm_status review_claim = VERIFIED"
  by code_simp

theorem verified_claims_cite_events_witness:
  "review_claim \<in> set (derive_claims (\<lambda>t. None) sample_log [] None) \<and> clm_evidence review_claim \<noteq> []"
proof -
  have mem: "review_claim \<in> set (derive_claims (\<lambda>t. None) sample_log [] None)"
    by (simp add: derive_claims_def CLAIM_PREDICATES_def review_claim_def Let_def)
  moreover have "clm_id review_claim \<noteq> ''receipt_integrity''" by code_simp
  ultimately show ?thesis using verified_claims_cite_events [OF mem review_claim_verified] by blast
qed

theorem independent_review_is_independent_witness:
  "executed_as (ordered_events (List.map_filter object sample_log)) (hd (of_type ''dispatch'' (ordered_events (List.map_filter object sample_log)))) \<noteq> []"
proof -
  have "hd (of_type ''dispatch'' (ordered_events (List.map_filter object sample_log))) \<in>
      set (of_type ''dispatch'' (ordered_events (List.map_filter object sample_log)))"
  proof (rule hd_in_set)
    show "of_type ''dispatch'' (ordered_events (List.map_filter object sample_log)) \<noteq> []" by code_simp
  qed
  with independent_review_is_independent [OF review_claim_verified [unfolded review_claim_def]] show ?thesis by blast
qed

theorem claims_independent_of_order_witness:
  "derive_claims (\<lambda>t. None) sample_log [] None = derive_claims (\<lambda>t. None) (rev sample_log) [] None"
proof (rule claims_independent_of_order)
  show "mset sample_log = mset (rev sample_log)" by simp
  show "inj_on seq_of {e. JObj e \<in> set sample_log}"
    by (auto simp: sample_log_def sample_event_def inj_on_def seq_of_def get_def int_of_def)
qed

end
