(* ===== verification/Driver_Loop.thy ===== *)
theory Driver_Loop
  imports Node_Driver
begin

section \<open>Laws of the node driver and its loop\<close>

text \<open>
  The contract that every action of a driver keeps (a locale, interpreted for the lifecycle traces
  and for the identity of the attempt), the outcomes of an attempt as weakest preconditions, the
  loop of \<open>_drive\<close> with its termination, and the mechanical integration node.
\<close>

subsection \<open>Actions that keep a relation\<close>

definition along :: "(driver \<Rightarrow> driver \<Rightarrow> bool) \<Rightarrow> 'a action_of \<Rightarrow> bool" where
  "along P m \<longleftrightarrow> (\<forall>s. P s (snd (m s)))"

text \<open>Updates of a node's record that leave its identity, state, attempt, route and proof alone.\<close>

definition harmless :: "(node_run \<Rightarrow> node_run) \<Rightarrow> bool" where
  "harmless f \<longleftrightarrow> (\<forall>r. nr_node (f r) = nr_node r \<and> nr_state (f r) = nr_state r \<and>
     nr_attempt (f r) = nr_attempt r \<and> nr_route_id (f r) = nr_route_id r \<and>
     nr_dispatch_proof (f r) = nr_dispatch_proof r)"

text \<open>Events other than the node states.\<close>

fun quiet :: "event \<Rightarrow> bool" where
  "quiet (NodeStateEv _ _ _ _ _) = False"
| "quiet (ForcedStateEv _ _ _) = False"
| "quiet _ = True"

locale driver_frame =
  fixes P :: "driver \<Rightarrow> driver \<Rightarrow> bool"
  assumes frame_refl: "P s s"
    and frame_trans: "P s t \<Longrightarrow> P t u \<Longrightarrow> P s u"
    and frame_set: "P s (snd (set_node st reason s))"
    and frame_modify: "harmless f \<Longrightarrow> P s (snd (modify_run f s))"
    and frame_log: "quiet e \<Longrightarrow> P s (snd (log_event e s))"
    and frame_reserve: "P s (snd (reserve i r s))"
    and frame_unreserve: "P s (snd (unreserve i s))"
    and frame_capacity: "P s (snd (note_capacity i c s))"
    and frame_write: "P s (snd (write_store ps s))"
begin

lemma along_ret: "along P (ret x)"
  by (simp add: along_def ret_def frame_refl)

lemma along_throw: "along P (throw e)"
  by (simp add: along_def throw_def frame_refl)

lemma along_get: "along P get_run"
  by (simp add: along_def get_run_def frame_refl)

lemma along_seq:
  assumes "along P m" and "\<And>x. along P (f x)"
  shows "along P (seq m f)"
  unfolding along_def
proof
  fix s
  obtain r t where m: "m s = (r, t)" by force
  with assms(1) have "P s t" by (metis along_def snd_conv)
  moreover have "P t (snd (f x t))" for x using assms(2) by (simp add: along_def)
  ultimately show "P s (snd (seq m f s))"
    using m frame_trans by (cases r) (auto simp: seq_def)
qed

lemma along_if: "along P m \<Longrightarrow> along P n \<Longrightarrow> along P (if b then m else n)"
  by simp

lemma along_finally: "along P m \<Longrightarrow> along P c \<Longrightarrow> along P (finally_do m c)"
  unfolding along_def finally_do_def by (auto split: prod.split) (metis frame_trans snd_conv)

lemma along_basic:
  "along P (set_node st reason)" "harmless f \<Longrightarrow> along P (modify_run f)" "quiet e \<Longrightarrow> along P (log_event e)"
  "along P (reserve i r)" "along P (unreserve i)" "along P (note_capacity i c)" "along P (write_store ps)"
  by (simp_all add: along_def frame_set frame_modify frame_log frame_reserve frame_unreserve frame_capacity frame_write)

lemma along_answer: "along P (answer r)" "along P (from_git r')" "along P (from_cache c)"
  unfolding answer_def from_git_def from_cache_def
  by (auto intro: along_ret along_throw split: sum.split)

lemma along_foldr: "(\<And>x. along P (g x)) \<Longrightarrow> along P (foldr (\<lambda>x rest. seq (g x) (\<lambda>_. rest)) xs (ret y))"
  by (induction xs) (auto intro: along_seq along_ret)

lemmas along_rules = along_ret along_throw along_get along_seq along_finally along_basic along_answer along_foldr

lemma along_record_failure: "along P (record_failure terminal given validated)"
  unfolding record_failure_def Let_def by (auto intro!: along_rules simp: harmless_def)

lemma along_fail_attempt: "along P (fail_attempt cfg tu terminal validated)"
  unfolding fail_attempt_def revoke_permit_def
  by (auto intro!: along_rules along_record_failure simp: harmless_def split: option.split prod.split)

lemma along_run_repo_gates: "along P (run_repo_gates pol w gates)"
  unfolding run_repo_gates_def Let_def
  by (auto intro!: along_rules split: sum.split)

lemma along_validate: "along P (validate pol vt)"
  unfolding validate_def check_changes_def check_gates_def gate_verdict_def repair_formatting_def Let_def
  by (auto intro!: along_rules along_run_repo_gates split: option.split)

lemma along_deny: "along P (deny c a r)"
  unfolding deny_def by (auto intro!: along_rules along_record_failure simp: harmless_def)

lemma along_dispatch: "along P (run_dispatch cfg tu base)"
  unfolding run_dispatch_def authorize_and_send_def commit_permit_def Let_def
  by (auto intro!: along_rules along_deny along_record_failure simp: harmless_def split: option.split prod.split)

lemma along_settle: "along P (settle_attempt cfg tu terminal)"
  unfolding settle_attempt_def conclude_attempt_def revoked_in_flight_def Let_def
  by (auto intro!: along_rules along_fail_attempt along_validate along_record_failure
      simp: harmless_def split: option.split)

lemma along_attempt: "along P (attempt cfg tu)"
  unfolding attempt_def node_base_def restore_note_def Let_def
  by (auto intro!: along_rules along_dispatch along_settle simp: harmless_def
      split: option.split sent.split)

lemma along_block_node: "along P (block_node reason route)"
  unfolding block_node_def by (auto intro!: along_rules simp: harmless_def)

lemma along_revoke_selection: "along P (revoke_selection pol w k route)"
  unfolding revoke_selection_def exclude_route_def
  by (auto intro!: along_rules along_block_node simp: harmless_def)

lemma along_exclude: "along P (exclude_route route)"
  unfolding exclude_route_def by (rule along_basic) (simp add: harmless_def)

lemma along_repack: "along P (repack pol)"
  unfolding repack_def Let_def by (auto intro!: along_rules simp: harmless_def)

lemma along_react: "along P (react cfg)"
  unfolding react_def Let_def
  by (intro along_seq along_if along_get along_repack along_exclude along_ret along_basic)
     (simp_all add: harmless_def)

lemma along_after_failure: "along P (after_failure cfg w k)"
  unfolding after_failure_def Let_def
  by (intro along_seq along_if along_get along_react along_ret along_basic) (simp_all add: harmless_def)

lemma along_no_choice: "along P (drive_no_choice cfg tu w k considered)"
  unfolding drive_no_choice_def Let_def by (auto intro!: along_rules along_block_node)

end


subsection \<open>Two relations every action keeps\<close>

definition same_attempt :: "driver \<Rightarrow> driver \<Rightarrow> bool" where
  "same_attempt s t \<longleftrightarrow> nr_node (dr_run t) = nr_node (dr_run s) \<and>
     nr_attempt (dr_run t) = nr_attempt (dr_run s) \<and> nr_route_id (dr_run t) = nr_route_id (dr_run s) \<and>
     nr_dispatch_proof (dr_run t) = nr_dispatch_proof (dr_run s)"

fun state_of_event :: "event \<Rightarrow> node_state list" where
  "state_of_event (NodeStateEv _ st _ _ _) = [st]"
| "state_of_event _ = []"

definition states_of :: "event list \<Rightarrow> node_state list" where
  "states_of es = concat (map state_of_event es)"

text \<open>The node-state events added on the way are a lifecycle trace between the two states.\<close>

definition traced :: "driver \<Rightarrow> driver \<Rightarrow> bool" where
  "traced s t \<longleftrightarrow> (\<exists>new. dr_events t = dr_events s @ new \<and>
     lifecycle_trace (nr_state (dr_run s)) (states_of new) (nr_state (dr_run t)))"

lemma lifecycle_trace_append:
  "lifecycle_trace s xs m \<Longrightarrow> lifecycle_trace m ys u \<Longrightarrow> lifecycle_trace s (xs @ ys) u"
  by (induction rule: lifecycle_trace.induct) (auto intro: lifecycle_trace.intros)

lemma traced_same:
  "dr_events t = dr_events s \<Longrightarrow> nr_state (dr_run t) = nr_state (dr_run s) \<Longrightarrow> traced s t"
  by (auto simp: traced_def states_of_def intro: lifecycle_trace.intros)

lemma traced_log: "quiet e \<Longrightarrow> traced s (snd (log_event e s))"
  by (cases e) (auto simp: traced_def log_event_def states_of_def intro: lifecycle_trace.intros)

lemma traced_trans: "traced s t \<Longrightarrow> traced t u \<Longrightarrow> traced s u"
  unfolding traced_def by (auto simp: states_of_def dest: lifecycle_trace_append)

lemma traced_set: "traced s (snd (set_node st reason s))"
proof (cases "st \<in> set (TRANSITIONS (nr_state (dr_run s)))")
  case True
  then have "lifecycle_trace (nr_state (dr_run s)) [st] st"
    by (auto intro: lifecycle_trace.intros simp: lifecycle_step_iff)
  with True show ?thesis
    by (auto simp: set_node_def check_transition_cases traced_def states_of_def Let_def)
next
  case False
  then show ?thesis by (simp add: set_node_def check_transition_cases traced_same)
qed

interpretation attempt_id: driver_frame same_attempt
  by unfold_locales
    (auto simp: same_attempt_def set_node_def modify_run_def harmless_def log_event_def reserve_def
      unreserve_def note_capacity_def write_store_def Let_def split: sum.split)

interpretation tr: driver_frame traced
proof unfold_locales
  show "traced s s" for s by (rule traced_same) simp_all
  show "traced s t \<Longrightarrow> traced t u \<Longrightarrow> traced s u" for s t u by (rule traced_trans)
  show "traced s (snd (set_node st reason s))" for s st reason by (rule traced_set)
  show "harmless f \<Longrightarrow> traced s (snd (modify_run f s))" for f s
    by (rule traced_same) (simp_all add: modify_run_def harmless_def)
  show "quiet e \<Longrightarrow> traced s (snd (log_event e s))" for e s by (rule traced_log)
qed (rule traced_same; simp add: reserve_def unreserve_def note_capacity_def write_store_def)+

lemma traced_modify: "(\<And>r. nr_state (f r) = nr_state r) \<Longrightarrow> along traced (modify_run f)"
  by (auto simp: along_def modify_run_def intro: traced_same)

lemma traced_drive_attempt: "along traced (drive_attempt cfg tu w k choice)"
  unfolding drive_attempt_def bind_route_def unbind_route_def Let_def
  by (auto intro!: tr.along_ret tr.along_get tr.along_seq tr.along_basic(3-6) traced_modify
      tr.along_attempt tr.along_after_failure tr.along_revoke_selection split: option.split bool.split)

lemma traced_drive_turn: "along traced (drive_turn cfg tu w k)"
  unfolding drive_turn_def drive_choice_def bind_proof_def dispatch_scope_of_def Let_def
  by (auto intro!: tr.along_ret tr.along_throw tr.along_get tr.along_seq tr.along_basic(3) tr.along_answer
      traced_modify tr.along_block_node tr.along_no_choice tr.along_revoke_selection
      traced_drive_attempt split: option.split prod.split)


subsection \<open>Weakest preconditions\<close>

text \<open>
  The action does not attempt an illegal transition, and every normal return satisfies the
  postcondition.
\<close>

fun illegal :: "crash \<Rightarrow> bool" where
  "illegal (OrchestrationError (IllegalTransition _ _)) = True"
| "illegal _ = False"

definition wp :: "'a action_of \<Rightarrow> ('a \<Rightarrow> driver \<Rightarrow> bool) \<Rightarrow> driver \<Rightarrow> bool" where
  "wp m Q s = (case m s of (Inl e, t) \<Rightarrow> \<not> illegal e | (Inr x, t) \<Rightarrow> Q x t)"

named_theorems wp_simps \<open>weakest preconditions of the basic actions\<close>

lemma wp_basic [wp_simps]:
  "wp (ret x) Q s = Q x s"
  "wp (throw e) Q s = (\<not> illegal e)"
  "wp get_run R s = R (dr_run s) s"
  "wp (modify_run f) U s = U () (s \<lparr> dr_run := f (dr_run s) \<rparr>)"
  "wp (log_event ev) U s = U () (s \<lparr> dr_events := dr_events s @ [ev] \<rparr>)"
  "wp (reserve i r) U s = U () (s \<lparr> dr_inflight := dict_put i r (dr_inflight s) \<rparr>)"
  "wp (unreserve i) U s = U () (s \<lparr> dr_inflight := dict_del i (dr_inflight s) \<rparr>)"
  "wp (note_capacity i c) U s = U () (s \<lparr> dr_capacity := dict_put i c (dr_capacity s) \<rparr>)"
  "wp (write_store ps) U s = U () (s \<lparr> dr_store_writes := dr_store_writes s @ [ps] \<rparr>)"
  by (simp_all add: wp_def ret_def throw_def get_run_def modify_run_def log_event_def reserve_def
      unreserve_def note_capacity_def write_store_def)

lemma wp_seq [wp_simps]: "wp (seq m f) Q s = wp m (\<lambda>x. wp (f x) Q) s"
  by (auto simp: wp_def seq_def split: prod.split sum.split)

lemma wp_finally [wp_simps]:
  "(\<And>t. fst (c t) = Inr ()) \<Longrightarrow> wp (finally_do m c) Q s = wp m (\<lambda>x. wp c (\<lambda>_. Q x)) s"
  by (auto simp: wp_def finally_do_def split: prod.split sum.split) (metis fst_conv sum.distinct(1))+

lemma wp_answer [wp_simps]:
  "wp (answer r) Q s = (case r of Inl e \<Rightarrow> True | Inr x \<Rightarrow> Q x s)"
  "wp (from_git r') R s = (case r' of Inl e \<Rightarrow> True | Inr x \<Rightarrow> R x s)"
  "wp (from_cache c) T s = (case c of Inl e \<Rightarrow> True | Inr x \<Rightarrow> T x s)"
  by (simp_all add: answer_def from_git_def from_cache_def wp_basic split: sum.split)

lemma wp_mono: "wp m Q s \<Longrightarrow> (\<And>x t. Q x t \<Longrightarrow> R x t) \<Longrightarrow> wp m R s"
  by (auto simp: wp_def split: prod.split sum.split)

lemma wp_conj: "wp m Q s \<Longrightarrow> along P m \<Longrightarrow> wp m (\<lambda>x t. Q x t \<and> P s t) s"
  unfolding wp_def along_def by (auto split: prod.split sum.split) (metis snd_conv)

abbreviation "node_st s \<equiv> nr_state (dr_run s)"

text \<open>A move to a state that the table allows, in the form the proofs use it.\<close>

lemma wp_set_node [wp_simps]:
  "wp (set_node st reason) Q s \<longleftrightarrow> st \<in> set (TRANSITIONS (node_st s)) \<and> Q () (snd (set_node st reason s))"
  by (simp add: wp_def set_node_def check_transition_cases Let_def)

lemma node_st_set_node [simp]:
  "st \<in> set (TRANSITIONS (node_st s)) \<Longrightarrow> node_st (snd (set_node st reason s)) = st"
  by (simp add: set_node_def check_transition_cases Let_def)

lemma run_set_node [simp]:
  "st \<in> set (TRANSITIONS (node_st s)) \<Longrightarrow>
   dr_run (snd (set_node st reason s)) = (dr_run s) \<lparr> nr_state := st \<rparr>"
  by (simp add: set_node_def check_transition_cases Let_def)


lemma wp_if [wp_simps]: "wp (if b then m else n) Q s = (if b then wp m Q s else wp n Q s)"
  by simp

lemma wp_option [wp_simps]:
  "wp (case x of None \<Rightarrow> m | Some y \<Rightarrow> f y) Q s = (case x of None \<Rightarrow> wp m Q s | Some y \<Rightarrow> wp (f y) Q s)"
  by (simp split: option.split)

lemma wp_pair [wp_simps]: "wp (case p of (a, b) \<Rightarrow> f a b) Q s = (case p of (a, b) \<Rightarrow> wp (f a b) Q s)"
  by (simp split: prod.split)

lemma wp_revoke_permit: "wp (revoke_permit cfg tu run category) (\<lambda>_ u. dr_run u = dr_run s) s"
  unfolding revoke_permit_def by (simp add: wp_simps split: option.split sum.split prod.split)

lemma wp_record_failure:
  assumes "(if validated then REJECTED else TERMINAL_FAILURE) \<in> set (TRANSITIONS (node_st s))"
  shows "wp (record_failure terminal given validated)
    (\<lambda>_ u. node_st u = (if validated then REJECTED else TERMINAL_FAILURE) \<and>
       nr_failures (dr_run u) = nr_failures (dr_run s) @
         [case given of Some f \<Rightarrow> f | None \<Rightarrow> classify terminal] \<and>
       nr_node (dr_run u) = nr_node (dr_run s)) s"
  using assms unfolding record_failure_def Let_def by (simp add: wp_simps)

lemma wp_fail_attempt:
  assumes "(if validated then REJECTED else TERMINAL_FAILURE) \<in> set (TRANSITIONS (node_st s))"
  shows "wp (fail_attempt cfg tu terminal validated)
    (\<lambda>ok u. \<not> ok \<and> node_st u = (if validated then REJECTED else TERMINAL_FAILURE)) s"
  unfolding fail_attempt_def wp_seq wp_basic
  by (rule wp_mono [OF wp_record_failure [OF assms]], rule wp_mono [OF wp_revoke_permit])
     (auto simp: wp_simps split: sum.split option.split)

lemma wp_deny:
  assumes "node_st s = RUNNING"
  shows "wp (deny category act reason) (\<lambda>r u. r = Settled True \<and> node_st u = BLOCKED) s"
  unfolding deny_def wp_simps
  by (rule wp_mono [OF wp_record_failure]) (use assms in \<open>auto simp: wp_simps\<close>)

lemma wp_log_all:
  "(\<And>es. Q () (s \<lparr> dr_events := es \<rparr>)) \<Longrightarrow>
   wp (foldr (\<lambda>g rest. seq (log_event (f g)) (\<lambda>_. rest)) gs (ret ())) Q s"
proof (induction gs arbitrary: s)
  case Nil
  then show ?case using Nil [of "dr_events s"] by (simp add: wp_simps)
qed (simp add: wp_simps)

text \<open>What the repository gates report.\<close>

definition gate_failures :: "runtime_policy \<Rightarrow> string + repo_gate_result list \<Rightarrow> string list" where
  "gate_failures pol gates =
     (if pol_run_repo_gates pol then
        (case gates of Inl _ \<Rightarrow> [] | Inr gs \<Rightarrow> map gate_message (filter (gate_counts True) gs))
      else [])"

lemma wp_run_repo_gates:
  "wp (run_repo_gates pol True gates) (\<lambda>r u. snd r = gate_failures pol gates \<and> dr_run u = dr_run s) s"
  unfolding run_repo_gates_def Let_def gate_failures_def
  by (auto simp: wp_simps intro!: wp_log_all split: sum.split)

text \<open>When \<open>_validate\<close> accepts the work of a node.\<close>

definition own_changes :: "work_node \<Rightarrow> string list \<Rightarrow> bool" where
  "own_changes node changed \<longleftrightarrow>
     (if wn_kind node = IMPLEMENT then \<forall>p\<in>set changed. owns node p
      else wn_owned_files node \<noteq> [] \<or> changed = [])"

text \<open>
  The gates a turn of the repository's declared checks found failing, by the first word of their
  names. A worker cannot repair a check that could not be started (exit 126 or 127) or a broken gate
  configuration, so these do not count here.
\<close>

definition first_word :: "string \<Rightarrow> string" where
  "first_word s = takeWhile (\<lambda>c. c \<noteq> CHR '' '') s"

definition failing_gates :: "string + repo_gate_result list \<Rightarrow> string list" where
  "failing_gates gates =
     (case gates of
        Inl _ \<Rightarrow> []
      | Inr gs \<Rightarrow> map (\<lambda>g. first_word (gt_name g)) (filter (\<lambda>g. gt_code g \<notin> {0, 126, 127}) gs))"

definition fails_on_base :: "validation_turn \<Rightarrow> string \<Rightarrow> bool" where
  "fails_on_base vt name \<longleftrightarrow> (\<exists>code. vt_base_gate vt name = Some code \<and> code \<noteq> 0)"

text \<open>
  The gates that fail at the end of a validation: when formatting alone failed, those of the turn
  after the formatter ran on the changed files, or formatting itself when there was nothing to format
  or no formatter.
\<close>

definition formatting_only :: "string list \<Rightarrow> bool" where
  "formatting_only names \<longleftrightarrow> names \<noteq> [] \<and> set names \<subseteq> {''ruff-format''}"

definition final_failures :: "validation_turn \<Rightarrow> string list \<Rightarrow> string list" where
  "final_failures vt changed =
     (if formatting_only (failing_gates (vt_gates vt))
      then if (\<exists>p\<in>set changed. vt_regular_file vt p) \<and> vt_ruff_found vt
        then failing_gates (vt_gates_again vt) else [''ruff-format'']
      else failing_gates (vt_gates vt))"

definition gates_passed :: "runtime_policy \<Rightarrow> validation_turn \<Rightarrow> string list \<Rightarrow> bool" where
  "gates_passed pol vt changed \<longleftrightarrow>
     (pol_run_repo_gates pol \<longrightarrow> (\<forall>name\<in>set (final_failures vt changed). fails_on_base vt name))"

definition acceptable :: "runtime_policy \<Rightarrow> work_node \<Rightarrow> validation_turn \<Rightarrow> bool" where
  "acceptable pol node vt \<longleftrightarrow>
     (\<exists>changed. vt_changed vt = Inr changed \<and> own_changes node changed \<and>
        (wn_verification_command node \<noteq> [] \<longrightarrow> fst (vt_verify vt) = 0 \<and>
           (wn_kind node = IMPLEMENT \<and> changed \<noteq> [] \<longrightarrow> gates_passed pol vt changed)))"

lemma wp_check_changes:
  "wp (check_changes node changed)
     (\<lambda>refused u. (refused = None \<longleftrightarrow> own_changes node changed) \<and> dr_run u = dr_run s) s"
  unfolding check_changes_def Let_def own_changes_def
  by (auto simp: wp_simps filter_empty_conv)

text \<open>The texts the code passes around name exactly the failing gates.\<close>

lemma hd_py_split: "hd (py_split c s) = takeWhile (\<lambda>d. d \<noteq> c) s"
  by (induction s) (auto split: list.split)

lemma takeWhile_stops: "takeWhile P (xs @ y # ys) = takeWhile P xs" if "\<not> P y"
  using that by (induction xs) auto

lemma gate_name_of_failure: "gate_name_of (''repo_gate_failed: '' @ name @ CHR '' '' # rest) = first_word name"
  by (simp add: gate_name_of_def hd_py_split takeWhile_stops first_word_def)

lemma gate_name_of_message: "gate_name_of (gate_message g) = first_word (gt_name g)"
  using gate_name_of_failure [of "gt_name g" "''exit '' @ show_int (gt_code g) @ '': '' @ py_tail 600 (gt_out g)"]
  by (simp add: gate_message_def)

lemma prefix_first_word: "c \<notin> set w \<Longrightarrow> prefix (w @ [c]) (s @ c # rest) \<longleftrightarrow> takeWhile (\<lambda>d. d \<noteq> c) s = w"
proof (induction w arbitrary: s)
  case Nil
  then show ?case by (cases s) auto
next
  case (Cons d w)
  then show ?case by (cases s) auto
qed

lemma prefix_format_message: "prefix ruff_format_prefix (gate_message g) \<longleftrightarrow> first_word (gt_name g) = ''ruff-format''"
  using prefix_first_word [of "CHR '' ''" "''ruff-format''" "gt_name g"]
  by (simp add: ruff_format_prefix_def gate_message_def first_word_def)

lemma gate_fails_on_base_name: "gate_fails_on_base vt m \<longleftrightarrow> fails_on_base vt (gate_name_of m)"
  by (simp add: gate_fails_on_base_def fails_on_base_def split: option.split)

lemma gate_failures_names:
  "pol_run_repo_gates pol \<Longrightarrow> map gate_name_of (gate_failures pol gates) = failing_gates gates"
  by (cases gates)
     (auto simp: gate_failures_def failing_gates_def gate_counts_def gate_name_of_message comp_def
        intro!: map_cong filter_cong)

lemma gate_failures_formatting:
  "pol_run_repo_gates pol \<Longrightarrow>
   (gate_failures pol gates \<noteq> [] \<and> list_all (prefix ruff_format_prefix) (gate_failures pol gates)) =
     formatting_only (failing_gates gates)"
  by (cases gates)
     (auto simp: formatting_only_def gate_failures_def failing_gates_def gate_counts_def prefix_format_message
        list_all_iff filter_empty_conv)

lemma wp_repair_formatting:
  "wp (repair_formatting pol vt changed) (\<lambda>failed u. dr_run u = dr_run s \<and>
     (pol_run_repo_gates pol \<longrightarrow> map gate_name_of failed =
        (if (\<exists>p\<in>set changed. vt_regular_file vt p) \<and> vt_ruff_found vt then failing_gates (vt_gates_again vt)
         else [''ruff-format'']))) s"
proof -
  have texts: "gate_name_of ''repo_gate_failed: ruff-format exit 1: no changed files to format'' = ''ruff-format''"
    "gate_name_of ''repo_gate_failed: ruff-format exit 127: ruff not found'' = ''ruff-format''"
    by code_simp+
  show ?thesis unfolding repair_formatting_def Let_def
    by (auto simp: wp_simps texts filter_empty_conv gate_failures_names intro!: wp_mono [OF wp_run_repo_gates])
qed

lemma wp_gate_verdict:
  assumes "dr_run t = dr_run s" and failed: "failed = gate_failures pol (vt_gates vt)"
  shows "wp (gate_verdict pol vt changed failed)
     (\<lambda>r u. (r = None \<longleftrightarrow> gates_passed pol vt changed) \<and> dr_run u = dr_run s) t"
proof -
  have verdict: "((case List.find (\<lambda>g. \<not> gate_fails_on_base vt g) fs of
        None \<Rightarrow> None | Some g \<Rightarrow> Some (''verification_failed: '' @ py_head 600 g)) = None) =
      (\<forall>name\<in>set (map gate_name_of fs). fails_on_base vt name)" for fs
  proof -
    have "((case x of None \<Rightarrow> None | Some g \<Rightarrow> Some (f g)) = None) = (x = None)" for x and f :: "string \<Rightarrow> string"
      by (cases x) simp_all
    then show ?thesis by (auto simp: find_None_iff gate_fails_on_base_name)
  qed
  show ?thesis
  proof (cases "pol_run_repo_gates pol")
    case False
    then have none: "failed = []" by (simp add: failed gate_failures_def)
    show ?thesis using assms False by (simp add: gate_verdict_def none gates_passed_def wp_simps)
  next
    case True
    note names = gate_failures_names [OF True] and fmt = gate_failures_formatting [OF True]
    show ?thesis
      unfolding gate_verdict_def wp_seq failed fmt wp_if gates_passed_def final_failures_def
      using True assms(1) names [of "vt_gates vt"]
      by (auto simp only: wp_basic verdict if_True if_False True_implies_equals simp_thms
            intro!: wp_mono [OF wp_repair_formatting] split: if_split)
  qed
qed

lemma wp_check_gates:
  "wp (check_gates pol vt changed)
     (\<lambda>r u. (r = None \<longleftrightarrow> gates_passed pol vt changed) \<and> dr_run u = dr_run s) s"
  unfolding check_gates_def wp_seq
  by (rule wp_mono [OF wp_run_repo_gates]) (auto intro: wp_gate_verdict)

lemma wp_validate:
  "wp (validate pol vt)
     (\<lambda>r u. (r = None \<longleftrightarrow> acceptable pol (nr_node (dr_run s)) vt) \<and> dr_run u = dr_run s) s"
proof (cases "vt_changed vt")
  case (Inl e)
  then show ?thesis by (simp add: validate_def wp_simps)
next
  case (Inr changed)
  show ?thesis
    unfolding validate_def wp_simps Inr sum.case Let_def
    by (rule wp_mono [OF wp_check_changes [of "nr_node (dr_run s)" changed s]])
       (auto simp: wp_simps acceptable_def Inr intro: wp_mono [OF wp_check_gates] split: option.split)
qed


text \<open>What must hold before a worker is started.\<close>

definition may_send :: "driver_config \<Rightarrow> turn \<Rightarrow> node_run \<Rightarrow> bool" where
  "may_send cfg tu run \<longleftrightarrow>
     (case cfg_authority cfg of
        None \<Rightarrow> \<not> pol_require_dispatch_permit (cfg_policy cfg)
      | Some au \<Rightarrow>
          (\<exists>origin. tu_origin tu = Some origin \<and> au_matches au origin (au_gateway_origin au)) \<and>
          (\<exists>p proof st st'. nr_dispatch_proof run = Some proof \<and> ap_route_id proof = nr_route_id run \<and>
             nr_permit run = Some p \<and> tu_commit_store tu = Inr st \<and> commit_for cfg tu run proof st = Inr (Some p, st')))"

text \<open>How the first half of an attempt can end.\<close>

definition sent_post :: "driver_config \<Rightarrow> turn \<Rightarrow> work_node \<Rightarrow> sent \<Rightarrow> driver \<Rightarrow> bool" where
  "sent_post cfg tu node r u \<longleftrightarrow> nr_node (dr_run u) = node \<and>
     (case r of
        Settled ok \<Rightarrow> node_st u = (if ok then BLOCKED else TERMINAL_FAILURE)
      | Executed t \<Rightarrow> node_st u = RUNNING \<and> may_send cfg tu (dr_run u) \<and>
          t = execute (nr_route_id (dr_run u)) (tu_exec tu))"

lemma wp_frame_node: "wp m Q s \<Longrightarrow> along same_attempt m \<Longrightarrow> wp m (\<lambda>x t. Q x t \<and> same_attempt s t) s"
  by (rule wp_conj)

lemma wp_deny_post:
  "node_st s = RUNNING \<Longrightarrow> wp (deny category act reason) (sent_post cfg tu (nr_node (dr_run s))) s"
  by (rule wp_mono [OF wp_frame_node [OF wp_deny attempt_id.along_deny]])
     (auto simp: sent_post_def same_attempt_def)

lemma wp_commit_permit:
  "wp (commit_permit cfg tu) (\<lambda>permit u. dr_run u = dr_run s \<and>
     (\<forall>p. permit = Some p \<longrightarrow>
        (\<exists>proof st st'. nr_dispatch_proof (dr_run s) = Some proof \<and> ap_route_id proof = nr_route_id (dr_run s) \<and>
           tu_commit_store tu = Inr st \<and> commit_for cfg tu (dr_run s) proof st = Inr (Some p, st')))) s"
  unfolding commit_permit_def by (auto simp: wp_simps split: option.split sum.split prod.split)

lemma wp_authorize_and_send:
  assumes "node_st s = RUNNING"
  shows "wp (authorize_and_send cfg tu) (sent_post cfg tu (nr_node (dr_run s))) s"
proof (cases "cfg_authority cfg")
  case None
  with assms show ?thesis unfolding authorize_and_send_def
    by (auto simp: wp_simps sent_post_def may_send_def intro: wp_deny_post [OF assms])
next
  case (Some au)
  show ?thesis
  proof (cases "tu_origin tu = None \<or> \<not> au_matches au (the (tu_origin tu)) (au_gateway_origin au)")
    case True
    with Some assms show ?thesis unfolding authorize_and_send_def
      by (simp only: option.case if_True wp_deny_post)
  next
    case False
    have denied: "wp (seq (record_failure (failed_terminal permit_denied)
           (Some (FC ''permit_denied'' REROUTE 0 ScopeNone permit_denied)) False) (\<lambda>_. ret (Settled False)))
        (sent_post cfg tu (nr_node (dr_run s))) t" if "node_st t = RUNNING" "nr_node (dr_run t) = nr_node (dr_run s)" for t
      unfolding wp_seq
      by (rule wp_mono [OF wp_record_failure]) (use that in \<open>auto simp: wp_simps sent_post_def\<close>)
    show ?thesis
      unfolding authorize_and_send_def Some option.case if_not_P [OF False] wp_seq
      by (rule wp_mono [OF wp_commit_permit])
         (use Some False assms in \<open>auto simp: wp_simps sent_post_def may_send_def commit_for_def
           permit_attempt_id_def intro!: denied [unfolded wp_seq]\<close>)
  qed
qed

lemma wp_dispatch:
  assumes "node_st s = ADMITTED"
  shows "wp (run_dispatch cfg tu base) (sent_post cfg tu (nr_node (dr_run s))) s"
proof -
  have go: "wp (deny c a r) (sent_post cfg tu (nr_node (dr_run s))) t"
    "wp (authorize_and_send cfg tu) (sent_post cfg tu (nr_node (dr_run s))) t"
    if "node_st t = RUNNING" "nr_node (dr_run t) = nr_node (dr_run s)" for c a r t
    using wp_deny_post [of t c a r cfg tu] wp_authorize_and_send [of t cfg tu] that by simp_all
  show ?thesis unfolding run_dispatch_def Let_def
    by (simp only: wp_seq wp_basic wp_set_node) (use assms in \<open>auto intro!: go\<close>)
qed


text \<open>The scope of the permit was not revoked when the worker had ended.\<close>

definition permit_still_valid :: "turn \<Rightarrow> node_run \<Rightarrow> bool" where
  "permit_still_valid tu run \<longleftrightarrow> (\<forall>p. nr_permit run = Some p \<longrightarrow>
     (\<exists>st. tu_epoch_store tu = Inr st \<and> revocation_epoch st (pm_scope p) = pm_epoch p))"

text \<open>When a driver may mark its node validated.\<close>

definition earned :: "driver_config \<Rightarrow> turn \<Rightarrow> node_run \<Rightarrow> bool" where
  "earned cfg tu run \<longleftrightarrow> may_send cfg tu run \<and>
     acceptable (cfg_policy cfg) (nr_node run) (tu_validation tu) \<and>
     (let t = worker_said_blocked (execute (nr_route_id run) (tu_exec tu)) in
      wt_ok t \<and> py_strip (wt_output t) \<noteq> []) \<and>
     permit_still_valid tu run \<and> tu_commit tu = Inr (nr_commit run)"

lemma wp_revoked_in_flight:
  "wp (revoked_in_flight tu run) (\<lambda>revoked u. u = s \<and> (\<not> revoked \<longrightarrow> permit_still_valid tu run)) s"
  unfolding revoked_in_flight_def permit_still_valid_def
  by (simp add: wp_simps split: option.split sum.split)

definition settled_post :: "driver_config \<Rightarrow> turn \<Rightarrow> bool \<Rightarrow> driver \<Rightarrow> bool" where
  "settled_post cfg tu ok u \<longleftrightarrow>
     (if ok then node_st u = VALIDATED \<and> earned cfg tu (dr_run u)
      else node_st u \<in> {TERMINAL_FAILURE, REJECTED})"

lemma wp_fail_settled:
  assumes "(if v then REJECTED else TERMINAL_FAILURE) \<in> set (TRANSITIONS (node_st u))"
  shows "wp (fail_attempt cfg tu t v) (settled_post cfg tu) u"
  by (rule wp_mono [OF wp_fail_attempt [OF assms]]) (auto simp: settled_post_def)

lemma wp_conclude_attempt:
  assumes "node_st u = TERMINAL_SUCCESS" and "may_send cfg tu (dr_run u)" and "permit_still_valid tu (dr_run u)"
    and "verdict = None \<longrightarrow> acceptable (cfg_policy cfg) (nr_node (dr_run u)) (tu_validation tu)"
    and "wt_ok (worker_said_blocked (execute (nr_route_id (dr_run u)) (tu_exec tu)))"
    and "py_strip (wt_output (worker_said_blocked (execute (nr_route_id (dr_run u)) (tu_exec tu)))) \<noteq> []"
  shows "wp (conclude_attempt cfg tu route verdict) (settled_post cfg tu) u"
proof (cases verdict)
  case None
  with assms show ?thesis
    by (auto simp: conclude_attempt_def wp_simps settled_post_def earned_def may_send_def permit_still_valid_def
        commit_for_def permit_attempt_id_def Let_def split: sum.split option.split)
next
  case (Some err)
  with assms show ?thesis by (simp add: conclude_attempt_def wp_fail_settled)
qed

lemma wp_settle:
  assumes run: "node_st s = RUNNING" and sent: "may_send cfg tu (dr_run s)"
    and t0: "terminal = execute (nr_route_id (dr_run s)) (tu_exec tu)"
  shows "wp (settle_attempt cfg tu terminal) (settled_post cfg tu) s"
proof (cases "\<not> wt_ok (worker_said_blocked terminal) \<or> py_strip (wt_output (worker_said_blocked terminal)) = []")
  case True
  then show ?thesis unfolding settle_attempt_def Let_def
    by (simp only: wp_seq wp_basic if_True) (rule wp_fail_settled, use run in simp)
next
  case False
  let ?e = "TerminalEv (wn_node_id (nr_node (dr_run s))) (wt_ok terminal) (nr_route_id (dr_run s)) (nr_attempt (dr_run s))"
  let ?s = "s \<lparr> dr_events := dr_events s @ [?e] \<rparr>"
  have revoked: "wp (record_failure t (Some f) False) (\<lambda>_. wp (ret False) (settled_post cfg tu)) ?s" for t f
    by (rule wp_mono [OF wp_record_failure]) (use run in \<open>auto simp: settled_post_def wp_simps\<close>)
  have accept: "wp (validate (cfg_policy cfg) (tu_validation tu))
      (\<lambda>v. wp (conclude_attempt cfg tu (nr_route_id (dr_run s)) v) (settled_post cfg tu)) u"
    if u: "dr_run u = (dr_run s) \<lparr> nr_state := TERMINAL_SUCCESS \<rparr>" "permit_still_valid tu (dr_run s)" for u
    by (rule wp_mono [OF wp_validate], rule wp_conclude_attempt)
       (use u False sent in \<open>auto simp: t0 may_send_def permit_still_valid_def commit_for_def permit_attempt_id_def
         split: option.split\<close>)
  show ?thesis unfolding settle_attempt_def Let_def if_not_P [OF False]
    by (simp only: wp_seq wp_basic)
       (rule wp_mono [OF wp_revoked_in_flight], use run in \<open>auto simp: wp_if wp_seq wp_set_node revoked intro!: accept\<close>)
qed

text \<open>How an attempt can end.\<close>

definition attempt_post :: "driver_config \<Rightarrow> turn \<Rightarrow> bool option \<Rightarrow> driver \<Rightarrow> bool" where
  "attempt_post cfg tu r u \<longleftrightarrow>
     (case r of
        None \<Rightarrow> node_st u = PLANNED
      | Some True \<Rightarrow> node_st u = BLOCKED \<or> (node_st u = VALIDATED \<and> earned cfg tu (dr_run u))
      | Some False \<Rightarrow> node_st u \<in> {TERMINAL_FAILURE, REJECTED})"

lemma wp_restore_note: "wp (restore_note tu) (\<lambda>_ u. node_st u = node_st s \<and> nr_node (dr_run u) = nr_node (dr_run s)) s"
  unfolding restore_note_def by (simp add: wp_simps split: option.split)

lemma wp_node_base: "wp (node_base cfg tu) (\<lambda>_ u. u = s) s"
  unfolding node_base_def by (simp add: wp_simps split: sum.split)

lemma wp_after_dispatch:
  assumes "sent_post cfg tu node r u"
  shows "wp (case r of Settled ok \<Rightarrow> ret (Some ok)
      | Executed terminal \<Rightarrow> seq (settle_attempt cfg tu terminal) (\<lambda>ok. ret (Some ok))) (attempt_post cfg tu) u"
proof (cases r)
  case (Settled ok)
  with assms show ?thesis by (cases ok) (auto simp: sent_post_def wp_simps attempt_post_def)
next
  case (Executed t)
  with assms have "wp (settle_attempt cfg tu t) (settled_post cfg tu) u"
    by (intro wp_settle) (auto simp: sent_post_def)
  then have "wp (settle_attempt cfg tu t) (\<lambda>ok. wp (ret (Some ok)) (attempt_post cfg tu)) u"
    by (rule wp_mono) (auto simp: settled_post_def attempt_post_def wp_simps split: if_splits bool.split)
  then show ?thesis using Executed by (simp add: wp_seq)
qed

lemma sent_post_inflight:
  "sent_post cfg tu node r (u \<lparr> dr_inflight := d \<rparr>) = sent_post cfg tu node r u"
  by (cases r) (simp_all add: sent_post_def)

lemma wp_attempt:
  assumes "node_st s = PLANNED"
  shows "wp (attempt cfg tu) (attempt_post cfg tu) s"
proof (cases "tu_slot_blocker tu")
  case (Some b)
  with assms show ?thesis by (simp add: attempt_def wp_simps attempt_post_def Let_def)
next
  case None
  have un: "fst (unreserve i t) = Inr ()" for i t by (simp add: unreserve_def)
  have dispatch: "wp (finally_do (run_dispatch cfg tu base) (unreserve i))
      (\<lambda>r. wp (case r of Settled ok \<Rightarrow> ret (Some ok)
         | Executed terminal \<Rightarrow> seq (settle_attempt cfg tu terminal) (\<lambda>ok. ret (Some ok))) (attempt_post cfg tu)) u"
    if "node_st u = ADMITTED" for base i u
    unfolding wp_finally [OF un]
    by (rule wp_mono [OF wp_dispatch [OF that]])
       (simp add: wp_basic wp_after_dispatch sent_post_inflight)
  show ?thesis unfolding attempt_def Let_def None option.case
    apply (simp only: wp_seq wp_basic wp_set_node)
    using assms apply simp
    apply (rule wp_mono [OF wp_node_base])
    apply (simp only: wp_seq wp_basic)
    apply (simp add: wp_answer split: sum.split)
    apply (intro allI impI)
    apply (simp only: wp_seq)
    apply (rule wp_mono [OF wp_restore_note])
    apply (simp only: wp_seq wp_basic)
    apply (rule dispatch)
    apply simp
    done
qed


text \<open>What one iteration of the loop does to the node, the attempt counter and its own counters.\<close>

definition turn_post ::
  "driver_config \<Rightarrow> turn \<Rightarrow> bool \<Rightarrow> int \<Rightarrow> driver \<Rightarrow> next_turn \<Rightarrow> driver \<Rightarrow> bool" where
  "turn_post cfg tu waited k s r u \<longleftrightarrow>
     nr_node (dr_run u) = nr_node (dr_run s) \<and>
     (case r of
        Stop \<Rightarrow> node_st u = BLOCKED \<or> (node_st u = VALIDATED \<and> earned cfg tu (dr_run u))
      | Again w' k' \<Rightarrow> node_st u = PLANNED \<and>
          ((\<not> waited \<and> w' \<and> k' = k \<and> nr_attempt (dr_run u) = nr_attempt (dr_run s)) \<or>
           (w' = waited \<and> k' = k + 1 \<and> k' \<le> pol_max_attempts_per_node (cfg_policy cfg) \<and>
              nr_attempt (dr_run u) = nr_attempt (dr_run s)) \<or>
           (w' = waited \<and> k' = k \<and> nr_attempt (dr_run s) < pol_max_attempts_per_node (cfg_policy cfg) \<and>
              nr_attempt (dr_run u) = nr_attempt (dr_run s) + 1)))"

lemma wp_block_node:
  "node_st s = PLANNED \<Longrightarrow>
   wp (block_node reason route) (\<lambda>r u. r = Stop \<and> node_st u = BLOCKED \<and> nr_node (dr_run u) = nr_node (dr_run s)) s"
  unfolding block_node_def by (simp add: wp_simps)

lemma wp_revoke_selection:
  assumes "node_st s = PLANNED" "nr_node (dr_run s) = nr_node (dr_run s0)"
    "nr_attempt (dr_run s) = nr_attempt (dr_run s0)"
  shows "wp (revoke_selection (cfg_policy cfg) w k route) (turn_post cfg tu w k s0) s"
  using assms unfolding revoke_selection_def exclude_route_def block_node_def
  by (auto simp: wp_simps turn_post_def)

lemma wp_no_choice:
  assumes "node_st s = PLANNED"
  shows "wp (drive_no_choice cfg tu w k considered) (turn_post cfg tu w k s) s"
  using assms unfolding drive_no_choice_def block_node_def Let_def
  by (auto simp: wp_simps turn_post_def)

lemma wp_react: "wp (react cfg) (\<lambda>_ u. node_st u = node_st s \<and> same_attempt s u) s"
proof -
  have "wp (react cfg) (\<lambda>_ u. node_st u = node_st s) s"
    unfolding react_def repack_def exclude_route_def Let_def by (simp add: wp_simps Let_def)
  from wp_conj [OF this attempt_id.along_react] show ?thesis .
qed

lemma wp_after_failure:
  assumes "node_st s \<in> {TERMINAL_FAILURE, REJECTED}" "nr_node (dr_run s) = nr_node (dr_run s0)"
    "nr_attempt (dr_run s0) < pol_max_attempts_per_node (cfg_policy cfg)"
    "nr_attempt (dr_run s) = nr_attempt (dr_run s0) + 1"
  shows "wp (after_failure cfg w k) (turn_post cfg tu w k s0) s"
  unfolding after_failure_def wp_seq
  by (rule wp_mono [OF wp_react])
     (use assms in \<open>auto simp: wp_simps turn_post_def same_attempt_def Let_def\<close>)

lemma wp_bind_route:
  "wp (bind_route choice) (\<lambda>_ u. node_st u = node_st s \<and> nr_node (dr_run u) = nr_node (dr_run s) \<and>
     nr_attempt (dr_run u) = nr_attempt (dr_run s) + 1 \<and> nr_route_id (dr_run u) = rv_route_id choice \<and>
     nr_dispatch_proof (dr_run u) = nr_dispatch_proof (dr_run s)) s"
  unfolding bind_route_def Let_def by (simp add: wp_simps)

lemma wp_drive_attempt:
  assumes "node_st s = PLANNED" "nr_attempt (dr_run s0) < pol_max_attempts_per_node (cfg_policy cfg)"
    "nr_attempt (dr_run s) = nr_attempt (dr_run s0)" "nr_node (dr_run s) = nr_node (dr_run s0)"
  shows "wp (drive_attempt cfg tu w k choice) (turn_post cfg tu w k s0) s"
proof -
  have go: "wp (case ok of
        None \<Rightarrow> seq (unbind_route prev) (\<lambda>_. revoke_selection (cfg_policy cfg) w k (rv_route_id choice))
      | Some True \<Rightarrow> ret Stop
      | Some False \<Rightarrow> after_failure cfg w k) (turn_post cfg tu w k s0) u"
    if "attempt_post cfg tu ok u" "nr_node (dr_run u) = nr_node (dr_run s0)"
      "nr_attempt (dr_run u) = nr_attempt (dr_run s0) + 1" for ok prev u
  proof (cases ok)
    case None
    then show ?thesis using that
      by (auto simp: wp_simps unbind_route_def attempt_post_def intro!: wp_revoke_selection)
  next
    case (Some b)
    then show ?thesis using that assms(2)
      by (cases b) (auto simp: wp_simps attempt_post_def turn_post_def intro!: wp_after_failure)
  qed
  have attempt: "wp (attempt cfg tu) (\<lambda>ok. wp (case ok of
        None \<Rightarrow> seq (unbind_route prev) (\<lambda>_. revoke_selection (cfg_policy cfg) w k (rv_route_id choice))
      | Some True \<Rightarrow> ret Stop
      | Some False \<Rightarrow> after_failure cfg w k) (turn_post cfg tu w k s0)) u"
    if "node_st u = PLANNED" "nr_node (dr_run u) = nr_node (dr_run s0)"
      "nr_attempt (dr_run u) = nr_attempt (dr_run s0) + 1" for prev u
    by (rule wp_mono [OF wp_conj [OF wp_attempt attempt_id.along_attempt]])
       (use that in \<open>auto simp: same_attempt_def intro!: go\<close>)
  show ?thesis unfolding drive_attempt_def wp_seq wp_basic
    by (rule wp_mono [OF wp_bind_route]) (use assms in \<open>auto intro!: attempt\<close>)
qed

lemma wp_bind_proof: "wp (bind_proof au tu node route) (\<lambda>_ u. u = s) s"
  unfolding bind_proof_def dispatch_scope_of_def by (simp add: wp_simps split: sum.split)

lemma wp_drive_choice:
  assumes "node_st s = PLANNED" "nr_attempt (dr_run s) < pol_max_attempts_per_node (cfg_policy cfg)"
  shows "wp (drive_choice cfg tu w k choice) (turn_post cfg tu w k s) s"
proof -
  have bound: "wp (bind_proof au tu node route) Q s" if "\<And>proof. Q proof s" for au node route Q
    by (rule wp_mono [OF wp_bind_proof]) (use that in simp)
  show ?thesis using assms unfolding drive_choice_def Let_def
    by (auto simp: wp_simps intro!: bound wp_drive_attempt wp_revoke_selection split: option.split sum.split)
qed

lemma wp_drive_turn:
  assumes "node_st s = PLANNED"
  shows "wp (drive_turn cfg tu w k) (turn_post cfg tu w k s) s"
  using assms unfolding drive_turn_def Let_def wp_seq wp_basic
  by (auto simp: turn_post_def intro!: wp_no_choice wp_drive_choice wp_mono [OF wp_block_node] split: prod.split option.split)


subsection \<open>The loop\<close>

text \<open>How often the loop can still run.\<close>

definition turns_left :: "runtime_policy \<Rightarrow> bool \<Rightarrow> int \<Rightarrow> node_run \<Rightarrow> nat" where
  "turns_left pol waited k run =
     nat (pol_max_attempts_per_node pol - nr_attempt run) + nat (pol_max_attempts_per_node pol - k) +
     (if waited then 0 else 1)"

text \<open>How a driver ends.\<close>

definition drive_post :: "driver_config \<Rightarrow> (nat \<Rightarrow> turn) \<Rightarrow> driver \<Rightarrow> (crash + unit) \<times> driver \<times> nat \<Rightarrow> bool" where
  "drive_post cfg env s res \<longleftrightarrow>
     (case res of (r, t, n) \<Rightarrow> traced s t \<and>
        (case r of
           Inl e \<Rightarrow> \<not> illegal e
         | Inr _ \<Rightarrow> nr_node (dr_run t) = nr_node (dr_run s) \<and>
             (node_st t = BLOCKED \<or> (node_st t = VALIDATED \<and> earned cfg (env (n - 1)) (dr_run t)))))"

lemma drive_loop_terminates:
  assumes "node_st s = PLANNED"
  shows "\<exists>res. drive_loop cfg env n w k s = Some res \<and> drive_post cfg env s res \<and>
     snd (snd res) \<le> n + turns_left (cfg_policy cfg) w k (dr_run s) + 1"
  using assms
proof (induction "turns_left (cfg_policy cfg) w k (dr_run s)" arbitrary: s n w k rule: less_induct)
  case less
  obtain r t where d: "drive_turn cfg (env n) w k s = (r, t)" by force
  have tr: "traced s t" using traced_drive_turn d by (metis along_def snd_conv)
  have wp: "wp (drive_turn cfg (env n) w k) (turn_post cfg (env n) w k s) s"
    by (rule wp_drive_turn [OF less.prems])
  show ?case
  proof (cases r)
    case (Inl e)
    with wp d tr show ?thesis
      by (subst drive_loop.simps) (auto simp: drive_post_def wp_def)
  next
    case (Inr x)
    then have post: "turn_post cfg (env n) w k s x t" using wp d by (simp add: wp_def)
    show ?thesis
    proof (cases x)
      case Stop
      with post d tr Inr show ?thesis
        by (subst drive_loop.simps) (auto simp: drive_post_def turn_post_def)
    next
      case (Again w' k')
      then have "turns_left (cfg_policy cfg) w' k' (dr_run t) < turns_left (cfg_policy cfg) w k (dr_run s)"
        "node_st t = PLANNED" "nr_node (dr_run t) = nr_node (dr_run s)"
        using post by (auto simp: turn_post_def turns_left_def)
      with less.hyps [of w' k' t "Suc n"] obtain res where
        "drive_loop cfg env (Suc n) w' k' t = Some res" "drive_post cfg env t res"
        "snd (snd res) \<le> Suc n + turns_left (cfg_policy cfg) w' k' (dr_run t) + 1"
        by blast
      moreover have "drive_loop cfg env n w k s = drive_loop cfg env (Suc n) w' k' t"
        by (subst drive_loop.simps) (simp add: d Inr Again)
      ultimately show ?thesis
        using tr \<open>nr_node (dr_run t) = nr_node (dr_run s)\<close>
          \<open>turns_left (cfg_policy cfg) w' k' (dr_run t) < turns_left (cfg_policy cfg) w k (dr_run s)\<close>
        by (auto simp: drive_post_def intro: traced_trans split: prod.splits sum.splits)
    qed
  qed
qed


subsection \<open>The integration node\<close>

definition gates_clean :: "runtime_policy \<Rightarrow> string + repo_gate_result list \<Rightarrow> bool" where
  "gates_clean pol gates \<longleftrightarrow>
     (pol_run_repo_gates pol \<longrightarrow> (case gates of Inl _ \<Rightarrow> False | Inr gs \<Rightarrow> list_all (\<lambda>g. gt_code g = 0) gs))"

lemma gate_message_ne: "gate_message g \<noteq> []"
  by (simp add: gate_message_def)

lemma wp_gates_strict:
  "wp (run_repo_gates pol False gates)
     (\<lambda>r u. ((case fst r of None \<Rightarrow> [] | Some m \<Rightarrow> m) = [] \<longleftrightarrow> gates_clean pol gates) \<and> dr_run u = dr_run s) s"
proof -
  have "(case map gate_message (filter (gate_counts False) gs) of [] \<Rightarrow> None | m # _ \<Rightarrow> Some m) = None \<longleftrightarrow>
      list_all (\<lambda>g. gt_code g = 0) gs" for gs
  proof -
    have "filter (gate_counts False) gs = [] \<longleftrightarrow> list_all (\<lambda>g. gt_code g = 0) gs"
      by (auto simp: gate_counts_def list_all_iff filter_empty_conv)
    then show ?thesis by (cases "filter (gate_counts False) gs") auto
  qed
  moreover have "(case map gate_message (filter (gate_counts False) gs) of [] \<Rightarrow> None | m # _ \<Rightarrow> Some m) \<noteq> Some []" for gs
    using gate_message_ne by (cases "filter (gate_counts False) gs") auto
  ultimately show ?thesis
    unfolding run_repo_gates_def Let_def gates_clean_def
    by (auto simp: wp_simps intro!: wp_log_all split: sum.split option.splits) force+
qed

text \<open>What an integration node must have passed.\<close>

definition integrated :: "driver_config \<Rightarrow> turn \<Rightarrow> node_run \<Rightarrow> bool" where
  "integrated cfg tu run \<longleftrightarrow> base_answer cfg tu = Inr (nr_commit run) \<and>
     (wn_verification_command (nr_node run) \<noteq> [] \<longrightarrow> fst (vt_verify (tu_validation tu)) = 0) \<and>
     gates_clean (cfg_policy cfg) (vt_gates (tu_validation tu))"

lemma wp_integration_check:
  "wp (integration_check cfg vt)
     (\<lambda>reason u. (reason = [] \<longrightarrow> gates_clean (cfg_policy cfg) (vt_gates vt) \<and>
        (wn_verification_command (nr_node (dr_run s)) \<noteq> [] \<longrightarrow> fst (vt_verify vt) = 0)) \<and> dr_run u = dr_run s) s"
proof -
  have ne: "integration_verify_failed r \<noteq> []" for r by (simp add: integration_verify_failed_def)
  show ?thesis unfolding integration_check_def Let_def
    by (auto simp: wp_simps ne intro!: wp_mono [OF wp_gates_strict])
qed

definition integration_post :: "driver_config \<Rightarrow> turn \<Rightarrow> work_node \<Rightarrow> driver \<Rightarrow> bool" where
  "integration_post cfg tu node u \<longleftrightarrow> nr_node (dr_run u) = node \<and>
     (node_st u = BLOCKED \<or> (node_st u = VALIDATED \<and> integrated cfg tu (dr_run u)))"

lemma wp_integration_failed:
  assumes "node_st u = TERMINAL_SUCCESS"
  shows "wp (integration_failed reason) (\<lambda>_. integration_post cfg tu (nr_node (dr_run u))) u"
  unfolding integration_failed_def wp_seq wp_basic
  by (rule wp_mono [OF wp_record_failure]) (use assms in \<open>auto simp: wp_simps integration_post_def\<close>)

lemma wp_integration_settled:
  assumes "node_st u = TERMINAL_SUCCESS" and "base_answer cfg tu = Inr base"
  shows "wp (integration_check cfg (tu_validation tu))
      (\<lambda>reason. wp (if reason \<noteq> [] then integration_failed reason else integration_passed base)
         (\<lambda>_. integration_post cfg tu (nr_node (dr_run u)))) u"
proof (rule wp_mono [OF wp_integration_check])
  fix reason :: string and t :: driver
  assume h: "(reason = [] \<longrightarrow> gates_clean (cfg_policy cfg) (vt_gates (tu_validation tu)) \<and>
      (wn_verification_command (nr_node (dr_run u)) \<noteq> [] \<longrightarrow> fst (vt_verify (tu_validation tu)) = 0)) \<and>
      dr_run t = dr_run u"
  then show "wp (if reason \<noteq> [] then integration_failed reason else integration_passed base)
      (\<lambda>_. integration_post cfg tu (nr_node (dr_run u))) t"
    using wp_integration_failed [of t reason cfg tu] assms
    by (cases "reason = []") (simp_all add: wp_simps integration_passed_def integration_post_def integrated_def)
qed

lemma wp_integrate_node:
  assumes "node_st s = PLANNED"
  shows "wp (integrate_node cfg tu) (\<lambda>_. integration_post cfg tu (nr_node (dr_run s))) s"
proof (cases "base_answer cfg tu")
  case (Inl e)
  with assms show ?thesis by (simp add: integrate_node_def Let_def wp_simps integration_post_def)
next
  case (Inr base)
  have settled: "wp (integration_check cfg (tu_validation tu))
      (\<lambda>reason. wp (if reason \<noteq> [] then integration_failed reason else integration_passed base)
         (\<lambda>_. integration_post cfg tu (nr_node (dr_run s)))) u"
    if "node_st u = TERMINAL_SUCCESS" "nr_node (dr_run u) = nr_node (dr_run s)" for u
    using wp_integration_settled [OF that(1) Inr] that(2) by simp
  show ?thesis unfolding integrate_node_def Let_def Inr sum.case
    by (simp only: wp_seq wp_basic wp_set_node)
       (use assms in \<open>simp add: wp_answer wp_seq settled split: sum.split\<close>)
qed

lemma traced_integrate_node: "along traced (integrate_node cfg tu)"
  unfolding integrate_node_def integration_check_def integration_failed_def integration_passed_def Let_def
  by (auto intro!: tr.along_ret tr.along_get tr.along_seq tr.along_basic(1,3) tr.along_answer traced_modify
      tr.along_record_failure tr.along_run_repo_gates split: sum.split)

lemma drive_terminates:
  assumes "node_st s = PLANNED"
  shows "\<exists>r t n. drive cfg env s = Some (r, t, n) \<and> traced s t \<and>
     n \<le> turns_left (cfg_policy cfg) False 0 (dr_run s) + 1 \<and>
     (case r of
        Inl e \<Rightarrow> \<not> illegal e
      | Inr _ \<Rightarrow> nr_node (dr_run t) = nr_node (dr_run s) \<and>
          (node_st t = BLOCKED \<or> (node_st t = VALIDATED \<and>
             (if wn_kind (nr_node (dr_run s)) \<in> {INTEGRATE, REVIEW} then integrated cfg (env 0) (dr_run t)
              else earned cfg (env (n - 1)) (dr_run t)))))"
proof (cases "wn_kind (nr_node (dr_run s)) \<in> {INTEGRATE, REVIEW}")
  case True
  obtain r t where d: "integrate_node cfg (env 0) s = (r, t)" by force
  have "traced s t" using traced_integrate_node d by (metis along_def snd_conv)
  with wp_integrate_node [OF assms, of cfg "env 0"] d True show ?thesis
    by (auto simp: drive_def wp_def integration_post_def split: sum.splits)
next
  case False
  from drive_loop_terminates [OF assms, of cfg env 0 False 0] obtain r t n where
    "drive_loop cfg env 0 False 0 s = Some (r, t, n)" "drive_post cfg env s (r, t, n)"
    "n \<le> turns_left (cfg_policy cfg) False 0 (dr_run s) + 1"
    by (metis add_0 prod.collapse)
  with False show ?thesis by (auto simp: drive_def drive_post_def)
qed


subsection \<open>Reaction to a failure\<close>

text \<open>When a failed route stays eligible for the node's next attempt.\<close>

definition same_route_again :: "driver_config \<Rightarrow> node_run \<Rightarrow> bool" where
  "same_route_again cfg run \<longleftrightarrow> nr_failures run \<noteq> [] \<and>
     (let f = last (nr_failures run);
          current = current_budget (cfg_policy cfg) run in
      if fc_action f = RETRY_INFRA then True
      else if fc_category f = CONTEXT_LENGTH_CATEGORY then
        max (pol_min_context_budget_bytes (cfg_policy cfg)) (current div 2) < current \<and>
        cfg_hydrator_takes_budget cfg \<and> nr_route_id run \<notin> set (nr_repacked_routes run)
      else fc_category f \<in> set REHYDRATED_CATEGORIES \<and>
        nr_route_id run \<notin> set (nr_rehydrated_routes run))"

lemma current_budget_feedback: "current_budget pol (r \<lparr> nr_failure_feedback := x \<rparr>) = current_budget pol r"
  by (simp add: current_budget_def)

lemma wp_react_excludes:
  "wp (react cfg) (\<lambda>_ u. set (nr_excluded_routes (dr_run u)) =
     set (nr_excluded_routes (dr_run s)) \<union> (if same_route_again cfg (dr_run s) then {} else {nr_route_id (dr_run s)})) s"
proof (cases "nr_failures (dr_run s) = []")
  case True
  then show ?thesis by (simp add: react_def exclude_route_def same_route_again_def wp_simps Let_def)
next
  case ne: False
  let ?f = "last (nr_failures (dr_run s))"
  consider (infra) "fc_action ?f = RETRY_INFRA"
    | (length) "fc_action ?f \<noteq> RETRY_INFRA" "fc_category ?f = CONTEXT_LENGTH_CATEGORY"
    | (other) "fc_action ?f \<noteq> RETRY_INFRA" "fc_category ?f \<noteq> CONTEXT_LENGTH_CATEGORY"
    by blast
  then show ?thesis
  proof cases
    case infra
    then show ?thesis using ne by (simp add: react_def same_route_again_def wp_simps Let_def)
  next
    case length
    show ?thesis
    proof (cases "max (pol_min_context_budget_bytes (cfg_policy cfg)) (current_budget (cfg_policy cfg) (dr_run s) div 2)
        < current_budget (cfg_policy cfg) (dr_run s)")
      case True
      then have "\<not> current_budget (cfg_policy cfg) (dr_run s) \<le>
          max (pol_min_context_budget_bytes (cfg_policy cfg)) (current_budget (cfg_policy cfg) (dr_run s) div 2)"
        by (simp only: not_le)
      with True length ne show ?thesis
        by (simp add: react_def repack_def exclude_route_def same_route_again_def wp_simps Let_def
            current_budget_feedback del: max_less_iff_conj)
    next
      case False
      then have "current_budget (cfg_policy cfg) (dr_run s) \<le>
          max (pol_min_context_budget_bytes (cfg_policy cfg)) (current_budget (cfg_policy cfg) (dr_run s) div 2)"
        by (simp only: not_less)
      with False length ne show ?thesis
        by (simp add: react_def repack_def exclude_route_def same_route_again_def wp_simps Let_def
            current_budget_feedback del: max_less_iff_conj)
    qed
  next
    case other
    then show ?thesis using ne
      by (simp add: react_def exclude_route_def same_route_again_def wp_simps Let_def)
  qed
qed


subsection \<open>Context plans\<close>

definition plan_window :: "int option \<Rightarrow> int option" where
  "plan_window w = (case w of None \<Rightarrow> None | Some k \<Rightarrow> if k < 1 then None else Some k)"

definition plan_total :: "int option \<Rightarrow> int \<Rightarrow> int" where
  "plan_total w budget = min (case plan_window w of Some k \<Rightarrow> k | None \<Rightarrow> 8192) (max 0 (budget div 4) + 1536)"

lemma context_plan_fields:
  "context_plan_of w budget = \<lparr> cp_token_budget = max 1 (plan_total w budget),
     cp_output_token_reserve = min 1024 (max 0 (plan_total w budget - 1)),
     cp_tool_token_reserve = min 512 (max 0 (plan_total w budget - 1025)),
     cp_candidate_context_window = plan_window w \<rparr>"
  by (simp add: context_plan_of_def plan_total_def plan_window_def WORKER_OUTPUT_RESERVE_def
      WORKER_SAFETY_RESERVE_def Let_def algebra_simps)

lemma context_plan_input:
  "input_token_budget (context_plan_of w budget) = max 1 (plan_total w budget - 1536)"
  by (simp add: context_plan_fields input_token_budget_def min_def max_def)


section \<open>Properties\<close>

text \<open>C29. A driver that starts on a planned node always ends, after at most one more iteration than the
  attempts and revocations its policy allows plus one wait, whatever the selector, git, the workers
  and the checks answer.\<close>

theorem driver_terminates_within_budget:
  assumes "nr_state (dr_run s) = PLANNED"
  shows "\<exists>r t n. drive cfg env s = Some (r, t, n) \<and>
    int n \<le> max 0 (pol_max_attempts_per_node (cfg_policy cfg) - nr_attempt (dr_run s)) +
      max 0 (pol_max_attempts_per_node (cfg_policy cfg)) + 2"
  using drive_terminates [OF assms, of cfg env] unfolding turns_left_def by fastforce

text \<open>C31. A driver never attempts a transition that the lifecycle table forbids, also when it ends with
  an exception; the node-state events it emits are a legal lifecycle from PLANNED to the state it
  leaves; and when it returns, that state is VALIDATED or BLOCKED.\<close>

theorem driver_follows_lifecycle:
  assumes "nr_state (dr_run s) = PLANNED" and "drive cfg env s = Some (r, t, n)"
  shows "(\<forall>a b. r \<noteq> Inl (OrchestrationError (IllegalTransition a b))) \<and>
    (\<exists>new. dr_events t = dr_events s @ new \<and> lifecycle_trace PLANNED (states_of new) (nr_state (dr_run t))) \<and>
    (r = Inr () \<longrightarrow> nr_state (dr_run t) \<in> {VALIDATED, BLOCKED})"
  using drive_terminates [OF assms(1), of cfg env] assms
  by (auto simp: traced_def split: sum.splits)


text \<open>An integration node is validated only when the merge of its dependencies succeeded, the
  combined verification exited with zero and every declared repository gate passed; its commit is
  that merge.\<close>

theorem integration_validated_only_if_checked:
  assumes "nr_state (dr_run s) = PLANNED" and "wn_kind (nr_node (dr_run s)) \<in> {INTEGRATE, REVIEW}"
    and "drive cfg env s = Some (Inr (), t, n)" and "nr_state (dr_run t) = VALIDATED"
  shows "base_answer cfg (env 0) = Inr (nr_commit (dr_run t)) \<and>
    (wn_verification_command (nr_node (dr_run s)) \<noteq> [] \<longrightarrow> fst (vt_verify (tu_validation (env 0))) = 0) \<and>
    gates_clean (cfg_policy cfg) (vt_gates (tu_validation (env 0)))"
  using drive_terminates [OF assms(1), of cfg env] assms by (auto simp: integrated_def)

text \<open>No worker is started without authority: whenever the dispatch of an admitted node reaches the
  worker, a policy that requires permits has an authority, the executor reported the authority's
  gateway, and the commit on the permit store minted a permit for the proof of the bound route in this
  attempt.\<close>

theorem no_send_without_permit:
  assumes "nr_state (dr_run s) = ADMITTED" and "run_dispatch cfg tu base s = (Inr (Executed w), t)"
  shows "may_send cfg tu (dr_run t)"
  using wp_dispatch [OF assms(1), of cfg tu base] assms(2) by (simp add: wp_def sent_post_def)

text \<open>After a failed attempt the route is excluded from the node's later selections, except for a
  local gateway problem, one retry with a smaller context pack, and one retry with the failing
  evidence; no other route is excluded.\<close>

theorem failed_route_excluded_unless_retryable:
  assumes "react cfg s = (Inr (), t)"
  shows "set (nr_excluded_routes (dr_run t)) = set (nr_excluded_routes (dr_run s)) \<union>
    (if same_route_again cfg (dr_run s) then {} else {nr_route_id (dr_run s)})"
  using wp_react_excludes [of cfg s] assms by (simp add: wp_def)

text \<open>The context plan of an attempt is always valid (one input token remains, the reserves are not
  negative), and a prompt that fits it leaves room in the selected model's window for the whole
  output and safety reserve and stays within the byte budget.\<close>

theorem context_plan_sound:
  "1 \<le> input_token_budget (context_plan_of w budget) \<and>
   0 \<le> cp_output_token_reserve (context_plan_of w budget) \<and>
   0 \<le> cp_tool_token_reserve (context_plan_of w budget) \<and>
   (prompt_fits (context_plan_of w budget) budget z \<longrightarrow>
      pz_bytes z \<le> budget \<and>
      (\<forall>k. cp_candidate_context_window (context_plan_of w budget) = Some k \<longrightarrow>
         estimate_tokens (pz_chars z) + WORKER_OUTPUT_RESERVE + WORKER_SAFETY_RESERVE \<le> k))"
proof -
  have pos: "1 \<le> estimate_tokens c" for c by (simp add: estimate_tokens_def)
  have "estimate_tokens c + 1024 + 512 \<le> k" if "estimate_tokens c \<le> max 0 (min a (k - 1024 - 512))" for a c k
    using that pos [of c] by (simp add: max_def min_def split: if_splits)
  then have "prompt_fits p budget z \<longrightarrow> pz_bytes z \<le> budget \<and>
      (\<forall>k. cp_candidate_context_window p = Some k \<longrightarrow> estimate_tokens (pz_chars z) + 1024 + 512 \<le> k)" for p
    by (auto simp: prompt_fits_def input_limit_def WORKER_OUTPUT_RESERVE_def WORKER_SAFETY_RESERVE_def)
  moreover have "1 \<le> input_token_budget (context_plan_of w budget)" by (simp add: context_plan_input)
  ultimately show ?thesis
    by (simp add: context_plan_fields WORKER_OUTPUT_RESERVE_def WORKER_SAFETY_RESERVE_def)
qed


section \<open>A concrete driver\<close>

definition sample_policy :: runtime_policy where
  "sample_policy = \<lparr> pol_max_parallel = 3, pol_max_attempts_per_node = 4, pol_require_review = True,
     pol_max_cooldown_wait_seconds = 120, pol_context_budget_bytes = 60000,
     pol_min_context_budget_bytes = 4000, pol_run_repo_gates = True, pol_require_dispatch_permit = False \<rparr>"

definition sample_config :: driver_config where
  "sample_config = \<lparr> cfg_policy = sample_policy, cfg_authority = None, cfg_run_name = ''r'',
     cfg_run_digest = ''0'', cfg_base_sha = ''base'',
     cfg_dep_commits = [], cfg_hydrator_takes_budget = True \<rparr>"

definition sample_verdict :: "route_id \<Rightarrow> route_verdict" where
  "sample_verdict r = \<lparr> rv_route_id = r, rv_provider = ''p'', rv_reached = Some SELECTED,
     rv_failed_stage = None, rv_reason = '''', rv_capacity_class = FREE, rv_cooldown_until = None,
     rv_context_window = Some 100000 \<rparr>"

definition sample_turn :: "bool \<Rightarrow> turn" where
  "sample_turn chosen = \<lparr>
     tu_select = (\<lambda>_. (if chosen then Some (sample_verdict ''cc/m'') else None, [])), tu_now = 0,
     tu_launchable = True, tu_bind_blocker = None, tu_confirm = Inl ''no confirmation'',
     tu_bind_store = Inr empty_store, tu_bind_now = 0, tu_slot_blocker = None,
     tu_merge = Inr ''m'', tu_add_worktree = Inr (), tu_restored = None,
     tu_prompt = (\<lambda>_ _ _. \<lparr> pz_chars = 40, pz_bytes = 40 \<rparr>), tu_origin = None,
     tu_commit_store = Inr empty_store, tu_commit_now = 0, tu_permit_id = ''p0'',
     tu_exec = ExecTerminal (blank_terminal \<lparr> wt_ok := True, wt_output := ''done'' \<rparr>),
     tu_epoch_store = Inr empty_store, tu_revoke_store = Inr empty_store, tu_revoke_now = 0,
     tu_validation = \<lparr> vt_changed = Inr [''a.py''], vt_verify = (0, ''''), vt_gates = Inr [],
       vt_regular_file = (\<lambda>_. True), vt_ruff_found = True, vt_format_code = 0, vt_gates_again = Inr [],
       vt_base_gate = (\<lambda>_. None) \<rparr>,
     tu_commit = Inr ''sha1'', tu_salvage = Inr None \<rparr>"

definition sample_driver :: "node_kind \<Rightarrow> driver" where
  "sample_driver kind = \<lparr> dr_run = NodeRun ((sample_node ''a'' [] [''a.py'']) \<lparr> wn_kind := kind \<rparr>),
     dr_events = [], dr_inflight = [], dr_capacity = [], dr_store_writes = [] \<rparr>"

definition final_of :: "((crash + unit) \<times> driver \<times> nat) option \<Rightarrow> driver" where
  "final_of res = (case res of Some (r, t, n) \<Rightarrow> t | None \<Rightarrow> sample_driver IMPLEMENT)"

definition sample_end :: "node_kind \<Rightarrow> driver" where
  "sample_end kind = final_of (drive sample_config (\<lambda>_. sample_turn True) (sample_driver kind))"

lemma sample_drive:
  "drive sample_config (\<lambda>_. sample_turn True) (sample_driver IMPLEMENT) = Some (Inr (), sample_end IMPLEMENT, 1)"
  "drive sample_config (\<lambda>_. sample_turn True) (sample_driver INTEGRATE) = Some (Inr (), sample_end INTEGRATE, 1)"
  "nr_state (dr_run (sample_end IMPLEMENT)) = VALIDATED" "nr_state (dr_run (sample_end INTEGRATE)) = VALIDATED"
  "nr_state (dr_run (sample_driver IMPLEMENT)) = PLANNED" "nr_state (dr_run (sample_driver INTEGRATE)) = PLANNED"
  by code_simp+


theorem driver_terminates_within_budget_witness:
  "\<exists>r t n. drive sample_config (\<lambda>_. sample_turn False) (sample_driver IMPLEMENT) = Some (r, t, n) \<and> int n \<le> 10"
proof -
  have "nr_state (dr_run (sample_driver IMPLEMENT)) = PLANNED"
    "max 0 (pol_max_attempts_per_node (cfg_policy sample_config) - nr_attempt (dr_run (sample_driver IMPLEMENT))) +
      max 0 (pol_max_attempts_per_node (cfg_policy sample_config)) + 2 = 10"
    by code_simp+
  with driver_terminates_within_budget [of "sample_driver IMPLEMENT" sample_config "\<lambda>_. sample_turn False"]
  show ?thesis by simp
qed

theorem driver_follows_lifecycle_witness:
  "nr_state (dr_run (sample_end IMPLEMENT)) \<in> {VALIDATED, BLOCKED}"
  using driver_follows_lifecycle [OF sample_drive(5) sample_drive(1)] by (simp only: simp_thms)


theorem integration_validated_only_if_checked_witness:
  "gates_clean (cfg_policy sample_config) (vt_gates (tu_validation (sample_turn True)))"
proof -
  have "wn_kind (nr_node (dr_run (sample_driver INTEGRATE))) \<in> {INTEGRATE, REVIEW}" by code_simp
  from integration_validated_only_if_checked [OF sample_drive(6) this sample_drive(2) sample_drive(4)]
  show ?thesis by (simp only: simp_thms)
qed

definition admitted_driver :: driver where
  "admitted_driver = snd (set_node ADMITTED '''' (sample_driver IMPLEMENT))"

theorem no_send_without_permit_witness:
  "may_send sample_config (sample_turn True)
     (dr_run (snd (run_dispatch sample_config (sample_turn True) ''base'' admitted_driver)))"
proof (rule no_send_without_permit)
  show "nr_state (dr_run admitted_driver) = ADMITTED" by code_simp
  show "run_dispatch sample_config (sample_turn True) ''base'' admitted_driver =
      (Inr (Executed (execute '''' (tu_exec (sample_turn True)))),
       snd (run_dispatch sample_config (sample_turn True) ''base'' admitted_driver))"
    by code_simp
qed

definition failed_driver :: driver where
  "failed_driver = (sample_driver IMPLEMENT) \<lparr> dr_run := (dr_run (sample_driver IMPLEMENT))
     \<lparr> nr_state := TERMINAL_FAILURE, nr_route_id := ''cc/m'',
       nr_failures := [FC ''rate_limited'' REROUTE 60 ScopeProvider ''''] \<rparr> \<rparr>"

theorem failed_route_excluded_unless_retryable_witness:
  "set (nr_excluded_routes (dr_run (snd (react sample_config failed_driver)))) =
   set (nr_excluded_routes (dr_run failed_driver)) \<union>
     (if same_route_again sample_config (dr_run failed_driver) then {} else {nr_route_id (dr_run failed_driver)})"
proof (rule failed_route_excluded_unless_retryable)
  show "react sample_config failed_driver = (Inr (), snd (react sample_config failed_driver))" by code_simp
qed

theorem context_plan_sound_witness:
  "estimate_tokens 40 + WORKER_OUTPUT_RESERVE + WORKER_SAFETY_RESERVE \<le> 100000"
proof -
  have "prompt_fits (context_plan_of (Some 100000) 60000) 60000 \<lparr> pz_chars = 40, pz_bytes = 40 \<rparr>"
    "cp_candidate_context_window (context_plan_of (Some 100000) 60000) = Some 100000"
    by code_simp+
  with context_plan_sound [of "Some 100000" 60000 "\<lparr> pz_chars = 40, pz_bytes = 40 \<rparr>"]
  show ?thesis by simp
qed

end
