(* ===== verification/Run_Loop.thy ===== *)
theory Run_Loop
  imports Driver_Loop
begin

section \<open>The run loop\<close>

text \<open>
  Models the loop of \<open>DagRuntime.run\<close> of \<open>verdict/orchestration/runtime.py\<close>. The event loop is a step relation: the main coroutine runs from
  one wait to the next without interruption (reap, controls, propagation, spawning), the drivers move
  their nodes between its turns in any order, and a driver whose cancellation was requested only ends.
  After a turn that cancelled the run the main coroutine takes no further turn and only waits for the drivers.
\<close>

subsection \<open>Tasks\<close>

definition fresh_task :: task where
  "fresh_task = \<lparr> tk_done = False, tk_cancelling = False, tk_crash = None \<rparr>"

text \<open>A driver that ended with an exception blocks only its node.\<close>

definition crash_node :: "node_id \<Rightarrow> string \<Rightarrow> runtime \<Rightarrow> runtime" where
  "crash_node i reason rt =
     (case map_of (rt_nodes rt) i of
        None \<Rightarrow> rt
      | Some run \<Rightarrow>
          emit (ForcedStateEv i BLOCKED reason)
            (put_run i (run \<lparr> nr_reason := reason,
               nr_state := (if nr_state run \<in> {VALIDATED, BLOCKED} then nr_state run else BLOCKED) \<rparr>) rt))"

fun reap :: "(node_id, task) dict \<Rightarrow> runtime \<Rightarrow> runtime" where
  "reap [] rt = rt"
| "reap ((i, t) # ts) rt =
     (if tk_done t then
        let rt1 = rt \<lparr> rt_pending := dict_del i (rt_pending rt) \<rparr> in
        reap ts (case tk_crash t of None \<Rightarrow> rt1 | Some reason \<Rightarrow> crash_node i reason rt1)
      else reap ts rt)"

definition spawn :: "node_id list \<Rightarrow> runtime \<Rightarrow> runtime" where
  "spawn ids rt =
     foldl (\<lambda>rt i. if i \<in> fst ` set (rt_pending rt) then rt
                   else rt \<lparr> rt_pending := rt_pending rt @ [(i, fresh_task)] \<rparr>) rt ids"

text \<open>One turn of the main coroutine; \<open>True\<close> when the operator cancelled the run.\<close>

definition main_turn :: "runtime_policy \<Rightarrow> control_request list \<Rightarrow> runtime \<Rightarrow> bool \<times> runtime" where
  "main_turn pol reqs rt =
     (case poll_controls pol reqs (reap (rt_pending rt) rt) of
        (True, rt1) \<Rightarrow> (True, rt1)
      | (False, rt1) \<Rightarrow> let rt2 = propagate_blocks rt1 in (False, spawn (ready rt2) rt2))"


subsection \<open>Steps\<close>

definition active_task :: "runtime \<Rightarrow> node_id \<Rightarrow> bool" where
  "active_task rt i = (case map_of (rt_pending rt) i of None \<Rightarrow> False | Some t \<Rightarrow> \<not> tk_done t \<and> \<not> tk_cancelling t)"

definition set_task :: "node_id \<Rightarrow> task \<Rightarrow> runtime \<Rightarrow> runtime" where
  "set_task i t rt = rt \<lparr> rt_pending := dict_put i t (rt_pending rt) \<rparr>"

text \<open>
  An abstraction of the drivers, for invariants of the whole run: between two waits a driver may rewrite
  the record of its own node in any way that keeps the work and moves the state at most one step of the
  lifecycle, and append any events. The real drivers are \<open>drive\<close> of the theory Driver_Loop, and
  \<open>driver_refines_steps\<close> below shows that what they do is among these steps.
\<close>

inductive driver_step :: "node_id \<Rightarrow> runtime \<Rightarrow> runtime \<Rightarrow> bool" for i where
  drives: "active_task rt i \<Longrightarrow> map_of (rt_nodes rt) i = Some run \<Longrightarrow>
    nr_state run \<notin> {VALIDATED, BLOCKED} \<Longrightarrow> nr_node run' = nr_node run \<Longrightarrow>
    nr_state run' = nr_state run \<or> lifecycle_step (nr_state run) (nr_state run') \<Longrightarrow>
    driver_step i rt (put_run i run' rt \<lparr> rt_events := rt_events rt @ es \<rparr>)"

inductive run_step :: "runtime_policy \<Rightarrow> runtime \<Rightarrow> runtime \<Rightarrow> bool" for pol where
  turns: "\<not> rt_cancel_requested rt \<Longrightarrow> main_turn pol reqs rt = (stop, rt') \<Longrightarrow> run_step pol rt rt'"
| moves: "driver_step i rt rt' \<Longrightarrow> run_step pol rt rt'"
| returns: "active_task rt i \<Longrightarrow> state_in (rt_nodes rt) i \<in> {Some VALIDATED, Some BLOCKED} \<Longrightarrow>
    run_step pol rt (set_task i (fresh_task \<lparr> tk_done := True \<rparr>) rt)"
| crashes: "map_of (rt_pending rt) i = Some t \<Longrightarrow> \<not> tk_done t \<Longrightarrow>
    run_step pol rt (set_task i (t \<lparr> tk_done := True, tk_crash := Some reason \<rparr>) rt)"
| cancelled: "map_of (rt_pending rt) i = Some t \<Longrightarrow> \<not> tk_done t \<Longrightarrow> tk_cancelling t \<Longrightarrow>
    run_step pol rt (set_task i (t \<lparr> tk_done := True \<rparr>) rt)"

definition reachable :: "runtime_policy \<Rightarrow> work_graph \<Rightarrow> runtime \<Rightarrow> bool" where
  "reachable pol g rt \<longleftrightarrow> (run_step pol)\<^sup>*\<^sup>* (DagRuntime g) rt"

text \<open>The states in which the main coroutine is still in its loop.\<close>

definition in_loop :: "runtime_policy \<Rightarrow> work_graph \<Rightarrow> runtime \<Rightarrow> bool" where
  "in_loop pol g rt \<longleftrightarrow> reachable pol g rt \<and> \<not> rt_cancel_requested rt"


section \<open>Lemmas\<close>

subsection \<open>What the steps keep of a node\<close>

text \<open>
  The steps that a node's record may take anywhere in the run: the work stays, a validated node stays
  as it is, and a blocked node without recorded failures stays blocked.
\<close>

definition node_kept :: "node_run \<Rightarrow> node_run \<Rightarrow> bool" where
  "node_kept r r' \<longleftrightarrow> nr_node r' = nr_node r \<and>
     (nr_state r = VALIDATED \<longrightarrow> nr_state r' = VALIDATED \<and> nr_commit r' = nr_commit r) \<and>
     (nr_state r = BLOCKED \<and> nr_failures r = [] \<longrightarrow> nr_state r' = BLOCKED \<and> nr_failures r' = [])"

definition nodes_kept :: "(node_id, node_run) dict \<Rightarrow> (node_id, node_run) dict \<Rightarrow> bool" where
  "nodes_kept d d' \<longleftrightarrow> map fst d' = map fst d \<and>
     (\<forall>i r. map_of d i = Some r \<longrightarrow> (\<exists>r'. map_of d' i = Some r' \<and> node_kept r r'))"

lemma node_kept_refl: "node_kept r r"
  by (simp add: node_kept_def)

lemma node_kept_trans: "node_kept a b \<Longrightarrow> node_kept b c \<Longrightarrow> node_kept a c"
  by (auto simp: node_kept_def)

lemma nodes_kept_refl: "nodes_kept d d"
  by (auto simp: nodes_kept_def intro: node_kept_refl)

lemma nodes_kept_trans: "nodes_kept a b \<Longrightarrow> nodes_kept b c \<Longrightarrow> nodes_kept a c"
  unfolding nodes_kept_def by (metis node_kept_trans)

lemma map_of_key: "map_of d i = Some r \<Longrightarrow> i \<in> set (map fst d)"
  by (metis image_eqI fst_conv map_of_SomeD list.set_map)

lemma nodes_kept_put:
  "map_of d i = Some r \<Longrightarrow> node_kept r r' \<Longrightarrow> nodes_kept d (dict_put i r' d)"
  unfolding nodes_kept_def
  by (auto simp: keys_dict_put_present map_of_key [unfolded list.set_map] intro: node_kept_refl)

lemma map_of_map_snd: "map_of (map (\<lambda>(i, r). (i, f r)) d) i = map_option f (map_of d i)"
  by (induction d) auto

lemma kept_cancel_run: "nodes_kept (rt_nodes rt) (rt_nodes (handle_cancel_run req rt))"
proof -
  have "node_kept r (fst (cancel_run_node r))" for r
    by (cases "nr_state r") (auto simp: cancel_run_node_def node_kept_def active_states_def Let_def)
  then show ?thesis by (auto simp: nodes_kept_def handle_cancel_run_def map_of_map_snd comp_def case_prod_beta)
qed

lemma kept_cancel_node: "nodes_kept (rt_nodes rt) (rt_nodes (handle_cancel_node req rt))"
  by (auto simp: handle_cancel_node_def rt_update_defs nodes_kept_refl node_kept_def active_states_def Let_def
      intro!: nodes_kept_put split: option.split)

lemma kept_retry_node: "nodes_kept (rt_nodes rt) (rt_nodes (handle_retry_node pol req rt))"
  by (auto simp: handle_retry_node_def rt_update_defs nodes_kept_refl node_kept_def Let_def
      intro!: nodes_kept_put split: option.split)

lemma kept_poll: "nodes_kept (rt_nodes rt) (rt_nodes (snd (poll_controls pol reqs rt)))"
proof (induction pol reqs rt rule: poll_controls.induct)
  case (2 pol req reqs rt)
  let ?rt = "rt \<lparr> rt_processed_controls := cq_id req # rt_processed_controls rt \<rparr>"
  show ?case
    using 2 kept_cancel_run [of ?rt req] kept_cancel_node [of ?rt req] kept_retry_node [of ?rt pol req]
    by (auto simp: Let_def rt_update_defs intro: nodes_kept_trans)
qed (simp add: nodes_kept_refl)

lemma kept_propagate: "nodes_kept (rt_nodes rt) (rt_nodes (propagate_blocks rt))"
proof -
  note more = propagate_blocks_more [of rt]
  have "\<exists>r'. map_of (rt_nodes (propagate_blocks rt)) i = Some r' \<and> node_kept r r'"
    if "map_of (rt_nodes rt) i = Some r" for i r
    by (rule blocks_more_cases [OF more, of i]) (use that in \<open>auto simp: node_kept_def\<close>)
  then show ?thesis using more by (simp add: nodes_kept_def blocks_more_def)
qed

lemma kept_crash: "nodes_kept (rt_nodes rt) (rt_nodes (crash_node i reason rt))"
  by (auto simp: crash_node_def rt_update_defs nodes_kept_refl node_kept_def intro!: nodes_kept_put split: option.split)

lemma kept_reap: "nodes_kept (rt_nodes rt) (rt_nodes (reap ts rt))"
proof (induction ts rt rule: reap.induct)
  case (2 i t ts rt)
  let ?rt = "rt \<lparr> rt_pending := dict_del i (rt_pending rt) \<rparr>"
  show ?case using 2 kept_crash [of ?rt i]
    by (cases "tk_crash t") (auto simp: Let_def intro: nodes_kept_trans)
qed (simp add: nodes_kept_refl)

lemma rt_nodes_spawn [simp]: "rt_nodes (spawn ids rt) = rt_nodes rt"
  unfolding spawn_def by (induction ids arbitrary: rt) auto

lemma kept_main_turn: "nodes_kept (rt_nodes rt) (rt_nodes (snd (main_turn pol reqs rt)))"
  using kept_reap [of rt "rt_pending rt"] kept_poll [of "reap (rt_pending rt) rt" pol reqs]
    kept_propagate [of "snd (poll_controls pol reqs (reap (rt_pending rt) rt))"]
  by (auto simp: main_turn_def Let_def split: prod.splits bool.splits intro: nodes_kept_trans)

lemma kept_step: "run_step pol rt rt' \<Longrightarrow> nodes_kept (rt_nodes rt) (rt_nodes rt')"
proof (induction rule: run_step.induct)
  case (turns rt reqs stop rt')
  then show ?case using kept_main_turn [of rt pol reqs] by simp
next
  case (moves i rt rt')
  then show ?case
    by (cases rule: driver_step.cases) (auto simp: put_run_def node_kept_def intro!: nodes_kept_put)
qed (simp_all add: set_task_def nodes_kept_refl)

lemma kept_steps: "(run_step pol)\<^sup>*\<^sup>* rt rt' \<Longrightarrow> nodes_kept (rt_nodes rt) (rt_nodes rt')"
  by (induction rule: rtranclp_induct) (auto intro: nodes_kept_refl nodes_kept_trans dest: kept_step)


subsection \<open>The scheduling invariant\<close>

definition deps_validated :: "runtime \<Rightarrow> node_run \<Rightarrow> bool" where
  "deps_validated rt run \<longleftrightarrow>
     list_all (\<lambda>d. state_in (rt_nodes rt) d = Some VALIDATED) (wn_depends_on (nr_node run))"

text \<open>How the state of a node and its task fit together.\<close>

definition task_ok :: "task option \<Rightarrow> node_state \<Rightarrow> bool" where
  "task_ok pend st \<longleftrightarrow> (st \<notin> {PLANNED, VALIDATED, BLOCKED} \<longrightarrow> pend \<noteq> None) \<and>
     (\<forall>t. pend = Some t \<longrightarrow> (tk_cancelling t \<longrightarrow> st = BLOCKED) \<and>
        (tk_done t \<and> tk_crash t = None \<longrightarrow> st \<in> {VALIDATED, BLOCKED}))"

definition sched_inv :: "runtime \<Rightarrow> bool" where
  "sched_inv rt \<longleftrightarrow> (\<forall>i run. map_of (rt_nodes rt) i = Some run \<longrightarrow>
     task_ok (map_of (rt_pending rt) i) (nr_state run) \<and>
     (nr_state run \<notin> {PLANNED, BLOCKED} \<or> map_of (rt_pending rt) i \<noteq> None \<longrightarrow> deps_validated rt run))"

definition no_done :: "runtime \<Rightarrow> bool" where
  "no_done rt \<longleftrightarrow> (\<forall>i t. map_of (rt_pending rt) i = Some t \<longrightarrow> \<not> tk_done t)"

lemma kept_validated:
  "nodes_kept (rt_nodes rt) (rt_nodes rt') \<Longrightarrow> state_in (rt_nodes rt) d = Some VALIDATED \<Longrightarrow>
   state_in (rt_nodes rt') d = Some VALIDATED"
  by (fastforce simp: nodes_kept_def state_in_def node_kept_def)

lemma kept_deps:
  "nodes_kept (rt_nodes rt) (rt_nodes rt') \<Longrightarrow> nr_node run' = nr_node run \<Longrightarrow> deps_validated rt run \<Longrightarrow>
   deps_validated rt' run'"
  by (auto simp: deps_validated_def list_all_iff intro: kept_validated)

text \<open>
  A change of the runtime keeps the invariant when, for every node, the new task and state fit and a
  node that newly left the planned and blocked states or newly has a task has validated dependencies.
\<close>

lemma sched_inv_step:
  assumes "sched_inv rt" and kept: "nodes_kept (rt_nodes rt) (rt_nodes rt')"
    and ok: "\<And>i run run'. map_of (rt_nodes rt) i = Some run \<Longrightarrow> map_of (rt_nodes rt') i = Some run' \<Longrightarrow>
      task_ok (map_of (rt_pending rt) i) (nr_state run) \<Longrightarrow> nr_node run' = nr_node run \<Longrightarrow>
      task_ok (map_of (rt_pending rt') i) (nr_state run') \<and>
      (nr_state run' \<notin> {PLANNED, BLOCKED} \<or> map_of (rt_pending rt') i \<noteq> None \<longrightarrow>
         nr_state run \<notin> {PLANNED, BLOCKED} \<or> map_of (rt_pending rt) i \<noteq> None \<or> deps_validated rt run)"
  shows "sched_inv rt'"
  unfolding sched_inv_def
proof (intro allI impI)
  fix i run'
  assume run': "map_of (rt_nodes rt') i = Some run'"
  then have "i \<in> set (map fst (rt_nodes rt))" using map_of_key kept by (metis nodes_kept_def)
  then obtain run where run: "map_of (rt_nodes rt) i = Some run"
    by (metis list.set_map map_of_eq_None_iff not_Some_eq)
  with kept run' have node: "nr_node run' = nr_node run" by (fastforce simp: nodes_kept_def node_kept_def)
  note old = assms(1) [unfolded sched_inv_def, rule_format, OF run]
  from ok [OF run run' conjunct1 [OF old] node]
  show "task_ok (map_of (rt_pending rt') i) (nr_state run') \<and>
      (nr_state run' \<notin> {PLANNED, BLOCKED} \<or> map_of (rt_pending rt') i \<noteq> None \<longrightarrow> deps_validated rt' run')"
    using old kept_deps [OF kept node] by blast
qed

lemma map_of_map_key: "map_of (map (\<lambda>(j, t). (j, f j t)) d) i = map_option (f i) (map_of d i)"
  by (induction d) auto

lemma cancel_node_cases:
  obtains "rt_nodes (handle_cancel_node req rt) = rt_nodes rt" "rt_pending (handle_cancel_node req rt) = rt_pending rt"
  | run where "map_of (rt_nodes rt) (request_node req) = Some run" "nr_state run \<in> set active_states"
      "rt_nodes (handle_cancel_node req rt) = dict_put (request_node req)
         (run \<lparr> nr_reason := ''cancelled_by_operator'', nr_state := BLOCKED \<rparr>) (rt_nodes rt)"
      "rt_pending (handle_cancel_node req rt) =
         map (\<lambda>(j, t). (j, if j = request_node req then t \<lparr> tk_cancelling := True \<rparr> else t)) (rt_pending rt)"
proof (cases "map_of (rt_nodes rt) (request_node req)")
  case None
  then show ?thesis by (auto intro: that(1) simp: handle_cancel_node_def emit_def Let_def)
next
  case (Some run)
  show ?thesis
  proof (cases "nr_state run \<in> set active_states")
    case True
    then have "TERMINAL_FAILURE \<in> set (TRANSITIONS (nr_state run)) \<or> BLOCKED \<in> set (TRANSITIONS (nr_state run))"
      by (auto simp: active_states_def)
    then show ?thesis
      by (intro that(2) [OF Some True]; elim disjE)
         (simp_all add: handle_cancel_node_def rt_update_defs Let_def Some True)
  next
    case False
    with Some show ?thesis by (auto intro: that(1) simp: handle_cancel_node_def emit_def Let_def)
  qed
qed

lemma inv_cancel_node:
  assumes "sched_inv rt"
  shows "sched_inv (handle_cancel_node req rt)"
proof (rule sched_inv_step [OF assms kept_cancel_node])
  fix i run run'
  assume h: "map_of (rt_nodes rt) i = Some run" "map_of (rt_nodes (handle_cancel_node req rt)) i = Some run'"
    "task_ok (map_of (rt_pending rt) i) (nr_state run)"
  show "task_ok (map_of (rt_pending (handle_cancel_node req rt)) i) (nr_state run') \<and>
      (nr_state run' \<notin> {PLANNED, BLOCKED} \<or> map_of (rt_pending (handle_cancel_node req rt)) i \<noteq> None \<longrightarrow>
         nr_state run \<notin> {PLANNED, BLOCKED} \<or> map_of (rt_pending rt) i \<noteq> None \<or> deps_validated rt run)"
    by (rule cancel_node_cases [of req rt])
       (use h in \<open>auto simp: map_of_map_key task_ok_def split: if_splits\<close>)
qed

lemma inv_retry_node:
  assumes "sched_inv rt" and "no_done rt"
  shows "sched_inv (handle_retry_node pol req rt)"
  by (rule sched_inv_step [OF assms(1) kept_retry_node])
     (use assms(2) in \<open>auto simp: handle_retry_node_def rt_update_defs task_ok_def no_done_def driver_active_def Let_def
       split: option.splits if_splits\<close>)

lemma no_done_handlers:
  "no_done rt \<Longrightarrow> no_done (handle_cancel_node req rt)" "no_done rt \<Longrightarrow> no_done (handle_retry_node pol req rt)"
  by (auto simp: no_done_def handle_cancel_node_def handle_retry_node_def rt_update_defs map_of_map_key Let_def
      split: option.splits if_splits)

lemma inv_controls_irrelevant:
  "sched_inv (rt \<lparr> rt_processed_controls := c \<rparr>) = sched_inv rt" "no_done (rt \<lparr> rt_processed_controls := c \<rparr>) = no_done rt"
  "sched_inv (emit e rt) = sched_inv rt" "no_done (emit e rt) = no_done rt"
  by (simp_all add: sched_inv_def no_done_def deps_validated_def emit_def)

lemma inv_poll:
  "sched_inv rt \<Longrightarrow> no_done rt \<Longrightarrow> fst (poll_controls pol reqs rt) = False \<Longrightarrow>
   sched_inv (snd (poll_controls pol reqs rt)) \<and> no_done (snd (poll_controls pol reqs rt))"
proof (induction pol reqs rt rule: poll_controls.induct)
  case (2 pol req reqs rt)
  let ?rt = "rt \<lparr> rt_processed_controls := cq_id req # rt_processed_controls rt \<rparr>"
  have i: "sched_inv ?rt" "no_done ?rt" using "2.prems" by (simp_all add: inv_controls_irrelevant)
  show ?case
    using 2 inv_cancel_node [OF i(1)] inv_retry_node [OF i] no_done_handlers [OF i(2)] i
    by (auto simp: Let_def inv_controls_irrelevant split: if_splits)
qed simp


lemma crash_state:
  "state_in (rt_nodes (crash_node i reason rt)) j =
     (if j = i then map_option (\<lambda>s. if s \<in> {VALIDATED, BLOCKED} then s else BLOCKED) (state_in (rt_nodes rt) j)
      else state_in (rt_nodes rt) j)"
  by (auto simp: crash_node_def rt_update_defs state_in_def split: option.split)

lemma crash_pending [simp]: "rt_pending (crash_node i reason rt) = rt_pending rt"
  by (simp add: crash_node_def rt_update_defs split: option.split)

lemma reap_pending:
  "map_of (rt_pending (reap ts rt)) i =
     (if \<exists>t. (i, t) \<in> set ts \<and> tk_done t then None else map_of (rt_pending rt) i)"
  by (induction ts rt rule: reap.induct) (auto simp: Let_def split: option.splits)

lemma reap_state:
  "state_in (rt_nodes (reap ts rt)) i =
     (if \<exists>t. (i, t) \<in> set ts \<and> tk_done t \<and> tk_crash t \<noteq> None
      then map_option (\<lambda>s. if s \<in> {VALIDATED, BLOCKED} then s else BLOCKED) (state_in (rt_nodes rt) i)
      else state_in (rt_nodes rt) i)"
proof (induction ts rt rule: reap.induct)
  case (2 j t ts rt)
  show ?case
  proof (cases "tk_done t")
    case True
    have pend: "state_in (rt_nodes (rt \<lparr> rt_pending := p \<rparr>)) i = state_in (rt_nodes rt) i" for p by simp
    show ?thesis using 2 True
      by (cases "tk_crash t")
        (auto simp: Let_def crash_state pend option.map_comp comp_def intro!: option.map_cong0)
  qed (use 2 in auto)
qed simp

lemma no_done_reap: "no_done (reap (rt_pending rt) rt)"
  by (auto simp: no_done_def reap_pending split: if_splits dest: map_of_SomeD)

lemma inv_reap:
  assumes inv: "sched_inv rt" and wf: "dict_wf (rt_pending rt)"
  shows "sched_inv (reap (rt_pending rt) rt)"
proof (rule sched_inv_step [OF inv kept_reap])
  fix i run run'
  assume run: "map_of (rt_nodes rt) i = Some run" "map_of (rt_nodes (reap (rt_pending rt) rt)) i = Some run'"
    and ok: "task_ok (map_of (rt_pending rt) i) (nr_state run)"
  let ?p = "map_of (rt_pending rt) i"
  have mem: "(i, t) \<in> set (rt_pending rt) \<longleftrightarrow> ?p = Some t" for t
    using wf by (auto simp: dict_wf_def dest: map_of_SomeD)
  have st: "nr_state run' = (if \<exists>t. ?p = Some t \<and> tk_done t \<and> tk_crash t \<noteq> None then
      (if nr_state run \<in> {VALIDATED, BLOCKED} then nr_state run else BLOCKED) else nr_state run)"
    using reap_state [of "rt_pending rt" rt i] run by (auto simp: state_in_def mem split: if_splits)
  show "task_ok (map_of (rt_pending (reap (rt_pending rt) rt)) i) (nr_state run') \<and>
      (nr_state run' \<notin> {PLANNED, BLOCKED} \<or> map_of (rt_pending (reap (rt_pending rt) rt)) i \<noteq> None \<longrightarrow>
         nr_state run \<notin> {PLANNED, BLOCKED} \<or> ?p \<noteq> None \<or> deps_validated rt run)"
    using ok unfolding reap_pending mem st by (cases ?p) (auto simp: task_ok_def)
qed

lemma inv_propagate:
  assumes "sched_inv rt"
  shows "sched_inv (propagate_blocks rt)"
proof (rule sched_inv_step [OF assms kept_propagate])
  fix i run run'
  assume "map_of (rt_nodes rt) i = Some run" "map_of (rt_nodes (propagate_blocks rt)) i = Some run'"
    and ok: "task_ok (map_of (rt_pending rt) i) (nr_state run)"
  then have "nr_state run' = nr_state run \<or> (nr_state run = PLANNED \<and> nr_state run' = BLOCKED)"
    by (rule_tac blocks_more_cases [OF propagate_blocks_more [of rt], of i]) auto
  moreover have "rt_pending (propagate_blocks rt) = rt_pending rt"
    using propagate_blocks_more [of rt] by (simp add: blocks_more_def)
  ultimately show "task_ok (map_of (rt_pending (propagate_blocks rt)) i) (nr_state run') \<and>
      (nr_state run' \<notin> {PLANNED, BLOCKED} \<or> map_of (rt_pending (propagate_blocks rt)) i \<noteq> None \<longrightarrow>
         nr_state run \<notin> {PLANNED, BLOCKED} \<or> map_of (rt_pending rt) i \<noteq> None \<or> deps_validated rt run)"
    using ok by (auto simp: task_ok_def)
qed

lemma spawn_snoc:
  "spawn (xs @ [x]) rt = (if map_of (rt_pending (spawn xs rt)) x \<noteq> None then spawn xs rt
     else (spawn xs rt) \<lparr> rt_pending := rt_pending (spawn xs rt) @ [(x, fresh_task)] \<rparr>)"
  by (simp add: spawn_def map_of_eq_None_iff)

lemma spawn_pending:
  "map_of (rt_pending (spawn ids rt)) i =
     (case map_of (rt_pending rt) i of Some t \<Rightarrow> Some t | None \<Rightarrow> if i \<in> set ids then Some fresh_task else None)"
proof (induction ids rule: rev_induct)
  case Nil
  then show ?case by (simp add: spawn_def split: option.split)
next
  case (snoc x xs)
  show ?case
  proof (cases "i = x")
    case True
    then show ?thesis using snoc by (auto simp: spawn_snoc map_add_def split: option.splits if_splits)
  next
    case False
    then show ?thesis using snoc by (auto simp: spawn_snoc map_add_def split: option.splits)
  qed
qed

lemma spawn_wf: "dict_wf (rt_pending rt) \<Longrightarrow> dict_wf (rt_pending (spawn ids rt))"
  unfolding spawn_def by (induction ids arbitrary: rt) (auto simp: dict_wf_def)

lemma ready_iff:
  assumes "dict_wf (rt_nodes rt)" and "map_of (rt_nodes rt) i = Some run"
  shows "i \<in> set (ready rt) \<longleftrightarrow> \<not> rt_cancel_requested rt \<and> nr_state run = PLANNED \<and> deps_validated rt run"
proof -
  have "(i, r) \<in> set (rt_nodes rt) \<longleftrightarrow> r = run" for r
    using assms by (metis dict_wf_def map_of_SomeD map_of_is_SomeI option.inject)
  then show ?thesis by (auto simp: ready_def deps_validated_def image_iff)
qed

lemma inv_spawn:
  assumes "sched_inv rt" and "dict_wf (rt_nodes rt)"
  shows "sched_inv (spawn (ready rt) rt)"
  by (rule sched_inv_step [OF assms(1)])
     (auto simp: nodes_kept_refl spawn_pending ready_iff [OF assms(2)] task_ok_def fresh_task_def split: option.splits if_splits)


text \<open>The whole invariant: the schedule, distinct keys and no cancelled run.\<close>

definition run_inv :: "runtime \<Rightarrow> bool" where
  "run_inv rt \<longleftrightarrow> sched_inv rt \<and> dict_wf (rt_nodes rt) \<and> dict_wf (rt_pending rt) \<and> \<not> rt_cancel_requested rt"

lemma nodes_kept_wf: "nodes_kept d d' \<Longrightarrow> dict_wf d \<Longrightarrow> dict_wf d'"
  by (simp add: nodes_kept_def dict_wf_def)

lemma wf_map_key: "dict_wf (map (\<lambda>(j, t). (j, f j t)) d) = dict_wf d"
  by (simp add: dict_wf_def comp_def case_prod_beta)

lemma handlers_frame:
  "dict_wf (rt_pending rt) \<Longrightarrow> dict_wf (rt_pending (handle_cancel_node req rt))"
  "rt_pending (handle_retry_node pol req rt) = rt_pending rt"
  "rt_cancel_requested (handle_cancel_node req rt) = rt_cancel_requested rt"
  "rt_cancel_requested (handle_retry_node pol req rt) = rt_cancel_requested rt"
  by (simp_all add: handle_cancel_node_def handle_retry_node_def rt_update_defs wf_map_key Let_def split: option.split)

lemma poll_frame:
  "fst (poll_controls pol reqs rt) = False \<Longrightarrow> dict_wf (rt_pending rt) \<Longrightarrow>
   dict_wf (rt_pending (snd (poll_controls pol reqs rt))) \<and>
   rt_cancel_requested (snd (poll_controls pol reqs rt)) = rt_cancel_requested rt"
  by (induction pol reqs rt rule: poll_controls.induct)
     (auto simp: Let_def handlers_frame emit_def split: if_splits)

lemma reap_frame:
  "dict_wf (rt_pending rt) \<Longrightarrow> dict_wf (rt_pending (reap ts rt))"
  "rt_cancel_requested (reap ts rt) = rt_cancel_requested rt"
  by (induction ts rt rule: reap.induct)
     (auto simp: Let_def dict_wf_del crash_node_def rt_update_defs split: option.splits)

lemma spawn_frame [simp]: "rt_cancel_requested (spawn ids rt) = rt_cancel_requested rt"
  unfolding spawn_def by (induction ids arbitrary: rt) auto

lemma main_turn_inv:
  assumes "run_inv rt" and "main_turn pol reqs rt = (False, rt')"
  shows "run_inv rt'"
proof -
  let ?r = "reap (rt_pending rt) rt"
  let ?p = "snd (poll_controls pol reqs ?r)"
  have r: "sched_inv ?r" "no_done ?r" "dict_wf (rt_pending ?r)" "\<not> rt_cancel_requested ?r" "dict_wf (rt_nodes ?r)"
    using assms(1) inv_reap no_done_reap reap_frame nodes_kept_wf [OF kept_reap] by (auto simp: run_inv_def)
  have f: "fst (poll_controls pol reqs ?r) = False" and rt': "rt' = spawn (ready (propagate_blocks ?p)) (propagate_blocks ?p)"
    using assms(2) by (auto simp: main_turn_def Let_def split: prod.splits bool.splits)
  have p: "sched_inv ?p" "dict_wf (rt_pending ?p)" "\<not> rt_cancel_requested ?p" "dict_wf (rt_nodes ?p)"
    using inv_poll [OF r(1,2) f] poll_frame [OF f r(3)] r nodes_kept_wf [OF kept_poll] by auto
  have b: "sched_inv (propagate_blocks ?p)" "dict_wf (rt_nodes (propagate_blocks ?p))"
    "rt_pending (propagate_blocks ?p) = rt_pending ?p" "rt_cancel_requested (propagate_blocks ?p) = rt_cancel_requested ?p"
    using inv_propagate [OF p(1)] nodes_kept_wf [OF kept_propagate p(4)] propagate_blocks_more [of ?p]
    by (auto simp: blocks_more_def)
  show ?thesis unfolding rt' run_inv_def
    using inv_spawn [OF b(1,2)] b p by (simp add: spawn_wf)
qed

lemma driver_step_inv:
  assumes "driver_step i rt rt'" and "run_inv rt"
  shows "run_inv rt'"
  using assms(1)
proof cases
  case (drives run run' es)
  have kept: "nodes_kept (rt_nodes rt) (rt_nodes rt')"
    using kept_step [OF run_step.moves [OF assms(1)]] .
  have "sched_inv rt'"
    by (rule sched_inv_step [OF _ kept])
       (use assms(2) drives in \<open>auto simp: run_inv_def put_run_def active_task_def task_ok_def split: if_splits option.splits\<close>)
  then show ?thesis
    using assms(2) drives nodes_kept_wf [OF kept] by (auto simp: run_inv_def put_run_def)
qed

lemma set_task_inv:
  assumes "run_inv rt" and "map_of (rt_pending rt) i = Some t0"
    and "\<And>run. map_of (rt_nodes rt) i = Some run \<Longrightarrow> task_ok (map_of (rt_pending rt) i) (nr_state run) \<Longrightarrow>
      task_ok (Some t) (nr_state run)"
  shows "run_inv (set_task i t rt)"
proof -
  have "sched_inv (set_task i t rt)"
    by (rule sched_inv_step [of rt])
       (use assms in \<open>auto simp: run_inv_def set_task_def nodes_kept_refl\<close>)
  then show ?thesis using assms by (simp add: run_inv_def set_task_def dict_wf_put)
qed

text \<open>
  After a cancellation: every task is to be cancelled, so no driver moves its node and no node changes,
  and the barrier before dependent work still holds.
\<close>

definition winding_down :: "runtime \<Rightarrow> bool" where
  "winding_down rt \<longleftrightarrow> rt_cancel_requested rt \<and> (\<forall>i t. map_of (rt_pending rt) i = Some t \<longrightarrow> tk_cancelling t)"

definition barrier_held :: "runtime \<Rightarrow> bool" where
  "barrier_held rt \<longleftrightarrow> (\<forall>i run. map_of (rt_nodes rt) i = Some run \<longrightarrow>
     nr_state run \<notin> {PLANNED, BLOCKED} \<longrightarrow> deps_validated rt run)"

lemma run_inv_barrier: "run_inv rt \<Longrightarrow> barrier_held rt"
  by (auto simp: run_inv_def sched_inv_def barrier_held_def)

lemma cancel_run_winds_down: "winding_down (handle_cancel_run req rt)"
  by (auto simp: winding_down_def handle_cancel_run_def cancel_tasks_def map_of_map_snd)

lemma cancel_run_barrier:
  assumes "sched_inv rt"
  shows "barrier_held (handle_cancel_run req rt)"
  unfolding barrier_held_def
proof (intro allI impI)
  fix i run'
  assume h: "map_of (rt_nodes (handle_cancel_run req rt)) i = Some run'" "nr_state run' \<notin> {PLANNED, BLOCKED}"
  then obtain run where run: "map_of (rt_nodes rt) i = Some run" "run' = fst (cancel_run_node run)"
    by (auto simp: handle_cancel_run_def map_of_map_snd)
  with h have "nr_state run \<notin> {PLANNED, BLOCKED}" "nr_node run' = nr_node run"
    by (auto simp: cancel_run_node_def active_states_def Let_def split: if_splits)
  then show "deps_validated (handle_cancel_run req rt) run'"
    using assms run(1) kept_deps [OF kept_cancel_run] by (auto simp: sched_inv_def)
qed

lemma poll_stops:
  "sched_inv rt \<Longrightarrow> no_done rt \<Longrightarrow> poll_controls pol reqs rt = (True, rt') \<Longrightarrow> winding_down rt' \<and> barrier_held rt'"
proof (induction pol reqs rt rule: poll_controls.induct)
  case (2 pol req reqs rt)
  let ?rt = "rt \<lparr> rt_processed_controls := cq_id req # rt_processed_controls rt \<rparr>"
  have i: "sched_inv ?rt" "no_done ?rt" using "2.prems" by (simp_all add: inv_controls_irrelevant)
  consider (seen) "cq_id req \<in> set (rt_processed_controls rt)"
    | (run) "cq_id req \<notin> set (rt_processed_controls rt)" "cq_kind req = ''cancel_run''"
    | (node) "cq_id req \<notin> set (rt_processed_controls rt)" "cq_kind req = ''cancel_node''"
    | (retry) "cq_id req \<notin> set (rt_processed_controls rt)" "cq_kind req = ''retry_node''"
    | (other) "cq_id req \<notin> set (rt_processed_controls rt)" "cq_kind req \<notin> {''cancel_run'', ''cancel_node'', ''retry_node''}"
    by blast
  then show ?case
  proof cases
    case seen
    then show ?thesis using "2.IH"(1) [OF seen "2.prems"(1,2)] "2.prems"(3) by simp
  next
    case run
    then have "rt' = handle_cancel_run req ?rt" using "2.prems"(3) by (simp add: Let_def)
    then show ?thesis using cancel_run_winds_down cancel_run_barrier [OF i(1)] by simp
  next
    case node
    then have "cq_kind req \<noteq> ''cancel_run''" by simp
    from "2.IH"(2) [OF node(1) refl this node(2) inv_cancel_node [OF i(1)] no_done_handlers(1) [OF i(2)]] node "2.prems"(3)
    show ?thesis by (simp add: Let_def)
  next
    case retry
    then have "cq_kind req \<noteq> ''cancel_run''" "cq_kind req \<noteq> ''cancel_node''" by simp_all
    from "2.IH"(3) [OF retry(1) refl this retry(2) inv_retry_node [OF i] no_done_handlers(2) [OF i(2)]] retry "2.prems"(3)
    show ?thesis by (simp add: Let_def)
  next
    case other
    then have "cq_kind req \<noteq> ''cancel_run''" "cq_kind req \<noteq> ''cancel_node''" "cq_kind req \<noteq> ''retry_node''" by simp_all
    from "2.IH"(4) [OF other(1) refl this] this i other(1) "2.prems"(3)
    show ?thesis by (simp add: Let_def inv_controls_irrelevant)
  qed
qed simp

lemma main_turn_stops:
  assumes "run_inv rt" and "main_turn pol reqs rt = (True, rt')"
  shows "winding_down rt' \<and> barrier_held rt'"
proof (rule poll_stops)
  show "sched_inv (reap (rt_pending rt) rt)" using assms(1) by (simp add: run_inv_def inv_reap)
  show "poll_controls pol reqs (reap (rt_pending rt) rt) = (True, rt')"
    using assms(2) by (auto simp: main_turn_def Let_def split: prod.splits bool.splits)
qed (rule no_done_reap)

lemma winding_down_step:
  assumes "run_step pol rt rt'" and "winding_down rt"
  shows "winding_down rt' \<and> rt_nodes rt' = rt_nodes rt"
  using assms
proof (induction rule: run_step.induct)
  case (moves i rt rt')
  then show ?case
    by (cases rule: driver_step.cases) (auto simp: winding_down_def active_task_def split: option.splits)
qed (auto simp: winding_down_def set_task_def active_task_def split: option.splits if_splits)

lemma winding_down_steps:
  assumes "(run_step pol)\<^sup>*\<^sup>* rt rt'" and "winding_down rt"
  shows "winding_down rt' \<and> rt_nodes rt' = rt_nodes rt"
  using assms by (induction rule: rtranclp_induct) (auto dest: winding_down_step)

lemma barrier_of_nodes: "rt_nodes rt' = rt_nodes rt \<Longrightarrow> barrier_held rt' = barrier_held rt"
  by (simp add: barrier_held_def deps_validated_def)

lemma run_step_inv: "run_step pol rt rt' \<Longrightarrow> run_inv rt \<Longrightarrow> run_inv rt' \<or> winding_down rt' \<and> barrier_held rt'"
proof (induction rule: run_step.induct)
  case (turns rt reqs stop rt')
  show ?case
  proof (cases stop)
    case True
    then show ?thesis using main_turn_stops [of rt pol reqs rt'] turns by simp
  next
    case False
    then show ?thesis using main_turn_inv [of rt pol reqs rt'] turns by simp
  qed
next
  case (moves i rt rt')
  then show ?case by (blast intro: driver_step_inv)
next
  case (returns rt i)
  then have "run_inv (set_task i (fresh_task \<lparr> tk_done := True \<rparr>) rt)"
    by (auto simp: active_task_def task_ok_def fresh_task_def state_in_def split: option.splits intro!: set_task_inv)
  then show ?case ..
next
  case (crashes rt i t reason)
  then have "run_inv (set_task i (t \<lparr> tk_done := True, tk_crash := Some reason \<rparr>) rt)"
    by (auto simp: task_ok_def intro!: set_task_inv)
  then show ?case ..
next
  case (cancelled rt i t)
  then have "run_inv (set_task i (t \<lparr> tk_done := True \<rparr>) rt)" by (auto simp: task_ok_def intro!: set_task_inv)
  then show ?case ..
qed

lemma initial_inv: "distinct (node_ids (wg_nodes g)) \<Longrightarrow> run_inv (DagRuntime g)"
proof -
  assume d: "distinct (node_ids (wg_nodes g))"
  then have n: "rt_nodes (DagRuntime g) = map (\<lambda>n. (wn_node_id n, NodeRun n)) (wg_nodes g)"
    by (simp add: DagRuntime_def dict_of_distinct node_ids_def comp_def)
  have "nr_state run = PLANNED" if "map_of (rt_nodes (DagRuntime g)) i = Some run" for i run
    using map_of_SomeD [OF that] unfolding n by (auto simp: NodeRun_def)
  then show ?thesis
    using d by (auto simp: run_inv_def sched_inv_def task_ok_def dict_wf_def n node_ids_def comp_def)
       (auto simp: DagRuntime_def)
qed

lemma reachable_inv:
  assumes "distinct (node_ids (wg_nodes g))" and "reachable pol g rt"
  shows "run_inv rt \<or> winding_down rt \<and> barrier_held rt"
  using assms(2) unfolding reachable_def
proof (induction rule: rtranclp_induct)
  case base
  then show ?case using initial_inv [OF assms(1)] ..
next
  case (step rt rt')
  then show ?case using run_step_inv winding_down_step barrier_of_nodes by blast
qed

lemma in_loop_inv: "distinct (node_ids (wg_nodes g)) \<Longrightarrow> in_loop pol g rt \<Longrightarrow> run_inv rt"
  using reachable_inv [of g pol rt] by (auto simp: in_loop_def winding_down_def)

lemma in_loop_turn:
  assumes "distinct (node_ids (wg_nodes g))" and "in_loop pol g rt" and "main_turn pol reqs rt = (False, rt')"
  shows "in_loop pol g rt'"
proof -
  have "run_inv rt'" using main_turn_inv [OF in_loop_inv [OF assms(1,2)] assms(3)] .
  moreover have "reachable pol g rt'"
    using assms(2) run_step.turns [OF _ assms(3)] unfolding in_loop_def reachable_def
    by (meson rtranclp.rtrancl_into_rtrancl)
  ultimately show ?thesis by (simp add: in_loop_def run_inv_def)
qed


subsection \<open>Nodes of a reachable state\<close>

lemma initial_nodes:
  assumes "distinct (node_ids (wg_nodes g))" and "n \<in> set (wg_nodes g)"
  shows "map_of (rt_nodes (DagRuntime g)) (wn_node_id n) = Some (NodeRun n)"
proof -
  have "rt_nodes (DagRuntime g) = map (\<lambda>n. (wn_node_id n, NodeRun n)) (wg_nodes g)"
    using assms(1) by (simp add: DagRuntime_def dict_of_distinct node_ids_def comp_def)
  then show ?thesis using assms by (auto simp: node_ids_def comp_def intro!: map_of_is_SomeI)
qed

lemma reachable_kept: "reachable pol g rt \<Longrightarrow> nodes_kept (rt_nodes (DagRuntime g)) (rt_nodes rt)"
  unfolding reachable_def by (rule kept_steps)

lemma reachable_node:
  assumes "distinct (node_ids (wg_nodes g))" and "nodes_kept (rt_nodes (DagRuntime g)) (rt_nodes rt)"
    and "map_of (rt_nodes rt) i = Some run"
  obtains n where "n \<in> set (wg_nodes g)" "wn_node_id n = i" "nr_node run = n"
proof -
  have "i \<in> set (map fst (rt_nodes (DagRuntime g)))"
    using map_of_key [OF assms(3)] assms(2) by (metis nodes_kept_def)
  then obtain n where n: "n \<in> set (wg_nodes g)" "wn_node_id n = i"
    using assms(1) by (auto simp: DagRuntime_def dict_of_distinct node_ids_def comp_def)
  with initial_nodes [OF assms(1) n(1)] assms(2,3) have "nr_node run = n"
    by (fastforce simp: nodes_kept_def node_kept_def NodeRun_def)
  with n show ?thesis by (rule that)
qed

text \<open>
  When no task is left after a turn of the main coroutine, no node is left between its states: by
  induction along the dependencies, a planned node would have been blocked or started.
\<close>

lemma turn_without_tasks_settles:
  assumes valid: "closed_ids (wg_nodes g)" "acyclic (dep_rel (wg_nodes g))"
    and reach: "in_loop pol g rt" and turn: "main_turn pol reqs rt = (False, rt')" and idle: "rt_pending rt' = []"
    and run: "map_of (rt_nodes rt') i = Some run"
  shows "nr_state run \<in> {VALIDATED, BLOCKED}"
proof -
  have dist: "distinct (node_ids (wg_nodes g))" using valid(1) by (simp add: closed_ids_def)
  have reach': "in_loop pol g rt'" by (rule in_loop_turn [OF dist reach turn])
  have inv: "run_inv rt'" by (rule in_loop_inv [OF dist reach'])
  have kept: "nodes_kept (rt_nodes (DagRuntime g)) (rt_nodes rt')"
    using reach' reachable_kept [of pol g rt'] by (simp add: in_loop_def)
  obtain rt2 where rt2: "rt' = spawn (ready rt2) rt2" "rt2 = propagate_blocks (snd (poll_controls pol reqs (reap (rt_pending rt) rt)))"
    using turn by (auto simp: main_turn_def Let_def split: prod.splits bool.splits)
  have nodes: "rt_nodes rt2 = rt_nodes rt'" and cancel: "\<not> rt_cancel_requested rt2" and wf2: "dict_wf (rt_nodes rt2)"
    using rt2 inv by (simp_all add: run_inv_def)
  have idle2: "j \<notin> set (ready rt2)" for j
    using spawn_pending [of "ready rt2" rt2 j] rt2(1) idle by (auto split: option.splits)
  have settled: "nr_state r \<in> {PLANNED, VALIDATED, BLOCKED}" if "map_of (rt_nodes rt') j = Some r" for j r
    using inv that idle by (auto simp: run_inv_def sched_inv_def task_ok_def)
  have "wf (dep_rel (wg_nodes g))" by (rule finite_acyclic_wf [OF dep_rel_finite valid(2)])
  then have "\<forall>r. map_of (rt_nodes rt') i = Some r \<longrightarrow> nr_state r \<noteq> PLANNED"
  proof (induction i rule: wf_induct_rule)
    case (less i)
    show ?case
    proof (intro allI impI notI)
      fix r assume r: "map_of (rt_nodes rt') i = Some r" and planned: "nr_state r = PLANNED"
      obtain n where n: "n \<in> set (wg_nodes g)" "wn_node_id n = i" "nr_node r = n"
        by (rule reachable_node [OF dist kept r])
      have "state_in (rt_nodes rt') d = Some VALIDATED" if d: "d \<in> set (wn_depends_on n)" for d
      proof -
        have "(d, i) \<in> dep_rel (wg_nodes g)" using n d by (auto simp: dep_rel_def)
        moreover obtain m where m: "m \<in> set (wg_nodes g)" "wn_node_id m = d"
          using valid(1) n(1) d by (auto simp: closed_ids_def node_ids_def)
        then obtain rd where rd: "map_of (rt_nodes rt') d = Some rd"
          using initial_nodes [OF dist m(1)] kept m(2) by (fastforce simp: nodes_kept_def)
        ultimately have "nr_state rd \<noteq> PLANNED" using less by blast
        moreover have "nr_state rd \<noteq> BLOCKED"
          using propagate_blocks_quiet [of "snd (poll_controls pol reqs (reap (rt_pending rt) rt))" i r] r planned
            rt2(2) nodes n(3) d rd
          by (auto simp: blocked_deps_def filter_empty_conv state_in_def)
        ultimately show ?thesis using settled [OF rd] rd by (auto simp: state_in_def)
      qed
      then have "i \<in> set (ready rt2)"
        using ready_iff [OF wf2, of i r] r planned cancel nodes n(3) by (auto simp: deps_validated_def list_all_iff)
      with idle2 show False by blast
    qed
  qed
  with settled [OF run] run show ?thesis by auto
qed


subsection \<open>Drivers and steps\<close>

lemma active_put [simp]: "active_task (put_run i run rt \<lparr> rt_events := es \<rparr>) j = active_task rt j"
  by (simp add: active_task_def put_run_def)

text \<open>Moving a node along a lifecycle trace, ending in a given record with given events.\<close>

lemma trace_driver_steps:
  assumes "lifecycle_trace s ts u" and "active_task rt i" and "map_of (rt_nodes rt) i = Some run"
    and "nr_state run = s" and "nr_node final = nr_node run" and "nr_state final = u" and "ts \<noteq> []"
  shows "(driver_step i)\<^sup>*\<^sup>* rt (put_run i final rt \<lparr> rt_events := rt_events rt @ es \<rparr>)"
  using assms
proof (induction arbitrary: rt run rule: lifecycle_trace.induct)
  case (trace_cons s t ts u)
  have s: "s \<notin> {VALIDATED, BLOCKED}" using trace_cons.hyps(1) by (auto simp: lifecycle_step_iff)
  show ?case
  proof (cases "ts = []")
    case True
    then have "u = t" using trace_cons.hyps(2) by (auto elim: lifecycle_trace_nilE)
    then have "driver_step i rt (put_run i final rt \<lparr> rt_events := rt_events rt @ es \<rparr>)"
      using trace_cons.prems trace_cons.hyps(1) s by (intro driver_step.drives [of rt i run final]) auto
    then show ?thesis by auto
  next
    case False
    let ?run = "run \<lparr> nr_state := t \<rparr>"
    let ?rt = "put_run i ?run rt \<lparr> rt_events := rt_events rt @ [] \<rparr>"
    have step: "driver_step i rt ?rt"
      using trace_cons.prems trace_cons.hyps(1) s by (intro driver_step.drives [of rt i run ?run]) auto
    have "(driver_step i)\<^sup>*\<^sup>* ?rt (put_run i final ?rt \<lparr> rt_events := rt_events ?rt @ es \<rparr>)"
      using trace_cons.prems False
      by (intro trace_cons.IH [of ?rt ?run]) (auto simp: put_run_def active_task_def)
    moreover have "put_run i final ?rt \<lparr> rt_events := rt_events ?rt @ es \<rparr> =
        put_run i final rt \<lparr> rt_events := rt_events rt @ es \<rparr>"
      by (simp add: put_run_def)
    ultimately show ?thesis using step by (simp add: converse_rtranclp_into_rtranclp)
  qed
qed simp

lemma driver_steps_run_steps: "(driver_step i)\<^sup>*\<^sup>* rt rt' \<Longrightarrow> (run_step pol)\<^sup>*\<^sup>* rt rt'"
  by (induction rule: rtranclp_induct) (auto intro: run_step.moves rtranclp.rtrancl_into_rtrancl)


section \<open>Properties\<close>

text \<open>The step relation covers the drivers: a driver that starts on its planned node, with the
  node's record as its own, and returns, takes the runtime along driver steps to the state in which the
  record is the driver's final one and the driver's new events are appended.\<close>

theorem driver_refines_steps:
  assumes "active_task rt i" and "map_of (rt_nodes rt) i = Some (dr_run s)" and "nr_state (dr_run s) = PLANNED"
    and "drive cfg env s = Some (Inr (), t, n)"
  shows "\<exists>new. dr_events t = dr_events s @ new \<and>
    (driver_step i)\<^sup>*\<^sup>* rt (put_run i (dr_run t) rt \<lparr> rt_events := rt_events rt @ new \<rparr>)"
proof -
  from drive_terminates [OF assms(3), of cfg env] assms(4)
  have t: "traced s t" "nr_node (dr_run t) = nr_node (dr_run s)" "nr_state (dr_run t) \<noteq> PLANNED" by auto
  then obtain new where new: "dr_events t = dr_events s @ new"
    "lifecycle_trace PLANNED (states_of new) (nr_state (dr_run t))"
    using assms(3) by (auto simp: traced_def)
  moreover have "states_of new \<noteq> []" using new(2) t(3) by (auto elim: lifecycle_trace_nilE)
  ultimately show ?thesis using trace_driver_steps [OF new(2) assms(1,2,3) t(2) refl] by blast
qed

text \<open>C11. In every state that any interleaving of drivers, crashes, cancellations, retries and turns of
  the main coroutine can reach, a node that has left PLANNED without being blocked has only
  validated dependencies: the barrier before dependent work is never passed early.\<close>

theorem work_starts_after_dependencies:
  assumes "distinct (node_ids (wg_nodes g))" and "reachable pol g rt"
    and "map_of (rt_nodes rt) i = Some run" and "nr_state run \<notin> {PLANNED, BLOCKED}"
    and "d \<in> set (wn_depends_on (nr_node run))"
  shows "state_in (rt_nodes rt) d = Some VALIDATED"
proof -
  have "deps_validated rt run"
    using reachable_inv [OF assms(1,2)] run_inv_barrier assms(3,4) by (auto simp: barrier_held_def)
  then show ?thesis using assms(5) by (simp add: deps_validated_def list_all_iff)
qed

text \<open>C30. The scheduler never leaves work behind: for a valid plan, when a turn of the main coroutine
  ends with no task left (the condition to leave the loop), every node is VALIDATED or BLOCKED.\<close>

theorem loop_exit_leaves_nothing_open:
  assumes "valid_plan (wg_nodes g) (wg_max_parallel g)" and "in_loop pol g rt"
    and "main_turn pol reqs rt = (False, rt')" and "rt_pending rt' = []"
    and "map_of (rt_nodes rt') i = Some run"
  shows "nr_state run \<in> {VALIDATED, BLOCKED}"
  using turn_without_tasks_settles [OF _ _ assms(2-5)] assms(1) by (simp add: valid_plan_def)

text \<open>C32. A validated node is final: no step of the run, no control request, the cancellation of the whole run
  included, and no crash changes its state, its commit or its work.\<close>

theorem validated_is_final:
  assumes "(run_step pol)\<^sup>*\<^sup>* rt rt'" and "map_of (rt_nodes rt) i = Some run" and "nr_state run = VALIDATED"
  shows "\<exists>run'. map_of (rt_nodes rt') i = Some run' \<and> nr_state run' = VALIDATED \<and>
    nr_commit run' = nr_commit run \<and> nr_node run' = nr_node run"
  using kept_steps [OF assms(1)] assms(2,3) by (fastforce simp: nodes_kept_def node_kept_def)

text \<open>No sequence of control requests reopens a cancelled node: a node blocked with a reason that
  names the cancellation keeps its state and its reason.\<close>

theorem cancelled_node_stays_cancelled:
  assumes "map_of (rt_nodes rt) i = Some run" and "nr_state run = BLOCKED"
    and "contains_sub ''cancelled'' (nr_reason run)"
  shows "map_of (rt_nodes (snd (poll_controls pol reqs rt))) i = Some run"
  using assms
proof (induction pol reqs rt rule: poll_controls.induct)
  case (2 pol req reqs rt)
  have run: "map_of (rt_nodes (handle_cancel_run req rt')) i = Some run"
    "map_of (rt_nodes (handle_cancel_node req rt')) i = Some run"
    "map_of (rt_nodes (handle_retry_node pol req rt')) i = Some run"
    if "rt_nodes rt' = rt_nodes rt" for rt'
    using that "2.prems"
    by (auto simp: handle_cancel_run_def map_of_map_snd cancel_run_node_def active_states_def Let_def)
       (auto simp: handle_cancel_node_def handle_retry_node_def rt_update_defs active_states_def Let_def
         split: option.splits)
  show ?case using 2 by (auto simp: Let_def run emit_def)
qed simp


section \<open>A concrete run\<close>

text \<open>Two nodes, the second after the first: the first is validated and the second starts, or the
  driver of the first crashes.\<close>

definition sample_graph :: work_graph where
  "sample_graph = \<lparr> wg_goal = ''g'', wg_nodes = [sample_node ''a'' [] [''a.py''], sample_node ''b'' [''a''] [''b.py'']],
     wg_topology = SOLO, wg_rationale = [], wg_max_parallel = 2 \<rparr>"

definition sample_started :: runtime where
  "sample_started = snd (main_turn sample_policy [] (DagRuntime sample_graph))"

definition sample_done_a :: node_run where
  "sample_done_a = (NodeRun (sample_node ''a'' [] [''a.py''])) \<lparr> nr_state := VALIDATED, nr_commit := ''c'' \<rparr>"

definition sample_driven :: runtime where
  "sample_driven = put_run ''a'' sample_done_a sample_started \<lparr> rt_events := rt_events sample_started @ [] \<rparr>"

definition sample_returned :: runtime where
  "sample_returned = set_task ''a'' (fresh_task \<lparr> tk_done := True \<rparr>) sample_driven"

definition sample_second :: runtime where
  "sample_second = snd (main_turn sample_policy [] sample_returned)"

definition sample_admitted :: runtime where
  "sample_admitted = put_run ''b'' ((NodeRun (sample_node ''b'' [''a''] [''b.py''])) \<lparr> nr_state := ADMITTED \<rparr>) sample_second
     \<lparr> rt_events := rt_events sample_second @ [] \<rparr>"

definition sample_crashed :: runtime where
  "sample_crashed = set_task ''a'' (fresh_task \<lparr> tk_done := True, tk_crash := Some ''driver crash'' \<rparr>) sample_started"

definition sample_blocked :: runtime where
  "sample_blocked = snd (main_turn sample_policy [] sample_crashed)"

lemma sample_turns:
  "main_turn sample_policy [] (DagRuntime sample_graph) = (False, sample_started)"
  "main_turn sample_policy [] sample_returned = (False, sample_second)"
  "main_turn sample_policy [] sample_crashed = (False, sample_blocked)"
  by code_simp+

lemma sample_trace: "lifecycle_trace PLANNED [ADMITTED, DISPATCHED, RUNNING, TERMINAL_SUCCESS, VALIDATED] VALIDATED"
  by (intro lifecycle_trace.intros) (simp_all add: lifecycle_step_iff)

lemma sample_moves:
  "run_step sample_policy (DagRuntime sample_graph) sample_started"
  "(run_step sample_policy)\<^sup>*\<^sup>* sample_started sample_driven"
  "run_step sample_policy sample_driven sample_returned"
  "run_step sample_policy sample_returned sample_second"
  "run_step sample_policy sample_second sample_admitted"
  "run_step sample_policy sample_started sample_crashed"
proof -
  show "run_step sample_policy (DagRuntime sample_graph) sample_started" "run_step sample_policy sample_returned sample_second"
    by (rule run_step.turns [OF _ sample_turns(1)], code_simp, rule run_step.turns [OF _ sample_turns(2)], code_simp)
  show "(run_step sample_policy)\<^sup>*\<^sup>* sample_started sample_driven" unfolding sample_driven_def
  proof (rule driver_steps_run_steps, rule trace_driver_steps [OF sample_trace])
    show "active_task sample_started ''a''" by code_simp
    show "map_of (rt_nodes sample_started) ''a'' = Some (NodeRun (sample_node ''a'' [] [''a.py'']))" by code_simp
  qed (simp_all add: NodeRun_def sample_done_a_def)
  show "run_step sample_policy sample_driven sample_returned" unfolding sample_returned_def
    by (rule run_step.returns) code_simp+
  have "driver_step ''b'' sample_second sample_admitted" unfolding sample_admitted_def
    by (rule driver_step.drives [where run = "NodeRun (sample_node ''b'' [''a''] [''b.py''])"])
       (code_simp+, simp add: NodeRun_def lifecycle_step_iff)
  then show "run_step sample_policy sample_second sample_admitted" by (rule run_step.moves)
  show "run_step sample_policy sample_started sample_crashed" unfolding sample_crashed_def
    by (rule run_step.crashes) code_simp+
qed

lemma sample_reachable:
  "reachable sample_policy sample_graph sample_returned" "reachable sample_policy sample_graph sample_admitted"
  "in_loop sample_policy sample_graph sample_crashed" "(run_step sample_policy)\<^sup>*\<^sup>* sample_driven sample_admitted"
proof -
  have driven: "(run_step sample_policy)\<^sup>*\<^sup>* (DagRuntime sample_graph) sample_driven"
    using sample_moves(1,2) by (rule converse_rtranclp_into_rtranclp)
  show later: "(run_step sample_policy)\<^sup>*\<^sup>* sample_driven sample_admitted"
    using sample_moves(3-5) by (blast intro: converse_rtranclp_into_rtranclp)
  show "reachable sample_policy sample_graph sample_returned" unfolding reachable_def
    using driven sample_moves(3) by (rule rtranclp.rtrancl_into_rtrancl)
  show "reachable sample_policy sample_graph sample_admitted" unfolding reachable_def
    using driven later by (rule rtranclp_trans)
  have "\<not> rt_cancel_requested sample_crashed" by code_simp
  then show "in_loop sample_policy sample_graph sample_crashed" unfolding in_loop_def reachable_def
    using sample_moves(1,6) by (blast intro: converse_rtranclp_into_rtranclp)
qed

lemma sample_graph_valid: "distinct (node_ids (wg_nodes sample_graph))"
  "valid_plan (wg_nodes sample_graph) (wg_max_parallel sample_graph)"
proof -
  show "distinct (node_ids (wg_nodes sample_graph))" by code_simp
  have "WorkGraph (wg_goal sample_graph) (wg_nodes sample_graph) (wg_topology sample_graph)
      (wg_rationale sample_graph) (wg_max_parallel sample_graph) = Inr sample_graph" by code_simp
  then show "valid_plan (wg_nodes sample_graph) (wg_max_parallel sample_graph)" unfolding WorkGraph_Inr ..
qed

theorem driver_refines_steps_witness:
  "\<exists>new. dr_events (sample_end IMPLEMENT) = dr_events (sample_driver IMPLEMENT) @ new \<and>
    (driver_step ''a'')\<^sup>*\<^sup>* sample_started
      (put_run ''a'' (dr_run (sample_end IMPLEMENT)) sample_started \<lparr> rt_events := rt_events sample_started @ new \<rparr>)"
proof (rule driver_refines_steps [OF _ _ sample_drive(5) sample_drive(1)])
  show "active_task sample_started ''a''" by code_simp
  show "map_of (rt_nodes sample_started) ''a'' = Some (dr_run (sample_driver IMPLEMENT))" by code_simp
qed

theorem work_starts_after_dependencies_witness: "state_in (rt_nodes sample_admitted) ''a'' = Some VALIDATED"
proof (rule work_starts_after_dependencies [OF sample_graph_valid(1) sample_reachable(2)])
  show "map_of (rt_nodes sample_admitted) ''b'' =
      Some ((NodeRun (sample_node ''b'' [''a''] [''b.py''])) \<lparr> nr_state := ADMITTED \<rparr>)" by code_simp
qed code_simp+

theorem loop_exit_leaves_nothing_open_witness: "state_in (rt_nodes sample_blocked) ''b'' = Some BLOCKED"
proof -
  have some: "map_of (rt_nodes sample_blocked) ''b'' \<noteq> None" "state_in (rt_nodes sample_blocked) ''b'' \<noteq> Some VALIDATED"
    and idle: "rt_pending sample_blocked = []" by code_simp+
  obtain run where run: "map_of (rt_nodes sample_blocked) ''b'' = Some run" using some(1) by (rule not_None_eq [THEN iffD1, THEN exE])
  from loop_exit_leaves_nothing_open [OF sample_graph_valid(2) sample_reachable(3) sample_turns(3) idle run] run some(2)
  show ?thesis by (simp add: state_in_def)
qed

definition sample_stop :: "control_request list" where
  "sample_stop = [\<lparr> cq_id = ''1'', cq_kind = ''cancel_run'', cq_node_id = None, cq_requested_by = ''op'' \<rparr>]"

definition sample_stopped :: runtime where
  "sample_stopped = snd (main_turn sample_policy sample_stop sample_admitted)"

theorem validated_is_final_witness:
  "\<exists>run'. map_of (rt_nodes sample_stopped) ''a'' = Some run' \<and> nr_state run' = VALIDATED \<and>
    nr_commit run' = nr_commit sample_done_a \<and> nr_node run' = nr_node sample_done_a"
proof (rule validated_is_final)
  have turn: "main_turn sample_policy sample_stop sample_admitted = (True, sample_stopped)" by code_simp
  have "run_step sample_policy sample_admitted sample_stopped" by (rule run_step.turns [OF _ turn]) code_simp
  with sample_reachable(4) show "(run_step sample_policy)\<^sup>*\<^sup>* sample_driven sample_stopped"
    by (rule rtranclp.rtrancl_into_rtrancl)
  show "map_of (rt_nodes sample_driven) ''a'' = Some sample_done_a" by code_simp
  show "nr_state sample_done_a = VALIDATED" by code_simp
qed

definition sample_cancelled :: node_run where
  "sample_cancelled = (NodeRun (sample_node ''a'' [] [''a.py''])) \<lparr> nr_state := BLOCKED,
     nr_reason := ''cancelled_by_operator'', nr_failures := [FC ''timeout'' REROUTE 120 ScopeRoute []] \<rparr>"

definition sample_requests :: "control_request list" where
  "sample_requests = [\<lparr> cq_id = ''1'', cq_kind = ''retry_node'', cq_node_id = Some ''a'', cq_requested_by = ''op'' \<rparr>]"

definition sample_cancelled_run :: runtime where
  "sample_cancelled_run = put_run ''a'' sample_cancelled (DagRuntime sample_graph)"

theorem cancelled_node_stays_cancelled_witness:
  "map_of (rt_nodes (snd (poll_controls sample_policy sample_requests sample_cancelled_run))) ''a'' =
   Some sample_cancelled"
proof (rule cancelled_node_stays_cancelled)
  show "map_of (rt_nodes sample_cancelled_run) ''a'' = Some sample_cancelled" by code_simp
qed code_simp+

end
