(* ===== verification/Run_End.thy ===== *)
theory Run_End
  imports Run_Loop
begin

section \<open>How a run ends\<close>

text \<open>
  Models the exits of \<open>DagRuntime.run\<close> and \<open>_conclude\<close>, \<open>_leaf_commits\<close> and \<open>_finish\<close> of
  \<open>verdict/orchestration/runtime.py\<close>: the deadline, the cancelled run and the drained loop, whose
  conclusion merges the leaves and asks an independent reviewer. The merge of several commits and the
  reviewer are parameters: git and the review service may answer anything, and may raise.
\<close>

subsection \<open>Conclusion\<close>

record run_result =
  res_outcome :: run_outcome
  res_reason :: string
  res_integration :: string
  res_review :: "review_result option"

definition state_name :: "node_state \<Rightarrow> string" where
  "state_name s = (case s of PLANNED \<Rightarrow> ''PLANNED'' | ADMITTED \<Rightarrow> ''ADMITTED'' | DISPATCHED \<Rightarrow> ''DISPATCHED''
     | RUNNING \<Rightarrow> ''RUNNING'' | TERMINAL_SUCCESS \<Rightarrow> ''TERMINAL_SUCCESS''
     | TERMINAL_FAILURE \<Rightarrow> ''TERMINAL_FAILURE'' | VALIDATED \<Rightarrow> ''VALIDATED'' | REJECTED \<Rightarrow> ''REJECTED''
     | BLOCKED \<Rightarrow> ''BLOCKED'')"

definition finish :: "run_outcome \<Rightarrow> string \<Rightarrow> string \<Rightarrow> review_result option \<Rightarrow> runtime \<Rightarrow> run_result \<times> runtime" where
  "finish outcome reason integration review rt =
     (\<lparr> res_outcome = outcome, res_reason = reason, res_integration = integration, res_review = review \<rparr>,
      emit (RunFinishedEv outcome reason integration) rt)"

definition leaf_commits :: "runtime \<Rightarrow> string list" where
  "leaf_commits rt =
     (let consumed = concat (map (\<lambda>(i, r). wn_depends_on (nr_node r)) (rt_nodes rt)) in
      map (\<lambda>(i, r). nr_commit r) (filter (\<lambda>(i, r). i \<notin> set consumed \<and> nr_commit r \<noteq> []) (rt_nodes rt)))"

definition routes_of :: "node_run \<Rightarrow> route_id list" where
  "routes_of r = filter (\<lambda>x. x \<noteq> []) (nr_route_id r # map h_route_id (nr_history r))"

definition implementers :: "runtime \<Rightarrow> route_id list" where
  "implementers rt = py_dedupe (concat (map (\<lambda>(i, r). routes_of r) (rt_nodes rt)))"

definition no_independent :: "review_result \<Rightarrow> bool" where
  "no_independent r \<longleftrightarrow> rr_status r = ''ERROR'' \<and> contains_sub ''no independent reviewer'' (rr_detail r)"

text \<open>
  The reviewer: called with the excluded routes and families, it answers a result or raises; a
  timeout is an \<open>ERROR\<close> result of \<open>_review_with_bound\<close>.
\<close>

type_synonym reviewer = "route_id list \<Rightarrow> string list \<Rightarrow> string + review_result"

definition review_or_error :: "string + review_result \<Rightarrow> review_result" where
  "review_or_error a = (case a of Inr r \<Rightarrow> r
     | Inl e \<Rightarrow> \<lparr> rr_status = ''ERROR'', rr_reviewer = ''unknown'', rr_route_id = '''', rr_findings = [],
         rr_detail = e \<rparr>)"

text \<open>Family independence first, route independence when no such reviewer has capacity.\<close>

definition independent_review :: "reviewer \<Rightarrow> route_id list \<Rightarrow> review_result \<times> event list" where
  "independent_review ask impl =
     (let families = py_dedupe (map route_family impl);
          first = review_or_error (ask impl families);
          e1 = IndependenceEv ''family'' (sorted_set impl) (sorted_set families) (rr_route_id first) in
      if no_independent first then
        let second = review_or_error (ask impl []) in
        (second, [e1, IndependenceEv ''route'' (sorted_set impl) [] (rr_route_id second)])
      else (first, [e1]))"

definition review_failed :: "review_result \<Rightarrow> string" where
  "review_failed r = ''independent review '' @ rr_status r @ '': '' @
     (if rr_detail r = [] then ''blocking findings'' else rr_detail r)"

definition no_reviewer :: string where
  "no_reviewer = ''review required but no reviewer configured''"

definition all_done :: string where
  "all_done = ''all nodes validated, integrated and reviewed''"

text \<open>\<open>_conclude\<close>; \<open>merge\<close> answers the merge of several leaf commits (git may raise).\<close>

definition conclude ::
  "runtime_policy \<Rightarrow> (string list \<Rightarrow> string + string) \<Rightarrow> reviewer option \<Rightarrow> runtime \<Rightarrow> crash + run_result \<times> runtime" where
  "conclude pol merge configured rt =
     (case filter (\<lambda>(i, r). nr_state r \<noteq> VALIDATED) (rt_nodes rt) of
        (i, r) # _ \<Rightarrow>
          Inr (finish OUT_BLOCKED (i @ '': '' @ (if nr_reason r = [] then state_name (nr_state r) else nr_reason r))
                 '''' None rt)
      | [] \<Rightarrow>
          let commits = filter (\<lambda>c. c \<noteq> []) (map (\<lambda>(i, r). nr_commit r) (rt_nodes rt));
              leaves = leaf_commits rt in
          (case (if length leaves = 1 then Inr (hd leaves) else merge leaves) of
             Inl e \<Rightarrow> Inl (OrchestrationError (GitFailed e))
           | Inr integration \<Rightarrow>
               let rt1 = emit (BarrierEv '''' ''integration'' True []) (emit (IntegrateEv commits integration) rt) in
               if \<not> pol_require_review pol then Inr (finish COMPLETE all_done integration None rt1)
               else
                 (case configured of
                    None \<Rightarrow> Inr (finish OUT_BLOCKED no_reviewer integration None rt1)
                  | Some reviewer \<Rightarrow>
                      let (review, es) = independent_review reviewer (implementers rt1);
                          rt2 = rt1 \<lparr> rt_events := rt_events rt1 @ es @
                            [ReviewEv (rr_status review) (rr_route_id review)
                               (int (length (filter blocking (rr_findings review))))
                               (int (length (rr_findings review)))] \<rparr> in
                      if \<not> passed review then
                        Inr (finish OUT_BLOCKED (review_failed review) integration (Some review) rt2)
                      else Inr (finish COMPLETE all_done integration (Some review) rt2))))"




subsection \<open>Exits\<close>

definition deadline_exceeded :: string where
  "deadline_exceeded = ''run deadline exceeded''"

definition run_cancelled :: string where
  "run_cancelled = ''run cancelled by operator''"

text \<open>
  The three ways out of the loop of \<open>run\<close>: the deadline cancels every task and blocks the run, a
  turn that cancelled the run waits until every task has ended and clears them, and a turn that leaves no
  task concludes.
\<close>

inductive run_ends ::
  "runtime_policy \<Rightarrow> (string list \<Rightarrow> string + string) \<Rightarrow> reviewer option \<Rightarrow> work_graph \<Rightarrow> run_result \<Rightarrow> runtime \<Rightarrow> bool"
  for pol merge configured g where
  deadline: "in_loop pol g rt \<Longrightarrow>
    finish OUT_BLOCKED deadline_exceeded '''' None (rt \<lparr> rt_pending := cancel_tasks (rt_pending rt) \<rparr>) = (res, rt') \<Longrightarrow>
    run_ends pol merge configured g res rt'"
| operator: "in_loop pol g rt \<Longrightarrow> main_turn pol reqs rt = (True, rt1) \<Longrightarrow> (run_step pol)\<^sup>*\<^sup>* rt1 rt2 \<Longrightarrow>
    list_all (\<lambda>(i, t). tk_done t) (rt_pending rt2) \<Longrightarrow>
    finish CANCELLED run_cancelled '''' None (rt2 \<lparr> rt_pending := [] \<rparr>) = (res, rt') \<Longrightarrow>
    run_ends pol merge configured g res rt'"
| drained: "in_loop pol g rt \<Longrightarrow> main_turn pol reqs rt = (False, rt1) \<Longrightarrow> rt_pending rt1 = [] \<Longrightarrow>
    conclude pol merge configured rt1 = Inr (res, rt') \<Longrightarrow>
    run_ends pol merge configured g res rt'"


section \<open>Lemmas\<close>

subsection \<open>The review\<close>

lemma review_asked:
  assumes "fst (independent_review ask (implementers rt1)) = review" and "passed review"
    and "rt_nodes rt1 = rt_nodes rt"
  shows "\<exists>excluded families. ask excluded families = Inr review \<and>
    (\<forall>(i, run)\<in>set (rt_nodes rt). \<forall>r\<in>set (routes_of run). r \<in> set excluded)"
proof -
  have "\<not> passed (review_or_error (Inl e))" for e by (simp add: passed_def review_or_error_def)
  with assms(1,2) have "\<exists>families. ask (implementers rt1) families = Inr review"
    by (auto simp: independent_review_def review_or_error_def Let_def split: if_splits sum.splits)
  moreover have "\<forall>(i, run)\<in>set (rt_nodes rt). \<forall>r\<in>set (routes_of run). r \<in> set (implementers rt1)"
    using assms(3) by (auto simp: implementers_def)
  ultimately show ?thesis by blast
qed



text \<open>What a conclusion with \<open>COMPLETE\<close> says about the nodes and the review.\<close>

lemma conclude_complete:
  assumes "conclude pol merge configured rt = Inr (res, rt')" and "res_outcome res = COMPLETE"
  shows "(\<forall>(i, run)\<in>set (rt_nodes rt). nr_state run = VALIDATED) \<and>
    (pol_require_review pol \<longrightarrow>
       (\<exists>ask review excluded families. configured = Some ask \<and> res_review res = Some review \<and> passed review \<and>
          ask excluded families = Inr review \<and>
          (\<forall>(i, run)\<in>set (rt_nodes rt). \<forall>r\<in>set (routes_of run). r \<in> set excluded)))"
proof -
  have all: "\<forall>(i, run)\<in>set (rt_nodes rt). nr_state run = VALIDATED"
  proof (cases "filter (\<lambda>(i, r). nr_state r \<noteq> VALIDATED) (rt_nodes rt)")
    case Nil
    then show ?thesis by (auto simp: filter_empty_conv)
  next
    case (Cons x xs)
    then show ?thesis using assms by (cases x) (auto simp: conclude_def finish_def)
  qed
  define rt1 where "rt1 = emit (BarrierEv '''' ''integration'' True [])
    (emit (IntegrateEv (filter (\<lambda>c. c \<noteq> []) (map (\<lambda>(i, r). nr_commit r) (rt_nodes rt)))
      (projr (if length (leaf_commits rt) = 1 then Inr (hd (leaf_commits rt)) else merge (leaf_commits rt)))) rt)"
  have unopened: "filter (\<lambda>(i, r). nr_state r \<noteq> VALIDATED) (rt_nodes rt) = []"
    using all by (auto simp: filter_empty_conv)
  have nodes: "rt_nodes rt1 = rt_nodes rt" by (simp add: rt1_def emit_def)
  have "\<exists>ask review. configured = Some ask \<and> res_review res = Some review \<and> passed review \<and>
      fst (independent_review ask (implementers rt1)) = review" if "pol_require_review pol"
    using assms that unfolding conclude_def unopened list.case Let_def
    by (cases "if length (leaf_commits rt) = 1 then Inr (hd (leaf_commits rt)) else merge (leaf_commits rt)")
       (auto simp: finish_def rt1_def split: option.splits if_splits prod.splits)
  then show ?thesis using all review_asked [OF _ _ nodes] by blast
qed

lemma conclude_keeps_nodes: "conclude pol merge configured rt = Inr (res, rt') \<Longrightarrow> rt_nodes rt' = rt_nodes rt"
  unfolding conclude_def finish_def emit_def Let_def
  by (auto split: list.splits sum.splits option.splits if_splits prod.splits)

text \<open>After a cancelled turn nothing is planned, admitted, dispatched or running.\<close>

lemma cancel_run_node_inactive: "nr_state (fst (cancel_run_node r)) \<notin> set active_states"
  by (cases "nr_state r") (auto simp: cancel_run_node_def active_states_def Let_def)

lemma poll_cancelled_inactive:
  "poll_controls pol reqs rt = (True, rt') \<Longrightarrow>
   winding_down rt' \<and> (\<forall>(i, run)\<in>set (rt_nodes rt'). nr_state run \<notin> set active_states)"
proof (induction pol reqs rt rule: poll_controls.induct)
  case (2 pol req reqs rt)
  have "winding_down (handle_cancel_run req rt0) \<and>
      (\<forall>(i, run)\<in>set (rt_nodes (handle_cancel_run req rt0)). nr_state run \<notin> set active_states)" for rt0
    using cancel_run_winds_down cancel_run_node_inactive by (fastforce simp: handle_cancel_run_def)
  with 2 show ?case by (simp add: Let_def split: if_splits) blast
qed simp


section \<open>Properties\<close>

text \<open>C1. A run ends COMPLETE only when every node of its graph is validated and, where the policy
  requires review, a configured reviewer was asked with every route that any attempt of any node used
  excluded, and its result is a PASS without blocking findings. This holds whatever the drivers, git,
  the operator and the reviewer did on the way.\<close>

theorem complete_run_is_validated_and_reviewed:
  assumes "distinct (node_ids (wg_nodes g))" and "run_ends pol merge configured g res rt"
    and "res_outcome res = COMPLETE"
  shows "(\<forall>n\<in>set (wg_nodes g). \<exists>run. map_of (rt_nodes rt) (wn_node_id n) = Some run \<and> nr_node run = n \<and>
      nr_state run = VALIDATED) \<and>
    (pol_require_review pol \<longrightarrow>
       (\<exists>ask review excluded families. configured = Some ask \<and> res_review res = Some review \<and> passed review \<and>
          ask excluded families = Inr review \<and>
          (\<forall>(i, run)\<in>set (rt_nodes rt). \<forall>r\<in>set (routes_of run). r \<in> set excluded)))"
  using assms(2,3)
proof cases
  case (drained rt0 reqs rt1)
  have "reachable pol g rt1" using in_loop_turn [OF assms(1) drained(1,2)] by (simp add: in_loop_def)
  then have kept: "nodes_kept (rt_nodes (DagRuntime g)) (rt_nodes rt)"
    using reachable_kept conclude_keeps_nodes [OF drained(4)] by simp
  note fin = conclude_complete [OF drained(4) assms(3), folded conclude_keeps_nodes [OF drained(4)]]
  have "\<exists>run. map_of (rt_nodes rt) (wn_node_id n) = Some run \<and> nr_node run = n \<and> nr_state run = VALIDATED"
    if mem: "n \<in> set (wg_nodes g)" for n
  proof -
    obtain run where run: "map_of (rt_nodes rt) (wn_node_id n) = Some run" "node_kept (NodeRun n) run"
      using initial_nodes [OF assms(1) mem] kept unfolding nodes_kept_def by blast
    then have "nr_node run = n" by (simp add: node_kept_def NodeRun_def)
    moreover have "nr_state run = VALIDATED" using conjunct1 [OF fin] map_of_SomeD [OF run(1)] by blast
    ultimately show ?thesis using run(1) by blast
  qed
  with fin show ?thesis by blast
qed (auto simp: finish_def)

text \<open>C33. A run that the operator cancelled leaves no active work: no node is planned, admitted,
  dispatched or running, so nothing is started or resumed after the cancellation.\<close>

theorem cancelled_run_leaves_no_active_work:
  assumes "run_ends pol merge configured g res rt" and "res_outcome res = CANCELLED"
    and "(i, run) \<in> set (rt_nodes rt)"
  shows "nr_state run \<notin> {PLANNED, ADMITTED, DISPATCHED, RUNNING}"
  using assms(1,2)
proof cases
  case (operator rt0 reqs rt1 rt2)
  from operator(2) have "poll_controls pol reqs (reap (rt_pending rt0) rt0) = (True, rt1)"
    by (auto simp: main_turn_def Let_def split: prod.splits bool.splits)
  from poll_cancelled_inactive [OF this]
  have stopped: "winding_down rt1" "\<forall>(i, run)\<in>set (rt_nodes rt1). nr_state run \<notin> set active_states" by auto
  have "rt_nodes rt2 = rt_nodes rt1" using winding_down_steps [OF operator(3) stopped(1)] ..
  then have "(i, run) \<in> set (rt_nodes rt1)" using operator(5) assms(3) by (auto simp: finish_def emit_def)
  then show ?thesis using stopped(2) by (fastforce simp: active_states_def)
next
  case (drained rt0 reqs rt1)
  then show ?thesis using assms(2)
    by (auto simp: conclude_def finish_def Let_def split: list.splits sum.splits option.splits if_splits prod.splits)
qed (auto simp: finish_def)

text \<open>A node that was blocked without a recorded failure, as propagation leaves the dependents of a
  blocked node, is never reopened: retrying the failed dependency, with success or without, does not
  bring its dependents back, and the run cannot complete.\<close>

theorem propagated_block_is_final:
  assumes "(run_step pol)\<^sup>*\<^sup>* rt rt'" and "map_of (rt_nodes rt) i = Some run"
    and "nr_state run = BLOCKED" and "nr_failures run = []"
    and "conclude pol merge configured rt' = Inr (res, rt'')"
  shows "res_outcome res \<noteq> COMPLETE"
proof -
  obtain run' where run': "map_of (rt_nodes rt') i = Some run'" "nr_state run' = BLOCKED"
    using kept_steps [OF assms(1)] assms(2-4) by (fastforce simp: nodes_kept_def node_kept_def)
  then have "(i, run') \<in> set (filter (\<lambda>(i, r). nr_state r \<noteq> VALIDATED) (rt_nodes rt'))"
    by (auto dest: map_of_SomeD)
  then have "filter (\<lambda>(i, r). nr_state r \<noteq> VALIDATED) (rt_nodes rt') \<noteq> []" by force
  then show ?thesis using assms(5)
    by (auto simp: conclude_def finish_def split: list.splits prod.splits)
qed


section \<open>Concrete ends\<close>

definition sample_reviewer :: reviewer where
  "sample_reviewer excluded families = Inr \<lparr> rr_status = ''PASS'', rr_reviewer = ''r'', rr_route_id = ''gh/r'',
     rr_findings = [], rr_detail = [] \<rparr>"

definition sample_merge :: "string list \<Rightarrow> string + string" where
  "sample_merge commits = Inr ''m''"

text \<open>One node, driven to its end: the run completes after review.\<close>

definition solo_graph :: work_graph where
  "solo_graph = sample_graph \<lparr> wg_nodes := [sample_node ''a'' [] [''a.py'']] \<rparr>"

definition solo_started :: runtime where
  "solo_started = snd (main_turn sample_policy [] (DagRuntime solo_graph))"

definition solo_driven :: runtime where
  "solo_driven = put_run ''a'' sample_done_a solo_started \<lparr> rt_events := rt_events solo_started @ [] \<rparr>"

definition solo_returned :: runtime where
  "solo_returned = set_task ''a'' (fresh_task \<lparr> tk_done := True \<rparr>) solo_driven"

definition solo_drained :: runtime where
  "solo_drained = snd (main_turn sample_policy [] solo_returned)"

definition solo_end :: "run_result \<times> runtime" where
  "solo_end = projr (conclude sample_policy sample_merge (Some sample_reviewer) solo_drained)"

lemma solo_reachable: "in_loop sample_policy solo_graph solo_returned"
proof -
  have turn: "main_turn sample_policy [] (DagRuntime solo_graph) = (False, solo_started)" by code_simp
  have driven: "(run_step sample_policy)\<^sup>*\<^sup>* solo_started solo_driven" unfolding solo_driven_def
  proof (rule driver_steps_run_steps, rule trace_driver_steps [OF sample_trace])
    show "active_task solo_started ''a''" by code_simp
    show "map_of (rt_nodes solo_started) ''a'' = Some (NodeRun (sample_node ''a'' [] [''a.py'']))" by code_simp
  qed (simp_all add: NodeRun_def sample_done_a_def)
  have "run_step sample_policy solo_driven solo_returned" unfolding solo_returned_def
    by (rule run_step.returns) code_simp+
  with driven have "(run_step sample_policy)\<^sup>*\<^sup>* solo_started solo_returned" by (rule rtranclp.rtrancl_into_rtrancl)
  moreover have "run_step sample_policy (DagRuntime solo_graph) solo_started" by (rule run_step.turns [OF _ turn]) code_simp
  ultimately have "reachable sample_policy solo_graph solo_returned"
    unfolding reachable_def by (rule_tac converse_rtranclp_into_rtranclp)
  moreover have "\<not> rt_cancel_requested solo_returned" by code_simp
  ultimately show ?thesis by (simp add: in_loop_def)
qed

lemma solo_ends: "run_ends sample_policy sample_merge (Some sample_reviewer) solo_graph (fst solo_end) (snd solo_end)"
proof (rule run_ends.drained [OF solo_reachable])
  show "main_turn sample_policy [] solo_returned = (False, solo_drained)" by code_simp
  show "rt_pending solo_drained = []" by code_simp
  show "conclude sample_policy sample_merge (Some sample_reviewer) solo_drained = Inr (fst solo_end, snd solo_end)"
    by code_simp
qed

theorem complete_run_is_validated_and_reviewed_witness:
  "\<exists>run. map_of (rt_nodes (snd solo_end)) ''a'' = Some run \<and> nr_state run = VALIDATED"
proof -
  have "distinct (node_ids (wg_nodes solo_graph))" "res_outcome (fst solo_end) = COMPLETE" by code_simp+
  from conjunct1 [OF complete_run_is_validated_and_reviewed [OF this(1) solo_ends this(2)]]
  show ?thesis by (simp add: solo_graph_def sample_node_def) blast
qed

definition stop_request :: "control_request list" where
  "stop_request = [\<lparr> cq_id = ''1'', cq_kind = ''cancel_run'', cq_node_id = None, cq_requested_by = ''op'' \<rparr>]"

definition stopped :: runtime where
  "stopped = snd (main_turn sample_policy stop_request (DagRuntime sample_graph))"

definition stopped_end :: "run_result \<times> runtime" where
  "stopped_end = finish CANCELLED run_cancelled [] None (stopped \<lparr> rt_pending := [] \<rparr>)"

definition stopped_node :: node_run where
  "stopped_node = the (map_of (rt_nodes (snd stopped_end)) ''b'')"

theorem cancelled_run_leaves_no_active_work_witness:
  "nr_state stopped_node \<notin> {PLANNED, ADMITTED, DISPATCHED, RUNNING}"
proof (rule cancelled_run_leaves_no_active_work)
  have turn: "main_turn sample_policy stop_request (DagRuntime sample_graph) = (True, stopped)" by code_simp
  have "\<not> rt_cancel_requested (DagRuntime sample_graph)" by code_simp
  then have "in_loop sample_policy sample_graph (DagRuntime sample_graph)" by (simp add: in_loop_def reachable_def)
  moreover have "list_all (\<lambda>(i, t). tk_done t) (rt_pending stopped)" by code_simp
  ultimately show "run_ends sample_policy sample_merge None sample_graph (fst stopped_end) (snd stopped_end)"
    by (rule_tac run_ends.operator [OF _ turn rtranclp.rtrancl_refl]) (simp_all add: stopped_end_def)
  show "res_outcome (fst stopped_end) = CANCELLED" by code_simp
  show "(''b'', stopped_node) \<in> set (rt_nodes (snd stopped_end))" by code_simp
qed

definition blocked_end :: "run_result \<times> runtime" where
  "blocked_end = projr (conclude sample_policy sample_merge None sample_blocked)"

theorem propagated_block_is_final_witness: "res_outcome (fst blocked_end) \<noteq> COMPLETE"
proof (rule propagated_block_is_final)
  show "(run_step sample_policy)\<^sup>*\<^sup>* sample_blocked sample_blocked" by (rule rtranclp.rtrancl_refl)
  show "map_of (rt_nodes sample_blocked) ''b'' = Some (the (map_of (rt_nodes sample_blocked) ''b''))" by code_simp
  show "conclude sample_policy sample_merge None sample_blocked = Inr (fst blocked_end, snd blocked_end)" by code_simp
qed code_simp+

end
