(* ===== verification/Event_Log.thy ===== *)
theory Event_Log
  imports Contracts Py_Json
begin

section \<open>The event log of a run\<close>

text \<open>
  Models \<open>RunEvent\<close> of \<open>verdict/orchestration/contracts.py\<close> and \<open>EventLog\<close> of
  \<open>verdict/orchestration/receipt.py\<close> on the text of \<open>events.jsonl\<close>: the repair of a torn last line, \<open>emit\<close> and
  \<open>read\<close>. The file is its text, \<open>None\<close> when it does not exist; \<open>emit\<close> writes one line, and a crash leaves any
  part of it. The clock is an argument. The lock of \<open>emit\<close> makes each call one step.
\<close>

subsection \<open>Events\<close>

record run_event =
  ev_seq :: int
  ev_at :: string
  ev_type :: string
  ev_node_id :: node_id
  ev_data :: obj

definition EVENT_TYPES :: "string list" where
  "EVENT_TYPES =
     [''run_started'', ''understand'', ''plan_started'', ''plan_ready'', ''plan_repair_started'', ''plan_repair_terminal'',
      ''hydrate'', ''topology'', ''eligibility'', ''node_state'', ''selection'', ''dispatch'', ''heartbeat'', ''terminal'',
      ''failure'', ''cooldown'', ''reassign'', ''salvage'', ''restore'', ''verify'', ''repo_gate'', ''repo_gates'',
      ''barrier'', ''integrate'', ''review'', ''remediation'', ''controller'', ''decision_signals'', ''review_attempt'',
      ''repack'', ''rehydrate'', ''decision_signals_context_budget'', ''control'', ''executor_map_unmatched'',
      ''openspec_admission'', ''openspec_conformance'', ''run_finished'']"

datatype log_error =
    UnknownEventType string
  | CorruptEvent nat
  | SeqNotGreater nat int int

definition RunEvent :: "int \<Rightarrow> string \<Rightarrow> string \<Rightarrow> node_id \<Rightarrow> obj \<Rightarrow> log_error + run_event" where
  "RunEvent seq t etype node data =
     bind_res (guard_res (etype \<in> set EVENT_TYPES) (UnknownEventType etype)) (\<lambda>_.
     Inr \<lparr> ev_seq = seq, ev_at = t, ev_type = etype, ev_node_id = node, ev_data = data \<rparr>)"

definition event_to_dict :: "run_event \<Rightarrow> obj" where
  "event_to_dict e =
     [(''seq'', JInt (ev_seq e)), (''at'', JStr (ev_at e)), (''type'', JStr (ev_type e)),
      (''node_id'', JStr (ev_node_id e)), (''data'', JObj (ev_data e))]"

text \<open>
  \<open>RunEvent.from_dict\<close>, \<open>None\<close> where it raises. The data must be an object or false; \<open>dict\<close> would also take
  a list of pairs, which no writer produces.
\<close>

definition event_from_dict :: "(rat \<Rightarrow> string) \<Rightarrow> obj \<Rightarrow> run_event option" where
  "event_from_dict frepr d =
     (case (map_of d ''seq'', map_of d ''at'', map_of d ''type'') of
        (Some seq, Some t, Some etype) \<Rightarrow>
          (let node = (case map_of d ''node_id'' of None \<Rightarrow> [] | Some v \<Rightarrow> py_str frepr v) in
           case (to_int seq, or_else (get d ''data'') (JObj [])) of
             (Some n, JObj data) \<Rightarrow>
               (case RunEvent n (py_str frepr t) (py_str frepr etype) node data of Inr e \<Rightarrow> Some e | Inl _ \<Rightarrow> None)
           | _ \<Rightarrow> None)
      | _ \<Rightarrow> None)"


subsection \<open>Secrets\<close>

text \<open>\<open>re.sub\<close> with a replacement that is computed from the match.\<close>

function re_sub_with :: "re \<Rightarrow> (re_pos \<Rightarrow> string) \<Rightarrow> char option \<Rightarrow> string \<Rightarrow> string" where
  "re_sub_with r new prev s =
     (case s of
        [] \<Rightarrow> []
      | c # cs \<Rightarrow>
          (case re_match r \<lparr>pos_prev = prev, pos_rest = s, pos_groups = []\<rparr> of
             q # _ \<Rightarrow> if length (pos_rest q) < length s
                      then new q @ re_sub_with r new (pos_prev q) (pos_rest q)
                      else c # re_sub_with r new (Some c) cs
           | [] \<Rightarrow> c # re_sub_with r new (Some c) cs))"
  by pat_completeness auto
termination
  by (relation "measure (\<lambda>(r, new, prev, s). length s)") auto

declare re_sub_with.simps [simp del]

definition REDACTED :: string where
  "REDACTED = ''[REDACTED]''"

definition key_char :: "char \<Rightarrow> bool" where
  "key_char c \<longleftrightarrow> is_word c \<or> c = CHR ''-''"

definition bearer_char :: "char \<Rightarrow> bool" where
  "bearer_char c \<longleftrightarrow> is_digit c \<or> is_letter c \<or> c \<in> set ''._~+/=-''"

definition at_least_8 :: "(char \<Rightarrow> bool) \<Rightarrow> re" where
  "at_least_8 P = Seqs (replicate 8 (Class P) @ [Many (Class P)])"

definition SK_KEY :: re where
  "SK_KEY = Seqs [WordBoundary, Class (\<lambda>c. c = CHR ''s''), Class (\<lambda>c. c = CHR ''k''), Class (\<lambda>c. c = CHR ''-''), at_least_8 key_char]"

definition BEARER :: re where
  "BEARER = Seqs [WordBoundary, Lit ''bearer'', Some_of (Class py_isspace), at_least_8 bearer_char]"

definition API_KEY :: re where
  "API_KEY =
     Seqs [WordBoundary,
           Grp 1 (Alts [Seqs [Lit ''api'', Opt (Class (\<lambda>c. c \<in> set ''_-'')), Lit ''key''],
                        Lit ''x-api-key'',
                        Seqs [Lit ''access'', Opt (Class (\<lambda>c. c \<in> set ''_-'')), Lit ''token'']]),
           Grp 2 (Seqs [Many (Class py_isspace), Class (\<lambda>c. c \<in> set ''=:''), Many (Class py_isspace)]),
           Opt (Class (\<lambda>c. c = CHR 0x22 \<or> c = CHR 0x27)),
           Some_of (Class (\<lambda>c. \<not> py_isspace c \<and> c \<noteq> CHR 0x22 \<and> c \<noteq> CHR 0x27 \<and> c \<notin> set ''&,;''))]"

definition scrub_secrets :: "string \<Rightarrow> string" where
  "scrub_secrets text =
     (let a = re_sub_with SK_KEY (\<lambda>_. REDACTED) None text;
          b = re_sub_with BEARER (\<lambda>_. ''Bearer '' @ REDACTED) None a
      in re_sub_with API_KEY (\<lambda>q. group_of 1 q @ group_of 2 q @ REDACTED) None b)"

text \<open>\<open>_clean\<close>: a copy with every string scrubbed. The values of the model are JSON values with finite floats, so
  its errors cannot occur.\<close>

fun clean :: "json \<Rightarrow> json" where
  "clean (JStr s) = JStr (scrub_secrets s)"
| "clean (JList xs) = JList (map clean xs)"
| "clean (JObj d) = JObj (map (map_prod id clean) d)"
| "clean j = j"

definition clean_data :: "obj \<Rightarrow> obj" where
  "clean_data d = map (map_prod id clean) d"


subsection \<open>Reading\<close>

text \<open>\<open>read_text\<close> turns every line end into a line feed; \<open>splitlines\<close> splits at the other line boundaries too.\<close>

fun universal_newlines :: "string \<Rightarrow> string" where
  "universal_newlines [] = []"
| "universal_newlines (c # s) =
     (if c = CHR 0x0D then CHR 0x0A # (case s of d # s' \<Rightarrow> if d = CHR 0x0A then universal_newlines s' else universal_newlines s | [] \<Rightarrow> [])
      else c # universal_newlines s)"

definition line_boundary :: "char \<Rightarrow> bool" where
  "line_boundary c \<longleftrightarrow> of_char c \<in> {10, 11, 12, 13, 28, 29, 30, 133 :: nat}"

fun splitlines :: "string \<Rightarrow> string list" where
  "splitlines [] = []"
| "splitlines (c # s) =
     (if line_boundary c then [] # splitlines s
      else (case splitlines s of [] \<Rightarrow> [[c]] | w # ws \<Rightarrow> (c # w) # ws))"

definition event_of_line :: "(rat \<Rightarrow> string) \<Rightarrow> (string \<Rightarrow> rat) \<Rightarrow> string \<Rightarrow> run_event option" where
  "event_of_line frepr fread line =
     (case loads fread line of Some (JObj d) \<Rightarrow> event_from_dict frepr d | _ \<Rightarrow> None)"

fun read_lines :: "(rat \<Rightarrow> string) \<Rightarrow> (string \<Rightarrow> rat) \<Rightarrow> nat \<Rightarrow> int \<Rightarrow> string list \<Rightarrow> log_error + run_event list" where
  "read_lines frepr fread number prev [] = Inr []"
| "read_lines frepr fread number prev (line # lines) =
     (if py_strip line = [] then read_lines frepr fread (Suc number) prev lines
      else
        (case event_of_line frepr fread line of
           None \<Rightarrow> Inl (CorruptEvent number)
         | Some e \<Rightarrow>
             if ev_seq e \<le> prev then Inl (SeqNotGreater number (ev_seq e) prev)
             else bind_res (read_lines frepr fread (Suc number) (ev_seq e) lines) (\<lambda>es. Inr (e # es))))"

definition read_log :: "(rat \<Rightarrow> string) \<Rightarrow> (string \<Rightarrow> rat) \<Rightarrow> string option \<Rightarrow> log_error + run_event list" where
  "read_log frepr fread file =
     (case file of
        None \<Rightarrow> Inr []
      | Some text \<Rightarrow> read_lines frepr fread 1 0 (splitlines (universal_newlines text)))"


subsection \<open>Opening and appending\<close>

record event_log =
  el_file :: "string option"
  el_seq :: int

definition repair_torn_tail :: "string option \<Rightarrow> string option" where
  "repair_torn_tail file =
     map_option (\<lambda>raw. if raw = [] \<or> last raw = CHR 0x0A then raw
                       else rev (dropWhile (\<lambda>c. c \<noteq> CHR 0x0A) (rev raw))) file"

definition EventLog :: "(rat \<Rightarrow> string) \<Rightarrow> (string \<Rightarrow> rat) \<Rightarrow> string option \<Rightarrow> log_error + event_log" where
  "EventLog frepr fread file =
     (let repaired = repair_torn_tail file in
      bind_res (read_log frepr fread repaired) (\<lambda>events.
      Inr \<lparr> el_file = repaired, el_seq = (if events = [] then 0 else ev_seq (last events)) \<rparr>))"

definition event_line :: "(rat \<Rightarrow> string) \<Rightarrow> run_event \<Rightarrow> string" where
  "event_line frepr e = dumps frepr compact_style (JObj (event_to_dict e)) @ [CHR 0x0A]"

definition append_text :: "string option \<Rightarrow> string \<Rightarrow> string option" where
  "append_text file text = Some ((case file of None \<Rightarrow> [] | Some raw \<Rightarrow> raw) @ text)"

definition emit_event ::
  "(rat \<Rightarrow> string) \<Rightarrow> string \<Rightarrow> string \<Rightarrow> node_id \<Rightarrow> obj \<Rightarrow> event_log \<Rightarrow> log_error + (run_event \<times> event_log)" where
  "emit_event frepr now etype node data lg =
     bind_res (RunEvent (el_seq lg + 1) now etype node (clean_data data)) (\<lambda>e.
     Inr (e, \<lparr> el_file = append_text (el_file lg) (event_line frepr e), el_seq = ev_seq e \<rparr>))"

text \<open>
  What happens to a log over time: an event is emitted, or the process dies after some characters of its line
  reached the file. Every process opens the log first.
\<close>

record emission =
  em_at :: string
  em_type :: string
  em_node_id :: node_id
  em_data :: obj

datatype log_op = Emit emission | Crash emission nat | Restart

definition log_step :: "(rat \<Rightarrow> string) \<Rightarrow> (string \<Rightarrow> rat) \<Rightarrow> event_log \<Rightarrow> log_op \<Rightarrow> log_error + event_log" where
  "log_step frepr fread lg operation =
     (case operation of
        Emit m \<Rightarrow> bind_res (emit_event frepr (em_at m) (em_type m) (em_node_id m) (em_data m) lg) (\<lambda>el. Inr (snd el))
      | Crash m k \<Rightarrow>
          bind_res (emit_event frepr (em_at m) (em_type m) (em_node_id m) (em_data m) lg) (\<lambda>el.
          EventLog frepr fread (append_text (el_file lg) (take k (event_line frepr (fst el)))))
      | Restart \<Rightarrow> EventLog frepr fread (el_file lg))"

fun log_steps :: "(rat \<Rightarrow> string) \<Rightarrow> (string \<Rightarrow> rat) \<Rightarrow> log_op list \<Rightarrow> event_log \<Rightarrow> log_error + event_log" where
  "log_steps frepr fread [] lg = Inr lg"
| "log_steps frepr fread (operation # ops) lg =
     bind_res (log_step frepr fread lg operation) (log_steps frepr fread ops)"


section \<open>Lemmas\<close>

subsection \<open>Written lines are printable\<close>

definition printable :: "char \<Rightarrow> bool" where
  "printable c \<longleftrightarrow> 32 \<le> (of_char c :: nat) \<and> (of_char c :: nat) \<le> 126"

definition num_char :: "char \<Rightarrow> bool" where
  "num_char c \<longleftrightarrow> is_digit c \<or> c \<in> set ''+-.eE''"

lemma num_printable: "num_char c \<Longrightarrow> printable c"
  by (auto simp: num_char_def printable_def is_digit_def)

lemma digits_num: "c \<in> set (takeWhile is_digit s) \<Longrightarrow> num_char c"
  by (auto simp: num_char_def dest: set_takeWhileD)

lemma scan_int_split: "scan_int s = Some (i, r) \<Longrightarrow> s = i @ r \<and> list_all num_char i"
proof -
  assume a: "scan_int s = Some (i, r)"
  let ?g = "if prefix ''-'' s then ''-'' else []"
  let ?b = "if prefix ''-'' s then tl s else s"
  have s: "s = ?g @ ?b" by (cases s) auto
  obtain c u where b: "?b = c # u" using a by (cases ?b) (auto simp: scan_int_def Let_def)
  have "i = ?g @ ''0'' \<and> c = CHR ''0'' \<and> r = u \<or> i = ?g @ takeWhile is_digit ?b \<and> r = dropWhile is_digit ?b"
    using a b by (simp add: scan_int_def Let_def split: if_splits)
  then show ?thesis
  proof
    assume "i = ?g @ ''0'' \<and> c = CHR ''0'' \<and> r = u"
    then show ?thesis using s b by (simp add: num_char_def is_digit_def)
  next
    assume i: "i = ?g @ takeWhile is_digit ?b \<and> r = dropWhile is_digit ?b"
    then have "i @ r = ?g @ (takeWhile is_digit ?b @ dropWhile is_digit ?b)" by (simp only: append.assoc)
    then have "i @ r = s" using s by (simp only: takeWhile_dropWhile_id)
    moreover have "list_all num_char i" using i digits_num [of _ ?b] by (auto simp: list_all_iff num_char_def)
    ultimately show ?thesis by simp
  qed
qed

lemma scan_frac_split: "s = fst (scan_frac s) @ snd (scan_frac s) \<and> list_all num_char (fst (scan_frac s))"
proof (cases s)
  case (Cons c t)
  have "list_all num_char (takeWhile is_digit t)" by (auto simp: list_all_iff intro: digits_num)
  then show ?thesis using Cons by (auto simp: scan_frac_def num_char_def)
qed (simp add: scan_frac_def)

lemma scan_exp_split: "s = fst (scan_exp s) @ snd (scan_exp s) \<and> list_all num_char (fst (scan_exp s))"
proof (cases s)
  case (Cons c t)
  let ?g = "if prefix ''-'' t then ''-'' else if prefix ''+'' t then ''+'' else []"
  let ?u = "if prefix ''-'' t \<or> prefix ''+'' t then tl t else t"
  have t: "t = ?g @ ?u" by (cases t) auto
  have "list_all num_char (takeWhile is_digit ?u)" unfolding list_all_iff using digits_num by blast
  moreover have "list_all num_char ?g" by (simp add: num_char_def)
  moreover have "t = ?g @ takeWhile is_digit ?u @ dropWhile is_digit ?u" using t by simp
  ultimately show ?thesis
    using Cons by (cases "(c = CHR ''e'' \<or> c = CHR ''E'') \<and> takeWhile is_digit ?u \<noteq> []")
      (auto simp: scan_exp_def Let_def num_char_def simp del: takeWhile_dropWhile_id)
qed (simp add: scan_exp_def)

lemma scan_num_chars: "scan_num fread t = Some (v, []) \<Longrightarrow> list_all num_char t"
proof -
  assume a: "scan_num fread t = Some (v, [])"
  then obtain i u where i: "scan_int t = Some (i, u)" by (auto simp: scan_num_def split: option.splits)
  then have "snd (scan_exp (snd (scan_frac u))) = []" using a by (auto simp: scan_num_def split: prod.splits if_splits)
  then have "u = fst (scan_frac u) @ fst (scan_exp (snd (scan_frac u)))"
    using scan_frac_split [of u] scan_exp_split [of "snd (scan_frac u)"] by simp
  then have "list_all num_char u"
    using scan_frac_split [of u] scan_exp_split [of "snd (scan_frac u)"] by (metis list_all_append)
  then show ?thesis using scan_int_split [OF i] by simp
qed

lemma list_all_py_join: "list_all P sep \<Longrightarrow> list_all (list_all P) ws \<Longrightarrow> list_all P (py_join sep ws)"
  by (induction sep ws rule: py_join.induct) auto

lemma hex4_printable: "list_all printable (hex4 n)"
proof -
  have "printable (''0123456789abcdef'' ! k)" if "k < 16" for k
  proof -
    have "k = 0 \<or> k = 1 \<or> k = 2 \<or> k = 3 \<or> k = 4 \<or> k = 5 \<or> k = 6 \<or> k = 7 \<or> k = 8 \<or> k = 9 \<or>
      k = 10 \<or> k = 11 \<or> k = 12 \<or> k = 13 \<or> k = 14 \<or> k = 15" using that by presburger
    then show ?thesis by (elim disjE) (simp_all add: printable_def)
  qed
  then show ?thesis by (simp add: hex4_def)
qed

lemma escape_printable: "list_all printable (escape_char True c)"
  using hex4_printable [of "of_char c"] by (simp add: escape_char_def Let_def) (simp add: printable_def)

lemma punct_printable [simp]:
  "printable (CHR '','')" "printable (CHR '':'')" "printable (CHR ''['')" "printable (CHR '']'')" "printable (CHR ''{'')"
  "printable (CHR ''}'')" "printable (CHR 0x22)" "printable (CHR ''-'')" "printable (CHR ''n'')" "printable (CHR ''u'')"
  "printable (CHR ''l'')" "printable (CHR ''t'')" "printable (CHR ''r'')" "printable (CHR ''e'')" "printable (CHR ''f'')"
  "printable (CHR ''a'')" "printable (CHR ''s'')"
  by (simp_all add: printable_def)

lemma dump_str_printable: "list_all printable (dump_str True s)"
proof -
  have "list_all printable (concat (map (escape_char True) s))"
    by (induction s) (simp_all add: escape_printable)
  then show ?thesis by (simp add: dump_str_def)
qed

lemma str_of_int_printable: "list_all printable (str_of_int n)"
proof -
  have "list_all printable (str_of_nat k)" for k
    using str_of_nat_facts [of k] by (auto simp: list_all_iff num_char_def intro: num_printable)
  then show ?thesis by (simp add: str_of_int_def)
qed

lemma dumps_printable: "json_ok frepr fread j \<Longrightarrow> list_all printable (dumps frepr compact_style j)"
proof (induction j)
  case (JNum q)
  then show ?case using scan_num_chars [of fread "frepr q"] by (auto simp: readable_def list_all_iff num_printable)
next
  case (JList xs)
  then have "list_all (list_all printable) (map (dumps frepr compact_style) xs)" by (simp add: list_all_iff)
  then show ?case by (simp add: list_all_py_join compact_style_def)
next
  case (JObj d)
  then have "\<And>kv. kv \<in> set d \<Longrightarrow> list_all printable (dumps frepr compact_style (snd kv))"
    by (force simp: list_all_iff)
  then have "list_all (list_all printable) (map (\<lambda>kt. dump_str True (fst kt) @ '':'' @ snd kt) (map (map_prod id (dumps frepr compact_style)) (by_key d)))"
    using dump_str_printable by (auto simp: list_all_iff)
  from list_all_py_join [OF _ this, of "'',''"] show ?case
    by (simp add: compact_style_def by_key_map_prod)
qed (simp_all add: dump_str_printable str_of_int_printable compact_style_def)


subsection \<open>Lines\<close>

lemma printable_line: "printable c \<Longrightarrow> \<not> line_boundary c \<and> c \<noteq> CHR 0x0D \<and> c \<noteq> CHR 0x0A"
  by (auto simp: printable_def line_boundary_def)

lemma universal_id: "CHR 0x0D \<notin> set s \<Longrightarrow> universal_newlines s = s"
  by (induction s) auto

lemma splitlines_line: "list_all printable w \<Longrightarrow> splitlines (w @ CHR 0x0A # s) = w # splitlines s"
  by (induction w) (auto simp: printable_line line_boundary_def [of "CHR 0x0A"])

lemma splitlines_lines:
  "list_all (list_all printable) ws \<Longrightarrow> splitlines (concat (map (\<lambda>w. w @ [CHR 0x0A]) ws)) = ws"
  by (induction ws) (simp_all add: splitlines_line)


subsection \<open>An event read back\<close>

definition canon_event :: "run_event \<Rightarrow> run_event" where
  "canon_event e = e\<lparr>ev_data := by_key (map (map_prod id canon) (ev_data e))\<rparr>"

definition event_ok :: "(rat \<Rightarrow> string) \<Rightarrow> (string \<Rightarrow> rat) \<Rightarrow> run_event \<Rightarrow> bool" where
  "event_ok frepr fread e \<longleftrightarrow> ev_type e \<in> set EVENT_TYPES \<and> json_ok frepr fread (JObj (ev_data e))"

lemma compact_ok: "style_ok compact_style"
  by (simp add: style_ok_def compact_style_def)

lemma event_dict_ok: "event_ok frepr fread e \<Longrightarrow> json_ok frepr fread (JObj (event_to_dict e))"
  by (simp add: event_ok_def event_to_dict_def dict_wf_def)

lemma event_from_canon:
  assumes "event_ok frepr fread e" "canon (JObj (event_to_dict e)) = JObj d"
  shows "event_from_dict frepr d = Some (canon_event e)"
proof -
  have g: "map_of d k = map_option canon (map_of (event_to_dict e) k)" for k
    using assms(2) by (auto simp: map_of_map_prod_id)
  then have "map_of d ''seq'' = Some (JInt (ev_seq e))" "map_of d ''at'' = Some (JStr (ev_at e))"
    "map_of d ''type'' = Some (JStr (ev_type e))" "map_of d ''node_id'' = Some (JStr (ev_node_id e))"
    "map_of d ''data'' = Some (JObj (by_key (map (map_prod id canon) (ev_data e))))"
    by (simp_all add: event_to_dict_def)
  then show ?thesis
    using assms(1)
    by (simp add: event_from_dict_def or_else_def get_def to_int_def py_str_def RunEvent_def event_ok_def guard_res_def canon_event_def)
qed

lemma read_event_line:
  "event_ok frepr fread e \<Longrightarrow> event_of_line frepr fread (dumps frepr compact_style (JObj (event_to_dict e))) = Some (canon_event e)"
  using loads_dumps [OF compact_ok event_dict_ok, of frepr fread e] event_from_canon [of frepr fread e]
  by (simp add: event_of_line_def)

lemma event_text_nonblank: "py_strip (dumps frepr compact_style (JObj d)) \<noteq> []"
proof -
  let ?t = "dumps frepr compact_style (JObj d)"
  have h: "hd ?t = CHR ''{''" "?t \<noteq> []" by simp_all
  have l: "last ?t = CHR ''}''" by simp
  have "dropWhile py_isspace ?t = ?t" by (simp add: py_isspace_def)
  moreover have "dropWhile py_isspace (rev ?t) = rev ?t" by (simp add: py_isspace_def)
  ultimately show ?thesis using h by (simp add: py_strip_def del: dumps.simps)
qed

text \<open>Event numbers in the order of the file.\<close>

definition numbered :: "int \<Rightarrow> run_event list \<Rightarrow> bool" where
  "numbered k es \<longleftrightarrow> map ev_seq es = map (\<lambda>i. k + 1 + int i) [0..<length es]"

lemma numbered_Cons: "numbered k (e # es) \<longleftrightarrow> ev_seq e = k + 1 \<and> numbered (k + 1) es"
  by (auto simp: numbered_def upt_conv_Cons map_Suc_upt [symmetric] algebra_simps simp del: upt_Suc)

lemma numbered_snoc: "numbered k (es @ [e]) \<longleftrightarrow> numbered k es \<and> ev_seq e = k + 1 + int (length es)"
  by (auto simp: numbered_def)

lemma read_numbered_lines:
  "numbered k es \<Longrightarrow> list_all (event_ok frepr fread) es \<Longrightarrow>
   read_lines frepr fread n k (map (\<lambda>e. dumps frepr compact_style (JObj (event_to_dict e))) es) = Inr (map canon_event es)"
proof (induction es arbitrary: k n)
  case (Cons e es)
  have "ev_seq (canon_event e) = ev_seq e" by (simp add: canon_event_def)
  then show ?case
    using Cons by (simp add: numbered_Cons event_text_nonblank read_event_line del: dumps.simps)
qed simp



subsection \<open>The log as a list of events\<close>

text \<open>
  The specification of a log: a list of events, numbered from one. A crash keeps the event that was being
  written only if its whole line reached the file.
\<close>

definition event_of :: "nat \<Rightarrow> emission \<Rightarrow> run_event" where
  "event_of n m =
     \<lparr> ev_seq = int n + 1, ev_at = em_at m, ev_type = em_type m, ev_node_id = em_node_id m, ev_data = clean_data (em_data m) \<rparr>"

fun spec_step :: "(rat \<Rightarrow> string) \<Rightarrow> run_event list \<Rightarrow> log_op \<Rightarrow> run_event list" where
  "spec_step frepr es (Emit m) = es @ [event_of (length es) m]"
| "spec_step frepr es (Crash m k) =
     (if k < length (event_line frepr (event_of (length es) m)) then es else es @ [event_of (length es) m])"
| "spec_step frepr es Restart = es"

definition emission_ok :: "(rat \<Rightarrow> string) \<Rightarrow> (string \<Rightarrow> rat) \<Rightarrow> emission \<Rightarrow> bool" where
  "emission_ok frepr fread m \<longleftrightarrow> em_type m \<in> set EVENT_TYPES \<and> json_ok frepr fread (JObj (em_data m))"

fun op_ok :: "(rat \<Rightarrow> string) \<Rightarrow> (string \<Rightarrow> rat) \<Rightarrow> log_op \<Rightarrow> bool" where
  "op_ok frepr fread (Emit m) = emission_ok frepr fread m"
| "op_ok frepr fread (Crash m k) = emission_ok frepr fread m"
| "op_ok frepr fread Restart = True"

text \<open>A log on text that holds the given events.\<close>

definition text_of :: "(rat \<Rightarrow> string) \<Rightarrow> run_event list \<Rightarrow> string" where
  "text_of frepr es = concat (map (event_line frepr) es)"

definition file_holds :: "(rat \<Rightarrow> string) \<Rightarrow> run_event list \<Rightarrow> string option \<Rightarrow> bool" where
  "file_holds frepr es file \<longleftrightarrow> file = Some (text_of frepr es) \<or> file = None \<and> es = []"

definition holds :: "(rat \<Rightarrow> string) \<Rightarrow> (string \<Rightarrow> rat) \<Rightarrow> run_event list \<Rightarrow> event_log \<Rightarrow> bool" where
  "holds frepr fread es lg \<longleftrightarrow>
     file_holds frepr es (el_file lg) \<and> el_seq lg = int (length es) \<and> numbered 0 es \<and> list_all (event_ok frepr fread) es"

lemma clean_ok: "json_ok frepr fread j \<Longrightarrow> json_ok frepr fread (clean j)"
proof (induction j)
  case (JObj d)
  have "json_ok frepr fread (clean (snd kv))" if "kv \<in> set d" for kv
  proof (rule JObj.IH [OF that])
    show "snd kv \<in> Basic_BNFs.snds kv" by (cases kv) simp
    show "json_ok frepr fread (snd kv)" using JObj.prems that by (auto simp: list_all_iff)
  qed
  then show ?case using JObj.prems by (simp add: list_all_iff dict_wf_def)
qed (simp_all add: list_all_iff)

lemma event_of_ok: "emission_ok frepr fread m \<Longrightarrow> event_ok frepr fread (event_of n m)"
  using clean_ok [of frepr fread "JObj (em_data m)"] by (simp add: emission_ok_def event_ok_def event_of_def clean_data_def)

lemma lines_of_text:
  "list_all (event_ok frepr fread) es \<Longrightarrow>
   splitlines (universal_newlines (text_of frepr es)) = map (\<lambda>e. dumps frepr compact_style (JObj (event_to_dict e))) es"
proof -
  assume a: "list_all (event_ok frepr fread) es"
  let ?ws = "map (\<lambda>e. dumps frepr compact_style (JObj (event_to_dict e))) es"
  have p: "list_all (list_all printable) ?ws"
    using a dumps_printable [OF event_dict_ok] by (auto simp: list_all_iff simp del: dumps.simps)
  have t: "text_of frepr es = concat (map (\<lambda>w. w @ [CHR 0x0A]) ?ws)"
    by (simp add: text_of_def event_line_def [abs_def] comp_def del: dumps.simps)
  have "CHR 0x0D \<notin> set (text_of frepr es)"
  proof
    assume "CHR 0x0D \<in> set (text_of frepr es)"
    then obtain w where "w \<in> set ?ws" "CHR 0x0D \<in> set w" unfolding t by (auto split: if_splits simp del: dumps.simps)
    then have "printable (CHR 0x0D)" using p by (auto simp: list_all_iff simp del: dumps.simps)
    then show False by (simp add: printable_def)
  qed
  then show ?thesis using splitlines_lines [OF p] unfolding t by (simp add: universal_id)
qed

lemma read_held:
  "file_holds frepr es file \<Longrightarrow> numbered 0 es \<Longrightarrow> list_all (event_ok frepr fread) es \<Longrightarrow>
   read_log frepr fread file = Inr (map canon_event es)"
  using read_numbered_lines [of 0 es frepr fread 1] lines_of_text [of frepr fread es]
  by (auto simp: file_holds_def read_log_def simp del: dumps.simps)

text \<open>The repair drops exactly an unfinished last line.\<close>

lemma repair_torn:
  assumes "raw = [] \<or> last raw = CHR 0x0A" "CHR 0x0A \<notin> set t"
  shows "repair_torn_tail (Some (raw @ t)) = Some raw"
proof (cases "t = []")
  case True
  then show ?thesis using assms(1) by (simp add: repair_torn_tail_def)
next
  case False
  then have "last (raw @ t) \<noteq> CHR 0x0A" using assms(2) last_in_set [OF False] by (metis last_appendR)
  moreover have "dropWhile (\<lambda>c. c \<noteq> CHR 0x0A) (rev t @ rev raw) = dropWhile (\<lambda>c. c \<noteq> CHR 0x0A) (rev raw)"
    using assms(2) by (intro dropWhile_append2) auto
  moreover have "dropWhile (\<lambda>c. c \<noteq> CHR 0x0A) (rev raw) = rev raw"
    using assms(1) by (cases raw rule: rev_cases) auto
  ultimately show ?thesis using False by (simp add: repair_torn_tail_def)
qed

lemma text_ends: "text_of frepr es = [] \<or> last (text_of frepr es) = CHR 0x0A"
  by (cases es rule: rev_cases) (simp_all add: text_of_def event_line_def del: dumps.simps)

lemma text_snoc: "text_of frepr (es @ [e]) = text_of frepr es @ event_line frepr e"
  by (simp add: text_of_def)

lemma torn_line:
  assumes "event_ok frepr fread e" "k < length (event_line frepr e)"
  shows "CHR 0x0A \<notin> set (take k (event_line frepr e))"
proof -
  have "list_all printable (dumps frepr compact_style (JObj (event_to_dict e)))"
    by (rule dumps_printable [OF event_dict_ok [OF assms(1)]])
  moreover have "take k (event_line frepr e) = take k (dumps frepr compact_style (JObj (event_to_dict e)))"
    using assms(2) by (simp add: event_line_def del: dumps.simps)
  ultimately show ?thesis using printable_line by (auto simp: list_all_iff dest: in_set_takeD simp del: dumps.simps)
qed

lemma append_held: "file_holds frepr es file \<Longrightarrow> append_text file t = Some (text_of frepr es @ t)"
  by (auto simp: file_holds_def append_text_def text_of_def)

text \<open>Opening a file that holds events and an unfinished line gives a log of exactly these events.\<close>

lemma open_held:
  assumes "repair_torn_tail file = Some (text_of frepr es) \<or> repair_torn_tail file = None \<and> es = []"
    and "numbered 0 es" "list_all (event_ok frepr fread) es"
  shows "\<exists>lg. EventLog frepr fread file = Inr lg \<and> holds frepr fread es lg"
proof -
  have h: "file_holds frepr es (repair_torn_tail file)" using assms(1) by (simp add: file_holds_def)
  have "(if map canon_event es = [] then 0 else ev_seq (last (map canon_event es))) = int (length es)"
    using assms(2) by (cases es rule: rev_cases) (simp_all add: numbered_snoc canon_event_def)
  then show ?thesis
    using read_held [OF h assms(2,3)] h assms(2,3) by (simp add: EventLog_def holds_def)
qed

lemma emit_held:
  assumes "holds frepr fread es lg" "emission_ok frepr fread m"
  shows "emit_event frepr (em_at m) (em_type m) (em_node_id m) (em_data m) lg =
      Inr (event_of (length es) m,
        \<lparr> el_file = Some (text_of frepr (es @ [event_of (length es) m])), el_seq = int (length es) + 1 \<rparr>)"
  using assms append_held [of frepr es "el_file lg"]
  by (simp add: emit_event_def holds_def emission_ok_def RunEvent_def guard_res_def event_of_def text_snoc add.commute)

lemma step_held:
  assumes h: "holds frepr fread es lg" and ok: "op_ok frepr fread operation"
  shows "\<exists>lg'. log_step frepr fread lg operation = Inr lg' \<and> holds frepr fread (spec_step frepr es operation) lg'"
proof (cases operation)
  case (Emit m)
  then have "log_step frepr fread lg operation =
      Inr \<lparr> el_file = Some (text_of frepr (es @ [event_of (length es) m])), el_seq = int (length es) + 1 \<rparr>"
    using emit_held [OF h] ok by (simp add: log_step_def)
  moreover have "event_ok frepr fread (event_of (length es) m)" using Emit ok by (simp add: event_of_ok)
  ultimately show ?thesis
    using h Emit by (simp add: holds_def file_holds_def numbered_snoc event_of_def)
next
  case (Crash m k)
  let ?e = "event_of (length es) m"
  have e: "event_ok frepr fread ?e" using Crash ok by (simp add: event_of_ok)
  have step: "log_step frepr fread lg operation =
      EventLog frepr fread (Some (text_of frepr es @ take k (event_line frepr ?e)))"
    using emit_held [OF h] Crash ok h append_held [of frepr es "el_file lg"] by (simp add: log_step_def holds_def)
  have n: "numbered 0 es" "list_all (event_ok frepr fread) es" using h by (simp_all add: holds_def)
  show ?thesis
  proof (cases "k < length (event_line frepr ?e)")
    case True
    then have "repair_torn_tail (Some (text_of frepr es @ take k (event_line frepr ?e))) = Some (text_of frepr es)"
      by (intro repair_torn text_ends torn_line [OF e])
    then show ?thesis using step True Crash open_held [OF _ n] by simp
  next
    case False
    have "repair_torn_tail (Some (text_of frepr (es @ [?e]) @ [])) = Some (text_of frepr (es @ [?e]))"
      by (intro repair_torn text_ends) simp
    then have "repair_torn_tail (Some (text_of frepr es @ take k (event_line frepr ?e))) = Some (text_of frepr (es @ [?e]))"
      using False by (simp add: text_snoc)
    moreover have "numbered 0 (es @ [?e])" "list_all (event_ok frepr fread) (es @ [?e])"
      using n e by (simp_all add: numbered_snoc event_of_def)
    ultimately show ?thesis using step False Crash open_held [of _ frepr "es @ [?e]"] by simp
  qed
next
  case Restart
  have "repair_torn_tail (Some (text_of frepr es @ [])) = Some (text_of frepr es)"
    by (intro repair_torn text_ends) simp
  then have "repair_torn_tail (el_file lg) = Some (text_of frepr es) \<or> repair_torn_tail (el_file lg) = None \<and> es = []"
    using h by (auto simp: holds_def file_holds_def repair_torn_tail_def)
  then show ?thesis using h Restart open_held by (simp add: log_step_def holds_def)
qed

lemma steps_held:
  assumes "holds frepr fread es lg" and "list_all (op_ok frepr fread) ops"
  shows "\<exists>lg'. log_steps frepr fread ops lg = Inr lg' \<and> holds frepr fread (foldl (spec_step frepr) es ops) lg'"
  using assms
proof (induction ops arbitrary: es lg)
  case (Cons a ops)
  from step_held [OF Cons.prems(1), of a] Cons.prems(2) obtain lg' where
    "log_step frepr fread lg a = Inr lg'" "holds frepr fread (spec_step frepr es a) lg'" by auto
  with Cons.IH Cons.prems(2) show ?case by simp
qed simp

text \<open>C6. The event log survives crashes: whatever is emitted, wherever the process dies while it writes a line, and however
  often the log is reopened, opening never fails, the file reads as exactly the events whose line was
  completed, in order, with the keys of their data sorted, and their numbers are 1, 2, 3 and so on without gap or repetition.\<close>

theorem log_survives_crashes:
  assumes "list_all (op_ok frepr fread) ops"
  shows "\<exists>start lg. EventLog frepr fread None = Inr start \<and> log_steps frepr fread ops start = Inr lg \<and>
    read_log frepr fread (el_file lg) = Inr (map canon_event (foldl (spec_step frepr) [] ops)) \<and>
    map ev_seq (foldl (spec_step frepr) [] ops) = map (\<lambda>i. int i + 1) [0..<length (foldl (spec_step frepr) [] ops)]"
proof -
  have "\<exists>lg. EventLog frepr fread None = Inr lg \<and> holds frepr fread [] lg"
    by (rule open_held) (simp_all add: repair_torn_tail_def numbered_def)
  then obtain start where s: "EventLog frepr fread None = Inr start" "holds frepr fread [] start" by blast
  from steps_held [OF s(2) assms] obtain lg where
    lg: "log_steps frepr fread ops start = Inr lg" "holds frepr fread (foldl (spec_step frepr) [] ops) lg" by blast
  then have "read_log frepr fread (el_file lg) = Inr (map canon_event (foldl (spec_step frepr) [] ops))"
    by (intro read_held) (simp_all add: holds_def)
  then show ?thesis using s lg by (simp add: holds_def numbered_def add.commute)
qed

text \<open>One event is written, a second one is torn, the log is reopened.\<close>

definition sample_repr :: "rat \<Rightarrow> string" where
  "sample_repr q = ''1.5''"

definition sample_read :: "string \<Rightarrow> rat" where
  "sample_read s = 3 / 2"

definition sample_ops :: "log_op list" where
  "sample_ops =
     [Emit \<lparr> em_at = ''t1'', em_type = ''terminal'', em_node_id = ''n'', em_data = [(''ok'', JBool True), (''duration_seconds'', JNum (3 / 2))] \<rparr>,
      Crash \<lparr> em_at = ''t2'', em_type = ''verify'', em_node_id = ''n'', em_data = [(''ok'', JBool True)] \<rparr> 5, Restart]"

lemma sample_ops_ok: "list_all (op_ok sample_repr sample_read) sample_ops"
  by (simp add: sample_ops_def emission_ok_def EVENT_TYPES_def readable_def sample_repr_def sample_read_def dict_wf_def
      scan_num_def scan_int_def scan_frac_def scan_exp_def Let_def is_digit_def)

lemma sample_durable: "map ev_type (foldl (spec_step sample_repr) [] sample_ops) = [''terminal'']"
  by (simp add: sample_ops_def event_of_def event_line_def event_to_dict_def by_key_def compact_style_def dump_str_def)

theorem log_survives_crashes_witness:
  "\<exists>start lg es. EventLog sample_repr sample_read None = Inr start \<and> log_steps sample_repr sample_read sample_ops start = Inr lg \<and>
     read_log sample_repr sample_read (el_file lg) = Inr es \<and> map ev_type es = [''terminal'']"
proof -
  have "map ev_type (map canon_event es) = map ev_type es" for es by (simp add: canon_event_def)
  then show ?thesis using log_survives_crashes [OF sample_ops_ok] sample_durable by metis
qed

end
