(* ===== verification/Graph_Json.thy ===== *)
theory Graph_Json
  imports Work_Graph Py_Json
begin

section \<open>Plans as JSON\<close>

text \<open>
  Models \<open>to_dict\<close> and \<open>from_dict\<close> of \<open>WorkNode\<close> and \<open>WorkGraph\<close> and \<open>canonical_digest\<close> in
  \<open>verdict/orchestration/contracts.py\<close>. Python stores a value of any type in the fields \<open>story\<close>, \<open>coding\<close>,
  \<open>reasoning\<close>, \<open>min_context_tokens\<close> and in the items of \<open>rationale\<close>; the model has typed fields and refuses a
  value of another type there (\<open>BadField\<close>). SHA-256 is a parameter.
\<close>

subsection \<open>Writing\<close>

fun kind_value :: "node_kind \<Rightarrow> string" where
  "kind_value IMPLEMENT = ''implement''"
| "kind_value RESEARCH = ''research''"
| "kind_value INTEGRATE = ''integrate''"
| "kind_value REVIEW = ''review''"

fun topology_value :: "topology \<Rightarrow> string" where
  "topology_value SOLO = ''SOLO''"
| "topology_value WORKER_CRITIC = ''WORKER_CRITIC''"
| "topology_value PARALLEL_WORK_UNITS = ''PARALLEL_WORK_UNITS''"

definition node_to_dict :: "work_node \<Rightarrow> obj" where
  "node_to_dict n =
     [(''node_id'', JStr (wn_node_id n)), (''objective'', JStr (wn_objective n)), (''kind'', JStr (kind_value (wn_kind n))),
      (''story'', JStr (wn_story n)), (''depends_on'', strings (wn_depends_on n)), (''owned_files'', strings (wn_owned_files n)),
      (''required_context'', strings (wn_required_context n)), (''acceptance'', strings (wn_acceptance n)),
      (''verification_command'', strings (wn_verification_command n)), (''barrier'', JStr (wn_barrier n)),
      (''risk'', JStr (wn_risk n)), (''required_capabilities'', strings (wn_required_capabilities n)),
      (''coding'', JBool (wn_coding n)), (''reasoning'', JBool (wn_reasoning n)),
      (''min_context_tokens'', JInt (wn_min_context_tokens n))]"

definition SCHEMA_VERSION :: string where
  "SCHEMA_VERSION = ''verdict.orchestration/v1''"

definition graph_to_dict :: "work_graph \<Rightarrow> obj" where
  "graph_to_dict g =
     [(''schema_version'', JStr SCHEMA_VERSION), (''goal'', JStr (wg_goal g)), (''topology'', JStr (topology_value (wg_topology g))),
      (''rationale'', strings (wg_rationale g)), (''max_parallel'', JInt (wg_max_parallel g)),
      (''nodes'', JList (map (\<lambda>n. JObj (node_to_dict n)) (wg_nodes g)))]"

definition canonical_digest :: "(rat \<Rightarrow> string) \<Rightarrow> (string \<Rightarrow> string) \<Rightarrow> json \<Rightarrow> string" where
  "canonical_digest frepr sha256 value = ''sha256:'' @ sha256 (dumps frepr compact_style value)"

definition graph_digest :: "(rat \<Rightarrow> string) \<Rightarrow> (string \<Rightarrow> string) \<Rightarrow> work_graph \<Rightarrow> string" where
  "graph_digest frepr sha256 g = canonical_digest frepr sha256 (JObj (graph_to_dict g))"


subsection \<open>Reading\<close>

datatype graph_error =
    Orch orch_error
  | UnknownFields "string list"
  | MustBeAList string
  | MissingField string
  | BadField string
  | BadTopology
  | NodesNotAList
  | NodeNotAnObject

definition lift_orch :: "orch_error + 'a \<Rightarrow> graph_error + 'a" where
  "lift_orch r = (case r of Inl e \<Rightarrow> Inl (Orch e) | Inr x \<Rightarrow> Inr x)"

definition NODE_FIELDS :: "string list" where
  "NODE_FIELDS =
     [''node_id'', ''objective'', ''kind'', ''story'', ''depends_on'', ''owned_files'', ''required_context'', ''acceptance'',
      ''verification_command'', ''barrier'', ''risk'', ''required_capabilities'', ''coding'', ''reasoning'', ''min_context_tokens'']"

definition sequence_field :: "(rat \<Rightarrow> string) \<Rightarrow> obj \<Rightarrow> string \<Rightarrow> string list \<Rightarrow> graph_error + string list" where
  "sequence_field frepr d key missing =
     (case map_of d key of
        None \<Rightarrow> Inr missing
      | Some (JList xs) \<Rightarrow> Inr (map (py_str frepr) xs)
      | Some _ \<Rightarrow> Inl (MustBeAList key))"

definition text_field :: "obj \<Rightarrow> string \<Rightarrow> string option \<Rightarrow> graph_error + string" where
  "text_field d key missing =
     (case map_of d key of
        None \<Rightarrow> (case missing of None \<Rightarrow> Inl (MissingField key) | Some s \<Rightarrow> Inr s)
      | Some (JStr s) \<Rightarrow> Inr s
      | Some _ \<Rightarrow> Inl (BadField key))"

definition bool_field :: "obj \<Rightarrow> string \<Rightarrow> bool \<Rightarrow> graph_error + bool" where
  "bool_field d key missing =
     (case map_of d key of None \<Rightarrow> Inr missing | Some (JBool b) \<Rightarrow> Inr b | Some _ \<Rightarrow> Inl (BadField key))"

definition int_field :: "obj \<Rightarrow> string \<Rightarrow> int \<Rightarrow> graph_error + int" where
  "int_field d key missing =
     (case map_of d key of None \<Rightarrow> Inr missing | Some (JInt n) \<Rightarrow> Inr n | Some _ \<Rightarrow> Inl (BadField key))"

definition raw_barrier_of :: "(rat \<Rightarrow> string) \<Rightarrow> obj \<Rightarrow> raw_barrier" where
  "raw_barrier_of frepr d =
     (case map_of d ''barrier'' of
        None \<Rightarrow> BarrierStr '''' | Some (JBool b) \<Rightarrow> BarrierBool b | Some (JStr s) \<Rightarrow> BarrierStr s
      | Some v \<Rightarrow> BarrierOther (py_str frepr v))"

definition raw_risk_of :: "obj \<Rightarrow> raw_risk" where
  "raw_risk_of d = (case map_of d ''risk'' of None \<Rightarrow> RiskStr ''low'' | Some (JStr s) \<Rightarrow> RiskStr s | Some _ \<Rightarrow> RiskOther)"

text \<open>\<open>WorkNode.from_dict\<close>: unknown fields, then the sequences, then the constructor with its defaults.\<close>

definition node_from_dict :: "(rat \<Rightarrow> string) \<Rightarrow> obj \<Rightarrow> graph_error + work_node" where
  "node_from_dict frepr d =
     (let unknown = sorted_set (filter (\<lambda>k. k \<notin> set NODE_FIELDS) (map fst d)) in
      bind_res (guard_res (unknown = []) (UnknownFields unknown)) (\<lambda>_.
      bind_res (sequence_field frepr d ''depends_on'' []) (\<lambda>depends_on.
      bind_res (sequence_field frepr d ''owned_files'' []) (\<lambda>owned_files.
      bind_res (sequence_field frepr d ''required_context'' []) (\<lambda>required_context.
      bind_res (sequence_field frepr d ''acceptance'' []) (\<lambda>acceptance.
      bind_res (sequence_field frepr d ''verification_command'' []) (\<lambda>verification_command.
      bind_res (sequence_field frepr d ''required_capabilities'' [''tools'']) (\<lambda>required_capabilities.
      bind_res (text_field d ''node_id'' None) (\<lambda>node_id.
      bind_res (text_field d ''objective'' None) (\<lambda>objective.
      bind_res (text_field d ''kind'' (Some ''implement'')) (\<lambda>kind.
      bind_res (text_field d ''story'' (Some '''')) (\<lambda>story.
      bind_res (bool_field d ''coding'' True) (\<lambda>coding.
      bind_res (bool_field d ''reasoning'' False) (\<lambda>reasoning.
      bind_res (int_field d ''min_context_tokens'' 32000) (\<lambda>tokens.
      lift_orch (WorkNode
        \<lparr> rn_node_id = node_id, rn_objective = objective, rn_kind = kind, rn_story = story, rn_depends_on = depends_on,
          rn_owned_files = owned_files, rn_required_context = required_context, rn_acceptance = acceptance,
          rn_verification_command = verification_command, rn_barrier = raw_barrier_of frepr d, rn_risk = raw_risk_of d,
          rn_required_capabilities = required_capabilities, rn_coding = coding, rn_reasoning = reasoning,
          rn_min_context_tokens = tokens \<rparr>))))))))))))))))"

definition Topology :: "json \<Rightarrow> graph_error + topology" where
  "Topology j =
     (if j = JStr ''SOLO'' then Inr SOLO else if j = JStr ''WORKER_CRITIC'' then Inr WORKER_CRITIC
      else if j = JStr ''PARALLEL_WORK_UNITS'' then Inr PARALLEL_WORK_UNITS else Inl BadTopology)"

definition node_of_json :: "(rat \<Rightarrow> string) \<Rightarrow> json \<Rightarrow> graph_error + work_node" where
  "node_of_json frepr j = (case j of JObj d \<Rightarrow> node_from_dict frepr d | _ \<Rightarrow> Inl NodeNotAnObject)"

definition text_item :: "json \<Rightarrow> graph_error + string" where
  "text_item j = (case j of JStr s \<Rightarrow> Inr s | _ \<Rightarrow> Inl (BadField ''rationale''))"

definition graph_from_dict :: "(rat \<Rightarrow> string) \<Rightarrow> obj \<Rightarrow> graph_error + work_graph" where
  "graph_from_dict frepr d =
     (case get d ''nodes'' of
        JList xs \<Rightarrow>
          bind_res (map_res (node_of_json frepr) xs) (\<lambda>nodes.
          bind_res (Topology (get_default d ''topology'' (JStr ''PARALLEL_WORK_UNITS''))) (\<lambda>topology.
          bind_res (case get_default d ''rationale'' (JList []) of JList rs \<Rightarrow> map_res text_item rs | _ \<Rightarrow> Inl (BadField ''rationale'')) (\<lambda>rationale.
          bind_res (case to_int (get_default d ''max_parallel'' (JInt 3)) of Some n \<Rightarrow> Inr n | None \<Rightarrow> Inl (BadField ''max_parallel'')) (\<lambda>max_parallel.
          lift_orch (WorkGraph (py_str frepr (get_default d ''goal'' (JStr ''''))) nodes topology rationale max_parallel)))))
      | _ \<Rightarrow> Inl NodesNotAList)"


section \<open>Lemmas\<close>

text \<open>A path that normalising keeps.\<close>

definition stable_path :: "string \<Rightarrow> bool" where
  "stable_path p \<longleftrightarrow> norm_path p = Inr p"

definition stable_node :: "work_node \<Rightarrow> bool" where
  "stable_node n \<longleftrightarrow> node_wf n \<and> list_all stable_path (wn_owned_files n) \<and> list_all stable_path (wn_required_context n)"

lemma norm_path_again: "norm_path v = Inr p \<Longrightarrow> py_strip p = p \<Longrightarrow> stable_path p"
  unfolding stable_path_def using norm_path_of_normal norm_path_parts norm_path_no_backslash by blast

lemma map_res_stable: "list_all stable_path ps \<Longrightarrow> map_res norm_path ps = Inr ps"
  by (induction ps) (simp_all add: stable_path_def)

lemma map_py_str_strings: "map (py_str frepr) (map JStr ss) = ss"
  by (induction ss) (simp_all add: py_str_def)

lemma map_res_texts: "map_res text_item (map JStr ss) = Inr ss"
  by (induction ss) (simp_all add: text_item_def)

lemma kind_value_inverse: "NodeKind (kind_value k) = Inr k"
  by (cases k) simp_all

lemma known_barrier_kept: "b \<in> set ('''' # KNOWN_BARRIERS) \<Longrightarrow> norm_barrier (BarrierStr b) = b"
  by auto

lemma known_risk_kept: "r \<in> set RISKS \<Longrightarrow> norm_risk (RiskStr r) = r"
  by (auto simp: RISKS_def py_lower_def py_lower_char_def)

lemma node_fields: "map fst (node_to_dict n) = NODE_FIELDS"
  by (simp add: node_to_dict_def NODE_FIELDS_def)

lemma node_lookup:
  "map_of (node_to_dict n) ''node_id'' = Some (JStr (wn_node_id n))"
  "map_of (node_to_dict n) ''objective'' = Some (JStr (wn_objective n))"
  "map_of (node_to_dict n) ''kind'' = Some (JStr (kind_value (wn_kind n)))"
  "map_of (node_to_dict n) ''story'' = Some (JStr (wn_story n))"
  "map_of (node_to_dict n) ''depends_on'' = Some (strings (wn_depends_on n))"
  "map_of (node_to_dict n) ''owned_files'' = Some (strings (wn_owned_files n))"
  "map_of (node_to_dict n) ''required_context'' = Some (strings (wn_required_context n))"
  "map_of (node_to_dict n) ''acceptance'' = Some (strings (wn_acceptance n))"
  "map_of (node_to_dict n) ''verification_command'' = Some (strings (wn_verification_command n))"
  "map_of (node_to_dict n) ''barrier'' = Some (JStr (wn_barrier n))"
  "map_of (node_to_dict n) ''risk'' = Some (JStr (wn_risk n))"
  "map_of (node_to_dict n) ''required_capabilities'' = Some (strings (wn_required_capabilities n))"
  "map_of (node_to_dict n) ''coding'' = Some (JBool (wn_coding n))"
  "map_of (node_to_dict n) ''reasoning'' = Some (JBool (wn_reasoning n))"
  "map_of (node_to_dict n) ''min_context_tokens'' = Some (JInt (wn_min_context_tokens n))"
  by (simp_all add: node_to_dict_def)

lemma node_roundtrip:
  assumes "stable_node n"
  shows "node_from_dict frepr (node_to_dict n) = Inr n"
proof -
  let ?raw = "\<lparr> rn_node_id = wn_node_id n, rn_objective = wn_objective n, rn_kind = kind_value (wn_kind n), rn_story = wn_story n,
    rn_depends_on = wn_depends_on n, rn_owned_files = wn_owned_files n, rn_required_context = wn_required_context n,
    rn_acceptance = wn_acceptance n, rn_verification_command = wn_verification_command n, rn_barrier = BarrierStr (wn_barrier n),
    rn_risk = RiskStr (wn_risk n), rn_required_capabilities = wn_required_capabilities n, rn_coding = wn_coding n,
    rn_reasoning = wn_reasoning n, rn_min_context_tokens = wn_min_context_tokens n \<rparr>"
  have "WorkNode ?raw = Inr n"
    using assms known_barrier_kept [of "wn_barrier n"] known_risk_kept [of "wn_risk n"]
    by (simp add: WorkNode_def stable_node_def node_wf_def map_res_stable kind_value_inverse guard_res_def
        del: NodeKind.simps norm_barrier.simps norm_risk.simps)
  moreover have "filter (\<lambda>k. k \<notin> set NODE_FIELDS) (map fst (node_to_dict n)) = []" unfolding node_fields by simp
  ultimately show ?thesis
    by (simp add: node_from_dict_def Let_def node_lookup sequence_field_def text_field_def bool_field_def int_field_def
        raw_barrier_of_def raw_risk_of_def strings_def map_py_str_strings lift_orch_def guard_res_def sorted_set_def comp_def py_str_def
        del: map_map)
qed

lemma nodes_roundtrip:
  "list_all stable_node ns \<Longrightarrow> map_res (node_of_json frepr) (map (\<lambda>n. JObj (node_to_dict n)) ns) = Inr ns"
  by (induction ns) (simp_all add: node_of_json_def node_roundtrip)

text \<open>What \<open>from_dict\<close> returns does not depend on the order of the keys.\<close>

lemma node_from_dict_cong:
  assumes "map_of d' = map_of d" "fst ` set d' = fst ` set d"
  shows "node_from_dict frepr d' = node_from_dict frepr d"
proof -
  have "set (filter (\<lambda>k. k \<notin> set NODE_FIELDS) (map fst d')) = set (filter (\<lambda>k. k \<notin> set NODE_FIELDS) (map fst d))"
    using assms(2) by auto
  then have "sorted_set (filter (\<lambda>k. k \<notin> set NODE_FIELDS) (map fst d')) = sorted_set (filter (\<lambda>k. k \<notin> set NODE_FIELDS) (map fst d))"
    by (intro sorted_distinct_set_unique) (simp_all add: sorted_set_def)
  then show ?thesis
    unfolding node_from_dict_def sequence_field_def text_field_def bool_field_def int_field_def raw_barrier_of_def raw_risk_of_def
    by (simp only: assms(1))
qed

lemma canon_strings: "canon (strings ss) = strings ss"
  by (simp add: strings_def comp_def)

lemma canon_node_dict: "map (map_prod id canon) (node_to_dict n) = node_to_dict n"
  by (simp add: node_to_dict_def canon_strings)

lemma node_from_canon: "stable_node n \<Longrightarrow> node_of_json frepr (canon (JObj (node_to_dict n))) = Inr n"
proof -
  assume "stable_node n"
  moreover have "fst ` set (by_key (node_to_dict n)) = fst ` set (node_to_dict n)" by simp
  moreover have "map_of (by_key (node_to_dict n)) = map_of (node_to_dict n)" by (rule ext) simp
  ultimately show ?thesis
    using node_from_dict_cong [of "by_key (node_to_dict n)" "node_to_dict n" frepr]
    by (simp add: node_of_json_def canon_node_dict node_roundtrip)
qed

lemma nodes_from_canon:
  "list_all stable_node ns \<Longrightarrow> map_res (node_of_json frepr) (map (\<lambda>n. canon (JObj (node_to_dict n))) ns) = Inr ns"
  by (induction ns) (simp_all add: node_from_canon del: canon.simps)

lemma plan_json_ok: "json_ok frepr fread (JObj (graph_to_dict g))"
proof -
  have s: "json_ok frepr fread (strings ss)" for ss by (simp add: strings_def list_all_iff)
  have "json_ok frepr fread (JObj (node_to_dict n))" for n by (simp add: node_to_dict_def dict_wf_def s)
  then show ?thesis by (simp add: graph_to_dict_def dict_wf_def s list_all_iff del: json_ok.simps(3)) (simp add: dict_wf_def s list_all_iff)
qed

text \<open>C9. A plan survives its file: for every plan that the constructor accepts, made of well-formed nodes whose paths
  normalising keeps, the text that \<open>json.dumps\<close> writes of \<open>to_dict\<close> reads back as an object from which \<open>from_dict\<close> makes the same plan.\<close>

theorem plan_file_roundtrip:
  assumes "WorkGraph goal ns topo rationale k = Inr g" and "list_all stable_node ns" and "style_ok st"
  shows "\<exists>d. loads fread (dumps frepr st (JObj (graph_to_dict g))) = Some (JObj d) \<and> graph_from_dict frepr d = Inr g"
proof -
  have g: "g = \<lparr> wg_goal = goal, wg_nodes = ns, wg_topology = topo, wg_rationale = rationale, wg_max_parallel = k \<rparr>"
    using assms(1) by (simp add: WorkGraph_def res_simps)
  let ?d = "by_key (map (map_prod id canon) (graph_to_dict g))"
  have "Topology (JStr (topology_value topo)) = Inr topo" by (cases topo) (simp_all add: Topology_def)
  moreover have "map_of ?d key = map_option canon (map_of (graph_to_dict g) key)" for key by (simp add: map_of_map_prod_id)
  ultimately have "graph_from_dict frepr ?d = Inr g"
    using assms(1) nodes_from_canon [OF assms(2), of frepr]
    by (simp add: g graph_from_dict_def graph_to_dict_def get_def get_default_def canon_strings strings_def [symmetric] comp_def
        to_int_def py_str_def lift_orch_def del: map_of_by_key canon.simps(2))
       (simp add: strings_def map_res_texts)
  then show ?thesis using loads_dumps [OF assms(3) plan_json_ok, of fread frepr g] by auto
qed

text \<open>Without the condition on paths it fails: a path that normalising changes again comes back changed.\<close>

lemma padded_node: "WorkNode (sample_raw_node ''n'' [] [''./ a'']) = Inr (sample_node ''n'' [] ['' a''])"
  by code_simp

lemma padded_node_read: "node_from_dict (\<lambda>_. ''0.0'') (node_to_dict (sample_node ''n'' [] ['' a''])) = Inr (sample_node ''n'' [] [''a''])"
  by code_simp

theorem unstable_path_changes:
  "\<exists>raw n. WorkNode raw = Inr n \<and> node_from_dict (\<lambda>_. ''0.0'') (node_to_dict n) \<noteq> Inr n"
proof -
  have "sample_node ''n'' [] [''a''] \<noteq> sample_node ''n'' [] ['' a'']" by (simp add: sample_node_def)
  then show ?thesis using padded_node padded_node_read by force
qed

definition sample_plan :: work_graph where
  "sample_plan =
     \<lparr> wg_goal = ''g'', wg_nodes = [sample_node ''n1'' [] [''src'']], wg_topology = SOLO, wg_rationale = [''small''], wg_max_parallel = 1 \<rparr>"

lemma sample_plan_built: "WorkGraph ''g'' [sample_node ''n1'' [] [''src'']] SOLO [''small''] 1 = Inr sample_plan"
  by code_simp

theorem plan_file_roundtrip_witness:
  "\<exists>d. loads (\<lambda>_. 0) (dumps (\<lambda>_. ''0.0'') compact_style (JObj (graph_to_dict sample_plan))) = Some (JObj d) \<and>
     graph_from_dict (\<lambda>_. ''0.0'') d = Inr sample_plan"
proof (rule plan_file_roundtrip [OF sample_plan_built])
  have "stable_path ''src''" unfolding stable_path_def by code_simp
  moreover have "node_wf (sample_node ''n1'' [] [''src''])" using sample_node_constructed by (rule WorkNode_wf)
  ultimately show "list_all stable_node [sample_node ''n1'' [] [''src'']]" by (simp add: stable_node_def sample_node_def)
  show "style_ok compact_style" by (simp add: style_ok_def compact_style_def)
qed

end
