(* ===== verification/Receipt.thy ===== *)
theory Receipt
  imports Event_Log Graph_Json
begin

section \<open>Receipts of a run\<close>

text \<open>
  Models \<open>verdict/orchestration/receipt.py\<close>: the projection of the event log, the plan and the review of a run into a
  receipt, the verdict on its completion, and the verification of a stored receipt against the files. Rows and
  receipts are JSON objects, as in the code. The files \<open>graph.json\<close>, \<open>review.json\<close> and \<open>receipt.json\<close> are given by
  what \<open>json.loads\<close> returns on them; \<open>events.jsonl\<close> is its text, because the receipt holds a digest of its bytes and
  opening the log repairs it. SHA-256, the float conversions and the redaction of \<open>verdict/security.py\<close> are parameters.
\<close>

subsection \<open>Parameters, files and errors\<close>

record host =
  h_repr :: "rat \<Rightarrow> string"
  h_read :: "string \<Rightarrow> rat"
  h_sha256 :: "string \<Rightarrow> string"
  h_redact :: "string \<Rightarrow> string"

datatype json_file = Missing | Unreadable | Holds json

record run_dir =
  rd_name :: string
  rd_events :: "string option"
  rd_graph :: json_file
  rd_review :: json_file
  rd_receipt :: json_file

datatype receipt_error =
    MissingEvents
  | BadLog log_error
  | CannotRead string
  | MustBeObject string
  | BadPlan graph_error
  | PlanMissing

definition load_json :: "string \<Rightarrow> json_file \<Rightarrow> receipt_error + obj" where
  "load_json name file =
     (case file of
        Holds (JObj d) \<Rightarrow> Inr d
      | Holds _ \<Rightarrow> Inl (MustBeObject name)
      | _ \<Rightarrow> Inl (CannotRead name))"

definition dat :: "run_event \<Rightarrow> string \<Rightarrow> json" where
  "dat e k = get (ev_data e) k"

definition is_true :: "json \<Rightarrow> bool" where
  "is_true j \<longleftrightarrow> j = JBool True"

text \<open>\<open>str(value or other)\<close> for a text \<open>other\<close>.\<close>

definition str_or :: "host \<Rightarrow> json \<Rightarrow> string \<Rightarrow> string" where
  "str_or h value other = (if truthy value then py_str (h_repr h) value else other)"

definition has_key :: "obj \<Rightarrow> string \<Rightarrow> bool" where
  "has_key d k \<longleftrightarrow> map_of d k \<noteq> None"

definition merge_into :: "obj \<Rightarrow> obj \<Rightarrow> obj" where
  "merge_into d extra = foldl (\<lambda>r kv. dict_put (fst kv) (snd kv) r) d extra"

definition text_at :: "obj \<Rightarrow> string \<Rightarrow> string" where
  "text_at d k = str_of (get d k)"


subsection \<open>Attempts of a node\<close>

definition event_attempt :: "run_event \<Rightarrow> int \<Rightarrow> int" where
  "event_attempt e fallback = (case dat e ''attempt'' of JInt n \<Rightarrow> if n > 0 then n else fallback | _ \<Rightarrow> fallback)"

definition classify_route_identity :: "route_id \<Rightarrow> string \<Rightarrow> bool \<Rightarrow> string \<Rightarrow> string \<Rightarrow> string" where
  "classify_route_identity route reported ok err category =
     (if reported = ''(mechanical merge)'' then ''mechanical''
      else if \<not> ok then
        if err = ''model_mismatch'' \<or> category = ''model_mismatch'' then ''mismatch'' else ''unattested''
      else if reported = [] then ''unattested''
      else if reported = route then ''match''
      else ''mismatch'')"

record node_scan =
  ns_attempts :: "(int, obj) dict"
  ns_current :: int
  ns_last_success :: int
  ns_claimed_state :: string
  ns_claimed_seq :: int
  ns_commit :: "string option"
  ns_pending :: obj
  ns_pending_route :: string

definition scan_start :: node_scan where
  "scan_start =
     \<lparr> ns_attempts = [], ns_current = 0, ns_last_success = - 1, ns_claimed_state = [], ns_claimed_seq = - 1,
       ns_commit = None, ns_pending = [], ns_pending_route = [] \<rparr>"

definition fresh_row :: "int \<Rightarrow> obj" where
  "fresh_row n =
     [(''attempt'', JInt n), (''route_id'', JStr ''''), (''provider'', JStr ''''), (''capacity_class'', JStr ''unknown''),
      (''outcome'', JStr ''running''), (''fault_injected'', JBool False)]"

definition PROBE_FIELDS :: "string list" where
  "PROBE_FIELDS = [''probe_class'', ''cache_checked_at'', ''cache_freshness'', ''evidence_level'']"

definition SERVED_FIELDS :: "string list" where
  "SERVED_FIELDS = [''provider'', ''model'', ''connection_id'', ''decision_strategy'']"

definition put_text :: "host \<Rightarrow> run_event \<Rightarrow> string \<Rightarrow> obj \<Rightarrow> obj" where
  "put_text h e field row =
     (if truthy (dat e field) then dict_put field (JStr (py_str (h_repr h) (dat e field))) row else row)"

text \<open>The route of a row: a failure after the terminal of its attempt never replaces it.\<close>

definition route_of_event :: "host \<Rightarrow> run_event \<Rightarrow> obj \<Rightarrow> string" where
  "route_of_event h e row =
     (if ev_type e = ''failure'' \<and> has_key row ''_terminal_ok'' then text_at row ''route_id''
      else str_or h (dat e ''route_id'') (text_at row ''route_id''))"

text \<open>\<open>list(value or [])\<close>; a number, on which \<open>list\<close> raises, counts as no items.\<close>

definition items_of :: "json \<Rightarrow> json list" where
  "items_of j = (case j of JList xs \<Rightarrow> xs | JStr s \<Rightarrow> map (\<lambda>c. JStr [c]) s | JObj d \<Rightarrow> map (JStr \<circ> fst) d | _ \<Rightarrow> [])"

definition served_row :: "host \<Rightarrow> obj \<Rightarrow> obj \<Rightarrow> obj" where
  "served_row h check row =
     (let served = (case get check ''served'' of JObj s \<Rightarrow> s | _ \<Rightarrow> []);
          identity = [(''status'', get check ''status''), (''served_route'', get check ''served_route'')] @
            map (\<lambda>f. (f, get served f)) SERVED_FIELDS @ [(''reasons'', JList (items_of (get check ''reasons'')))];
          row = dict_put ''served_identity'' (JObj identity) row;
          row = (if truthy (get check ''served_route'')
                 then dict_put ''executed_model'' (JStr (py_str (h_repr h) (get check ''served_route''))) row else row)
      in dict_put ''_terminal_served_status'' (JStr (str_or h (get check ''status'') '''')) row)"

definition terminal_row :: "host \<Rightarrow> run_event \<Rightarrow> route_id \<Rightarrow> obj \<Rightarrow> obj" where
  "terminal_row h e route row =
     (let ok = is_true (dat e ''ok'');
          row = dict_put ''outcome'' (JStr (if ok then ''success'' else ''failure'')) row;
          row = (case numeric (dat e ''duration_seconds'') of Some q \<Rightarrow> dict_put ''duration_seconds'' (JNum q) row | None \<Rightarrow> row);
          row = (case dat e ''usage'' of JObj u \<Rightarrow> dict_put ''usage'' (JObj u) row | _ \<Rightarrow> row);
          row = put_text h e ''harness'' (put_text h e ''executor_kind'' row);
          reported = str_or h (dat e ''reported_model'') '''';
          row = dict_put ''intended_route'' (JStr route) row;
          row = dict_put ''executed_model'' (if reported = [] then JNull else JStr reported) row;
          row = dict_put ''_terminal_ok'' (JBool ok) row;
          row = dict_put ''_terminal_error'' (JStr (str_or h (dat e ''error'') '''')) row;
          row = dict_put ''_terminal_reported'' (JStr reported) row
      in case dat e ''served_check'' of JObj check \<Rightarrow> served_row h check row | _ \<Rightarrow> row)"

definition failure_row :: "host \<Rightarrow> run_event \<Rightarrow> obj \<Rightarrow> obj" where
  "failure_row h e row =
     dict_put ''failure_category'' (JStr (str_or h (dat e ''category'') ''unknown'')) (dict_put ''outcome'' (JStr ''failure'') row)"

definition is_attempt_event :: "run_event \<Rightarrow> bool" where
  "is_attempt_event e \<longleftrightarrow> ev_type e \<in> {''dispatch'', ''terminal'', ''failure''}"

definition current_attempt :: "run_event \<Rightarrow> int \<Rightarrow> int" where
  "current_attempt e current =
     (if ev_type e = ''dispatch'' then event_attempt e (current + 1)
      else event_attempt e (if current = 0 then 1 else current))"

definition scan_attempt :: "host \<Rightarrow> run_event \<Rightarrow> node_scan \<Rightarrow> node_scan" where
  "scan_attempt h e sc =
     (let current = current_attempt e (ns_current sc);
          row = (case map_of (ns_attempts sc) current of Some r \<Rightarrow> r | None \<Rightarrow> fresh_row current);
          route = route_of_event h e row;
          row = dict_put ''route_id'' (JStr route) row;
          provider = str_or h (dat e ''provider'')
            (if text_at row ''provider'' \<noteq> [] then text_at row ''provider'' else route_provider route);
          row = dict_put ''provider'' (JStr provider) row;
          row = put_text h e ''capacity_class'' row;
          row = foldl (\<lambda>r f. put_text h e f r) row PROBE_FIELDS;
          applies = ns_pending sc \<noteq> [] \<and> ns_pending_route sc \<noteq> [] \<and> ns_pending_route sc = route;
          drops = ns_pending sc \<noteq> [] \<and> (applies \<or> ev_type e = ''dispatch'');
          row = (if applies then merge_into row (ns_pending sc) else row);
          row = dict_put ''fault_injected'' (JBool (truthy (get row ''fault_injected'') \<or> truthy (dat e ''fault_injected''))) row;
          row = (if ev_type e = ''terminal'' then terminal_row h e route row
                 else if ev_type e = ''failure'' then failure_row h e row else row)
      in sc\<lparr> ns_current := current,
             ns_attempts := dict_put current row (ns_attempts sc),
             ns_pending := (if drops then [] else ns_pending sc),
             ns_pending_route := (if drops then [] else ns_pending_route sc),
             ns_last_success :=
               (if ev_type e = ''terminal'' \<and> is_true (dat e ''ok'') then ev_seq e else ns_last_success sc) \<rparr>)"

definition scan_selection :: "host \<Rightarrow> run_event \<Rightarrow> node_scan \<Rightarrow> node_scan" where
  "scan_selection h e sc =
     (let fields = foldl (\<lambda>r f. put_text h e f r) [] PROBE_FIELDS;
          fields = (if truthy (dat e ''unknown_capacity_opt_in'') then dict_put ''unknown_capacity_opt_in'' (JStr ''true'') fields else fields)
      in sc\<lparr> ns_pending := fields, ns_pending_route := str_or h (dat e ''route_id'') '''' \<rparr>)"

definition scan_state :: "host \<Rightarrow> run_event \<Rightarrow> node_scan \<Rightarrow> node_scan" where
  "scan_state h e sc =
     (let claimed = py_str (h_repr h) (get_default (ev_data e) ''state'' (JStr '''')) in
      sc\<lparr> ns_claimed_state := claimed, ns_claimed_seq := ev_seq e,
          ns_last_success := (if claimed = ''TERMINAL_SUCCESS'' then ev_seq e else ns_last_success sc) \<rparr>)"

definition scan_event :: "host \<Rightarrow> node_scan \<Rightarrow> run_event \<Rightarrow> node_scan" where
  "scan_event h sc e =
     (if is_attempt_event e then scan_attempt h e sc
      else if ev_type e = ''selection'' then scan_selection h e sc
      else if ev_type e = ''node_state'' then scan_state h e sc
      else if ev_type e = ''integrate'' \<and> truthy (dat e ''commit'')
      then sc\<lparr> ns_commit := Some (py_str (h_repr h) (dat e ''commit'')) \<rparr>
      else sc)"

text \<open>The identity of the route of an attempt, once all events of the node are seen.\<close>

definition served_identity :: "string \<Rightarrow> string" where
  "served_identity status = (if status = ''verified'' then ''match'' else if status = ''mismatch'' then ''mismatch'' else ''unattested'')"

definition finish_row :: "obj \<Rightarrow> obj" where
  "finish_row row =
     (if has_key row ''_terminal_ok'' then
        (let ok = is_true (get row ''_terminal_ok''); err = text_at row ''_terminal_error''; reported = text_at row ''_terminal_reported'';
             category = text_at row ''failure_category'';
             identity =
               (if \<not> has_key row ''_terminal_served_status''
                then classify_route_identity (text_at row ''route_id'') reported ok err category
                else if err = ''model_mismatch'' \<or> category = ''model_mismatch'' then ''mismatch''
                else served_identity (text_at row ''_terminal_served_status''));
             row = dict_del ''_terminal_served_status'' (dict_del ''_terminal_reported''
               (dict_del ''_terminal_error'' (dict_del ''_terminal_ok'' row)))
         in dict_put ''route_identity'' (JStr identity) row)
      else dict_put ''route_identity'' (JStr ''unattested'') row)"

definition passed_check :: "run_event \<Rightarrow> bool" where
  "passed_check e \<longleftrightarrow> ev_type e = ''verify'' \<and> is_true (dat e ''ok'')"

definition validated_by :: "int \<Rightarrow> run_event list \<Rightarrow> run_event list" where
  "validated_by last_success events = filter (\<lambda>e. passed_check e \<and> ev_seq e > last_success \<and> last_success \<ge> 0) events"

definition check_entry :: "run_event \<Rightarrow> obj" where
  "check_entry e =
     [(''command'', get_default (ev_data e) ''command'' (JStr '''')), (''exit_code'', dat e ''exit_code''), (''seq'', JInt (ev_seq e))]"

definition latest_attempt :: "(int, obj) dict \<Rightarrow> int" where
  "latest_attempt attempts = Max (set (map fst attempts))"

definition final_state :: "node_scan \<Rightarrow> (int, obj) dict \<Rightarrow> run_event list \<Rightarrow> string" where
  "final_state sc attempts checks =
     (if checks \<noteq> [] \<and> \<not> (ns_claimed_state sc \<in> {''REJECTED'', ''BLOCKED''} \<and> ns_claimed_seq sc > ev_seq (last checks))
      then ''VALIDATED''
      else if ns_claimed_state sc \<noteq> [] \<and> ns_claimed_state sc \<noteq> ''VALIDATED'' then ns_claimed_state sc
      else if ns_last_success sc \<ge> 0 then ''TERMINAL_SUCCESS''
      else if attempts \<noteq> [] then
        (let outcome = text_at (the (map_of attempts (latest_attempt attempts))) ''outcome'' in
         if outcome = ''success'' then ''TERMINAL_SUCCESS'' else if outcome = ''failure'' then ''TERMINAL_FAILURE'' else ''RUNNING'')
      else ''PLANNED'')"

definition abandon :: "string \<Rightarrow> (int, obj) dict \<Rightarrow> (int, obj) dict" where
  "abandon state attempts =
     map (\<lambda>(n, row). (n, if text_at row ''outcome'' = ''running'' \<and> (n \<noteq> latest_attempt attempts \<or> state \<noteq> ''RUNNING'')
                         then dict_put ''outcome'' (JStr ''abandoned'') row else row)) attempts"

definition node_record :: "host \<Rightarrow> node_id \<Rightarrow> string \<Rightarrow> run_event list \<Rightarrow> obj" where
  "node_record h node kind events =
     (let sc = foldl (scan_event h) scan_start events;
          attempts = map_vals finish_row (ns_attempts sc);
          checks = validated_by (ns_last_success sc) events;
          state = final_state sc attempts checks
      in [(''node_id'', JStr node), (''kind'', JStr kind), (''final_state'', JStr state),
          (''attempts'', JList (map (JObj \<circ> snd) (by_key (abandon state attempts)))),
          (''validated_by'', JList (map (JObj \<circ> check_entry) checks))] @
         (case ns_commit sc of Some c \<Rightarrow> if c \<noteq> [] then [(''commit'', JStr c)] else [] | None \<Rightarrow> []))"


subsection \<open>The other blocks of a receipt\<close>

definition no_change_implement_nodes :: "work_graph \<Rightarrow> run_event list \<Rightarrow> obj list \<Rightarrow> node_id list" where
  "no_change_implement_nodes graph events nodes =
     (let validated = map (\<lambda>n. text_at n ''node_id'')
            (filter (\<lambda>n. get n ''kind'' = JStr ''implement'' \<and> get n ''final_state'' = JStr ''VALIDATED'') nodes);
          barriers = filter (\<lambda>e. ev_type e = ''barrier'' \<and> ev_node_id e \<in> set validated) events;
          last_ownership = foldl (\<lambda>m e. dict_put (ev_node_id e) (ev_seq e) m) []
            (filter (\<lambda>e. dat e ''name'' = JStr ''ownership'') barriers);
          last_no_change = foldl (\<lambda>m e. dict_put (ev_node_id e) (ev_seq e) m) []
            (filter (\<lambda>e. dat e ''name'' = JStr ''no_change'' \<and> is_true (dat e ''ok'')) barriers);
          seen = map fst (filter (\<lambda>(n, s). s > (case map_of last_ownership n of Some k \<Rightarrow> k | None \<Rightarrow> - 1)) last_no_change)
      in filter (\<lambda>n. n \<in> set seen) (map wn_node_id (wg_nodes graph)))"

definition REVIEW_FIELDS :: "string list" where
  "REVIEW_FIELDS =
     [''attempt'', ''route_id'', ''status'', ''category'', ''scope'', ''cooldown_seconds'', ''duration_seconds'', ''detail'']"

definition review_attempt :: "run_event \<Rightarrow> obj" where
  "review_attempt e = map (\<lambda>k. (k, dat e k)) (filter (\<lambda>k. dat e k \<noteq> JNull) REVIEW_FIELDS)"

definition blocking_findings :: "json \<Rightarrow> json \<Rightarrow> int" where
  "blocking_findings findings raw =
     (case findings of
        JList fs \<Rightarrow> int (length (filter (\<lambda>f. get f ''severity'' \<in> {JStr ''critical'', JStr ''high''}) (List.map_filter object fs)))
      | _ \<Rightarrow> (case raw of JBool b \<Rightarrow> if b then 1 else 0 | JInt n \<Rightarrow> n | _ \<Rightarrow> 0))"

definition review_source :: "json_file \<Rightarrow> run_event list \<Rightarrow> receipt_error + obj option" where
  "review_source file events =
     (if file \<noteq> Missing then bind_res (load_json ''review.json'' file) (\<lambda>d. Inr (Some d))
      else Inr (case filter (\<lambda>e. ev_type e = ''review'') events of [] \<Rightarrow> None | found \<Rightarrow> Some (ev_data (last found))))"

definition review_summary :: "host \<Rightarrow> obj option \<Rightarrow> obj" where
  "review_summary h source =
     (case source of
        None \<Rightarrow> [(''status'', JStr ''MISSING''), (''reviewer'', JStr ''''), (''route_id'', JStr ''''), (''blocking'', JInt 0)]
      | Some d \<Rightarrow>
          [(''status'', JStr (py_upper (str_or h (get d ''status'') ''ERROR''))),
           (''reviewer'', JStr (py_str (h_repr h) (get_default d ''reviewer'' (JStr '''')))),
           (''route_id'', JStr (py_str (h_repr h) (get_default d ''route_id'' (JStr '''')))),
           (''blocking'', JInt (blocking_findings (get d ''findings'') (get d ''blocking'')))])"

definition review_block :: "host \<Rightarrow> json_file \<Rightarrow> run_event list \<Rightarrow> receipt_error + obj" where
  "review_block h file events =
     bind_res (review_source file events) (\<lambda>source.
     let attempts = map (JObj \<circ> review_attempt) (filter (\<lambda>e. ev_type e = ''review_attempt'') events)
     in Inr (review_summary h source @ (if attempts \<noteq> [] then [(''attempts'', JList attempts)] else [])))"

definition producer_from_started :: "run_event option \<Rightarrow> obj option" where
  "producer_from_started started =
     (case started of
        None \<Rightarrow> None
      | Some e \<Rightarrow>
          (case dat e ''producer'' of
             JObj raw \<Rightarrow> Some [(''verdict_version'', get raw ''verdict_version''), (''git_sha'', get raw ''git_sha''), (''dirty'', get raw ''dirty'')]
           | _ \<Rightarrow> None))"

definition barrier_name :: "host \<Rightarrow> run_event \<Rightarrow> string" where
  "barrier_name h e = str_or h (dat e ''name'') (if ev_node_id e \<noteq> [] then ev_node_id e else ''integration'')"

definition barrier_entries :: "host \<Rightarrow> run_event list \<Rightarrow> (string, run_event) dict" where
  "barrier_entries h events =
     foldl (\<lambda>m e. dict_put (barrier_name h e) e m) [] (filter (\<lambda>e. ev_type e = ''barrier'') events)"

definition barrier_obj :: "string \<Rightarrow> run_event \<Rightarrow> obj" where
  "barrier_obj name e = [(''name'', JStr name), (''ok'', JBool (is_true (dat e ''ok''))), (''seq'', JInt (ev_seq e))]"

definition missing_barriers :: "work_node list \<Rightarrow> (string, run_event) dict \<Rightarrow> string list" where
  "missing_barriers nodes barriers =
     filter (\<lambda>name. name \<notin> set (map fst barriers)) (sorted_set (filter (\<lambda>b. b \<noteq> []) (map wn_barrier nodes)))"

definition integration_block :: "work_node list \<Rightarrow> (string, run_event) dict \<Rightarrow> obj" where
  "integration_block nodes barriers =
     (let missing = missing_barriers nodes barriers in
      [(''ok'', JBool (barriers \<noteq> [] \<and> missing = [] \<and> list_all (\<lambda>be. is_true (dat (snd be) ''ok'')) barriers)),
       (''barriers'', JList (map (\<lambda>be. JObj (barrier_obj (fst be) (snd be))) (by_key barriers))),
       (''missing'', JList (map JStr missing))])"

definition free_entries :: "string \<Rightarrow> run_event list \<Rightarrow> json list" where
  "free_entries kind events =
     map (\<lambda>e. JObj (merge_into [(''seq'', JInt (ev_seq e)), (''at'', JStr (ev_at e)), (''node_id'', JStr (ev_node_id e))] (ev_data e)))
       (filter (\<lambda>e. ev_type e = kind) events)"

definition planner_attempts :: "run_event list \<Rightarrow> json list" where
  "planner_attempts events =
     map (\<lambda>e. JObj (merge_into [(''seq'', JInt (ev_seq e)), (''at'', JStr (ev_at e))] (ev_data e)))
       (filter (\<lambda>e. ev_type e \<in> {''plan_started'', ''plan_repair_started'', ''plan_repair_terminal''}) events)"

definition all_attempts :: "obj list \<Rightarrow> obj list" where
  "all_attempts nodes = concat (map (\<lambda>n. objects (get n ''attempts'')) nodes)"

definition identity_count :: "string \<Rightarrow> obj list \<Rightarrow> json" where
  "identity_count name attempts = JInt (int (length (filter (\<lambda>a. get a ''route_identity'' = JStr name) attempts)))"

definition route_identity_summary :: "obj list \<Rightarrow> obj" where
  "route_identity_summary attempts =
     (''attempts'', JInt (int (length attempts))) #
     map (\<lambda>name. (name, identity_count name attempts)) [''match'', ''mismatch'', ''unattested'', ''mechanical'']"


subsection \<open>Completion\<close>

definition SCHEMA :: string where
  "SCHEMA = ''verdict.run-receipt/v1''"

text \<open>The OpenSpec gate: \<open>None\<close> when it passes, the reason otherwise.\<close>

definition openspec_gate :: "host \<Rightarrow> obj \<Rightarrow> string option" where
  "openspec_gate h receipt =
     (if \<not> has_key receipt ''openspec'' then None
      else case get receipt ''openspec'' of
        JObj block \<Rightarrow>
          (case get block ''conformance_result'' of
             JObj check \<Rightarrow>
               if get check ''status'' \<noteq> JStr ''PASS''
               then Some (''OpenSpec conformance required: '' @
                 py_str (h_repr h) (get_default check ''reason'' (JStr ''missing conformance result'')))
               else if \<not> truthy (get block ''spec_revision_digest'') \<or>
                 \<not> json_eq (get check ''spec_revision_digest'') (get block ''spec_revision_digest'')
               then Some ''OpenSpec spec_changed: conformance revision differs''
               else if \<not> truthy (get check ''output_sha256'') \<or> \<not> is_true (get check ''valid'') \<or> truthy (get check ''issues'') \<or>
                 \<not> json_eq (get check ''exit_code'') (JInt 0)
               then Some ''OpenSpec conformance evidence invalid''
               else None
           | _ \<Rightarrow> Some ''OpenSpec conformance required: missing conformance result'')
      | _ \<Rightarrow> Some ''OpenSpec block malformed'')"

definition gated_nodes :: "obj \<Rightarrow> obj list" where
  "gated_nodes receipt =
     filter (\<lambda>n. get n ''kind'' \<in> {JStr ''implement'', JStr ''integrate''}) (objects (get receipt ''nodes''))"

definition block_of :: "obj \<Rightarrow> string \<Rightarrow> obj" where
  "block_of receipt key = (case get receipt key of JObj d \<Rightarrow> d | _ \<Rightarrow> [])"

definition integration_reason :: "obj \<Rightarrow> string" where
  "integration_reason integration =
     (let failed = map (\<lambda>b. text_at b ''name'') (filter (\<lambda>b. \<not> truthy (get b ''ok'')) (objects (get integration ''barriers'')));
          missing = map str_of (elements (get integration ''missing'')) in
      if failed \<noteq> [] then ''integration barrier failed: '' @ py_join '', '' failed
      else if missing \<noteq> [] then ''integration barrier missing: '' @ py_join '', '' missing
      else ''integration barrier not recorded'')"

definition completion_verdict :: "host \<Rightarrow> obj \<Rightarrow> string \<times> string" where
  "completion_verdict h receipt =
     (let work = gated_nodes receipt; integration = block_of receipt ''integration''; review = block_of receipt ''review'';
          show = py_str (h_repr h) in
      if get receipt ''claimed_outcome'' = JStr ''CANCELLED'' then (''CANCELLED'', ''run cancelled by operator'')
      else if get receipt ''schema'' \<noteq> JStr SCHEMA
      then (''BLOCKED'', ''unknown receipt schema '' @ py_repr (h_repr h) (get receipt ''schema''))
      else case openspec_gate h receipt of
        Some reason \<Rightarrow> (''BLOCKED'', reason)
      | None \<Rightarrow>
          if work = [] then
            if get receipt ''graph_digest'' = JNull \<and> truthy (get receipt ''claimed_reason'')
            then (''BLOCKED'', show (get receipt ''claimed_reason''))
            else (''BLOCKED'', ''no implement/integrate nodes to validate'')
          else case List.find (\<lambda>n. get n ''final_state'' \<noteq> JStr ''VALIDATED'') work of
            Some n \<Rightarrow> (''BLOCKED'', ''node '' @ show (get n ''node_id'') @ '' not VALIDATED (final_state='' @ show (get n ''final_state'') @ '')'')
          | None \<Rightarrow>
              if \<not> truthy (get integration ''ok'') then (''BLOCKED'', integration_reason integration)
              else if get review ''status'' \<noteq> JStr ''PASS''
              then (''BLOCKED'', ''review status '' @ show (get_default review ''status'' (JStr ''MISSING'')) @ '' (PASS required)'')
              else if truthy (get review ''blocking'')
              then (''BLOCKED'', ''review has '' @ show (get review ''blocking'') @ '' blocking finding(s)'')
              else (''COMPLETE'', ''all implement/integrate nodes validated, barrier ok, review PASS''))"


subsection \<open>Building the receipt\<close>

definition find_last :: "('a \<Rightarrow> bool) \<Rightarrow> 'a list \<Rightarrow> 'a option" where
  "find_last P xs = List.find P (rev xs)"

text \<open>A run without plan gets a receipt only if it settled as blocked before any node or plan existed.\<close>

definition ended_before_plan :: "run_event list \<Rightarrow> bool" where
  "ended_before_plan events \<longleftrightarrow>
     (case find_last (\<lambda>e. ev_type e = ''run_finished'') events of
        None \<Rightarrow> False
      | Some e \<Rightarrow> dat e ''outcome'' = JStr ''BLOCKED'' \<and> list_all (\<lambda>e. ev_node_id e = []) events \<and>
          list_all (\<lambda>e. ev_type e \<noteq> ''plan_ready'') events)"

definition node_events :: "node_id \<Rightarrow> run_event list \<Rightarrow> run_event list" where
  "node_events node events = filter (\<lambda>e. ev_node_id e = node) events"

definition openspec_block :: "obj \<Rightarrow> run_event list \<Rightarrow> obj" where
  "openspec_block graph_raw events =
     (if \<not> has_key graph_raw ''openspec'' then []
      else case get graph_raw ''openspec'' of
        JObj d \<Rightarrow>
          [(''openspec'', JObj (dict_put ''conformance_result''
             (case find_last (\<lambda>e. ev_type e = ''openspec_conformance'') events of Some e \<Rightarrow> dat e ''result'' | None \<Rightarrow> JNull) d))]
      | other \<Rightarrow> [(''openspec'', other)])"

definition identity_warning :: string where
  "identity_warning = ''One or more successful attempts reported a model different from the intended route''"

text \<open>The receipt in the order of its keys: the fixed part, the recorded cause of a run without plan, the count and
  digest of the log, the optional parts, the OpenSpec block.\<close>

definition nodes_of_plan :: "work_graph option \<Rightarrow> work_node list" where
  "nodes_of_plan graph = (case graph of Some g \<Rightarrow> wg_nodes g | None \<Rightarrow> [])"

definition node_records :: "host \<Rightarrow> work_graph option \<Rightarrow> run_event list \<Rightarrow> obj list" where
  "node_records h graph events =
     map (\<lambda>n. node_record h (wn_node_id n) (kind_value (wn_kind n)) (node_events (wn_node_id n) events)) (nodes_of_plan graph)"

definition first_started :: "run_event list \<Rightarrow> run_event option" where
  "first_started events = List.find (\<lambda>e. ev_type e = ''run_started'') events"

definition last_finished :: "run_event list \<Rightarrow> run_event option" where
  "last_finished events = find_last (\<lambda>e. ev_type e = ''run_finished'') events"

definition claimed_outcome :: "host \<Rightarrow> run_event list \<Rightarrow> string" where
  "claimed_outcome h events =
     (case last_finished events of
        Some e \<Rightarrow> py_str (h_repr h) (get_default (ev_data e) ''outcome'' (JStr '''')) | None \<Rightarrow> [])"

definition receipt_core ::
  "host \<Rightarrow> string \<Rightarrow> obj \<Rightarrow> work_graph option \<Rightarrow> obj \<Rightarrow> run_event list \<Rightarrow> obj" where
  "receipt_core h name graph_raw graph review events =
     (let signals = free_entries ''decision_signals'' events in
      [(''schema'', JStr SCHEMA),
       (''run_id'', JStr (str_or h (get graph_raw ''run_id'')
          (str_or h (case first_started events of Some e \<Rightarrow> dat e ''run_id'' | None \<Rightarrow> JStr '''') name))),
       (''goal'', JStr (case graph of Some g \<Rightarrow> wg_goal g | None \<Rightarrow> str_or h (get graph_raw ''goal'') '''')),
       (''graph_digest'', case graph of Some g \<Rightarrow> JStr (graph_digest (h_repr h) (h_sha256 h) g) | None \<Rightarrow> JNull),
       (''topology'', case graph of Some g \<Rightarrow> JStr (topology_value (wg_topology g)) | None \<Rightarrow> JNull),
       (''nodes'', JList (map JObj (node_records h graph events))),
       (''route_identity_summary'', JObj (route_identity_summary (all_attempts (node_records h graph events)))),
       (''integration'', JObj (integration_block (nodes_of_plan graph) (barrier_entries h events))),
       (''reassignments'', JList (free_entries ''reassign'' events)),
       (''cooldowns'', JList (free_entries ''cooldown'' events)),
       (''review'', JObj review),
       (''controller_events'', JList (free_entries ''controller'' events)),
       (''planner_attempts'', JList (planner_attempts events)),
       (''decision_signals'', if signals = [] then JNull else JList signals),
       (''claimed_outcome'', JStr (claimed_outcome h events))])"

definition receipt_cause :: "host \<Rightarrow> work_graph option \<Rightarrow> run_event list \<Rightarrow> obj" where
  "receipt_cause h graph events =
     (case (graph, last_finished events) of
        (None, Some e) \<Rightarrow>
          [(''claimed_reason'', JStr (take 500 (h_redact h (py_str (h_repr h) (get_default (ev_data e) ''reason'' (JStr ''''))))))]
      | _ \<Rightarrow> [])"

definition receipt_stamp :: "host \<Rightarrow> string \<Rightarrow> run_event list \<Rightarrow> obj" where
  "receipt_stamp h log_text events =
     [(''event_count'', JInt (int (length events))),
      (''events_digest'', JStr (''sha256:'' @ h_sha256 h log_text)),
      (''started_at'', if events = [] then JNull else JStr (case first_started events of Some e \<Rightarrow> ev_at e | None \<Rightarrow> ev_at (hd events))),
      (''finished_at'', case last_finished events of Some e \<Rightarrow> JStr (ev_at e) | None \<Rightarrow> JNull)]"

definition receipt_options :: "host \<Rightarrow> work_graph option \<Rightarrow> run_event list \<Rightarrow> obj" where
  "receipt_options h graph events =
     (let nodes = node_records h graph events;
          no_change = (case graph of Some g \<Rightarrow> no_change_implement_nodes g events nodes | None \<Rightarrow> []);
          gates = free_entries ''repo_gates'' events;
          gate_results = free_entries ''repo_gate'' events in
      (case first_started events of
         Some e \<Rightarrow> (case dat e ''retry_budget'' of JObj b \<Rightarrow> [(''retry_budget'', JObj b)] | _ \<Rightarrow> []) | None \<Rightarrow> []) @
      (case producer_from_started (first_started events) of Some p \<Rightarrow> [(''producer'', JObj p)] | None \<Rightarrow> []) @
      (if gates \<noteq> [] \<or> gate_results \<noteq> [] then [(''repo_gates'', JList gates), (''repo_gate_results'', JList gate_results)] else []) @
      (if no_change \<noteq> [] then [(''no_change_nodes'', JList (map JStr no_change))] else []) @
      (if list_ex (\<lambda>a. get a ''outcome'' = JStr ''success'' \<and> get a ''route_identity'' = JStr ''mismatch'') (all_attempts nodes)
       then [(''route_identity_warning'', JStr identity_warning)] else []))"

definition receipt_body ::
  "host \<Rightarrow> string \<Rightarrow> string \<Rightarrow> obj \<Rightarrow> work_graph option \<Rightarrow> obj \<Rightarrow> run_event list \<Rightarrow> obj" where
  "receipt_body h name log_text graph_raw graph review events =
     receipt_core h name graph_raw graph review events @ receipt_cause h graph events @
     receipt_stamp h log_text events @ receipt_options h graph events @ openspec_block graph_raw events"

definition read_events :: "host \<Rightarrow> string \<Rightarrow> receipt_error + (run_event list \<times> string)" where
  "read_events h log_text =
     (if log_text = [] then Inr ([], [])
      else (case EventLog (h_repr h) (h_read h) (Some log_text) of
              Inl e \<Rightarrow> Inl (BadLog e)
            | Inr lg \<Rightarrow>
                (case read_log (h_repr h) (h_read h) (el_file lg) of
                   Inl e \<Rightarrow> Inl (BadLog e)
                 | Inr events \<Rightarrow> Inr (events, the (el_file lg)))))"

definition read_plan :: "host \<Rightarrow> json_file \<Rightarrow> receipt_error + (obj \<times> work_graph option)" where
  "read_plan h file =
     bind_res (if file = Missing then Inr [] else load_json ''graph.json'' file) (\<lambda>raw.
     if truthy (get raw ''nodes'')
     then (case graph_from_dict (h_repr h) (filter (\<lambda>kv. fst kv \<noteq> ''run_id'') raw) of
             Inl e \<Rightarrow> Inl (BadPlan e) | Inr g \<Rightarrow> Inr (raw, Some g))
     else Inr (raw, None))"

text \<open>The files after a build: opening the log has cut an unfinished last line.\<close>

definition repaired :: "run_dir \<Rightarrow> run_dir" where
  "repaired d = d\<lparr> rd_events := repair_torn_tail (rd_events d) \<rparr>"

definition build_run_receipt :: "host \<Rightarrow> run_dir \<Rightarrow> receipt_error + obj" where
  "build_run_receipt h d =
     (case rd_events d of
        None \<Rightarrow> Inl MissingEvents
      | Some log_text \<Rightarrow>
          bind_res (read_events h log_text) (\<lambda>(events, log_text').
          bind_res (read_plan h (rd_graph d)) (\<lambda>(graph_raw, graph).
          bind_res (guard_res (graph \<noteq> None \<or> ended_before_plan events) PlanMissing) (\<lambda>_.
          bind_res (review_block h (rd_review d) events) (\<lambda>review.
          let body = receipt_body h (rd_name d) log_text' graph_raw graph review events;
              verdict = completion_verdict h body
          in Inr (body @ [(''outcome'', JStr (fst verdict)), (''reason'', JStr (snd verdict))]))))))"


subsection \<open>Writing and verifying\<close>

text \<open>\<open>json.dump\<close> with \<open>sort_keys\<close>: the file reads back as the receipt with its keys in order.\<close>

definition write_receipt_file :: "host \<Rightarrow> run_dir \<Rightarrow> (receipt_error + unit) \<times> run_dir" where
  "write_receipt_file h d =
     (case build_run_receipt h d of
        Inl e \<Rightarrow> (Inl e, repaired d)
      | Inr receipt \<Rightarrow> (Inr (), (repaired d)\<lparr> rd_receipt := Holds (canon (JObj receipt)) \<rparr>))"

datatype problem =
    ReceiptMissing
  | ReceiptUnreadable receipt_error
  | UnexpectedSchema json
  | EventsMissing
  | DigestMismatch
  | CannotRebuild receipt_error
  | KeyMismatch string

definition key_mismatches :: "obj \<Rightarrow> obj \<Rightarrow> problem list" where
  "key_mismatches fresh stored =
     map KeyMismatch
       (filter (\<lambda>k. k \<noteq> ''events_digest'' \<and> \<not> json_eq (get fresh k) (get stored k)) (sorted_set (map fst fresh @ map fst stored)))"

definition verify_run_receipt :: "host \<Rightarrow> run_dir \<Rightarrow> problem list \<times> run_dir" where
  "verify_run_receipt h d =
     (if rd_receipt d = Missing then ([ReceiptMissing], d)
      else case load_json ''receipt.json'' (rd_receipt d) of
        Inl e \<Rightarrow> ([ReceiptUnreadable e], d)
      | Inr stored \<Rightarrow>
          (let schema = (if get stored ''schema'' \<noteq> JStr SCHEMA then [UnexpectedSchema (get stored ''schema'')] else []) in
           case rd_events d of
             None \<Rightarrow> (schema @ [EventsMissing], d)
           | Some log_text \<Rightarrow>
               (let problems = schema @
                      (if get stored ''events_digest'' \<noteq> JStr (''sha256:'' @ h_sha256 h log_text) then [DigestMismatch] else []) in
                case build_run_receipt h d of
                  Inl e \<Rightarrow> (problems @ [CannotRebuild e], repaired d)
                | Inr fresh \<Rightarrow> (problems @ key_mismatches fresh stored, repaired d))))"


section \<open>What a receipt says about the log\<close>

subsection \<open>The order of the log\<close>

definition increasing :: "run_event list \<Rightarrow> bool" where
  "increasing es \<longleftrightarrow> sorted_wrt (\<lambda>a b. ev_seq a < ev_seq b) es \<and> (\<forall>e\<in>set es. 0 < ev_seq e)"

lemma read_lines_increasing:
  "read_lines frepr fread n prev lines = Inr es \<Longrightarrow>
   sorted_wrt (\<lambda>a b. ev_seq a < ev_seq b) es \<and> (\<forall>e\<in>set es. prev < ev_seq e)"
proof (induction frepr fread n prev lines arbitrary: es rule: read_lines.induct)
  case (2 frepr fread n prev line lines)
  show ?case
  proof (cases "py_strip line = []")
    case True
    then show ?thesis using 2 by simp
  next
    case False
    then obtain e where e: "event_of_line frepr fread line = Some e" "prev < ev_seq e"
      using "2.prems" by (auto split: option.splits if_splits)
    then obtain rest where r: "read_lines frepr fread (Suc n) (ev_seq e) lines = Inr rest" "es = e # rest"
      using "2.prems" False by (auto simp: res_simps split: option.splits if_splits)
    have "sorted_wrt (\<lambda>a b. ev_seq a < ev_seq b) rest \<and> (\<forall>x\<in>set rest. ev_seq e < ev_seq x)"
      using "2.IH"(2) [OF False e(1) _ r(1)] e(2) by simp
    then show ?thesis using r(2) e(2) by auto
  qed
qed simp

lemma read_log_increasing: "read_log frepr fread file = Inr es \<Longrightarrow> increasing es"
  using read_lines_increasing [of frepr fread 1 0] by (auto simp: read_log_def increasing_def split: option.splits)

lemma read_events_increasing: "read_events h t = Inr (es, t') \<Longrightarrow> increasing es"
  by (auto simp: read_events_def increasing_def [of "[]"] dest: read_log_increasing split: if_splits sum.splits)

lemma increasing_node_events: "increasing es \<Longrightarrow> increasing (node_events n es)"
  by (auto simp: increasing_def node_events_def intro: sorted_wrt_filter)

lemma find_last_snoc: "find_last P (xs @ [x]) = (if P x then Some x else find_last P xs)"
  by (simp add: find_last_def)

lemma find_last_None: "find_last P xs = None \<longleftrightarrow> (\<forall>x\<in>set xs. \<not> P x)"
  by (auto simp: find_last_def find_None_iff)

lemma find_last_Some:
  "increasing es \<Longrightarrow> find_last P es = Some e \<longleftrightarrow> e \<in> set es \<and> P e \<and> (\<forall>x\<in>set es. P x \<longrightarrow> ev_seq x \<le> ev_seq e)"
proof (induction es rule: rev_induct)
  case (snoc a es)
  have inc: "increasing es" and above: "\<And>x. x \<in> set es \<Longrightarrow> ev_seq x < ev_seq a"
    using snoc.prems by (auto simp: increasing_def sorted_wrt_append)
  show ?case
  proof (cases "P a")
    case True
    then show ?thesis using above by (auto simp: find_last_snoc dest: leD less_imp_le)
  next
    case False
    then show ?thesis using snoc.IH [OF inc] by (auto simp: find_last_snoc)
  qed
qed (simp add: find_last_def)


subsection \<open>When a node counts as validated\<close>

definition claims_state :: "host \<Rightarrow> run_event \<Rightarrow> string" where
  "claims_state h e = py_str (h_repr h) (get_default (ev_data e) ''state'' (JStr ''''))"

definition succeeded :: "host \<Rightarrow> run_event \<Rightarrow> bool" where
  "succeeded h e \<longleftrightarrow>
     ev_type e = ''terminal'' \<and> is_true (dat e ''ok'') \<or> ev_type e = ''node_state'' \<and> claims_state h e = ''TERMINAL_SUCCESS''"

definition last_claim :: "run_event list \<Rightarrow> run_event \<Rightarrow> bool" where
  "last_claim es c \<longleftrightarrow> c \<in> set es \<and> ev_type c = ''node_state'' \<and>
     (\<forall>x\<in>set es. ev_type x = ''node_state'' \<longrightarrow> ev_seq x \<le> ev_seq c)"

text \<open>
  A node is proven by its events when it succeeded, a check passed after every success, and the last state that
  was claimed for it is not a rejection or a block after that check.
\<close>

definition proven :: "host \<Rightarrow> run_event list \<Rightarrow> bool" where
  "proven h es \<longleftrightarrow>
     (\<exists>s\<in>set es. succeeded h s) \<and>
     (\<exists>v\<in>set es. passed_check v \<and> (\<forall>s\<in>set es. succeeded h s \<longrightarrow> ev_seq s < ev_seq v) \<and>
        (\<forall>c. last_claim es c \<longrightarrow> claims_state h c \<in> {''REJECTED'', ''BLOCKED''} \<longrightarrow> ev_seq c \<le> ev_seq v))"

lemma scan_event_facts:
  "ns_last_success (scan_event h sc e) = (if succeeded h e then ev_seq e else ns_last_success sc)"
  "ns_claimed_state (scan_event h sc e) = (if ev_type e = ''node_state'' then claims_state h e else ns_claimed_state sc)"
  "ns_claimed_seq (scan_event h sc e) = (if ev_type e = ''node_state'' then ev_seq e else ns_claimed_seq sc)"
  by (simp_all add: scan_event_def is_attempt_event_def scan_attempt_def scan_selection_def scan_state_def
      succeeded_def claims_state_def Let_def)

lemma scan_last:
  "ns_last_success (foldl (scan_event h) scan_start es) = (case find_last (succeeded h) es of Some s \<Rightarrow> ev_seq s | None \<Rightarrow> - 1)"
  "ns_claimed_state (foldl (scan_event h) scan_start es) =
     (case find_last (\<lambda>e. ev_type e = ''node_state'') es of Some c \<Rightarrow> claims_state h c | None \<Rightarrow> [])"
  "ns_claimed_seq (foldl (scan_event h) scan_start es) =
     (case find_last (\<lambda>e. ev_type e = ''node_state'') es of Some c \<Rightarrow> ev_seq c | None \<Rightarrow> - 1)"
  by (induction es rule: rev_induct) (simp_all add: scan_event_facts find_last_snoc scan_start_def find_last_def)

lemma final_state_validated:
  "final_state sc attempts checks = ''VALIDATED'' \<longleftrightarrow>
     checks \<noteq> [] \<and> \<not> (ns_claimed_state sc \<in> {''REJECTED'', ''BLOCKED''} \<and> ns_claimed_seq sc > ev_seq (last checks))"
  by (simp add: final_state_def Let_def)

lemma last_filter_max:
  assumes "increasing es" "filter P es \<noteq> []"
  shows "last (filter P es) \<in> set es \<and> P (last (filter P es)) \<and> (\<forall>x\<in>set es. P x \<longrightarrow> ev_seq x \<le> ev_seq (last (filter P es)))"
proof -
  have "find_last P es = Some (last (filter P es))"
    using assms(2) by (induction es rule: rev_induct) (auto simp: find_last_snoc)
  then show ?thesis using find_last_Some [OF assms(1)] by blast
qed

lemma node_record_state:
  "get (node_record h n kind es) ''final_state'' =
     JStr (final_state (foldl (scan_event h) scan_start es)
       (map_vals finish_row (ns_attempts (foldl (scan_event h) scan_start es)))
       (validated_by (ns_last_success (foldl (scan_event h) scan_start es)) es))"
  by (simp add: node_record_def get_def Let_def)

lemma node_validated_proven:
  assumes inc: "increasing es"
  shows "get (node_record h n kind es) ''final_state'' = JStr ''VALIDATED'' \<longleftrightarrow> proven h es"
proof (cases "find_last (succeeded h) es")
  case None
  then have "validated_by (ns_last_success (foldl (scan_event h) scan_start es)) es = []"
    by (simp add: scan_last validated_by_def)
  moreover have "\<not> proven h es" using None by (simp add: proven_def find_last_None)
  ultimately show ?thesis by (simp add: node_record_state final_state_validated)
next
  case (Some s)
  let ?sc = "foldl (scan_event h) scan_start es"
  let ?P = "\<lambda>e. passed_check e \<and> ev_seq e > ev_seq s"
  have s: "s \<in> set es" "succeeded h s" "\<And>x. x \<in> set es \<Longrightarrow> succeeded h x \<Longrightarrow> ev_seq x \<le> ev_seq s"
    using Some find_last_Some [OF inc] by blast+
  have "0 < ev_seq s" using inc s(1) by (simp add: increasing_def)
  then have checks: "validated_by (ns_last_success ?sc) es = filter ?P es"
    by (simp add: validated_by_def scan_last Some)
  have after: "(\<forall>x\<in>set es. succeeded h x \<longrightarrow> ev_seq x < ev_seq v) \<longleftrightarrow> ev_seq s < ev_seq v" for v
    using s by force
  have claim: "ns_claimed_state ?sc \<in> {''REJECTED'', ''BLOCKED''} \<and> ns_claimed_seq ?sc > k \<longleftrightarrow>
      (\<exists>c. last_claim es c \<and> claims_state h c \<in> {''REJECTED'', ''BLOCKED''} \<and> ev_seq c > k)" for k
  proof (cases "find_last (\<lambda>e. ev_type e = ''node_state'') es")
    case None
    then have "\<not> last_claim es c" for c by (auto simp: find_last_None last_claim_def)
    then show ?thesis using None by (simp add: scan_last)
  next
    case (Some c)
    then have c: "find_last (\<lambda>e. ev_type e = ''node_state'') es = Some x \<longleftrightarrow> last_claim es x" for x
      using find_last_Some [OF inc, of "\<lambda>e. ev_type e = ''node_state''" x] by (simp add: last_claim_def)
    then have "last_claim es x \<longleftrightarrow> x = c" for x using Some c [of x] by (metis option.inject)
    then show ?thesis using Some by (simp add: scan_last)
  qed
  show ?thesis
  proof (cases "filter ?P es = []")
    case True
    then have "\<not> proven h es" using after by (auto simp: proven_def filter_empty_conv)
    then show ?thesis using True by (simp add: node_record_state final_state_validated checks)
  next
    case False
    let ?v = "last (filter ?P es)"
    have v: "?v \<in> set es" "passed_check ?v" "ev_seq ?v > ev_seq s" "\<And>x. x \<in> set es \<Longrightarrow> ?P x \<Longrightarrow> ev_seq x \<le> ev_seq ?v"
      using last_filter_max [OF inc False] by auto
    have "proven h es \<longleftrightarrow>
        (\<forall>c. last_claim es c \<longrightarrow> claims_state h c \<in> {''REJECTED'', ''BLOCKED''} \<longrightarrow> ev_seq c \<le> ev_seq ?v)"
      (is "?l \<longleftrightarrow> ?r")
    proof
      assume ?l
      then obtain w where w: "w \<in> set es" "passed_check w" "ev_seq s < ev_seq w"
        "\<forall>c. last_claim es c \<longrightarrow> claims_state h c \<in> {''REJECTED'', ''BLOCKED''} \<longrightarrow> ev_seq c \<le> ev_seq w"
        unfolding proven_def after by blast
      then have "ev_seq w \<le> ev_seq ?v" using v(4) by blast
      then show ?r using w(4) by force
    next
      assume ?r
      then show ?l using s(1,2) v unfolding proven_def after by blast
    qed
    then show ?thesis
      using claim [of "ev_seq ?v"] False by (auto simp: node_record_state final_state_validated checks not_less)
  qed
qed


subsection \<open>When a receipt is complete\<close>

definition is_barrier :: "run_event \<Rightarrow> bool" where
  "is_barrier e \<longleftrightarrow> ev_type e = ''barrier''"

text \<open>The last event of a barrier name.\<close>

definition last_barrier :: "host \<Rightarrow> run_event list \<Rightarrow> run_event \<Rightarrow> bool" where
  "last_barrier h es e \<longleftrightarrow> e \<in> set es \<and> is_barrier e \<and>
     (\<forall>x\<in>set es. is_barrier x \<longrightarrow> barrier_name h x = barrier_name h e \<longrightarrow> ev_seq x \<le> ev_seq e)"

definition barriers_hold :: "host \<Rightarrow> work_node list \<Rightarrow> run_event list \<Rightarrow> bool" where
  "barriers_hold h nodes es \<longleftrightarrow>
     (\<exists>e\<in>set es. is_barrier e) \<and>
     (\<forall>n\<in>set nodes. wn_barrier n \<noteq> [] \<longrightarrow> (\<exists>e\<in>set es. is_barrier e \<and> barrier_name h e = wn_barrier n)) \<and>
     (\<forall>e. last_barrier h es e \<longrightarrow> is_true (dat e ''ok''))"

lemma barrier_entries_lookup:
  "map_of (barrier_entries h es) name = find_last (\<lambda>e. is_barrier e \<and> barrier_name h e = name) es"
  by (induction es rule: rev_induct) (simp_all add: barrier_entries_def is_barrier_def find_last_snoc find_last_def)

lemma barrier_entries_wf: "dict_wf (barrier_entries h es)"
proof -
  have "dict_wf m \<Longrightarrow> dict_wf (foldl (\<lambda>m e. dict_put (barrier_name h e) e m) m xs)" for m xs
    by (induction xs arbitrary: m) (simp_all add: dict_wf_put)
  then show ?thesis unfolding barrier_entries_def by (simp add: dict_wf_def)
qed

lemma barrier_entries_set:
  assumes "increasing es"
  shows "(name, e) \<in> set (barrier_entries h es) \<longleftrightarrow> last_barrier h es e \<and> barrier_name h e = name"
proof -
  have "(name, e) \<in> set (barrier_entries h es) \<longleftrightarrow> map_of (barrier_entries h es) name = Some e"
    using barrier_entries_wf [of h es] by (simp add: dict_wf_def map_of_eq_Some_iff)
  then show ?thesis
    using find_last_Some [OF assms, of "\<lambda>e. is_barrier e \<and> barrier_name h e = name" e]
    by (auto simp: barrier_entries_lookup last_barrier_def)
qed

lemma barrier_names: "name \<in> set (map fst (barrier_entries h es)) \<longleftrightarrow> (\<exists>e\<in>set es. is_barrier e \<and> barrier_name h e = name)"
proof -
  have "name \<in> set (map fst (barrier_entries h es)) \<longleftrightarrow> map_of (barrier_entries h es) name \<noteq> None"
    by (simp add: map_of_eq_None_iff)
  then show ?thesis by (auto simp: barrier_entries_lookup find_last_None)
qed

lemma integration_holds:
  assumes "increasing es"
  shows "truthy (get (integration_block nodes (barrier_entries h es)) ''ok'') \<longleftrightarrow> barriers_hold h nodes es"
proof -
  have "barrier_entries h es \<noteq> [] \<longleftrightarrow> (\<exists>name. name \<in> set (map fst (barrier_entries h es)))"
    by (cases "barrier_entries h es") auto
  then have a: "barrier_entries h es \<noteq> [] \<longleftrightarrow> (\<exists>e\<in>set es. is_barrier e)" unfolding barrier_names by blast
  have b: "missing_barriers nodes (barrier_entries h es) = [] \<longleftrightarrow>
      (\<forall>n\<in>set nodes. wn_barrier n \<noteq> [] \<longrightarrow> (\<exists>e\<in>set es. is_barrier e \<and> barrier_name h e = wn_barrier n))"
    unfolding missing_barriers_def barrier_names filter_empty_conv by auto
  have c: "list_all (\<lambda>be. is_true (dat (snd be) ''ok'')) (barrier_entries h es) \<longleftrightarrow> (\<forall>e. last_barrier h es e \<longrightarrow> is_true (dat e ''ok''))"
    using barrier_entries_set [OF assms, of _ _ h] by (force simp: list_all_iff)
  show ?thesis unfolding barriers_hold_def by (simp add: integration_block_def get_def Let_def a b c)
qed

lemma completion_iff:
  "fst (completion_verdict h r) = ''COMPLETE'' \<longleftrightarrow>
     get r ''claimed_outcome'' \<noteq> JStr ''CANCELLED'' \<and> get r ''schema'' = JStr SCHEMA \<and> openspec_gate h r = None \<and>
     gated_nodes r \<noteq> [] \<and> (\<forall>n\<in>set (gated_nodes r). get n ''final_state'' = JStr ''VALIDATED'') \<and>
     truthy (get (block_of r ''integration'') ''ok'') \<and>
     get (block_of r ''review'') ''status'' = JStr ''PASS'' \<and> \<not> truthy (get (block_of r ''review'') ''blocking'')"
proof (cases "List.find (\<lambda>n. get n ''final_state'' \<noteq> JStr ''VALIDATED'') (gated_nodes r)")
  case None
  then have "\<forall>n\<in>set (gated_nodes r). get n ''final_state'' = JStr ''VALIDATED''" by (simp add: find_None_iff)
  then show ?thesis using None by (simp add: completion_verdict_def Let_def split: option.split)
next
  case (Some n)
  then have "n \<in> set (gated_nodes r) \<and> get n ''final_state'' \<noteq> JStr ''VALIDATED''"
    by (auto simp: find_Some_iff)
  then show ?thesis using Some by (auto simp: completion_verdict_def Let_def split: option.split)
qed

text \<open>Which keys each part of a receipt has.\<close>

lemma cause_keys: "k \<noteq> ''claimed_reason'' \<Longrightarrow> map_of (receipt_cause h graph es) k = None"
  by (auto simp: receipt_cause_def split: option.split)

lemma options_keys:
  "k \<notin> {''retry_budget'', ''producer'', ''repo_gates'', ''repo_gate_results'', ''no_change_nodes'', ''route_identity_warning''} \<Longrightarrow>
   map_of (receipt_options h graph es) k = None"
  unfolding receipt_options_def Let_def map_of_append map_add_None
  by (intro conjI) (auto split: option.split json.split)

lemma openspec_keys: "k \<noteq> ''openspec'' \<Longrightarrow> map_of (openspec_block raw es) k = None"
  by (auto simp: openspec_block_def split: json.split)

lemma body_core:
  "map_of (receipt_core h name raw graph review es) k = Some v \<Longrightarrow> map_of (receipt_body h name t raw graph review es) k = Some v"
  by (simp add: receipt_body_def)

lemma body_lookup:
  "map_of (receipt_body h name t raw graph review es) ''schema'' = Some (JStr SCHEMA)"
  "map_of (receipt_body h name t raw graph review es) ''nodes'' = Some (JList (map JObj (node_records h graph es)))"
  "map_of (receipt_body h name t raw graph review es) ''integration'' =
     Some (JObj (integration_block (nodes_of_plan graph) (barrier_entries h es)))"
  "map_of (receipt_body h name t raw graph review es) ''review'' = Some (JObj review)"
  "map_of (receipt_body h name t raw graph review es) ''claimed_outcome'' = Some (JStr (claimed_outcome h es))"
  by (rule body_core, simp add: receipt_core_def Let_def)+

lemma body_rest:
  "map_of (receipt_body h name t raw graph review es) ''events_digest'' = Some (JStr (''sha256:'' @ h_sha256 h t))"
  "map_of (receipt_body h name t raw graph review es) ''outcome'' = None"
  "map_of (receipt_body h name t raw graph review es) ''openspec'' = map_of (openspec_block raw es) ''openspec''"
  by (simp_all add: receipt_body_def receipt_core_def Let_def receipt_stamp_def map_add_def cause_keys options_keys openspec_keys
      split: option.split)

lemma get_body:
  "get (receipt_body h name t raw graph review es @ xs) ''schema'' = JStr SCHEMA"
  "get (receipt_body h name t raw graph review es) ''nodes'' = JList (map JObj (node_records h graph es))"
  "get (receipt_body h name t raw graph review es) ''claimed_outcome'' = JStr (claimed_outcome h es)"
  "block_of (receipt_body h name t raw graph review es) ''integration'' = integration_block (nodes_of_plan graph) (barrier_entries h es)"
  "block_of (receipt_body h name t raw graph review es) ''review'' = review"
  by (simp_all add: get_def block_of_def body_lookup)

lemma gate_of_body: "openspec_gate h (receipt_body h name t raw graph review es) = openspec_gate h (openspec_block raw es)"
  by (simp add: openspec_gate_def has_key_def get_def body_rest)

lemma node_record_kind: "get (node_record h n kind es) ''kind'' = JStr kind"
  by (simp add: node_record_def get_def Let_def)

lemma objects_JObj [simp]: "objects (JList (map JObj xs)) = xs"
  by (simp add: objects_def elements_def object_def map_filter_def comp_def)

definition is_work :: "work_node \<Rightarrow> bool" where
  "is_work n \<longleftrightarrow> wn_kind n \<in> {IMPLEMENT, INTEGRATE}"

lemma kind_value_work: "JStr (kind_value (wn_kind n)) \<in> {JStr ''implement'', JStr ''integrate''} \<longleftrightarrow> is_work n"
  by (cases "wn_kind n") (simp_all add: is_work_def)

lemma gated_body:
  "gated_nodes (receipt_body h name t raw graph review es) =
     map (\<lambda>n. node_record h (wn_node_id n) (kind_value (wn_kind n)) (node_events (wn_node_id n) es)) (filter is_work (nodes_of_plan graph))"
  unfolding gated_nodes_def get_body objects_JObj node_records_def filter_map comp_def node_record_kind kind_value_work
  by (rule refl)

text \<open>A review that passed without blocking findings.\<close>

definition review_passed :: "host \<Rightarrow> json_file \<Rightarrow> run_event list \<Rightarrow> bool" where
  "review_passed h file es \<longleftrightarrow>
     (\<exists>d. review_source file es = Inr (Some d) \<and> py_upper (str_or h (get d ''status'') ''ERROR'') = ''PASS'' \<and>
        blocking_findings (get d ''findings'') (get d ''blocking'') = 0)"

lemma review_block_passed:
  "review_block h file es = Inr review \<Longrightarrow>
   get review ''status'' = JStr ''PASS'' \<and> \<not> truthy (get review ''blocking'') \<longleftrightarrow> review_passed h file es"
proof -
  assume "review_block h file es = Inr review"
  then obtain source where s: "review_source file es = Inr source"
    and r: "\<exists>extra. review = review_summary h source @ extra"
    by (auto simp: review_block_def bind_res_Inr Let_def simp del: append_assoc)
  show ?thesis
  proof (cases source)
    case None
    then have "get review ''status'' = JStr ''MISSING''" using r by (auto simp: get_def review_summary_def)
    then show ?thesis using s None by (simp add: review_passed_def)
  next
    case (Some d)
    then have "get review ''status'' = JStr (py_upper (str_or h (get d ''status'') ''ERROR''))"
      "get review ''blocking'' = JInt (blocking_findings (get d ''findings'') (get d ''blocking''))"
      using r by (auto simp: get_def review_summary_def)
    then show ?thesis using s Some by (simp add: review_passed_def)
  qed
qed

text \<open>Everything a complete run has to show in its files.\<close>

definition complete_evidence :: "host \<Rightarrow> run_dir \<Rightarrow> bool" where
  "complete_evidence h d \<longleftrightarrow>
     (\<exists>log_text es t' raw g.
        rd_events d = Some log_text \<and> read_events h log_text = Inr (es, t') \<and> read_plan h (rd_graph d) = Inr (raw, Some g) \<and>
        claimed_outcome h es \<noteq> ''CANCELLED'' \<and>
        openspec_gate h (openspec_block raw es) = None \<and>
        (\<exists>n\<in>set (wg_nodes g). is_work n) \<and>
        (\<forall>n\<in>set (wg_nodes g). is_work n \<longrightarrow> proven h (node_events (wn_node_id n) es)) \<and>
        barriers_hold h (wg_nodes g) es \<and>
        review_passed h (rd_review d) es)"

lemma build_parts:
  assumes "build_run_receipt h d = Inr r"
  obtains t es t' raw graph review where
    "rd_events d = Some t" "read_events h t = Inr (es, t')" "read_plan h (rd_graph d) = Inr (raw, graph)"
    "review_block h (rd_review d) es = Inr review"
    "r = receipt_body h (rd_name d) t' raw graph review es @
       [(''outcome'', JStr (fst (completion_verdict h (receipt_body h (rd_name d) t' raw graph review es)))),
        (''reason'', JStr (snd (completion_verdict h (receipt_body h (rd_name d) t' raw graph review es))))]"
proof -
  obtain t where t: "rd_events d = Some t" using assms by (cases "rd_events d") (simp_all add: build_run_receipt_def)
  note b = assms [unfolded build_run_receipt_def t option.case bind_res_Inr Let_def]
  from b obtain es t' where es: "read_events h t = Inr (es, t')" by auto
  from b es obtain raw graph where plan: "read_plan h (rd_graph d) = Inr (raw, graph)" by (auto simp: bind_res_Inr)
  from b es plan obtain review where review: "review_block h (rd_review d) es = Inr review" by (auto simp: bind_res_Inr)
  show thesis
    by (rule that [OF t es plan review]) (use b es plan review in \<open>simp add: bind_res_Inr\<close>)
qed

lemma built_outcome:
  "get (receipt_body h name t raw graph review es @ [(''outcome'', JStr a), (''reason'', JStr b)]) ''outcome'' = JStr a"
  by (simp add: get_def map_add_def body_rest)

lemma body_complete:
  assumes "increasing es" "review_block h file es = Inr review"
  shows "fst (completion_verdict h (receipt_body h name t raw graph review es)) = ''COMPLETE'' \<longleftrightarrow>
    claimed_outcome h es \<noteq> ''CANCELLED'' \<and> openspec_gate h (openspec_block raw es) = None \<and>
    (\<exists>n\<in>set (nodes_of_plan graph). is_work n) \<and>
    (\<forall>n\<in>set (nodes_of_plan graph). is_work n \<longrightarrow> proven h (node_events (wn_node_id n) es)) \<and>
    barriers_hold h (nodes_of_plan graph) es \<and> review_passed h file es"
proof -
  let ?b = "receipt_body h name t raw graph review es"
  have state: "get (node_record h (wn_node_id n) k (node_events (wn_node_id n) es)) ''final_state'' = JStr ''VALIDATED'' \<longleftrightarrow>
      proven h (node_events (wn_node_id n) es)" for n k
    by (rule node_validated_proven [OF increasing_node_events [OF assms(1)]])
  have "get ?b ''schema'' = JStr SCHEMA" using get_body(1) [of h name t raw graph review es "[]"] by simp
  moreover have "(\<forall>n\<in>set (gated_nodes ?b). get n ''final_state'' = JStr ''VALIDATED'') \<longleftrightarrow>
      (\<forall>n\<in>set (nodes_of_plan graph). is_work n \<longrightarrow> proven h (node_events (wn_node_id n) es))"
    unfolding gated_body by (auto simp: state)
  moreover have "gated_nodes ?b \<noteq> [] \<longleftrightarrow> (\<exists>n\<in>set (nodes_of_plan graph). is_work n)"
    unfolding gated_body by (auto simp: filter_empty_conv)
  ultimately show ?thesis
    unfolding completion_iff gate_of_body get_body(3-5) integration_holds [OF assms(1)]
    using review_block_passed [OF assms(2)] by simp
qed

lemma complete_evidence_iff:
  assumes "build_run_receipt h d = Inr r"
  shows "get r ''outcome'' = JStr ''COMPLETE'' \<longleftrightarrow> complete_evidence h d"
proof -
  obtain t es t' raw graph review where
    b: "rd_events d = Some t" "read_events h t = Inr (es, t')" "read_plan h (rd_graph d) = Inr (raw, graph)"
    "review_block h (rd_review d) es = Inr review" and
    r: "r = receipt_body h (rd_name d) t' raw graph review es @
       [(''outcome'', JStr (fst (completion_verdict h (receipt_body h (rd_name d) t' raw graph review es)))),
        (''reason'', JStr (snd (completion_verdict h (receipt_body h (rd_name d) t' raw graph review es))))]"
    by (rule build_parts [OF assms]) (rule that)
  have inc: "increasing es" by (rule read_events_increasing [OF b(2)])
  show ?thesis
  proof (cases graph)
    case None
    then show ?thesis
      unfolding r built_outcome json.inject body_complete [OF inc b(4)] complete_evidence_def using b by (simp add: nodes_of_plan_def)
  next
    case (Some g)
    then show ?thesis
      unfolding r built_outcome json.inject body_complete [OF inc b(4)] complete_evidence_def using b by (simp add: nodes_of_plan_def)
  qed
qed

text \<open>C4. A receipt is complete exactly when the files show it: the run was not cancelled, the OpenSpec gate holds, the plan has
  implementation or integration work, every such node succeeded and passed a check after its last success that no
  later rejection revoked, every declared barrier was recorded and the last result of every barrier is positive, and
  the review passed without blocking findings. What the run claims about its nodes or its outcome cannot make it complete.\<close>

theorem complete_iff_evidence:
  assumes "build_run_receipt h d = Inr r"
  shows "get r ''outcome'' = JStr ''COMPLETE'' \<longleftrightarrow> complete_evidence h d"
  using assms by (rule complete_evidence_iff)


subsection \<open>Stored receipts\<close>

lemma repair_idem: "repair_torn_tail (repair_torn_tail f) = repair_torn_tail f"
proof (cases f)
  case (Some raw)
  let ?cut = "rev (dropWhile (\<lambda>c. c \<noteq> CHR 0x0A) (rev raw))"
  have "?cut = [] \<or> last ?cut = CHR 0x0A"
    using hd_dropWhile [of "\<lambda>c. c \<noteq> CHR 0x0A" "rev raw"] by (auto simp: last_rev dropWhile_eq_Nil_conv)
  then show ?thesis using Some by (auto simp: repair_torn_tail_def)
qed (simp add: repair_torn_tail_def)

lemma read_events_text: "read_events h t = Inr (es, t') \<Longrightarrow> repair_torn_tail (Some t) = Some t'"
  by (cases "t = []") (auto simp: read_events_def EventLog_def Let_def bind_res_Inr repair_torn_tail_def split: sum.splits if_splits)

lemma read_events_repaired: "repair_torn_tail (Some t) = Some t' \<Longrightarrow> read_events h t' = read_events h t"
proof -
  assume a: "repair_torn_tail (Some t) = Some t'"
  then have r: "repair_torn_tail (Some t') = Some t'" using repair_idem [of "Some t"] by simp
  have same: "EventLog (h_repr h) (h_read h) (Some t') = EventLog (h_repr h) (h_read h) (Some t)"
    using a r by (simp add: EventLog_def)
  show ?thesis
  proof (cases "t' = []")
    case False
    then have "t \<noteq> []" using a by (auto simp: repair_torn_tail_def)
    then show ?thesis using False same by (simp add: read_events_def)
  next
    case True
    then have "EventLog (h_repr h) (h_read h) (Some t) = Inr \<lparr> el_file = Some [], el_seq = 0 \<rparr>"
      using a by (simp add: EventLog_def read_log_def)
    then show ?thesis using True by (simp add: read_events_def read_log_def)
  qed
qed

lemma build_repaired: "build_run_receipt h (repaired d) = build_run_receipt h d"
proof (cases "rd_events d")
  case None
  then show ?thesis by (simp add: build_run_receipt_def repaired_def repair_torn_tail_def)
next
  case (Some t)
  obtain t' where t': "repair_torn_tail (Some t) = Some t'" by (simp add: repair_torn_tail_def)
  then have "rd_events (repaired d) = Some t'" "rd_graph (repaired d) = rd_graph d" "rd_review (repaired d) = rd_review d"
    "rd_name (repaired d) = rd_name d" using Some by (simp_all add: repaired_def)
  then show ?thesis using Some read_events_repaired [OF t'] by (simp add: build_run_receipt_def)
qed

lemma build_ignores_receipt: "build_run_receipt h (d\<lparr> rd_receipt := x \<rparr>) = build_run_receipt h d"
  by (cases "rd_events d") (simp_all add: build_run_receipt_def)

lemma built_digest:
  assumes "build_run_receipt h d = Inr r"
  shows "\<exists>t. repair_torn_tail (rd_events d) = Some t \<and> get r ''events_digest'' = JStr (''sha256:'' @ h_sha256 h t)"
  using assms
proof (rule build_parts)
  fix t es t' raw graph review
  assume b: "rd_events d = Some t" "read_events h t = Inr (es, t')"
    and r: "r = receipt_body h (rd_name d) t' raw graph review es @
       [(''outcome'', JStr (fst (completion_verdict h (receipt_body h (rd_name d) t' raw graph review es)))),
        (''reason'', JStr (snd (completion_verdict h (receipt_body h (rd_name d) t' raw graph review es))))]"
  have "get r ''events_digest'' = JStr (''sha256:'' @ h_sha256 h t')" by (simp add: r get_def body_rest)
  then show ?thesis using b read_events_text [OF b(2)] by simp
qed

lemma built_schema: "build_run_receipt h d = Inr r \<Longrightarrow> get r ''schema'' = JStr SCHEMA"
  by (erule build_parts) (simp add: get_body)

lemma no_mismatch: "key_mismatches fresh stored = [] \<longleftrightarrow>
    (\<forall>k. k \<noteq> ''events_digest'' \<longrightarrow> json_eq (get fresh k) (get stored k))"
proof -
  have "json_eq (get fresh k) (get stored k)" if "k \<notin> set (map fst fresh @ map fst stored)" for k
  proof -
    have "map_of fresh k = None" "map_of stored k = None" using that by (simp_all add: map_of_eq_None_iff)
    then show ?thesis by (simp add: get_def)
  qed
  then show ?thesis by (auto simp: key_mismatches_def filter_empty_conv)
qed

lemma written_verifies:
  assumes "fst (write_receipt_file h d) = Inr ()"
  shows "verify_run_receipt h (snd (write_receipt_file h d)) = ([], snd (write_receipt_file h d))"
proof -
  obtain r where r: "build_run_receipt h d = Inr r"
    using assms by (cases "build_run_receipt h d") (simp_all add: write_receipt_file_def)
  obtain stored where st: "canon (JObj r) = JObj stored" by simp
  let ?d = "(repaired d)\<lparr> rd_receipt := Holds (JObj stored) \<rparr>"
  have d: "snd (write_receipt_file h d) = ?d" using r st by (simp add: write_receipt_file_def)
  have build: "build_run_receipt h ?d = Inr r" using r by (simp add: build_ignores_receipt build_repaired)
  obtain t where t: "repair_torn_tail (rd_events d) = Some t" "get r ''events_digest'' = JStr (''sha256:'' @ h_sha256 h t)"
    using built_digest [OF r] by blast
  have events: "rd_events ?d = Some t" "repaired ?d = ?d"
    using t(1) repair_idem [of "rd_events d"] by (simp_all add: repaired_def)
  have "get stored k = canon (get r k)" for k by (rule get_canon [OF st])
  then have "get stored ''schema'' = JStr SCHEMA" "get stored ''events_digest'' = JStr (''sha256:'' @ h_sha256 h t)"
    "key_mismatches r stored = []"
    using built_schema [OF r] t(2) by (simp_all add: no_mismatch json_eq_canon)
  then show ?thesis
    unfolding d using build events by (simp add: verify_run_receipt_def load_json_def Let_def)
qed

text \<open>C5. A stored receipt that verifies tells the truth: the log has the recorded digest, the receipt can be rebuilt from the files,
  no key of the stored receipt differs from the rebuilt one, and it says \<open>COMPLETE\<close> exactly when the files show it.\<close>

theorem verified_receipt_is_true:
  assumes "fst (verify_run_receipt h d) = []"
  shows "\<exists>stored fresh t. rd_receipt d = Holds (JObj stored) \<and> rd_events d = Some t \<and>
    get stored ''events_digest'' = JStr (''sha256:'' @ h_sha256 h t) \<and>
    build_run_receipt h d = Inr fresh \<and> (\<forall>k. k \<noteq> ''events_digest'' \<longrightarrow> json_eq (get fresh k) (get stored k)) \<and>
    (get stored ''outcome'' = JStr ''COMPLETE'' \<longleftrightarrow> complete_evidence h d)"
proof -
  obtain stored where "load_json ''receipt.json'' (rd_receipt d) = Inr stored"
    using assms by (cases "load_json ''receipt.json'' (rd_receipt d)") (simp_all add: verify_run_receipt_def split: if_splits)
  then have st: "rd_receipt d = Holds (JObj stored)"
    by (auto simp: load_json_def split: json_file.splits json.splits)
  obtain t where t: "rd_events d = Some t"
    using assms st by (cases "rd_events d") (simp_all add: verify_run_receipt_def load_json_def Let_def)
  obtain fresh where f: "build_run_receipt h d = Inr fresh"
    using assms st t by (cases "build_run_receipt h d") (simp_all add: verify_run_receipt_def load_json_def Let_def)
  have v: "get stored ''events_digest'' = JStr (''sha256:'' @ h_sha256 h t)" "key_mismatches fresh stored = []"
    using assms st t f by (auto simp: verify_run_receipt_def load_json_def Let_def split: if_splits)
  then have eq: "\<forall>k. k \<noteq> ''events_digest'' \<longrightarrow> json_eq (get fresh k) (get stored k)" by (simp add: no_mismatch)
  obtain o1 where o1: "get fresh ''outcome'' = JStr o1"
    by (rule build_parts [OF f]) (simp add: built_outcome)
  have "json_eq (JStr o1) (get stored ''outcome'')" using spec [OF eq, of "''outcome''"] o1 by simp
  then have "get stored ''outcome'' = JStr o1" by (simp add: json_eq.simps)
  then have "get stored ''outcome'' = JStr ''COMPLETE'' \<longleftrightarrow> complete_evidence h d"
    using complete_evidence_iff [OF f] o1 by simp
  then show ?thesis using st t f v(1) eq by blast
qed

text \<open>The verification writes: it cuts an unfinished last line off the log. A log with such a line appended is reported once, and
  the next verification of the same directory finds nothing.\<close>

theorem verification_removes_what_it_reports:
  assumes ok: "verify_run_receipt h d = ([], d)" and t: "rd_events d = Some t" "t = [] \<or> last t = CHR 0x0A"
    and junk: "junk \<noteq> []" "CHR 0x0A \<notin> set junk" "h_sha256 h (t @ junk) \<noteq> h_sha256 h t"
  shows "verify_run_receipt h (d\<lparr> rd_events := Some (t @ junk) \<rparr>) = ([DigestMismatch], d)"
proof -
  let ?d = "d\<lparr> rd_events := Some (t @ junk) \<rparr>"
  have rep: "repaired ?d = d" using repair_torn [OF t(2) junk(2)] t(1) by (simp add: repaired_def)
  have build: "build_run_receipt h ?d = build_run_receipt h d" using build_repaired [of h ?d] rep by simp
  obtain stored where "load_json ''receipt.json'' (rd_receipt d) = Inr stored"
    using ok by (cases "load_json ''receipt.json'' (rd_receipt d)") (simp_all add: verify_run_receipt_def split: if_splits)
  then have st: "rd_receipt d = Holds (JObj stored)"
    by (auto simp: load_json_def split: json_file.splits json.splits)
  obtain fresh where f: "build_run_receipt h d = Inr fresh"
    using ok st t by (cases "build_run_receipt h d") (simp_all add: verify_run_receipt_def load_json_def Let_def)
  have "get stored ''schema'' = JStr SCHEMA" "get stored ''events_digest'' = JStr (''sha256:'' @ h_sha256 h t)"
    "key_mismatches fresh stored = []"
    using ok st t f by (auto simp: verify_run_receipt_def load_json_def Let_def split: if_splits)
  then show ?thesis
    using st f build rep junk(3) by (simp add: verify_run_receipt_def load_json_def Let_def)
qed


subsection \<open>A run directory\<close>

lemma read_written_log:
  assumes "list_all (event_ok (h_repr h) (h_read h)) es" "numbered 0 es" "es \<noteq> []"
  shows "read_events h (text_of (h_repr h) es) = Inr (map canon_event es, text_of (h_repr h) es)"
proof -
  let ?t = "text_of (h_repr h) es"
  have ne: "?t \<noteq> []" using assms(3) by (cases es) (simp_all add: text_of_def event_line_def del: dumps.simps)
  have rep: "repair_torn_tail (Some (?t @ [])) = Some ?t" by (intro repair_torn text_ends) simp
  then have "EventLog (h_repr h) (h_read h) (Some ?t) = Inr \<lparr> el_file = Some ?t, el_seq = ev_seq (last (map canon_event es)) \<rparr>"
    using read_held [of "h_repr h" es "Some ?t" "h_read h"] assms by (simp add: EventLog_def file_holds_def)
  then show ?thesis
    using ne read_held [of "h_repr h" es "Some ?t" "h_read h"] assms by (simp add: read_events_def file_holds_def)
qed

definition sample_host :: host where
  "sample_host = \<lparr> h_repr = sample_repr, h_read = sample_read, h_sha256 = id, h_redact = id \<rparr>"

definition bare_node :: work_node where
  "bare_node = (sample_node ''n1'' [] [''src''])\<lparr> wn_barrier := '''' \<rparr>"

definition bare_plan :: work_graph where
  "bare_plan = \<lparr> wg_goal = ''g'', wg_nodes = [bare_node], wg_topology = SOLO, wg_rationale = [], wg_max_parallel = 1 \<rparr>"

definition sample_ev :: "int \<Rightarrow> string \<Rightarrow> node_id \<Rightarrow> obj \<Rightarrow> run_event" where
  "sample_ev n etype node data = \<lparr> ev_seq = n, ev_at = ''t'', ev_type = etype, ev_node_id = node, ev_data = data \<rparr>"

definition sample_events :: "run_event list" where
  "sample_events =
     [sample_ev 1 ''terminal'' ''n1'' [(''ok'', JBool True)],
      sample_ev 2 ''barrier'' ''n1'' [(''name'', JStr ''ownership''), (''ok'', JBool True)],
      sample_ev 3 ''verify'' ''n1'' [(''ok'', JBool True)],
      sample_ev 4 ''review'' '''' [(''status'', JStr ''PASS'')],
      sample_ev 5 ''run_finished'' '''' [(''outcome'', JStr ''COMPLETE'')]]"

definition sample_dir :: run_dir where
  "sample_dir =
     \<lparr> rd_name = ''run'', rd_events = Some (text_of sample_repr sample_events), rd_graph = Holds (JObj (graph_to_dict bare_plan)),
       rd_review = Missing, rd_receipt = Missing \<rparr>"

lemma sample_canon: "map canon_event sample_events = sample_events"
  by (simp add: sample_events_def sample_ev_def canon_event_def by_key_def)

lemma sample_read: "read_events sample_host (text_of sample_repr sample_events) = Inr (sample_events, text_of sample_repr sample_events)"
proof -
  have "list_all (event_ok sample_repr sample_read) sample_events" "numbered 0 sample_events" "sample_events \<noteq> []"
    by (simp_all add: sample_events_def sample_ev_def event_ok_def EVENT_TYPES_def dict_wf_def numbered_def)
  then show ?thesis using read_written_log [of sample_host sample_events] by (simp add: sample_host_def sample_canon)
qed

lemma sample_plan_read: "read_plan sample_host (Holds (JObj (graph_to_dict bare_plan))) = Inr (graph_to_dict bare_plan, Some bare_plan)"
  by code_simp

lemma sample_review: "review_source Missing sample_events = Inr (Some [(''status'', JStr ''PASS'')])"
  by (simp add: review_source_def sample_events_def sample_ev_def)

lemma sample_built: "\<exists>r. build_run_receipt sample_host sample_dir = Inr r"
  by (simp add: build_run_receipt_def sample_dir_def sample_read sample_plan_read guard_res_def review_block_def sample_review Let_def)

lemma sample_evidence: "complete_evidence sample_host sample_dir"
proof -
  have "node_events ''n1'' sample_events = take 3 sample_events" by (simp add: node_events_def sample_events_def sample_ev_def)
  moreover have "\<not> last_claim (take 3 sample_events) c" for c
    by (auto simp: last_claim_def sample_events_def sample_ev_def)
  ultimately have "proven sample_host (node_events ''n1'' sample_events)"
    by (simp add: proven_def) (simp add: sample_events_def sample_ev_def succeeded_def passed_check_def dat_def get_def is_true_def)
  moreover have "barriers_hold sample_host [bare_node] sample_events"
    by (auto simp: barriers_hold_def sample_events_def sample_ev_def is_barrier_def last_barrier_def bare_node_def dat_def get_def is_true_def)
  moreover have "review_passed sample_host Missing sample_events"
    by (simp add: review_passed_def sample_review get_def str_or_def py_str_def py_upper_def py_upper_char_def blocking_findings_def)
  moreover have "claimed_outcome sample_host sample_events \<noteq> ''CANCELLED''"
    by (simp add: claimed_outcome_def last_finished_def find_last_def sample_events_def sample_ev_def get_default_def py_str_def)
  moreover have "openspec_gate sample_host (openspec_block (graph_to_dict bare_plan) sample_events) = None"
    by (simp add: openspec_gate_def openspec_block_def has_key_def graph_to_dict_def)
  moreover have "is_work bare_node" "wn_node_id bare_node = ''n1''" "wg_nodes bare_plan = [bare_node]"
    by (simp_all add: is_work_def bare_node_def sample_node_def bare_plan_def)
  ultimately show ?thesis
    unfolding complete_evidence_def using sample_read sample_plan_read by (simp add: sample_dir_def)
qed

theorem complete_iff_evidence_witness: "\<exists>r. build_run_receipt sample_host sample_dir = Inr r \<and> get r ''outcome'' = JStr ''COMPLETE''"
  using complete_iff_evidence sample_built sample_evidence by blast

definition stored_dir :: run_dir where
  "stored_dir = snd (write_receipt_file sample_host sample_dir)"

lemma sample_written: "fst (write_receipt_file sample_host sample_dir) = Inr ()"
  using sample_built by (auto simp: write_receipt_file_def)

lemma stored_verifies: "verify_run_receipt sample_host stored_dir = ([], stored_dir)"
  unfolding stored_dir_def by (rule written_verifies [OF sample_written])

lemma stored_dir_eq: "\<exists>x. stored_dir = sample_dir\<lparr> rd_receipt := x \<rparr>"
proof -
  let ?t = "text_of sample_repr sample_events"
  have "repair_torn_tail (Some (?t @ [])) = Some ?t" by (intro repair_torn text_ends) simp
  then have "repaired sample_dir = sample_dir" by (simp add: repaired_def sample_dir_def)
  then show ?thesis using sample_built by (auto simp: stored_dir_def write_receipt_file_def)
qed

theorem verified_receipt_is_true_witness:
  "\<exists>stored. rd_receipt stored_dir = Holds (JObj stored) \<and> get stored ''outcome'' = JStr ''COMPLETE''"
proof -
  have "complete_evidence sample_host (sample_dir\<lparr> rd_receipt := x \<rparr>)" for x
    using sample_evidence by (simp add: complete_evidence_def)
  then have "complete_evidence sample_host stored_dir" using stored_dir_eq by metis
  moreover have "fst (verify_run_receipt sample_host stored_dir) = []" by (simp add: stored_verifies)
  ultimately show ?thesis using verified_receipt_is_true by blast
qed

text \<open>The complete run above has recorded no integration barrier: with no barrier declared in the plan, the ownership check of one
  node is enough.\<close>

theorem complete_without_integration_barrier:
  "(\<exists>r. build_run_receipt sample_host sample_dir = Inr r \<and> get r ''outcome'' = JStr ''COMPLETE'') \<and>
   (\<forall>e\<in>set sample_events. is_barrier e \<longrightarrow> barrier_name sample_host e = ''ownership'')"
proof
  show "\<exists>r. build_run_receipt sample_host sample_dir = Inr r \<and> get r ''outcome'' = JStr ''COMPLETE''"
    using complete_evidence_iff sample_built sample_evidence by blast
  show "\<forall>e\<in>set sample_events. is_barrier e \<longrightarrow> barrier_name sample_host e = ''ownership''"
    by (simp add: sample_events_def sample_ev_def is_barrier_def barrier_name_def dat_def get_def str_or_def py_str_def)
qed

end
