(* ===== verification/Outcome_Records.thy ===== *)
theory Outcome_Records
  imports Admission Receipt
begin

section \<open>Outcome records\<close>

text \<open>
  Models \<open>verdict/outcome_records.py\<close> and the attempt rows that \<open>verdict/orchestration/receipt.py\<close> records for a run: what the
  learning loop is told about nodes and attempts. The shared ledger is the list of its lines, each given by what
  \<open>json.loads\<close> returns on it (\<open>None\<close> for a malformed line); an append is one step under its file lock. The task
  family of a goal (\<open>candidate_pool.py\<close>) and the clock are parameters.
\<close>

subsection \<open>Outcomes of nodes\<close>

record outcome_record =
  oc_run_id :: string
  oc_node_id :: string
  oc_role :: string
  oc_outcome :: string
  oc_chosen_models :: "string list"
  oc_proof_pass :: "bool option"
  oc_verified_commands :: "string list"
  oc_repairs :: int
  oc_retries :: int
  oc_reroutes :: int
  oc_latency_seconds :: "rat option"
  oc_input_tokens :: int
  oc_output_tokens :: int
  oc_cost_usd :: "rat option"

definition node_outcome :: "string \<Rightarrow> string" where
  "node_outcome state =
     (if state \<in> {''VALIDATED'', ''TERMINAL_SUCCESS''} then ''accepted''
      else if state \<in> {''TERMINAL_FAILURE'', ''REJECTED'', ''BLOCKED''} then ''rejected''
      else if state = ''PLANNED'' then ''cancelled''
      else if state = ''RUNNING'' then ''timeout''
      else ''cancelled'')"

text \<open>\<open>_sum_usage\<close>; \<open>None\<close> where \<open>int\<close> raises on a token count.\<close>

definition usage_tokens :: "obj \<Rightarrow> string \<Rightarrow> int option" where
  "usage_tokens usage key = to_int (or_else (get usage key) (JInt 0))"

definition sum_options :: "int option list \<Rightarrow> int option" where
  "sum_options xs = (if None \<in> set xs then None else Some (sum_list (map the xs)))"

definition usage_of :: "obj \<Rightarrow> obj option" where
  "usage_of attempt = object (get attempt ''usage'')"

definition cost_of :: "obj \<Rightarrow> rat option" where
  "cost_of attempt = (case usage_of attempt of Some u \<Rightarrow> numeric (get u ''cost_usd'') | None \<Rightarrow> None)"

definition sum_usage :: "obj list \<Rightarrow> (int \<times> int \<times> rat option) option" where
  "sum_usage attempts =
     (let usages = List.map_filter usage_of attempts;
          cost = (if attempts \<noteq> [] \<and> list_all (\<lambda>a. cost_of a \<noteq> None) attempts then Some (sum_list (map (the \<circ> cost_of) attempts)) else None) in
      case (sum_options (map (\<lambda>u. usage_tokens u ''input_tokens'') usages), sum_options (map (\<lambda>u. usage_tokens u ''output_tokens'') usages)) of
        (Some i, Some k) \<Rightarrow> Some (i, k, cost) | _ \<Rightarrow> None)"

definition text_default :: "host \<Rightarrow> obj \<Rightarrow> string \<Rightarrow> string" where
  "text_default h d k = py_str (h_repr h) (get_default d k (JStr ''''))"

definition reroutes_of :: "host \<Rightarrow> obj \<Rightarrow> node_id \<Rightarrow> int" where
  "reroutes_of h receipt node =
     (if node = [] then 0
      else int (length (filter (\<lambda>r. text_default h r ''node_id'' = node) (objects (get receipt ''reassignments'')))))"

definition proof_of_node :: "obj \<Rightarrow> string \<Rightarrow> bool option" where
  "proof_of_node node state =
     (if objects (get node ''validated_by'') \<noteq> [] then Some True
      else if state \<in> {''TERMINAL_FAILURE'', ''REJECTED'', ''BLOCKED''} then Some False
      else None)"

definition latency_of :: "obj list \<Rightarrow> rat option" where
  "latency_of attempts =
     (let durations = List.map_filter (\<lambda>a. numeric (get a ''duration_seconds'')) attempts in
      if durations \<noteq> [] then Some (sum_list durations) else None)"

definition build_outcome_record :: "host \<Rightarrow> obj \<Rightarrow> obj \<Rightarrow> outcome_record option" where
  "build_outcome_record h receipt node =
     (let state = text_default h node ''final_state'';
          attempts = objects (get node ''attempts'') in
      map_option (\<lambda>(inp, out, cost).
        \<lparr> oc_run_id = text_default h receipt ''run_id'', oc_node_id = text_default h node ''node_id'', oc_role = text_default h node ''kind'',
          oc_outcome = node_outcome state,
          oc_chosen_models = map (\<lambda>a. py_str (h_repr h) (get a ''route_id'')) (filter (\<lambda>a. truthy (get a ''route_id'')) attempts),
          oc_proof_pass = proof_of_node node state,
          oc_verified_commands =
            map (\<lambda>v. py_str (h_repr h) (get v ''command'')) (filter (\<lambda>v. truthy (get v ''command'')) (objects (get node ''validated_by''))),
          oc_repairs = int (length (filter (\<lambda>a. get a ''outcome'' = JStr ''failure'') attempts)),
          oc_retries = max 0 (int (length attempts) - 1),
          oc_reroutes = reroutes_of h receipt (text_default h node ''node_id''),
          oc_latency_seconds = latency_of attempts,
          oc_input_tokens = inp, oc_output_tokens = out, oc_cost_usd = cost \<rparr>) (sum_usage attempts))"

definition build_outcome_records :: "host \<Rightarrow> obj \<Rightarrow> outcome_record list option" where
  "build_outcome_records h receipt =
     those (map (build_outcome_record h receipt) (objects (get receipt ''nodes'')))"


subsection \<open>Attempt records\<close>

definition ATTEMPT_OUTCOMES :: "string list" where
  "ATTEMPT_OUTCOMES = [''accepted'', ''failed'', ''partial'', ''abandoned'']"

definition ATTEMPT_FAILURE_CLASSES :: "string list" where
  "ATTEMPT_FAILURE_CLASSES =
     [''success'', ''test_failed'', ''review_rejected'', ''quota_429'', ''model_cooldown'', ''stream_drop'', ''timeout'',
      ''tool_error'', ''spec_violation'', ''false_report'', ''provider_5xx'', ''auth_error'', ''other'']"

definition ATTEMPT_RECORD_KINDS :: "string list" where
  "ATTEMPT_RECORD_KINDS = [''terminal'', ''checker_result'']"

definition CHECKED_QUALITY_CLASSES :: "string list" where
  "CHECKED_QUALITY_CLASSES = [''success'', ''test_failed'', ''review_rejected'', ''spec_violation'', ''false_report'']"

definition credit_outcome :: "rat \<Rightarrow> string option" where
  "credit_outcome q =
     (if q = 1 then Some ''accepted'' else if q = 1 / 2 then Some ''partial'' else if q = 0 then Some ''failed'' else None)"

record attempt_record =
  at_ts :: string
  at_task_kind :: string
  at_harness :: string
  at_model :: string
  at_outcome :: string
  at_failure_class :: string
  at_source :: string
  at_effort :: "string option"
  at_duration_s :: json
  at_tokens_in :: json
  at_tokens_out :: json
  at_cost_usd :: json
  at_story_id :: "string option"
  at_request_id :: "string option"
  at_decision_id :: "string option"
  at_run_id :: "string option"
  at_node_id :: "string option"
  at_attempt_id :: "string option"
  at_task_family :: "string option"
  at_profile_digest :: "string option"
  at_record_kind :: "string option"
  at_checker_digest :: "string option"
  at_quality_credit :: "rat option"
  at_effective_parameters :: json
  at_evidence_level :: "string option"

datatype record_error =
    BlankField string
  | BadOutcome string
  | BadFailureClass string
  | BadRecordKind string
  | CheckerNeedsDigest
  | CreditNeedsChecker
  | BadCredit rat
  | OperationalCredit string
  | CreditContradictsOutcome rat string
  | BadAttemptNumber json

definition require_text :: "string \<Rightarrow> string \<Rightarrow> record_error + string" where
  "require_text value field =
     bind_res (guard_res (py_strip value \<noteq> []) (BlankField field)) (\<lambda>_. Inr (py_strip value))"

definition optional_text :: "string option \<Rightarrow> string option" where
  "optional_text value = (case value of Some s \<Rightarrow> if py_strip s \<noteq> [] then Some (py_strip s) else None | None \<Rightarrow> None)"

definition validate_quality ::
  "string option \<Rightarrow> string option \<Rightarrow> rat option \<Rightarrow> string \<Rightarrow> string \<Rightarrow> record_error + unit" where
  "validate_quality kind digest credit outcome failure_class =
     bind_res (guard_res (kind = None \<or> the kind \<in> set ATTEMPT_RECORD_KINDS) (BadRecordKind (the kind))) (\<lambda>_.
     bind_res (guard_res (kind \<noteq> Some ''checker_result'' \<or> digest \<noteq> None) CheckerNeedsDigest) (\<lambda>_.
     case credit of
       None \<Rightarrow> Inr ()
     | Some q \<Rightarrow>
         bind_res (guard_res (kind = Some ''checker_result'') CreditNeedsChecker) (\<lambda>_.
         bind_res (guard_res (credit_outcome q \<noteq> None) (BadCredit q)) (\<lambda>_.
         bind_res (guard_res (failure_class \<in> set CHECKED_QUALITY_CLASSES) (OperationalCredit failure_class)) (\<lambda>_.
         guard_res (outcome = the (credit_outcome q)) (CreditContradictsOutcome q outcome))))))"

text \<open>\<open>build_attempt_record\<close>: its arguments are given as a record; \<open>at_ts\<close> is the given time or, when empty, the clock.\<close>

definition build_attempt_record :: "string \<Rightarrow> attempt_record \<Rightarrow> record_error + attempt_record" where
  "build_attempt_record now a =
     bind_res (require_text (at_task_kind a) ''task_kind'') (\<lambda>task_kind.
     bind_res (require_text (at_harness a) ''harness'') (\<lambda>harness.
     bind_res (require_text (at_model a) ''model'') (\<lambda>model.
     bind_res (require_text (at_source a) ''source'') (\<lambda>source.
     bind_res (require_text (at_outcome a) ''outcome'') (\<lambda>outcome.
     bind_res (guard_res (outcome \<in> set ATTEMPT_OUTCOMES) (BadOutcome outcome)) (\<lambda>_.
     bind_res (require_text (at_failure_class a) ''failure_class'') (\<lambda>failure_class.
     bind_res (guard_res (failure_class \<in> set ATTEMPT_FAILURE_CLASSES) (BadFailureClass failure_class)) (\<lambda>_.
     bind_res (validate_quality (optional_text (at_record_kind a)) (optional_text (at_checker_digest a)) (at_quality_credit a) outcome failure_class) (\<lambda>_.
     Inr (a\<lparr> at_ts := (if at_ts a \<noteq> [] then at_ts a else now), at_task_kind := task_kind, at_harness := harness,
             at_model := canonical_route_id model, at_outcome := outcome, at_failure_class := failure_class, at_source := source,
             at_effort := optional_text (at_effort a), at_story_id := optional_text (at_story_id a),
             at_request_id := optional_text (at_request_id a), at_decision_id := optional_text (at_decision_id a),
             at_run_id := optional_text (at_run_id a), at_node_id := optional_text (at_node_id a),
             at_attempt_id := optional_text (at_attempt_id a), at_task_family := optional_text (at_task_family a),
             at_profile_digest := optional_text (at_profile_digest a), at_record_kind := optional_text (at_record_kind a),
             at_checker_digest := optional_text (at_checker_digest a),
             at_effective_parameters := (if truthy (at_effective_parameters a) then at_effective_parameters a else JNull),
             at_evidence_level := optional_text (at_evidence_level a) \<rparr>))))))))))"


subsection \<open>The ledger\<close>

definition text_json :: "string option \<Rightarrow> json" where
  "text_json s = (case s of Some t \<Rightarrow> JStr t | None \<Rightarrow> JNull)"

definition record_to_dict :: "attempt_record \<Rightarrow> obj" where
  "record_to_dict r =
     [(''ts'', JStr (at_ts r)), (''task_kind'', JStr (at_task_kind r)), (''harness'', JStr (at_harness r)), (''model'', JStr (at_model r)),
      (''outcome'', JStr (at_outcome r)), (''failure_class'', JStr (at_failure_class r)), (''source'', JStr (at_source r)),
      (''effort'', text_json (at_effort r)), (''duration_s'', at_duration_s r), (''tokens_in'', at_tokens_in r),
      (''tokens_out'', at_tokens_out r), (''cost_usd'', at_cost_usd r), (''story_id'', text_json (at_story_id r)),
      (''request_id'', text_json (at_request_id r)), (''decision_id'', text_json (at_decision_id r)), (''run_id'', text_json (at_run_id r)),
      (''node_id'', text_json (at_node_id r)), (''attempt_id'', text_json (at_attempt_id r)), (''task_family'', text_json (at_task_family r)),
      (''profile_digest'', text_json (at_profile_digest r)), (''record_kind'', text_json (at_record_kind r)),
      (''checker_digest'', text_json (at_checker_digest r)),
      (''quality_credit'', case at_quality_credit r of Some q \<Rightarrow> JNum q | None \<Rightarrow> JNull),
      (''effective_parameters'', at_effective_parameters r)] @
     (case at_evidence_level r of Some l \<Rightarrow> [(''evidence_level'', JStr l)] | None \<Rightarrow> [])"

definition record_key :: "attempt_record \<Rightarrow> json list" where
  "record_key r = map text_json [at_run_id r, at_node_id r, at_attempt_id r, at_request_id r, at_record_kind r, at_checker_digest r]"

definition KEY_FIELDS :: "string list" where
  "KEY_FIELDS = [''run_id'', ''node_id'', ''attempt_id'', ''request_id'', ''record_kind'', ''checker_digest'']"

type_synonym ledger = "json option list"

definition row_keys :: "ledger \<Rightarrow> json list list" where
  "row_keys lines =
     map (\<lambda>row. map (get row) KEY_FIELDS)
       (filter (\<lambda>row. truthy (get row ''record_kind'')) (List.map_filter object (List.map_filter (\<lambda>l. l) lines)))"

text \<open>\<open>_append_lines\<close>: each new line reads back as the object that was written.\<close>

definition append_lines :: "attempt_record list \<Rightarrow> bool \<Rightarrow> ledger \<Rightarrow> nat \<times> ledger" where
  "append_lines records skip_existing lines =
     (let fresh = (if skip_existing then filter (\<lambda>r. record_key r \<notin> set (row_keys lines)) records else records)
      in (length fresh, lines @ map (\<lambda>r. Some (JObj (record_to_dict r))) fresh))"

definition append_new_attempt_records :: "attempt_record list \<Rightarrow> ledger \<Rightarrow> nat \<times> ledger" where
  "append_new_attempt_records records lines = append_lines records True lines"

definition write_attempt_record :: "attempt_record \<Rightarrow> ledger \<Rightarrow> ledger" where
  "write_attempt_record r lines = snd (append_lines [r] False lines)"


subsection \<open>The attempts of a run\<close>

definition category_class :: "string \<Rightarrow> string" where
  "category_class c =
     (if c \<in> {''rate_limited'', ''quota_exhausted'', ''payment_required''} then ''quota_429''
      else if c \<in> {''authentication'', ''permission''} then ''auth_error''
      else if c = ''timeout'' then ''timeout''
      else if c \<in> {''upstream_temporary'', ''gateway_busy''} then ''provider_5xx''
      else if c \<in> {''transport_temporary'', ''no_final_answer'', ''empty_output''} then ''stream_drop''
      else if c = ''model_unavailable'' then ''model_cooldown''
      else if c = ''verification_failed'' then ''test_failed''
      else if c = ''ownership_violation'' then ''spec_violation''
      else ''other'')"

definition is_model_attempt :: "host \<Rightarrow> obj \<Rightarrow> bool" where
  "is_model_attempt h attempt \<longleftrightarrow>
     (let route = str_or h (get attempt ''route_id'') '''' in
      route \<noteq> [] \<and> \<not> prefix ''local/'' route \<and> get attempt ''route_identity'' \<noteq> JStr ''mechanical'')"

definition attempt_label :: "host \<Rightarrow> obj \<Rightarrow> string \<times> string" where
  "attempt_label h attempt =
     (let outcome = str_or h (get attempt ''outcome'') '''' in
      if outcome = ''success'' then (''accepted'', ''success'')
      else if outcome = ''failure'' then (''failed'', category_class (str_or h (get attempt ''failure_category'') ''''))
      else (''abandoned'', ''other''))"

definition attempt_number :: "obj \<Rightarrow> int" where
  "attempt_number attempt = (case to_int (get attempt ''attempt'') of Some n \<Rightarrow> n | None \<Rightarrow> 0)"

definition terminal_of :: "run_event list \<Rightarrow> obj \<Rightarrow> run_event option" where
  "terminal_of events attempt = List.find (\<lambda>e. ev_type e = ''terminal'' \<and> event_attempt e 1 = attempt_number attempt) events"

text \<open>The checks after a terminal and before the next dispatch that ran a command.\<close>

definition checks_of :: "host \<Rightarrow> run_event list \<Rightarrow> run_event \<Rightarrow> run_event list" where
  "checks_of h events terminal =
     (let following = filter (\<lambda>e. ev_seq e > ev_seq terminal) events;
          stop = List.find (\<lambda>e. ev_type e = ''dispatch'') following in
      filter (\<lambda>e. ev_type e = ''verify'' \<and> (case stop of None \<Rightarrow> True | Some s \<Rightarrow> ev_seq e < ev_seq s) \<and>
                  \<not> prefix ''(none'' (str_or h (dat e ''command'') '''')) following)"

definition common_fields :: "host \<Rightarrow> (string \<Rightarrow> string) \<Rightarrow> obj \<Rightarrow> obj \<Rightarrow> obj \<Rightarrow> attempt_record" where
  "common_fields h family receipt node attempt =
     (let goal = str_or h (get receipt ''goal'') '''' in
      \<lparr> at_ts = [], at_task_kind = str_or h (get node ''kind'') ''other'',
        at_harness = str_or h (get attempt ''harness'') ''verdict-orchestrate'',
        at_model = str_or h (get attempt ''executed_model'') (py_str (h_repr h) (get attempt ''route_id'')),
        at_outcome = [], at_failure_class = [], at_source = ''verdict.orchestration.receipt'', at_effort = None,
        at_duration_s = JNull, at_tokens_in = JNull, at_tokens_out = JNull, at_cost_usd = JNull, at_story_id = None,
        at_request_id = None, at_decision_id = None, at_run_id = Some (str_or h (get receipt ''run_id'') ''''),
        at_node_id = Some (str_or h (get node ''node_id'') ''''), at_attempt_id = Some (str_of_int (attempt_number attempt)),
        at_task_family = (if py_strip goal \<noteq> [] then Some (family goal) else None), at_profile_digest = None,
        at_record_kind = None, at_checker_digest = None, at_quality_credit = None, at_effective_parameters = JNull,
        at_evidence_level = (case get attempt ''evidence_level'' of JStr s \<Rightarrow> Some s | _ \<Rightarrow> None) \<rparr>)"

definition terminal_fields :: "host \<Rightarrow> run_event option \<Rightarrow> obj \<Rightarrow> attempt_record \<Rightarrow> attempt_record" where
  "terminal_fields h terminal attempt r =
     (let usage = (case usage_of attempt of Some u \<Rightarrow> u | None \<Rightarrow> []) in
      r\<lparr> at_outcome := fst (attempt_label h attempt), at_failure_class := snd (attempt_label h attempt),
         at_record_kind := Some ''terminal'', at_duration_s := get attempt ''duration_seconds'',
         at_tokens_in := get usage ''input_tokens'', at_tokens_out := get usage ''output_tokens'', at_cost_usd := get usage ''cost_usd'',
         at_ts := (case terminal of Some e \<Rightarrow> ev_at e | None \<Rightarrow> []) \<rparr>)"

definition checker_fields :: "string \<Rightarrow> run_event \<Rightarrow> attempt_record \<Rightarrow> attempt_record" where
  "checker_fields digest check r =
     (let passed = is_true (dat check ''ok'') in
      r\<lparr> at_outcome := (if passed then ''accepted'' else ''failed''), at_failure_class := (if passed then ''success'' else ''test_failed''),
         at_record_kind := Some ''checker_result'', at_checker_digest := Some digest,
         at_quality_credit := Some (if passed then 1 else 0), at_ts := ev_at check \<rparr>)"

text \<open>The check that judges an attempt: the last one after its successful terminal.\<close>

definition judging_check :: "host \<Rightarrow> run_event list \<Rightarrow> run_event option \<Rightarrow> run_event option" where
  "judging_check h events terminal =
     (case terminal of
        None \<Rightarrow> None
      | Some t \<Rightarrow>
          if \<not> is_true (dat t ''ok'') then None
          else (case checks_of h events t of [] \<Rightarrow> None | checks \<Rightarrow> Some (last checks)))"

definition attempt_rows ::
  "host \<Rightarrow> (string \<Rightarrow> string) \<Rightarrow> string \<Rightarrow> obj \<Rightarrow> run_event list \<Rightarrow> obj \<Rightarrow> obj \<Rightarrow> record_error + attempt_record list" where
  "attempt_rows h family now receipt events node attempt =
     (let common = common_fields h family receipt node attempt;
          terminal = terminal_of events attempt in
      bind_res (guard_res (to_int (get attempt ''attempt'') \<noteq> None) (BadAttemptNumber (get attempt ''attempt''))) (\<lambda>_.
      bind_res (build_attempt_record now (terminal_fields h terminal attempt common)) (\<lambda>row.
      case judging_check h events terminal of
        None \<Rightarrow> Inr [row]
      | Some check \<Rightarrow>
          bind_res (build_attempt_record now (checker_fields (str_or h (get receipt ''events_digest'') '''') check common)) (\<lambda>judged.
          Inr [row, judged]))))"

definition node_rows ::
  "host \<Rightarrow> (string \<Rightarrow> string) \<Rightarrow> string \<Rightarrow> obj \<Rightarrow> run_event list \<Rightarrow> obj \<Rightarrow> record_error + attempt_record list" where
  "node_rows h family now receipt events node =
     bind_res (map_res (attempt_rows h family now receipt (node_events (str_or h (get node ''node_id'') '''') events) node)
       (filter (is_model_attempt h) (objects (get node ''attempts'')))) (\<lambda>rows. Inr (concat rows))"

definition run_attempt_records ::
  "host \<Rightarrow> (string \<Rightarrow> string) \<Rightarrow> string \<Rightarrow> obj \<Rightarrow> run_event list \<Rightarrow> record_error + attempt_record list" where
  "run_attempt_records h family now receipt events =
     bind_res (map_res (node_rows h family now receipt events) (objects (get receipt ''nodes''))) (\<lambda>rows. Inr (concat rows))"

definition record_run_attempts ::
  "host \<Rightarrow> (string \<Rightarrow> string) \<Rightarrow> string \<Rightarrow> obj \<Rightarrow> run_event list \<Rightarrow> ledger \<Rightarrow> record_error + (nat \<times> ledger)" where
  "record_run_attempts h family now receipt events lines =
     bind_res (run_attempt_records h family now receipt events) (\<lambda>records. Inr (append_new_attempt_records records lines))"


subsection \<open>Writing a receipt\<close>

text \<open>\<open>write_run_receipt\<close> with everything it writes: the receipt file, the outcome records beside it (\<open>rc_outcomes\<close>, the objects of
  its lines), the shared ledger and the index of verified runs. Only an \<open>OSError\<close> of the outcome records is caught, so a
  token count that \<open>int\<close> refuses leaves the receipt written and ends the call; every failure of the ledger is caught.\<close>

definition option_num :: "rat option \<Rightarrow> json" where
  "option_num q = (case q of Some x \<Rightarrow> JNum x | None \<Rightarrow> JNull)"

definition outcome_to_dict :: "outcome_record \<Rightarrow> obj" where
  "outcome_to_dict r =
     [(''run_id'', JStr (oc_run_id r)), (''node_id'', JStr (oc_node_id r)), (''role'', JStr (oc_role r)), (''outcome'', JStr (oc_outcome r)),
      (''task_class'', JNull), (''context_strategy'', JNull), (''budget_tier'', JNull), (''chosen_models'', strings (oc_chosen_models r)),
      (''tools_used'', JNull), (''proof_pass'', case oc_proof_pass r of Some b \<Rightarrow> JBool b | None \<Rightarrow> JNull),
      (''verified_commands'', strings (oc_verified_commands r)), (''repairs'', JInt (oc_repairs r)), (''retries'', JInt (oc_retries r)),
      (''reroutes'', JInt (oc_reroutes r)), (''ci_failures'', JNull), (''latency_seconds'', option_num (oc_latency_seconds r)),
      (''input_tokens'', JInt (oc_input_tokens r)), (''output_tokens'', JInt (oc_output_tokens r)), (''cost_usd'', option_num (oc_cost_usd r))]"

record records_state =
  rc_dir :: run_dir
  rc_outcomes :: "obj list option"
  rc_ledger :: ledger
  rc_index :: "string list"

datatype write_error = ReceiptFailed receipt_error | BadTokenCount

definition write_outcome_records :: "host \<Rightarrow> obj \<Rightarrow> records_state \<Rightarrow> (write_error + unit) \<times> records_state" where
  "write_outcome_records h receipt st =
     (case build_outcome_records h receipt of
        None \<Rightarrow> (Inl BadTokenCount, st)
      | Some records \<Rightarrow> (Inr (), st\<lparr> rc_outcomes := Some (map outcome_to_dict records) \<rparr>))"

definition append_run_index :: "string \<Rightarrow> string list \<Rightarrow> string list" where
  "append_run_index run_path index = index @ [run_path]"

definition record_run ::
  "host \<Rightarrow> (string \<Rightarrow> string) \<Rightarrow> string \<Rightarrow> string \<Rightarrow> obj \<Rightarrow> records_state \<Rightarrow> records_state" where
  "record_run h family now run_path receipt st =
     (case rd_events (rc_dir st) of
        None \<Rightarrow> st
      | Some log_text \<Rightarrow>
          (case read_events h log_text of
             Inl _ \<Rightarrow> st
           | Inr (events, _) \<Rightarrow>
               (case record_run_attempts h family now receipt events (rc_ledger st) of
                  Inl _ \<Rightarrow> st
                | Inr (_, lines) \<Rightarrow> st\<lparr> rc_ledger := lines, rc_index := append_run_index run_path (rc_index st) \<rparr>)))"

definition write_run_receipt ::
  "host \<Rightarrow> (string \<Rightarrow> string) \<Rightarrow> string \<Rightarrow> string \<Rightarrow> records_state \<Rightarrow> (write_error + unit) \<times> records_state" where
  "write_run_receipt h family now run_path st =
     (let st1 = st\<lparr> rc_dir := snd (write_receipt_file h (rc_dir st)) \<rparr> in
      case build_run_receipt h (rc_dir st) of
        Inl e \<Rightarrow> (Inl (ReceiptFailed e), st1)
      | Inr receipt \<Rightarrow>
          (case write_outcome_records h receipt st1 of
             (Inl e, st2) \<Rightarrow> (Inl e, st2)
           | (Inr _, st2) \<Rightarrow> (Inr (), record_run h family now run_path receipt st2)))"


subsection \<open>Legacy decisions\<close>

definition LEGACY_TASK_KINDS :: "string list" where
  "LEGACY_TASK_KINDS = [''review'', ''verify'', ''implement'', ''research'', ''synthesis'', ''debug'', ''crawl'', ''plan'']"

definition legacy_task_kind :: "string \<Rightarrow> string" where
  "legacy_task_kind text =
     (case List.find (\<lambda>k. contains_sub k (py_lower text)) LEGACY_TASK_KINDS of Some k \<Rightarrow> k | None \<Rightarrow> ''other'')"

definition classify_legacy_outcome :: "string \<Rightarrow> string \<times> string" where
  "classify_legacy_outcome raw =
     (let text = py_lower (py_strip raw); has = (\<lambda>w. contains_sub w text) in
      if text = [] then (''abandoned'', ''other'')
      else if prefix ''pending'' text \<or> prefix ''spawned'' text \<or> prefix ''planned'' text then (''abandoned'', ''other'')
      else if prefix ''partial'' text \<or> prefix ''mixed'' text then (''partial'', ''other'')
      else if prefix ''accepted'' text then (''accepted'', ''success'')
      else if prefix ''failed'' text \<or> prefix ''parked'' text then
        if has ''429'' \<or> has ''quota'' then (''failed'', ''quota_429'')
        else if has ''502'' \<or> has ''5xx'' \<or> has ''500'' \<or> has ''503'' then (''failed'', ''provider_5xx'')
        else if has ''stream_drop'' \<or> has ''stream drop'' then (''failed'', ''stream_drop'')
        else if has ''stall'' \<or> has ''exited'' \<or> has ''no output'' then (''failed'', ''stream_drop'')
        else if has ''timeout'' \<or> has ''timed out'' then (''failed'', ''timeout'')
        else if has ''cooldown'' \<or> has ''cooling'' then (''failed'', ''model_cooldown'')
        else if has ''unauthorized'' \<or> has ''auth'' then (''failed'', ''auth_error'')
        else if has ''no tests'' \<or> (has ''claimed'' \<and> has ''do not exist'') then (''failed'', ''false_report'')
        else (''failed'', ''other'')
      else (''abandoned'', ''other''))"

definition upper_letter :: "char \<Rightarrow> bool" where
  "upper_letter c \<longleftrightarrow> 65 \<le> (of_char c :: nat) \<and> (of_char c :: nat) \<le> 90"

definition STORY_ID :: re where
  "STORY_ID =
     Seqs [WordBoundary,
           Grp 1 (Seqs [Class upper_letter, Some_of (Class upper_letter), Class (\<lambda>c. c = CHR ''-''), Some_of (Class is_digit)]),
           WordBoundary]"

definition legacy_fields :: "host \<Rightarrow> string \<Rightarrow> obj \<Rightarrow> attempt_record" where
  "legacy_fields h source row =
     (let task = str_or h (get row ''task'') '''';
          label = classify_legacy_outcome (str_or h (get row ''outcome'') '''') in
      \<lparr> at_ts = str_or h (get row ''ts'') '''', at_task_kind = legacy_task_kind task, at_harness = ''prime'',
        at_model = py_strip (str_or h (get row ''model'') ''''), at_outcome = fst label, at_failure_class = snd label, at_source = source,
        at_effort = None, at_duration_s = JNull, at_tokens_in = JNull, at_tokens_out = JNull, at_cost_usd = JNull,
        at_story_id = map_option (group_of 1) (re_search STORY_ID task), at_request_id = None, at_decision_id = None, at_run_id = None,
        at_node_id = None, at_attempt_id = None, at_task_family = None, at_profile_digest = None, at_record_kind = None,
        at_checker_digest = None, at_quality_credit = None, at_effective_parameters = JNull, at_evidence_level = None \<rparr>)"

text \<open>\<open>import_decision_jsonl\<close> on the lines of the decision file: the number of imported rows and the ledger.\<close>

definition import_row :: "host \<Rightarrow> string \<Rightarrow> string \<Rightarrow> nat \<times> ledger \<Rightarrow> json option \<Rightarrow> record_error + (nat \<times> ledger)" where
  "import_row h now source st line =
     (case line of
        Some (JObj row) \<Rightarrow>
          if py_strip (str_or h (get row ''model'') '''') = [] then Inr st
          else bind_res (build_attempt_record now (legacy_fields h source row)) (\<lambda>r. Inr (Suc (fst st), write_attempt_record r (snd st)))
      | _ \<Rightarrow> Inr st)"

fun import_rows :: "host \<Rightarrow> string \<Rightarrow> string \<Rightarrow> ledger \<Rightarrow> nat \<times> ledger \<Rightarrow> record_error + (nat \<times> ledger)" where
  "import_rows h now source [] st = Inr st"
| "import_rows h now source (l # ls) st = bind_res (import_row h now source st l) (import_rows h now source ls)"

definition import_decision_jsonl :: "host \<Rightarrow> string \<Rightarrow> string \<Rightarrow> ledger \<Rightarrow> ledger \<Rightarrow> record_error + (nat \<times> ledger)" where
  "import_decision_jsonl h now source decisions lines = import_rows h now source decisions (0, lines)"


section \<open>Lemmas\<close>

subsection \<open>Appending\<close>

definition keyed :: "attempt_record \<Rightarrow> bool" where
  "keyed r \<longleftrightarrow> (\<exists>k. at_record_kind r = Some k \<and> k \<noteq> [])"

lemma record_key_fields: "map (get (record_to_dict r)) KEY_FIELDS = record_key r"
  by (simp add: record_to_dict_def KEY_FIELDS_def record_key_def get_def)

lemma record_kind_field: "truthy (get (record_to_dict r) ''record_kind'') \<longleftrightarrow> keyed r"
  by (auto simp: record_to_dict_def get_def keyed_def text_json_def split: option.split)

lemma row_keys_append: "row_keys (a @ b) = row_keys a @ row_keys b"
  by (simp add: row_keys_def map_filter_def)

lemma row_keys_written: "row_keys (map (\<lambda>r. Some (JObj (record_to_dict r))) rs) = map record_key (filter keyed rs)"
  by (induction rs) (simp_all add: row_keys_def map_filter_def object_def record_kind_field record_key_fields)

lemma append_again:
  assumes "list_all keyed rs" and "map record_key rs' = map record_key rs"
  shows "append_new_attempt_records rs' (snd (append_new_attempt_records rs lines)) = (0, snd (append_new_attempt_records rs lines))"
proof -
  let ?fresh = "filter (\<lambda>r. record_key r \<notin> set (row_keys lines)) rs"
  have same: "record_key ` set rs' = record_key ` set rs" using assms(2) by (metis list.set_map)
  have "set (row_keys (lines @ map (\<lambda>r. Some (JObj (record_to_dict r))) ?fresh)) = set (row_keys lines) \<union> record_key ` set ?fresh"
    using assms(1) by (auto simp: row_keys_append row_keys_written list_all_iff)
  then have "record_key ` set rs \<subseteq> set (row_keys (lines @ map (\<lambda>r. Some (JObj (record_to_dict r))) ?fresh))" by auto
  then have "record_key r \<in> set (row_keys (lines @ map (\<lambda>r. Some (JObj (record_to_dict r))) ?fresh))" if "r \<in> set rs'" for r
    using same that by blast
  then have "filter (\<lambda>r. record_key r \<notin> set (row_keys (lines @ map (\<lambda>r. Some (JObj (record_to_dict r))) ?fresh))) rs' = []"
    by (simp add: filter_empty_conv)
  then show ?thesis by (simp add: append_new_attempt_records_def append_lines_def Let_def)
qed


subsection \<open>What a built record keeps\<close>

lemma built_record:
  assumes "build_attempt_record now a = Inr r"
  shows "at_record_kind r = optional_text (at_record_kind a)" "at_quality_credit r = at_quality_credit a"
    "at_node_id r = optional_text (at_node_id a)" "at_attempt_id r = optional_text (at_attempt_id a)"
    "at_checker_digest r = optional_text (at_checker_digest a)" "at_outcome r = py_strip (at_outcome a)"
  using assms by (auto simp: build_attempt_record_def require_text_def bind_res_Inr)

lemma built_quality:
  assumes "build_attempt_record now a = Inr r"
  shows "validate_quality (at_record_kind r) (at_checker_digest r) (at_quality_credit r) (at_outcome r) (at_failure_class r) = Inr ()"
  using assms by (auto simp: build_attempt_record_def require_text_def bind_res_Inr)

lemma optional_kind: "optional_text (Some ''terminal'') = Some ''terminal''" "optional_text (Some ''checker_result'') = Some ''checker_result''"
  by code_simp+

lemma strip_int: "py_strip (str_of_int n) = str_of_int n \<and> str_of_int n \<noteq> []"
proof (rule str_of_int_cases [of n])
  fix d ds
  assume "list_all is_digit (d # ds)" "str_of_int n = d # ds"
  then show ?thesis using strip_digits by simp
next
  fix d ds
  assume a: "list_all is_digit (d # ds)" "str_of_int n = CHR ''-'' # d # ds"
  have "py_strip (str_of_int n) = str_of_int n"
    unfolding a(2) using a(1) by (intro py_strip_id) (auto simp: list_all_iff digit_chars py_isspace_def [of "CHR ''-''"])
  then show ?thesis using a(2) by simp
qed

lemma rows_keyed: "attempt_rows h family now receipt es node a = Inr rows \<Longrightarrow> list_all keyed rows"
  by (auto simp: attempt_rows_def Let_def bind_res_Inr keyed_def built_record terminal_fields_def checker_fields_def optional_kind
      split: option.splits)

lemma records_from:
  assumes "run_attempt_records h family now receipt es = Inr records" "r \<in> set records"
  obtains node a rows where "node \<in> set (objects (get receipt ''nodes''))" "a \<in> set (objects (get node ''attempts''))"
    "attempt_rows h family now receipt (node_events (str_or h (get node ''node_id'') '''') es) node a = Inr rows" "r \<in> set rows"
proof -
  from assms obtain per_node where n: "map_res (node_rows h family now receipt es) (objects (get receipt ''nodes'')) = Inr per_node"
    "records = concat per_node" by (auto simp: run_attempt_records_def bind_res_Inr)
  from assms(2) n(2) obtain rs where rs: "rs \<in> set per_node" "r \<in> set rs" by auto
  from map_res_set [OF n(1) rs(1)] obtain node where node: "node \<in> set (objects (get receipt ''nodes''))"
    "node_rows h family now receipt es node = Inr rs" by blast
  from node(2) obtain per_attempt where p: "map_res (attempt_rows h family now receipt (node_events (str_or h (get node ''node_id'') '''') es) node)
      (filter (is_model_attempt h) (objects (get node ''attempts''))) = Inr per_attempt" "rs = concat per_attempt"
    by (auto simp: node_rows_def bind_res_Inr)
  from rs(2) p(2) obtain rows where rows: "rows \<in> set per_attempt" "r \<in> set rows" by auto
  from map_res_set [OF p(1) rows(1)] obtain a where "a \<in> set (objects (get node ''attempts''))"
    "attempt_rows h family now receipt (node_events (str_or h (get node ''node_id'') '''') es) node a = Inr rows" by auto
  then show thesis using that node(1) rows(2) by blast
qed

lemma run_records_keyed: "run_attempt_records h family now receipt es = Inr records \<Longrightarrow> list_all keyed records"
  unfolding list_all_iff by (blast elim: records_from dest: rows_keyed [unfolded list_all_iff])

lemma find_first:
  "increasing es \<Longrightarrow> List.find P es = Some s \<Longrightarrow> x \<in> set es \<Longrightarrow> P x \<Longrightarrow> ev_seq s \<le> ev_seq x"
  by (induction es) (auto simp: increasing_def split: if_splits)

lemma checks_of_facts:
  assumes "increasing es" "c \<in> set (checks_of h es t)"
  shows "c \<in> set es \<and> ev_type c = ''verify'' \<and> ev_seq t < ev_seq c \<and>
    (\<forall>e\<in>set es. ev_type e = ''dispatch'' \<longrightarrow> ev_seq t < ev_seq e \<longrightarrow> ev_seq c < ev_seq e)"
proof -
  let ?f = "filter (\<lambda>e. ev_seq e > ev_seq t) es"
  have inc: "increasing ?f" using assms(1) by (auto simp: increasing_def intro: sorted_wrt_filter)
  have c: "c \<in> set es" "ev_type c = ''verify''" "ev_seq t < ev_seq c"
    "\<And>s. List.find (\<lambda>e. ev_type e = ''dispatch'') ?f = Some s \<Longrightarrow> ev_seq c < ev_seq s"
    using assms(2) by (auto simp: checks_of_def Let_def)
  have "ev_seq c < ev_seq e" if "e \<in> set es" "ev_type e = ''dispatch''" "ev_seq t < ev_seq e" for e
  proof (cases "List.find (\<lambda>e. ev_type e = ''dispatch'') ?f")
    case None
    then show ?thesis using that by (auto simp: find_None_iff)
  next
    case (Some s)
    then show ?thesis using c(4) [OF Some] find_first [OF inc Some, of e] that by simp
  qed
  then show ?thesis using c by blast
qed

text \<open>C7. Quality credit is earned: a row of the ledger carries credit only if the log of the run has a successful terminal of that node and
  attempt and a later check of the node before its next dispatch; the credit is one exactly when that check passed, and
  the row names the digest of the log.\<close>

theorem quality_credit_is_earned:
  assumes "read_events h log_text = Inr (es, log_text')" and "run_attempt_records h family now receipt es = Inr records"
    and "r \<in> set records" and "at_quality_credit r = Some q"
  shows "\<exists>t check. t \<in> set es \<and> check \<in> set es \<and> ev_node_id check = ev_node_id t \<and>
    at_node_id r = optional_text (Some (ev_node_id t)) \<and> at_attempt_id r = Some (str_of_int (event_attempt t 1)) \<and>
    ev_type t = ''terminal'' \<and> is_true (dat t ''ok'') \<and> ev_type check = ''verify'' \<and> ev_seq t < ev_seq check \<and>
    (\<forall>e\<in>set es. ev_node_id e = ev_node_id t \<longrightarrow> ev_type e = ''dispatch'' \<longrightarrow> ev_seq t < ev_seq e \<longrightarrow> ev_seq check < ev_seq e) \<and>
    q = (if is_true (dat check ''ok'') then 1 else 0) \<and>
    at_checker_digest r = optional_text (Some (str_or h (get receipt ''events_digest'') ''''))"
proof -
  obtain node a rows where rows: "attempt_rows h family now receipt (node_events (str_or h (get node ''node_id'') '''') es) node a = Inr rows"
    "r \<in> set rows" by (rule records_from [OF assms(2,3)]) (rule that)
  let ?id = "str_or h (get node ''node_id'') ''''"
  let ?es = "node_events ?id es"
  have inc: "increasing ?es" using increasing_node_events [OF read_events_increasing [OF assms(1)]] .
  let ?common = "common_fields h family receipt node a"
  have "at_quality_credit x = None" if "build_attempt_record now (terminal_fields h t a ?common) = Inr x" for x t
    using built_record(2) [OF that] by (simp add: terminal_fields_def common_fields_def Let_def)
  with rows assms(4) obtain check where check: "judging_check h ?es (terminal_of ?es a) = Some check"
    "build_attempt_record now (checker_fields (str_or h (get receipt ''events_digest'') '''') check ?common) = Inr r"
    by (auto simp: attempt_rows_def Let_def bind_res_Inr split: option.splits)
  from check(1) obtain t where t: "terminal_of ?es a = Some t" "is_true (dat t ''ok'')" "check \<in> set (checks_of h ?es t)"
    by (auto simp: judging_check_def split: option.splits if_splits list.splits)
  have tf: "t \<in> set ?es" "ev_type t = ''terminal''" "event_attempt t 1 = attempt_number a"
    using t(1) by (auto simp: terminal_of_def find_Some_iff)
  have cf: "check \<in> set ?es" "ev_type check = ''verify''" "ev_seq t < ev_seq check"
    "\<forall>e\<in>set ?es. ev_type e = ''dispatch'' \<longrightarrow> ev_seq t < ev_seq e \<longrightarrow> ev_seq check < ev_seq e"
    using checks_of_facts [OF inc t(3)] by blast+
  have rf: "q = (if is_true (dat check ''ok'') then 1 else 0)" "at_node_id r = optional_text (Some ?id)"
    "at_attempt_id r = Some (str_of_int (attempt_number a))"
    "at_checker_digest r = optional_text (Some (str_or h (get receipt ''events_digest'') ''''))"
    using built_record [OF check(2)] assms(4) strip_int [of "attempt_number a"]
    by (simp_all add: checker_fields_def common_fields_def Let_def optional_text_def)
  have ids: "ev_node_id t = ?id" "ev_node_id check = ?id" "t \<in> set es" "check \<in> set es"
    using tf(1) cf(1) by (simp_all add: node_events_def)
  have "\<forall>e\<in>set es. ev_node_id e = ev_node_id t \<longrightarrow> ev_type e = ''dispatch'' \<longrightarrow> ev_seq t < ev_seq e \<longrightarrow> ev_seq check < ev_seq e"
    using cf(4) ids(1) by (simp add: node_events_def)
  then show ?thesis using ids rf tf(2,3) t(2) cf(2,3) by metis
qed

subsection \<open>The clock is not part of a key\<close>

lemma rel_sum_bind:
  assumes "rel_sum (=) R x y" and "\<And>a b. R a b \<Longrightarrow> rel_sum (=) S (f a) (g b)"
  shows "rel_sum (=) S (bind_res x f) (bind_res y g)"
  using assms by (cases rule: rel_sum.cases) auto

lemma map_res_rel:
  assumes "\<And>x. x \<in> set xs \<Longrightarrow> rel_sum (=) R (f x) (g x)"
  shows "rel_sum (=) (list_all2 R) (map_res f xs) (map_res g xs)"
  using assms by (induction xs) (auto intro!: rel_sum_bind)

definition same_keys :: "attempt_record list \<Rightarrow> attempt_record list \<Rightarrow> bool" where
  "same_keys rs rs' \<longleftrightarrow> map record_key rs = map record_key rs'"

lemma same_keys_concat: "list_all2 same_keys xs ys \<Longrightarrow> same_keys (concat xs) (concat ys)"
  by (induction rule: list_all2_induct) (simp_all add: same_keys_def)

lemma build_now: "rel_sum (=) (\<lambda>r r'. record_key r = record_key r') (build_attempt_record now a) (build_attempt_record now' a)"
  unfolding build_attempt_record_def by (intro rel_sum_bind [where R = "(=)"]) (simp_all add: record_key_def sum.rel_eq)

lemma rows_now:
  "rel_sum (=) same_keys (attempt_rows h family now receipt es node a) (attempt_rows h family now' receipt es node a)"
  unfolding attempt_rows_def Let_def
proof (rule rel_sum_bind [where R = "(=)"])
  let ?common = "common_fields h family receipt node a"
  let ?t = "terminal_of es a"
  fix u v :: unit
  show "rel_sum (=) same_keys
      (bind_res (build_attempt_record now (terminal_fields h ?t a ?common)) (\<lambda>row.
        case judging_check h es ?t of None \<Rightarrow> Inr [row]
        | Some check \<Rightarrow> bind_res (build_attempt_record now (checker_fields (str_or h (get receipt ''events_digest'') '''') check ?common))
            (\<lambda>judged. Inr [row, judged])))
      (bind_res (build_attempt_record now' (terminal_fields h ?t a ?common)) (\<lambda>row.
        case judging_check h es ?t of None \<Rightarrow> Inr [row]
        | Some check \<Rightarrow> bind_res (build_attempt_record now' (checker_fields (str_or h (get receipt ''events_digest'') '''') check ?common))
            (\<lambda>judged. Inr [row, judged])))"
    by (rule rel_sum_bind [OF build_now], cases "judging_check h es ?t")
      (auto simp: same_keys_def intro!: rel_sum_bind [OF build_now])
qed (simp add: guard_res_def)

lemma records_now: "rel_sum (=) same_keys (run_attempt_records h family now receipt es) (run_attempt_records h family now' receipt es)"
proof -
  have node: "rel_sum (=) same_keys (node_rows h family now receipt es n) (node_rows h family now' receipt es n)" for n
    unfolding node_rows_def by (rule rel_sum_bind [OF map_res_rel [OF rows_now]]) (simp add: same_keys_concat)
  show ?thesis
    unfolding run_attempt_records_def by (rule rel_sum_bind [OF map_res_rel [OF node]]) (simp add: same_keys_concat)
qed

lemma recorded_again:
  assumes "record_run_attempts h family now receipt es lines = Inr (n, lines')"
  shows "record_run_attempts h family now' receipt es lines' = Inr (0, lines') \<and> prefix lines lines'"
proof -
  obtain records where r: "run_attempt_records h family now receipt es = Inr records"
    "append_new_attempt_records records lines = (n, lines')"
    using assms by (auto simp: record_run_attempts_def bind_res_Inr)
  obtain records' where r': "run_attempt_records h family now' receipt es = Inr records'" "map record_key records' = map record_key records"
    using records_now [of h family now receipt es now'] r(1) by (cases rule: rel_sum.cases) (auto simp: same_keys_def)
  have "append_new_attempt_records records' lines' = (0, lines')"
    using append_again [OF run_records_keyed [OF r(1)] r'(2), of lines] r(2) by simp
  moreover have "prefix lines lines'" using r(2) by (auto simp: append_new_attempt_records_def append_lines_def Let_def)
  ultimately show ?thesis using r'(1) by (simp add: record_run_attempts_def)
qed

lemma refused_again: "record_run_attempts h family now receipt es lines = Inl e \<Longrightarrow> record_run_attempts h family now' receipt es lines' = Inl e"
  using records_now [of h family now receipt es now']
  by (cases rule: rel_sum.cases) (auto simp: record_run_attempts_def)

lemma record_run_keeps: "rc_dir (record_run h family now path receipt st) = rc_dir st" "rc_outcomes (record_run h family now path receipt st) = rc_outcomes st"
  by (auto simp: record_run_def split: option.split sum.split prod.split)

lemma record_run_again:
  "rc_ledger (record_run h family now' path' receipt (record_run h family now path receipt st)) = rc_ledger (record_run h family now path receipt st)
   \<and> prefix (rc_ledger st) (rc_ledger (record_run h family now path receipt st))"
proof (cases "rd_events (rc_dir st)")
  case (Some t)
  show ?thesis
  proof (cases "read_events h t")
    case (Inr p)
    obtain es t' where p: "p = (es, t')" by (cases p)
    show ?thesis
    proof (cases "record_run_attempts h family now receipt es (rc_ledger st)")
      case (Inl e)
      then show ?thesis using Some Inr p refused_again [OF Inl, of now'] by (simp add: record_run_def)
    next
      case rows: (Inr q)
      obtain n lines where q: "q = (n, lines)" by (cases q)
      show ?thesis using Some Inr p rows q recorded_again [of h family now receipt es "rc_ledger st" n lines now'] by (simp add: record_run_def)
    qed
  qed (simp add: record_run_def Some)
qed (simp add: record_run_def)

lemma file_written_again:
  assumes "build_run_receipt h d = Inr r"
  shows "build_run_receipt h (snd (write_receipt_file h d)) = Inr r \<and>
    snd (write_receipt_file h (snd (write_receipt_file h d))) = snd (write_receipt_file h d)"
proof -
  have b: "build_run_receipt h ((repaired d)\<lparr> rd_receipt := x \<rparr>) = Inr r" for x
    using assms by (simp add: build_ignores_receipt build_repaired)
  then show ?thesis
    using assms repair_idem [of "rd_events d"] by (simp add: write_receipt_file_def) (simp add: repaired_def)
qed

text \<open>C8. A finished run is recorded once: after \<open>write_run_receipt\<close> the receipt verifies; writing it again, at any later time, leaves the
  run's files and the ledger as they are, and no write changes a row that was already in the ledger.\<close>

theorem run_recorded_once:
  assumes "write_run_receipt h family now path st = (Inr (), st')"
  shows "verify_run_receipt h (rc_dir st') = ([], rc_dir st') \<and> prefix (rc_ledger st) (rc_ledger st') \<and>
    (\<exists>st''. write_run_receipt h family now' path' st' = (Inr (), st'') \<and> rc_dir st'' = rc_dir st' \<and>
       rc_outcomes st'' = rc_outcomes st' \<and> rc_ledger st'' = rc_ledger st')"
proof -
  let ?d = "snd (write_receipt_file h (rc_dir st))"
  obtain r where r: "build_run_receipt h (rc_dir st) = Inr r"
    using assms by (cases "build_run_receipt h (rc_dir st)") (simp_all add: write_run_receipt_def)
  obtain recs where recs: "build_outcome_records h r = Some recs"
    using assms r by (cases "build_outcome_records h r") (simp_all add: write_run_receipt_def write_outcome_records_def)
  let ?st = "st\<lparr> rc_dir := ?d, rc_outcomes := Some (map outcome_to_dict recs) \<rparr>"
  have st': "st' = record_run h family now path r ?st"
    using assms r recs by (simp add: write_run_receipt_def write_outcome_records_def)
  have again: "build_run_receipt h ?d = Inr r" "snd (write_receipt_file h ?d) = ?d" using file_written_again [OF r] by simp_all
  have keeps: "rc_dir st' = ?d" "rc_outcomes st' = Some (map outcome_to_dict recs)" unfolding st' by (simp_all add: record_run_keeps)
  have same: "st'\<lparr> rc_dir := ?d, rc_outcomes := Some (map outcome_to_dict recs) \<rparr> = st'" using keeps by simp
  have second: "write_run_receipt h family now' path' st' = (Inr (), record_run h family now' path' r st')"
    using again recs by (simp add: write_run_receipt_def write_outcome_records_def keeps(1) same)
  have "fst (write_receipt_file h (rc_dir st)) = Inr ()" using r by (simp add: write_receipt_file_def)
  then have "verify_run_receipt h (rc_dir st') = ([], rc_dir st')" unfolding keeps(1) by (rule written_verifies)
  moreover have "rc_ledger (record_run h family now' path' r st') = rc_ledger st'" "prefix (rc_ledger st) (rc_ledger st')"
    using record_run_again [of h family now' path' r now path ?st] unfolding st' by simp_all
  ultimately show ?thesis using second record_run_keeps [of h family now' path' r st'] by simp
qed


subsection \<open>A recorded run\<close>

definition sample_attempt :: obj where
  "sample_attempt = [(''attempt'', JNum 1), (''route_id'', JStr ''p/m''), (''outcome'', JStr ''success'')]"

definition sample_receipt :: obj where
  "sample_receipt =
     [(''run_id'', JStr ''run''), (''events_digest'', JStr ''d''),
      (''nodes'', JList [JObj [(''node_id'', JStr ''n1''), (''kind'', JStr ''implement''), (''attempts'', JList [JObj sample_attempt])]])]"

definition second_credit :: "record_error + attempt_record list \<Rightarrow> rat option" where
  "second_credit res = (case res of Inr [_, r] \<Rightarrow> at_quality_credit r | _ \<Rightarrow> None)"

lemma sample_credit:
  "second_credit (run_attempt_records sample_host (\<lambda>_. []) ''t'' sample_receipt sample_events) = Some 1"
  by code_simp

lemma sample_records:
  obtains r rs where "run_attempt_records sample_host (\<lambda>_. []) ''t'' sample_receipt sample_events = Inr rs" "r \<in> set rs"
    "at_quality_credit r = Some 1"
  using sample_credit that
  by (fastforce simp: second_credit_def split: sum.splits list.splits)

theorem quality_credit_is_earned_witness:
  "\<exists>t check. t \<in> set sample_events \<and> check \<in> set sample_events \<and> is_true (dat t ''ok'') \<and> ev_type check = ''verify'' \<and>
     ev_seq t < ev_seq check \<and> is_true (dat check ''ok'')"
proof -
  obtain r rs where "run_attempt_records sample_host (\<lambda>_. []) ''t'' sample_receipt sample_events = Inr rs" "r \<in> set rs"
    "at_quality_credit r = Some 1" by (rule sample_records)
  from quality_credit_is_earned [OF sample_read this] show ?thesis by (metis zero_neq_one)
qed

definition sample_records :: records_state where
  "sample_records = \<lparr> rc_dir = sample_dir, rc_outcomes = None, rc_ledger = [], rc_index = [] \<rparr>"

lemma outcome_record_some: "sum_usage (objects (get n ''attempts'')) \<noteq> None \<Longrightarrow> \<exists>x. build_outcome_record h r n = Some x"
  by (auto simp: build_outcome_record_def Let_def)

lemma objects_one: "objects (JList [JObj d]) = [d]"
  by (simp add: objects_def elements_def object_def map_filter_simps)

lemma sample_outcomes:
  assumes "build_run_receipt sample_host sample_dir = Inr r"
  shows "build_outcome_records sample_host r \<noteq> None"
  using assms
proof (rule build_parts)
  fix t es t' raw graph review
  assume b: "rd_events sample_dir = Some t" "read_events sample_host t = Inr (es, t')" "read_plan sample_host (rd_graph sample_dir) = Inr (raw, graph)"
    "r = receipt_body sample_host (rd_name sample_dir) t' raw graph review es @
       [(''outcome'', JStr (fst (completion_verdict sample_host (receipt_body sample_host (rd_name sample_dir) t' raw graph review es)))),
        (''reason'', JStr (snd (completion_verdict sample_host (receipt_body sample_host (rd_name sample_dir) t' raw graph review es))))]"
  have "get r ''nodes'' = JList (map JObj (node_records sample_host graph es))" unfolding b(4) by (simp add: get_def body_lookup(2) map_add_def)
  moreover have "es = sample_events" "graph = Some bare_plan" using b(1-3) sample_read sample_plan_read by (simp_all add: sample_dir_def)
  ultimately have "get r ''nodes'' = JList [JObj (node_record sample_host ''n1'' (kind_value (wn_kind bare_node)) (node_events ''n1'' sample_events))]"
    by (simp add: node_records_def nodes_of_plan_def bare_plan_def bare_node_def sample_node_def)
  moreover have "sum_usage (objects (get (node_record sample_host ''n1'' (kind_value (wn_kind bare_node)) (node_events ''n1'' sample_events)) ''attempts'')) \<noteq> None"
    by code_simp
  ultimately obtain x where "map (build_outcome_record sample_host r) (objects (get r ''nodes'')) = [Some x]"
    using outcome_record_some [of "node_record sample_host ''n1'' (kind_value (wn_kind bare_node)) (node_events ''n1'' sample_events)" sample_host r]
    by (auto simp: objects_one)
  then show ?thesis by (simp add: build_outcome_records_def)
qed

theorem run_recorded_once_witness:
  "\<exists>st st'. write_run_receipt sample_host (\<lambda>_. []) ''t'' ''/runs/run'' sample_records = (Inr (), st) \<and>
     write_run_receipt sample_host (\<lambda>_. []) ''later'' ''/runs/run'' st = (Inr (), st') \<and> rc_ledger st' = rc_ledger st \<and>
     verify_run_receipt sample_host (rc_dir st) = ([], rc_dir st)"
proof -
  obtain r where r: "build_run_receipt sample_host sample_dir = Inr r" using sample_built by blast
  then obtain recs where "build_outcome_records sample_host r = Some recs" using sample_outcomes by blast
  then obtain st where "write_run_receipt sample_host (\<lambda>_. []) ''t'' ''/runs/run'' sample_records = (Inr (), st)"
    using r by (simp add: write_run_receipt_def write_outcome_records_def sample_records_def)
  with run_recorded_once [OF this, of "''later''" "''/runs/run''"] show ?thesis by blast
qed


text \<open>An accepted attempt may carry a failure class and full credit.\<close>

definition contradictory_fields :: attempt_record where
  "contradictory_fields = (checker_fields ''d'' (sample_ev 3 ''verify'' ''n1'' [(''ok'', JBool True)])
     (common_fields sample_host (\<lambda>_. []) sample_receipt [] sample_attempt))\<lparr> at_failure_class := ''test_failed'' \<rparr>"

definition contradictory :: "record_error + attempt_record \<Rightarrow> bool" where
  "contradictory res =
     (case res of Inr r \<Rightarrow> at_outcome r = ''accepted'' \<and> at_failure_class r = ''test_failed'' \<and> at_quality_credit r = Some 1 | Inl _ \<Rightarrow> False)"

theorem failure_class_of_accepted_attempt: "contradictory (build_attempt_record ''t'' contradictory_fields)"
  by code_simp

end
