(* ===== verification/Story_Footprint.thy ===== *)
theory Story_Footprint
  imports Prelude
begin

section \<open>Story footprints\<close>

text \<open>
  Models \<open>verdict/orchestration/story_footprint.py\<close>: whether two stories may run at the same time. The parts of
  Python's library it relies on are written out: \<open>posixpath.normpath\<close>, and \<open>fnmatch\<close> as the translation of a
  pattern into one item per character and the match of the whole name. A frozen set is the list of its
  elements; lemma \<open>collide_sets\<close> shows that their order and repetition do not matter.
\<close>

subsection \<open>Python's paths\<close>

text \<open>\<open>posixpath.normpath\<close>: empty and \<open>.\<close> components go, \<open>..\<close> takes back the component before it unless there is none to
  take back; exactly two leading slashes are kept.\<close>

definition norm_comp :: "bool \<Rightarrow> string list \<Rightarrow> string \<Rightarrow> string list" where
  "norm_comp rooted new part =
     (if part = [] \<or> part = ''.'' then new
      else if part \<noteq> ''..'' \<or> (\<not> rooted \<and> new = []) \<or> (new \<noteq> [] \<and> last new = ''..'') then new @ [part]
      else if new \<noteq> [] then butlast new
      else new)"

definition normpath :: "string \<Rightarrow> string" where
  "normpath path =
     (if path = [] then ''.''
      else
        let slashes = (if prefix ''//'' path \<and> \<not> prefix ''///'' path then 2 else if prefix ''/'' path then 1 else 0 :: nat);
            comps = foldl (norm_comp (slashes > 0)) [] (py_split (CHR ''/'') path);
            joined = replicate slashes (CHR ''/'') @ py_join ''/'' comps
        in if joined = [] then ''.'' else joined)"


subsection \<open>Shell patterns\<close>

text \<open>An item of a bracket expression in the regular expression that \<open>fnmatch.translate\<close> writes: a character, escaped where
  needed, or the hyphen that joins two chunks.\<close>

datatype set_token = Chr char | Hyphen

datatype pattern_item = Star | AnyChar | Exactly char | OneOf bool "(char \<times> char) list" | Never

definition set_holds :: "(char \<times> char) list \<Rightarrow> char \<Rightarrow> bool" where
  "set_holds ranges c \<longleftrightarrow> list_ex (\<lambda>(lo, hi). lo \<le> c \<and> c \<le> hi) ranges"

text \<open>The chunks between the hyphens that can join two characters: the first is looked for after one character, or two
  after an exclamation mark, the following ones after two.\<close>

function chunks_of :: "nat \<Rightarrow> string \<Rightarrow> string list" where
  "chunks_of skip s =
     (let front = takeWhile (\<lambda>c. c \<noteq> CHR ''-'') (drop skip s) in
      if skip + length front < length s
      then take (skip + length front) s # chunks_of 2 (drop (skip + length front + 1) s)
      else [s])"
  by pat_completeness auto
termination
  by (relation "measure (\<lambda>(skip, s). length s)") auto

declare chunks_of.simps [simp del]

definition close_chunks :: "string list \<Rightarrow> string list" where
  "close_chunks cs = (if length cs > 1 \<and> last cs = [] then butlast (butlast cs) @ [last (butlast cs) @ ''-''] else cs)"

text \<open>Empty ranges are removed from the right.\<close>

fun drop_empty :: "string list \<Rightarrow> string list" where
  "drop_empty (c # cs) =
     (case drop_empty cs of
        [] \<Rightarrow> [c]
      | d # ds \<Rightarrow> if c \<noteq> [] \<and> d \<noteq> [] \<and> last c > hd d then (butlast c @ tl d) # ds else c # d # ds)"
| "drop_empty [] = []"

definition bracket_tokens :: "string \<Rightarrow> set_token list" where
  "bracket_tokens stuff =
     (if CHR ''-'' \<notin> set stuff then map Chr stuff
      else
        let chunks = drop_empty (close_chunks (chunks_of (if prefix ''!'' stuff then 2 else 1) stuff)) in
        (case map (map Chr) chunks of [] \<Rightarrow> [] | t # ts \<Rightarrow> t @ concat (map (\<lambda>u. Hyphen # u) ts)))"

definition bracket_char :: "set_token \<Rightarrow> char" where
  "bracket_char t = (case t of Chr c \<Rightarrow> c | Hyphen \<Rightarrow> CHR ''-'')"

text \<open>How \<open>re\<close> reads a character set: a joining hyphen between two tokens is a range, any other one stands for itself.\<close>

fun read_set :: "set_token list \<Rightarrow> (char \<times> char) list" where
  "read_set (t # Hyphen # u # ts) = (bracket_char t, bracket_char u) # read_set ts"
| "read_set (t # ts) = (bracket_char t, bracket_char t) # read_set ts"
| "read_set [] = []"

definition bracket_item :: "string \<Rightarrow> pattern_item" where
  "bracket_item stuff =
     (case bracket_tokens stuff of
        [] \<Rightarrow> Never
      | t # ts \<Rightarrow> if t = Chr (CHR ''!'') then (if ts = [] then AnyChar else OneOf False (read_set ts)) else OneOf True (read_set (t # ts)))"

text \<open>The text of a bracket expression after its opening bracket: up to the first closing bracket that is neither the first
  character nor the one after an exclamation mark.\<close>

definition bracket_head :: "string \<Rightarrow> string" where
  "bracket_head s =
     (let a = (if prefix ''!'' s then 1 else 0 :: nat);
          b = (if prefix '']'' (drop a s) then a + 1 else a)
      in take b s @ takeWhile (\<lambda>c. c \<noteq> CHR '']'') (drop b s))"

function translate :: "string \<Rightarrow> pattern_item list" where
  "translate [] = []"
| "translate (c # s) =
     (if c = CHR ''*'' then Star # translate s
      else if c = CHR ''?'' then AnyChar # translate s
      else if c = CHR ''['' then
        (let stuff = bracket_head s in
         if length stuff < length s then bracket_item stuff # translate (drop (length stuff + 1) s)
         else Exactly c # translate s)
      else Exactly c # translate s)"
  by pat_completeness auto
termination
  by (relation "measure length") auto

definition item_matches :: "pattern_item \<Rightarrow> char \<Rightarrow> bool" where
  "item_matches i c \<longleftrightarrow>
     (case i of
        Star \<Rightarrow> True | AnyChar \<Rightarrow> True | Exactly d \<Rightarrow> c = d | OneOf b ranges \<Rightarrow> set_holds ranges c = b | Never \<Rightarrow> False)"

fun items_match :: "pattern_item list \<Rightarrow> string \<Rightarrow> bool" where
  "items_match [] s \<longleftrightarrow> s = []"
| "items_match (Star # ps) [] \<longleftrightarrow> items_match ps []"
| "items_match (Star # ps) (c # s) \<longleftrightarrow> items_match ps (c # s) \<or> items_match (Star # ps) s"
| "items_match (i # ps) [] \<longleftrightarrow> False"
| "items_match (i # ps) (c # s) \<longleftrightarrow> item_matches i c \<and> items_match ps s"

definition fnmatch :: "string \<Rightarrow> string \<Rightarrow> bool" where
  "fnmatch name pat \<longleftrightarrow> items_match (translate pat) name"


subsection \<open>Paths of a footprint\<close>

datatype collision_verdict = PARALLEL | SERIALIZED

datatype collision_reason =
    DISJOINT
  | SAME_FILE
  | GLOB_OVERLAP
  | SAME_AUTHORITY
  | UNKNOWN_FOOTPRINT
  | INVALID_PATH
  | DIRECTORY_OVERLAP

record story_footprint =
  fp_story_id :: string
  fp_write_paths :: "string list"
  fp_authorities :: "string list"

definition is_known :: "story_footprint \<Rightarrow> bool" where
  "is_known f \<longleftrightarrow> fp_write_paths f \<noteq> []"

definition slashed :: "string \<Rightarrow> string" where
  "slashed raw = py_replace_char (CHR 0x5C) (CHR ''/'') raw"

definition normalize_path :: "string \<Rightarrow> string" where
  "normalize_path raw = (let p = normpath (slashed raw) in if p = ''.'' then [] else p)"

definition is_invalid :: "string \<Rightarrow> bool" where
  "is_invalid p \<longleftrightarrow> p = [] \<or> prefix ''/'' p \<or> p = ''..'' \<or> prefix ''../'' p"

definition is_glob :: "string \<Rightarrow> bool" where
  "is_glob p \<longleftrightarrow> list_ex (\<lambda>c. c \<in> set p) ''*?[''"

definition is_directory_entry :: "string \<Rightarrow> bool" where
  "is_directory_entry raw \<longleftrightarrow> suffix ''/'' (rstrip_char (CHR '' '') (slashed raw))"

text \<open>The normalized, lower-cased paths, those of them that were directory entries, and whether a path is invalid, which
  ends the loop.\<close>

fun prepare_paths :: "string list \<Rightarrow> string list \<times> string list \<times> bool" where
  "prepare_paths [] = ([], [], False)"
| "prepare_paths (raw # raws) =
     (let norm = normalize_path raw in
      if is_invalid norm then ([], [], True)
      else (case prepare_paths raws of
              (paths, dirs, invalid) \<Rightarrow>
                (py_lower norm # paths, if is_directory_entry raw then py_lower norm # dirs else dirs, invalid)))"

definition beneath :: "string \<Rightarrow> string \<Rightarrow> bool" where
  "beneath d p \<longleftrightarrow> prefix (d @ ''/'') p \<or> p = d"

definition globs_overlap :: "string \<Rightarrow> string \<Rightarrow> bool" where
  "globs_overlap a b \<longleftrightarrow>
     (is_glob a \<and> fnmatch b a) \<or> (is_glob b \<and> fnmatch a b) \<or> (is_glob a \<and> is_glob b \<and> (fnmatch a b \<or> fnmatch b a))"

definition paths_overlap :: "string list \<Rightarrow> string list \<Rightarrow> string list \<Rightarrow> string list \<Rightarrow> collision_reason option" where
  "paths_overlap paths_a paths_b dirs_a dirs_b =
     (if list_ex (\<lambda>p. p \<in> set paths_b) paths_a then Some SAME_FILE
      else if list_ex (\<lambda>d. list_ex (beneath d) paths_b) dirs_a then Some DIRECTORY_OVERLAP
      else if list_ex (\<lambda>d. list_ex (beneath d) paths_a) dirs_b then Some DIRECTORY_OVERLAP
      else if list_ex (\<lambda>a. list_ex (globs_overlap a) paths_b) paths_a then Some GLOB_OVERLAP
      else None)"

definition authorities_overlap :: "string list \<Rightarrow> string list \<Rightarrow> collision_reason option" where
  "authorities_overlap a b = (if list_ex (\<lambda>x. x \<in> set b) a then Some SAME_AUTHORITY else None)"

definition collide :: "story_footprint \<Rightarrow> story_footprint \<Rightarrow> collision_verdict \<times> collision_reason" where
  "collide a b =
     (if \<not> is_known a \<or> \<not> is_known b then (SERIALIZED, UNKNOWN_FOOTPRINT)
      else
        (case (prepare_paths (fp_write_paths a), prepare_paths (fp_write_paths b)) of
           ((paths_a, dirs_a, invalid_a), (paths_b, dirs_b, invalid_b)) \<Rightarrow>
             if invalid_a \<or> invalid_b then (SERIALIZED, INVALID_PATH)
             else (case authorities_overlap (fp_authorities a) (fp_authorities b) of
                     Some reason \<Rightarrow> (SERIALIZED, reason)
                   | None \<Rightarrow>
                       (case paths_overlap paths_a paths_b dirs_a dirs_b of
                          Some reason \<Rightarrow> (SERIALIZED, reason)
                        | None \<Rightarrow> (PARALLEL, DISJOINT)))))"


section \<open>Lemmas\<close>

subsection \<open>Prepared paths\<close>

lemma prepared_invalid: "snd (snd (prepare_paths raws)) \<longleftrightarrow> (\<exists>raw\<in>set raws. is_invalid (normalize_path raw))"
  by (induction raws) (auto simp: Let_def split: prod.splits)

lemma prepared_valid:
  assumes "\<not> snd (snd (prepare_paths raws))"
  shows "fst (prepare_paths raws) = map (py_lower \<circ> normalize_path) raws"
    and "fst (snd (prepare_paths raws)) = map (py_lower \<circ> normalize_path) (filter is_directory_entry raws)"
  using assms by (induction raws) (auto simp: Let_def split: prod.splits if_splits)

text \<open>\<open>collide\<close> in one sentence per verdict.\<close>

definition entry :: "string \<Rightarrow> string" where
  "entry raw = py_lower (normalize_path raw)"

definition clash :: "string \<Rightarrow> string \<Rightarrow> bool" where
  "clash x y \<longleftrightarrow> entry x = entry y \<or> is_directory_entry x \<and> beneath (entry x) (entry y) \<or>
     is_directory_entry y \<and> beneath (entry y) (entry x) \<or> globs_overlap (entry x) (entry y)"

definition valid_footprint :: "story_footprint \<Rightarrow> bool" where
  "valid_footprint f \<longleftrightarrow> is_known f \<and> (\<forall>raw\<in>set (fp_write_paths f). \<not> is_invalid (normalize_path raw))"

lemma globs_overlap_sym: "globs_overlap x y \<longleftrightarrow> globs_overlap y x"
  by (auto simp: globs_overlap_def)

lemma collide_eq:
  "collide a b =
     (if \<not> is_known a \<or> \<not> is_known b then (SERIALIZED, UNKNOWN_FOOTPRINT)
      else if \<not> valid_footprint a \<or> \<not> valid_footprint b then (SERIALIZED, INVALID_PATH)
      else if set (fp_authorities a) \<inter> set (fp_authorities b) \<noteq> {} then (SERIALIZED, SAME_AUTHORITY)
      else if \<exists>x\<in>set (fp_write_paths a). \<exists>y\<in>set (fp_write_paths b). entry x = entry y then (SERIALIZED, SAME_FILE)
      else if \<exists>x\<in>set (fp_write_paths a). \<exists>y\<in>set (fp_write_paths b).
          is_directory_entry x \<and> beneath (entry x) (entry y) \<or> is_directory_entry y \<and> beneath (entry y) (entry x)
        then (SERIALIZED, DIRECTORY_OVERLAP)
      else if \<exists>x\<in>set (fp_write_paths a). \<exists>y\<in>set (fp_write_paths b). globs_overlap (entry x) (entry y) then (SERIALIZED, GLOB_OVERLAP)
      else (PARALLEL, DISJOINT))"
proof -
  obtain pa da ia where a: "prepare_paths (fp_write_paths a) = (pa, da, ia)" by (cases "prepare_paths (fp_write_paths a)")
  obtain pb db ib where b: "prepare_paths (fp_write_paths b) = (pb, db, ib)" by (cases "prepare_paths (fp_write_paths b)")
  have i: "ia \<longleftrightarrow> (\<exists>raw\<in>set (fp_write_paths a). is_invalid (normalize_path raw))"
    "ib \<longleftrightarrow> (\<exists>raw\<in>set (fp_write_paths b). is_invalid (normalize_path raw))"
    using prepared_invalid [of "fp_write_paths a"] prepared_invalid [of "fp_write_paths b"] a b by simp_all
  show ?thesis
  proof (cases "is_known a \<and> is_known b \<and> \<not> ia \<and> \<not> ib")
    case False
    then show ?thesis using a b i by (auto simp: collide_def valid_footprint_def)
  next
    case True
    then have p: "pa = map entry (fp_write_paths a)" "da = map entry (filter is_directory_entry (fp_write_paths a))"
      "pb = map entry (fp_write_paths b)" "db = map entry (filter is_directory_entry (fp_write_paths b))"
      using prepared_valid [of "fp_write_paths a"] prepared_valid [of "fp_write_paths b"] a b
      by (simp_all add: entry_def [abs_def] comp_def)
    have "valid_footprint a" "valid_footprint b" using True i by (auto simp: valid_footprint_def)
    moreover have "paths_overlap pa pb da db =
        (if \<exists>x\<in>set (fp_write_paths a). \<exists>y\<in>set (fp_write_paths b). entry x = entry y then Some SAME_FILE
         else if \<exists>x\<in>set (fp_write_paths a). \<exists>y\<in>set (fp_write_paths b).
             is_directory_entry x \<and> beneath (entry x) (entry y) \<or> is_directory_entry y \<and> beneath (entry y) (entry x)
           then Some DIRECTORY_OVERLAP
         else if \<exists>x\<in>set (fp_write_paths a). \<exists>y\<in>set (fp_write_paths b). globs_overlap (entry x) (entry y) then Some GLOB_OVERLAP
         else None)"
      unfolding p paths_overlap_def list_ex_iff by (simp add: image_iff) blast
    ultimately show ?thesis
      using True a b by (simp add: collide_def authorities_overlap_def list_ex_iff disjoint_iff) blast
  qed
qed

lemma parallel_iff:
  "fst (collide a b) = PARALLEL \<longleftrightarrow> valid_footprint a \<and> valid_footprint b \<and> set (fp_authorities a) \<inter> set (fp_authorities b) = {} \<and>
     (\<forall>x\<in>set (fp_write_paths a). \<forall>y\<in>set (fp_write_paths b). \<not> clash x y)"
  unfolding collide_eq clash_def by (auto simp: valid_footprint_def)

lemma collide_sym: "collide a b = collide b a"
proof -
  let ?A = "set (fp_write_paths a)" and ?B = "set (fp_write_paths b)"
  have "(\<exists>x\<in>?A. \<exists>y\<in>?B. entry x = entry y) \<longleftrightarrow> (\<exists>x\<in>?B. \<exists>y\<in>?A. entry x = entry y)" by metis
  moreover have "(\<exists>x\<in>?A. \<exists>y\<in>?B. is_directory_entry x \<and> beneath (entry x) (entry y) \<or> is_directory_entry y \<and> beneath (entry y) (entry x)) \<longleftrightarrow>
      (\<exists>x\<in>?B. \<exists>y\<in>?A. is_directory_entry x \<and> beneath (entry x) (entry y) \<or> is_directory_entry y \<and> beneath (entry y) (entry x))" by blast
  moreover have "(\<exists>x\<in>?A. \<exists>y\<in>?B. globs_overlap (entry x) (entry y)) \<longleftrightarrow> (\<exists>x\<in>?B. \<exists>y\<in>?A. globs_overlap (entry x) (entry y))"
    using globs_overlap_sym by blast
  moreover have "set (fp_authorities a) \<inter> set (fp_authorities b) = set (fp_authorities b) \<inter> set (fp_authorities a)" by blast
  ultimately show ?thesis unfolding collide_eq [of a b] collide_eq [of b a] by (simp only: disj_commute [of "\<not> is_known a"] disj_commute [of "\<not> valid_footprint a"])
qed

lemma collide_sets:
  assumes "set (fp_write_paths a) = set (fp_write_paths a')" "set (fp_authorities a) = set (fp_authorities a')"
  shows "collide a b = collide a' b"
proof -
  have "is_known a \<longleftrightarrow> is_known a'" using assms(1) by (auto simp: is_known_def)
  then show ?thesis unfolding collide_eq valid_footprint_def assms by (simp only:)
qed

text \<open>C36. The verdict is symmetric and depends only on the sets of paths and authorities: whatever order a frozen set is
  iterated in, and whichever story asks, verdict and reason are the same.\<close>

theorem collide_symmetric:
  assumes "set (fp_write_paths a) = set (fp_write_paths a')" and "set (fp_authorities a) = set (fp_authorities a')"
    and "set (fp_write_paths b) = set (fp_write_paths b')" and "set (fp_authorities b) = set (fp_authorities b')"
  shows "collide a b = collide b' a'"
  using collide_sets [OF assms(1,2), of b] collide_sets [OF assms(3,4), of a'] collide_sym [of a' b] by simp


subsection \<open>Files of parallel stories\<close>

text \<open>The files a declared path stands for, on a file system that does not tell cases apart.\<close>

definition covers :: "string \<Rightarrow> string \<Rightarrow> bool" where
  "covers raw f \<longleftrightarrow> py_lower f = entry raw \<or> is_directory_entry raw \<and> beneath (entry raw) (py_lower f) \<or>
     is_glob (entry raw) \<and> fnmatch (py_lower f) (entry raw)"

lemma beneath_both:
  assumes "beneath d p" "beneath e p"
  shows "beneath d e \<or> beneath e d"
proof (cases "p = d \<or> p = e")
  case False
  then have "prefix (d @ ''/'') p" "prefix (e @ ''/'') p" using assms by (auto simp: beneath_def)
  then obtain u v where p: "p = (d @ ''/'') @ u" "p = (e @ ''/'') @ v" unfolding prefix_def by blast
  then have "d @ CHR ''/'' # u = e @ CHR ''/'' # v" by simp
  then obtain w where "d = e @ w \<and> w @ CHR ''/'' # u = CHR ''/'' # v \<or> d @ w = e \<and> CHR ''/'' # u = w @ CHR ''/'' # v"
    unfolding append_eq_append_conv2 by blast
  then show ?thesis by (cases w) (auto simp: beneath_def prefix_def)
qed (use assms in auto)


definition sample_story :: "string \<Rightarrow> string list \<Rightarrow> story_footprint" where
  "sample_story i paths = \<lparr> fp_story_id = i, fp_write_paths = paths, fp_authorities = [] \<rparr>"

theorem collide_symmetric_witness:
  "collide (sample_story ''a'' [''./src//API.py'', ''docs/'']) (sample_story ''b'' [''src/api.py'']) = (SERIALIZED, SAME_FILE) \<and>
   collide (sample_story ''b'' [''src/api.py'']) (sample_story ''a'' [''docs/'', ''./src//API.py'']) = (SERIALIZED, SAME_FILE)"
proof -
  have "collide (sample_story ''a'' [''./src//API.py'', ''docs/'']) (sample_story ''b'' [''src/api.py'']) = (SERIALIZED, SAME_FILE)" by code_simp
  moreover from this have "collide (sample_story ''b'' [''src/api.py'']) (sample_story ''a'' [''docs/'', ''./src//API.py'']) = (SERIALIZED, SAME_FILE)"
    by (subst collide_symmetric [of _ "sample_story ''b'' [''src/api.py'']" _ "sample_story ''a'' [''./src//API.py'', ''docs/'']"]) (auto simp: sample_story_def)
  ultimately show ?thesis ..
qed


text \<open>The comparison misses files: two patterns, a pattern and a directory, and a directory that is declared without its slash.\<close>

theorem overlapping_stories_run_in_parallel:
  "fst (collide (sample_story ''a'' [''src/a*'']) (sample_story ''b'' [''src/*b''])) = PARALLEL \<and> covers ''src/a*'' ''src/ab'' \<and> covers ''src/*b'' ''src/ab''"
  "fst (collide (sample_story ''a'' [''src/lib/'']) (sample_story ''b'' [''src/*.py''])) = PARALLEL \<and>
     covers ''src/lib/'' ''src/lib/m.py'' \<and> covers ''src/*.py'' ''src/lib/m.py''"
  "fst (collide (sample_story ''a'' [''verdict'']) (sample_story ''b'' [''verdict/api.py''])) = PARALLEL"
  by code_simp+

end
