(* ===== verification/Json_Prefix.thy ===== *)
theory Json_Prefix
  imports Py_Json
begin

section \<open>Unfinished JSON text\<close>

text \<open>
  A strict prefix of the text of a JSON object is no JSON text: a reader that sees only a part of a file notices it.
  The reason is that what the parser has accepted does not change when more text follows, except for a number at
  the very end.
\<close>

definition closed :: "string \<Rightarrow> bool" where
  "closed r \<longleftrightarrow> (\<exists>c u. skip_ws r = c # u \<and> c \<in> {CHR '','', CHR '']'', CHR ''}''})"

definition extends :: "(string \<Rightarrow> ('a \<times> string) option) \<Rightarrow> bool" where
  "extends p \<longleftrightarrow> (\<forall>s v r q. p s = Some (v, r) \<longrightarrow> p (s @ q) = Some (v, r @ q))"

definition extends_closed :: "(string \<Rightarrow> ('a \<times> string) option) \<Rightarrow> bool" where
  "extends_closed p \<longleftrightarrow> (\<forall>s v r q. p s = Some (v, r) \<longrightarrow> closed r \<longrightarrow> p (s @ q) = Some (v, r @ q))"

lemma extendsD: "extends p \<Longrightarrow> p s = Some (v, r) \<Longrightarrow> p (s @ q) = Some (v, r @ q)"
  by (simp add: extends_def)

lemma extends_closedD: "extends_closed p \<Longrightarrow> p s = Some (v, r) \<Longrightarrow> closed r \<Longrightarrow> p (s @ q) = Some (v, r @ q)"
  by (simp add: extends_closed_def)

lemma skip_ws_append: "skip_ws s = c # r \<Longrightarrow> skip_ws (s @ q) = c # r @ q"
  using span_append [of is_ws s q] by (simp add: skip_ws_def)

lemma closed_head:
  assumes "closed r"
  obtains c u where "r = c # u" "\<not> is_digit c" "c \<noteq> CHR ''.''" "c \<noteq> CHR ''e''" "c \<noteq> CHR ''E''"
proof (cases r)
  case Nil
  then show thesis using assms by (simp add: closed_def skip_ws_def)
next
  case (Cons c u)
  have "is_ws c \<or> c \<in> {CHR '','', CHR '']'', CHR ''}''}"
    using assms Cons by (cases "is_ws c") (auto simp: closed_def skip_ws_def)
  then have "\<not> is_digit c" "c \<noteq> CHR ''.''" "c \<noteq> CHR ''e''" "c \<noteq> CHR ''E''" by (auto simp: is_ws_def is_digit_def)
  with Cons show thesis by (rule that)
qed

lemma scan_str_extends: "scan_str s = Some (cs, r) \<Longrightarrow> scan_str (s @ q) = Some (cs, r @ q)"
proof (induction "length s" arbitrary: s cs r rule: less_induct)
  case less
  have ih: "scan_str (t @ q) = Some (ds, x @ q)" if "scan_str t = Some (ds, x)" "length t < length s" for t ds x
    using less.hyps [OF that(2,1)] .
  from less.prems obtain c t where s: "s = c # t" by (cases s) auto
  consider "c = CHR 0x22" | "c \<noteq> CHR 0x22" "c \<noteq> CHR 0x5C" | e t' where "c = CHR 0x5C" "t = e # t'"
    using less.prems s by (cases "c = CHR 0x5C"; cases t) auto
  then show ?case
  proof cases
    case 1
    then show ?thesis using less.prems s by auto
  next
    case 2
    then show ?thesis using less.prems s by (auto dest: ih split: option.splits if_splits)
  next
    case (3 e t')
    show ?thesis
    proof (cases "e = CHR ''u''")
      case True
      from less.prems s 3 True obtain h1 h2 h3 h4 t2 where t: "t' = h1 # h2 # h3 # h4 # t2" by (auto split: list.splits)
      with less.prems s 3 True obtain x ds where "hex_char h1 h2 h3 h4 = Some x" "scan_str t2 = Some (ds, r)" "cs = x # ds"
        by (auto split: option.splits)
      moreover from this have "scan_str (t2 @ q) = Some (ds, r @ q)" using s 3 t by (intro ih) simp_all
      ultimately show ?thesis using s 3 True t by simp
    next
      case False
      with less.prems s 3 obtain x ds where "unescape e = Some x" "scan_str t' = Some (ds, r)" "cs = x # ds"
        by (auto split: option.splits)
      moreover from this have "scan_str (t' @ q) = Some (ds, r @ q)" using s 3 by (intro ih) simp_all
      ultimately show ?thesis using s 3 False by simp
    qed
  qed
qed

lemma digits_rest: "dropWhile is_digit xs \<noteq> [] \<Longrightarrow>
   takeWhile is_digit (xs @ q) = takeWhile is_digit xs \<and> dropWhile is_digit (xs @ q) = dropWhile is_digit xs @ q"
  by (rule span_append) simp

lemma scan_int_extends: "scan_int s = Some (i, r) \<Longrightarrow> r \<noteq> [] \<Longrightarrow> scan_int (s @ q) = Some (i, r @ q)"
proof -
  assume s: "scan_int s = Some (i, r)" and r: "r \<noteq> []"
  let ?b = "if prefix ''-'' s then tl s else s"
  have ne: "?b \<noteq> []" using s by (auto simp: scan_int_def Let_def split: list.splits)
  then have "s \<noteq> []" by auto
  then have "prefix ''-'' (s @ q) = prefix ''-'' s" "(if prefix ''-'' s then tl (s @ q) else s @ q) = ?b @ q"
    by (simp_all add: prefix_sign)
  moreover obtain c u where "?b = c # u" using ne by (cases ?b) auto
  ultimately show ?thesis using s r digits_rest [of ?b q] by (auto simp: scan_int_def Let_def split: if_splits)
qed

lemma scan_frac_extends:
  assumes "snd (scan_frac t) = c # u" "c \<noteq> CHR ''.''"
  shows "scan_frac (t @ q) = (fst (scan_frac t), snd (scan_frac t) @ q)"
proof (cases t)
  case Nil
  then show ?thesis using assms by (simp add: scan_frac_def)
next
  case (Cons d x)
  show ?thesis
  proof (cases "d = CHR ''.'' \<and> takeWhile is_digit x \<noteq> []")
    case True
    then have "dropWhile is_digit x \<noteq> []" using assms(1) Cons by (simp add: scan_frac_def)
    from digits_rest [OF this, of q] True Cons show ?thesis by (simp add: scan_frac_def)
  next
    case False
    then have "snd (scan_frac t) = d # x" "fst (scan_frac t) = []" using Cons by (auto simp: scan_frac_def)
    then show ?thesis using assms Cons by (simp add: scan_frac_def)
  qed
qed

lemma scan_exp_extends:
  assumes "snd (scan_exp t) = c # u" "c \<noteq> CHR ''e''" "c \<noteq> CHR ''E''"
  shows "scan_exp (t @ q) = (fst (scan_exp t), snd (scan_exp t) @ q)"
proof (cases t)
  case Nil
  then show ?thesis using assms by (simp add: scan_exp_def)
next
  case (Cons d x)
  let ?u = "if prefix ''-'' x \<or> prefix ''+'' x then tl x else x"
  show ?thesis
  proof (cases "(d = CHR ''e'' \<or> d = CHR ''E'') \<and> takeWhile is_digit ?u \<noteq> []")
    case True
    then have rest: "dropWhile is_digit ?u = c # u" using assms(1) Cons by (simp add: scan_exp_def Let_def)
    have "x \<noteq> []" using True by auto
    then have "(if prefix ''-'' (x @ q) \<or> prefix ''+'' (x @ q) then tl (x @ q) else x @ q) = ?u @ q" by (simp add: prefix_sign)
    then show ?thesis using True rest Cons digits_rest [of ?u q] \<open>x \<noteq> []\<close> by (simp add: scan_exp_def Let_def prefix_sign)
  next
    case False
    then have "snd (scan_exp t) = d # x" "fst (scan_exp t) = []" using Cons by (auto simp: scan_exp_def Let_def)
    then show ?thesis using assms Cons by (simp add: scan_exp_def)
  qed
qed

lemma scan_num_extends: "extends_closed (scan_num fread)"
  unfolding extends_closed_def
proof (intro allI impI)
  fix s v r q
  assume a: "scan_num fread s = Some (v, r)" and cl: "closed r"
  obtain c u where c: "r = c # u" "\<not> is_digit c" "c \<noteq> CHR ''.''" "c \<noteq> CHR ''e''" "c \<noteq> CHR ''E''" by (rule closed_head [OF cl])
  obtain i t where i: "scan_int s = Some (i, t)" using a by (auto simp: scan_num_def split: option.splits)
  have r: "r = snd (scan_exp (snd (scan_frac t)))" using a i by (auto simp: scan_num_def split: prod.splits if_splits)
  have e: "scan_exp (snd (scan_frac t) @ q) = (fst (scan_exp (snd (scan_frac t))), r @ q)"
    using scan_exp_extends [of "snd (scan_frac t)" c u q] r c by simp
  have "snd (scan_frac t) \<noteq> []" using r c(1) by (auto simp: scan_exp_def)
  then obtain d x where d: "snd (scan_frac t) = d # x" by (cases "snd (scan_frac t)") auto
  have "d \<noteq> CHR ''.''"
  proof
    assume "d = CHR ''.''"
    then have "r = d # x" using r d by (simp add: scan_exp_def Let_def)
    then show False using c \<open>d = CHR ''.''\<close> by simp
  qed
  then have f: "scan_frac (t @ q) = (fst (scan_frac t), snd (scan_frac t) @ q)" using scan_frac_extends [OF d] by blast
  have "t \<noteq> []" using d by (auto simp: scan_frac_def)
  then have "scan_int (s @ q) = Some (i, t @ q)" by (rule scan_int_extends [OF i])
  then show "scan_num fread (s @ q) = Some (v, r @ q)"
    using a i r e f by (auto simp: scan_num_def split: prod.splits if_splits option.splits)
qed

lemma parse_nil: "parse_value fread n [] = None" "parse_elems fread n [] = None" "parse_members fread n [] = None"
proof -
  show v: "parse_value fread n [] = None" for n by (cases n) simp_all
  show "parse_elems fread n [] = None" "parse_members fread n [] = None" by (cases n; simp add: v)+
qed

lemma value_extends:
  assumes "extends (parse_elems fread n)" "extends (parse_members fread n)"
    and "parse_value fread (Suc n) s = Some (v, r)" "closed r \<or> hd s = CHR ''{''"
  shows "parse_value fread (Suc n) (s @ q) = Some (v, r @ q)"
proof -
  obtain c t where s: "s = c # t" using assms(3) by (cases s) auto
  consider "c = CHR 0x22" | "c = CHR ''{''" | "c = CHR ''[''" | "c \<notin> {CHR 0x22, CHR ''{'', CHR ''[''}" by auto
  then show ?thesis
  proof cases
    case 1
    then show ?thesis using assms(3) s by (auto dest: scan_str_extends)
  next
    case 2
    then obtain d u where d: "skip_ws t = d # u" using assms(3) s by (auto split: list.splits)
    from skip_ws_append [OF d, of q] show ?thesis
      using assms(3) s 2 d extendsD [OF assms(2), of "d # u" _ _ q] by (auto split: if_splits)
  next
    case 3
    then obtain d u where d: "skip_ws t = d # u" using assms(3) s by (auto split: list.splits)
    from skip_ws_append [OF d, of q] show ?thesis
      using assms(3) s 3 d extendsD [OF assms(1), of "d # u" _ _ q] by (auto split: if_splits)
  next
    case 4
    have cl: "closed r" using assms(4) 4 s by simp
    have eq: "parse_value fread (Suc n) (c # x) =
        (if prefix ''null'' (c # x) then Some (JNull, drop 4 (c # x)) else if prefix ''true'' (c # x) then Some (JBool True, drop 4 (c # x))
         else if prefix ''false'' (c # x) then Some (JBool False, drop 5 (c # x)) else scan_num fread (c # x))" for x
      using 4 by simp
    consider w where "w \<in> {''null'', ''true'', ''false''}" "prefix w s"
      | "\<not> prefix ''null'' s" "\<not> prefix ''true'' s" "\<not> prefix ''false'' s" by blast
    then show ?thesis
    proof cases
      case 1
      then obtain x where "s = w @ x" by (auto simp: prefix_def)
      with 1(1) assms(3) show ?thesis by (elim insertE emptyE) simp_all
    next
      case 2
      then have num: "scan_num fread s = Some (v, r)" using assms(3) eq [of t] unfolding s by (simp only: if_False)
      from scan_num_head [OF num] have "is_digit c \<or> c = CHR ''-''" using s by simp
      then have "\<not> prefix ''null'' (s @ q)" "\<not> prefix ''true'' (s @ q)" "\<not> prefix ''false'' (s @ q)"
        using s by (auto simp: is_digit_def)
      then have "parse_value fread (Suc n) (s @ q) = scan_num fread (s @ q)"
        using eq [of "t @ q"] unfolding s append_Cons by (simp only: if_False)
      then show ?thesis using extends_closedD [OF scan_num_extends num cl, of q] by (simp only:)
    qed
  qed
qed

lemma elems_extends:
  assumes "extends_closed (parse_value fread n)" "extends (parse_elems fread n)"
  shows "extends (parse_elems fread (Suc n))"
  unfolding extends_def
proof (intro allI impI)
  fix s vs r q
  assume a: "parse_elems fread (Suc n) s = Some (vs, r)"
  then obtain v t where v: "parse_value fread n s = Some (v, t)" by (auto split: option.splits)
  with a obtain c u where c: "skip_ws t = c # u" by (auto split: list.splits)
  with a v have "closed t" by (auto simp: closed_def split: if_splits)
  from extends_closedD [OF assms(1) v this, of q] have v': "parse_value fread n (s @ q) = Some (v, t @ q)" .
  note c' = skip_ws_append [OF c, of q]
  show "parse_elems fread (Suc n) (s @ q) = Some (vs, r @ q)"
  proof (cases "c = CHR '']''")
    case True
    then show ?thesis using a v v' c c' by simp
  next
    case False
    then obtain ws where ws: "c = CHR '',''" "parse_elems fread n (skip_ws u) = Some (ws, r)" "vs = v # ws"
      using a v c by (auto split: if_splits)
    moreover from this(2) have "skip_ws u \<noteq> []" by (auto simp: parse_nil)
    then obtain d x where d: "skip_ws u = d # x" by (cases "skip_ws u") auto
    ultimately show ?thesis
      using v' c' extendsD [OF assms(2) ws(2), of q] skip_ws_append [OF d, of q] by simp
  qed
qed

lemma members_extends:
  assumes "extends_closed (parse_value fread n)" "extends (parse_members fread n)"
  shows "extends (parse_members fread (Suc n))"
  unfolding extends_def
proof (intro allI impI)
  fix s kvs r q
  assume a: "parse_members fread (Suc n) s = Some (kvs, r)"
  then obtain s' where s: "s = CHR 0x22 # s'" by (auto split: list.splits if_splits)
  with a obtain k t where k: "scan_str s' = Some (k, t)" by (auto split: option.splits)
  with a s obtain u where c: "skip_ws t = CHR '':'' # u" by (auto split: list.splits if_splits)
  with a s k obtain v w where v: "parse_value fread n (skip_ws u) = Some (v, w)" by (auto split: option.splits)
  with a s k c obtain e x where e: "skip_ws w = e # x" by (auto split: list.splits)
  with a s k c v have "closed w" by (auto simp: closed_def split: if_splits)
  have "skip_ws u \<noteq> []" using v by (auto simp: parse_nil)
  then obtain d y where d: "skip_ws u = d # y" by (cases "skip_ws u") auto
  have v': "parse_value fread n (skip_ws (u @ q)) = Some (v, w @ q)"
    using extends_closedD [OF assms(1) v \<open>closed w\<close>, of q] skip_ws_append [OF d, of q] d by simp
  note pre = s scan_str_extends [OF k, of q] skip_ws_append [OF c, of q] v' skip_ws_append [OF e, of q]
  show "parse_members fread (Suc n) (s @ q) = Some (kvs, r @ q)"
  proof (cases "e = CHR ''}''")
    case True
    then show ?thesis using a k c v e pre by simp
  next
    case False
    then obtain ms where ms: "e = CHR '',''" "parse_members fread n (skip_ws x) = Some (ms, r)" "kvs = (k, v) # ms"
      using a s k c v e by (auto split: if_splits)
    moreover from this(2) have "skip_ws x \<noteq> []" by (auto simp: parse_nil)
    then obtain f z where f: "skip_ws x = f # z" by (cases "skip_ws x") auto
    ultimately show ?thesis
      using pre extendsD [OF assms(2) ms(2), of q] skip_ws_append [OF f, of q] by simp
  qed
qed

lemma parse_extends:
  "extends_closed (parse_value fread n) \<and> extends (parse_elems fread n) \<and> extends (parse_members fread n)"
proof (induction n)
  case 0
  show ?case by (simp add: extends_def extends_closed_def)
next
  case (Suc n)
  then have "extends_closed (parse_value fread (Suc n))"
    unfolding extends_closed_def by (intro allI impI) (rule value_extends; simp)
  with Suc show ?case by (simp add: elems_extends members_extends del: parse_value.simps parse_elems.simps parse_members.simps)
qed

theorem unfinished_object:
  assumes "reads_as fread t v" "hd t = CHR ''{''" "strict_prefix p t"
  shows "loads fread p = None"
proof (rule ccontr)
  assume "loads fread p \<noteq> None"
  then obtain w r where w: "parse_value fread (fuel_for p) (skip_ws p) = Some (w, r)"
    by (auto simp: loads_def split: option.splits)
  obtain q where q: "t = p @ q" "q \<noteq> []" using assms(3) by (auto simp: strict_prefix_def prefix_def)
  have "p \<noteq> []" using w by (auto simp: skip_ws_def fuel_for_def)
  then have hd: "hd p = CHR ''{''" using assms(2) q(1) by simp
  then have "skip_ws p = p" using \<open>p \<noteq> []\<close> by (cases p) (simp_all add: skip_ws_hd)
  then have "parse_value fread (fuel_for t) p = Some (w, r)"
    using w parse_fuel [of p "fuel_for t" fread] q(1) by (simp add: fuel_for_def)
  moreover obtain m where m: "fuel_for t = Suc m" by (simp add: fuel_for_def)
  ultimately have "parse_value fread (fuel_for t) t = Some (w, r @ q)"
    using value_extends [of fread m p w r q] parse_extends [of fread m] hd q(1) by (simp del: parse_value.simps)
  moreover have "parse_value fread (fuel_for t) (t @ []) = Some (v, [])"
    using assms(1) by (rule reads_asD) (simp_all add: delim_def fuel_for_def)
  ultimately show False using q(2) by simp
qed

end
