(* ===== verification/Story_Admission.thy ===== *)
theory Story_Admission
  imports Governor Story_Footprint Json_Prefix
begin

section \<open>Admission of stories\<close>

text \<open>
  Models \<open>verdict/orchestration/ready_gate.py\<close>, \<open>verdict/orchestration/supervisor_admission.py\<close> and the metadata of
  \<open>scripts/prime_supervisor.py\<close>: the three gates a story passes before it runs beside others, and the lock files through
  which supervisors see each other's stories. The text of a lock file is JSON; printing and reading floats are
  the parameters \<open>frepr\<close> and \<open>fread\<close>. Reason texts are constructors that carry what the texts show.
\<close>

subsection \<open>Readiness\<close>

datatype ready_verdict = READY | EXCLUDED | WAIT

text \<open>The three answers are the JSON values of the checkpoint, of which only \<open>true\<close> and \<open>null\<close> are told apart.\<close>

record dep_evidence =
  de_identifier :: string
  de_linear_done :: json
  de_merge_commit_on_main :: json
  de_verification_record_present :: json

definition main_verified :: "dep_evidence \<Rightarrow> bool" where
  "main_verified d \<longleftrightarrow> de_merge_commit_on_main d = JBool True \<and> de_verification_record_present d = JBool True"

datatype wait_reason = DoneNotVerified string | UnknownEvidence string | NotVerified string

datatype ready_reason = ManualLabel | NoDependencies | Waiting "wait_reason list" | AllVerified

definition wait_of :: "dep_evidence \<Rightarrow> wait_reason option" where
  "wait_of d =
     (if main_verified d then None
      else if de_linear_done d = JBool True then Some (DoneNotVerified (de_identifier d))
      else if de_merge_commit_on_main d = JNull \<or> de_verification_record_present d = JNull then Some (UnknownEvidence (de_identifier d))
      else Some (NotVerified (de_identifier d)))"

definition ready_decision :: "string list \<Rightarrow> dep_evidence list \<Rightarrow> ready_verdict \<times> ready_reason" where
  "ready_decision labels deps =
     (if ''automation:manual'' \<in> set labels then (EXCLUDED, ManualLabel)
      else if deps = [] then (READY, NoDependencies)
      else
        let waiting = List.map_filter wait_of deps in
        if waiting \<noteq> [] then (WAIT, Waiting waiting) else (READY, AllVerified))"


subsection \<open>The pipeline\<close>

record governor_config =
  cf_max_stories :: int
  cf_max_coding_workers :: int
  cf_max_integration_slots :: int

definition DEFAULT_CONFIG :: governor_config where
  "DEFAULT_CONFIG = \<lparr> cf_max_stories = 2, cf_max_coding_workers = 2, cf_max_integration_slots = 1 \<rparr>"

record running_story =
  ru_story_id :: string
  ru_footprint :: story_footprint

datatype admission_reason = NotReady ready_reason | CollidesWith string collision_reason | Governed gov_reason

record admission_decision =
  ad_admit :: bool
  ad_reason_code :: string
  ad_reason :: admission_reason

definition refuse :: "string \<Rightarrow> admission_reason \<Rightarrow> admission_decision" where
  "refuse code reason = \<lparr> ad_admit = False, ad_reason_code = code, ad_reason = reason \<rparr>"

definition decision_code :: "gov_decision \<Rightarrow> string" where
  "decision_code d = (case d of ADMIT \<Rightarrow> ''ADMIT'' | DEFER \<Rightarrow> ''DEFER'' | SERIALIZE \<Rightarrow> ''SERIALIZE'')"

definition govern ::
  "(rat \<Rightarrow> rat) \<Rightarrow> governor_config \<Rightarrow> string \<Rightarrow> running_story list \<Rightarrow> resource_pressure \<Rightarrow> admission_decision" where
  "govern rnd cfg story_id running pressure =
     (let caps = GovernorCaps (cf_max_stories cfg) (cf_max_coding_workers cfg) (cf_max_integration_slots cfg);
          state = \<lparr> rs_running_stories = int (length running), rs_running_coding_workers = int (length running),
                    rs_running_integration_slots = 0, rs_story_is_already_running = list_ex (\<lambda>ru. ru_story_id ru = story_id) running,
                    rs_pool_healthy_capacity = [] \<rparr>;
          request = \<lparr> ar_story_id = story_id, ar_needs_coding_worker = True, ar_needs_integration_slot = False, ar_provider_pool = [] \<rparr>
      in case admit rnd caps request state (Some pressure) of
           (ADMIT, reason) \<Rightarrow> \<lparr> ad_admit = True, ad_reason_code = ''ADMIT'', ad_reason = Governed reason \<rparr>
         | (d, reason) \<Rightarrow> refuse (decision_code d) (Governed reason))"

definition first_collision :: "story_footprint \<Rightarrow> running_story list \<Rightarrow> running_story option" where
  "first_collision footprint running = List.find (\<lambda>ru. fst (collide footprint (ru_footprint ru)) = SERIALIZED) running"

definition evaluate_admission ::
  "(rat \<Rightarrow> rat) \<Rightarrow> governor_config option \<Rightarrow> string \<Rightarrow> string list \<Rightarrow> dep_evidence list \<Rightarrow> story_footprint
     \<Rightarrow> running_story list \<Rightarrow> resource_pressure option \<Rightarrow> admission_decision" where
  "evaluate_admission rnd config story_id labels deps footprint running pressure =
     (let cfg = (case config of None \<Rightarrow> DEFAULT_CONFIG | Some c \<Rightarrow> c);
          p = (case pressure of None \<Rightarrow> no_pressure | Some q \<Rightarrow> q) in
      case ready_decision labels deps of
        (EXCLUDED, reason) \<Rightarrow> refuse ''EXCLUDED'' (NotReady reason)
      | (WAIT, reason) \<Rightarrow> refuse ''WAIT'' (NotReady reason)
      | (READY, _) \<Rightarrow>
          (case first_collision footprint running of
             Some ru \<Rightarrow> refuse ''SERIALIZE'' (CollidesWith (ru_story_id ru) (snd (collide footprint (ru_footprint ru))))
           | None \<Rightarrow> govern rnd cfg story_id running p))"


subsection \<open>The metadata of a story\<close>

definition multi_story_enabled :: "string \<Rightarrow> bool" where
  "multi_story_enabled raw \<longleftrightarrow> py_lower (py_strip raw) = ''on''"

definition story_char :: "char \<Rightarrow> bool" where
  "story_char c \<longleftrightarrow> is_digit c \<or> is_letter c \<or> c \<in> set ''._-''"

definition safe_story_id :: "string \<Rightarrow> bool" where
  "safe_story_id s \<longleftrightarrow>
     s \<noteq> [] \<and> length s \<le> 64 \<and> (is_digit (hd s) \<or> is_letter (hd s)) \<and> list_all story_char s \<and> \<not> contains_sub ''..'' s"

datatype checkpoint_file = NoCheckpoint | BadCheckpoint | Checkpoint json

record story_meta =
  sm_story_id :: string
  sm_labels :: "string list"
  sm_deps :: "dep_evidence list"
  sm_write_paths :: "string list"
  sm_authorities :: "string list"

datatype meta_error = CheckpointNotAnObject | IssueMismatch string string

definition texts_at :: "(rat \<Rightarrow> string) \<Rightarrow> obj \<Rightarrow> string \<Rightarrow> string list" where
  "texts_at frepr cp key = (case get cp key of JList xs \<Rightarrow> map (py_str frepr) (filter truthy xs) | _ \<Rightarrow> [])"

definition dep_of :: "(rat \<Rightarrow> string) \<Rightarrow> json \<Rightarrow> dep_evidence option" where
  "dep_of frepr j =
     (case j of
        JObj d \<Rightarrow>
          if truthy (get d ''identifier'')
          then Some \<lparr> de_identifier = py_str frepr (get d ''identifier''), de_linear_done = get d ''linear_done'',
                      de_merge_commit_on_main = get d ''merge_commit_on_main'',
                      de_verification_record_present = get d ''verification_record_present'' \<rparr>
          else None
      | _ \<Rightarrow> None)"

definition checkpoint_of :: "checkpoint_file \<Rightarrow> meta_error + obj" where
  "checkpoint_of file =
     (case file of
        NoCheckpoint \<Rightarrow> Inr [] | BadCheckpoint \<Rightarrow> Inr [] | Checkpoint (JObj d) \<Rightarrow> Inr d | Checkpoint _ \<Rightarrow> Inl CheckpointNotAnObject)"

definition story_name :: "(rat \<Rightarrow> string) \<Rightarrow> string \<Rightarrow> string option \<Rightarrow> obj \<Rightarrow> meta_error + string" where
  "story_name frepr dirname override cp =
     (let given = (case override of Some s \<Rightarrow> s | None \<Rightarrow> []);
          issue = py_str frepr (get cp ''issue'') in
      if truthy (get cp ''issue'') then
        if override \<noteq> None \<and> issue \<noteq> the override then Inl (IssueMismatch (the override) issue)
        else Inr (if given \<noteq> [] then given else issue)
      else Inr (if given \<noteq> [] then given else ''supervisor-'' @ dirname))"

definition read_story_metadata ::
  "(rat \<Rightarrow> string) \<Rightarrow> string \<Rightarrow> string option \<Rightarrow> checkpoint_file \<Rightarrow> meta_error + story_meta" where
  "read_story_metadata frepr dirname override file =
     bind_res (checkpoint_of file) (\<lambda>cp.
     bind_res (story_name frepr dirname override cp) (\<lambda>sid.
     Inr \<lparr> sm_story_id = sid, sm_labels = texts_at frepr cp ''labels'',
           sm_deps = (case get cp ''deps'' of JList ds \<Rightarrow> List.map_filter (dep_of frepr) ds | _ \<Rightarrow> []),
           sm_write_paths = texts_at frepr cp ''write_paths'', sm_authorities = texts_at frepr cp ''authorities'' \<rparr>))"

definition footprint_of :: "story_meta \<Rightarrow> story_footprint" where
  "footprint_of m = \<lparr> fp_story_id = sm_story_id m, fp_write_paths = sm_write_paths m, fp_authorities = sm_authorities m \<rparr>"


subsection \<open>Lock files\<close>

definition story_lock_name :: "string \<Rightarrow> string" where
  "story_lock_name story_id = map (\<lambda>c. if c = CHR ''/'' \<or> c = CHR 0x5C \<or> c = CHR 0x00 then CHR ''_'' else c) story_id @ ''.lock''"

definition stem_of :: "string \<Rightarrow> string" where
  "stem_of name = take (length name - 5) name"

text \<open>\<open>json.dumps\<close> with its usual separators and without \<open>sort_keys\<close>.\<close>

definition spaced_style :: json_style where
  "spaced_style = \<lparr> js_item = '', '', js_key = '': '', js_ascii = True \<rparr>"

definition dump_members :: "(rat \<Rightarrow> string) \<Rightarrow> obj \<Rightarrow> string" where
  "dump_members frepr d =
     ''{'' @ py_join (js_item spaced_style)
       (map (\<lambda>kt. dump_str True (fst kt) @ js_key spaced_style @ snd kt) (map (map_prod id (dumps frepr spaced_style)) d)) @ ''}''"

definition metadata_members :: "story_meta \<Rightarrow> int \<Rightarrow> rat \<Rightarrow> obj" where
  "metadata_members m pid now =
     [(''story_id'', JStr (sm_story_id m)), (''write_paths'', strings (sorted_set (sm_write_paths m))),
      (''authorities'', strings (sorted_set (sm_authorities m))), (''labels'', strings (sorted_set (sm_labels m))),
      (''pid'', JInt pid), (''acquired_at'', JNum now)]"

definition metadata_text :: "(rat \<Rightarrow> string) \<Rightarrow> story_meta \<Rightarrow> int \<Rightarrow> rat \<Rightarrow> string" where
  "metadata_text frepr m pid now = dump_members frepr (metadata_members m pid now)"

text \<open>The elements \<open>for x in value or []\<close> runs over, as strings.\<close>

definition iterated :: "(rat \<Rightarrow> string) \<Rightarrow> json \<Rightarrow> string list option" where
  "iterated frepr j =
     (if \<not> truthy j then Some []
      else case j of JList xs \<Rightarrow> Some (map (py_str frepr) xs) | JStr s \<Rightarrow> Some (map (\<lambda>c. [c]) s) | JObj d \<Rightarrow> Some (map fst d) | _ \<Rightarrow> None)"

definition unknown_story :: "string \<Rightarrow> running_story" where
  "unknown_story sid = \<lparr> ru_story_id = sid, ru_footprint = \<lparr> fp_story_id = sid, fp_write_paths = [], fp_authorities = [] \<rparr> \<rparr>"

text \<open>\<open>os.read(fd, 65536)\<close>: the first 65536 bytes.\<close>

definition os_read :: "string \<Rightarrow> string" where
  "os_read text = (if int (length text) \<le> 65536 then text else take 65536 text)"

text \<open>What a held lock file says, \<open>None\<close> where reading it raises.\<close>

definition read_running_story :: "(rat \<Rightarrow> string) \<Rightarrow> (string \<Rightarrow> rat) \<Rightarrow> string \<Rightarrow> string \<Rightarrow> running_story option" where
  "read_running_story frepr fread name text =
     (let raw = os_read text in
      if raw = [] then Some (unknown_story (stem_of name))
      else
        (case loads fread raw of
           None \<Rightarrow> Some (unknown_story (stem_of name))
         | Some (JObj d) \<Rightarrow>
             (let sid = py_str frepr (get_default d ''story_id'' (JStr (stem_of name))) in
              case (iterated frepr (get d ''write_paths''), iterated frepr (get d ''authorities'')) of
                (Some wp, Some au) \<Rightarrow>
                  Some \<lparr> ru_story_id = sid, ru_footprint = \<lparr> fp_story_id = sid, fp_write_paths = wp, fp_authorities = au \<rparr> \<rparr>
              | _ \<Rightarrow> None)
         | Some _ \<Rightarrow> None))"


section \<open>Lemmas\<close>

lemma evaluate_admits:
  assumes "ad_admit (evaluate_admission rnd None sid labels deps fp running None)"
  shows "\<forall>ru\<in>set running. fst (collide fp (ru_footprint ru)) = PARALLEL"
    and "length running < 2 \<or> (\<exists>ru\<in>set running. ru_story_id ru = sid)"
proof -
  have parts: "first_collision fp running = None" "ad_admit (govern rnd DEFAULT_CONFIG sid running no_pressure)"
    using assms by (auto simp: evaluate_admission_def Let_def refuse_def split: prod.splits ready_verdict.splits option.splits)
  show "\<forall>ru\<in>set running. fst (collide fp (ru_footprint ru)) = PARALLEL"
    using parts(1) collision_verdict.exhaust by (auto simp: first_collision_def find_None_iff)
  have "effective_cap rnd 2 p \<le> 2" for p using effective_cap_bounds [of 2 rnd p] by simp
  then have "\<not> int (length running) \<ge> effective_cap rnd 2 p \<Longrightarrow> length running < 2" for p
    by (metis leI nat_int of_nat_le_iff of_nat_numeral order_trans)
  then show "length running < 2 \<or> (\<exists>ru\<in>set running. ru_story_id ru = sid)"
    using parts(2)
    by (auto simp: govern_def admit_def refuse_def DEFAULT_CONFIG_def GovernorCaps_def Let_def list_ex_iff split: if_splits)
qed

lemma safe_lock_name: "safe_story_id s \<Longrightarrow> story_lock_name s = s @ ''.lock''"
proof -
  assume "safe_story_id s"
  moreover have "\<not> story_char (CHR ''/'')" "\<not> story_char (CHR 0x5C)" "\<not> story_char (CHR 0x00)" by code_simp+
  ultimately have "map (\<lambda>c. if c = CHR ''/'' \<or> c = CHR 0x5C \<or> c = CHR 0x00 then CHR ''_'' else c) s = s"
    by (intro map_idI) (auto simp: safe_story_id_def list_all_iff)
  then show ?thesis by (simp add: story_lock_name_def)
qed

lemma stem_lock_name: "safe_story_id s \<Longrightarrow> stem_of (story_lock_name s) = s"
  by (simp add: safe_lock_name stem_of_def)

lemma metadata_reads:
  assumes "readable frepr fread now"
  shows "reads_as fread (metadata_text frepr m pid now) (JObj (metadata_members m pid now))"
proof -
  have st: "style_ok spaced_style" by (simp add: style_ok_def spaced_style_def is_ws_def)
  let ?d = "metadata_members m pid now"
  have "canon (strings ss) = strings ss" for ss by (simp add: strings_def)
  then have "map (map_prod id canon) ?d = ?d" by (simp add: metadata_members_def)
  moreover have "json_ok frepr fread (strings ss)" for ss by (simp add: strings_def list_all_iff)
  then have "\<And>kv. kv \<in> set ?d \<Longrightarrow> json_ok frepr fread (snd kv)" using assms by (auto simp: metadata_members_def)
  then have "list_all2 (\<lambda>kt kv. fst kt = fst kv \<and> reads_as fread (snd kt) (snd kv))
      (map (map_prod id (dumps frepr spaced_style)) ?d) (map (map_prod id canon) ?d)"
    unfolding list_all2_map1 list_all2_map2 by (intro list.rel_refl_strong) (simp add: dumps_reads [OF st])
  moreover have "dict_wf ?d" by (simp add: dict_wf_def metadata_members_def)
  ultimately show ?thesis
    unfolding metadata_text_def dump_members_def by (intro reads_obj [OF st]) (simp_all only:)
qed

lemma iterated_strings: "iterated frepr (strings ss) = Some ss"
  by (auto simp: iterated_def strings_def py_str_def comp_def)

text \<open>Whatever part of a story's metadata a reader sees, it learns the story's name, and its footprint exactly or not at all.\<close>

lemma read_part:
  assumes "readable frepr fread now" "safe_story_id (sm_story_id m)"
  obtains ru where "read_running_story frepr fread (story_lock_name (sm_story_id m)) (take n (metadata_text frepr m pid now)) = Some ru"
    "ru_story_id ru = sm_story_id m"
    "fp_write_paths (ru_footprint ru) = [] \<or>
      set (fp_write_paths (ru_footprint ru)) = set (sm_write_paths m) \<and> set (fp_authorities (ru_footprint ru)) = set (sm_authorities m)"
proof -
  let ?t = "metadata_text frepr m pid now"
  let ?raw = "os_read (take n ?t)"
  note reads = metadata_reads [OF assms(1), of m pid]
  have hd: "hd ?t = CHR ''{''" by (simp add: metadata_text_def dump_members_def)
  have pre: "prefix ?raw ?t" by (simp add: os_read_def take_is_prefix)
  show thesis
  proof (cases "?raw = ?t")
    case False
    then have "loads fread ?raw = None" using unfinished_object [OF reads hd] pre by (simp add: strict_prefix_def)
    then show thesis
      using that [of "unknown_story (sm_story_id m)"] by (simp add: read_running_story_def unknown_story_def stem_lock_name [OF assms(2)] Let_def)
  next
    case True
    let ?d = "metadata_members m pid now"
    let ?ru = "\<lparr> ru_story_id = sm_story_id m, ru_footprint = \<lparr> fp_story_id = sm_story_id m,
      fp_write_paths = sorted_set (sm_write_paths m), fp_authorities = sorted_set (sm_authorities m) \<rparr> \<rparr>"
    have "loads fread ?t = Some (JObj ?d)" by (rule loads_reads [OF reads])
    moreover have "?t \<noteq> []" by (simp add: metadata_text_def dump_members_def)
    moreover have "py_str frepr (get_default ?d ''story_id'' x) = sm_story_id m"
      "iterated frepr (get ?d ''write_paths'') = Some (sorted_set (sm_write_paths m))"
      "iterated frepr (get ?d ''authorities'') = Some (sorted_set (sm_authorities m))" for x
      by (simp_all add: metadata_members_def get_def get_default_def iterated_strings py_str_def)
    ultimately have "read_running_story frepr fread name (take n ?t) = Some ?ru" for name
      unfolding read_running_story_def True Let_def by simp
    then show thesis by (rule that) simp_all
  qed
qed

end
