(* ===== verification/Story_Supervisor.thy ===== *)
theory Story_Supervisor
  imports Story_Admission
begin

section \<open>Supervisors of several stories\<close>

text \<open>
  Models the multi-story part of \<open>main\<close> and \<open>_check_admission\<close> in \<open>scripts/prime_supervisor.py\<close>: any number of supervisor
  processes over one state directory. A process takes \<open>supervisor.lock\<close>, reads the lock files of the running stories one
  after the other, decides, takes the lock of its story, writes its metadata, gives \<open>supervisor.lock\<close> back and runs the story.
  At every point it may end or die, which releases what it holds, while others go on. A write may store only a
  part of the text. Lock files stay behind when their story ends.
\<close>

subsection \<open>Processes\<close>

record lock_file =
  lf_text :: string
  lf_holder :: "nat option"

datatype phase =
    Idle
  | Reading story_meta "string list" "running_story list"
  | Admitted story_meta "running_story list"
  | Locked story_meta
  | Written story_meta
  | Running story_meta

record supervisors =
  sv_lock :: "nat option"
  sv_files :: "(string, lock_file) dict"
  sv_phase :: "nat \<Rightarrow> phase"

definition set_phase :: "nat \<Rightarrow> phase \<Rightarrow> supervisors \<Rightarrow> supervisors" where
  "set_phase p ph sv = sv\<lparr> sv_phase := (sv_phase sv)(p := ph) \<rparr>"

text \<open>The end of a process, whether it returns, raises or dies: the operating system releases its locks.\<close>

definition leave :: "nat \<Rightarrow> supervisors \<Rightarrow> supervisors" where
  "leave p sv =
     sv\<lparr> sv_lock := (if sv_lock sv = Some p then None else sv_lock sv),
         sv_files := map_vals (\<lambda>lf. if lf_holder lf = Some p then lf\<lparr> lf_holder := None \<rparr> else lf) (sv_files sv),
         sv_phase := (sv_phase sv)(p := Idle) \<rparr>"

datatype sv_op =
    Start nat string checkpoint_file
  | ReadNext nat
  | Decide nat
  | TakeLock nat
  | WriteMeta nat nat int rat
  | Go nat
  | Leave nat

text \<open>\<open>main\<close> up to the admission: a valid \<open>--story\<close>, the lock, the checkpoint and the list of lock files.\<close>

definition start_check :: "(rat \<Rightarrow> string) \<Rightarrow> nat \<Rightarrow> string \<Rightarrow> checkpoint_file \<Rightarrow> supervisors \<Rightarrow> supervisors option" where
  "start_check frepr p story file sv =
     (if sv_phase sv p \<noteq> Idle \<or> sv_lock sv \<noteq> None \<or> \<not> safe_story_id story then None
      else case read_story_metadata frepr [] (Some story) file of
             Inl _ \<Rightarrow> None
           | Inr m \<Rightarrow> Some (set_phase p (Reading m (sorted_set (map fst (sv_files sv))) []) (sv\<lparr> sv_lock := Some p \<rparr>)))"

definition read_next :: "(rat \<Rightarrow> string) \<Rightarrow> (string \<Rightarrow> rat) \<Rightarrow> nat \<Rightarrow> supervisors \<Rightarrow> supervisors option" where
  "read_next frepr fread p sv =
     (case sv_phase sv p of
        Reading m (f # todo) seen \<Rightarrow>
          (case map_of (sv_files sv) f of
             None \<Rightarrow> Some (set_phase p (Reading m todo seen) sv)
           | Some lf \<Rightarrow>
               if lf_holder lf = None then Some (set_phase p (Reading m todo seen) sv)
               else (case read_running_story frepr fread f (lf_text lf) of
                       None \<Rightarrow> Some (leave p sv)
                     | Some ru \<Rightarrow> Some (set_phase p (Reading m todo (seen @ [ru])) sv)))
      | _ \<Rightarrow> None)"

definition decide_admission :: "(rat \<Rightarrow> rat) \<Rightarrow> nat \<Rightarrow> supervisors \<Rightarrow> supervisors option" where
  "decide_admission rnd p sv =
     (case sv_phase sv p of
        Reading m [] seen \<Rightarrow>
          if ad_admit (evaluate_admission rnd None (sm_story_id m) (sm_labels m) (sm_deps m) (footprint_of m) seen None)
          then Some (set_phase p (Admitted m seen) sv)
          else Some (leave p sv)
      | _ \<Rightarrow> None)"

definition take_story_lock :: "nat \<Rightarrow> supervisors \<Rightarrow> supervisors option" where
  "take_story_lock p sv =
     (case sv_phase sv p of
        Admitted m seen \<Rightarrow>
          (let f = story_lock_name (sm_story_id m) in
           case map_of (sv_files sv) f of
             None \<Rightarrow> Some (set_phase p (Locked m) (sv\<lparr> sv_files := dict_put f \<lparr> lf_text = [], lf_holder = Some p \<rparr> (sv_files sv) \<rparr>))
           | Some lf \<Rightarrow>
               if lf_holder lf \<noteq> None then Some (leave p sv)
               else Some (set_phase p (Locked m) (sv\<lparr> sv_files := dict_put f (lf\<lparr> lf_holder := Some p \<rparr>) (sv_files sv) \<rparr>)))
      | _ \<Rightarrow> None)"

definition write_story_metadata ::
  "(rat \<Rightarrow> string) \<Rightarrow> (string \<Rightarrow> rat) \<Rightarrow> nat \<Rightarrow> nat \<Rightarrow> int \<Rightarrow> rat \<Rightarrow> supervisors \<Rightarrow> supervisors option" where
  "write_story_metadata frepr fread p n pid now sv =
     (case sv_phase sv p of
        Locked m \<Rightarrow>
          if readable frepr fread now
          then Some (set_phase p (Written m)
                 (sv\<lparr> sv_files := dict_put (story_lock_name (sm_story_id m))
                        \<lparr> lf_text = take n (metadata_text frepr m pid now), lf_holder = Some p \<rparr> (sv_files sv) \<rparr>))
          else None
      | _ \<Rightarrow> None)"

definition go :: "nat \<Rightarrow> supervisors \<Rightarrow> supervisors option" where
  "go p sv = (case sv_phase sv p of Written m \<Rightarrow> Some (set_phase p (Running m) (sv\<lparr> sv_lock := None \<rparr>)) | _ \<Rightarrow> None)"

definition sv_apply :: "(rat \<Rightarrow> string) \<Rightarrow> (string \<Rightarrow> rat) \<Rightarrow> (rat \<Rightarrow> rat) \<Rightarrow> sv_op \<Rightarrow> supervisors \<Rightarrow> supervisors option" where
  "sv_apply frepr fread rnd act_op sv =
     (case act_op of
        Start p story file \<Rightarrow> start_check frepr p story file sv
      | ReadNext p \<Rightarrow> read_next frepr fread p sv
      | Decide p \<Rightarrow> decide_admission rnd p sv
      | TakeLock p \<Rightarrow> take_story_lock p sv
      | WriteMeta p n pid now \<Rightarrow> write_story_metadata frepr fread p n pid now sv
      | Go p \<Rightarrow> go p sv
      | Leave p \<Rightarrow> Some (leave p sv))"

inductive sv_reachable :: "(rat \<Rightarrow> string) \<Rightarrow> (string \<Rightarrow> rat) \<Rightarrow> (rat \<Rightarrow> rat) \<Rightarrow> supervisors \<Rightarrow> bool" for frepr fread rnd where
  sv_initial: "\<lbrakk>\<forall>f lf. map_of files f = Some lf \<longrightarrow> lf_holder lf = None\<rbrakk> \<Longrightarrow>
    sv_reachable frepr fread rnd \<lparr> sv_lock = None, sv_files = files, sv_phase = (\<lambda>_. Idle) \<rparr>"
| sv_step: "\<lbrakk>sv_reachable frepr fread rnd sv; sv_apply frepr fread rnd act_op sv = Some sv'\<rbrakk> \<Longrightarrow> sv_reachable frepr fread rnd sv'"


section \<open>The invariant\<close>

fun story_of :: "phase \<Rightarrow> story_meta option" where
  "story_of (Locked m) = Some m"
| "story_of (Written m) = Some m"
| "story_of (Running m) = Some m"
| "story_of _ = None"

fun admitting :: "phase \<Rightarrow> bool" where
  "admitting Idle \<longleftrightarrow> False"
| "admitting (Running m) \<longleftrightarrow> False"
| "admitting _ \<longleftrightarrow> True"

abbreviation active :: "supervisors \<Rightarrow> nat \<Rightarrow> story_meta option" where
  "active sv p \<equiv> story_of (sv_phase sv p)"

abbreviation lock_name :: "story_meta \<Rightarrow> string" where
  "lock_name m \<equiv> story_lock_name (sm_story_id m)"

definition written :: "(rat \<Rightarrow> string) \<Rightarrow> (string \<Rightarrow> rat) \<Rightarrow> story_meta \<Rightarrow> string \<Rightarrow> bool" where
  "written frepr fread m text \<longleftrightarrow> (\<exists>n pid now. readable frepr fread now \<and> text = take n (metadata_text frepr m pid now))"

text \<open>A reader has seen a story: its name, and its footprint or that it is unknown.\<close>

definition sees :: "running_story list \<Rightarrow> story_meta \<Rightarrow> bool" where
  "sees seen m \<longleftrightarrow> (\<exists>ru\<in>set seen. ru_story_id ru = sm_story_id m \<and>
     (fp_write_paths (ru_footprint ru) = [] \<or>
      set (fp_write_paths (ru_footprint ru)) = set (sm_write_paths m) \<and> set (fp_authorities (ru_footprint ru)) = set (sm_authorities m)))"

definition clear_of :: "story_meta \<Rightarrow> running_story list \<Rightarrow> bool" where
  "clear_of m seen \<longleftrightarrow> (\<forall>ru\<in>set seen. fst (collide (footprint_of m) (ru_footprint ru)) = PARALLEL) \<and>
     (length seen < 2 \<or> (\<exists>ru\<in>set seen. ru_story_id ru = sm_story_id m))"

definition pending :: "supervisors \<Rightarrow> string list \<Rightarrow> nat set" where
  "pending sv todo = {q. \<exists>m. active sv q = Some m \<and> lock_name m \<in> set todo}"

definition watches :: "supervisors \<Rightarrow> phase \<Rightarrow> bool" where
  "watches sv ph \<longleftrightarrow>
     (case ph of
        Reading m todo seen \<Rightarrow>
          safe_story_id (sm_story_id m) \<and> distinct todo \<and> length seen + card (pending sv todo) \<le> 2 \<and>
          (\<forall>q m'. active sv q = Some m' \<longrightarrow> lock_name m' \<in> set todo \<or> sees seen m')
      | Admitted m seen \<Rightarrow>
          safe_story_id (sm_story_id m) \<and> length seen \<le> 2 \<and> clear_of m seen \<and> (\<forall>q m'. active sv q = Some m' \<longrightarrow> sees seen m')
      | _ \<Rightarrow> True)"

definition actives :: "supervisors \<Rightarrow> nat set" where
  "actives sv = {p. active sv p \<noteq> None}"

definition locks_ok :: "supervisors \<Rightarrow> bool" where
  "locks_ok sv \<longleftrightarrow> (\<forall>p. admitting (sv_phase sv p) \<longleftrightarrow> sv_lock sv = Some p)"

definition held :: "(rat \<Rightarrow> string) \<Rightarrow> (string \<Rightarrow> rat) \<Rightarrow> supervisors \<Rightarrow> bool" where
  "held frepr fread sv \<longleftrightarrow> (\<forall>p m. active sv p = Some m \<longrightarrow> safe_story_id (sm_story_id m) \<and>
     (\<exists>lf. map_of (sv_files sv) (lock_name m) = Some lf \<and> lf_holder lf = Some p \<and>
        (sv_phase sv p \<noteq> Locked m \<longrightarrow> written frepr fread m (lf_text lf))))"

definition holders :: "supervisors \<Rightarrow> bool" where
  "holders sv \<longleftrightarrow> (\<forall>f lf p. map_of (sv_files sv) f = Some lf \<longrightarrow> lf_holder lf = Some p \<longrightarrow>
     (\<exists>m. active sv p = Some m \<and> f = lock_name m))"

definition apart :: "supervisors \<Rightarrow> bool" where
  "apart sv \<longleftrightarrow> (\<forall>p q m m'. p \<noteq> q \<longrightarrow> active sv p = Some m \<longrightarrow> active sv q = Some m' \<longrightarrow>
     fst (collide (footprint_of m) (footprint_of m')) = PARALLEL)"

definition few :: "supervisors \<Rightarrow> bool" where
  "few sv \<longleftrightarrow> finite (actives sv) \<and> card (actives sv) \<le> 2"

definition sv_inv :: "(rat \<Rightarrow> string) \<Rightarrow> (string \<Rightarrow> rat) \<Rightarrow> supervisors \<Rightarrow> bool" where
  "sv_inv frepr fread sv \<longleftrightarrow>
     locks_ok sv \<and> held frepr fread sv \<and> holders sv \<and> apart sv \<and> few sv \<and> (\<forall>p. watches sv (sv_phase sv p))"

section \<open>Every step keeps it\<close>

lemma inv_watches: "sv_inv frepr fread sv \<Longrightarrow> sv_phase sv p = ph \<Longrightarrow> watches sv ph"
  by (auto simp: sv_inv_def)

lemma idle_watches: "\<not> admitting ph \<Longrightarrow> watches sv ph"
  by (cases ph) (simp_all add: watches_def)

lemma sees_more: "sees seen m \<Longrightarrow> set seen \<subseteq> set seen' \<Longrightarrow> sees seen' m"
  unfolding sees_def by blast

lemma others_not_admitting: "locks_ok sv \<Longrightarrow> sv_lock sv = Some p \<Longrightarrow> q \<noteq> p \<Longrightarrow> \<not> admitting (sv_phase sv q)"
  by (auto simp: locks_ok_def)

lemma finite_pending: "few sv \<Longrightarrow> finite (pending sv todo)"
  unfolding few_def pending_def actives_def by (elim conjE, erule rev_finite_subset) auto

lemma card_pending: "few sv \<Longrightarrow> card (pending sv todo) \<le> 2"
proof -
  assume f: "few sv"
  have "pending sv todo \<subseteq> actives sv" by (auto simp: pending_def actives_def)
  then show ?thesis using f card_mono [of "actives sv" "pending sv todo"] by (simp add: few_def)
qed

lemma watches_fewer:
  assumes "watches sv ph" "few sv" "\<And>q m. active sv' q = Some m \<Longrightarrow> active sv q = Some m"
  shows "watches sv' ph"
proof -
  have "card (pending sv' todo) \<le> card (pending sv todo)" for todo
    by (rule card_mono [OF finite_pending [OF assms(2)]]) (auto simp: pending_def dest: assms(3))
  then show ?thesis using assms(1,3) unfolding watches_def by (cases ph) (fastforce intro: order_trans [OF add_left_mono])+
qed

text \<open>Two active processes hold different files.\<close>

lemma held_distinct:
  assumes "held frepr fread sv" "active sv p = Some m" "active sv q = Some m'" "lock_name m = lock_name m'"
  shows "p = q"
  using assms unfolding held_def by (metis option.inject)

lemma files_leave: "map_of (sv_files (leave p sv)) f =
    map_option (\<lambda>lf. if lf_holder lf = Some p then lf\<lparr> lf_holder := None \<rparr> else lf) (map_of (sv_files sv) f)"
  by (simp add: leave_def map_vals_def map_of_map)

lemma active_leave: "active (leave p sv) q = (if q = p then None else active sv q)"
  by (simp add: leave_def)

lemma inv_leave:
  assumes "sv_inv frepr fread sv"
  shows "sv_inv frepr fread (leave p sv)"
proof -
  let ?sv = "leave p sv"
  have i: "locks_ok sv" "held frepr fread sv" "holders sv" "apart sv" "few sv" "\<And>q. watches sv (sv_phase sv q)"
    using assms by (simp_all add: sv_inv_def)
  have ph: "sv_phase ?sv q = (if q = p then Idle else sv_phase sv q)" for q by (simp add: leave_def)
  have "locks_ok ?sv" using i(1) by (auto simp: locks_ok_def leave_def)
  moreover have "held frepr fread ?sv"
    unfolding held_def files_leave
  proof (intro allI impI)
    fix q m
    assume "active ?sv q = Some m"
    then have q: "q \<noteq> p" "active sv q = Some m" by (auto simp: active_leave split: if_splits)
    then obtain lf where "safe_story_id (sm_story_id m)" "map_of (sv_files sv) (lock_name m) = Some lf" "lf_holder lf = Some q"
      "sv_phase sv q \<noteq> Locked m \<longrightarrow> written frepr fread m (lf_text lf)" using i(2) unfolding held_def by blast
    then show "safe_story_id (sm_story_id m) \<and> (\<exists>lf. map_option (\<lambda>lf. if lf_holder lf = Some p then lf\<lparr> lf_holder := None \<rparr> else lf)
        (map_of (sv_files sv) (lock_name m)) = Some lf \<and> lf_holder lf = Some q \<and>
        (sv_phase ?sv q \<noteq> Locked m \<longrightarrow> written frepr fread m (lf_text lf)))" using q(1) by (simp add: ph)
  qed
  moreover have "holders ?sv"
    unfolding holders_def files_leave
  proof (intro allI impI)
    fix f lf q
    assume a: "map_option (\<lambda>lf. if lf_holder lf = Some p then lf\<lparr> lf_holder := None \<rparr> else lf) (map_of (sv_files sv) f) = Some lf"
      "lf_holder lf = Some q"
    then obtain z where "map_of (sv_files sv) f = Some z" "lf = (if lf_holder z = Some p then z\<lparr> lf_holder := None \<rparr> else z)" by auto
    moreover from this a(2) have "lf = z" "q \<noteq> p" by (cases "lf_holder z = Some p"; simp)+
    ultimately show "\<exists>m. active ?sv q = Some m \<and> f = lock_name m" using i(3) a(2) unfolding holders_def active_leave by simp
  qed
  moreover have "apart ?sv" using i(4) unfolding apart_def active_leave by (auto split: if_splits)
  moreover have "few ?sv"
  proof -
    have "actives ?sv \<subseteq> actives sv" by (auto simp: actives_def active_leave)
    then show ?thesis using i(5) card_mono [of "actives sv" "actives ?sv"] by (auto simp: few_def intro: finite_subset)
  qed
  moreover have "watches ?sv (sv_phase ?sv q)" for q
  proof (cases "q = p")
    case True
    then show ?thesis by (simp add: ph watches_def)
  next
    case False
    have "watches ?sv (sv_phase sv q)" by (rule watches_fewer [OF i(6,5)]) (simp add: active_leave split: if_splits)
    with False show ?thesis by (simp add: ph)
  qed
  ultimately show ?thesis by (simp add: sv_inv_def)
qed

text \<open>A process that only reads or decides changes nothing but its own phase.\<close>

lemma inv_own_phase:
  assumes "sv_inv frepr fread sv" "admitting (sv_phase sv p)" "active sv p = None" "admitting ph" "story_of ph = None" "watches sv ph"
  shows "sv_inv frepr fread (set_phase p ph sv)"
proof -
  let ?sv = "set_phase p ph sv"
  have act: "active ?sv q = active sv q" for q using assms(3,5) by (simp add: set_phase_def)
  have same: "pending ?sv todo = pending sv todo" "actives ?sv = actives sv" "sv_files ?sv = sv_files sv" "sv_lock ?sv = sv_lock sv" for todo
    by (simp_all add: pending_def actives_def act) (simp_all add: set_phase_def)
  have w: "watches ?sv x = watches sv x" for x by (cases x) (simp_all add: watches_def same act)
  have "locks_ok ?sv" using assms(1,2,4) by (auto simp: sv_inv_def locks_ok_def set_phase_def)
  moreover have "held frepr fread ?sv"
    using assms(1,3) unfolding sv_inv_def held_def act same by (auto simp: set_phase_def)
  moreover have "holders ?sv" "apart ?sv" "few ?sv"
    using assms(1) by (simp_all add: sv_inv_def holders_def apart_def few_def act same)
  moreover have "watches ?sv (sv_phase ?sv q)" for q
    unfolding w using assms(1,6) by (simp add: set_phase_def sv_inv_def)
  ultimately show ?thesis by (simp add: sv_inv_def)
qed

lemma inv_start:
  assumes "sv_inv frepr fread sv" "start_check frepr p story file sv = Some sv'"
  shows "sv_inv frepr fread sv'"
proof -
  from assms(2) obtain m where m: "sv_phase sv p = Idle" "sv_lock sv = None" "safe_story_id story"
    "read_story_metadata frepr [] (Some story) file = Inr m"
    "sv' = set_phase p (Reading m (sorted_set (map fst (sv_files sv))) []) (sv\<lparr> sv_lock := Some p \<rparr>)"
    by (auto simp: start_check_def split: if_splits sum.splits)
  have "story \<noteq> []" using m(3) by (simp add: safe_story_id_def)
  then have sid: "sm_story_id m = story"
    using m(4) by (auto simp: read_story_metadata_def story_name_def Let_def bind_res_Inr split: if_splits)
  have i: "locks_ok sv" "held frepr fread sv" "holders sv" "apart sv" "few sv" using assms(1) by (simp_all add: sv_inv_def)
  have idle: "\<not> admitting (sv_phase sv q)" for q using i(1) m(2) by (simp add: locks_ok_def)
  have act: "active sv' q = active sv q" for q using m(1,5) by (simp add: set_phase_def)
  have files: "sv_files sv' = sv_files sv" using m(5) by (simp add: set_phase_def)
  have same: "actives sv' = actives sv" by (simp add: actives_def act)
  have "locks_ok sv'" using idle m(5) by (auto simp: locks_ok_def set_phase_def)
  moreover have "held frepr fread sv'" using i(2) m(1,5) unfolding held_def act files by (auto simp: set_phase_def)
  moreover have few: "few sv'" using i(5) by (simp add: few_def same)
  moreover have "holders sv'" "apart sv'" using i(3,4) by (simp_all add: holders_def apart_def act files)
  moreover have "watches sv' (sv_phase sv' q)" for q
  proof (cases "q = p")
    case True
    have "lock_name m' \<in> fst ` set (sv_files sv)" if "active sv q = Some m'" for q m'
      using i(2) that unfolding held_def by (metis domI dom_map_of_conv_image_fst)
    then show ?thesis
      using True m(3,5) sid card_pending [OF few] by (simp add: set_phase_def watches_def act sorted_set_def)
  next
    case False
    then show ?thesis using m(5) idle [of q] by (simp add: set_phase_def idle_watches)
  qed
  ultimately show ?thesis by (simp add: sv_inv_def)
qed

text \<open>What the reader finds in the next file.\<close>

lemma free_file_unused:
  assumes "held frepr fread sv" "map_of (sv_files sv) f = None \<or> (\<exists>lf. map_of (sv_files sv) f = Some lf \<and> lf_holder lf = None)"
    "active sv q = Some m"
  shows "lock_name m \<noteq> f"
  using assms unfolding held_def by (metis option.distinct(1) option.inject)

lemma skipped_file:
  assumes "watches sv (Reading m (f # todo) seen)" "few sv" "\<And>q m'. active sv q = Some m' \<Longrightarrow> lock_name m' \<noteq> f"
  shows "watches sv (Reading m todo seen)"
proof -
  have "pending sv (f # todo) = pending sv todo" using assms(3) by (auto simp: pending_def)
  then show ?thesis using assms(1,3) by (simp add: watches_def)
qed

lemma read_file:
  assumes "sv_inv frepr fread sv" "sv_phase sv p = Reading m (f # todo) seen" "map_of (sv_files sv) f = Some lf" "lf_holder lf \<noteq> None"
  obtains ru where "read_running_story frepr fread f (lf_text lf) = Some ru" "watches sv (Reading m todo (seen @ [ru]))"
proof -
  have i: "locks_ok sv" "held frepr fread sv" "holders sv" "few sv" "watches sv (Reading m (f # todo) seen)"
    using assms(1) inv_watches [OF assms(1,2)] by (simp_all add: sv_inv_def)
  obtain q m' where q: "lf_holder lf = Some q" "active sv q = Some m'" "f = lock_name m'"
    using i(3) assms(3,4) unfolding holders_def by fastforce
  have "sv_lock sv = Some p" using i(1) assms(2) unfolding locks_ok_def by (metis admitting.simps(3))
  moreover have "q \<noteq> p" using q(2) assms(2) by auto
  ultimately have "sv_phase sv q \<noteq> Locked m'" using others_not_admitting [OF i(1)] by fastforce
  then have "safe_story_id (sm_story_id m')" "written frepr fread m' (lf_text lf)"
    using i(2) q(2,3) assms(3) unfolding held_def by fastforce+
  then obtain n pid now where w: "readable frepr fread now" "safe_story_id (sm_story_id m')" "lf_text lf = take n (metadata_text frepr m' pid now)"
    unfolding written_def by blast
  from read_part [OF w(1,2), of n pid] obtain ru where ru: "read_running_story frepr fread f (lf_text lf) = Some ru" "sees [ru] m'"
    unfolding w(3) q(3) sees_def by (metis list.set_intros(1))
  have new: "q \<notin> pending sv todo" using i(5) q(2,3) by (auto simp: watches_def pending_def)
  have uniq: "q' = q" if "active sv q' = Some m2" "lock_name m2 = f" for q' m2
    using held_distinct [OF i(2) that(1) q(2)] that(2) q(3) by simp
  have "pending sv (f # todo) = insert q (pending sv todo)"
  proof (rule set_eqI)
    fix x
    show "x \<in> pending sv (f # todo) \<longleftrightarrow> x \<in> insert q (pending sv todo)"
      unfolding pending_def mem_Collect_eq insert_iff list.simps(15) using q(2,3) uniq by blast
  qed
  then have "card (pending sv (f # todo)) = Suc (card (pending sv todo))" using new finite_pending [OF i(4)] by simp
  moreover have "lock_name m2 \<in> set todo \<or> sees (seen @ [ru]) m2" if "active sv q' = Some m2" for q' m2
  proof (cases "lock_name m2 = f")
    case True
    then have "m2 = m'" using uniq [OF that] that q(2) by simp
    then show ?thesis using sees_more [OF ru(2), of "seen @ [ru]"] by simp
  next
    case False
    then show ?thesis using i(5) that sees_more [of seen m2 "seen @ [ru]"] by (auto simp: watches_def)
  qed
  ultimately have "watches sv (Reading m todo (seen @ [ru]))" using i(5) by (simp add: watches_def)
  with ru(1) show thesis by (rule that)
qed

lemma inv_read:
  assumes inv: "sv_inv frepr fread sv" and "read_next frepr fread p sv = Some sv'"
  shows "sv_inv frepr fread sv'"
proof -
  from assms(2) obtain m f todo seen where ph: "sv_phase sv p = Reading m (f # todo) seen"
    by (auto simp: read_next_def split: phase.splits list.splits)
  have i: "held frepr fread sv" "few sv" "watches sv (Reading m (f # todo) seen)"
    using inv inv_watches [OF inv ph] by (simp_all add: sv_inv_def)
  have own: "sv_inv frepr fread (set_phase p (Reading m todo seen') sv)" if "watches sv (Reading m todo seen')" for seen'
    using inv ph that by (intro inv_own_phase) simp_all
  show ?thesis
  proof (cases "map_of (sv_files sv) f = None \<or> (\<exists>lf. map_of (sv_files sv) f = Some lf \<and> lf_holder lf = None)")
    case True
    then have "watches sv (Reading m todo seen)" using skipped_file [OF i(3,2)] free_file_unused [OF i(1)] by blast
    then show ?thesis using True assms(2) ph own by (auto simp: read_next_def)
  next
    case False
    then obtain lf where lf: "map_of (sv_files sv) f = Some lf" "lf_holder lf \<noteq> None" by auto
    from read_file [OF inv ph this] obtain ru where
      "read_running_story frepr fread f (lf_text lf) = Some ru" "watches sv (Reading m todo (seen @ [ru]))" .
    then show ?thesis using assms(2) ph lf own by (auto simp: read_next_def)
  qed
qed

lemma inv_decide:
  assumes inv: "sv_inv frepr fread sv" and "decide_admission rnd p sv = Some sv'"
  shows "sv_inv frepr fread sv'"
proof -
  from assms(2) obtain m seen where ph: "sv_phase sv p = Reading m [] seen"
    by (auto simp: decide_admission_def split: phase.splits list.splits)
  let ?ok = "ad_admit (evaluate_admission rnd None (sm_story_id m) (sm_labels m) (sm_deps m) (footprint_of m) seen None)"
  show ?thesis
  proof (cases ?ok)
    case True
    have "watches sv (Reading m [] seen)" by (rule inv_watches [OF inv ph])
    then have "watches sv (Admitted m seen)"
      using evaluate_admits [OF True] by (simp add: watches_def clear_of_def)
    then show ?thesis using assms(2) ph True inv by (auto simp: decide_admission_def intro: inv_own_phase)
  next
    case False
    then show ?thesis using assms(2) ph inv_leave [OF inv] by (auto simp: decide_admission_def)
  qed
qed

text \<open>The moment a story joins: what it was compared with covers every story that runs by now.\<close>

lemma seen_parallel:
  assumes "clear_of m seen" "sees seen m'"
  shows "fst (collide (footprint_of m) (footprint_of m')) = PARALLEL"
proof -
  obtain ru where ru: "ru \<in> set seen" "fp_write_paths (ru_footprint ru) = [] \<or>
      set (fp_write_paths (ru_footprint ru)) = set (sm_write_paths m') \<and> set (fp_authorities (ru_footprint ru)) = set (sm_authorities m')"
    using assms(2) by (auto simp: sees_def)
  have par: "fst (collide (footprint_of m) (ru_footprint ru)) = PARALLEL" using assms(1) ru(1) by (simp add: clear_of_def)
  then have "fp_write_paths (ru_footprint ru) \<noteq> []" unfolding parallel_iff valid_footprint_def is_known_def by blast
  then have "collide (ru_footprint ru) (footprint_of m) = collide (footprint_of m') (footprint_of m)"
    using ru(2) by (intro collide_sets) (simp_all add: footprint_of_def)
  then show ?thesis using par by (simp add: collide_sym [of "footprint_of m"])
qed

lemma room_for_one:
  assumes "held frepr fread sv" "clear_of m seen" "length seen \<le> 2" "\<And>q m'. active sv q = Some m' \<Longrightarrow> sees seen m' \<and> lock_name m' \<noteq> lock_name m"
  shows "card (actives sv) \<le> 1"
proof -
  let ?ids = "ru_story_id ` set seen"
  let ?id = "\<lambda>q. sm_story_id (the (active sv q))"
  have "inj_on ?id (actives sv)"
    by (rule inj_onI) (auto simp: actives_def intro: held_distinct [OF assms(1)])
  moreover have "?id ` actives sv \<subseteq> ?ids - {sm_story_id m}"
  proof
    fix x
    assume "x \<in> ?id ` actives sv"
    then obtain q m' where "active sv q = Some m'" "x = sm_story_id m'" by (auto simp: actives_def)
    then show "x \<in> ?ids - {sm_story_id m}" using assms(4) [of q m'] by (force simp: sees_def)
  qed
  then have "card (?id ` actives sv) \<le> card (?ids - {sm_story_id m})" by (intro card_mono) simp_all
  moreover have "card (?ids - {sm_story_id m}) \<le> 1"
  proof -
    have "card ?ids \<le> length seen" by (metis card_length length_map set_map)
    moreover have "card (?ids - {sm_story_id m}) \<le> card ?ids" by (intro card_mono) auto
    moreover have "card (?ids - {sm_story_id m}) < card ?ids" if "sm_story_id m \<in> ?ids"
      using that by (intro psubset_card_mono) auto
    moreover have "length seen < 2 \<or> sm_story_id m \<in> ?ids" using assms(2) unfolding clear_of_def by force
    ultimately show ?thesis using assms(3) by (elim disjE) linarith+
  qed
  ultimately show ?thesis by (simp add: card_image)
qed

lemma inv_join:
  assumes inv: "sv_inv frepr fread sv" and ph: "sv_phase sv p = Admitted m seen"
    and free: "map_of (sv_files sv) (lock_name m) = None \<or> (\<exists>lf. map_of (sv_files sv) (lock_name m) = Some lf \<and> lf_holder lf = None)"
    and lf: "lf_holder lf = Some p"
  shows "sv_inv frepr fread (set_phase p (Locked m) (sv\<lparr> sv_files := dict_put (lock_name m) lf (sv_files sv) \<rparr>))" (is "sv_inv _ _ ?sv")
proof -
  have i: "locks_ok sv" "held frepr fread sv" "holders sv" "apart sv" "few sv" "watches sv (Admitted m seen)"
    using inv inv_watches [OF inv ph] by (simp_all add: sv_inv_def)
  have lock: "sv_lock sv = Some p" using i(1) ph unfolding locks_ok_def by (metis admitting.simps(4))
  have act: "active ?sv q = (if q = p then Some m else active sv q)" for q by (simp add: set_phase_def)
  have files: "map_of (sv_files ?sv) f = (if f = lock_name m then Some lf else map_of (sv_files sv) f)" for f by (simp add: set_phase_def)
  have other: "sees seen m' \<and> lock_name m' \<noteq> lock_name m" if "active sv q = Some m'" for q m'
    using i(6) that free_file_unused [OF i(2) free that] by (simp add: watches_def)
  have none: "active sv p = None" using ph by simp
  have "locks_ok ?sv" using i(1) ph unfolding locks_ok_def by (simp add: set_phase_def) (metis admitting.simps(4))
  moreover have "held frepr fread ?sv"
    unfolding held_def
  proof (intro allI impI)
    fix q m'
    assume a: "active ?sv q = Some m'"
    show "safe_story_id (sm_story_id m') \<and> (\<exists>lf. map_of (sv_files ?sv) (lock_name m') = Some lf \<and> lf_holder lf = Some q \<and>
        (sv_phase ?sv q \<noteq> Locked m' \<longrightarrow> written frepr fread m' (lf_text lf)))"
    proof (cases "q = p")
      case True
      then show ?thesis using a i(6) lf by (simp add: act files watches_def) (simp add: set_phase_def)
    next
      case False
      then have q: "active sv q = Some m'" using a act [of q] by simp
      then show ?thesis using i(2) other [OF q] False unfolding held_def files by (simp add: set_phase_def)
    qed
  qed
  moreover have "holders ?sv"
    unfolding holders_def
  proof (intro allI impI)
    fix f lf2 q
    assume a: "map_of (sv_files ?sv) f = Some lf2" "lf_holder lf2 = Some q"
    show "\<exists>m'. active ?sv q = Some m' \<and> f = lock_name m'"
    proof (cases "f = lock_name m")
      case True
      then have "q = p" using a lf by (simp add: files)
      then show ?thesis using True by (intro exI [of _ m]) (simp add: act)
    next
      case False
      then have "map_of (sv_files sv) f = Some lf2" using a(1) by (simp add: files)
      with i(3) a(2) obtain m' where "active sv q = Some m'" "f = lock_name m'" unfolding holders_def by blast
      then show ?thesis using none by (auto simp: act)
    qed
  qed
  moreover have "apart ?sv"
    unfolding apart_def act using i(4) seen_parallel [of m seen] other i(6) none
    by (auto simp: apart_def watches_def collide_sym [of _ "footprint_of m"] split: if_splits)
  moreover have "few ?sv"
  proof -
    have "actives ?sv = insert p (actives sv)" by (auto simp: actives_def act split: if_splits)
    moreover have "card (actives sv) \<le> 1" using i(6) other by (intro room_for_one [OF i(2)]) (auto simp: watches_def)
    ultimately show ?thesis using i(5) by (simp add: few_def card_insert_if)
  qed
  moreover have "watches ?sv (sv_phase ?sv q)" for q
    using others_not_admitting [OF i(1) lock, of q] by (cases "q = p") (simp_all add: set_phase_def idle_watches watches_def [of _ "Locked m"])
  ultimately show ?thesis by (simp add: sv_inv_def)
qed

lemma inv_take:
  assumes inv: "sv_inv frepr fread sv" and "take_story_lock p sv = Some sv'"
  shows "sv_inv frepr fread sv'"
proof -
  from assms(2) obtain m seen where ph: "sv_phase sv p = Admitted m seen"
    by (auto simp: take_story_lock_def split: phase.splits)
  show ?thesis
  proof (cases "map_of (sv_files sv) (lock_name m)")
    case None
    then show ?thesis using assms(2) ph inv_join [OF inv ph, of "\<lparr> lf_text = [], lf_holder = Some p \<rparr>"]
      by (auto simp: take_story_lock_def)
  next
    case (Some lf)
    then show ?thesis using assms(2) ph inv_join [OF inv ph, of "lf\<lparr> lf_holder := Some p \<rparr>"] inv_leave [OF inv, of p]
      by (cases "lf_holder lf") (auto simp: take_story_lock_def)
  qed
qed

lemma inv_write:
  assumes inv: "sv_inv frepr fread sv" and "write_story_metadata frepr fread p n pid now sv = Some sv'"
  shows "sv_inv frepr fread sv'"
proof -
  from assms(2) obtain m where ph: "sv_phase sv p = Locked m" and r: "readable frepr fread now"
    and sv': "sv' = set_phase p (Written m) (sv\<lparr> sv_files := dict_put (lock_name m)
      \<lparr> lf_text = take n (metadata_text frepr m pid now), lf_holder = Some p \<rparr> (sv_files sv) \<rparr>)"
    by (auto simp: write_story_metadata_def split: phase.splits if_splits)
  let ?lf = "\<lparr> lf_text = take n (metadata_text frepr m pid now), lf_holder = Some p \<rparr>"
  have i: "locks_ok sv" "held frepr fread sv" "holders sv" "apart sv" "few sv" using inv by (simp_all add: sv_inv_def)
  have lock: "sv_lock sv = Some p" using i(1) ph unfolding locks_ok_def by (metis admitting.simps(5))
  have act: "active sv' q = active sv q" for q using ph by (simp add: sv' set_phase_def)
  have files: "map_of (sv_files sv') f = (if f = lock_name m then Some ?lf else map_of (sv_files sv) f)" for f by (simp add: sv' set_phase_def)
  have phases: "sv_phase sv' q = (if q = p then Written m else sv_phase sv q)" for q by (simp add: sv' set_phase_def)
  have mine: "active sv p = Some m" using ph by simp
  have "locks_ok sv'" using i(1) lock unfolding locks_ok_def phases by (auto simp: sv' set_phase_def)
  moreover have "held frepr fread sv'"
    unfolding held_def act
  proof (intro allI impI)
    fix q m'
    assume a: "active sv q = Some m'"
    show "safe_story_id (sm_story_id m') \<and> (\<exists>lf. map_of (sv_files sv') (lock_name m') = Some lf \<and> lf_holder lf = Some q \<and>
        (sv_phase sv' q \<noteq> Locked m' \<longrightarrow> written frepr fread m' (lf_text lf)))"
    proof (cases "q = p")
      case True
      then have "m' = m" using a mine by simp
      moreover have "written frepr fread m (lf_text ?lf)" using r unfolding written_def by auto
      moreover have "safe_story_id (sm_story_id m)" using i(2) mine unfolding held_def by blast
      ultimately show ?thesis using True by (simp add: files)
    next
      case False
      then have "lock_name m' \<noteq> lock_name m" using held_distinct [OF i(2) a mine] by blast
      then show ?thesis using i(2) a False unfolding held_def files phases by simp
    qed
  qed
  moreover have "holders sv'"
    unfolding holders_def act files
  proof (intro allI impI)
    fix f lf q
    assume a: "(if f = lock_name m then Some ?lf else map_of (sv_files sv) f) = Some lf" "lf_holder lf = Some q"
    show "\<exists>m'. active sv q = Some m' \<and> f = lock_name m'"
    proof (cases "f = lock_name m")
      case True
      then have "q = p" using a by auto
      then show ?thesis using True mine by blast
    next
      case False
      then show ?thesis using a i(3) unfolding holders_def by simp
    qed
  qed
  moreover have "apart sv'" "few sv'" using i(4,5) by (simp_all add: apart_def few_def actives_def act)
  moreover have "watches sv' (sv_phase sv' q)" for q
    using others_not_admitting [OF i(1) lock, of q] by (cases "q = p") (simp_all add: phases idle_watches watches_def [of _ "Written m"])
  ultimately show ?thesis by (simp add: sv_inv_def)
qed

lemma inv_go:
  assumes inv: "sv_inv frepr fread sv" and "go p sv = Some sv'"
  shows "sv_inv frepr fread sv'"
proof -
  from assms(2) obtain m where ph: "sv_phase sv p = Written m" and sv': "sv' = set_phase p (Running m) (sv\<lparr> sv_lock := None \<rparr>)"
    by (auto simp: go_def split: phase.splits)
  have i: "locks_ok sv" "held frepr fread sv" "holders sv" "apart sv" "few sv" using inv by (simp_all add: sv_inv_def)
  have lock: "sv_lock sv = Some p" using i(1) ph unfolding locks_ok_def by (metis admitting.simps(6))
  have act: "active sv' q = active sv q" for q using ph by (simp add: sv' set_phase_def)
  have files: "sv_files sv' = sv_files sv" by (simp add: sv' set_phase_def)
  have phases: "sv_phase sv' q = (if q = p then Running m else sv_phase sv q)" for q by (simp add: sv' set_phase_def)
  have idle: "\<not> admitting (sv_phase sv' q)" for q using others_not_admitting [OF i(1) lock, of q] by (simp add: phases)
  then have "locks_ok sv'" by (simp add: locks_ok_def sv' set_phase_def)
  moreover have "held frepr fread sv'"
    unfolding held_def act files
  proof (intro allI impI)
    fix q m'
    assume a: "active sv q = Some m'"
    then obtain lf where "safe_story_id (sm_story_id m')" "map_of (sv_files sv) (lock_name m') = Some lf" "lf_holder lf = Some q"
      "sv_phase sv q \<noteq> Locked m' \<longrightarrow> written frepr fread m' (lf_text lf)" using i(2) unfolding held_def by blast
    moreover have "sv_phase sv q \<noteq> Locked m'" using idle [of q] ph by (cases "q = p") (auto simp: phases)
    ultimately show "safe_story_id (sm_story_id m') \<and> (\<exists>lf. map_of (sv_files sv) (lock_name m') = Some lf \<and> lf_holder lf = Some q \<and>
        (sv_phase sv' q \<noteq> Locked m' \<longrightarrow> written frepr fread m' (lf_text lf)))" by blast
  qed
  moreover have "holders sv'" "apart sv'" "few sv'"
    using i(3-5) by (simp_all add: holders_def apart_def few_def actives_def act files)
  ultimately show ?thesis using idle by (simp add: sv_inv_def idle_watches)
qed

lemma sv_reachable_inv: "sv_reachable frepr fread rnd sv \<Longrightarrow> sv_inv frepr fread sv"
proof (induction rule: sv_reachable.induct)
  case (sv_initial files)
  then show ?case
    by (auto simp: sv_inv_def locks_ok_def held_def holders_def apart_def few_def actives_def watches_def)
next
  case (sv_step sv act_op sv')
  then show ?case
    by (cases act_op)
      (auto simp: sv_apply_def intro: inv_start inv_read inv_decide inv_take inv_write inv_go inv_leave)
qed

text \<open>C14. Stories that run at the same time never collide: in whatever order supervisors start, read, write, end and die, also when
  metadata is stored or read only in part, running stories have different names, the collision check calls every two of
  them parallel, and there are at most two.\<close>

theorem running_stories_never_collide:
  assumes "sv_reachable frepr fread rnd sv"
  shows "(\<forall>p q m m'. p \<noteq> q \<longrightarrow> sv_phase sv p = Running m \<longrightarrow> sv_phase sv q = Running m' \<longrightarrow>
      sm_story_id m \<noteq> sm_story_id m' \<and> fst (collide (footprint_of m) (footprint_of m')) = PARALLEL) \<and>
    finite {p. \<exists>m. sv_phase sv p = Running m} \<and> card {p. \<exists>m. sv_phase sv p = Running m} \<le> 2"
proof -
  have i: "held frepr fread sv" "apart sv" "few sv" using sv_reachable_inv [OF assms] by (simp_all add: sv_inv_def)
  have "sm_story_id m \<noteq> sm_story_id m' \<and> fst (collide (footprint_of m) (footprint_of m')) = PARALLEL"
    if "p \<noteq> q" "sv_phase sv p = Running m" "sv_phase sv q = Running m'" for p q m m'
    using that i(2) held_distinct [OF i(1), of p m q m'] by (auto simp: apart_def)
  moreover have "{p. \<exists>m. sv_phase sv p = Running m} \<subseteq> actives sv" by (auto simp: actives_def)
  then have "finite {p. \<exists>m. sv_phase sv p = Running m}" "card {p. \<exists>m. sv_phase sv p = Running m} \<le> card (actives sv)"
    using i(3) by (auto simp: few_def intro: finite_subset card_mono)
  ultimately show ?thesis using i(3) by (simp add: few_def)
qed


section \<open>Two stories at once\<close>

definition checkpoint_with :: "string \<Rightarrow> checkpoint_file" where
  "checkpoint_with path = Checkpoint (JObj [(''write_paths'', JList [JStr path])])"

definition half_float :: "rat \<Rightarrow> string" where
  "half_float q = ''1.5''"

definition read_half :: "string \<Rightarrow> rat" where
  "read_half s = 3 / 2"

definition admit_ops :: "nat \<Rightarrow> string \<Rightarrow> string \<Rightarrow> nat \<Rightarrow> sv_op list" where
  "admit_ops p story path others =
     Start p story (checkpoint_with path) # replicate others (ReadNext p) @ [Decide p, TakeLock p, WriteMeta p 1000 7 (3 / 2), Go p]"

fun sv_run :: "sv_op list \<Rightarrow> supervisors \<Rightarrow> supervisors option" where
  "sv_run [] sv = Some sv"
| "sv_run (x # xs) sv = (case sv_apply half_float read_half id x sv of None \<Rightarrow> None | Some sv' \<Rightarrow> sv_run xs sv')"

definition no_supervisors :: supervisors where
  "no_supervisors = \<lparr> sv_lock = None, sv_files = [], sv_phase = (\<lambda>_. Idle) \<rparr>"

definition two_running :: supervisors where
  "two_running = the (sv_run (admit_ops 1 ''A-1'' ''src/'' 0 @ admit_ops 2 ''B-2'' ''docs/a.md'' 1) no_supervisors)"

fun runs :: "phase \<Rightarrow> string \<Rightarrow> bool" where
  "runs (Running m) s \<longleftrightarrow> sm_story_id m = s"
| "runs _ s \<longleftrightarrow> False"

lemma sv_run_reachable:
  "sv_reachable half_float read_half id sv \<Longrightarrow> sv_run ops sv = Some sv' \<Longrightarrow> sv_reachable half_float read_half id sv'"
  by (induction ops sv rule: sv_run.induct) (auto split: option.splits intro: sv_step)

lemma two_run:
  "sv_run (admit_ops 1 ''A-1'' ''src/'' 0 @ admit_ops 2 ''B-2'' ''docs/a.md'' 1) no_supervisors \<noteq> None"
  "runs (sv_phase two_running 1) ''A-1''" "runs (sv_phase two_running 2) ''B-2''"
  by code_simp+

theorem running_stories_never_collide_witness:
  "\<exists>m m'. sv_phase two_running 1 = Running m \<and> sv_phase two_running 2 = Running m' \<and>
     fst (collide (footprint_of m) (footprint_of m')) = PARALLEL"
proof -
  have "sv_reachable half_float read_half id no_supervisors" unfolding no_supervisors_def by (rule sv_initial) simp
  moreover have "sv_run (admit_ops 1 ''A-1'' ''src/'' 0 @ admit_ops 2 ''B-2'' ''docs/a.md'' 1) no_supervisors = Some two_running"
    using two_run(1) by (simp add: two_running_def)
  ultimately have "sv_reachable half_float read_half id two_running" by (rule sv_run_reachable)
  note apart = conjunct1 [OF running_stories_never_collide [OF this]]
  obtain m where m: "sv_phase two_running 1 = Running m" using two_run(2) by (cases "sv_phase two_running 1") auto
  obtain m' where m': "sv_phase two_running 2 = Running m'" using two_run(3) by (cases "sv_phase two_running 2") auto
  have "(1 :: nat) \<noteq> 2" by simp
  with apart m m' show ?thesis by blast
qed

text \<open>The checkpoint that admission reads lies in the shared directory: two stories that are admitted on the same
  checkpoint with declared paths can never run together.\<close>

theorem same_checkpoint_serializes:
  assumes "read_story_metadata frepr dir s file = Inr m" and "read_story_metadata frepr dir s' file = Inr m'"
  shows "fst (collide (footprint_of m) (footprint_of m')) = SERIALIZED"
proof -
  have "sm_write_paths m = sm_write_paths m'" using assms by (auto simp: read_story_metadata_def bind_res_Inr)
  then have "\<not> fst (collide (footprint_of m) (footprint_of m')) = PARALLEL"
    unfolding parallel_iff valid_footprint_def is_known_def
    by (cases "sm_write_paths m'") (simp_all add: footprint_of_def clash_def)
  then show ?thesis by (cases "fst (collide (footprint_of m) (footprint_of m'))") simp_all
qed

end
