(* ===== verification/Spec2Isabelle.thy ===== *)
theory Spec2Isabelle
  imports Governor Selection Claims Run_End Outcome_Records Story_Supervisor
begin

text \<open>
  A verification development of the orchestration core of Verdict, the control plane under
  \<open>src/verdict\<close> that plans coding work as a graph, sends each node to an eligible model route, checks
  the result and reports an explicit outcome.

  \<^bold>\<open>The program's parts.\<close> A plan is a \<open>WorkGraph\<close> of \<open>WorkNode\<close>s (\<open>orchestration/contracts.py\<close>). The
  runtime (\<open>orchestration/runtime.py\<close>) holds one \<open>NodeRun\<close> per node; its main coroutine polls operator
  controls, propagates blocks and starts a driver for every ready node; a driver selects a route, proves
  it (\<open>relay.py\<close>), commits a dispatch permit (\<open>orchestration/health_cache.py\<close>), sends the work, validates
  the change, and reacts to failures, which \<open>orchestration/recovery.py\<close> classifies. Routes share credential
  pools (\<open>orchestration/credential_pools.py\<close>, \<open>provider_catalog.py\<close>) whose request budgets are token
  buckets (\<open>health_cache.py\<close>). When no task is left the run merges its leaves, asks an independent
  reviewer and ends COMPLETE, BLOCKED or CANCELLED. Everything that happens is an event of an append-only log, from
  which the receipt of the run and the rows of an attempt ledger are built and can be rebuilt
  (\<open>orchestration/receipt.py\<close>, \<open>outcome_records.py\<close>). Above the runs, supervisors (\<open>scripts/prime_supervisor.py\<close>)
  work on several stories at once: a story starts when its dependencies are verified, its footprint collides with
  no running story and the governor (\<open>orchestration/concurrency_governor.py\<close>) has room for it.

  \<^bold>\<open>Theories.\<close>
  \<^item> \<open>Prelude\<close>: type names, error results, Python's string, list and dictionary operations.
  \<^item> \<open>Contracts\<close> (\<open>contracts.py\<close>): the enumerations, the lifecycle table and \<open>check_transition\<close>, path
    normalisation, node construction, ownership, task requirements, route names, reviews.
  \<^item> \<open>Work_Graph\<close> (\<open>contracts.py\<close>): \<open>WorkGraph.__post_init__\<close>, \<open>layers\<close>, \<open>ancestors\<close>, \<open>_check_ownership\<close>,
    against the declarative \<open>valid_plan\<close>.
  \<^item> \<open>Py_Re\<close>: a backtracking matcher for the regular expressions the code uses, with search, findall and
    substitution.
  \<^item> \<open>Py_Json\<close>: JSON values, \<open>json.dumps\<close> in the styles the code uses and \<open>json.loads\<close>, with the round trip.
    \<open>Json_Prefix\<close>: the text of an object that was stored only in part does not load.
  \<^item> \<open>Graph_Json\<close> (\<open>contracts.py\<close>): the dictionaries and the JSON text of nodes and graphs.
  \<^item> \<open>Recovery\<close> (\<open>recovery.py\<close>): \<open>FailureIntelligence.classify\<close>, reset hints, redaction, \<open>RecoveryBudget\<close>.
  \<^item> \<open>Credential_Pools\<close> (\<open>credential_pools.py\<close>, \<open>provider_catalog.py\<close>): pools, canonical routes, aliases.
  \<^item> \<open>Token_Buckets\<close> (\<open>health_cache.py\<close>): sliding-window budgets, reservations, merges, legacy keys.
  \<^item> \<open>Governor\<close> (\<open>concurrency_governor.py\<close>): admission under caps and resource pressure.
  \<^item> \<open>Health_Entries\<close> (\<open>health_cache.py\<close>): \<open>HealthEntry\<close> with all its fields, the lifetimes, lookups and every
    recorder of route evidence; the contract of a route writer as a locale, interpreted on the five recorders.
  \<^item> \<open>Dispatch_Permits\<close> (\<open>health_cache.py\<close>, \<open>relay.py\<close>): scopes, revocation epochs, commits, merges of two
    views, admission proofs; the contract of a revocable ledger as a locale, interpreted on the store.
  \<^item> \<open>Health_Store\<close> (\<open>health_cache.py\<close>): the file and the views of many processes: \<open>_load\<close>, \<open>_snapshot\<close>, \<open>save\<close>,
    \<open>reload\<close>, \<open>merge_and_save\<close>, scoped cooldowns, and the step relation of all interleavings with its
    coherence invariant (a view that is not of an older revision remembers the file's failures).
  \<^item> \<open>Session_Feedback\<close> (\<open>session_feedback.py\<close>, \<open>relay.py\<close>): classified failures of live traffic as locked
    updates of the store.
  \<^item> \<open>Admission\<close> (\<open>admission.py\<close>, \<open>availability.py\<close>, \<open>subscription_headroom.py\<close>): the evidence of the state files and
    of subscription snapshots, the judgement of a route, \<open>admit\<close> and the operations of an \<open>AdmittedSet\<close>; what every
    derivation keeps as a locale on records, interpreted on confirmations, narrowings and their sequences.
  \<^item> \<open>Eligibility\<close> (\<open>eligibility.py\<close>, \<open>capacity.py\<close>, \<open>provider_catalog.py\<close>): the assessment of a
    route stage by stage, capacity classes, cooldowns, quota, ranking and the order of the probes, against the
    declarative \<open>passes_gates\<close>.
  \<^item> \<open>Session_Evidence\<close> (\<open>session_evidence.py\<close>): outcomes of worker sessions, the deduplicating ledger, its summaries,
    which the ladder reads, and the importer.
  \<^item> \<open>Claims\<close> (\<open>claims.py\<close>): the claims of a finished run, derived from the JSON of its event log and receipt.
  \<^item> \<open>Selection\<close> (\<open>eligibility.py\<close>, \<open>admit_prove_confirm.py\<close>): \<open>select\<close> with refresh, confirmation loop and
    admission confirmations, the records of probes, failures and successes, and the check before a dispatch,
    over the ladder's state file and the shared health cache.
  \<^item> \<open>Runtime_State\<close> (\<open>runtime.py\<close>, \<open>controls.py\<close>): policy, node records, the runtime, control handlers,
    \<open>_ready\<close>, \<open>_propagate_blocks\<close>.
  \<^item> \<open>Node_Driver\<close> (\<open>runtime.py\<close>): everything \<open>_drive\<close> does to its node, as actions on the driver's state.
  \<^item> \<open>Driver_Loop\<close>: laws of the driver. A locale states what every action keeps and is interpreted twice
    (the identity of the attempt, the lifecycle trace); weakest preconditions give the outcomes.
  \<^item> \<open>Run_Loop\<close> (\<open>runtime.py\<close>): the event loop as a step relation, up to and after a cancellation of the run, and its
    scheduling invariant. In this relation a driver is abstracted to any change of its own record along the
    lifecycle; \<open>driver_refines_steps\<close> shows that the drivers of \<open>Node_Driver\<close> are covered.
  \<^item> \<open>Run_End\<close> (\<open>runtime.py\<close>): the exits of \<open>run\<close> and \<open>_conclude\<close>.
  \<^item> \<open>Event_Log\<close> (\<open>receipt.py\<close>): scrubbing of secrets, opening with the repair of a torn tail, \<open>emit\<close> and \<open>read\<close>.
  \<^item> \<open>Receipt\<close> (\<open>receipt.py\<close>): \<open>build_run_receipt\<close>, \<open>completion_verdict\<close>, \<open>verify_run_receipt\<close>, against a declarative
    reading of the files of a run.
  \<^item> \<open>Outcome_Records\<close> (\<open>outcome_records.py\<close>, \<open>receipt.py\<close>): \<open>write_run_receipt\<close> with the outcome records, the attempt
    ledger and the run index.
  \<^item> \<open>Story_Footprint\<close> (\<open>story_footprint.py\<close>): paths, patterns, authorities and the collision of two stories.
  \<^item> \<open>Story_Admission\<close> (\<open>ready_gate.py\<close>, \<open>supervisor_admission.py\<close>, \<open>prime_supervisor.py\<close>): the three gates of an
    admission, the metadata of a story and the lock files.
  \<^item> \<open>Story_Supervisor\<close> (\<open>prime_supervisor.py\<close>, \<open>supervisor_admission.py\<close>): any number of supervisors over one state
    directory as a step relation, and its invariant.
  \<^item> this theory: properties that span components.

  \<^bold>\<open>State and effects.\<close> Records carry the fields of the source's classes that the modelled code reads.
  Exceptions are \<open>Inl\<close> values; a driver action returns its result and the state, which survives an
  exception. What lies outside the process (the selector, git, the worker, commands, the clock, the
  content of the permit store at each access, since other processes write it) is an answer of a \<open>turn\<close>;
  random ids and SHA-256 digests are arguments. Events carry the fields the properties need; display
  fields are left out. Times and durations are exact rationals where Python has floats or datetimes.

  \<^bold>\<open>What the lemmas show.\<close> A graph is accepted exactly when it is a valid plan, and its layers and
  ancestors are right. A driver ends within its budget, only along the lifecycle table, and validates a
  node only when the attempt earned it. Every interleaving of drivers, crashes, controls and turns starts
  work only after its dependencies, keeps validated nodes, and leaves nothing open when the loop ends. A
  run is COMPLETE only with every node validated and an independent passing review. A send under an
  authority needs a fresh proof, a current epoch and an unused attempt, and a revocation stops it.
  Failures are charged to the right scope. A failure that reached the shared file is never forgotten, in
  whatever order processes save, merge and reload, so no older proof is dispatched on it; cooldowns end early
  only by an explicit clear; passive evidence grants no capability. A failing route backs off by doubled and capped times until the
  doubling overflows. An admission admits only listed and connected routes without evidence against them (a route
  of unknown headroom without the checks of capability and policy), what is derived from it only shrinks, and local
  files alone never make a route launchable. A selected route passed every gate and was
  confirmed, no cheaper class was passed over, the probes stay within their budget, and a failure recorded for a
  shared credential stops its whole pool and no other, for the recording ladder and for every ladder while the state
  file keeps the entry. A verified false claim keeps a free route from implementation work, repeated
  imports count once, and a run claims nothing that its log does not show. The log survives crashes in the middle of
  a write, a plan survives its file, a receipt says COMPLETE exactly when the files show it, quality is credited only to
  attempts that a later check judged, and a run is recorded once. Stories that run at the same time never collide,
  in whatever order supervisors start, write and die. Budgets and aliases are exact.

  \<^bold>\<open>Bounds.\<close> Loops are structural, \<open>function\<close>s with a measure, or, for the driver's
  \<open>while True\<close>, a \<open>partial_function\<close> whose termination is a theorem for every environment. Only the JSON parser uses
  fuel, twice the length of the text plus two; \<open>Py_Json\<close> shows that more never changes a result.

  \<^bold>\<open>Not modelled.\<close> The JSON text of the health cache and of the ladder's state file (plans, logs, receipts and lock
  files have theirs), the wait for the cache lock (a locked update is one step) and failing
  writes; the ratings and passports that a selection reads (answers of the environment); the fetch of inventory and
  connections (\<open>load_live_admission\<close>); the planner (text of models) and, of the supervisors, the recovery of sessions,
  stale leases and the integration lock, which nothing takes; executors, git, review services and gates (subprocesses and network,
  present as answers); command line, API, dashboards, rendering, harness and memory adapters.
\<close>

section \<open>Properties that span components\<close>

subsection \<open>From the passport to the send\<close>

text \<open>What a permit that lets a worker start says about the store it was committed on.\<close>

lemma sent_with_permit:
  assumes "cfg_authority cfg = Some au" and "nr_state (dr_run s) = ADMITTED"
    and "run_dispatch cfg tu base s = (Inr (Executed w), t)"
  obtains pf p st st' where "nr_dispatch_proof (dr_run s) = Some pf" and "nr_permit (dr_run t) = Some p"
    and "ap_route_id pf = nr_route_id (dr_run s)" and "tu_commit_store tu = Inr st"
    and "commit_for cfg tu (dr_run s) pf st = Inr (Some p, st')"
proof -
  have same: "same_attempt s t"
    using attempt_id.along_dispatch [of cfg tu base] assms(3) by (metis along_def snd_conv)
  have "may_send cfg tu (dr_run t)"
    using wp_dispatch [OF assms(2), of cfg tu base] assms(3) by (simp add: wp_def sent_post_def)
  then obtain pf p st st' where sent: "nr_dispatch_proof (dr_run t) = Some pf" "ap_route_id pf = nr_route_id (dr_run t)"
    "nr_permit (dr_run t) = Some p" "tu_commit_store tu = Inr st" "commit_for cfg tu (dr_run t) pf st = Inr (Some p, st')"
    unfolding may_send_def assms(1) option.case by blast
  have "commit_for cfg tu (dr_run t) pf st = commit_for cfg tu (dr_run s) pf st"
    using same by (simp add: same_attempt_def commit_for_def permit_attempt_id_def)
  moreover have "nr_dispatch_proof (dr_run s) = Some pf" "ap_route_id pf = nr_route_id (dr_run s)"
    using same sent(1,2) by (simp_all add: same_attempt_def)
  ultimately show ?thesis using that sent(3-5) by metis
qed

text \<open>C12. Under a dispatch authority a worker is started only on a proof that is current at the commit: the
  permit is for the bound route, the store's revocation epoch of the proof's scope is the one the proof
  captured, the attempt id was unused and is consumed, and the time lies between the qualification and
  the expiry of the proof, at most ten minutes after the qualification.\<close>

theorem send_is_freshly_proven:
  assumes "cfg_authority cfg = Some au" and "nr_state (dr_run s) = ADMITTED"
    and "run_dispatch cfg tu base s = (Inr (Executed w), t)"
  shows "\<exists>pf p st st'. nr_dispatch_proof (dr_run s) = Some pf \<and> nr_permit (dr_run t) = Some p \<and>
    tu_commit_store tu = Inr st \<and> commit_for cfg tu (dr_run s) pf st = Inr (Some p, st') \<and>
    pm_route_id p = nr_route_id (dr_run s) \<and> pm_epoch p = revocation_epoch st (ap_scope pf) \<and>
    ap_epoch pf = revocation_epoch st (ap_scope pf) \<and>
    permit_for_attempt st (permit_attempt_id cfg (dr_run s)) = None \<and>
    permit_for_attempt st' (permit_attempt_id cfg (dr_run s)) = Some p \<and>
    ap_qualified_at pf \<le> tu_commit_now tu \<and> tu_commit_now tu < ap_expires_at pf \<and>
    tu_commit_now tu < ap_qualified_at pf + 600"
proof -
  from sent_with_permit [OF assms] obtain pf p st st' where
    sent: "nr_dispatch_proof (dr_run s) = Some pf" "nr_permit (dr_run t) = Some p"
      "ap_route_id pf = nr_route_id (dr_run s)" "tu_commit_store tu = Inr st"
      "commit_for cfg tu (dr_run s) pf st = Inr (Some p, st')" .
  note minted = commit_dispatch_Some [OF sent(5) [unfolded commit_for_def]]
  show ?thesis using sent minted
    by (intro exI [of _ pf] exI [of _ p] exI [of _ st] exI [of _ st'])
       (auto simp: PERMIT_PROOF_MAX_VALIDITY_SECONDS_def)
qed

text \<open>A revocation that arrives between the binding of a route and its send stops the send: when the
  proof was captured from one state of the store and the scope saw a new negative before the store the
  commit reads, the dispatch never reaches the worker, whatever else was written in between.\<close>

theorem revocation_before_send_stops_it:
  assumes "cfg_authority cfg = Some au" and "nr_state (dr_run s) = ADMITTED"
    and "admission_proof_of s0 conf route scope digest provider model now = Some pf"
    and "nr_dispatch_proof (dr_run s) = Some pf" and "store_step\<^sup>*\<^sup>* s0 s1"
    and "ev \<notin> fst ` set (ss_revocations (scope_record s1 scope))"
    and "record_revocation scope r ev src seen s1 = Inr (e, s2)" and "store_step\<^sup>*\<^sup>* s2 u"
    and "tu_commit_store tu = Inr u"
  shows "fst (run_dispatch cfg tu base s) \<noteq> Inr (Executed w)"
proof
  assume "fst (run_dispatch cfg tu base s) = Inr (Executed w)"
  then have "run_dispatch cfg tu base s = (Inr (Executed w), snd (run_dispatch cfg tu base s))"
    by (metis prod.collapse)
  from sent_with_permit [OF assms(1,2) this] obtain pf' p st st' where
    "nr_dispatch_proof (dr_run s) = Some pf'" "tu_commit_store tu = Inr st"
    "commit_for cfg tu (dr_run s) pf' st = Inr (Some p, st')" .
  then have sent: "commit_for cfg tu (dr_run s) pf u = Inr (Some p, st')" using assms(4,9) by simp
  have captured: "ap_scope pf = scope" "ap_epoch pf = revocation_epoch s0 scope"
    using assms(3) by (auto simp: admission_proof_of_def split: if_splits option.splits)
  have "new_negative scope s1 s2" unfolding new_negative_def using assms(6,7) by blast
  moreover have "minted scope (ap_epoch pf) (permit_attempt_id cfg (dr_run s)) p u st'"
    unfolding minted_def using sent [unfolded commit_for_def captured(1)] by blast
  ultimately show False
    using permits.stale_never_commits [OF assms(5) _ assms(8)] captured(2) by force
qed


section \<open>A concrete send and a concrete denial\<close>

definition sample_authority :: authority where
  "sample_authority = \<lparr> au_gateway_origin = ''u'', au_matches = (=), au_unresolved = False, au_origin = ''u'',
     au_generation = (\<lambda>provider model route. route), au_profile_digest = wn_node_id \<rparr>"

definition secured_config :: driver_config where
  "secured_config = sample_config \<lparr> cfg_authority := Some sample_authority \<rparr>"

definition secured_turn :: "permit_store \<Rightarrow> turn" where
  "secured_turn st = (sample_turn True) \<lparr> tu_origin := Some ''u'', tu_commit_store := Inr st, tu_commit_now := 100 \<rparr>"

definition sample_confirmation :: confirmation where
  "sample_confirmation = \<lparr> cf_admitted = [''cc/m''], cf_receipt_id = ''x'',
     cf_passport = [\<lparr> pr_identity_id = ''cc/m'', pr_fresh = True, pr_auth_state = ''authorized'',
       pr_availability_state = ''eligible'', pr_qualified_at = Some 60, pr_expires_at = Some 500 \<rparr>] \<rparr>"

definition sample_proof :: admission_proof where
  "sample_proof = the (admission_proof_of empty_store sample_confirmation ''cc/m'' sample_scope ''x'' ''cc'' ''cc/m'' 100)"

definition proven_driver :: driver where
  "proven_driver = admitted_driver \<lparr> dr_run := (dr_run admitted_driver)
     \<lparr> nr_route_id := ''cc/m'', nr_dispatch_proof := Some sample_proof \<rparr> \<rparr>"

lemma proven_driver_sends:
  "cfg_authority secured_config = Some sample_authority" "nr_state (dr_run proven_driver) = ADMITTED"
  "nr_dispatch_proof (dr_run proven_driver) = Some sample_proof"
  by (simp add: secured_config_def, code_simp, simp add: proven_driver_def)

theorem send_is_freshly_proven_witness:
  "\<exists>p. nr_permit (dr_run (snd (run_dispatch secured_config (secured_turn empty_store) ''base'' proven_driver))) = Some p \<and>
     pm_route_id p = nr_route_id (dr_run proven_driver)"
proof -
  have "run_dispatch secured_config (secured_turn empty_store) ''base'' proven_driver =
      (Inr (Executed (execute ''cc/m'' (tu_exec (sample_turn True)))),
       snd (run_dispatch secured_config (secured_turn empty_store) ''base'' proven_driver))"
    by code_simp
  from send_is_freshly_proven [OF proven_driver_sends(1,2) this] show ?thesis by blast
qed

theorem revocation_before_send_stops_it_witness:
  "\<forall>w. fst (run_dispatch secured_config (secured_turn revoked_store) ''base'' proven_driver) \<noteq> Inr (Executed w)"
proof
  fix w
  have proved: "admission_proof_of empty_store sample_confirmation ''cc/m'' sample_scope ''x'' ''cc'' ''cc/m'' 100 = Some sample_proof"
    by code_simp
  have new: "''ev'' \<notin> fst ` set (ss_revocations (scope_record empty_store sample_scope))" by code_simp
  have seen: "record_revocation sample_scope ''cc/x'' ''ev'' None 50 empty_store = Inr (1, revoked_store)" by code_simp
  have "tu_commit_store (secured_turn revoked_store) = Inr revoked_store" by (simp add: secured_turn_def)
  from revocation_before_send_stops_it [OF proven_driver_sends(1,2) proved proven_driver_sends(3) rtranclp.rtrancl_refl
      new seen rtranclp.rtrancl_refl this]
  show "fst (run_dispatch secured_config (secured_turn revoked_store) ''base'' proven_driver) \<noteq> Inr (Executed w)" .
qed

end
